(* ===== verification/Prelude.thy ===== *)
theory Prelude
  imports Main "HOL-Library.Word" "HOL-Library.Product_Lexorder"
begin

unbundle bit_operations_syntax

text \<open>
  Shared vocabulary of the development.

  \<^item> Bytes are \<open>8 word\<close>s, byte strings are lists of them. The 32- and 64-bit counters of
    the program are natural numbers with their upper bound written out
    (\<open>u32_max\<close>, \<open>u64_max\<close>) wherever the code checks for it; code that works on the bits
    of an integer uses \<open>word\<close>s.
  \<^item> A fallible function returns \<open>'e + 'a\<close>; \<open>Err\<close> and \<open>Ok\<close> name the two sides and
    \<open>res_bind\<close> is Rust's \<open>?\<close> operator.
  \<^item> Fixed-width little- and big-endian encodings with their round trips, and the
    length-prefixed framing that several hashes use, with its injectivity.
\<close>

section \<open>Names for the machine's types\<close>

type_synonym u8 = "8 word"
type_synonym bytes = "u8 list"

abbreviation u16_max :: nat where "u16_max \<equiv> 65535"
abbreviation u32_max :: nat where "u32_max \<equiv> 4294967295"
abbreviation u64_max :: nat where "u64_max \<equiv> 18446744073709551615"

named_theorems framing "injectivity and length facts of the byte framings"
named_theorems result_simps "decomposition of results built with res_bind"

section \<open>Results\<close>

abbreviation Err :: "'e \<Rightarrow> 'e + 'a" where "Err \<equiv> Inl"
abbreviation Ok :: "'a \<Rightarrow> 'e + 'a" where "Ok \<equiv> Inr"

definition res_bind :: "'e + 'a \<Rightarrow> ('a \<Rightarrow> 'e + 'b) \<Rightarrow> 'e + 'b" where
  "res_bind m f = (case m of Inl e \<Rightarrow> Inl e | Inr x \<Rightarrow> f x)"

lemma res_bind_simps [simp]:
  "res_bind (Inl e) f = Inl e"
  "res_bind (Inr x) f = f x"
  by (simp_all add: res_bind_def)

lemma res_bind_eq_Ok [result_simps]:
  "res_bind m f = Inr y \<longleftrightarrow> (\<exists>x. m = Inr x \<and> f x = Inr y)"
  by (cases m) simp_all

lemma res_bind_eq_Err [result_simps]:
  "res_bind m f = Inl e \<longleftrightarrow> m = Inl e \<or> (\<exists>x. m = Inr x \<and> f x = Inl e)"
  by (cases m) simp_all

lemma res_bind_cong [fundef_cong]:
  "m = m' \<Longrightarrow> (\<And>x. m' = Inr x \<Longrightarrow> f x = f' x) \<Longrightarrow> res_bind m f = res_bind m' f'"
  by (cases m') simp_all

text \<open>Rust's \<open>map_err\<close>.\<close>

definition map_err :: "('e \<Rightarrow> 'f) \<Rightarrow> 'e + 'a \<Rightarrow> 'f + 'a" where
  "map_err g m = (case m of Inl e \<Rightarrow> Inl (g e) | Inr x \<Rightarrow> Inr x)"

lemma map_err_simps [simp]:
  "map_err g (Inl e) = Inl (g e)"
  "map_err g (Inr x) = Inr x"
  by (simp_all add: map_err_def)

lemma map_err_eq_Ok [result_simps]: "map_err g m = Inr x \<longleftrightarrow> m = Inr x"
  by (cases m) simp_all

text \<open>Rust's \<open>ok_or\<close>, and the inverse direction.\<close>

definition ok_or :: "'e \<Rightarrow> 'a option \<Rightarrow> 'e + 'a" where
  "ok_or e x = (case x of None \<Rightarrow> Inl e | Some y \<Rightarrow> Inr y)"

lemma ok_or_simps [simp]:
  "ok_or e None = Inl e"
  "ok_or e (Some y) = Inr y"
  by (simp_all add: ok_or_def)

lemma ok_or_eq_Ok [result_simps]: "ok_or e x = Inr y \<longleftrightarrow> x = Some y"
  by (cases x) simp_all

definition is_ok :: "'e + 'a \<Rightarrow> bool" where
  "is_ok r = (case r of Inl _ \<Rightarrow> False | Inr _ \<Rightarrow> True)"

lemma is_ok_simps [simp]: "\<not> is_ok (Inl e)" "is_ok (Inr x)"
  by (simp_all add: is_ok_def)

lemma is_ok_iff: "is_ok r \<longleftrightarrow> (\<exists>x. r = Inr x)"
  by (cases r) simp_all

text \<open>Rust's \<open>checked_add\<close> on \<open>u64\<close> and \<open>saturating_mul\<close>; saturating subtraction is
  subtraction on \<open>nat\<close>.\<close>

definition checked_add_u64 :: "nat \<Rightarrow> nat \<Rightarrow> nat option" where
  "checked_add_u64 a b = (if a + b \<le> u64_max then Some (a + b) else None)"

lemma checked_add_u64_Some:
  "checked_add_u64 a b = Some c \<longleftrightarrow> c = a + b \<and> a + b \<le> u64_max"
  by (auto simp: checked_add_u64_def)

definition saturating_mul_u64 :: "nat \<Rightarrow> nat \<Rightarrow> nat" where
  "saturating_mul_u64 a b = min (a * b) u64_max"

definition div_ceil :: "nat \<Rightarrow> nat \<Rightarrow> nat" where
  "div_ceil a b = (if a mod b = 0 then a div b else a div b + 1)"

lemma div_ceil_ge: "0 < b \<Longrightarrow> a \<le> div_ceil a b * b"
proof -
  assume "0 < b"
  then have "a mod b < b" by simp
  have eq: "a div b * b + a mod b = a" by simp
  show ?thesis
  proof (cases "a mod b = 0")
    case True
    with eq show ?thesis by (simp add: div_ceil_def)
  next
    case False
    then have "div_ceil a b * b = a div b * b + b" by (simp add: div_ceil_def)
    with eq \<open>a mod b < b\<close> show ?thesis by linarith
  qed
qed

lemma div_ceil_bound: "0 < b \<Longrightarrow> div_ceil a b * b < a + b"
proof -
  assume "0 < b"
  have eq: "a div b * b + a mod b = a" by simp
  show ?thesis
  proof (cases "a mod b = 0")
    case True
    with eq \<open>0 < b\<close> show ?thesis by (simp add: div_ceil_def)
  next
    case False
    then have "div_ceil a b * b = a div b * b + b" by (simp add: div_ceil_def)
    with eq False show ?thesis by linarith
  qed
qed

section \<open>Byte strings\<close>

definition ascii :: "string \<Rightarrow> bytes" where
  "ascii s = map of_char s"

lemma length_ascii [simp]: "length (ascii s) = length s"
  by (simp add: ascii_def)

definition zeros :: "nat \<Rightarrow> bytes" where
  "zeros n = replicate n 0"

lemma length_zeros [simp]: "length (zeros n) = n"
  by (simp add: zeros_def)

text \<open>The accumulator loop \<open>acc |= b\<close> that several modules use to test for zero.\<close>

definition is_all_zero :: "bytes \<Rightarrow> bool" where
  "is_all_zero bs = (fold (\<lambda>b acc. acc OR b) bs 0 = 0)"

lemma fold_or_zero: "fold (\<lambda>b acc. acc OR b) bs (a :: u8) = 0 \<longleftrightarrow> a = 0 \<and> (\<forall>b\<in>set bs. b = 0)"
proof (induction bs arbitrary: a)
  case Nil
  then show ?case by simp
next
  case (Cons b bs)
  have "a OR b = 0 \<longleftrightarrow> a = 0 \<and> b = 0" by (rule or_eq_0_iff)
  with Cons show ?case by auto
qed

lemma is_all_zero_iff: "is_all_zero bs \<longleftrightarrow> bs = zeros (length bs)"
  by (auto simp: is_all_zero_def fold_or_zero zeros_def list_eq_iff_nth_eq all_set_conv_all_nth)

lemma is_all_zero_zeros [simp]: "is_all_zero (zeros n)"
  by (simp add: is_all_zero_iff)

section \<open>Fixed-width integers as bytes\<close>

text \<open>\<open>to_le_bytes\<close> of a \<open>k\<close>-byte unsigned integer, and reading it back.\<close>

fun le_bytes :: "nat \<Rightarrow> nat \<Rightarrow> bytes" where
  "le_bytes 0 n = []"
| "le_bytes (Suc k) n = word_of_nat (n mod 256) # le_bytes k (n div 256)"

fun le_value :: "bytes \<Rightarrow> nat" where
  "le_value [] = 0"
| "le_value (b # bs) = unat b + 256 * le_value bs"

definition be_bytes :: "nat \<Rightarrow> nat \<Rightarrow> bytes" where
  "be_bytes k n = rev (le_bytes k n)"

definition be_value :: "bytes \<Rightarrow> nat" where
  "be_value bs = le_value (rev bs)"

lemma length_le_bytes [simp]: "length (le_bytes k n) = k"
  by (induction k arbitrary: n) simp_all

lemma length_be_bytes [simp]: "length (be_bytes k n) = k"
  by (simp add: be_bytes_def)

lemma unat_byte_mod: "unat (word_of_nat (n mod 256) :: u8) = n mod 256"
  by (simp add: unat_of_nat)

lemma le_value_le_bytes: "n < 256 ^ k \<Longrightarrow> le_value (le_bytes k n) = n"
proof (induction k arbitrary: n)
  case 0
  then show ?case by simp
next
  case (Suc k)
  from Suc.prems have "n div 256 < 256 ^ k"
    by (simp add: less_mult_imp_div_less mult.commute)
  with Suc.IH have "le_value (le_bytes k (n div 256)) = n div 256" by blast
  then show ?case by (simp add: unat_byte_mod)
qed

lemma be_value_be_bytes: "n < 256 ^ k \<Longrightarrow> be_value (be_bytes k n) = n"
  by (simp add: be_value_def be_bytes_def le_value_le_bytes)

lemma le_value_bound: "le_value bs < 256 ^ length bs"
proof (induction bs)
  case Nil
  then show ?case by simp
next
  case (Cons b bs)
  have "unat b < 256" using unsigned_less [of b] by simp
  then have "unat b + 256 * le_value bs < 256 * (le_value bs + 1)" by simp
  also have "\<dots> \<le> 256 * 256 ^ length bs" using Cons by simp
  finally show ?case by simp
qed

lemma le_bytes_le_value: "le_bytes (length bs) (le_value bs) = bs"
proof (induction bs)
  case Nil
  then show ?case by simp
next
  case (Cons b bs)
  have b: "unat b < 256" using unsigned_less [of b] by simp
  then have "(unat b + 256 * le_value bs) mod 256 = unat b"
    and "(unat b + 256 * le_value bs) div 256 = le_value bs"
    by simp_all
  with Cons show ?case by simp
qed

lemma le_bytes_inject [framing]:
  "m < 256 ^ k \<Longrightarrow> n < 256 ^ k \<Longrightarrow> le_bytes k m = le_bytes k n \<longleftrightarrow> m = n"
  using le_value_le_bytes by metis

lemma be_bytes_inject [framing]:
  "m < 256 ^ k \<Longrightarrow> n < 256 ^ k \<Longrightarrow> be_bytes k m = be_bytes k n \<longleftrightarrow> m = n"
  using be_value_be_bytes by metis

lemma be_bytes_be_value: "be_bytes (length bs) (be_value bs) = bs"
  using le_bytes_le_value [of "rev bs"] by (simp add: be_bytes_def be_value_def)

lemma be_value_bound: "be_value bs < 256 ^ length bs"
  using le_value_bound [of "rev bs"] by (simp add: be_value_def)

section \<open>Length-prefixed framing\<close>

text \<open>
  \<open>append_len_prefixed\<close>: a little-endian \<open>u32\<close> length and the bytes. The cast
  \<open>bytes.len() as u32\<close> truncates, which the encoding of \<open>le_bytes 4\<close> does too.
\<close>

definition len_prefixed :: "bytes \<Rightarrow> bytes" where
  "len_prefixed bs = le_bytes 4 (length bs) @ bs"

lemma length_len_prefixed [simp]: "length (len_prefixed bs) = 4 + length bs"
  by (simp add: len_prefixed_def)

lemma append_fixed_inject [framing]:
  "length xs = length ys \<Longrightarrow> xs @ us = ys @ vs \<longleftrightarrow> xs = ys \<and> us = vs"
  by simp

lemma len_prefixed_inject [framing]:
  assumes "length xs \<le> u32_max" and "length ys \<le> u32_max"
  shows "len_prefixed xs @ us = len_prefixed ys @ vs \<longleftrightarrow> xs = ys \<and> us = vs"
proof
  assume eq: "len_prefixed xs @ us = len_prefixed ys @ vs"
  then have "le_bytes 4 (length xs) = le_bytes 4 (length ys)"
    by (simp add: len_prefixed_def append_eq_append_conv)
  then have "length xs = length ys"
    using assms by (subst (asm) le_bytes_inject) simp_all
  with eq show "xs = ys \<and> us = vs"
    by (simp add: len_prefixed_def)
next
  assume "xs = ys \<and> us = vs"
  then show "len_prefixed xs @ us = len_prefixed ys @ vs" by simp
qed

section \<open>Lists\<close>

lemma take_append_length [simp]: "length xs = n \<Longrightarrow> take n (xs @ ys) = xs"
  by simp

lemma drop_append_length [simp]: "length xs = n \<Longrightarrow> drop n (xs @ ys) = ys"
  by simp

text \<open>Rust's \<open>Vec::get\<close>: \<open>None\<close> out of range.\<close>

definition get_nth :: "'a list \<Rightarrow> nat \<Rightarrow> 'a option" where
  "get_nth xs i = (if i < length xs then Some (xs ! i) else None)"

lemma get_nth_Some: "get_nth xs i = Some x \<longleftrightarrow> i < length xs \<and> x = xs ! i"
  by (auto simp: get_nth_def)

text \<open>Rust's \<open>Iterator::position\<close>.\<close>

fun position :: "('a \<Rightarrow> bool) \<Rightarrow> 'a list \<Rightarrow> nat option" where
  "position P [] = None"
| "position P (x # xs) = (if P x then Some 0 else map_option Suc (position P xs))"

lemma position_Some:
  "position P xs = Some i \<Longrightarrow> i < length xs \<and> P (xs ! i) \<and> (\<forall>j<i. \<not> P (xs ! j))"
proof (induction xs arbitrary: i)
  case Nil
  then show ?case by simp
next
  case (Cons x xs)
  show ?case
  proof (cases "P x")
    case True
    with Cons.prems show ?thesis by simp
  next
    case False
    with Cons.prems obtain k where k: "position P xs = Some k" "i = Suc k" by auto
    with Cons.IH [OF k(1)] False show ?thesis by (auto simp: less_Suc_eq_0_disj)
  qed
qed

lemma position_None: "position P xs = None \<longleftrightarrow> (\<forall>x\<in>set xs. \<not> P x)"
  by (induction xs) auto

lemma length_filter_mono:
  "(\<And>x. x \<in> set xs \<Longrightarrow> P x \<Longrightarrow> Q x) \<Longrightarrow> length (filter P xs) \<le> length (filter Q xs)"
  by (induction xs) (auto intro: le_SucI)

section \<open>Words\<close>

lemma unat_word_of_nat: "n < 2 ^ LENGTH('a) \<Longrightarrow> unat (word_of_nat n :: 'a::len word) = n"
  by (simp add: unsigned_of_nat take_bit_nat_eq_self)

lemma unat_eq_one_iff: "unat (w :: 'a::len word) = 1 \<longleftrightarrow> w = 1"
proof
  assume "unat w = 1"
  then have "word_of_nat (unat w) = (1 :: 'a word)" by simp
  then show "w = 1" by simp
qed simp

lemma bit_word_iff_odd: "bit (w :: 'a::len word) n \<longleftrightarrow> odd (unat w div 2 ^ n)"
  by (simp add: bit_unsigned_iff flip: bit_iff_odd [of "unat w"])

lemma bit63_iff: "bit (w :: 64 word) 63 \<longleftrightarrow> 2 ^ 63 \<le> unat w"
proof -
  have "unat w < 2 ^ 64" using unsigned_less [of w] by simp
  then have "unat w div 2 ^ 63 < 2" by (simp add: less_mult_imp_div_less)
  moreover have "bit w 63 \<longleftrightarrow> odd (unat w div 2 ^ 63)"
    by (rule bit_word_iff_odd)
  moreover have "2 ^ 63 \<le> unat w \<longleftrightarrow> 1 \<le> unat w div 2 ^ 63"
    by (simp add: Suc_le_eq div_greater_zero_iff)
  ultimately show ?thesis by (metis One_nat_def even_zero less_2_cases not_one_le_zero odd_one order_refl)
qed

lemma bit63_diff:
  assumes "a < 2 ^ 63" "b < 2 ^ 63"
  shows "bit (word_of_nat b - word_of_nat a :: 64 word) 63 \<longleftrightarrow> b < a"
proof (cases "a \<le> b")
  case True
  then have "word_of_nat b - word_of_nat a = (word_of_nat (b - a) :: 64 word)" by simp
  moreover have "unat (word_of_nat (b - a) :: 64 word) = b - a" using assms by (simp add: unat_word_of_nat)
  ultimately show ?thesis using assms True by (simp add: bit63_iff)
next
  case False
  have "word_of_nat (2 ^ 64 - (a - b)) = (word_of_nat (2 ^ 64) - word_of_nat (a - b) :: 64 word)"
    using assms by (intro of_nat_diff) simp
  then have "word_of_nat (2 ^ 64 - (a - b)) = (word_of_nat b - word_of_nat a :: 64 word)"
    using False by (simp add: of_nat_diff)
  moreover have "unat (word_of_nat (2 ^ 64 - (a - b)) :: 64 word) = 2 ^ 64 - (a - b)"
    using assms False by (intro unat_word_of_nat) simp
  ultimately show ?thesis using assms False by (simp add: bit63_iff)
qed

text \<open>Flipping or setting one bit of a natural number, as arithmetic.\<close>

lemma xor_bit_set: "bit (a::nat) n \<Longrightarrow> a XOR 2 ^ n = a - 2 ^ n"
proof -
  assume b: "bit a n"
  have "a = set_bit n (unset_bit n a)" using b by (intro bit_eqI) (auto simp: bit_simps)
  also have "\<dots> = unset_bit n a + 2 ^ n" by (simp add: set_bit_eq bit_unset_bit_iff)
  finally have "unset_bit n a = a - 2 ^ n" by simp
  moreover have "a XOR 2 ^ n = unset_bit n a" using b flip_bit_eq_xor [of n a] by (simp add: flip_bit_eq_if)
  ultimately show ?thesis by simp
qed

lemma xor_bit_clear: "\<not> bit (a::nat) n \<Longrightarrow> a XOR 2 ^ n = a + 2 ^ n"
  using flip_bit_eq_xor [of n a] by (simp add: flip_bit_eq_if set_bit_eq)

lemma or_bit_clear: "\<not> bit (a::nat) n \<Longrightarrow> a OR 2 ^ n = a + 2 ^ n"
  using set_bit_eq_or [of n a] by (simp add: set_bit_eq)

lemma pow_le_bit: "bit (a::nat) n \<Longrightarrow> 2 ^ n \<le> a"
  by (metis bit_iff_odd div_less even_zero not_le)

end
