(* ===== verification/Replay_Window.thy ===== *)
theory Replay_Window
  imports Prelude
begin

text \<open>
  The sliding replay window of the media channel (\<^verbatim>\<open>protocol/voip/replay_window.rs\<close>): the
  highest counter seen and a bitmap of two 64-bit words for the 128 counters up to it. The loops
  of \<open>shift_window\<close> are kept as folds over the word indices. The bitmap is related to the set of
  counters marked so far, which gives the exact acceptance condition.
\<close>

definition WINDOW_SIZE :: nat where
  [simp]: "WINDOW_SIZE = 128"

definition BITMAP_WORDS :: nat where
  [simp]: "BITMAP_WORDS = 2"

record replay_window =
  high_water :: nat
  bitmap :: "64 word list"

definition replay_new :: replay_window where
  "replay_new = \<lparr> high_water = 0, bitmap = replicate BITMAP_WORDS 0 \<rparr>"

definition check :: "replay_window \<Rightarrow> nat \<Rightarrow> bool" where
  "check w counter =
     (if counter > high_water w then True
      else
        let delta = high_water w - counter
        in if delta \<ge> WINDOW_SIZE then False
           else
             let word = delta div 64; bit = delta mod 64
             in (bitmap w ! word) AND push_bit bit 1 = 0)"

definition shift_window :: "nat \<Rightarrow> 64 word list \<Rightarrow> 64 word list" where
  "shift_window shift bm =
     (if shift \<ge> WINDOW_SIZE then replicate BITMAP_WORDS 0
      else
        let word_shift = shift div 64;
            bit_shift = shift mod 64;
            bm1 = (if word_shift > 0 then
                     fold (\<lambda>i b. b[i := 0]) [0..<word_shift]
                       (fold (\<lambda>i b. b[i := b ! (i - word_shift)]) (rev [word_shift..<BITMAP_WORDS]) bm)
                   else bm)
        in if bit_shift > 0 then
             let bm2 = fold (\<lambda>i b. b[i := push_bit bit_shift (b ! i) OR drop_bit (64 - bit_shift) (b ! (i - 1))])
                         (rev [1..<BITMAP_WORDS]) bm1
             in bm2[0 := push_bit bit_shift (bm2 ! 0)]
           else bm1)"

definition mark :: "nat \<Rightarrow> replay_window \<Rightarrow> replay_window" where
  "mark counter w =
     (if counter > high_water w then
        let shift = counter - high_water w;
            bm = shift_window shift (bitmap w)
        in \<lparr> high_water = counter, bitmap = bm[0 := (bm ! 0) OR 1] \<rparr>
      else
        let delta = high_water w - counter
        in if delta < WINDOW_SIZE then
             let word = delta div 64; bit = delta mod 64
             in w\<lparr> bitmap := (bitmap w)[word := (bitmap w ! word) OR push_bit bit 1] \<rparr>
           else w)"

section \<open>The bitmap as a set of offsets\<close>

definition seen :: "64 word list \<Rightarrow> nat \<Rightarrow> bool" where
  "seen bm d \<longleftrightarrow> d < 128 \<and> bit (bm ! (d div 64)) (d mod 64)"

lemma length_2_cases: "length bm = 2 \<Longrightarrow> \<exists>a b. bm = [a, b]"
  by (auto simp: length_Suc_conv numeral_2_eq_2)

lemma bit64_bound: "bit (a :: 64 word) n \<Longrightarrow> n < 64"
  using bit_imp_le_length [of a n] by simp

lemma and_push_bit_1: "(w :: 64 word) AND push_bit n 1 = 0 \<longleftrightarrow> \<not> bit w n"
  by (simp add: and_exp_eq_0_iff_not_bit)

lemma bit_or_push_bit: "bit ((w :: 64 word) OR 2 ^ n) m \<longleftrightarrow> bit w m \<or> m = n \<and> n < 64"
  by (auto simp: bit_or_iff bit_exp_iff possible_bit_word)

lemma seen_or:
  assumes "length bm = 2" "d < 128"
  shows "seen (bm[d div 64 := (bm ! (d div 64)) OR push_bit (d mod 64) 1]) e \<longleftrightarrow> seen bm e \<or> e = d"
proof -
  have "e = d \<longleftrightarrow> e div 64 = d div 64 \<and> e mod 64 = d mod 64" by (metis div_mod_decomp)
  moreover have "d div 64 < 2" using assms(2) by simp
  ultimately show ?thesis using assms by (auto simp: seen_def nth_list_update bit_or_push_bit)
qed

lemma shift_window_cases:
  assumes "s < 128"
  shows "shift_window s [a, b] =
    (if s < 64 then [push_bit s a, push_bit s b OR (if s = 0 then 0 else drop_bit (64 - s) a)]
     else [0, push_bit (s - 64) a])"
proof -
  consider "s < 64" "s mod 64 = s" "s div 64 = 0" | "64 \<le> s" "s mod 64 = s - 64" "s div 64 = 1"
    using assms by (cases "s < 64") (auto simp: mod_if div_if)
  then show ?thesis
    by cases (auto simp: shift_window_def Let_def numeral_2_eq_2 upt_rec)
qed

lemma length_shift_window: "length bm = 2 \<Longrightarrow> length (shift_window s bm) = 2"
  using length_2_cases [of bm] shift_window_cases [of s]
  by (cases "s < 128") (auto simp: shift_window_def)

lemma seen_pair: "seen [a, b] d \<longleftrightarrow> bit a d \<or> 64 \<le> d \<and> bit b (d - 64)"
proof (cases "d < 64")
  case True
  then show ?thesis by (simp add: seen_def)
next
  case False
  then have "d < 128 \<Longrightarrow> d div 64 = 1 \<and> d mod 64 = d - 64" by (simp add: mod_if div_if)
  with False show ?thesis using bit64_bound [of a d] bit64_bound [of b "d - 64"]
    by (cases "d < 128") (auto simp: seen_def)
qed

lemma seen_shift_window:
  assumes "length bm = 2"
  shows "seen (shift_window s bm) d \<longleftrightarrow> d < 128 \<and> s \<le> d \<and> seen bm (d - s)"
proof -
  obtain a b where bm: "bm = [a, b]" using assms length_2_cases by blast
  note bnd = bit64_bound [of a "d - s"] bit64_bound [of b "d - s - 64"]
  consider "s < 64" | "64 \<le> s" "s < 128" | "128 \<le> s" by linarith
  then show ?thesis
  proof cases
    case 1
    have dr: "bit (drop_bit (64 - s) a) (d - 64) \<longleftrightarrow> bit a (d - s)" if "64 \<le> d"
      using that 1 by (simp add: bit_drop_bit_eq add.commute)
    have "seen (shift_window s bm) d \<longleftrightarrow> d < 64 \<and> s \<le> d \<and> bit a (d - s) \<or>
        64 \<le> d \<and> (d < 128 \<and> s + 64 \<le> d \<and> bit b (d - s - 64) \<or> s \<noteq> 0 \<and> bit a (d - s))"
      using 1 dr by (auto simp: bm shift_window_cases seen_pair bit_push_bit_iff bit_or_iff add.commute)
    then show ?thesis using 1 bnd unfolding bm seen_pair by (cases "s = 0") auto
  next
    case 2
    then have "bit (push_bit (s - 64) a) (d - 64) \<longleftrightarrow> d < 128 \<and> s \<le> d \<and> bit a (d - s)" if "64 \<le> d"
      using that by (auto simp: bit_push_bit_iff)
    then show ?thesis using 2 bnd by (auto simp: bm shift_window_cases seen_pair)
  next
    case 3
    then show ?thesis by (auto simp: shift_window_def numeral_2_eq_2 seen_pair)
  qed
qed

section \<open>What a run of marks leaves behind\<close>

text \<open>The window stands for the highest counter and the counters marked among the last 128.\<close>

definition highest :: "nat set \<Rightarrow> nat \<Rightarrow> bool" where
  "highest M h \<longleftrightarrow> (\<forall>c \<in> M. c \<le> h) \<and> (h = 0 \<or> h \<in> M)"

definition window_rel :: "nat set \<Rightarrow> replay_window \<Rightarrow> bool" where
  "window_rel M w \<longleftrightarrow> length (bitmap w) = 2 \<and> highest M (high_water w) \<and>
     (\<forall>c \<le> high_water w. seen (bitmap w) (high_water w - c) \<longleftrightarrow> c \<in> M \<and> high_water w < c + 128)"

lemma highest_Max: "finite M \<Longrightarrow> highest M h \<Longrightarrow> h = Max (insert 0 M)"
  by (rule Max_eqI [symmetric]) (auto simp: highest_def)

lemma window_relD:
  assumes "window_rel M w"
  shows "length (bitmap w) = 2" "highest M (high_water w)" "c \<in> M \<Longrightarrow> c \<le> high_water w"
    and "c \<le> high_water w \<Longrightarrow> seen (bitmap w) (high_water w - c) \<longleftrightarrow> c \<in> M \<and> high_water w < c + 128"
  using assms by (auto simp: window_rel_def highest_def)

lemma window_rel_new: "window_rel {} replay_new"
  by (auto simp: window_rel_def replay_new_def highest_def seen_pair numeral_2_eq_2)

lemma window_rel_mark_ahead:
  assumes "window_rel M w" "high_water w < c"
  shows "window_rel (insert c M) (mark c w)"
proof -
  let ?bm = "shift_window (c - high_water w) (bitmap w)"
  let ?bm' = "?bm[0 := (?bm ! 0) OR 1]"
  have len: "length (bitmap w) = 2" "length ?bm = 2"
    using window_relD(1) [OF assms(1)] length_shift_window by blast+
  have or0: "seen ?bm' e \<longleftrightarrow> seen ?bm e \<or> e = 0" for e
    using seen_or [OF len(2), of 0 e] by simp
  have hi: "highest (insert c M) c" using window_relD(3) [OF assms(1)] assms(2) by (fastforce simp: highest_def)
  have "seen ?bm' (c - x) \<longleftrightarrow> x \<in> insert c M \<and> c < x + 128" if "x \<le> c" for x
  proof (cases "x \<le> high_water w")
    case le: True
    have "c - x - (c - high_water w) = high_water w - x" using le assms(2) by simp
    then show ?thesis
      using le assms(2) window_relD(4) [OF assms(1) le] by (auto simp: or0 seen_shift_window [OF len(1)])
  next
    case False
    then have "x \<notin> M" using window_relD(3) [OF assms(1)] by blast
    with False that show ?thesis by (auto simp: or0 seen_shift_window [OF len(1)])
  qed
  moreover have "mark c w = \<lparr> high_water = c, bitmap = ?bm' \<rparr>" using assms(2) by (simp add: mark_def Let_def)
  ultimately show ?thesis using hi len(2) by (simp add: window_rel_def)
qed

lemma window_rel_mark:
  assumes "window_rel M w"
  shows "window_rel (insert c M) (mark c w)"
proof (cases "high_water w < c")
  case True
  with assms show ?thesis by (rule window_rel_mark_ahead)
next
  case False
  have hi: "highest (insert c M) (high_water w)"
    using window_relD(2) [OF assms] False by (auto simp: highest_def)
  show ?thesis
  proof (cases "high_water w - c < 128")
    case True
    let ?bm' = "(bitmap w)[(high_water w - c) div 64 :=
      (bitmap w ! ((high_water w - c) div 64)) OR push_bit ((high_water w - c) mod 64) 1]"
    have "mark c w = w\<lparr> bitmap := ?bm' \<rparr>" using False True by (simp add: mark_def Let_def)
    moreover have "seen ?bm' (high_water w - x) \<longleftrightarrow> x \<in> insert c M \<and> high_water w < x + 128"
      if "x \<le> high_water w" for x
    proof -
      have "high_water w - x = high_water w - c \<longleftrightarrow> x = c" using that False by linarith
      then show ?thesis
        using window_relD(4) [OF assms that] seen_or [OF window_relD(1) [OF assms] True, of "high_water w - x"]
          False True by auto
    qed
    ultimately show ?thesis using hi window_relD(1) [OF assms] by (simp add: window_rel_def)
  next
    case far: False
    then have "mark c w = w" using False by (simp add: mark_def Let_def)
    then show ?thesis using far hi window_relD(1,4) [OF assms] by (auto simp: window_rel_def)
  qed
qed

lemma window_rel_run: "window_rel (set cs) (fold mark cs replay_new)"
proof -
  have "window_rel M w \<Longrightarrow> window_rel (M \<union> set cs) (fold mark cs w)" for M w
  proof (induction cs arbitrary: M w)
    case (Cons c cs)
    from Cons.IH [OF window_rel_mark [OF Cons.prems, of c]] show ?case by simp
  qed simp
  from this [OF window_rel_new] show ?thesis by simp
qed

lemma check_iff:
  assumes "window_rel M w"
  shows "check w c \<longleftrightarrow> c \<notin> M \<and> high_water w < c + 128"
proof (cases "high_water w < c")
  case True
  then show ?thesis using window_relD(3) [OF assms, of c] by (auto simp: check_def)
next
  case False
  then have "seen (bitmap w) (high_water w - c) \<longleftrightarrow> c \<in> M \<and> high_water w < c + 128"
    using assms by (simp add: window_rel_def)
  then show ?thesis using False by (auto simp: check_def Let_def and_push_bit_1 seen_def simp del: push_bit_of_1)
qed

section \<open>Properties\<close>

text \<open>C13. After any sequence of marked counters, in any order and with gaps, a counter is accepted
  exactly when it was not marked before and is less than 128 behind the highest one. In
  particular no marked counter is ever accepted again.\<close>

theorem replay_window_exact:
  "check (fold mark cs replay_new) c \<longleftrightarrow> c \<notin> set cs \<and> Max (insert 0 (set cs)) < c + 128"
  using check_iff [OF window_rel_run] highest_Max [OF _ window_relD(2) [OF window_rel_run]] by simp

end
