(* ===== verification/Core.thy ===== *)
theory Core
  imports Prelude
begin

text \<open>
  The constants of \<^verbatim>\<open>src/core/constants.rs\<close> that the modelled code uses, and the error types of
  \<^verbatim>\<open>src/core/errors.rs\<close>. An error carries its message; where the source formats values into
  the message, the model keeps the format string itself (\<open>''{n}''\<close> for an interpolated
  \<open>n\<close>), so that every error branch of the code is a distinguishable value.
\<close>

section \<open>Errors\<close>

datatype crypto_error =
    LibraryNotFound
  | InitializationFailed
  | CryptoBufferTooSmall nat nat
  | BufferTooLarge nat nat
  | MemoryPinningFailed
  | AllocationFailed nat
  | WriteOperationFailed
  | ReadOperationFailed
  | ComparisonFailed nat nat
  | InvalidOperation string
  | KyberFailed string string

datatype protocol_error =
    KeyGeneration string
  | DeriveKey string
  | InvalidInput string
  | PrepareLocal string
  | PeerPubKey string
  | Handshake string
  | Decode string
  | Encode string
  | BufferTooSmall string
  | ObjectDisposed
  | ReplayAttack string
  | InvalidState string
  | NullPointer
  | Generic string
  | GroupProtocol string
  | GroupMembership string
  | TreeIntegrity string
  | WelcomeError string
  | MessageExpired string
  | FrankingFailed string
  | VoipCall string
  | VoipMedia string
  | VoipRekey string
  | CryptoErr crypto_error

type_synonym 'a pres = "protocol_error + 'a"

text \<open>The crate is built with \<^verbatim>\<open>overflow-checks = true\<close>, so an addition that overflows
  panics. Where the code does not rule the overflow out, the panic is this error value.\<close>

definition overflow_panic :: protocol_error where
  "overflow_panic = Generic ''panic: attempt to add with overflow''"

section \<open>Constants\<close>

definition PROTOCOL_VERSION :: nat where
  [simp]: "PROTOCOL_VERSION = 2"

definition X25519_PUBLIC_KEY_BYTES :: nat where
  [simp]: "X25519_PUBLIC_KEY_BYTES = 32"

definition X25519_PRIVATE_KEY_BYTES :: nat where
  [simp]: "X25519_PRIVATE_KEY_BYTES = 32"

definition ED25519_PUBLIC_KEY_BYTES :: nat where
  [simp]: "ED25519_PUBLIC_KEY_BYTES = 32"

definition ED25519_SIGNATURE_BYTES :: nat where
  [simp]: "ED25519_SIGNATURE_BYTES = 64"

definition KYBER_PUBLIC_KEY_BYTES :: nat where
  [simp]: "KYBER_PUBLIC_KEY_BYTES = 1184"

definition KYBER_SECRET_KEY_BYTES :: nat where
  [simp]: "KYBER_SECRET_KEY_BYTES = 64"

definition KYBER_CIPHERTEXT_BYTES :: nat where
  [simp]: "KYBER_CIPHERTEXT_BYTES = 1088"

definition KYBER_SHARED_SECRET_BYTES :: nat where
  [simp]: "KYBER_SHARED_SECRET_BYTES = 32"

definition KYBER_SEED_KEY_BYTES :: nat where
  [simp]: "KYBER_SEED_KEY_BYTES = 32"

definition ROOT_KEY_BYTES :: nat where
  [simp]: "ROOT_KEY_BYTES = 32"

definition CHAIN_KEY_BYTES :: nat where
  [simp]: "CHAIN_KEY_BYTES = 32"

definition MESSAGE_KEY_BYTES :: nat where
  [simp]: "MESSAGE_KEY_BYTES = 32"

definition METADATA_KEY_BYTES :: nat where
  [simp]: "METADATA_KEY_BYTES = 32"

definition SESSION_ID_BYTES :: nat where
  [simp]: "SESSION_ID_BYTES = 16"

definition HMAC_BYTES :: nat where
  [simp]: "HMAC_BYTES = 32"

definition IDENTITY_BINDING_HASH_BYTES :: nat where
  [simp]: "IDENTITY_BINDING_HASH_BYTES = 32"

definition AES_KEY_BYTES :: nat where
  [simp]: "AES_KEY_BYTES = 32"

definition AES_GCM_NONCE_BYTES :: nat where
  [simp]: "AES_GCM_NONCE_BYTES = 12"

definition AES_GCM_TAG_BYTES :: nat where
  [simp]: "AES_GCM_TAG_BYTES = 16"

definition NONCE_PREFIX_BYTES :: nat where
  [simp]: "NONCE_PREFIX_BYTES = 8"

definition NONCE_COUNTER_BYTES :: nat where
  [simp]: "NONCE_COUNTER_BYTES = 2"

definition NONCE_INDEX_BYTES :: nat where
  [simp]: "NONCE_INDEX_BYTES = 2"

definition MAX_NONCE_COUNTER :: nat where
  [simp]: "MAX_NONCE_COUNTER = 65535"

definition MAX_MESSAGE_INDEX :: nat where
  [simp]: "MAX_MESSAGE_INDEX = 65535"

definition NONCE_EXHAUSTION_WARNING_PERCENT :: nat where
  [simp]: "NONCE_EXHAUSTION_WARNING_PERCENT = 10"

definition MAX_SKIPPED_MESSAGE_KEYS :: nat where
  [simp]: "MAX_SKIPPED_MESSAGE_KEYS = 1000"

definition MAX_CACHED_METADATA_KEYS :: nat where
  [simp]: "MAX_CACHED_METADATA_KEYS = 100"

definition MAX_METADATA_KEY_EPOCH_AGE :: nat where
  [simp]: "MAX_METADATA_KEY_EPOCH_AGE = 32"

definition MAX_SKIPPED_KEY_EPOCH_AGE :: nat where
  [simp]: "MAX_SKIPPED_KEY_EPOCH_AGE = MAX_METADATA_KEY_EPOCH_AGE"

definition MAX_SEEN_NONCES :: nat where
  [simp]: "MAX_SEEN_NONCES = 2048"

definition MAX_MESSAGES_PER_CHAIN :: nat where
  [simp]: "MAX_MESSAGES_PER_CHAIN = 10000"

definition RATCHET_OUTPUT_BYTES :: nat where
  [simp]: "RATCHET_OUTPUT_BYTES = ROOT_KEY_BYTES + CHAIN_KEY_BYTES + METADATA_KEY_BYTES"

definition DEVICE_ID_BYTES :: nat where
  [simp]: "DEVICE_ID_BYTES = 32"

definition MIN_SESSION_TTL_SECONDS :: nat where
  [simp]: "MIN_SESSION_TTL_SECONDS = 60"

definition MAX_SESSION_TTL_SECONDS :: nat where
  [simp]: "MAX_SESSION_TTL_SECONDS = 365 * 24 * 3600"

definition MAX_BUFFER_SIZE :: nat where
  [simp]: "MAX_BUFFER_SIZE = 10 * 1024 * 1024"

definition MAX_SHARE_SIZE :: nat where
  [simp]: "MAX_SHARE_SIZE = 65536"

definition MAX_PROTOBUF_MESSAGE_SIZE :: nat where
  [simp]: "MAX_PROTOBUF_MESSAGE_SIZE = 1024 * 1024"

definition MAX_GROUP_MEMBERS :: nat where
  [simp]: "MAX_GROUP_MEMBERS = 1024"

definition MAX_TREE_NODES :: nat where
  [simp]: "MAX_TREE_NODES = 2 * MAX_GROUP_MEMBERS - 1"

definition MAX_CREDENTIAL_SIZE :: nat where
  [simp]: "MAX_CREDENTIAL_SIZE = 4096"

definition MAX_TREE_DEPTH :: nat where
  [simp]: "MAX_TREE_DEPTH = 20"

definition MAX_PROPOSALS_PER_COMMIT :: nat where
  [simp]: "MAX_PROPOSALS_PER_COMMIT = 64"

definition MAX_SENDER_KEY_GENERATION :: nat where
  [simp]: "MAX_SENDER_KEY_GENERATION = 100000"

definition MAX_SKIPPED_SENDER_KEYS :: nat where
  [simp]: "MAX_SKIPPED_SENDER_KEYS = 256"

definition GROUP_ID_BYTES :: nat where
  [simp]: "GROUP_ID_BYTES = 32"

definition EPOCH_SECRET_BYTES :: nat where
  [simp]: "EPOCH_SECRET_BYTES = 32"

definition INIT_SECRET_BYTES :: nat where
  [simp]: "INIT_SECRET_BYTES = 32"

definition COMMIT_SECRET_BYTES :: nat where
  [simp]: "COMMIT_SECRET_BYTES = 32"

definition PATH_SECRET_BYTES :: nat where
  [simp]: "PATH_SECRET_BYTES = 32"

definition SENDER_KEY_BASE_BYTES :: nat where
  [simp]: "SENDER_KEY_BASE_BYTES = 32"

definition WELCOME_KEY_BYTES :: nat where
  [simp]: "WELCOME_KEY_BYTES = 32"

definition CONFIRMATION_KEY_BYTES :: nat where
  [simp]: "CONFIRMATION_KEY_BYTES = 32"

definition GROUP_PROTOCOL_VERSION :: nat where
  [simp]: "GROUP_PROTOCOL_VERSION = 2"

definition PSK_BYTES :: nat where
  [simp]: "PSK_BYTES = 32"

definition MESSAGE_PADDING_BLOCK_SIZE :: nat where
  [simp]: "MESSAGE_PADDING_BLOCK_SIZE = 64"

definition RATCHET_STALLING_WARNING_THRESHOLD :: nat where
  [simp]: "RATCHET_STALLING_WARNING_THRESHOLD = 100"

definition SHA256_HASH_BYTES :: nat where
  [simp]: "SHA256_HASH_BYTES = 32"

definition HKDF_MAX_ITERATIONS :: nat where
  [simp]: "HKDF_MAX_ITERATIONS = 255"

definition HKDF_MAX_OUTPUT_BYTES :: nat where
  [simp]: "HKDF_MAX_OUTPUT_BYTES = HKDF_MAX_ITERATIONS * SHA256_HASH_BYTES"

definition MIN_MASTER_KEY_BYTES :: nat where
  [simp]: "MIN_MASTER_KEY_BYTES = 32"

definition MAX_SKIPPED_SENDER_KEYS_PER_SENDER :: nat where
  [simp]: "MAX_SKIPPED_SENDER_KEYS_PER_SENDER = 1024"

definition SSRC_BYTES :: nat where
  [simp]: "SSRC_BYTES = 4"

definition VOIP_MEDIA_KEY_BYTES :: nat where
  [simp]: "VOIP_MEDIA_KEY_BYTES = 32"

definition VOIP_MEDIA_NONCE_BYTES :: nat where
  [simp]: "VOIP_MEDIA_NONCE_BYTES = 12"

definition VOIP_HEADER_KEY_BYTES :: nat where
  [simp]: "VOIP_HEADER_KEY_BYTES = 32"

definition MAX_RATCHET_GENERATION :: nat where
  [simp]: "MAX_RATCHET_GENERATION = 16777215"

definition MAX_FRAME_COUNTER :: nat where
  [simp]: "MAX_FRAME_COUNTER = 281474976710655"

definition MAX_VOIP_FRAME_SIZE :: nat where
  [simp]: "MAX_VOIP_FRAME_SIZE = 64 * 1024"

definition VOIP_FRAME_PADDING_BLOCK :: nat where
  [simp]: "VOIP_FRAME_PADDING_BLOCK = 16"

definition MAX_SKIPPED_RATCHET_GENERATIONS :: nat where
  [simp]: "MAX_SKIPPED_RATCHET_GENERATIONS = 8"

definition VOIP_NONCE_PREFIX_BYTES :: nat where
  [simp]: "VOIP_NONCE_PREFIX_BYTES = 4"

definition HYBRID_RATCHET_INFO :: bytes where
  "HYBRID_RATCHET_INFO = ascii ''Aura-Hybrid-Ratchet''"

definition CHAIN_INIT_INFO :: bytes where
  "CHAIN_INIT_INFO = ascii ''Aura-ChainInit''"

definition CHAIN_INFO :: bytes where
  "CHAIN_INFO = ascii ''Aura-Chain''"

definition MESSAGE_INFO :: bytes where
  "MESSAGE_INFO = ascii ''Aura-Msg''"

definition STATE_HMAC_INFO :: bytes where
  "STATE_HMAC_INFO = ascii ''Aura-State-HMAC''"

definition IDENTITY_BINDING_INFO :: bytes where
  "IDENTITY_BINDING_INFO = ascii ''Aura-Identity-Binding''"

definition HYBRID_SALT_PREFIX :: bytes where
  "HYBRID_SALT_PREFIX = ascii ''Aura-PQ-Hybrid::''"

definition GROUP_EPOCH_SECRET_INFO :: bytes where
  "GROUP_EPOCH_SECRET_INFO = ascii ''Aura-Group-EpochSecret''"

definition GROUP_SENDER_KEY_INFO :: bytes where
  "GROUP_SENDER_KEY_INFO = ascii ''Aura-Group-SenderKey''"

definition GROUP_METADATA_KEY_INFO :: bytes where
  "GROUP_METADATA_KEY_INFO = ascii ''Aura-Group-MetadataKey''"

definition GROUP_WELCOME_KEY_INFO :: bytes where
  "GROUP_WELCOME_KEY_INFO = ascii ''Aura-Group-WelcomeKey''"

definition GROUP_CONFIRM_KEY_INFO :: bytes where
  "GROUP_CONFIRM_KEY_INFO = ascii ''Aura-Group-ConfirmKey''"

definition GROUP_INIT_SECRET_INFO :: bytes where
  "GROUP_INIT_SECRET_INFO = ascii ''Aura-Group-InitSecret''"

definition GROUP_CHAIN_INFO :: bytes where
  "GROUP_CHAIN_INFO = ascii ''Aura-Group-Chain''"

definition GROUP_MSG_INFO :: bytes where
  "GROUP_MSG_INFO = ascii ''Aura-Group-Msg''"

definition GROUP_PATH_SECRET_INFO :: bytes where
  "GROUP_PATH_SECRET_INFO = ascii ''Aura-Group-PathSecret''"

definition GROUP_NODE_KEY_INFO :: bytes where
  "GROUP_NODE_KEY_INFO = ascii ''Aura-Group-NodeKey''"

definition GROUP_HYBRID_PATH_INFO :: bytes where
  "GROUP_HYBRID_PATH_INFO = ascii ''Aura-Group-HybridPath''"

definition GROUP_HYBRID_SALT_PREFIX :: bytes where
  "GROUP_HYBRID_SALT_PREFIX = ascii ''Aura-PQ-Group-Hybrid::''"

definition GROUP_PARENT_HASH_LABEL :: bytes where
  "GROUP_PARENT_HASH_LABEL = ascii ''Aura-Group-ParentHash-v2''"

definition GROUP_LEAF_NODE_HASH_LABEL :: bytes where
  "GROUP_LEAF_NODE_HASH_LABEL = ascii ''Aura-Group-LeafNodeHash-v2''"

definition GROUP_PARENT_NODE_HASH_LABEL :: bytes where
  "GROUP_PARENT_NODE_HASH_LABEL = ascii ''Aura-Group-ParentNodeHash-v2''"

definition GROUP_BLANK_NODE_HASH_LABEL :: bytes where
  "GROUP_BLANK_NODE_HASH_LABEL = ascii ''Aura-Group-BlankNodeHash-v2''"

definition GROUP_PSK_SECRET_INFO :: bytes where
  "GROUP_PSK_SECRET_INFO = ascii ''Aura-Group-PskSecret''"

definition GROUP_PSK_EXTRACT_INFO :: bytes where
  "GROUP_PSK_EXTRACT_INFO = ascii ''Aura-Group-PskExtract''"

definition GROUP_ENHANCED_KDF_PASS1 :: bytes where
  "GROUP_ENHANCED_KDF_PASS1 = ascii ''Aura-Enhanced-Pass1''"

definition GROUP_ENHANCED_KDF_PASS2 :: bytes where
  "GROUP_ENHANCED_KDF_PASS2 = ascii ''Aura-Enhanced-Pass2''"

definition GROUP_BLAKE2B_CHAIN_PERSONALIZATION :: bytes where
  "GROUP_BLAKE2B_CHAIN_PERSONALIZATION = ascii ''Aura-B2Chain''"

definition MKD_ED25519_INFO :: bytes where
  "MKD_ED25519_INFO = ascii ''aura-identity-ed25519''"

definition MKD_X25519_INFO :: bytes where
  "MKD_X25519_INFO = ascii ''aura-identity-x25519''"

definition MKD_SIGNED_PRE_KEY_INFO :: bytes where
  "MKD_SIGNED_PRE_KEY_INFO = ascii ''aura-signed-pre-key''"

definition MKD_OPK_PREFIX :: bytes where
  "MKD_OPK_PREFIX = ascii ''aura-opk-''"

definition MKD_KYBER_SEED_1_INFO :: bytes where
  "MKD_KYBER_SEED_1_INFO = ascii ''aura-kyber-seed-1''"

definition MKD_KYBER_SEED_2_INFO :: bytes where
  "MKD_KYBER_SEED_2_INFO = ascii ''aura-kyber-seed-2''"

definition VOIP_RATCHET_CHAIN_INFO :: bytes where
  "VOIP_RATCHET_CHAIN_INFO = ascii ''Aura-VoIP-RatchetChain''"

definition VOIP_FRAME_KEY_INFO :: bytes where
  "VOIP_FRAME_KEY_INFO = ascii ''Aura-VoIP-FrameKey''"

definition X25519_CLAMP_BYTE0 :: u8 where
  "X25519_CLAMP_BYTE0 = 0xF8"

definition X25519_CLAMP_BYTE31_LOW :: u8 where
  "X25519_CLAMP_BYTE31_LOW = 0x7F"

definition X25519_CLAMP_BYTE31_HIGH :: u8 where
  "X25519_CLAMP_BYTE31_HIGH = 0x40"

definition GROUP_EXTERNAL_PUB_X25519_INFO :: bytes where
  "GROUP_EXTERNAL_PUB_X25519_INFO = ascii ''Aura-Group-ExternalPub-X25519''"

definition GROUP_EXTERNAL_PUB_KYBER_INFO :: bytes where
  "GROUP_EXTERNAL_PUB_KYBER_INFO = ascii ''Aura-Group-ExternalPub-Kyber''"

definition ED25519_SECRET_KEY_BYTES :: nat where
  [simp]: "ED25519_SECRET_KEY_BYTES = 64"

definition X25519_SHARED_SECRET_BYTES :: nat where
  [simp]: "X25519_SHARED_SECRET_BYTES = 32"

definition MAX_SEEN_HANDSHAKE_INITS :: nat where
  [simp]: "MAX_SEEN_HANDSHAKE_INITS = 16384"

definition MAX_INFLIGHT_HANDSHAKE_INITS :: nat where
  [simp]: "MAX_INFLIGHT_HANDSHAKE_INITS = 4096"

definition MAX_ONE_TIME_PRE_KEYS_PER_BUNDLE :: nat where
  [simp]: "MAX_ONE_TIME_PRE_KEYS_PER_BUNDLE = 4096"

definition OPK_ID_OFFSET :: nat where
  [simp]: "OPK_ID_OFFSET = 2"

definition MAX_HANDSHAKE_MESSAGE_SIZE :: nat where
  [simp]: "MAX_HANDSHAKE_MESSAGE_SIZE = 16 * 1024"

definition X3DH_INFO :: bytes where
  "X3DH_INFO = ascii ''Aura-X3DH''"

definition HYBRID_X3DH_INFO :: bytes where
  "HYBRID_X3DH_INFO = ascii ''Aura-Hybrid-X3DH''"

definition SESSION_ID_INFO :: bytes where
  "SESSION_ID_INFO = ascii ''Aura-SessionId''"

definition METADATA_KEY_INFO :: bytes where
  "METADATA_KEY_INFO = ascii ''Aura-MetadataKey''"

definition KEY_CONFIRM_INIT_INFO :: bytes where
  "KEY_CONFIRM_INIT_INFO = ascii ''Aura-KeyConfirm-I''"

definition KEY_CONFIRM_RESP_INFO :: bytes where
  "KEY_CONFIRM_RESP_INFO = ascii ''Aura-KeyConfirm-R''"

definition TRANSCRIPT_LABEL :: bytes where
  "TRANSCRIPT_LABEL = ascii ''Aura-Handshake-Transcript''"

definition HANDSHAKE_INIT_IDENTITY_BINDING_INFO :: bytes where
  "HANDSHAKE_INIT_IDENTITY_BINDING_INFO = ascii ''Aura-Handshake-Init-Identity-Binding''"

definition X3DH_FILL_BYTE :: u8 where
  "X3DH_FILL_BYTE = 0xFF"

definition X3DH_DH_COUNT :: nat where
  [simp]: "X3DH_DH_COUNT = 4"

definition OTK_EXHAUSTION_WARNING_PERCENT :: nat where
  [simp]: "OTK_EXHAUSTION_WARNING_PERCENT = 10"

definition SPK_ID_INFO :: bytes where
  "SPK_ID_INFO = ascii ''Aura-SPK-ID''"

definition SPK_ID_BYTES :: nat where
  [simp]: "SPK_ID_BYTES = 4"

definition IDENTITY_REPLAY_STATE_VERSION :: u8 where
  "IDENTITY_REPLAY_STATE_VERSION = 1"

definition IDENTITY_REPLAY_STATE_AAD :: bytes where
  "IDENTITY_REPLAY_STATE_AAD = ascii ''aura-identity-replay-state-v1''"

definition OPK_ID_MODULUS :: nat where
  [simp]: "OPK_ID_MODULUS = 4294967294"

definition OPAQUE_SESSION_KEY_BYTES :: nat where
  [simp]: "OPAQUE_SESSION_KEY_BYTES = 32"

definition DEFAULT_MESSAGES_PER_CHAIN :: nat where
  [simp]: "DEFAULT_MESSAGES_PER_CHAIN = 1000"

definition MAX_ENVELOPE_MESSAGE_SIZE :: nat where
  [simp]: "MAX_ENVELOPE_MESSAGE_SIZE = 1024 * 1024"

definition OPAQUE_ROOT_INFO :: bytes where
  "OPAQUE_ROOT_INFO = ascii ''Aura-OPAQUE-Root''"

end
