(* ===== verification/Secure_Memory.thy ===== *)
theory Secure_Memory
  imports Core
begin

text \<open>
  The pool of locked memory behind \<open>SecureMemoryHandle\<close> (\<^verbatim>\<open>crypto/secure_memory.rs\<close>): two
  size classes, each one region cut into equal slots with a stack of free slot numbers; taking a
  slot, writing to it, and giving it back. A pointer is the offset into the region of its class.
  A step relation over the pool and the live handles gives the safety argument: no two live
  handles overlap, and fresh memory never shows what an earlier owner wrote.
\<close>

definition SMALL_SLOT_BYTES :: nat where
  [simp]: "SMALL_SLOT_BYTES = 64"

definition LARGE_SLOT_BYTES :: nat where
  [simp]: "LARGE_SLOT_BYTES = 4096"

record size_class =
  slot_size :: nat
  slots :: bytes
  free_list :: "nat list"

record secure_pool =
  small :: size_class
  large :: size_class

record sm_handle =
  ptr :: nat
  len :: nat
  h_slot_size :: nat

definition size_class_new :: "bool \<Rightarrow> nat \<Rightarrow> nat \<Rightarrow> crypto_error + size_class" where
  "size_class_new mlock_ok sz slot_count =
     (if slot_count = 0 then Err (AllocationFailed sz)
      else if slot_count > u32_max then Err (AllocationFailed sz)
      else if sz * slot_count > u64_max then Err (AllocationFailed sz)
      else if \<not> mlock_ok then Err (AllocationFailed sz)
      else Ok \<lparr> slot_size = sz, slots = zeros (sz * slot_count), free_list = rev [0..<slot_count] \<rparr>)"

definition class_pop :: "size_class \<Rightarrow> (nat \<times> size_class) option" where
  "class_pop c =
     (if free_list c = [] then None
      else Some (last (free_list c) * slot_size c, c\<lparr> free_list := butlast (free_list c) \<rparr>))"

definition splice :: "bytes \<Rightarrow> nat \<Rightarrow> bytes \<Rightarrow> bytes" where
  "splice bs off data = take off bs @ data @ drop (off + length data) bs"

definition slice :: "bytes \<Rightarrow> nat \<Rightarrow> nat \<Rightarrow> bytes" where
  "slice bs off n = take n (drop off bs)"

definition class_push :: "size_class \<Rightarrow> nat \<Rightarrow> size_class" where
  "class_push c off =
     (let idx = off div slot_size c
      in if idx > u32_max then c
         else c\<lparr> slots := splice (slots c) off (zeros (slot_size c)), free_list := free_list c @ [idx] \<rparr>)"

definition pool_build :: "bool \<Rightarrow> bool \<Rightarrow> nat \<Rightarrow> nat \<Rightarrow> crypto_error + secure_pool" where
  "pool_build mlock_small mlock_large small_count large_count =
     res_bind (size_class_new mlock_small SMALL_SLOT_BYTES small_count) (\<lambda>s.
     res_bind (size_class_new mlock_large LARGE_SLOT_BYTES large_count) (\<lambda>l.
       Ok \<lparr> small = s, large = l \<rparr>))"

definition pool_allocate :: "secure_pool \<Rightarrow> nat \<Rightarrow> ((nat \<times> nat) \<times> secure_pool) option" where
  "pool_allocate p sz =
     (if sz \<le> SMALL_SLOT_BYTES then
        map_option (\<lambda>(off, c). ((off, SMALL_SLOT_BYTES), p\<lparr> small := c \<rparr>)) (class_pop (small p))
      else if sz \<le> LARGE_SLOT_BYTES then
        map_option (\<lambda>(off, c). ((off, LARGE_SLOT_BYTES), p\<lparr> large := c \<rparr>)) (class_pop (large p))
      else None)"

definition pool_release :: "secure_pool \<Rightarrow> nat \<Rightarrow> nat \<Rightarrow> secure_pool" where
  "pool_release p off sz =
     (if sz = SMALL_SLOT_BYTES then p\<lparr> small := class_push (small p) off \<rparr>
      else if sz = LARGE_SLOT_BYTES then p\<lparr> large := class_push (large p) off \<rparr>
      else p)"

definition sm_allocate :: "secure_pool \<Rightarrow> nat \<Rightarrow> crypto_error + (sm_handle \<times> secure_pool)" where
  "sm_allocate p sz =
     (if sz = 0 \<or> sz > MAX_BUFFER_SIZE then Err (AllocationFailed sz)
      else case pool_allocate p sz of
        None \<Rightarrow> Err (AllocationFailed sz)
      | Some ((off, slot), p') \<Rightarrow> Ok (\<lparr> ptr = off, len = sz, h_slot_size = slot \<rparr>, p'))"

definition class_of :: "secure_pool \<Rightarrow> nat \<Rightarrow> size_class" where
  "class_of p sz = (if sz = SMALL_SLOT_BYTES then small p else large p)"

definition set_bytes :: "secure_pool \<Rightarrow> sm_handle \<Rightarrow> bytes \<Rightarrow> secure_pool" where
  "set_bytes p h data =
     (if h_slot_size h = SMALL_SLOT_BYTES
      then p\<lparr> small := (small p)\<lparr> slots := splice (slots (small p)) (ptr h) data \<rparr> \<rparr>
      else p\<lparr> large := (large p)\<lparr> slots := splice (slots (large p)) (ptr h) data \<rparr> \<rparr>)"

definition as_slice :: "secure_pool \<Rightarrow> sm_handle \<Rightarrow> bytes" where
  "as_slice p h = slice (slots (class_of p (h_slot_size h))) (ptr h) (len h)"

definition sm_write :: "secure_pool \<Rightarrow> sm_handle \<Rightarrow> bytes \<Rightarrow> crypto_error + secure_pool" where
  "sm_write p h data =
     (if length data > len h then Err (CryptoBufferTooSmall (len h) (length data))
      else Ok (set_bytes p h (data @ zeros (len h - length data))))"

definition sm_read_bytes :: "secure_pool \<Rightarrow> sm_handle \<Rightarrow> nat \<Rightarrow> crypto_error + bytes" where
  "sm_read_bytes p h n =
     (if n > len h then Err (CryptoBufferTooSmall (len h) n) else Ok (take n (as_slice p h)))"

definition sm_try_clone :: "secure_pool \<Rightarrow> sm_handle \<Rightarrow> crypto_error + (sm_handle \<times> secure_pool)" where
  "sm_try_clone p h =
     res_bind (sm_allocate p (len h)) (\<lambda>(copy, p'). Ok (copy, set_bytes p' copy (as_slice p' h)))"

definition sm_drop :: "secure_pool \<Rightarrow> sm_handle \<Rightarrow> secure_pool" where
  "sm_drop p h = pool_release (set_bytes p h (zeros (len h))) (ptr h) (h_slot_size h)"

text \<open>Every way the program changes the pool: the live handles are those not yet dropped.\<close>

inductive mem_step :: "secure_pool \<times> sm_handle list \<Rightarrow> secure_pool \<times> sm_handle list \<Rightarrow> bool" where
  alloc: "sm_allocate p sz = Ok (h, p') \<Longrightarrow> mem_step (p, hs) (p', h # hs)"
| write_ok: "h \<in> set hs \<Longrightarrow> sm_write p h data = Ok p' \<Longrightarrow> mem_step (p, hs) (p', hs)"
| clone: "g \<in> set hs \<Longrightarrow> sm_try_clone p g = Ok (h, p') \<Longrightarrow> mem_step (p, hs) (p', h # hs)"
| drop_handle: "h \<in> set hs \<Longrightarrow> mem_step (p, hs) (sm_drop p h, remove1 h hs)"

inductive mem_reachable :: "secure_pool \<times> sm_handle list \<Rightarrow> bool" where
  start: "pool_build a b m n = Ok p \<Longrightarrow> mem_reachable (p, [])"
| step: "mem_reachable s \<Longrightarrow> mem_step s s' \<Longrightarrow> mem_reachable s'"

section \<open>Slices of a region\<close>

lemma length_splice [simp]: "off + length d \<le> length bs \<Longrightarrow> length (splice bs off d) = length bs"
  by (simp add: splice_def)

lemma nth_splice:
  "off + length d \<le> length bs \<Longrightarrow> k < length bs \<Longrightarrow>
    splice bs off d ! k = (if off \<le> k \<and> k < off + length d then d ! (k - off) else bs ! k)"
  by (auto simp: splice_def nth_append min_def)

lemma slice_splice_same:
  "off + length d \<le> length bs \<Longrightarrow> slice (splice bs off d) off (length d) = d"
  by (simp add: slice_def splice_def)

lemma slice_splice_disjoint:
  assumes "off + length d \<le> length bs" "o2 + n \<le> off \<or> off + length d \<le> o2" "o2 + n \<le> length bs"
  shows "slice (splice bs off d) o2 n = slice bs o2 n"
  using assms by (intro nth_equalityI) (auto simp: slice_def nth_splice)

lemma slots_disjoint:
  assumes "i \<noteq> j" "a \<le> ss" "b \<le> ss"
  shows "i * ss + a \<le> j * ss \<or> j * ss + b \<le> (i :: nat) * ss"
proof (cases "i < j")
  case True
  then have "Suc i * ss \<le> j * ss" by (intro mult_le_mono1) simp
  with assms show ?thesis by simp
next
  case False
  with assms(1) have "Suc j * ss \<le> i * ss" by (intro mult_le_mono1) simp
  with assms show ?thesis by simp
qed

section \<open>The invariant of one size class\<close>

definition slot_no :: "nat \<Rightarrow> sm_handle \<Rightarrow> nat" where
  "slot_no ss h = ptr h div ss"

definition class_inv :: "size_class \<Rightarrow> nat \<Rightarrow> sm_handle list \<Rightarrow> bool" where
  "class_inv c ss hs \<longleftrightarrow> slot_size c = ss \<and> 0 < ss \<and>
     (\<exists>count \<le> u32_max. length (slots c) = count * ss \<and>
        (\<forall>i \<in> set (free_list c) \<union> slot_no ss ` set hs. i < count)) \<and>
     distinct (free_list c @ map (slot_no ss) hs) \<and>
     (\<forall>i \<in> set (free_list c). slice (slots c) (i * ss) ss = zeros ss) \<and>
     (\<forall>h \<in> set hs. ptr h = slot_no ss h * ss \<and> len h \<le> ss)"

lemma class_inv_new:
  assumes "size_class_new l ss n = Ok c" "0 < ss"
  shows "class_inv c ss []"
proof -
  have "slice (zeros (ss * n)) (i * ss) ss = zeros ss" if "i < n" for i
  proof -
    have "Suc i * ss \<le> n * ss" using that by (intro mult_le_mono1) simp
    then have "ss \<le> ss * n - i * ss" by (simp add: mult.commute)
    then show ?thesis by (simp add: slice_def zeros_def)
  qed
  with assms show ?thesis
    by (auto simp: size_class_new_def class_inv_def mult.commute not_less split: if_splits)
qed

lemma class_inv_slot_end:
  assumes "class_inv c ss hs" "i \<in> set (free_list c) \<union> slot_no ss ` set hs"
  shows "i * ss + ss \<le> length (slots c)"
proof -
  from assms obtain count where "length (slots c) = count * ss" "i < count" by (auto simp: class_inv_def)
  moreover from this have "Suc i * ss \<le> count * ss" by (intro mult_le_mono1) simp
  ultimately show ?thesis by simp
qed

lemma slice_prefix_zeros:
  assumes "slice bs o1 ss = zeros ss" "n \<le> ss"
  shows "slice bs o1 n = zeros n"
proof -
  have "slice bs o1 n = take n (slice bs o1 ss)" using assms(2) by (simp add: slice_def min_def)
  also have "\<dots> = zeros n" using assms by (simp add: zeros_def)
  finally show ?thesis .
qed

lemma class_pop_inv:
  assumes "class_inv c ss hs" "class_pop c = Some (off, c')" "n \<le> ss" "ptr h = off" "len h = n"
  shows "class_inv c' ss (h # hs)" and "slots c' = slots c" and "slice (slots c') off n = zeros n"
proof -
  from assms obtain fl i where fl: "free_list c = fl @ [i]" "off = i * ss" "c' = c\<lparr> free_list := fl \<rparr>"
    by (auto simp: class_pop_def class_inv_def split: if_splits) (metis append_butlast_last_id)
  have "slot_no ss h = i" using assms fl by (simp add: slot_no_def class_inv_def)
  with assms fl show "class_inv c' ss (h # hs)" by (auto simp: class_inv_def)
  show "slots c' = slots c" using fl by simp
  have "slice (slots c) (i * ss) ss = zeros ss" using assms(1) fl by (simp add: class_inv_def)
  with assms(3) fl show "slice (slots c') off n = zeros n" by (simp add: slice_prefix_zeros)
qed

lemma slot_no_inj:
  "distinct (map (slot_no ss) hs) \<Longrightarrow> h \<in> set hs \<Longrightarrow> g \<in> set hs \<Longrightarrow> g \<noteq> h \<Longrightarrow> slot_no ss g \<noteq> slot_no ss h"
  by (auto simp: distinct_map inj_on_def)

text \<open>Writing inside the slot of a live handle.\<close>

lemma class_write:
  assumes inv: "class_inv c ss hs" and h: "h \<in> set hs" and d: "length d \<le> ss"
  defines "c' \<equiv> c\<lparr> slots := splice (slots c) (ptr h) d \<rparr>"
  shows "class_inv c' ss hs"
    and "g \<in> set hs \<Longrightarrow> g \<noteq> h \<Longrightarrow> slice (slots c') (ptr g) (len g) = slice (slots c) (ptr g) (len g)"
    and "slice (slots c') (ptr h) (length d) = d"
    and "i \<in> set (free_list c) \<Longrightarrow> slice (slots c') (i * ss) ss = zeros ss"
proof -
  have ph: "ptr h = slot_no ss h * ss" using inv h by (auto simp: class_inv_def)
  have eh: "slot_no ss h * ss + length d \<le> length (slots c)"
    using class_inv_slot_end [OF inv, of "slot_no ss h"] h d by simp
  have other: "slice (slots c') (j * ss) n = slice (slots c) (j * ss) n"
    if "j \<in> set (free_list c) \<union> slot_no ss ` set hs" "j \<noteq> slot_no ss h" "n \<le> ss" for j n
  proof -
    have "j * ss + n \<le> length (slots c)" using class_inv_slot_end [OF inv that(1)] that(3) by simp
    then show ?thesis using slots_disjoint [OF that(2,3) d] eh unfolding c'_def ph
      by (simp add: slice_splice_disjoint)
  qed
  have free: "slice (slots c') (i * ss) ss = zeros ss" if "i \<in> set (free_list c)" for i
    using other [of i ss] that inv h by (auto simp: class_inv_def)
  then show "i \<in> set (free_list c) \<Longrightarrow> slice (slots c') (i * ss) ss = zeros ss" by blast
  show "class_inv c' ss hs" using inv free eh ph by (auto simp: class_inv_def c'_def)
  show "slice (slots c') (ptr h) (length d) = d" using eh by (simp add: c'_def ph slice_splice_same)
  assume g: "g \<in> set hs" "g \<noteq> h"
  then have "ptr g = slot_no ss g * ss" "len g \<le> ss" "slot_no ss g \<noteq> slot_no ss h"
    using inv h slot_no_inj by (auto simp: class_inv_def)
  then show "slice (slots c') (ptr g) (len g) = slice (slots c) (ptr g) (len g)"
    using other [of "slot_no ss g" "len g"] g(1) by simp
qed

text \<open>Returning the slot of a live handle.\<close>

lemma class_inv_give_back:
  assumes inv: "class_inv c ss hs" and h: "h \<in> set hs"
    and z: "slice (slots c) (slot_no ss h * ss) ss = zeros ss"
  shows "class_inv (c\<lparr> free_list := free_list c @ [slot_no ss h] \<rparr>) ss (remove1 h hs)"
proof -
  have dist: "distinct (map (slot_no ss) hs)" using inv by (simp add: class_inv_def)
  then have hs: "distinct hs" by (simp add: distinct_map)
  have "slot_no ss h \<notin> slot_no ss ` set (remove1 h hs)"
  proof
    assume "slot_no ss h \<in> slot_no ss ` set (remove1 h hs)"
    then obtain x where x: "x \<in> set (remove1 h hs)" "slot_no ss h = slot_no ss x" by blast
    then have "x \<in> set hs" "x \<noteq> h" using hs by (simp_all add: set_remove1_eq)
    with x(2) slot_no_inj [OF dist h] show False by metis
  qed
  moreover have "distinct (map (slot_no ss) (remove1 h hs))"
    using dist hs by (auto simp: distinct_map intro: inj_on_subset)
  ultimately show ?thesis using inv h hs z by (auto simp: class_inv_def)
qed

lemma class_push_inv:
  assumes inv: "class_inv c ss hs" and h: "h \<in> set hs"
  shows "class_inv (class_push c (ptr h)) ss (remove1 h hs)"
    and "g \<in> set hs \<Longrightarrow> g \<noteq> h \<Longrightarrow>
      slice (slots (class_push c (ptr h))) (ptr g) (len g) = slice (slots c) (ptr g) (len g)"
proof -
  define c1 where "c1 = c\<lparr> slots := splice (slots c) (ptr h) (zeros ss) \<rparr>"
  have ss: "slot_size c = ss" using inv by (simp add: class_inv_def)
  from inv h obtain count where "count \<le> u32_max" "slot_no ss h < count"
    unfolding class_inv_def by blast
  with ss have push: "class_push c (ptr h) = c1\<lparr> free_list := free_list c1 @ [slot_no ss h] \<rparr>"
    by (auto simp: class_push_def c1_def slot_no_def)
  note w = class_write [OF inv h, of "zeros ss", folded c1_def]
  show "g \<in> set hs \<Longrightarrow> g \<noteq> h \<Longrightarrow>
      slice (slots (class_push c (ptr h))) (ptr g) (len g) = slice (slots c) (ptr g) (len g)"
    using w(2) by (simp add: push)
  have "ptr h = slot_no ss h * ss" using inv h unfolding class_inv_def by blast
  then have "slice (slots c1) (slot_no ss h * ss) ss = zeros ss" using w(3) by simp
  with w(1) h show "class_inv (class_push c (ptr h)) ss (remove1 h hs)"
    unfolding push by (intro class_inv_give_back) simp_all
qed

section \<open>The invariant of the pool\<close>

definition in_class :: "nat \<Rightarrow> sm_handle list \<Rightarrow> sm_handle list" where
  "in_class ss hs = filter (\<lambda>h. h_slot_size h = ss) hs"

definition pool_inv :: "secure_pool \<times> sm_handle list \<Rightarrow> bool" where
  "pool_inv s \<longleftrightarrow> class_inv (small (fst s)) 64 (in_class 64 (snd s)) \<and>
     class_inv (large (fst s)) 4096 (in_class 4096 (snd s)) \<and>
     (\<forall>h \<in> set (snd s). h_slot_size h = 64 \<or> h_slot_size h = 4096)"

lemma in_class_simps [simp]:
  "in_class ss [] = []"
  "in_class ss (h # hs) = (if h_slot_size h = ss then h # in_class ss hs else in_class ss hs)"
  "set (in_class ss hs) = {h \<in> set hs. h_slot_size h = ss}"
  by (auto simp: in_class_def)

lemma in_class_remove1:
  "in_class ss (remove1 h hs) = (if h_slot_size h = ss then remove1 h (in_class ss hs) else in_class ss hs)"
  by (induction hs) auto

lemma pool_inv_live: "pool_inv (p, hs) \<Longrightarrow> h \<in> set hs \<Longrightarrow> len h \<le> h_slot_size h"
  by (auto simp: pool_inv_def class_inv_def)

text \<open>Allocation: the new handle shows zeros only, and nobody else's bytes change.\<close>

lemma sm_allocate_inv:
  assumes "pool_inv (p, hs)" "sm_allocate p sz = Ok (h, p')"
  shows "pool_inv (p', h # hs)" and "as_slice p' h = zeros sz" and "len h = sz"
    and "as_slice p' g = as_slice p g"
proof -
  from assms(2) obtain c where
    c: "sz \<le> 64 \<and> h_slot_size h = 64 \<and> class_pop (small p) = Some (ptr h, c) \<and> p' = p\<lparr> small := c \<rparr> \<or>
        sz \<le> 4096 \<and> h_slot_size h = 4096 \<and> class_pop (large p) = Some (ptr h, c) \<and> p' = p\<lparr> large := c \<rparr>"
    and len: "len h = sz"
    by (auto simp: sm_allocate_def pool_allocate_def split: if_splits option.splits prod.splits)
  show "len h = sz" by (rule len)
  have "pool_inv (p', h # hs) \<and> as_slice p' h = zeros sz \<and> as_slice p' g = as_slice p g" for g
  proof (cases "h_slot_size h = 64")
    case True
    with c have "class_pop (small p) = Some (ptr h, c)" "p' = p\<lparr> small := c \<rparr>" "sz \<le> 64" by auto
    with class_pop_inv [of "small p" 64 "in_class 64 hs" "ptr h" c sz h] assms(1) len True
    show ?thesis by (auto simp: pool_inv_def as_slice_def class_of_def)
  next
    case False
    with c have "class_pop (large p) = Some (ptr h, c)" "p' = p\<lparr> large := c \<rparr>" "sz \<le> 4096"
      "h_slot_size h = 4096" by auto
    with class_pop_inv [of "large p" 4096 "in_class 4096 hs" "ptr h" c sz h] assms(1) len
    show ?thesis by (auto simp: pool_inv_def as_slice_def class_of_def)
  qed
  then show "pool_inv (p', h # hs)" "as_slice p' h = zeros sz" "as_slice p' g = as_slice p g" by blast+
qed

text \<open>Writing through a live handle.\<close>

lemma set_bytes_inv:
  assumes "pool_inv (p, hs)" "h \<in> set hs" "length d = len h"
  shows "pool_inv (set_bytes p h d, hs)" and "as_slice (set_bytes p h d) h = d"
    and "g \<in> set hs \<Longrightarrow> g \<noteq> h \<Longrightarrow> as_slice (set_bytes p h d) g = as_slice p g"
proof -
  have "length d \<le> h_slot_size h" using assms pool_inv_live by fastforce
  moreover have "h_slot_size h = 64 \<or> h_slot_size h = 4096" using assms by (auto simp: pool_inv_def)
  ultimately have "pool_inv (set_bytes p h d, hs) \<and> as_slice (set_bytes p h d) h = d \<and>
     (g \<in> set hs \<and> g \<noteq> h \<longrightarrow> as_slice (set_bytes p h d) g = as_slice p g)" for g
  proof (elim disjE)
    assume "length d \<le> h_slot_size h" "h_slot_size h = 64"
    with assms class_write [of "small p" 64 "in_class 64 hs" h d] show ?thesis
      by (simp add: pool_inv_def set_bytes_def as_slice_def class_of_def)
  next
    assume "length d \<le> h_slot_size h" "h_slot_size h = 4096"
    with assms class_write [of "large p" 4096 "in_class 4096 hs" h d] show ?thesis
      by (auto simp add: pool_inv_def set_bytes_def as_slice_def class_of_def)
  qed
  then show "pool_inv (set_bytes p h d, hs)" "as_slice (set_bytes p h d) h = d"
    "g \<in> set hs \<Longrightarrow> g \<noteq> h \<Longrightarrow> as_slice (set_bytes p h d) g = as_slice p g" by auto
qed

text \<open>Dropping a live handle.\<close>

lemma pool_release_inv:
  assumes "pool_inv (p, hs)" "h \<in> set hs"
  shows "pool_inv (pool_release p (ptr h) (h_slot_size h), remove1 h hs)"
    and "g \<in> set hs \<Longrightarrow> g \<noteq> h \<Longrightarrow> as_slice (pool_release p (ptr h) (h_slot_size h)) g = as_slice p g"
proof -
  have live: "x \<in> set (remove1 h hs) \<Longrightarrow> x \<in> set hs" for x by (meson notin_set_remove1)
  have "h_slot_size h = 64 \<or> h_slot_size h = 4096" using assms by (auto simp: pool_inv_def)
  then have "pool_inv (pool_release p (ptr h) (h_slot_size h), remove1 h hs) \<and>
     (g \<in> set hs \<and> g \<noteq> h \<longrightarrow> as_slice (pool_release p (ptr h) (h_slot_size h)) g = as_slice p g)" for g
  proof (elim disjE)
    assume "h_slot_size h = 64"
    with assms class_push_inv [of "small p" 64 "in_class 64 hs" h] show ?thesis
      by (auto simp: pool_inv_def pool_release_def as_slice_def class_of_def in_class_remove1 dest: live)
  next
    assume "h_slot_size h = 4096"
    with assms class_push_inv [of "large p" 4096 "in_class 4096 hs" h] show ?thesis
      by (auto simp: pool_inv_def pool_release_def as_slice_def class_of_def in_class_remove1 dest: live)
  qed
  then show "pool_inv (pool_release p (ptr h) (h_slot_size h), remove1 h hs)"
    "g \<in> set hs \<Longrightarrow> g \<noteq> h \<Longrightarrow> as_slice (pool_release p (ptr h) (h_slot_size h)) g = as_slice p g"
    by auto
qed

lemma class_slice_length:
  assumes "class_inv c ss hs" "h \<in> set hs"
  shows "length (slice (slots c) (ptr h) (len h)) = len h"
proof -
  have "ptr h + ss \<le> length (slots c)" "len h \<le> ss"
    using class_inv_slot_end [OF assms(1), of "slot_no ss h"] assms by (auto simp: class_inv_def)
  then show ?thesis by (simp add: slice_def)
qed

lemma length_as_slice: "pool_inv (p, hs) \<Longrightarrow> h \<in> set hs \<Longrightarrow> length (as_slice p h) = len h"
  using class_slice_length [of "small p" 64 "in_class 64 hs" h]
    class_slice_length [of "large p" 4096 "in_class 4096 hs" h]
  by (auto simp: pool_inv_def as_slice_def class_of_def)

lemma mem_step_inv: "mem_step s s' \<Longrightarrow> pool_inv s \<Longrightarrow> pool_inv s'"
proof (induction rule: mem_step.induct)
  case (alloc p sz h p' hs)
  then show ?case by (blast intro: sm_allocate_inv)
next
  case (write_ok h hs p data p')
  then show ?case by (auto simp: sm_write_def split: if_splits intro!: set_bytes_inv)
next
  case (clone g hs p h p')
  then obtain p1 where a: "sm_allocate p (len g) = Ok (h, p1)" "p' = set_bytes p1 h (as_slice p1 g)"
    by (auto simp: sm_try_clone_def result_simps)
  note al = sm_allocate_inv [OF clone.prems a(1)]
  have "length (as_slice p1 g) = len h"
    using length_as_slice [OF al(1), of g] clone.hyps al(3) by simp
  then show ?case using set_bytes_inv(1) [OF al(1)] a(2) by simp
next
  case (drop_handle h hs p)
  then show ?case unfolding sm_drop_def
    by (intro pool_release_inv set_bytes_inv) simp_all
qed

lemma mem_reachable_inv: "mem_reachable s \<Longrightarrow> pool_inv s"
proof (induction rule: mem_reachable.induct)
  case (start a b m n p)
  then show ?case by (auto simp: pool_build_def pool_inv_def result_simps intro: class_inv_new)
next
  case (step s s')
  then show ?case by (blast intro: mem_step_inv)
qed

lemma sm_drop_others:
  "pool_inv (p, hs) \<Longrightarrow> h \<in> set hs \<Longrightarrow> g \<in> set hs \<Longrightarrow> g \<noteq> h \<Longrightarrow> as_slice (sm_drop p h) g = as_slice p g"
  unfolding sm_drop_def
  by (subst pool_release_inv(2) [where hs = hs]) (simp_all add: set_bytes_inv)

section \<open>Properties\<close>

text \<open>C14. In every reachable state of the pool, a fresh handle reads as zeros, whatever earlier
  owners of its slot wrote, and taking it changes no live handle; a write shows exactly the
  written bytes, padded with zeros, through its own handle and nothing through any other; and
  dropping a handle changes no other.\<close>

theorem secure_memory_isolation:
  assumes "mem_reachable (p, hs)"
  shows "(sm_allocate p sz = Ok (h, p') \<longrightarrow> sm_read_bytes p' h sz = Ok (zeros sz) \<and>
      h \<notin> set hs \<and> (\<forall>g \<in> set hs. as_slice p' g = as_slice p g)) \<and>
    (h \<in> set hs \<and> sm_write p h data = Ok p' \<longrightarrow>
      as_slice p' h = data @ zeros (len h - length data) \<and>
      (\<forall>g \<in> set hs. g \<noteq> h \<longrightarrow> as_slice p' g = as_slice p g)) \<and>
    (h \<in> set hs \<longrightarrow> (\<forall>g \<in> set hs. g \<noteq> h \<longrightarrow> as_slice (sm_drop p h) g = as_slice p g))"
proof -
  note inv = mem_reachable_inv [OF assms]
  have dropped: "h \<in> set hs \<Longrightarrow> g \<in> set hs \<Longrightarrow> g \<noteq> h \<Longrightarrow> as_slice (sm_drop p h) g = as_slice p g" for g
    using sm_drop_others [OF inv] by blast
  have written: "as_slice p' h = data @ zeros (len h - length data) \<and>
      (\<forall>g \<in> set hs. g \<noteq> h \<longrightarrow> as_slice p' g = as_slice p g)"
    if "h \<in> set hs" "sm_write p h data = Ok p'"
    using that set_bytes_inv [OF inv that(1)] by (auto simp: sm_write_def split: if_splits)
  have taken: "sm_read_bytes p' h sz = Ok (zeros sz) \<and> h \<notin> set hs \<and>
      (\<forall>g \<in> set hs. as_slice p' g = as_slice p g)" if a: "sm_allocate p sz = Ok (h, p')"
  proof -
    note al = sm_allocate_inv [OF inv a]
    have "h_slot_size h = 64 \<or> h_slot_size h = 4096" using al(1) by (simp add: pool_inv_def)
    then have "h \<notin> set hs" using al(1) by (auto simp: pool_inv_def class_inv_def)
    then show ?thesis using al by (simp add: sm_read_bytes_def)
  qed
  show ?thesis using dropped written taken by blast
qed

theorem secure_memory_isolation_witness:
  "\<exists>p h p' p''. pool_build True True 2 1 = Ok p \<and> sm_allocate p 3 = Ok (h, p') \<and>
     sm_write p' h [5, 6] = Ok p'' \<and> as_slice p'' h = [5, 6, 0] \<and>
     sm_read_bytes p'' h 2 = Ok [5, 6]"
proof -
  let ?p = "\<lparr> small = \<lparr> slot_size = 64, slots = zeros 128, free_list = [1, 0] \<rparr>,
    large = \<lparr> slot_size = 4096, slots = zeros 4096, free_list = [0] \<rparr> \<rparr>"
  have b: "pool_build True True 2 1 = Ok ?p"
    by (simp add: pool_build_def size_class_new_def upt_rec)
  obtain h p' where a: "sm_allocate ?p 3 = Ok (h, p')"
    by (simp add: sm_allocate_def pool_allocate_def class_pop_def)
  have r: "mem_reachable (p', [h])" using b a by (blast intro: mem_reachable.intros mem_step.intros)
  have l: "len h = 3" using a by (auto simp: sm_allocate_def pool_allocate_def class_pop_def)
  obtain p'' where w: "sm_write p' h [5, 6] = Ok p''" using l by (simp add: sm_write_def)
  have "as_slice p'' h = [5, 6, 0]"
    using secure_memory_isolation [OF r, of 3 h p'' "[5, 6]"] w l by (simp add: zeros_def numeral_eq_Suc)
  with a b w l show ?thesis by (auto simp: sm_read_bytes_def)
qed

end
