(* ===== verification/Nonce.thy ===== *)
theory Nonce
  imports Core
begin

text \<open>
  Payload nonces (\<^verbatim>\<open>protocol/nonce.rs\<close>): a random prefix, a 16-bit counter that grows with
  every nonce, and the 16-bit message index. A generator never hands out the same nonce twice
  and stops at its limit; the message index can be read back from the nonce.
\<close>

record nonce_state =
  ns_prefix :: bytes
  ns_counter :: nat

definition nonce_state_new :: "bytes \<Rightarrow> nat \<Rightarrow> nonce_state pres" where
  "nonce_state_new prefix counter =
     (if counter \<ge> MAX_NONCE_COUNTER then Err (InvalidState ''Nonce counter exceeds maximum'')
      else Ok \<lparr> ns_prefix = prefix, ns_counter = counter \<rparr>)"

record nonce_generator =
  ng_state :: nonce_state
  ng_max_counter :: nat

definition nonce_limit :: "nat \<Rightarrow> nat" where
  "nonce_limit max_counter =
     (if max_counter = 0 \<or> max_counter > MAX_NONCE_COUNTER then MAX_NONCE_COUNTER else max_counter)"

text \<open>\<open>random\<close> is the result of \<open>get_random_bytes(NONCE_PREFIX_BYTES)\<close>.\<close>

definition create_with_limit :: "nat \<Rightarrow> bytes \<Rightarrow> nonce_generator pres" where
  "create_with_limit max_counter random =
     (let limit = nonce_limit max_counter
      in if length random \<noteq> NONCE_PREFIX_BYTES then Err (Generic ''Failed to generate nonce prefix'')
         else Ok \<lparr> ng_state = \<lparr> ns_prefix = take NONCE_PREFIX_BYTES random, ns_counter = 0 \<rparr>,
                   ng_max_counter = limit \<rparr>)"

definition nonce_create :: "bytes \<Rightarrow> nonce_generator pres" where
  "nonce_create random = create_with_limit MAX_NONCE_COUNTER random"

definition from_state_with_limit :: "nonce_state \<Rightarrow> nat \<Rightarrow> nonce_generator pres" where
  "from_state_with_limit state max_counter =
     (let limit = nonce_limit max_counter
      in if ns_counter state \<ge> limit then Err (InvalidState ''Nonce counter exceeds maximum'')
         else Ok \<lparr> ng_state = state, ng_max_counter = limit \<rparr>)"

definition nonce_from_state :: "nonce_state \<Rightarrow> nonce_generator pres" where
  "nonce_from_state state = from_state_with_limit state MAX_NONCE_COUNTER"

definition u16_le_loop :: "nat \<Rightarrow> nat \<Rightarrow> bytes" where
  "u16_le_loop count v16 = map (\<lambda>i. ucast (drop_bit (i * 8) (word_of_nat v16 :: 16 word) AND 0xFF)) [0..<count]"

definition next_nonce :: "nonce_generator \<Rightarrow> nat \<Rightarrow> bytes pres \<times> nonce_generator" where
  "next_nonce g message_index =
     (if message_index \<ge> MAX_MESSAGE_INDEX then
        (Err (InvalidInput ''Message index exceeds nonce encoding limits''), g)
      else if ns_counter (ng_state g) \<ge> ng_max_counter g then
        (Err (InvalidState ''Nonce counter overflow - rotate keys''), g)
      else if ns_counter (ng_state g) > u16_max then
        (Err (InvalidState ''Nonce counter does not fit 16-bit encoding''), g)
      else if message_index > u16_max then
        (Err (InvalidInput ''Message index does not fit 16-bit nonce encoding''), g)
      else
        (Ok (ns_prefix (ng_state g) @ u16_le_loop NONCE_COUNTER_BYTES (ns_counter (ng_state g))
               @ u16_le_loop NONCE_INDEX_BYTES message_index),
         g\<lparr> ng_state := (ng_state g)\<lparr> ns_counter := ns_counter (ng_state g) + 1 \<rparr> \<rparr>))"

definition export_state :: "nonce_generator \<Rightarrow> nonce_state" where
  "export_state g = ng_state g"

section \<open>The encoding\<close>

lemma u16_le_loop_eq: "v \<le> u16_max \<Longrightarrow> u16_le_loop 2 v = le_bytes 2 v"
proof -
  assume v: "v \<le> u16_max"
  let ?w = "word_of_nat v :: 16 word"
  have u: "unat ?w = v" using v by (intro unat_word_of_nat) simp
  have m: "x AND 0xFF = take_bit 8 x" for x :: "16 word"
    by (simp add: take_bit_eq_mask mask_eq_exp_minus_1)
  have low: "(ucast (x AND 0xFF) :: u8) = word_of_nat (unat x mod 256)" for x :: "16 word"
  proof -
    have "(ucast (x AND 0xFF) :: u8) = word_of_nat (unat (take_bit 8 x))" by (simp only: m of_nat_unat)
    also have "unat (take_bit 8 x) = unat x mod 256" by (simp only: unsigned_take_bit_eq) (simp add: take_bit_eq_mod)
    finally show ?thesis .
  qed
  have "unat (drop_bit 8 ?w) = v div 256"
    by (subst unsigned_drop_bit_eq, subst u) (use v in \<open>simp add: take_bit_nat_eq_self drop_bit_eq_div\<close>)
  then show ?thesis by (simp add: u16_le_loop_def numeral_2_eq_2 low u del: unat_of_nat)
qed

lemma next_nonce_Ok:
  "fst (next_nonce g i) = Ok n \<longleftrightarrow>
     i < MAX_MESSAGE_INDEX \<and> ns_counter (ng_state g) < ng_max_counter g \<and>
     ns_counter (ng_state g) \<le> u16_max \<and> i \<le> u16_max \<and>
     n = ns_prefix (ng_state g) @ le_bytes 2 (ns_counter (ng_state g)) @ le_bytes 2 i"
  by (auto simp: next_nonce_def u16_le_loop_eq)

lemma next_nonce_state:
  "snd (next_nonce g i) = (if is_ok (fst (next_nonce g i))
     then g\<lparr> ng_state := (ng_state g)\<lparr> ns_counter := ns_counter (ng_state g) + 1 \<rparr> \<rparr> else g)"
  by (simp add: next_nonce_def)

section \<open>Runs of a generator\<close>

text \<open>The results of asking for nonces at the given message indices, in order.\<close>

fun nonce_run :: "nonce_generator \<Rightarrow> nat list \<Rightarrow> bytes pres list" where
  "nonce_run g [] = []"
| "nonce_run g (i # is) = (case next_nonce g i of (r, g') \<Rightarrow> r # nonce_run g' is)"

definition handed_out :: "nonce_generator \<Rightarrow> nat list \<Rightarrow> bytes list" where
  "handed_out g is = [n. Inr n \<leftarrow> nonce_run g is]"

lemma handed_out_Cons:
  "handed_out g (i # is) = (case fst (next_nonce g i) of
     Inr n \<Rightarrow> n # handed_out (snd (next_nonce g i)) is | Inl e \<Rightarrow> handed_out (snd (next_nonce g i)) is)"
  by (auto simp: handed_out_def split: prod.splits sum.splits)

lemma handed_out_form:
  assumes "n \<in> set (handed_out g is)"
  shows "\<exists>c i. ns_counter (ng_state g) \<le> c \<and> c < ng_max_counter g \<and> c \<le> u16_max \<and> i \<in> set is \<and> i \<le> u16_max \<and>
    n = ns_prefix (ng_state g) @ le_bytes 2 c @ le_bytes 2 i"
  using assms
proof (induction "is" arbitrary: g)
  case (Cons i "is")
  show ?case
  proof (cases "fst (next_nonce g i)")
    case (Inl e)
    then have "n \<in> set (handed_out g is)"
      using Cons.prems next_nonce_state [of g i] by (simp add: handed_out_Cons)
    from Cons.IH [OF this] show ?thesis by auto
  next
    case (Inr m)
    have m: "m = ns_prefix (ng_state g) @ le_bytes 2 (ns_counter (ng_state g)) @ le_bytes 2 i"
      "ns_counter (ng_state g) < ng_max_counter g" "ns_counter (ng_state g) \<le> u16_max" "i \<le> u16_max"
      using Inr by (simp_all only: next_nonce_Ok)
    let ?g = "g\<lparr> ng_state := (ng_state g)\<lparr> ns_counter := ns_counter (ng_state g) + 1 \<rparr> \<rparr>"
    have "snd (next_nonce g i) = ?g" using Inr next_nonce_state [of g i] by simp
    then have "n = m \<or> n \<in> set (handed_out ?g is)"
      using Cons.prems Inr by (auto simp: handed_out_Cons)
    then show ?thesis
    proof
      assume "n = m"
      then show ?thesis using m
        by (intro exI [of _ "ns_counter (ng_state g)"] exI [of _ i]) simp
    next
      assume "n \<in> set (handed_out ?g is)"
      from Cons.IH [OF this] obtain c j where "ns_counter (ng_state g) + 1 \<le> c" "c < ng_max_counter g"
        "c \<le> u16_max" "j \<in> set is" "j \<le> u16_max"
        "n = ns_prefix (ng_state g) @ le_bytes 2 c @ le_bytes 2 j" by auto
      then show ?thesis by (intro exI [of _ c] exI [of _ j]) simp
    qed
  qed
qed (simp add: handed_out_def)

lemma handed_out_distinct: "distinct (handed_out g is)"
proof (induction "is" arbitrary: g)
  case (Cons i "is")
  show ?case
  proof (cases "fst (next_nonce g i)")
    case (Inl e)
    then show ?thesis using Cons by (auto simp: handed_out_Cons)
  next
    case (Inr m)
    let ?g = "snd (next_nonce g i)"
    have g: "ns_counter (ng_state ?g) = ns_counter (ng_state g) + 1" "ns_prefix (ng_state ?g) = ns_prefix (ng_state g)"
      using Inr next_nonce_state [of g i] by simp_all
    have m: "m = ns_prefix (ng_state g) @ le_bytes 2 (ns_counter (ng_state g)) @ le_bytes 2 i"
      "ns_counter (ng_state g) \<le> u16_max"
      using Inr by (simp_all only: next_nonce_Ok)
    have "m \<notin> set (handed_out ?g is)"
    proof
      assume "m \<in> set (handed_out ?g is)"
      from handed_out_form [OF this] obtain c j where c: "ns_counter (ng_state g) < c" "c \<le> u16_max"
        "m = ns_prefix (ng_state g) @ le_bytes 2 c @ le_bytes 2 j" unfolding g by (metis Suc_eq_plus1 Suc_le_lessD)
      with m have "le_bytes 2 c = le_bytes 2 (ns_counter (ng_state g))" by simp
      then show False using le_bytes_inject [of c 2 "ns_counter (ng_state g)"] c m(2) by simp
    qed
    then show ?thesis using Cons Inr by (auto simp: handed_out_Cons)
  qed
qed (simp add: handed_out_def)

lemma handed_out_length: "length (handed_out g is) \<le> ng_max_counter g - ns_counter (ng_state g)"
proof (induction "is" arbitrary: g)
  case (Cons i "is")
  show ?case
  proof (cases "fst (next_nonce g i)")
    case (Inl e)
    then show ?thesis using Cons [of g] next_nonce_state [of g i] by (auto simp: handed_out_Cons)
  next
    case (Inr m)
    then have "ns_counter (ng_state g) < ng_max_counter g" by (simp only: next_nonce_Ok)
    then show ?thesis using Cons [of "snd (next_nonce g i)"] Inr next_nonce_state [of g i]
      by (auto simp: handed_out_Cons)
  qed
qed (simp add: handed_out_def)

lemma handed_out_eval:
  "handed_out \<lparr> ng_state = \<lparr> ns_prefix = p, ns_counter = c \<rparr>, ng_max_counter = m \<rparr> (i # is) =
    (if i < 65535 \<and> c < m \<and> c \<le> 65535
     then (p @ le_bytes 2 c @ le_bytes 2 i) #
       handed_out \<lparr> ng_state = \<lparr> ns_prefix = p, ns_counter = c + 1 \<rparr>, ng_max_counter = m \<rparr> is
     else handed_out \<lparr> ng_state = \<lparr> ns_prefix = p, ns_counter = c \<rparr>, ng_max_counter = m \<rparr> is)"
  by (simp add: handed_out_Cons next_nonce_def u16_le_loop_eq)

section \<open>Properties\<close>

text \<open>C15. However a generator is driven, with any sequence of message indices and with failing
  calls in between, it never hands out the same nonce twice, hands out at most as many nonces as
  its limit leaves, and every nonce is 12 bytes long.\<close>

theorem nonces_never_repeat:
  assumes "create_with_limit limit random = Ok g"
  shows "distinct (handed_out g is) \<and> length (handed_out g is) \<le> nonce_limit limit \<and>
    (\<forall>n \<in> set (handed_out g is). length n = AES_GCM_NONCE_BYTES)"
proof (intro conjI)
  show "distinct (handed_out g is)" by (rule handed_out_distinct)
  have g: "ng_max_counter g = nonce_limit limit" "length (ns_prefix (ng_state g)) = 8"
    using assms by (auto simp: create_with_limit_def split: if_splits)
  then show "length (handed_out g is) \<le> nonce_limit limit" using handed_out_length [of g "is"] by simp
  show "\<forall>n \<in> set (handed_out g is). length n = AES_GCM_NONCE_BYTES"
    using g handed_out_form by fastforce
qed

theorem nonces_never_repeat_witness:
  "\<exists>g. create_with_limit 3 (zeros 8) = Ok g \<and> length (handed_out g [5, 70000, 5, 6, 7]) = 3 \<and>
     distinct (handed_out g [5, 70000, 5, 6, 7])"
proof -
  let ?g = "\<lparr> ng_state = \<lparr> ns_prefix = zeros 8, ns_counter = 0 \<rparr>, ng_max_counter = 3 \<rparr>"
  have g: "create_with_limit 3 (zeros 8) = Ok ?g"
    by (simp add: create_with_limit_def nonce_limit_def zeros_def)
  have "length (handed_out ?g [5, 70000, 5, 6, 7]) = 3"
    by (simp add: handed_out_eval) (simp add: handed_out_def)
  with g nonces_never_repeat [OF g] show ?thesis by blast
qed

end
