(* ===== verification/Padding.thy ===== *)
theory Padding
  imports Core
begin

text \<open>
  Sentinel padding (\<^verbatim>\<open>crypto/padding.rs\<close>): the branch-free comparison mask, the two
  constant-time passes over the padded buffer, and \<open>MessagePadding::pad\<close> and \<open>unpad\<close>. The
  machine arithmetic of the passes is kept: a \<open>usize\<close> is a 64-bit word. The passes are shown
  to compute the plain specification (the last byte 1, followed by zeros only), and the
  contract \<open>padding_scheme\<close> gathers what the callers use; the VoIP frame padding meets the
  same contract with its own block size.
\<close>

type_synonym usize = "64 word"

definition ct_gt_mask :: "usize \<Rightarrow> usize \<Rightarrow> u8" where
  "ct_gt_mask a b = (let diff = b - a in ucast (signed_drop_bit 63 diff))"

definition padded_length :: "nat \<Rightarrow> nat" where
  "padded_length plaintext_len =
     (let with_sentinel = plaintext_len + 1;
          blocks = div_ceil with_sentinel MESSAGE_PADDING_BLOCK_SIZE
      in blocks * MESSAGE_PADDING_BLOCK_SIZE)"

definition vec_resize :: "nat \<Rightarrow> bytes \<Rightarrow> bytes" where
  "vec_resize n buf = take n buf @ zeros (n - length buf)"

definition pad :: "bytes \<Rightarrow> bytes" where
  "pad plaintext = vec_resize (padded_length (length plaintext)) (plaintext @ [0x01])"

definition sentinel_mask :: "u8 \<Rightarrow> usize" where
  "sentinel_mask byte =
     (let diff = byte XOR 0x01;
          is_nonzero = ucast (drop_bit 7 ((ucast diff :: 16 word) OR - (ucast diff))) AND 1
      in is_nonzero - 1)"

fun find_sentinel :: "nat \<Rightarrow> bytes \<Rightarrow> usize \<times> usize \<Rightarrow> usize \<times> usize" where
  "find_sentinel i [] st = st"
| "find_sentinel i (byte # rest) (found_pos, found) =
     (let mask = sentinel_mask byte
      in find_sentinel (Suc i) rest
           ((found_pos AND NOT mask) OR (word_of_nat i AND mask), found OR (mask AND 1)))"

fun non_zero_after :: "nat \<Rightarrow> bytes \<Rightarrow> usize \<Rightarrow> u8 \<Rightarrow> u8" where
  "non_zero_after i [] found_pos acc = acc"
| "non_zero_after i (byte # rest) found_pos acc =
     (let after_sentinel = ct_gt_mask (word_of_nat i) found_pos
      in non_zero_after (Suc i) rest found_pos (acc OR (byte AND after_sentinel)))"

definition unpad :: "bytes \<Rightarrow> bytes pres" where
  "unpad padded =
     (if padded = [] then Err (Decode ''Invalid padding: empty input'')
      else if length padded mod MESSAGE_PADDING_BLOCK_SIZE \<noteq> 0 then
        Err (Decode ''Invalid padding: not block-aligned'')
      else
        case find_sentinel 0 padded (0, 0) of (found_pos, found) \<Rightarrow>
          if found = 0 then Err (Decode ''Invalid padding: no sentinel byte found'')
          else if non_zero_after 0 padded found_pos 0 \<noteq> 0 then
            Err (Decode ''Invalid padding: non-zero bytes after sentinel'')
          else Ok (take (unat found_pos) padded))"

section \<open>The branch-free arithmetic\<close>

lemma bit_7_or_minus:
  assumes "x \<noteq> (0 :: 16 word)" "unat x < 256"
  shows "bit (x OR - x) 7"
proof (cases "unat x < 128")
  case True
  have pos: "0 < unat x" using assms(1) by (simp add: unat_gt_0)
  have "word_of_nat (2 ^ 16 - unat x) = (word_of_nat (2 ^ 16) - word_of_nat (unat x) :: 16 word)"
    using True by (intro of_nat_diff) simp
  then have "- x = word_of_nat (2 ^ 16 - unat x)" by simp
  then have "unat (- x) = 2 ^ 16 - unat x" using pos by (simp add: unat_word_of_nat)
  moreover have "(2 ^ 16 - unat x) div 128 = 511" using True pos by (intro div_nat_eqI) simp_all
  ultimately have "bit (- x) 7" by (simp add: bit_word_iff_odd)
  then show ?thesis by (simp add: bit_or_iff)
next
  case False
  then have "unat x div 128 = 1" using assms(2) by (intro div_nat_eqI) simp_all
  then have "bit x 7" by (simp add: bit_word_iff_odd)
  then show ?thesis by (simp add: bit_or_iff)
qed

lemma bit_7_to_one:
  assumes "bit (y :: 16 word) 7"
  shows "(ucast (drop_bit 7 y) :: usize) AND 1 = 1"
proof -
  have "bit (ucast (drop_bit 7 y) :: usize) 0"
    using assms by (simp add: bit_unsigned_iff bit_drop_bit_eq del: bit_0)
  then have "odd (ucast (drop_bit 7 y) :: usize)" using bit_0 by blast
  then show ?thesis by (metis and_one_eq odd_iff_mod_2_eq_one)
qed

lemma sentinel_mask_eq: "sentinel_mask b = (if b = 1 then - 1 else 0)"
proof (cases "b = 1")
  case False
  let ?d = "ucast (b XOR 1) :: 16 word"
  have "b = (b XOR 1) XOR 1" by (simp add: xor.assoc)
  with False have "b XOR 1 \<noteq> 0" by auto
  have bnd: "unat (b XOR 1) < 256" using unsigned_less [of "b XOR 1"] by simp
  then have u: "unat ?d = unat (b XOR 1)" by (simp add: unsigned_ucast_eq take_bit_nat_eq_self)
  then have "?d \<noteq> 0" "unat ?d < 256"
    using \<open>b XOR 1 \<noteq> 0\<close> bnd by (auto simp: unsigned_eq_0_iff)
  then have "bit (?d OR - ?d) 7" by (rule bit_7_or_minus)
  then have "(ucast (drop_bit 7 (?d OR - ?d)) :: usize) AND 1 = 1" by (rule bit_7_to_one)
  then have "sentinel_mask b = 1 - 1" unfolding sentinel_mask_def Let_def by (simp only:)
  with False show ?thesis by simp
next
  case True
  then show ?thesis by (simp add: sentinel_mask_def)
qed

lemma signed_drop_bit_63: "signed_drop_bit 63 (w :: usize) = (if bit w 63 then - 1 else 0)"
  by (rule bit_word_eqI) (auto simp: bit_signed_drop_bit_iff min_def not_le dest!: less_SucI)

lemma ct_gt_mask_eq:
  assumes "a < 2 ^ 63" "b < 2 ^ 63"
  shows "ct_gt_mask (word_of_nat a) (word_of_nat b) = (if b < a then - 1 else 0)"
proof -
  have "bit (word_of_nat b - word_of_nat a :: usize) 63 \<longleftrightarrow> b < a"
    using assms by (rule bit63_diff)
  moreover have "ucast (- 1 :: usize) = (- 1 :: u8)" by (rule bit_word_eqI) (simp add: bit_unsigned_iff)
  ultimately show ?thesis by (simp add: ct_gt_mask_def signed_drop_bit_63)
qed

section \<open>The two passes\<close>

lemma find_sentinel_step:
  "find_sentinel i (b # bs) (fp, f) =
     find_sentinel (Suc i) bs (if b = 1 then (word_of_nat i, f OR 1) else (fp, f))"
  by (simp add: sentinel_mask_eq)

declare find_sentinel.simps(2) [simp del]

lemma find_sentinel_none: "1 \<notin> set bs \<Longrightarrow> find_sentinel i bs st = st"
  by (induction bs arbitrary: i st) (auto simp: find_sentinel_step split: prod.splits)

lemma find_sentinel_last:
  "1 \<notin> set zs \<Longrightarrow> find_sentinel i (m @ 1 # zs) (fp, f) = (word_of_nat (i + length m), f OR 1)"
  by (induction m arbitrary: i fp f) (auto simp: find_sentinel_step find_sentinel_none or.assoc)

lemma find_sentinel_result:
  assumes "1 \<notin> set zs"
  shows "find_sentinel 0 (m @ 1 # zs) (0, 0) = (word_of_nat (length m), 1)"
  using find_sentinel_last [OF assms, of 0 m 0 0] by simp

lemma non_zero_after_iff:
  assumes "i + length bs < 2 ^ 63" "fp < 2 ^ 63"
  shows "non_zero_after i bs (word_of_nat fp) acc = 0 \<longleftrightarrow>
    acc = 0 \<and> (\<forall>j < length bs. fp < i + j \<longrightarrow> bs ! j = 0)"
  using assms
proof (induction bs arbitrary: i acc)
  case (Cons b bs)
  have m: "ct_gt_mask (word_of_nat i) (word_of_nat fp) = (if fp < i then - 1 else 0)"
    using Cons.prems by (intro ct_gt_mask_eq) simp_all
  have "acc OR (b AND ct_gt_mask (word_of_nat i) (word_of_nat fp)) = 0 \<longleftrightarrow>
      acc = 0 \<and> (fp < i \<longrightarrow> b = 0)"
    by (auto simp: m or_eq_0_iff)
  moreover have "(\<forall>j < length (b # bs). fp < i + j \<longrightarrow> (b # bs) ! j = 0) \<longleftrightarrow>
      (fp < i \<longrightarrow> b = 0) \<and> (\<forall>j < length bs. fp < Suc i + j \<longrightarrow> bs ! j = 0)"
    by (simp add: All_less_Suc2)
  moreover have "Suc i + length bs < 2 ^ 63" using Cons.prems by simp
  ultimately show ?case using Cons.IH [of "Suc i"] Cons.prems(2) by (simp only: non_zero_after.simps Let_def) blast
qed simp

lemma non_zero_after_split:
  assumes "length m + length zs < 2 ^ 63 - 1"
  shows "non_zero_after 0 (m @ b # zs) (word_of_nat (length m)) 0 = 0 \<longleftrightarrow> zs = zeros (length zs)"
proof -
  have "(\<forall>j < length (m @ b # zs). length m < j \<longrightarrow> (m @ b # zs) ! j = 0) \<longleftrightarrow>
      (\<forall>k < length zs. zs ! k = 0)" (is "?L \<longleftrightarrow> ?R")
  proof
    assume L: ?L
    show ?R
    proof (intro allI impI)
      fix k assume "k < length zs"
      with L [rule_format, of "length m + Suc k"] show "zs ! k = 0" by (simp add: nth_append)
    qed
  qed (auto simp: nth_append nth_Cons')
  also have "?R \<longleftrightarrow> zs = zeros (length zs)" by (auto simp: zeros_def list_eq_iff_nth_eq)
  finally show ?thesis using assms by (subst non_zero_after_iff) auto
qed


lemma find_sentinel_cases:
  obtains "1 \<notin> set p" "find_sentinel 0 p (0, 0) = (0, 0)"
  | m zs where "p = m @ 1 # zs" "1 \<notin> set zs" "find_sentinel 0 p (0, 0) = (word_of_nat (length m), 1)"
proof (cases "1 \<in> set p")
  case True
  then obtain m zs where "p = m @ 1 # zs" "1 \<notin> set zs" by (meson split_list_last)
  with that(2) find_sentinel_result show ?thesis by blast
qed (simp add: that(1) find_sentinel_none)

lemma sentinel_unique:
  "m @ 1 # zs = m' @ 1 # zeros k \<Longrightarrow> 1 \<notin> set zs \<Longrightarrow> m = m' \<and> zs = zeros k"
proof (induction m arbitrary: m')
  case Nil
  then show ?case by (cases m') auto
next
  case step: (Cons a m)
  show ?case
  proof (cases m')
    case Nil
    with step.prems have "m @ 1 # zs = zeros k" by simp
    then have "1 \<in> set (zeros k)" by (metis in_set_conv_decomp)
    then show ?thesis by (simp add: zeros_def)
  next
    case (Cons a' m'')
    with step.prems step.IH [of m''] show ?thesis by simp
  qed
qed

definition sentinel_form :: "bytes \<Rightarrow> bytes \<Rightarrow> bool" where
  "sentinel_form p m \<longleftrightarrow> (\<exists>k. p = m @ 1 # zeros k)"

lemma sentinel_form_unique: "sentinel_form p m \<Longrightarrow> sentinel_form p m' \<Longrightarrow> m = m'"
proof -
  assume "sentinel_form p m" "sentinel_form p m'"
  then obtain k k' where "m @ 1 # zeros k = m' @ 1 # zeros k'" by (auto simp: sentinel_form_def)
  moreover have "1 \<notin> set (zeros k)" by (simp add: zeros_def)
  ultimately show "m = m'" using sentinel_unique by blast
qed

text \<open>The decision the two passes make, on a buffer a machine can hold.\<close>

lemma sentinel_passes:
  assumes "length p < 2 ^ 63" "find_sentinel 0 p (0, 0) = (found_pos, found)"
  shows "found \<noteq> 0 \<and> non_zero_after 0 p found_pos 0 = 0 \<and> take (unat found_pos) p = m \<longleftrightarrow>
    sentinel_form p m"
proof (cases p rule: find_sentinel_cases)
  case 1
  with assms show ?thesis by (auto simp: sentinel_form_def)
next
  case (2 pre zs)
  have u: "unat (word_of_nat (length pre) :: usize) = length pre"
    using assms(1) 2(1) by (intro unat_word_of_nat) simp
  have "non_zero_after 0 p found_pos 0 = 0 \<longleftrightarrow> zs = zeros (length zs)"
    using assms 2 non_zero_after_split [of pre zs 1] by simp
  with 2 assms(2) u show ?thesis
    by (auto simp: sentinel_form_def dest!: sentinel_unique)
qed


section \<open>The contract of a padding scheme\<close>

locale padding_scheme =
  fixes block :: nat
    and accepts :: "bytes \<Rightarrow> bool"
    and pad_op :: "bytes \<Rightarrow> bytes"
    and unpad_op :: "bytes \<Rightarrow> bytes pres"
  assumes block_pos: "0 < block"
    and pad_length: "length (pad_op m) = div_ceil (length m + 1) block * block"
    and pad_form: "sentinel_form (pad_op m) m"
    and unpad_iff: "length p < 2 ^ 63 \<Longrightarrow>
      unpad_op p = Ok m \<longleftrightarrow> length p mod block = 0 \<and> sentinel_form p m \<and> accepts m"
begin

lemma pad_bounds: "length m < length (pad_op m) \<and> length (pad_op m) \<le> length m + block"
  using div_ceil_ge [OF block_pos, of "length m + 1"] div_ceil_bound [OF block_pos, of "length m + 1"]
  by (simp add: pad_length)

lemma pad_roundtrip:
  assumes "accepts m" "length m + block < 2 ^ 63"
  shows "unpad_op (pad_op m) = Ok m"
proof -
  have "length (pad_op m) < 2 ^ 63" using pad_bounds [of m] assms by linarith
  then show ?thesis using assms pad_form by (simp add: unpad_iff pad_length)
qed

lemma pad_injective: "pad_op m = pad_op m' \<Longrightarrow> m = m'"
  using pad_form sentinel_form_unique by metis

lemma pad_hides_length:
  assumes "length m div block = length m' div block"
  shows "length (pad_op m) = length (pad_op m')"
proof -
  have "div_ceil (n + 1) block = n div block + 1" for n
  proof -
    have "Suc n div block = (if Suc n mod block = 0 then Suc (n div block) else n div block)"
      by (simp add: div_Suc)
    then show ?thesis by (simp add: div_ceil_def)
  qed
  with assms show ?thesis by (simp add: pad_length)
qed

lemma unpad_shrinks:
  "length p < 2 ^ 63 \<Longrightarrow> unpad_op p = Ok m \<Longrightarrow> m = take (length m) p \<and> length m < length p"
  by (auto simp: unpad_iff sentinel_form_def)

end

section \<open>MessagePadding\<close>

lemma vec_resize_sentinel:
  "length m < n \<Longrightarrow> vec_resize n (m @ [1]) = m @ 1 # zeros (n - length m - 1)"
  by (simp add: vec_resize_def)

lemma padded_length_eq: "padded_length n = div_ceil (n + 1) 64 * 64"
  by (simp add: padded_length_def Let_def)

lemma pad_eq: "pad m = m @ 1 # zeros (padded_length (length m) - length m - 1)"
proof -
  have "length m < padded_length (length m)"
    using div_ceil_ge [of 64 "length m + 1"] by (simp add: padded_length_eq)
  then show ?thesis by (simp add: pad_def vec_resize_sentinel)
qed

lemma unpad_Ok_iff:
  assumes "length p < 2 ^ 63"
  shows "unpad p = Ok m \<longleftrightarrow> length p mod 64 = 0 \<and> sentinel_form p m"
proof -
  obtain fp f where f: "find_sentinel 0 p (0, 0) = (fp, f)" by fastforce
  have "p = [] \<Longrightarrow> \<not> sentinel_form p m" by (simp add: sentinel_form_def)
  then show ?thesis using sentinel_passes [OF assms f, of m] f by (auto simp: unpad_def)
qed

interpretation message_padding: padding_scheme 64 "\<lambda>_. True" pad unpad
proof
  show "length (pad m) = div_ceil (length m + 1) 64 * 64" for m
    using div_ceil_ge [of 64 "length m + 1"] by (simp add: pad_eq padded_length_eq)
  show "sentinel_form (pad m) m" for m by (auto simp: pad_eq sentinel_form_def)
qed (auto simp: unpad_Ok_iff)


section \<open>Properties\<close>

text \<open>C16. On any buffer a 64-bit machine can hold, the branch-free \<open>unpad\<close> accepts exactly the
  block-aligned buffers that consist of the message, the sentinel byte 1 and zeros, and returns
  that message.\<close>

theorem unpad_accepts_exactly:
  assumes "length p < 2 ^ 63"
  shows "unpad p = Ok m \<longleftrightarrow> length p mod 64 = 0 \<and> (\<exists>k. p = m @ [0x01] @ zeros k)"
  using unpad_Ok_iff [OF assms] by (simp add: sentinel_form_def)

theorem unpad_accepts_exactly_witness:
  "length ([7, 1] @ [1] @ zeros 61) < 2 ^ 63 \<and> unpad ([7, 1] @ [1] @ zeros 61) = Ok [7, 1]"
  using unpad_accepts_exactly [of "[7, 1] @ [1] @ zeros 61" "[7, 1]"] by auto

text \<open>C17. Unpadding a padded message gives the message back, the padded length is a multiple of
  64 that exceeds the message by at least 1 and at most 64 bytes, and it depends on the message
  only through the number of whole blocks in it.\<close>

theorem pad_unpad_roundtrip:
  assumes "length m + 64 < 2 ^ 63"
  shows "unpad (pad m) = Ok m \<and> 64 dvd length (pad m) \<and>
    length m < length (pad m) \<and> length (pad m) \<le> length m + 64 \<and>
    (length m div 64 = length m' div 64 \<longrightarrow> length (pad m) = length (pad m'))"
  using assms message_padding.pad_roundtrip [of m] message_padding.pad_bounds [of m]
    message_padding.pad_hides_length [of m m'] message_padding.pad_length [of m]
  by simp

theorem pad_unpad_roundtrip_witness:
  "unpad (pad [1, 1, 0]) = Ok [1, 1, 0] \<and> length (pad [1, 1, 0]) = length (pad [9])"
  using pad_unpad_roundtrip [of "[1, 1, 0]" "[9]"] by simp

end
