(* ===== verification/Crypto.thy ===== *)
theory Crypto
  imports Core
begin

text \<open>
  The wrappers of \<^verbatim>\<open>src/crypto\<close> around third-party primitives. The primitives themselves
  (AES-256-GCM-SIV, HKDF, HMAC, SHA-256, BLAKE2b, X25519, ML-KEM-768, Ed25519, and whether the locked
  memory pool has a free slot) are the fields of the record \<open>prims\<close>, a parameter of every
  definition that uses them; random bytes are explicit arguments. What the program relies on is
  stated as the predicates \<open>aead_ok\<close>, \<open>hkdf_ok\<close>, \<open>hash_ok\<close>, \<open>dh_ok\<close>,
  \<open>kem_ok\<close> and \<open>sig_ok\<close>, which are hypotheses of the theorems that need them.

  Wiping a buffer that is dropped right afterwards has no observable effect and is not
  represented; wiping a buffer that stays reachable is (\<open>secure_wipe\<close>).
\<close>

record prims =
  aead_seal :: "bytes \<Rightarrow> bytes \<Rightarrow> bytes \<Rightarrow> bytes \<Rightarrow> bytes option"
  aead_open :: "bytes \<Rightarrow> bytes \<Rightarrow> bytes \<Rightarrow> bytes \<Rightarrow> bytes option"
  hkdf_prf_extract :: "bytes option \<Rightarrow> bytes \<Rightarrow> bytes"
  hkdf_prk_ok :: "bytes \<Rightarrow> bool"
  hkdf_prf_expand :: "bytes \<Rightarrow> bytes \<Rightarrow> nat \<Rightarrow> bytes option"
  sha256 :: "bytes \<Rightarrow> bytes"
  hmac_sha256 :: "bytes \<Rightarrow> bytes \<Rightarrow> bytes option"
  blake2b_mac :: "bytes \<Rightarrow> bytes \<Rightarrow> bytes option"
  x25519_dh :: "bytes \<Rightarrow> bytes \<Rightarrow> bytes"
  x25519_public :: "bytes \<Rightarrow> bytes"
  mlkem_keygen :: "bytes \<Rightarrow> bytes \<times> bytes"
  mlkem_keygen_chacha :: "bytes \<Rightarrow> bytes \<times> bytes"
  mlkem_ek_parse :: "bytes \<Rightarrow> bytes option"
  mlkem_encaps :: "bytes \<Rightarrow> bytes \<Rightarrow> bytes \<times> bytes"
  mlkem_decaps :: "bytes \<Rightarrow> bytes \<Rightarrow> bytes"
  sig_keygen :: "bytes \<Rightarrow> bytes \<times> bytes"
  sig_keypair_ok :: "bytes \<Rightarrow> bool"
  sig_sign :: "bytes \<Rightarrow> bytes \<Rightarrow> bytes"
  sig_pk_ok :: "bytes \<Rightarrow> bool"
  sig_verify :: "bytes \<Rightarrow> bytes \<Rightarrow> bytes \<Rightarrow> bool"
  slot_error :: "nat \<Rightarrow> crypto_error option"

text \<open>Whether a buffer of a size can be had from the pool of \<open>Secure_Memory\<close> is the state of the
  process-wide pool, so it is a parameter here: \<open>slot_error\<close> is \<open>None\<close> for a size that has a free
  slot and otherwise the error the pool reports.\<close>

abbreviation slot_free :: "prims \<Rightarrow> nat \<Rightarrow> bool" where
  "slot_free P sz \<equiv> slot_error P sz = None"

section \<open>What the program relies on\<close>

text \<open>RFC 8452: opening inverts sealing, the tag adds 16 bytes, and a message and associated
  data of up to \<open>2 ^ 36\<close> bytes each can be sealed.\<close>

definition aead_ok :: "prims \<Rightarrow> bool" where
  "aead_ok P \<longleftrightarrow> (\<forall>k n m a. length k = AES_KEY_BYTES \<and> length n = AES_GCM_NONCE_BYTES \<and>
      length m \<le> 2 ^ 36 \<and> length a \<le> 2 ^ 36 \<longrightarrow> (\<exists>c. aead_seal P k n m a = Some c \<and> length c = length m + AES_GCM_TAG_BYTES \<and>
            aead_open P k n c a = Some m))"

text \<open>RFC 5869: extraction yields a 32-byte key, which expansion accepts, and expansion
  yields as many bytes as asked for, up to the limit.\<close>

definition hkdf_ok :: "prims \<Rightarrow> bool" where
  "hkdf_ok P \<longleftrightarrow>
     (\<forall>s i. length (hkdf_prf_extract P s i) = SHA256_HASH_BYTES) \<and>
     (\<forall>p. SHA256_HASH_BYTES \<le> length p \<longrightarrow> hkdf_prk_ok P p) \<and>
     (\<forall>p i n. SHA256_HASH_BYTES \<le> length p \<and> n \<le> HKDF_MAX_OUTPUT_BYTES \<longrightarrow>
        (\<exists>okm. hkdf_prf_expand P p i n = Some okm \<and> length okm = n))"

lemma hkdf_ok_expand:
  "hkdf_ok P \<Longrightarrow> 32 \<le> length p \<Longrightarrow> n \<le> 8160 \<Longrightarrow>
    \<exists>okm. hkdf_prf_expand P p i n = Some okm \<and> length okm = n"
  by (simp add: hkdf_ok_def)

definition hash_ok :: "prims \<Rightarrow> bool" where
  "hash_ok P \<longleftrightarrow>
     (\<forall>m. length (sha256 P m) = SHA256_HASH_BYTES) \<and>
     (\<forall>k m. \<exists>t. hmac_sha256 P k m = Some t \<and> length t = HMAC_BYTES) \<and>
     (\<forall>k m. length k \<le> 64 \<longrightarrow> (\<exists>t. blake2b_mac P k m = Some t \<and> length t = 32))"

text \<open>RFC 7748: keys and shared secrets have 32 bytes, X25519 commutes on public keys, and the
  shared secret of two of them is not zero.\<close>

definition dh_ok :: "prims \<Rightarrow> bool" where
  "dh_ok P \<longleftrightarrow> (\<forall>a b. length a = X25519_PRIVATE_KEY_BYTES \<and> length b = X25519_PRIVATE_KEY_BYTES \<longrightarrow>
     length (x25519_public P a) = X25519_PUBLIC_KEY_BYTES \<and>
     length (x25519_dh P a (x25519_public P b)) = 32 \<and> \<not> is_all_zero (x25519_dh P a (x25519_public P b)) \<and>
     x25519_dh P a (x25519_public P b) = x25519_dh P b (x25519_public P a))"

text \<open>ML-KEM-768: decapsulation inverts encapsulation, with the sizes of FIPS 203.\<close>

definition kem_ok :: "prims \<Rightarrow> bool" where
  "kem_ok P \<longleftrightarrow> (\<forall>seed r. case mlkem_keygen P seed of (dk, ek) \<Rightarrow>
      length dk = KYBER_SECRET_KEY_BYTES \<and> length ek = KYBER_PUBLIC_KEY_BYTES \<and>
      mlkem_ek_parse P ek = Some ek \<and>
      (case mlkem_encaps P ek r of (ct, ss) \<Rightarrow>
         length ct = KYBER_CIPHERTEXT_BYTES \<and> length ss = KYBER_SHARED_SECRET_BYTES \<and>
         mlkem_decaps P dk ct = ss))"

text \<open>Both ways of generating ML-KEM keys keep that, so the seeded one does.\<close>

definition kem_seed_ok :: "prims \<Rightarrow> bool" where
  "kem_seed_ok P \<longleftrightarrow> (\<forall>seed r. case mlkem_keygen_chacha P seed of (dk, ek) \<Rightarrow>
      length dk = KYBER_SECRET_KEY_BYTES \<and> length ek = KYBER_PUBLIC_KEY_BYTES \<and>
      mlkem_ek_parse P ek = Some ek \<and>
      (case mlkem_encaps P ek r of (ct, ss) \<Rightarrow>
         length ct = KYBER_CIPHERTEXT_BYTES \<and> length ss = KYBER_SHARED_SECRET_BYTES \<and>
         mlkem_decaps P dk ct = ss))"

text \<open>Ed25519 (RFC 8032): a generated secret key is the seed and the public key, and a signature
  made with it is verified under the public key.\<close>

definition sig_ok :: "prims \<Rightarrow> bool" where
  "sig_ok P \<longleftrightarrow> (\<forall>seed m. case sig_keygen P seed of (sk, pk) \<Rightarrow>
      length sk = ED25519_SECRET_KEY_BYTES \<and> length pk = ED25519_PUBLIC_KEY_BYTES \<and>
      sig_keypair_ok P sk \<and> sig_pk_ok P pk \<and> length (sig_sign P sk m) = ED25519_SIGNATURE_BYTES \<and>
      sig_verify P pk (sig_sign P sk m) m)"

section \<open>Secure memory handles\<close>

text \<open>A handle is its contents; its capacity is their length. Fresh memory is zero.\<close>

type_synonym handle = bytes

definition allocate :: "prims \<Rightarrow> nat \<Rightarrow> crypto_error + handle" where
  "allocate P sz =
     (if sz = 0 \<or> sz > MAX_BUFFER_SIZE then Err (AllocationFailed sz)
      else case slot_error P sz of Some e \<Rightarrow> Err e | None \<Rightarrow> Ok (zeros sz))"

definition handle_write :: "handle \<Rightarrow> bytes \<Rightarrow> crypto_error + handle" where
  "handle_write h data =
     (if length data > length h then Err (CryptoBufferTooSmall (length h) (length data))
      else Ok (data @ zeros (length h - length data)))"

definition read_bytes :: "handle \<Rightarrow> nat \<Rightarrow> crypto_error + bytes" where
  "read_bytes h len =
     (if len > length h then Err (CryptoBufferTooSmall (length h) len)
      else Ok (take len h))"

definition handle_try_clone :: "prims \<Rightarrow> handle \<Rightarrow> crypto_error + handle" where
  "handle_try_clone P h = res_bind (allocate P (length h)) (\<lambda>_. Ok h)"

definition new_handle :: "prims \<Rightarrow> nat \<Rightarrow> bytes \<Rightarrow> crypto_error + handle" where
  "new_handle P sz data = res_bind (allocate P sz) (\<lambda>h. handle_write h data)"

lemma new_handle_exact:
  "length data = n \<Longrightarrow> 0 < n \<Longrightarrow> n \<le> MAX_BUFFER_SIZE \<Longrightarrow> slot_free P n \<Longrightarrow>
    new_handle P n data = Ok data"
  by (auto simp: new_handle_def allocate_def handle_write_def zeros_def)

lemma new_handle_length: "new_handle P sz data = Ok h \<Longrightarrow> length h = sz"
  by (auto simp: new_handle_def allocate_def handle_write_def result_simps split: if_splits option.splits)

lemma read_bytes_all [simp]: "length h = n \<Longrightarrow> read_bytes h n = Ok h"
  by (simp add: read_bytes_def)

section \<open>Interop helpers\<close>

definition secure_wipe :: "bytes \<Rightarrow> bytes" where
  "secure_wipe b = zeros (length b)"

definition constant_time_equals :: "bytes \<Rightarrow> bytes \<Rightarrow> crypto_error + bool" where
  "constant_time_equals a b = (if length a \<noteq> length b then Ok False else Ok (a = b))"

lemma constant_time_equals_eq [simp]: "constant_time_equals a b = Ok (a = b)"
  by (auto simp: constant_time_equals_def)

definition generate_x25519_keypair :: "prims \<Rightarrow> bytes \<Rightarrow> protocol_error + (handle \<times> bytes)" where
  "generate_x25519_keypair P secret =
     (let pk = x25519_public P secret
      in res_bind (map_err CryptoErr (new_handle P X25519_PRIVATE_KEY_BYTES secret))
           (\<lambda>sk_handle. Ok (sk_handle, pk)))"

definition generate_ed25519_keypair :: "prims \<Rightarrow> bytes \<Rightarrow> protocol_error + (handle \<times> bytes)" where
  "generate_ed25519_keypair P seed =
     (case sig_keygen P seed of (sk_bytes, pk) \<Rightarrow>
        res_bind (map_err CryptoErr (new_handle P ED25519_SECRET_KEY_BYTES sk_bytes))
          (\<lambda>sk_handle. Ok (sk_handle, pk)))"

text \<open>The draws of the generator are an infinite sequence; the loop takes the first that is
  allowed, and is bounded by the number of draws given.\<close>

fun generate_random_u32 :: "bool \<Rightarrow> nat list \<Rightarrow> nat option" where
  "generate_random_u32 ensure_non_zero [] = None"
| "generate_random_u32 ensure_non_zero (val # vals) =
     (if \<not> ensure_non_zero \<or> val \<noteq> 0 then Some val else generate_random_u32 ensure_non_zero vals)"

section \<open>AES-256-GCM-SIV\<close>

definition validate_key_nonce :: "bytes \<Rightarrow> bytes \<Rightarrow> unit pres" where
  "validate_key_nonce key nonce =
     (if length key \<noteq> AES_KEY_BYTES then
        Err (InvalidInput ''AES-256-GCM-SIV key must be {} bytes, got {}'')
      else if length nonce \<noteq> AES_GCM_NONCE_BYTES then
        Err (InvalidInput ''AES-256-GCM-SIV nonce must be {} bytes, got {}'')
      else Ok ())"

definition aes_gcm_encrypt :: "prims \<Rightarrow> bytes \<Rightarrow> bytes \<Rightarrow> bytes \<Rightarrow> bytes \<Rightarrow> bytes pres" where
  "aes_gcm_encrypt P key nonce plaintext associated_data =
     res_bind (validate_key_nonce key nonce) (\<lambda>_.
       ok_or (Generic ''AES-256-GCM-SIV encryption failed'')
         (aead_seal P key nonce plaintext associated_data))"

definition aes_gcm_decrypt :: "prims \<Rightarrow> bytes \<Rightarrow> bytes \<Rightarrow> bytes \<Rightarrow> bytes \<Rightarrow> bytes pres" where
  "aes_gcm_decrypt P key nonce ciphertext_with_tag associated_data =
     res_bind (validate_key_nonce key nonce) (\<lambda>_.
       if length ciphertext_with_tag < AES_GCM_TAG_BYTES then
         Err (InvalidInput ''Ciphertext too small: {} bytes (minimum {} for tag)'')
       else
         ok_or (Generic ''Authentication tag verification failed - data may have been tampered with'')
           (aead_open P key nonce ciphertext_with_tag associated_data))"

lemma aes_gcm_seal:
  assumes "aead_ok P" "length k = 32" "length n = 12" "length m \<le> 2 ^ 36" "length a \<le> 2 ^ 36"
  obtains c where "aes_gcm_encrypt P k n m a = Ok c" "length c = length m + 16"
    "aes_gcm_decrypt P k n c a = Ok m"
proof -
  from assms obtain c where "aead_seal P k n m a = Some c" "length c = length m + 16"
    "aead_open P k n c a = Some m"
    unfolding aead_ok_def AES_KEY_BYTES_def AES_GCM_NONCE_BYTES_def AES_GCM_TAG_BYTES_def by blast
  with assms that show ?thesis
    by (simp add: aes_gcm_encrypt_def aes_gcm_decrypt_def validate_key_nonce_def)
qed

lemma aes_gcm_seal_ex:
  assumes "aead_ok P" "length k = 32" "length n = 12" "length m \<le> 2 ^ 36" "length a \<le> 2 ^ 36"
  shows "\<exists>c. aes_gcm_encrypt P k n m a = Ok c \<and> length c = length m + 16 \<and> aes_gcm_decrypt P k n c a = Ok m"
  by (rule aes_gcm_seal [OF assms]) blast

lemma aes_gcm_roundtrip:
  assumes "aead_ok P" "aes_gcm_encrypt P k n m a = Ok c"
    and "length m \<le> 2 ^ 36" "length a \<le> 2 ^ 36"
  shows "aes_gcm_decrypt P k n c a = Ok m"
proof -
  from assms(2) have "length k = 32" "length n = 12"
    by (auto simp: aes_gcm_encrypt_def validate_key_nonce_def result_simps split: if_splits)
  with assms show ?thesis by (metis aes_gcm_seal Inr_inject)
qed

section \<open>HKDF-SHA256\<close>

definition salt_opt :: "bytes \<Rightarrow> bytes option" where
  "salt_opt salt = (if salt = [] then None else Some salt)"

definition hkdf_extract :: "prims \<Rightarrow> bytes \<Rightarrow> bytes \<Rightarrow> bytes" where
  "hkdf_extract P salt ikm = hkdf_prf_extract P (salt_opt salt) ikm"

definition hkdf_expand :: "prims \<Rightarrow> bytes \<Rightarrow> bytes \<Rightarrow> nat \<Rightarrow> bytes pres" where
  "hkdf_expand P prk info out_len =
     (if out_len = 0 \<or> out_len > HKDF_MAX_OUTPUT_BYTES then
        Err (DeriveKey ''Invalid HKDF output length: {out_len}'')
      else if \<not> hkdf_prk_ok P prk then
        Err (DeriveKey ''Invalid PRK for HKDF expand: {e}'')
      else ok_or (DeriveKey ''HKDF expand failed: {e}'') (hkdf_prf_expand P prk info out_len))"

definition derive_key_bytes :: "prims \<Rightarrow> bytes \<Rightarrow> nat \<Rightarrow> bytes \<Rightarrow> bytes \<Rightarrow> bytes pres" where
  "derive_key_bytes P ikm out_len salt info =
     (if out_len = 0 \<or> out_len > HKDF_MAX_OUTPUT_BYTES then
        Err (DeriveKey ''Invalid HKDF output length: {out_len}'')
      else
        let prk = hkdf_prf_extract P (salt_opt salt) ikm
        in if \<not> hkdf_prk_ok P prk then Err (DeriveKey ''Invalid PRK for HKDF: {e}'')
           else ok_or (DeriveKey ''HKDF expand failed: {e}'') (hkdf_prf_expand P prk info out_len))"

lemma derive_key_bytes_ok:
  assumes "hkdf_ok P" "0 < n" "n \<le> 8160"
  obtains okm where "derive_key_bytes P ikm n salt info = Ok okm" "length okm = n"
proof -
  let ?prk = "hkdf_prf_extract P (salt_opt salt) ikm"
  from assms have "32 \<le> length ?prk" "hkdf_prk_ok P ?prk" by (simp_all add: hkdf_ok_def)
  with assms(1,3) obtain okm where "hkdf_prf_expand P ?prk info n = Some okm" "length okm = n"
    using hkdf_ok_expand by blast
  with assms that \<open>hkdf_prk_ok P ?prk\<close> show ?thesis by (simp add: derive_key_bytes_def)
qed

lemma derive_key_bytes_32: "hkdf_ok P \<Longrightarrow> \<exists>okm. derive_key_bytes P ikm 32 salt info = Ok okm \<and> length okm = 32"
  by (rule derive_key_bytes_ok [of P 32 ikm salt info]) auto

lemma derive_key_bytes_length:
  assumes "hkdf_ok P" "derive_key_bytes P ikm n salt info = Ok okm"
  shows "length okm = n"
proof -
  from assms(2) have "0 < n" "n \<le> 8160" by (auto simp: derive_key_bytes_def split: if_splits)
  with assms show ?thesis by (metis derive_key_bytes_ok Inr_inject)
qed

lemma hkdf_expand_ok:
  assumes "hkdf_ok P" "32 \<le> length prk" "0 < n" "n \<le> 8160"
  obtains okm where "hkdf_expand P prk info n = Ok okm" "length okm = n"
proof -
  from assms have "hkdf_prk_ok P prk" by (simp add: hkdf_ok_def)
  moreover from assms obtain okm where "hkdf_prf_expand P prk info n = Some okm" "length okm = n"
    using hkdf_ok_expand by blast
  ultimately show ?thesis using assms that by (simp add: hkdf_expand_def)
qed

lemma hkdf_extract_length: "hkdf_ok P \<Longrightarrow> length (hkdf_extract P salt ikm) = 32"
  by (simp add: hkdf_ok_def hkdf_extract_def)

section \<open>BLAKE2b\<close>

definition blake2b_keyed_hash :: "prims \<Rightarrow> bytes \<Rightarrow> bytes \<Rightarrow> bytes pres" where
  "blake2b_keyed_hash P key data = ok_or (DeriveKey ''BLAKE2b-MAC init: {e}'') (blake2b_mac P key data)"

section \<open>X25519\<close>

definition clamp :: "bytes \<Rightarrow> bytes" where
  "clamp seed =
     (let s0 = seed[0 := seed ! 0 AND X25519_CLAMP_BYTE0];
          s1 = s0[31 := s0 ! 31 AND X25519_CLAMP_BYTE31_LOW]
      in s1[31 := s1 ! 31 OR X25519_CLAMP_BYTE31_HIGH])"

lemma length_clamp [simp]: "length (clamp s) = length s"
  by (simp add: clamp_def Let_def)

definition compute_dh :: "prims \<Rightarrow> bytes \<Rightarrow> bytes \<Rightarrow> bytes pres" where
  "compute_dh P private_key public_key =
     (if length private_key \<noteq> X25519_PRIVATE_KEY_BYTES \<or> length public_key \<noteq> X25519_PUBLIC_KEY_BYTES then
        Err (InvalidInput ''Invalid X25519 key sizes for DH'')
      else
        let shared_bytes = x25519_dh P private_key public_key
        in if is_all_zero shared_bytes then
             Err (Handshake ''X25519 DH produced all-zero output (RFC 7748 6.1)'')
           else Ok shared_bytes)"

section \<open>ML-KEM-768\<close>

definition kyber_generate_keypair :: "prims \<Rightarrow> bytes \<Rightarrow> bytes \<Rightarrow> crypto_error + (handle \<times> bytes)" where
  "kyber_generate_keypair P keygen_rand selftest_rand =
     (case mlkem_keygen P keygen_rand of (sk_bytes, pk_bytes) \<Rightarrow>
      case mlkem_encaps P pk_bytes selftest_rand of (ct, ss_enc) \<Rightarrow>
        if ss_enc \<noteq> mlkem_decaps P sk_bytes ct then
          Err (KyberFailed ''self-test'' ''encapsulate/decapsulate shared secrets do not match'')
        else
          res_bind (new_handle P (length sk_bytes) sk_bytes) (\<lambda>sk_handle. Ok (sk_handle, pk_bytes)))"

definition kyber_generate_keypair_from_seed :: "prims \<Rightarrow> bytes \<Rightarrow> crypto_error + (handle \<times> bytes)" where
  "kyber_generate_keypair_from_seed P seed =
     (if length seed < KYBER_SEED_KEY_BYTES then
        Err (KyberFailed ''generate_keypair_from_seed'' ''seed too short: expected at least {} bytes, got {}'')
      else
        case mlkem_keygen_chacha P (take KYBER_SEED_KEY_BYTES seed) of (sk_bytes, pk_bytes) \<Rightarrow>
          res_bind (new_handle P (length sk_bytes) sk_bytes) (\<lambda>sk_handle. Ok (sk_handle, pk_bytes)))"

definition kyber_encapsulate :: "prims \<Rightarrow> bytes \<Rightarrow> bytes \<Rightarrow> crypto_error + (bytes \<times> handle)" where
  "kyber_encapsulate P peer_public_key rand =
     (if length peer_public_key \<noteq> KYBER_PUBLIC_KEY_BYTES then
        Err (KyberFailed ''encapsulate'' ''invalid public key size: expected {} bytes, got {}'')
      else
        case mlkem_ek_parse P peer_public_key of
          None \<Rightarrow> Err (KyberFailed ''encapsulate'' ''failed to parse ML-KEM public key bytes'')
        | Some ek \<Rightarrow>
            (case mlkem_encaps P ek rand of (ct_bytes, ss) \<Rightarrow>
               res_bind (new_handle P KYBER_SHARED_SECRET_BYTES ss) (\<lambda>ss_handle. Ok (ct_bytes, ss_handle))))"

definition kyber_decapsulate :: "prims \<Rightarrow> bytes \<Rightarrow> handle \<Rightarrow> crypto_error + handle" where
  "kyber_decapsulate P ciphertext secret_key_handle =
     (if length ciphertext \<noteq> KYBER_CIPHERTEXT_BYTES then
        Err (KyberFailed ''decapsulate'' ''invalid ciphertext size: expected {} bytes, got {}'')
      else
        res_bind (read_bytes secret_key_handle KYBER_SECRET_KEY_BYTES) (\<lambda>sk_bytes.
          new_handle P KYBER_SHARED_SECRET_BYTES (mlkem_decaps P sk_bytes ciphertext)))"

definition kyber_validate_public_key :: "prims \<Rightarrow> bytes \<Rightarrow> crypto_error + unit" where
  "kyber_validate_public_key P key =
     (if length key \<noteq> KYBER_PUBLIC_KEY_BYTES then
        Err (KyberFailed ''validate_public_key'' ''invalid public key size: expected {} bytes, got {}'')
      else if list_all (\<lambda>b. b = 0) key then
        Err (KyberFailed ''validate_public_key'' ''degenerate all-zero public key'')
      else
        case mlkem_ek_parse P key of
          None \<Rightarrow> Err (KyberFailed ''validate_public_key'' ''failed to parse ML-KEM public key bytes'')
        | Some ek \<Rightarrow>
            if ek \<noteq> key then
              Err (KyberFailed ''validate_public_key'' ''public key fails re-encoding structural check'')
            else Ok ())"

definition kyber_validate_ciphertext :: "bytes \<Rightarrow> crypto_error + unit" where
  "kyber_validate_ciphertext ct =
     (if length ct \<noteq> KYBER_CIPHERTEXT_BYTES then
        Err (KyberFailed ''validate_ciphertext'' ''invalid ciphertext size: expected {} bytes, got {}'')
      else if list_all (\<lambda>b. b = 0) ct then
        Err (KyberFailed ''validate_ciphertext'' ''degenerate all-zero ciphertext'')
      else Ok ())"

definition combine_hybrid_secrets :: "prims \<Rightarrow> bytes \<Rightarrow> bytes \<Rightarrow> nat \<Rightarrow> bytes \<Rightarrow> bytes pres" where
  "combine_hybrid_secrets P classical_secret kyber_secret out_len info =
     derive_key_bytes P kyber_secret out_len (HYBRID_SALT_PREFIX @ classical_secret) info"

lemma kyber_roundtrip:
  assumes "kem_ok P" "mlkem_keygen P seed = (dk, ek)"
    and "kyber_encapsulate P ek r = Ok (ct, ss)" "slot_free P 32"
  shows "kyber_decapsulate P ct dk = Ok ss \<and> length ss = 32 \<and> length ct = 1088"
proof -
  from assms(1,2) have len: "length dk = 64" "length ek = 1184" "mlkem_ek_parse P ek = Some ek"
    by (auto simp: kem_ok_def split: prod.splits)
  obtain ct' ss' where enc: "mlkem_encaps P ek r = (ct', ss')" by fastforce
  have e: "length ct' = 1088" "length ss' = 32" "mlkem_decaps P dk ct' = ss'"
    using assms(1,2) enc unfolding kem_ok_def by (auto split: prod.splits)
  have "new_handle P 32 ss' = Ok ss'"
    using e assms(4) by (intro new_handle_exact) simp_all
  with assms(3) len enc have "ct = ct'" "ss = ss'"
    by (auto simp: kyber_encapsulate_def)
  with e len \<open>new_handle P 32 ss' = Ok ss'\<close> show ?thesis
    by (simp add: kyber_decapsulate_def)
qed

lemma kem_ok_keygen:
  assumes "kem_ok P" "mlkem_keygen P seed = (dk, ek)"
  shows "length dk = 64" "length ek = 1184" "mlkem_ek_parse P ek = Some ek"
  using assms by (auto simp: kem_ok_def split: prod.splits)

lemma kyber_generate_keypair_ok:
  assumes "kem_ok P" "slot_free P 64" "mlkem_keygen P seed = (dk, ek)"
  shows "kyber_generate_keypair P seed r = Ok (dk, ek)"
proof -
  obtain ct ss where e: "mlkem_encaps P ek r = (ct, ss)" by fastforce
  have "case mlkem_keygen P seed of (dk, ek) \<Rightarrow> (case mlkem_encaps P ek r of (ct, ss) \<Rightarrow> mlkem_decaps P dk ct = ss)"
    using assms(1) unfolding kem_ok_def by (auto split: prod.splits)
  then have "mlkem_decaps P dk ct = ss" using assms(3) e by simp
  moreover have "new_handle P 64 dk = Ok dk"
    using kem_ok_keygen [OF assms(1,3)] assms(2) by (intro new_handle_exact) simp_all
  ultimately show ?thesis
    using assms(3) e kem_ok_keygen(1) [OF assms(1,3)] by (simp add: kyber_generate_keypair_def)
qed

lemma generate_x25519_keypair_ok:
  "length s = 32 \<Longrightarrow> slot_free P 32 \<Longrightarrow> generate_x25519_keypair P s = Ok (s, x25519_public P s)"
  using new_handle_exact [of s 32 P] by (simp add: generate_x25519_keypair_def)

text \<open>What the encapsulation of a generated key gives, and that the other side gets the same secret.\<close>

lemma kyber_encapsulate_ok:
  assumes "kem_ok P" "slot_free P 32" "mlkem_keygen P seed = (dk, ek)" "mlkem_encaps P ek r = (ct, ss)"
  shows "kyber_encapsulate P ek r = Ok (ct, ss)" "kyber_decapsulate P ct dk = Ok ss" "length ss = 32" "length ct = 1088"
proof -
  have l: "length ct = 1088 \<and> length ss = 32"
    using assms(1) [unfolded kem_ok_def, rule_format, of r seed] assms(3,4) by simp
  with assms(2) have "new_handle P 32 ss = Ok ss" by (intro new_handle_exact) simp_all
  then show e: "kyber_encapsulate P ek r = Ok (ct, ss)"
    using kem_ok_keygen [OF assms(1,3)] assms(4) by (simp add: kyber_encapsulate_def)
  show "kyber_decapsulate P ct dk = Ok ss" "length ss = 32" "length ct = 1088"
    using kyber_roundtrip [OF assms(1,3) e assms(2)] l by simp_all
qed

lemma compute_dh_ok:
  assumes "dh_ok P" "length a = 32" "length b = 32"
  shows "compute_dh P a (x25519_public P b) = Ok (x25519_dh P a (x25519_public P b))"
    "compute_dh P b (x25519_public P a) = Ok (x25519_dh P a (x25519_public P b))"
  using assms(1) [unfolded dh_ok_def, rule_format, of a b] assms(1) [unfolded dh_ok_def, rule_format, of b a] assms(2,3)
  by (simp_all add: compute_dh_def Let_def)

end
