(* ===== verification/Sample_Prims.thy ===== *)
theory Sample_Prims
  imports Crypto
begin

text \<open>
  One concrete choice of the cryptographic parameters that meets every assumption on them. It has
  no strength; it shows that the assumptions can hold together, and the examples of the
  development compute with it.
\<close>

definition fill :: "nat \<Rightarrow> bytes \<Rightarrow> bytes" where
  "fill n bs = take n (bs @ zeros n)"

lemma length_fill [simp]: "length (fill n bs) = n"
  by (simp add: fill_def)

definition sample_prims :: prims where
  "sample_prims = \<lparr>
     aead_seal = (\<lambda>k n m a. Some (m @ zeros 16)),
     aead_open = (\<lambda>k n c a. if length c < 16 \<or> drop (length c - 16) c \<noteq> zeros 16 then None
                            else Some (take (length c - 16) c)),
     hkdf_prf_extract = (\<lambda>s i. fill 32 i),
     hkdf_prk_ok = (\<lambda>p. 32 \<le> length p),
     hkdf_prf_expand = (\<lambda>p i n. Some (fill n p)),
     sha256 = (\<lambda>m. fill 32 m),
     hmac_sha256 = (\<lambda>k m. Some (fill 32 m)),
     blake2b_mac = (\<lambda>k m. Some (fill 32 m)),
     x25519_dh = (\<lambda>a b. map2 (XOR) (fill 31 a) (fill 31 b) @ [1]),
     x25519_public = (\<lambda>a. fill 31 a @ [7]),
     mlkem_keygen = (\<lambda>seed. (fill 64 seed, fill 1184 [1])),
     mlkem_keygen_chacha = (\<lambda>seed. (fill 64 seed, fill 1184 [1])),
     mlkem_ek_parse = (\<lambda>b. Some b),
     mlkem_encaps = (\<lambda>ek r. (fill 1088 (fill 32 r), fill 32 r)),
     mlkem_decaps = (\<lambda>dk ct. fill 32 ct),
     sig_keygen = (\<lambda>seed. (fill 32 seed @ fill 32 seed, fill 32 seed)),
     sig_keypair_ok = (\<lambda>sk. length sk = 64),
     sig_sign = (\<lambda>sk m. drop 32 sk @ fill 32 m),
     sig_pk_ok = (\<lambda>pk. length pk = 32),
     sig_verify = (\<lambda>pk s m. s = pk @ fill 32 m),
     slot_error = (\<lambda>_. None) \<rparr>"

lemma fill_fill: "n \<le> m \<Longrightarrow> fill n (fill m bs) = fill n bs"
  by (simp add: fill_def zeros_def min_def)

lemma sample_aead_ok: "aead_ok sample_prims"
  by (simp add: aead_ok_def sample_prims_def)

lemma sample_hkdf_ok: "hkdf_ok sample_prims"
  by (simp add: hkdf_ok_def sample_prims_def)

lemma sample_hash_ok: "hash_ok sample_prims"
  by (simp add: hash_ok_def sample_prims_def)

lemma sample_dh_ok: "dh_ok sample_prims"
proof -
  have "map2 (XOR) a b = map2 (XOR) b a" for a b :: bytes
    by (induction a b rule: list_induct2') (simp_all add: xor.commute)
  moreover have "fill 31 (fill 31 a @ [7]) = fill 31 a" for a
    by (simp add: fill_def [of 31 "fill 31 a @ [7]"])
  moreover have "\<not> is_all_zero (bs @ [1])" for bs
    unfolding is_all_zero_def fold_or_zero by simp
  ultimately show ?thesis by (simp add: dh_ok_def sample_prims_def)
qed

lemma sample_kem_ok: "kem_ok sample_prims"
proof -
  have "fill 32 (fill 1088 (fill 32 r)) = fill 32 r" for r
    by (simp add: fill_def zeros_def)
  then show ?thesis by (simp add: kem_ok_def sample_prims_def)
qed

lemma sample_kem_seed_ok: "kem_seed_ok sample_prims"
proof -
  have "fill 32 (fill 1088 (fill 32 r)) = fill 32 r" for r
    by (simp add: fill_def zeros_def)
  then show ?thesis by (simp add: kem_seed_ok_def sample_prims_def)
qed

lemma sample_sig_ok: "sig_ok sample_prims"
  by (simp add: sig_ok_def sample_prims_def)

lemma sample_slots [simp]: "slot_error sample_prims n = None"
  by (simp add: sample_prims_def)

lemmas sample_ok = sample_aead_ok sample_hkdf_ok sample_hash_ok sample_dh_ok sample_kem_ok sample_kem_seed_ok sample_sig_ok

end
