(* ===== verification/Dh_Validator.thy ===== *)
theory Dh_Validator
  imports Sample_Prims
begin

text \<open>
  Validation of X25519 public keys (\<^verbatim>\<open>security/validation/dh_validator.rs\<close>): the table of
  small-order points, the comparison with the field prime by a borrow chain over 32-bit limbs,
  and the check that combines them. The borrow chain is shown to decide \<open>key < 2 ^ 255 - 19\<close>,
  and the table is checked against the doubling formula of the curve.
\<close>

definition SMALL_ORDER_POINTS :: "bytes list" where
  "SMALL_ORDER_POINTS =
     [[0x00, 0x00, 0x00, 0x00, 0x00, 0x00, 0x00, 0x00, 0x00, 0x00, 0x00, 0x00, 0x00, 0x00, 0x00, 0x00,
       0x00, 0x00, 0x00, 0x00, 0x00, 0x00, 0x00, 0x00, 0x00, 0x00, 0x00, 0x00, 0x00, 0x00, 0x00, 0x00],
      [0x01, 0x00, 0x00, 0x00, 0x00, 0x00, 0x00, 0x00, 0x00, 0x00, 0x00, 0x00, 0x00, 0x00, 0x00, 0x00,
       0x00, 0x00, 0x00, 0x00, 0x00, 0x00, 0x00, 0x00, 0x00, 0x00, 0x00, 0x00, 0x00, 0x00, 0x00, 0x00],
      [0x5F, 0x9C, 0x95, 0xBC, 0xA3, 0x50, 0x8C, 0x24, 0xB1, 0xD0, 0xB1, 0x55, 0x9C, 0x83, 0xEF, 0x5B,
       0x04, 0x44, 0x5C, 0xC4, 0x58, 0x1C, 0x8E, 0x86, 0xD8, 0x22, 0x4E, 0xDD, 0xD0, 0x9F, 0x11, 0x57],
      [0xE0, 0xEB, 0x7A, 0x7C, 0x3B, 0x41, 0xB8, 0xAE, 0x16, 0x56, 0xE3, 0xFA, 0xF1, 0x9F, 0xC4, 0x6A,
       0xDA, 0x09, 0x8D, 0xEB, 0x9C, 0x32, 0xB1, 0xFD, 0x86, 0x62, 0x05, 0x16, 0x5F, 0x49, 0xB8, 0x00],
      [0xEC, 0xFF, 0xFF, 0xFF, 0xFF, 0xFF, 0xFF, 0xFF, 0xFF, 0xFF, 0xFF, 0xFF, 0xFF, 0xFF, 0xFF, 0xFF,
       0xFF, 0xFF, 0xFF, 0xFF, 0xFF, 0xFF, 0xFF, 0xFF, 0xFF, 0xFF, 0xFF, 0xFF, 0xFF, 0xFF, 0xFF, 0x7F],
      [0xED, 0xFF, 0xFF, 0xFF, 0xFF, 0xFF, 0xFF, 0xFF, 0xFF, 0xFF, 0xFF, 0xFF, 0xFF, 0xFF, 0xFF, 0xFF,
       0xFF, 0xFF, 0xFF, 0xFF, 0xFF, 0xFF, 0xFF, 0xFF, 0xFF, 0xFF, 0xFF, 0xFF, 0xFF, 0xFF, 0xFF, 0x7F],
      [0xEE, 0xFF, 0xFF, 0xFF, 0xFF, 0xFF, 0xFF, 0xFF, 0xFF, 0xFF, 0xFF, 0xFF, 0xFF, 0xFF, 0xFF, 0xFF,
       0xFF, 0xFF, 0xFF, 0xFF, 0xFF, 0xFF, 0xFF, 0xFF, 0xFF, 0xFF, 0xFF, 0xFF, 0xFF, 0xFF, 0xFF, 0x7F],
      [0xCD, 0xEB, 0x7A, 0x7C, 0x3B, 0x41, 0xB8, 0xAE, 0x16, 0x56, 0xE3, 0xFA, 0xF1, 0x9F, 0xC4, 0x6A,
       0xDA, 0x09, 0x8D, 0xEB, 0x9C, 0x32, 0xB1, 0xFD, 0x86, 0x62, 0x05, 0x16, 0x5F, 0x49, 0xB8, 0x00]]"

definition CURVE_25519_PRIME :: bytes where
  "CURVE_25519_PRIME =
      [0xED, 0xFF, 0xFF, 0xFF, 0xFF, 0xFF, 0xFF, 0xFF, 0xFF, 0xFF, 0xFF, 0xFF, 0xFF, 0xFF, 0xFF, 0xFF,
       0xFF, 0xFF, 0xFF, 0xFF, 0xFF, 0xFF, 0xFF, 0xFF, 0xFF, 0xFF, 0xFF, 0xFF, 0xFF, 0xFF, 0xFF, 0x7F]"

definition has_small_order :: "bytes \<Rightarrow> bool" where
  "has_small_order public_key =
     (let normalized = public_key[31 := (public_key ! 31) AND X25519_CLAMP_BYTE31_LOW]
      in fold (\<lambda>point found. found \<or> normalized = point) SMALL_ORDER_POINTS False)"

definition limb_value :: "bytes \<Rightarrow> nat \<Rightarrow> nat" where
  "limb_value bs byte_offset =
     le_value [bs ! byte_offset, bs ! (byte_offset + 1), bs ! (byte_offset + 2), bs ! (byte_offset + 3)]"

definition limb :: "bytes \<Rightarrow> nat \<Rightarrow> 64 word" where
  "limb bs byte_offset = word_of_nat (limb_value bs byte_offset)"

definition borrow_step :: "bytes \<Rightarrow> nat \<Rightarrow> 64 word \<Rightarrow> 64 word" where
  "borrow_step public_key i borrow =
     (let byte_offset = i * 4;
          diff = limb public_key byte_offset - limb CURVE_25519_PRIME byte_offset - borrow
      in drop_bit 63 diff AND 1)"

definition is_valid_curve25519_point :: "bytes \<Rightarrow> bool" where
  "is_valid_curve25519_point public_key =
     (if length public_key \<noteq> X25519_PUBLIC_KEY_BYTES then False
      else fold (borrow_step public_key) [0..<8] 0 = 1)"

definition validate_x25519_public_key :: "bytes \<Rightarrow> unit pres" where
  "validate_x25519_public_key public_key =
     (if length public_key \<noteq> X25519_PUBLIC_KEY_BYTES then
        Err (InvalidInput ''Invalid X25519 public key size: expected {}, got {}'')
      else if has_small_order public_key then
        Err (InvalidInput ''X25519 public key is a small-order point (invalid for DH)'')
      else if \<not> is_valid_curve25519_point public_key then
        Err (InvalidInput ''X25519 public key is not a valid Curve25519 field element'')
      else Ok ())"

section \<open>The borrow chain decides the comparison\<close>

definition field_prime :: nat where
  "field_prime = 2 ^ 255 - 19"

lemma prime_value: "le_value CURVE_25519_PRIME = field_prime" "length CURVE_25519_PRIME = 32"
  by (simp_all add: CURVE_25519_PRIME_def field_prime_def)

lemma le_value_append: "le_value (xs @ ys) = le_value xs + 256 ^ length xs * le_value ys"
  by (induction xs) (auto simp: algebra_simps)

lemma take_limb:
  assumes "4 * i + 4 \<le> length bs"
  shows "take (4 * i + 4) bs = take (4 * i) bs @ [bs ! (4 * i), bs ! (4 * i + 1), bs ! (4 * i + 2), bs ! (4 * i + 3)]"
proof -
  have "take (4 * i + 4) bs = take (Suc (Suc (Suc (Suc (4 * i))))) bs" by (simp add: numeral_eq_Suc)
  then show ?thesis using assms by (simp add: take_Suc_conv_app_nth numeral_eq_Suc)
qed

lemma drop_bit_63_and_1: "drop_bit 63 (w :: 64 word) AND 1 = of_bool (bit w 63)"
  by (rule bit_word_eqI) (auto simp: bit_and_iff bit_drop_bit_eq bit_1_iff bit_of_bool_iff dest: bit_imp_le_length)

lemma limb_compare:
  assumes "x < 2 ^ 32" "y < 2 ^ 32"
  shows "drop_bit 63 (word_of_nat x - word_of_nat y - of_bool c :: 64 word) AND 1 = of_bool (x < y + of_bool c)"
proof -
  have "word_of_nat x - word_of_nat y - of_bool c = (word_of_nat x - word_of_nat (y + of_bool c) :: 64 word)"
    by (cases c) simp_all
  moreover have "bit (word_of_nat x - word_of_nat (y + of_bool c) :: 64 word) 63 \<longleftrightarrow> x < y + of_bool c"
    using assms by (intro bit63_diff) (cases c, simp_all)
  ultimately show ?thesis by (simp only: drop_bit_63_and_1)
qed

lemma digit_compare:
  assumes "a < B" "b < (B :: nat)"
  shows "x < y + of_bool (a < b) \<longleftrightarrow> a + B * x < b + B * y"
proof -
  consider "x < y" | "x = y" | "y < x" by linarith
  then show ?thesis
  proof cases
    case 1
    then have "B * Suc x \<le> B * y" by (intro mult_le_mono2) simp
    with assms(1) have "a + B * x < b + B * y" by simp
    with 1 show ?thesis by simp
  next
    case 3
    then have "B * Suc y \<le> B * x" by (intro mult_le_mono2) simp
    with assms(2) have "\<not> a + B * x < b + B * y" by simp
    with 3 show ?thesis by simp
  qed simp
qed

lemma limb_value_bound: "limb_value bs i < 2 ^ 32"
  using le_value_bound [of "[bs ! i, bs ! (i + 1), bs ! (i + 2), bs ! (i + 3)]"] by (simp add: limb_value_def)

lemma le_value_take_limb:
  "4 * i + 4 \<le> length bs \<Longrightarrow>
    le_value (take (4 * Suc i) bs) = le_value (take (4 * i) bs) + 256 ^ (4 * i) * limb_value bs (i * 4)"
proof -
  assume len: "4 * i + 4 \<le> length bs"
  have "4 * Suc i = 4 * i + 4" by simp
  then have "le_value (take (4 * Suc i) bs) = le_value (take (4 * i) bs @
      [bs ! (4 * i), bs ! (4 * i + 1), bs ! (4 * i + 2), bs ! (4 * i + 3)])"
    using take_limb [OF len] by (simp only:)
  then show ?thesis using len by (simp only: le_value_append limb_value_def mult.commute) simp
qed

lemma borrow_chain:
  assumes "length key = 32" "n \<le> 8"
  shows "fold (borrow_step key) [0..<n] 0 =
    of_bool (le_value (take (4 * n) key) < le_value (take (4 * n) CURVE_25519_PRIME))"
  using assms(2)
proof (induction n)
  case (Suc n)
  let ?k = "limb_value key (n * 4)" and ?p = "limb_value CURVE_25519_PRIME (n * 4)"
  let ?a = "le_value (take (4 * n) key)" and ?b = "le_value (take (4 * n) CURVE_25519_PRIME)"
  have sm: "?a < 256 ^ (4 * n)" "?b < 256 ^ (4 * n)"
    using le_value_bound [of "take (4 * n) key"] le_value_bound [of "take (4 * n) CURVE_25519_PRIME"]
      assms Suc.prems prime_value(2) by simp_all
  have "fold (borrow_step key) [0..<Suc n] 0 = borrow_step key n (of_bool (?a < ?b))"
    using Suc by simp
  also have "\<dots> = of_bool (?k < ?p + of_bool (?a < ?b))"
    unfolding borrow_step_def limb_def Let_def by (intro limb_compare limb_value_bound)
  also have "?k < ?p + of_bool (?a < ?b) \<longleftrightarrow> ?a + 256 ^ (4 * n) * ?k < ?b + 256 ^ (4 * n) * ?p"
    using sm by (rule digit_compare)
  finally show ?case using le_value_take_limb [of n] assms Suc.prems prime_value(2) by simp
qed simp


lemma is_valid_curve25519_point_iff:
  "is_valid_curve25519_point key \<longleftrightarrow> length key = 32 \<and> le_value key < field_prime"
  using borrow_chain [of key 8] prime_value by (auto simp: is_valid_curve25519_point_def)

section \<open>The small-order table\<close>

lemma fold_or_mem: "fold (\<lambda>x found. found \<or> n = x) xs f \<longleftrightarrow> f \<or> n \<in> set xs"
  by (induction xs arbitrary: f) auto

lemma has_small_order_mem:
  "has_small_order key \<longleftrightarrow> key[31 := (key ! 31) AND 0x7F] \<in> set SMALL_ORDER_POINTS"
  by (simp add: has_small_order_def fold_or_mem X25519_CLAMP_BYTE31_LOW_def)

lemma top_byte_clear:
  assumes "length key = 32" "le_value key < 2 ^ 255"
  shows "key[31 := (key ! 31) AND 0x7F] = key"
proof -
  have "key = take 31 key @ [key ! 31]" using assms(1) take_Suc_conv_app_nth [of 31 key] by simp
  then have "le_value key = le_value (take 31 key @ [key ! 31])" by simp
  also have "\<dots> \<ge> 256 ^ 31 * unat (key ! 31)" using assms(1) by (simp add: le_value_append)
  finally have "unat (key ! 31) < 2 ^ 7" using assms(2) by simp
  then have "unat (take_bit 7 (key ! 31)) = unat (key ! 31)"
    by (simp add: unsigned_take_bit_eq take_bit_nat_eq_self)
  then have "take_bit 7 (key ! 31) = key ! 31" by (rule unsigned_word_eqI)
  then have "(key ! 31) AND 0x7F = key ! 31" by (simp add: take_bit_eq_mask mask_eq_exp_minus_1)
  then show ?thesis by simp
qed

lemma le_value_inject: "length a = length b \<Longrightarrow> le_value a = le_value b \<Longrightarrow> a = b"
  by (metis le_bytes_le_value)

lemma small_order_lengths: "\<forall>q \<in> set SMALL_ORDER_POINTS. length q = 32"
  by (simp add: SMALL_ORDER_POINTS_def)

lemma small_order_values:
  "map le_value SMALL_ORDER_POINTS =
    [0, 1, 39382357235489614581723060781553021112529911719440698176882885853963445705823,
     325606250916557431795983626356110631294008115727848805560023387167927233504,
     field_prime - 1, field_prime, field_prime + 1,
     325606250916557431795983626356110631294008115727848805560023387167927233485]"
  by (simp add: SMALL_ORDER_POINTS_def field_prime_def)

text \<open>Doubling on the Montgomery curve \<open>v^2 = u^3 + 486662 u^2 + u\<close> in projective
  \<open>(X : Z)\<close> coordinates: a point has order dividing 8 exactly when three doublings reach
  \<open>Z = 0\<close>.\<close>

definition x_double :: "int \<times> int \<Rightarrow> int \<times> int" where
  "x_double XZ = (case XZ of (X, Z) \<Rightarrow>
     ((X * X - Z * Z) ^ 2 mod int field_prime, 4 * X * Z * (X * X + 486662 * X * Z + Z * Z) mod int field_prime))"

definition order_divides_8 :: "nat \<Rightarrow> bool" where
  "order_divides_8 u \<longleftrightarrow> snd (x_double (x_double (x_double (int u, 1)))) = 0"

lemma x_double_eqI:
  assumes "X * X = 2 ^ 255 * a - 19 * a + s" "Z * Z = 2 ^ 255 * b - 19 * b + t"
    and "X * Z = 2 ^ 255 * c - 19 * c + w"
    and "(s - t) * (s - t) = 2 ^ 255 * d - 19 * d + x"
    and "4 * w * (s + 486662 * w + t) = 2 ^ 255 * e - 19 * e + z"
    and "0 \<le> x" "x < 2 ^ 255 - 19" "0 \<le> z" "z < 2 ^ 255 - 19"
  shows "x_double (X, Z) = (x, z)"
proof -
  let ?p = "2 ^ 255 - 19 :: int"
  have p: "int field_prime = ?p" by (simp add: field_prime_def)
  have qr: "u = 2 ^ 255 * k - 19 * k + r \<Longrightarrow> u mod ?p = r mod ?p" for u k r :: int
  proof -
    assume "u = 2 ^ 255 * k - 19 * k + r"
    then have "u = r + ?p * k" by (simp add: algebra_simps)
    then show ?thesis by (simp only: mod_mult_self2)
  qed
  have sq: "(X * X) mod ?p = s mod ?p" "(Z * Z) mod ?p = t mod ?p" "(X * Z) mod ?p = w mod ?p"
    using assms(1-3) by (blast intro: qr)+
  have "(X * X - Z * Z) ^ 2 mod ?p = (s - t) * (s - t) mod ?p"
    unfolding power2_eq_square using sq by (intro mod_mult_cong mod_diff_cong)
  also have "\<dots> = x mod ?p" by (rule qr) (rule assms(4))
  finally have x: "(X * X - Z * Z) ^ 2 mod ?p = x" using assms(6,7) by simp
  have "4 * (X * Z) * (X * X + 486662 * (X * Z) + Z * Z) mod ?p = 4 * w * (s + 486662 * w + t) mod ?p"
    using sq by (intro mod_mult_cong mod_add_cong refl)
  also have "\<dots> = z mod ?p" by (rule qr) (rule assms(5))
  finally have "4 * X * Z * (X * X + 486662 * X * Z + Z * Z) mod ?p = z"
    using assms(8,9) by (simp add: mult.assoc)
  with x show ?thesis by (simp only: x_double_def p prod.case)
qed

lemma x_double_third:
  "x_double
    (39382357235489614581723060781553021112529911719440698176882885853963445705823, 1) =
    (24871845842723059791009793099485790699430777617945840999563689295137248234743,
     24871845842723059791009793099485790699430777617945840999563689295137248234743)"
  by (rule x_double_eqI [where
      a = 26788877748720880654605111422777852440346134326358507972650839531582893060315 and
      s = 36883202143540664839808070031526610330104261572033432514630211953039083883394 and
      b = 0 and
      t = 1 and
      c = 0 and
      w = 39382357235489614581723060781553021112529911719440698176882885853963445705823 and
      d = 23496779604230121859443672119558158725737645210373689091943641382510795492594 and
      e = 52148615647348407615624894157543054014135784295828721958062268399319137357507577161]) simp_all

lemma x_double_fourth:
  "x_double
    (325606250916557431795983626356110631294008115727848805560023387167927233504, 1) =
    (45396917006225111810827341870339786373668205820213556558545403612143054885807,
     45396917006225111810827341870339786373668205820213556558545403612143054885807)"
  by (rule x_double_eqI [where
      a = 1831203346174176921759058571772393101166772953931389283146560970022805150 and
      s = 6156562564767827790697122591422008791921433103000191375683841003573280180666 and
      b = 0 and
      t = 1 and
      c = 0 and
      w = 325606250916557431795983626356110631294008115727848805560023387167927233504 and
      d = 654677929443310691779042967730132455476361715126256290282830590929247809482 and
      e = 3564846828985128589696942693707822713336368332580719029994186591291723562300917]) simp_all

lemma x_double_eighth_1:
  "x_double
    (325606250916557431795983626356110631294008115727848805560023387167927233485, 1) =
    (29090501098008731939062522998265293006634605589786724808285414038867570997456,
     15938085193220577131173520510674480974937230916914255441250274512889695534187)"
  by (rule x_double_eqI [where
      a = 1831203346174176921759058571772393101166772953931389283146560970022805149 and
      s = 51679569648596743094235237294233758729384117038162218784131744295148610127824 and
      b = 0 and
      t = 1 and
      c = 0 and
      w = 325606250916557431795983626356110631294008115727848805560023387167927233485 and
      d = 46130576564524977781702087028985704636524611838436387989181690961353547204277 and
      e = 3565870911080176344532019251310337752110167015554632854045388407572951804436037]) simp_all

lemma x_double_eighth_2:
  "x_double
    (29090501098008731939062522998265293006634605589786724808285414038867570997456, 15938085193220577131173520510674480974937230916914255441250274512889695534187) =
    (34964049689120112639490642712034013317852477649862473991507903521939782713327,
     24388231427406788479149945996926337739367717765406556475151673408720701461411)"
  by (rule x_double_eqI [where
      a = 14616840575332236062247891966413889061501613650014306416776880463621413040830 and
      s = 16231533894548224964284342149717220520061705213107411843159717890289222954266 and
      b = 4387563283459495901489636538801346335502469426103305271422362442168759695760 and
      t = 3738004335072354618578109594005749543115927178011612256039076312978867034729 and
      c = 8008265294588378757932400927056888849996044713463989638880835195456712997052 and
      w = 46186193219971310467569806420402257826168812567734507465953334600349790237924 and
      d = 2696009405851447890027743239883468622827837835279833505195017279232785176058 and
      e = 71723794181445642845526288155364141328536982096616250182230277947244915309902575393]) simp_all

lemma x_double_eighth_3:
  "x_double
    (34964049689120112639490642712034013317852477649862473991507903521939782713327, 24388231427406788479149945996926337739367717765406556475151673408720701461411) =
    (40057776615296439571416430186948614842577858871243297742583223541660723570335,
     21237844501077729712548783811493436056639464014830506751146263930072822461992)"
  by (rule x_double_eqI [where
      a = 21115169070967783481099539110098791156682787887402547073324452889004085624238 and
      s = 19480825046045292748180544368838965048661746466880103721581981213656523085067 and
      b = 10273341401375650311324718464303198448356921872527866053787301951822351703506 and
      t = 21674565105378088120114701816928533896264899767514432704940321639980800069727 and
      c = 14728317643703233120760321095471130065113842891709717391552061133696635529536 and
      w = 14648776617563433703945007897820973670464053850877421923718328744883654410733 and
      d = 83123043717748875145911229019332643137170300109886482846677883407164430485 and
      e = 7215123239362131707786573696299736312217516984612291190528682013339427575095193112]) simp_all

lemma x_double_fst_zero: "int field_prime dvd X - Z \<or> int field_prime dvd X + Z \<Longrightarrow> fst (x_double (X, Z)) = 0"
proof -
  assume "int field_prime dvd X - Z \<or> int field_prime dvd X + Z"
  moreover have "X * X - Z * Z = (X - Z) * (X + Z)" by (simp add: algebra_simps)
  ultimately have "int field_prime dvd X * X - Z * Z" by auto
  then show ?thesis by (simp add: x_double_def power2_eq_square)
qed

lemma x_double_snd_zero: "int field_prime dvd X \<or> int field_prime dvd Z \<Longrightarrow> snd (x_double (X, Z)) = 0"
  by (auto simp: x_double_def)

lemma order_divides_8I:
  assumes "int field_prime dvd int u \<or> int field_prime dvd int u - 1 \<or> int field_prime dvd int u + 1
    \<or> (\<exists>x. x_double (int u, 1) = (x, x))"
  shows "order_divides_8 u"
proof -
  obtain X1 Z1 where 1: "x_double (int u, 1) = (X1, Z1)" by fastforce
  obtain X2 Z2 where 2: "x_double (X1, Z1) = (X2, Z2)" by fastforce
  have "X1 = 0 \<or> Z1 = 0 \<or> X1 = Z1"
    using assms x_double_fst_zero [of "int u" 1] x_double_snd_zero [of "int u" 1] 1 by auto
  then have "X2 = 0 \<or> Z2 = 0"
    using x_double_fst_zero [of X1 Z1] x_double_snd_zero [of X1 Z1] 2 by auto
  then show ?thesis
    using x_double_snd_zero [of X2 Z2] 1 2 by (auto simp: order_divides_8_def)
qed

lemma small_order_entries:
  "\<forall>v \<in> {0, 1, 39382357235489614581723060781553021112529911719440698176882885853963445705823,
     325606250916557431795983626356110631294008115727848805560023387167927233504,
     field_prime - 1, field_prime, field_prime + 1}. order_divides_8 v"
proof -
  have p: "1 \<le> field_prime" by (simp add: field_prime_def)
  have "order_divides_8 0" "order_divides_8 1" "order_divides_8 field_prime"
    "order_divides_8 (field_prime + 1)" "order_divides_8 (field_prime - 1)"
    using p by (auto intro!: order_divides_8I simp: of_nat_diff)
  moreover have "order_divides_8 39382357235489614581723060781553021112529911719440698176882885853963445705823"
    using x_double_third by (intro order_divides_8I) simp
  moreover have "order_divides_8 325606250916557431795983626356110631294008115727848805560023387167927233504"
    using x_double_fourth by (intro order_divides_8I) simp
  ultimately show ?thesis by blast
qed

lemma eighth_entry_order:
  "\<not> order_divides_8 325606250916557431795983626356110631294008115727848805560023387167927233485"
  by (simp add: order_divides_8_def x_double_eighth_1 x_double_eighth_2 x_double_eighth_3)

section \<open>Keys that pass\<close>

lemma has_small_order_value:
  assumes "length key = 32" "le_value key < field_prime"
  shows "has_small_order key \<longleftrightarrow> le_value key \<in> set (map le_value SMALL_ORDER_POINTS)"
proof -
  have "key \<in> set SMALL_ORDER_POINTS \<longleftrightarrow> le_value key \<in> set (map le_value SMALL_ORDER_POINTS)"
    using assms small_order_lengths by (auto dest!: le_value_inject [rotated])
  then show ?thesis
    using assms top_byte_clear [of key] by (simp add: has_small_order_mem field_prime_def)
qed

text \<open>Public keys that X25519 itself computes are canonical and in the prime-order subgroup, so
  they pass; this is an assumption on the parameter.\<close>

definition x25519_keys_ok :: "prims \<Rightarrow> bool" where
  "x25519_keys_ok P \<longleftrightarrow> (\<forall>s. length s = X25519_PRIVATE_KEY_BYTES \<longrightarrow>
     validate_x25519_public_key (x25519_public P s) = Ok ())"

lemma sample_x25519_keys_ok: "x25519_keys_ok sample_prims"
proof -
  have "validate_x25519_public_key (fill 31 s @ [7]) = Ok ()" for s
  proof -
    have v: "le_value (fill 31 s @ [7]) = le_value (fill 31 s) + 256 ^ 31 * 7"
      by (simp add: le_value_append)
    have b: "le_value (fill 31 s) < 256 ^ 31" using le_value_bound [of "fill 31 s"] by simp
    then have lt: "le_value (fill 31 s @ [7]) < field_prime" unfolding v by (simp add: field_prime_def)
    have "\<not> has_small_order (fill 31 s @ [7])"
      using b lt by (subst has_small_order_value) (simp_all add: small_order_values v field_prime_def)
    with lt show ?thesis by (simp add: validate_x25519_public_key_def is_valid_curve25519_point_iff)
  qed
  then show ?thesis by (simp add: x25519_keys_ok_def sample_prims_def)
qed

section \<open>Properties\<close>

text \<open>C18. A key passes validation exactly when it is 32 bytes long, encodes a canonical field
  element (below \<open>2 ^ 255 - 19\<close>, decided by the 32-bit borrow chain) and is not one of the
  tabulated values.\<close>

theorem validate_x25519_public_key_iff:
  "validate_x25519_public_key key = Ok () \<longleftrightarrow>
     length key = 32 \<and> le_value key < 2 ^ 255 - 19 \<and> le_value key \<notin> set (map le_value SMALL_ORDER_POINTS)"
  using has_small_order_value [of key]
  by (auto simp: validate_x25519_public_key_def is_valid_curve25519_point_iff field_prime_def)

text \<open>C19. The first seven entries of the small-order table encode points whose order divides 8;
  the eighth entry (the third non-trivial entry minus 19) does not, so validation turns away a
  key that is not of small order.\<close>

theorem small_order_table:
  "(\<forall>q \<in> set (take 7 SMALL_ORDER_POINTS). order_divides_8 (le_value q)) \<and>
   \<not> order_divides_8 (le_value (SMALL_ORDER_POINTS ! 7)) \<and>
   validate_x25519_public_key (SMALL_ORDER_POINTS ! 7) =
     Err (InvalidInput ''X25519 public key is a small-order point (invalid for DH)'')"
proof (intro conjI)
  have vals: "map le_value (take 7 SMALL_ORDER_POINTS) = take 7 (map le_value SMALL_ORDER_POINTS)"
    by (simp only: take_map)
  have "le_value ` set (take 7 SMALL_ORDER_POINTS) \<subseteq>
    {0, 1, 39382357235489614581723060781553021112529911719440698176882885853963445705823,
     325606250916557431795983626356110631294008115727848805560023387167927233504,
     field_prime - 1, field_prime, field_prime + 1}"
    unfolding set_map [symmetric] vals small_order_values by simp
  with small_order_entries show "\<forall>q \<in> set (take 7 SMALL_ORDER_POINTS). order_divides_8 (le_value q)" by blast
  have "le_value (SMALL_ORDER_POINTS ! 7) = map le_value SMALL_ORDER_POINTS ! 7"
    by (simp add: SMALL_ORDER_POINTS_def)
  then show "\<not> order_divides_8 (le_value (SMALL_ORDER_POINTS ! 7))"
    using eighth_entry_order by (simp add: small_order_values)
  show "validate_x25519_public_key (SMALL_ORDER_POINTS ! 7) =
      Err (InvalidInput ''X25519 public key is a small-order point (invalid for DH)'')"
    by (simp add: validate_x25519_public_key_def has_small_order_mem SMALL_ORDER_POINTS_def)
qed

theorem small_order_table_witness:
  "order_divides_8 (le_value (SMALL_ORDER_POINTS ! 2)) \<and> SMALL_ORDER_POINTS ! 2 \<in> set (take 7 SMALL_ORDER_POINTS)"
proof -
  have "SMALL_ORDER_POINTS ! 2 \<in> set (take 7 SMALL_ORDER_POINTS)" by (simp add: SMALL_ORDER_POINTS_def)
  with small_order_table show ?thesis by blast
qed

end
