(* ===== verification/Hash_Chain.thy ===== *)
theory Hash_Chain
  imports Prelude
begin

text \<open>
  Symmetric key chains: a derivation step turns a chain state into a message key and the next
  state. The session chains, the sender-key chains and the media ratchet are such chains; the
  contract \<open>ratchet_chain\<close> is what they share. \<open>chain_run\<close> is the reference: the first \<open>n\<close> keys
  and the state after them.
\<close>

fun chain_run :: "('s \<Rightarrow> 'e + ('m \<times> 's)) \<Rightarrow> nat \<Rightarrow> 's \<Rightarrow> 'e + ('m list \<times> 's)" where
  "chain_run d 0 s = Ok ([], s)"
| "chain_run d (Suc n) s =
     res_bind (d s) (\<lambda>(m, s1). res_bind (chain_run d n s1) (\<lambda>(ms, s2). Ok (m # ms, s2)))"

lemma chain_run_add:
  "chain_run d (m + n) s =
     res_bind (chain_run d m s) (\<lambda>(xs, s1). res_bind (chain_run d n s1) (\<lambda>(ys, s2). Ok (xs @ ys, s2)))"
proof (induction m arbitrary: s)
  case 0
  show ?case by (cases "chain_run d n s") auto
next
  case (Suc m)
  show ?case
  proof (cases "d s")
    case (Inr p)
    obtain k s1 where p: "p = (k, s1)" by fastforce
    show ?thesis
    proof (cases "chain_run d m s1")
      case r: (Inr q)
      obtain xs s2 where q: "q = (xs, s2)" by fastforce
      show ?thesis using Inr p r q Suc by (cases "chain_run d n s2") auto
    qed (use Inr p Suc in simp)
  qed simp
qed

lemma chain_run_snoc:
  assumes "chain_run d n s = Ok (ms, s1)" "d s1 = Ok (k, s2)"
  shows "chain_run d (Suc n) s = Ok (ms @ [k], s2)"
proof -
  have "chain_run d (n + Suc 0) s = Ok (ms @ [k], s2)" unfolding chain_run_add using assms by simp
  then show ?thesis by simp
qed

lemma chain_run_length: "chain_run d n s = Ok (ms, s') \<Longrightarrow> length ms = n"
  by (induction n arbitrary: s ms s') (auto simp: result_simps)

lemma chain_run_prefix:
  assumes "chain_run d (m + n) s = Ok (ms, s')"
  obtains s1 where "chain_run d m s = Ok (take m ms, s1)" "chain_run d n s1 = Ok (drop m ms, s')"
proof -
  from assms obtain xs s1 ys where 1: "chain_run d m s = Ok (xs, s1)" "chain_run d n s1 = Ok (ys, s')" "ms = xs @ ys"
    unfolding chain_run_add by (auto simp: result_simps)
  with chain_run_length [OF 1(1)] that show ?thesis by simp
qed

locale ratchet_chain =
  fixes derive :: "'s \<Rightarrow> 'e + ('m \<times> 's)"
    and good :: "'s \<Rightarrow> bool"
  assumes derive_good: "good s \<Longrightarrow> \<exists>m s'. derive s = Ok (m, s') \<and> good s'"
begin

lemma run_ok: "good s \<Longrightarrow> \<exists>ms s'. chain_run derive n s = Ok (ms, s') \<and> length ms = n \<and> good s'"
proof (induction n arbitrary: s)
  case (Suc n)
  from derive_good [OF Suc.prems] obtain m s1 where 1: "derive s = Ok (m, s1)" "good s1" by blast
  from Suc.IH [OF 1(2)] obtain ms s2 where "chain_run derive n s1 = Ok (ms, s2)" "length ms = n" "good s2" by blast
  with 1 show ?case by simp
qed simp

lemma run_good: "good s \<Longrightarrow> chain_run derive n s = Ok (ms, s') \<Longrightarrow> good s'"
  using run_ok [of s n] by auto

text \<open>Reaching position \<open>m + n\<close> in one go or with a stop at \<open>m\<close> gives the same key.\<close>

lemma key_path_independent:
  assumes "good s" "chain_run derive (Suc (m + n)) s = Ok (ks, s')"
    and "chain_run derive m s = Ok (xs, s1)" "chain_run derive (Suc n) s1 = Ok (ys, s2)"
  shows "ks ! (m + n) = ys ! n" and "s' = s2"
proof -
  have "chain_run derive (m + Suc n) s = Ok (xs @ ys, s2)"
    by (subst chain_run_add) (simp only: assms(3,4) res_bind_simps prod.case)
  with assms(2) have "ks = xs @ ys \<and> s' = s2" by (simp only: add_Suc_right sum.inject prod.inject)
  moreover have "length xs = m" using assms(3) by (rule chain_run_length)
  ultimately show "ks ! (m + n) = ys ! n" "s' = s2" by (auto simp: nth_append)
qed

end

end
