(* ===== verification/Voip_Media.thy ===== *)
theory Voip_Media
  imports Sample_Prims Padding Hash_Chain
begin

text \<open>
  The media layer of a call: frame headers and associated data (\<^verbatim>\<open>protocol/voip/frame.rs\<close>),
  sealing and opening of frames and headers (\<^verbatim>\<open>protocol/voip/media_crypto.rs\<close>) and the media
  key ratchet (\<^verbatim>\<open>protocol/voip/key_ratchet.rs\<close>). Shown here: header round trip and
  injective associated data, frame round trip, distinct media nonces, and that the speculative
  derivations of the receiver agree with the step-by-step ratchet of the sender.
\<close>

section \<open>Frames\<close>

record frame_header =
  payload_type :: u8
  ssrc :: nat
  timestamp :: nat
  sequence_number :: nat

definition SERIALIZED_SIZE :: nat where
  [simp]: "SERIALIZED_SIZE = 11"

definition fh_serialize :: "frame_header \<Rightarrow> bytes" where
  "fh_serialize h = [payload_type h] @ be_bytes 4 (ssrc h) @ be_bytes 4 (timestamp h) @ be_bytes 2 (sequence_number h)"

definition fh_deserialize :: "bytes \<Rightarrow> frame_header pres" where
  "fh_deserialize data =
     (if length data < SERIALIZED_SIZE then Err (VoipMedia ''frame header too short'')
      else Ok \<lparr> payload_type = data ! 0,
                ssrc = be_value (take 4 (drop 1 data)),
                timestamp = be_value (take 4 (drop 5 data)),
                sequence_number = be_value (take 2 (drop 9 data)) \<rparr>)"

definition build_frame_aad :: "bytes \<Rightarrow> nat \<Rightarrow> nat \<Rightarrow> nat \<Rightarrow> bytes" where
  "build_frame_aad call_id ssrc_id frame_counter ratchet_generation =
     call_id @ be_bytes 4 ssrc_id @ be_bytes 8 frame_counter @ be_bytes 4 ratchet_generation"

section \<open>Media crypto\<close>

definition build_nonce :: "bytes \<Rightarrow> nat \<Rightarrow> bytes" where
  "build_nonce nonce_prefix frame_counter = nonce_prefix @ be_bytes 8 frame_counter"

definition pad_frame :: "bytes \<Rightarrow> bytes" where
  "pad_frame data =
     (let with_sentinel = length data + 1;
          blocks = div_ceil with_sentinel VOIP_FRAME_PADDING_BLOCK;
          padded_len = blocks * VOIP_FRAME_PADDING_BLOCK
      in vec_resize padded_len (data @ [0x01]))"

definition unpad_frame :: "bytes \<Rightarrow> bytes pres" where
  "unpad_frame padded =
     (if padded = [] then Err (VoipMedia ''invalid padding: empty'')
      else if length padded mod VOIP_FRAME_PADDING_BLOCK \<noteq> 0 then
        Err (VoipMedia ''invalid padding: not aligned'')
      else
        case find_sentinel 0 padded (0, 0) of (found_pos, found) \<Rightarrow>
          if found = 0 then Err (VoipMedia ''invalid padding: no sentinel found'')
          else if found_pos = 0 then Err (VoipMedia ''empty decrypted frame payload'')
          else if non_zero_after 0 padded found_pos 0 \<noteq> 0 then
            Err (VoipMedia ''invalid padding: non-zero after sentinel'')
          else Ok (take (unat found_pos) padded))"

definition encrypt_frame :: "prims \<Rightarrow> bytes \<Rightarrow> bytes \<Rightarrow> nat \<Rightarrow> bytes \<Rightarrow> bytes \<Rightarrow> bytes pres" where
  "encrypt_frame P media_key nonce_prefix frame_counter plaintext aad =
     (if length media_key \<noteq> VOIP_MEDIA_KEY_BYTES then Err (VoipMedia ''invalid media key size'')
      else if plaintext = [] then Err (VoipMedia ''empty frame payload'')
      else if length plaintext > MAX_VOIP_FRAME_SIZE then Err (VoipMedia ''frame payload too large'')
      else if frame_counter > MAX_FRAME_COUNTER then Err (VoipMedia ''frame counter overflow'')
      else
        let padded = pad_frame plaintext;
            nonce_bytes = build_nonce nonce_prefix frame_counter
        in map_err (\<lambda>_. VoipMedia ''AES-256-GCM-SIV frame encryption failed'')
             (aes_gcm_encrypt P media_key nonce_bytes padded aad))"

definition decrypt_frame :: "prims \<Rightarrow> bytes \<Rightarrow> bytes \<Rightarrow> nat \<Rightarrow> bytes \<Rightarrow> bytes \<Rightarrow> bytes pres" where
  "decrypt_frame P media_key nonce_prefix frame_counter ciphertext aad =
     (if length media_key \<noteq> VOIP_MEDIA_KEY_BYTES then Err (VoipMedia ''invalid media key size'')
      else if length ciphertext < AES_GCM_TAG_BYTES then Err (VoipMedia ''ciphertext too small'')
      else if frame_counter > MAX_FRAME_COUNTER then Err (VoipMedia ''frame counter overflow'')
      else
        let nonce_bytes = build_nonce nonce_prefix frame_counter
        in res_bind (map_err (\<lambda>_. VoipMedia ''frame authentication failed -- tampered data'')
             (aes_gcm_decrypt P media_key nonce_bytes ciphertext aad)) unpad_frame)"

definition header_nonce :: "bytes \<Rightarrow> nat \<Rightarrow> bytes" where
  "header_nonce nonce_prefix frame_counter =
     (let nonce_bytes = build_nonce nonce_prefix frame_counter
      in nonce_bytes[0 := nonce_bytes ! 0 XOR 0xFF])"

definition encrypt_header :: "prims \<Rightarrow> bytes \<Rightarrow> bytes \<Rightarrow> nat \<Rightarrow> bytes \<Rightarrow> bytes pres" where
  "encrypt_header P header_key nonce_prefix frame_counter header =
     (if length header_key \<noteq> VOIP_HEADER_KEY_BYTES then Err (VoipMedia ''invalid header key size'')
      else map_err (\<lambda>_. VoipMedia ''header encryption failed'')
             (aes_gcm_encrypt P header_key (header_nonce nonce_prefix frame_counter) header []))"

definition decrypt_header :: "prims \<Rightarrow> bytes \<Rightarrow> bytes \<Rightarrow> nat \<Rightarrow> bytes \<Rightarrow> bytes pres" where
  "decrypt_header P header_key nonce_prefix frame_counter ciphertext =
     (if length header_key \<noteq> VOIP_HEADER_KEY_BYTES then Err (VoipMedia ''invalid header key size'')
      else if length ciphertext < AES_GCM_TAG_BYTES then Err (VoipMedia ''header ciphertext too small'')
      else map_err (\<lambda>_. VoipMedia ''header authentication failed'')
             (aes_gcm_decrypt P header_key (header_nonce nonce_prefix frame_counter) ciphertext []))"

section \<open>The media key ratchet\<close>

record media_ratchet =
  chain_key :: handle
  generation :: nat
  nonce_prefix :: bytes

record ratcheted_key =
  media_key :: bytes
  key_generation :: nat

record ratchet_snapshot =
  chain_bytes :: bytes
  snap_generation :: nat

definition derive_at_generation :: "prims \<Rightarrow> bytes \<Rightarrow> nat \<Rightarrow> bytes \<Rightarrow> (bytes \<times> bytes) pres" where
  "derive_at_generation P chain gen prefix =
     (let salt = prefix @ le_bytes 4 gen
      in res_bind (derive_key_bytes P chain VOIP_MEDIA_KEY_BYTES salt VOIP_RATCHET_CHAIN_INFO) (\<lambda>output_key.
         res_bind (derive_key_bytes P chain VOIP_MEDIA_KEY_BYTES salt (ascii ''Aura-VoIP-NextChain'')) (\<lambda>next_chain.
           Ok (output_key, next_chain))))"

definition derive_frame_key_at_generation :: "prims \<Rightarrow> bytes \<Rightarrow> nat \<Rightarrow> bytes \<Rightarrow> nat \<Rightarrow> bytes pres" where
  "derive_frame_key_at_generation P chain gen prefix frame_counter =
     res_bind (derive_at_generation P chain gen prefix) (\<lambda>(generation_key, _).
       derive_key_bytes P generation_key VOIP_MEDIA_KEY_BYTES (le_bytes 8 frame_counter) VOIP_FRAME_KEY_INFO)"

definition media_ratchet_new :: "handle \<Rightarrow> bytes \<Rightarrow> media_ratchet" where
  "media_ratchet_new initial_key prefix = \<lparr> chain_key = initial_key, generation = 0, nonce_prefix = prefix \<rparr>"

definition media_ratchet_from_state :: "prims \<Rightarrow> bytes \<Rightarrow> nat \<Rightarrow> bytes \<Rightarrow> media_ratchet pres" where
  "media_ratchet_from_state P chain gen prefix =
     (if length chain \<noteq> VOIP_MEDIA_KEY_BYTES then Err (VoipMedia ''invalid ratchet chain key size'')
      else res_bind (map_err CryptoErr (new_handle P VOIP_MEDIA_KEY_BYTES chain)) (\<lambda>handle.
             Ok \<lparr> chain_key = handle, generation = gen, nonce_prefix = prefix \<rparr>))"

definition advance :: "prims \<Rightarrow> media_ratchet \<Rightarrow> ratcheted_key pres \<times> media_ratchet" where
  "advance P r =
     (if generation r \<ge> MAX_RATCHET_GENERATION then
        (Err (VoipMedia ''media key ratchet generation exhausted''), r)
      else
        case res_bind (map_err CryptoErr (read_bytes (chain_key r) VOIP_MEDIA_KEY_BYTES)) (\<lambda>chain.
             res_bind (derive_at_generation P chain (generation r) (nonce_prefix r)) (\<lambda>(output_key, next_chain).
             res_bind (map_err CryptoErr (new_handle P VOIP_MEDIA_KEY_BYTES next_chain)) (\<lambda>handle.
               Ok (output_key, handle)))) of
          Inl e \<Rightarrow> (Err e, r)
        | Inr (output_key, handle) \<Rightarrow>
            (Ok \<lparr> media_key = output_key, key_generation = generation r \<rparr>,
             r\<lparr> chain_key := handle, generation := generation r + 1 \<rparr>))"

definition advance_generation :: "prims \<Rightarrow> media_ratchet \<Rightarrow> nat pres \<times> media_ratchet" where
  "advance_generation P r =
     (case advance P r of (Inl e, r') \<Rightarrow> (Err e, r') | (Inr _, r') \<Rightarrow> (Ok (generation r'), r'))"

fun advance_times :: "prims \<Rightarrow> nat \<Rightarrow> media_ratchet \<Rightarrow> unit pres \<times> media_ratchet" where
  "advance_times P 0 r = (Ok (), r)"
| "advance_times P (Suc n) r =
     (case advance P r of (Inl e, r') \<Rightarrow> (Err e, r') | (Inr _, r') \<Rightarrow> advance_times P n r')"

definition check_skip :: "nat \<Rightarrow> nat \<Rightarrow> nat pres" where
  "check_skip current target_generation =
     (if target_generation < current then
        Err (VoipMedia ''cannot ratchet backwards: current={}, target={}'')
      else
        let skip_count = target_generation - current
        in if skip_count > MAX_SKIPPED_RATCHET_GENERATIONS then
             Err (VoipMedia ''ratchet skip too large: {skip_count} exceeds max {MAX_SKIPPED_RATCHET_GENERATIONS}'')
           else Ok skip_count)"

definition advance_to :: "prims \<Rightarrow> media_ratchet \<Rightarrow> nat \<Rightarrow> ratcheted_key pres \<times> media_ratchet" where
  "advance_to P r target_generation =
     (case check_skip (generation r) target_generation of
        Inl e \<Rightarrow> (Err e, r)
      | Inr skip_count \<Rightarrow>
          (case advance_times P skip_count r of
             (Inl e, r') \<Rightarrow> (Err e, r')
           | (Inr _, r') \<Rightarrow> advance P r'))"

definition mr_snapshot :: "media_ratchet \<Rightarrow> ratchet_snapshot pres" where
  "mr_snapshot r =
     res_bind (map_err CryptoErr (read_bytes (chain_key r) VOIP_MEDIA_KEY_BYTES)) (\<lambda>chain.
       Ok \<lparr> chain_bytes = chain, snap_generation = generation r \<rparr>)"

definition frame_key :: "prims \<Rightarrow> media_ratchet \<Rightarrow> nat \<Rightarrow> ratcheted_key pres" where
  "frame_key P r frame_counter =
     res_bind (mr_snapshot r) (\<lambda>snap.
     res_bind (derive_frame_key_at_generation P (chain_bytes snap) (snap_generation snap) (nonce_prefix r) frame_counter)
       (\<lambda>k. Ok \<lparr> media_key = k, key_generation = snap_generation snap \<rparr>))"

fun sync_loop :: "prims \<Rightarrow> bytes \<Rightarrow> nat \<Rightarrow> bytes \<times> nat \<Rightarrow> (bytes \<times> nat) pres" where
  "sync_loop P prefix 0 st = Ok st"
| "sync_loop P prefix (Suc n) (current_chain, current_gen) =
     res_bind (derive_at_generation P current_chain current_gen prefix) (\<lambda>(_, nxt).
       sync_loop P prefix n (nxt, current_gen + 1))"

definition speculative_sync_to :: "prims \<Rightarrow> media_ratchet \<Rightarrow> nat \<Rightarrow> ratchet_snapshot pres" where
  "speculative_sync_to P r target_generation =
     res_bind (check_skip (generation r) target_generation) (\<lambda>skip_count.
     res_bind (map_err CryptoErr (read_bytes (chain_key r) VOIP_MEDIA_KEY_BYTES)) (\<lambda>chain.
     res_bind (sync_loop P (nonce_prefix r) skip_count (chain, generation r)) (\<lambda>(c, g).
       Ok \<lparr> chain_bytes = c, snap_generation = g \<rparr>)))"

definition speculative_advance_to :: "prims \<Rightarrow> media_ratchet \<Rightarrow> nat \<Rightarrow> (ratcheted_key \<times> ratchet_snapshot) pres" where
  "speculative_advance_to P r target_generation =
     res_bind (check_skip (generation r) target_generation) (\<lambda>skip_count.
     res_bind (map_err CryptoErr (read_bytes (chain_key r) VOIP_MEDIA_KEY_BYTES)) (\<lambda>chain.
     res_bind (sync_loop P (nonce_prefix r) skip_count (chain, generation r)) (\<lambda>(c, g).
     res_bind (derive_at_generation P c g (nonce_prefix r)) (\<lambda>(output_key, next_chain).
       if g + 1 > u32_max then Err overflow_panic
       else Ok (\<lparr> media_key = output_key, key_generation = g \<rparr>,
                \<lparr> chain_bytes = next_chain, snap_generation = g + 1 \<rparr>)))))"

definition speculative_frame_key :: "prims \<Rightarrow> media_ratchet \<Rightarrow> nat \<Rightarrow> nat \<Rightarrow> (ratcheted_key \<times> ratchet_snapshot) pres" where
  "speculative_frame_key P r target_generation frame_counter =
     res_bind (speculative_sync_to P r target_generation) (\<lambda>snap.
     res_bind (derive_frame_key_at_generation P (chain_bytes snap) (snap_generation snap) (nonce_prefix r) frame_counter)
       (\<lambda>k. Ok (\<lparr> media_key = k, key_generation = snap_generation snap \<rparr>, snap)))"

definition commit_snapshot :: "prims \<Rightarrow> media_ratchet \<Rightarrow> ratchet_snapshot \<Rightarrow> media_ratchet pres" where
  "commit_snapshot P r snap =
     res_bind (map_err CryptoErr (new_handle P VOIP_MEDIA_KEY_BYTES (chain_bytes snap))) (\<lambda>handle.
       Ok (r\<lparr> chain_key := handle, generation := snap_generation snap \<rparr>))"

definition media_ratchet_reset :: "media_ratchet \<Rightarrow> handle \<Rightarrow> bytes \<Rightarrow> media_ratchet" where
  "media_ratchet_reset r new_key new_nonce_prefix =
     r\<lparr> chain_key := new_key, generation := 0, nonce_prefix := new_nonce_prefix \<rparr>"

definition set_generation :: "media_ratchet \<Rightarrow> nat \<Rightarrow> media_ratchet" where
  "set_generation r gen = r\<lparr> generation := gen \<rparr>"

section \<open>Framing lemmas\<close>

definition header_ok :: "frame_header \<Rightarrow> bool" where
  "header_ok h \<longleftrightarrow> ssrc h \<le> u32_max \<and> timestamp h \<le> u32_max \<and> sequence_number h \<le> u16_max"

lemma fh_roundtrip:
  assumes "header_ok h"
  shows "fh_deserialize (fh_serialize h @ rest) = Ok h"
proof -
  have "be_value (be_bytes 4 (ssrc h)) = ssrc h" "be_value (be_bytes 4 (timestamp h)) = timestamp h"
    "be_value (be_bytes 2 (sequence_number h)) = sequence_number h"
    using assms by (auto simp: header_ok_def intro!: be_value_be_bytes)
  then show ?thesis by (simp add: fh_deserialize_def fh_serialize_def drop_Cons')
qed

lemma split_frame:
  assumes "11 \<le> length d"
  shows "take 11 d = [d ! 0] @ take 4 (drop 1 d) @ take 4 (drop 5 d) @ take 2 (drop 9 d)"
proof -
  have "take 11 d = take (1 + (4 + (4 + 2))) d" by simp
  also have "\<dots> = take 1 d @ take 4 (drop 1 d) @ take 4 (drop 5 d) @ take 2 (drop 9 d)"
    by (simp only: take_add drop_drop append_assoc) simp
  also have "take 1 d = [d ! 0]" using assms by (cases d) auto
  finally show ?thesis .
qed

lemma be_bytes_be_value': "length bs = n \<Longrightarrow> be_bytes n (be_value bs) = bs"
  using be_bytes_be_value [of bs] by simp

lemma build_nonce_inject:
  assumes "build_nonce p c = build_nonce p' c'" "length p = length p'" "c \<le> MAX_FRAME_COUNTER" "c' \<le> MAX_FRAME_COUNTER"
  shows "p = p' \<and> c = c'"
  using assms by (auto simp: build_nonce_def dest!: be_bytes_inject [THEN iffD1, rotated -1])

section \<open>VoIP frame padding meets the padding contract\<close>

lemma pad_frame_eq: "pad_frame m = m @ 1 # zeros (div_ceil (length m + 1) 16 * 16 - length m - 1)"
  using div_ceil_ge [of 16 "length m + 1"] by (simp add: pad_frame_def Let_def vec_resize_sentinel)

lemma unpad_frame_Ok_iff:
  assumes "length p < 2 ^ 63"
  shows "unpad_frame p = Ok m \<longleftrightarrow> length p mod 16 = 0 \<and> sentinel_form p m \<and> m \<noteq> []"
proof -
  obtain fp f where f: "find_sentinel 0 p (0, 0) = (fp, f)" by fastforce
  have ne: "p = [] \<Longrightarrow> \<not> sentinel_form p m" by (simp add: sentinel_form_def)
  have "fp = 0 \<longleftrightarrow> m = []" if "take (unat fp) p = m" "p \<noteq> []"
    using that by (auto simp: unsigned_eq_0_iff)
  then show ?thesis using sentinel_passes [OF assms f, of m] f ne by (auto simp: unpad_frame_def)
qed

interpretation frame_padding: padding_scheme 16 "\<lambda>m. m \<noteq> []" pad_frame unpad_frame
proof
  show "length (pad_frame m) = div_ceil (length m + 1) 16 * 16" for m
    using div_ceil_ge [of 16 "length m + 1"] by (simp add: pad_frame_eq)
  show "sentinel_form (pad_frame m) m" for m by (auto simp: pad_frame_eq sentinel_form_def)
  show "unpad_frame p = Ok m \<longleftrightarrow> length p mod 16 = 0 \<and> sentinel_form p m \<and> m \<noteq> []"
    if "length p < 2 ^ 63" for p m using that by (rule unpad_frame_Ok_iff)
qed simp

lemma decrypt_encrypt_frame:
  assumes "aead_ok P" "encrypt_frame P k np c m aad = Ok ct" "length aad \<le> 2 ^ 36"
  shows "decrypt_frame P k np c ct aad = Ok m"
proof -
  from assms(2) have e: "aes_gcm_encrypt P k (build_nonce np c) (pad_frame m) aad = Ok ct"
    "length k = 32" "m \<noteq> []" "length m \<le> 65536" "c \<le> MAX_FRAME_COUNTER"
    by (auto simp: encrypt_frame_def Let_def result_simps split: if_splits)
  have "length (pad_frame m) \<le> 2 ^ 36" using frame_padding.pad_bounds [of m] e(4) by simp
  then have d: "aes_gcm_decrypt P k (build_nonce np c) ct aad = Ok (pad_frame m)"
    using aes_gcm_roundtrip [OF assms(1) e(1)] assms(3) by blast
  then have "16 \<le> length ct" by (auto simp: aes_gcm_decrypt_def result_simps split: if_splits)
  moreover have "unpad_frame (pad_frame m) = Ok m" using e by (intro frame_padding.pad_roundtrip) simp_all
  ultimately show ?thesis using e d by (simp add: decrypt_frame_def Let_def)
qed

section \<open>The ratchet as a key chain\<close>

definition media_step :: "prims \<Rightarrow> bytes \<Rightarrow> bytes \<times> nat \<Rightarrow> protocol_error + (bytes \<times> (bytes \<times> nat))" where
  "media_step P prefix st = (case st of (chain, gen) \<Rightarrow>
     res_bind (derive_at_generation P chain gen prefix) (\<lambda>(k, nxt). Ok (k, (nxt, gen + 1))))"

lemma media_step_pair: "media_step P prefix (chain, gen) =
    res_bind (derive_at_generation P chain gen prefix) (\<lambda>(k, nxt). Ok (k, (nxt, gen + 1)))"
  by (simp add: media_step_def)

lemma derive_at_generation_ok:
  assumes "hkdf_ok P"
  obtains k nxt where "derive_at_generation P chain gen prefix = Ok (k, nxt)" "length k = 32" "length nxt = 32"
proof -
  obtain k where k: "derive_key_bytes P chain 32 (prefix @ le_bytes 4 gen) VOIP_RATCHET_CHAIN_INFO = Ok k" "length k = 32"
    using derive_key_bytes_32 [OF assms] by blast
  obtain c where "derive_key_bytes P chain 32 (prefix @ le_bytes 4 gen) (ascii ''Aura-VoIP-NextChain'') = Ok c" "length c = 32"
    using derive_key_bytes_32 [OF assms] by blast
  with k that show ?thesis by (simp add: derive_at_generation_def Let_def)
qed

interpretation media_chain: ratchet_chain "media_step P prefix" "\<lambda>st. hkdf_ok P \<and> length (fst st) = 32" for P prefix
proof
  fix s :: "bytes \<times> nat"
  assume g: "hkdf_ok P \<and> length (fst s) = 32"
  obtain c n where s: "s = (c, n)" by fastforce
  obtain k nxt where "derive_at_generation P c n prefix = Ok (k, nxt)" "length nxt = 32"
    using derive_at_generation_ok g by metis
  with g show "\<exists>m s'. media_step P prefix s = Ok (m, s') \<and> hkdf_ok P \<and> length (fst s') = 32"
    by (simp add: media_step_pair s del: add_Suc_right)
qed

lemma sync_loop_chain:
  "sync_loop P prefix n st = res_bind (chain_run (media_step P prefix) n st) (\<lambda>(_, st'). Ok st')"
proof (induction n arbitrary: st)
  case (Suc n)
  obtain c g where st: "st = (c, g)" by fastforce
  show ?case
  proof (cases "derive_at_generation P c g prefix")
    case (Inr p)
    obtain k nxt where "p = (k, nxt)" by fastforce
    then show ?thesis using Inr Suc [of "(nxt, g + 1)"]
      by (cases "chain_run (media_step P prefix) n (nxt, g + 1)") (auto simp: st media_step_pair)
  qed (simp add: st media_step_pair)
qed simp

definition ratchet_wf :: "prims \<Rightarrow> media_ratchet \<Rightarrow> bool" where
  "ratchet_wf P r \<longleftrightarrow> hkdf_ok P \<and> slot_free P 32 \<and> length (chain_key r) = 32"

lemma advance_step:
  assumes "ratchet_wf P r" "generation r < MAX_RATCHET_GENERATION"
  obtains k c where "media_step P (nonce_prefix r) (chain_key r, generation r) = Ok (k, (c, generation r + 1))"
    "length c = 32" "advance P r = (Ok \<lparr> media_key = k, key_generation = generation r \<rparr>,
        r\<lparr> chain_key := c, generation := generation r + 1 \<rparr>)"
proof -
  have wf: "hkdf_ok P" "slot_free P 32" "length (chain_key r) = 32" using assms(1) by (auto simp: ratchet_wf_def)
  obtain k c where d: "derive_at_generation P (chain_key r) (generation r) (nonce_prefix r) = Ok (k, c)" "length c = 32"
    using derive_at_generation_ok [OF wf(1)] by metis
  moreover have "new_handle P 32 c = Ok c" using d wf(2) by (intro new_handle_exact) simp_all
  ultimately show ?thesis using that [of k c] assms(2) wf(3) by (simp add: advance_def media_step_pair)
qed

lemma advance_times_chain:
  assumes "ratchet_wf P r" "generation r + n \<le> MAX_RATCHET_GENERATION"
  shows "\<exists>ks c. chain_run (media_step P (nonce_prefix r)) n (chain_key r, generation r) = Ok (ks, (c, generation r + n)) \<and>
    length c = 32 \<and> advance_times P n r = (Ok (), r\<lparr> chain_key := c, generation := generation r + n \<rparr>)"
  using assms
proof (induction n arbitrary: r)
  case 0
  then show ?case by (simp add: ratchet_wf_def)
next
  case (Suc n)
  have lt: "generation r < MAX_RATCHET_GENERATION" using Suc.prems(2) by simp
  obtain k c where s: "media_step P (nonce_prefix r) (chain_key r, generation r) = Ok (k, (c, generation r + 1))"
    "length c = 32" "advance P r = (Ok \<lparr> media_key = k, key_generation = generation r \<rparr>,
        r\<lparr> chain_key := c, generation := generation r + 1 \<rparr>)"
    by (rule advance_step [OF Suc.prems(1) lt])
  let ?r = "r\<lparr> chain_key := c, generation := generation r + 1 \<rparr>"
  have "ratchet_wf P ?r" using Suc.prems(1) s(2) by (simp add: ratchet_wf_def)
  from Suc.IH [OF this] Suc.prems(2) obtain ks d where
    "chain_run (media_step P (nonce_prefix r)) n (c, generation r + 1) = Ok (ks, (d, generation r + 1 + n))"
    "length d = 32" "advance_times P n ?r = (Ok (), ?r\<lparr> chain_key := d, generation := generation r + 1 + n \<rparr>)"
    by auto
  with s show ?case by (intro exI [of _ "k # ks"] exI [of _ d]) simp
qed

lemma check_skip_Ok [simp]:
  "g \<le> t \<Longrightarrow> t \<le> g + 8 \<Longrightarrow> check_skip g t = Ok (t - g)"
  by (simp add: check_skip_def Let_def)

lemma commit_snapshot_ok:
  "slot_free P 32 \<Longrightarrow> length (chain_bytes snap) = 32 \<Longrightarrow>
    commit_snapshot P r snap = Ok (r\<lparr> chain_key := chain_bytes snap, generation := snap_generation snap \<rparr>)"
  by (simp add: commit_snapshot_def new_handle_exact)

text \<open>What the receiver reaches without changing its state is what stepping would reach.\<close>

lemma speculative_sync_chain:
  assumes "ratchet_wf P r" "n \<le> 8" "generation r + n \<le> MAX_RATCHET_GENERATION"
  obtains c where "advance_times P n r = (Ok (), r\<lparr> chain_key := c, generation := generation r + n \<rparr>)"
    "length c = 32" "sync_loop P (nonce_prefix r) n (chain_key r, generation r) = Ok (c, generation r + n)"
    "speculative_sync_to P r (generation r + n) = Ok \<lparr> chain_bytes = c, snap_generation = generation r + n \<rparr>"
proof -
  from advance_times_chain [OF assms(1,3)] obtain ks c where
    1: "chain_run (media_step P (nonce_prefix r)) n (chain_key r, generation r) = Ok (ks, (c, generation r + n))"
    "length c = 32" "advance_times P n r = (Ok (), r\<lparr> chain_key := c, generation := generation r + n \<rparr>)" by blast
  then have s: "sync_loop P (nonce_prefix r) n (chain_key r, generation r) = Ok (c, generation r + n)"
    by (simp add: sync_loop_chain)
  moreover have "read_bytes (chain_key r) 32 = Ok (chain_key r)" using assms(1) by (simp add: ratchet_wf_def)
  ultimately have "speculative_sync_to P r (generation r + n) = Ok \<lparr> chain_bytes = c, snap_generation = generation r + n \<rparr>"
    using assms(2) by (simp add: speculative_sync_to_def)
  with 1 s that show ?thesis by blast
qed

section \<open>Properties\<close>

text \<open>A serialised frame header is 11 bytes long and parses back to the same header whatever
  follows it, and parsing any sufficiently long input gives the header whose serialisation is its
  first 11 bytes.\<close>

theorem frame_header_roundtrip:
  "(header_ok h \<longrightarrow> fh_deserialize (fh_serialize h @ rest) = Ok h) \<and>
   (fh_deserialize d = Ok h' \<longrightarrow> fh_serialize h' = take 11 d \<and> header_ok h')"
proof (intro conjI impI)
  show "header_ok h \<Longrightarrow> fh_deserialize (fh_serialize h @ rest) = Ok h" by (rule fh_roundtrip)
next
  assume d: "fh_deserialize d = Ok h'"
  then have len: "11 \<le> length d" by (simp add: fh_deserialize_def split: if_splits)
  have "be_value (take 4 (drop 1 d)) < 256 ^ 4" "be_value (take 4 (drop 5 d)) < 256 ^ 4"
    "be_value (take 2 (drop 9 d)) < 256 ^ 2"
    using be_value_bound [of "take 4 (drop 1 d)"] be_value_bound [of "take 4 (drop 5 d)"]
      be_value_bound [of "take 2 (drop 9 d)"] len by simp_all
  with d len show "fh_serialize h' = take 11 d" "header_ok h'"
    by (auto simp: fh_deserialize_def fh_serialize_def header_ok_def split_frame be_bytes_be_value' split: if_splits)
qed

theorem frame_header_roundtrip_witness:
  "fh_deserialize (fh_serialize \<lparr> payload_type = 111, ssrc = 305419896, timestamp = 7, sequence_number = 65535 \<rparr> @ [9]) =
     Ok \<lparr> payload_type = 111, ssrc = 305419896, timestamp = 7, sequence_number = 65535 \<rparr>"
  using frame_header_roundtrip [of "\<lparr> payload_type = 111, ssrc = 305419896, timestamp = 7, sequence_number = 65535 \<rparr>" "[9]"]
  by (simp add: header_ok_def)

text \<open>C20. Every admissible media frame can be sealed, and opening it with the same key, nonce
  prefix, counter and associated data returns the frame.\<close>

theorem media_frame_roundtrip:
  assumes "aead_ok P" "length k = 32" "length np = 4" "m \<noteq> []" "length m \<le> MAX_VOIP_FRAME_SIZE"
    "c \<le> MAX_FRAME_COUNTER" "length aad \<le> 2 ^ 36"
  shows "\<exists>ct. encrypt_frame P k np c m aad = Ok ct \<and> decrypt_frame P k np c ct aad = Ok m"
proof -
  have pl: "length (pad_frame m) \<le> 2 ^ 36" using frame_padding.pad_bounds [of m] assms(5) by simp
  have nl: "length (build_nonce np c) = 12" using assms(3) by (simp add: build_nonce_def)
  from aes_gcm_seal [OF assms(1,2) nl pl assms(7)]
  obtain ct where "aes_gcm_encrypt P k (build_nonce np c) (pad_frame m) aad = Ok ct" .
  with assms have "encrypt_frame P k np c m aad = Ok ct" by (simp add: encrypt_frame_def Let_def)
  with decrypt_encrypt_frame [OF assms(1) this assms(7)] show ?thesis by blast
qed

theorem media_frame_roundtrip_witness:
  "\<exists>ct. encrypt_frame sample_prims (zeros 32) [1, 2, 3, 4] 9 [7, 7] [5] = Ok ct \<and>
     decrypt_frame sample_prims (zeros 32) [1, 2, 3, 4] 9 ct [5] = Ok [7, 7]"
  using media_frame_roundtrip [OF sample_aead_ok, of "zeros 32" "[1, 2, 3, 4]" "[7, 7]" 9 "[5]"] by simp

text \<open>Frames of one nonce prefix with different counters use different nonces, and two frames
  whose call ids are equally long have the same associated data only if call, stream, counter and
  generation all agree.\<close>

theorem media_frames_separated:
  assumes "length i = length i'" "s \<le> u32_max" "s' \<le> u32_max" "g \<le> u32_max" "g' \<le> u32_max"
    and "c \<le> MAX_FRAME_COUNTER" "c' \<le> MAX_FRAME_COUNTER"
  shows "(build_nonce np c = build_nonce np c' \<longrightarrow> c = c') \<and>
    (build_frame_aad i s c g = build_frame_aad i' s' c' g' \<longrightarrow> i = i' \<and> s = s' \<and> c = c' \<and> g = g')"
  using assms build_nonce_inject [of np c np c'] by (simp add: build_frame_aad_def be_bytes_inject)

theorem media_frames_separated_witness:
  "build_nonce [1, 2, 3, 4] 5 \<noteq> build_nonce [1, 2, 3, 4] 6 \<and>
   build_frame_aad [8] 1 2 3 \<noteq> build_frame_aad [8] 1 2 4"
  using media_frames_separated [of "[8]" "[8]" 1 1 3 3 5 6 "[1, 2, 3, 4]"]
    media_frames_separated [of "[8]" "[8]" 1 1 3 4 2 2 "[]"] by simp

text \<open>C21. A sender that steps its ratchet up to eight generations ahead and a receiver that starts
  from the same ratchet state agree: the receiver's speculative frame key equals the sender's frame
  key, committing the snapshot brings the receiver to the sender's state, and the speculative
  advance returns the key and state of the step-by-step advance.\<close>

theorem speculative_ratchet_agrees:
  assumes "ratchet_wf P r" "n \<le> MAX_SKIPPED_RATCHET_GENERATIONS" "generation r + n < MAX_RATCHET_GENERATION"
    and "advance_times P n r = (res, s)"
  shows "(\<exists>k snap. res = Ok () \<and> generation s = generation r + n \<and> frame_key P s fc = Ok k \<and>
      speculative_frame_key P r (generation s) fc = Ok (k, snap) \<and> commit_snapshot P r snap = Ok s) \<and>
    (\<exists>k snap r'. advance_to P r (generation s) = (Ok k, r') \<and>
      speculative_advance_to P r (generation s) = Ok (k, snap) \<and> commit_snapshot P r snap = Ok r')"
proof (rule conjI)
  have le: "n \<le> 8" "generation r + n \<le> MAX_RATCHET_GENERATION" using assms(2,3) by simp_all
  from speculative_sync_chain [OF assms(1) le] obtain c where
    c: "advance_times P n r = (Ok (), r\<lparr> chain_key := c, generation := generation r + n \<rparr>)" "length c = 32"
    "sync_loop P (nonce_prefix r) n (chain_key r, generation r) = Ok (c, generation r + n)"
    "speculative_sync_to P r (generation r + n) = Ok \<lparr> chain_bytes = c, snap_generation = generation r + n \<rparr>" .
  have s: "res = Ok ()" "s = r\<lparr> chain_key := c, generation := generation r + n \<rparr>" using assms(4) c(1) by simp_all
  have wf: "hkdf_ok P" "slot_free P 32" "length (chain_key r) = 32" using assms(1) by (auto simp: ratchet_wf_def)
  obtain g nxt where d: "derive_at_generation P c (generation r + n) (nonce_prefix r) = Ok (g, nxt)" "length nxt = 32"
    using derive_at_generation_ok [OF wf(1)] by metis
  obtain fk where "derive_key_bytes P g 32 (le_bytes 8 fc) VOIP_FRAME_KEY_INFO = Ok fk"
    using derive_key_bytes_32 [OF wf(1)] by blast
  with c d s wf show "\<exists>k snap. res = Ok () \<and> generation s = generation r + n \<and> frame_key P s fc = Ok k \<and>
      speculative_frame_key P r (generation s) fc = Ok (k, snap) \<and> commit_snapshot P r snap = Ok s"
    by (simp add: frame_key_def mr_snapshot_def speculative_frame_key_def derive_frame_key_at_generation_def
        commit_snapshot_ok)
  have "new_handle P 32 nxt = Ok nxt" using d wf(2) by (intro new_handle_exact) simp_all
  then show "\<exists>k snap r'. advance_to P r (generation s) = (Ok k, r') \<and>
      speculative_advance_to P r (generation s) = Ok (k, snap) \<and> commit_snapshot P r snap = Ok r'"
    using c d s wf le assms(3)
    by (simp add: advance_to_def speculative_advance_to_def advance_def commit_snapshot_ok)
qed

theorem speculative_ratchet_agrees_witness:
  "\<exists>k snap s. advance_times sample_prims 3 (media_ratchet_new (zeros 32) [1, 2, 3, 4]) = (Ok (), s) \<and>
     frame_key sample_prims s 17 = Ok k \<and>
     speculative_frame_key sample_prims (media_ratchet_new (zeros 32) [1, 2, 3, 4]) 3 17 = Ok (k, snap)"
proof -
  let ?r = "media_ratchet_new (zeros 32) [1, 2, 3, 4]"
  have wf: "ratchet_wf sample_prims ?r" by (simp add: ratchet_wf_def sample_hkdf_ok media_ratchet_new_def)
  obtain res s where a: "advance_times sample_prims 3 ?r = (res, s)" by fastforce
  have g: "generation ?r = 0" by (simp add: media_ratchet_new_def)
  from speculative_ratchet_agrees [OF wf _ _ a, of 17] g a show ?thesis by auto
qed

end
