(* ===== verification/BTree_Map.thy ===== *)
theory BTree_Map
  imports Prelude
begin

text \<open>
  Rust's \<open>BTreeMap\<close> as far as the program uses it: an association list whose keys are
  strictly ascending, with insertion, removal, lookup and \<open>pop_first\<close>. Every operation keeps
  \<open>bt_inv\<close> and is described by its effect on \<open>map_of\<close>. The two eviction loops that the
  bounded key caches run (drop entries while the first key is too old, drop entries while
  there are too many) are here as well, each with a closed form.

  The locale \<open>ordered_map\<close> is the contract the clients rely on; it is interpreted on these
  operations.
\<close>

type_synonym ('k, 'v) btree = "('k \<times> 'v) list"

definition bt_inv :: "('k::linorder, 'v) btree \<Rightarrow> bool" where
  "bt_inv m = sorted_wrt (<) (map fst m)"

fun bt_insert :: "'k::linorder \<Rightarrow> 'v \<Rightarrow> ('k, 'v) btree \<Rightarrow> ('k, 'v) btree" where
  "bt_insert k v [] = [(k, v)]"
| "bt_insert k v ((k', v') # m) =
     (if k < k' then (k, v) # (k', v') # m
      else if k = k' then (k, v) # m
      else (k', v') # bt_insert k v m)"

fun bt_remove :: "'k::linorder \<Rightarrow> ('k, 'v) btree \<Rightarrow> ('k, 'v) btree" where
  "bt_remove k [] = []"
| "bt_remove k ((k', v') # m) = (if k = k' then m else (k', v') # bt_remove k m)"

definition bt_get :: "('k::linorder, 'v) btree \<Rightarrow> 'k \<Rightarrow> 'v option" where
  "bt_get m k = map_of m k"

definition bt_pop_first :: "('k::linorder, 'v) btree \<Rightarrow> ('k, 'v) btree" where
  "bt_pop_first m = tl m"

definition bt_first_key :: "('k::linorder, 'v) btree \<Rightarrow> 'k option" where
  "bt_first_key m = (case m of [] \<Rightarrow> None | (k, _) # _ \<Rightarrow> Some k)"

section \<open>Laws of the operations\<close>

lemma bt_inv_Nil [simp]: "bt_inv []"
  by (simp add: bt_inv_def)

lemma bt_inv_Cons: "bt_inv ((k, v) # m) \<longleftrightarrow> bt_inv m \<and> (\<forall>k'\<in>fst ` set m. k < k')"
  by (auto simp: bt_inv_def)

lemma bt_inv_tl: "bt_inv m \<Longrightarrow> bt_inv (tl m)"
  by (cases m) (auto simp: bt_inv_def)

lemma bt_keys_insert: "fst ` set (bt_insert k v m) = insert k (fst ` set m)"
  by (induction m rule: bt_insert.induct) (auto simp: image_iff)

lemma set_bt_remove: "set (bt_remove k m) \<subseteq> set m"
  by (induction k m rule: bt_remove.induct) auto

lemma bt_inv_insert [simp]: "bt_inv m \<Longrightarrow> bt_inv (bt_insert k v m)"
  by (induction m rule: bt_insert.induct) (auto simp: bt_inv_Cons bt_keys_insert)

lemma bt_inv_remove [simp]: "bt_inv m \<Longrightarrow> bt_inv (bt_remove k m)"
proof (induction k m rule: bt_remove.induct)
  case (2 k k' v' m)
  then show ?case using set_bt_remove [of k m] by (auto simp: bt_inv_Cons)
qed simp

lemma bt_get_map_of: "bt_get m = map_of m"
  by (simp add: fun_eq_iff bt_get_def)

lemma bt_get_Nil [simp]: "bt_get [] k = None"
  by (simp add: bt_get_def)

lemma bt_get_insert [simp]: "bt_get (bt_insert k v m) = (bt_get m)(k \<mapsto> v)"
  by (induction m rule: bt_insert.induct) (auto simp: bt_get_def fun_eq_iff)

lemma bt_get_None: "bt_get m k = None \<longleftrightarrow> k \<notin> fst ` set m"
  by (simp add: bt_get_def map_of_eq_None_iff)

lemma bt_get_remove [simp]: "bt_inv m \<Longrightarrow> bt_get (bt_remove k m) = (bt_get m)(k := None)"
proof (induction k m rule: bt_remove.induct)
  case (2 k k' v' m)
  then have "k' \<notin> fst ` set m" by (auto simp: bt_inv_Cons)
  then have "map_of m k' = None" by (simp add: map_of_eq_None_iff)
  with 2 show ?case by (auto simp: bt_inv_Cons bt_get_def fun_eq_iff)
qed (simp add: bt_get_map_of)

lemma bt_dom_get: "dom (bt_get m) = fst ` set m"
  by (simp add: bt_get_map_of dom_map_of_conv_image_fst)

lemma bt_distinct: "bt_inv m \<Longrightarrow> distinct (map fst m)"
  by (simp add: bt_inv_def strict_sorted_iff)

lemma bt_size_dom: "bt_inv m \<Longrightarrow> length m = card (dom (bt_get m))"
  using distinct_card [of "map fst m"] by (simp add: bt_dom_get bt_distinct)

lemma bt_eq_iff_get: "bt_inv m \<Longrightarrow> bt_inv m' \<Longrightarrow> bt_get m = bt_get m' \<Longrightarrow> m = m'"
proof (induction m arbitrary: m')
  case Nil
  then have "dom (bt_get m') = {}" by (simp add: bt_get_map_of)
  then show ?case by (simp add: bt_dom_get)
next
  case (Cons kv m)
  obtain k v where kv: "kv = (k, v)" by fastforce
  have doms: "fst ` set (kv # m) = fst ` set m'"
    using Cons.prems(3) bt_dom_get by metis
  then obtain k2 v2 n where m': "m' = (k2, v2) # n" by (cases m') auto
  have "k \<in> fst ` set m'" and "k2 \<in> fst ` set (kv # m)"
    using doms by (auto simp: kv m')
  then have "k2 \<le> k" and "k \<le> k2"
    using Cons.prems(1,2) by (auto simp: kv m' bt_inv_Cons)
  then have "k = k2" by simp
  have "v = v2"
    using Cons.prems(3) by (simp add: kv m' bt_get_def \<open>k = k2\<close> fun_eq_iff) (metis option.inject)
  moreover have "bt_get m x = bt_get n x" for x
  proof (cases "x = k")
    case True
    have "bt_get m k = None" "bt_get n k2 = None"
      using Cons.prems(1,2) by (auto simp: kv m' bt_inv_Cons bt_get_None)
    with True \<open>k = k2\<close> show ?thesis by simp
  next
    case False
    with fun_cong [OF Cons.prems(3), of x] show ?thesis
      by (simp add: kv m' bt_get_def \<open>k = k2\<close>)
  qed
  moreover have "bt_inv m" "bt_inv n" using Cons.prems(1,2) by (simp_all add: kv m' bt_inv_Cons)
  ultimately show ?case using Cons.IH [of n] \<open>k = k2\<close> by (auto simp: kv m')
qed

lemma bt_length_insert: "length (bt_insert k v m) \<le> Suc (length m)"
  by (induction m rule: bt_insert.induct) auto

lemma bt_length_remove: "length (bt_remove k m) \<le> length m"
  by (induction k m rule: bt_remove.induct) auto

lemma bt_remove_absent: "bt_get m k = None \<Longrightarrow> bt_remove k m = m"
  by (induction k m rule: bt_remove.induct) (auto simp: bt_get_def split: if_splits)

lemma bt_insert_remove:
  assumes "bt_inv m" and "bt_get m k = Some v"
  shows "bt_insert k v (bt_remove k m) = m"
  using assms by (intro bt_eq_iff_get) (auto simp: fun_eq_iff)

lemma bt_remove_insert:
  assumes "bt_inv m" and "bt_get m k = None"
  shows "bt_remove k (bt_insert k v m) = m"
  using assms by (intro bt_eq_iff_get) (auto simp: fun_eq_iff)

lemma set_bt_insert: "set (bt_insert k v m) \<subseteq> insert (k, v) (set m)"
  by (induction m rule: bt_insert.induct) auto

section \<open>The contract of an ordered map\<close>

locale ordered_map =
  fixes ins :: "'k::linorder \<Rightarrow> 'v \<Rightarrow> 'm \<Rightarrow> 'm"
    and del :: "'k \<Rightarrow> 'm \<Rightarrow> 'm"
    and lookup :: "'m \<Rightarrow> 'k \<Rightarrow> 'v option"
    and invar :: "'m \<Rightarrow> bool"
  assumes lookup_ins: "invar m \<Longrightarrow> lookup (ins k v m) = (lookup m)(k \<mapsto> v)"
    and lookup_del: "invar m \<Longrightarrow> lookup (del k m) = (lookup m)(k := None)"
    and invar_ins: "invar m \<Longrightarrow> invar (ins k v m)"
    and invar_del: "invar m \<Longrightarrow> invar (del k m)"
begin

text \<open>A key that was taken out is gone until it is put back.\<close>

lemma take_once: "invar m \<Longrightarrow> lookup (del k m) k = None"
  by (simp add: lookup_del)

text \<open>Inserting a run of keys: every key of the run is found, every other is untouched.\<close>

lemma lookup_fold_ins:
  assumes "invar m" and "distinct (map fst kvs)"
  shows "lookup (fold (\<lambda>(k, v). ins k v) kvs m) k
      = (case map_of kvs k of None \<Rightarrow> lookup m k | Some v \<Rightarrow> Some v)"
  using assms
proof (induction kvs arbitrary: m)
  case Nil
  then show ?case by simp
next
  case (Cons kv kvs)
  obtain a b where kv: "kv = (a, b)" by fastforce
  have "map_of kvs a = None"
    using Cons.prems(2) by (simp add: kv map_of_eq_None_iff)
  with Cons.IH [of "ins a b m"] Cons.prems show ?case
    by (auto simp: kv invar_ins lookup_ins split: option.splits)
qed

lemma invar_fold_ins: "invar m \<Longrightarrow> invar (fold (\<lambda>(k, v). ins k v) kvs m)"
  by (induction kvs arbitrary: m) (auto simp: invar_ins)

end

interpretation bt: ordered_map bt_insert bt_remove bt_get bt_inv
  by unfold_locales simp_all

section \<open>Removal as filtering\<close>

lemma bt_remove_filter: "bt_inv m \<Longrightarrow> bt_remove k m = filter (\<lambda>kv. fst kv \<noteq> k) m"
proof (induction k m rule: bt_remove.induct)
  case (2 k k' v' m)
  then have inv: "bt_inv m" and gt: "\<forall>x \<in> fst ` set m. k' < x" by (auto simp: bt_inv_Cons)
  have "k = k' \<Longrightarrow> filter (\<lambda>kv. fst kv \<noteq> k) m = m" using gt by (auto simp: filter_id_conv)
  then show ?case using 2 inv by auto
qed simp

lemma bt_inv_filter: "bt_inv m \<Longrightarrow> bt_inv (filter Q m)"
  by (simp add: bt_inv_def sorted_wrt_map sorted_wrt_filter)

lemma bt_remove_fold: "bt_inv m \<Longrightarrow> fold bt_remove ks m = filter (\<lambda>kv. fst kv \<notin> set ks) m"
  by (induction ks arbitrary: m) (auto simp: bt_remove_filter bt_inv_filter intro: filter_cong)

section \<open>Eviction\<close>

text \<open>\<open>while first key is too old { pop_first }\<close>.\<close>

fun evict_while :: "('k \<Rightarrow> bool) \<Rightarrow> ('k::linorder, 'v) btree \<Rightarrow> ('k, 'v) btree" where
  "evict_while old [] = []"
| "evict_while old ((k, v) # m) = (if old k then evict_while old m else (k, v) # m)"

text \<open>\<open>while len + needed > limit { pop_first }\<close>, which also stops on the empty map.\<close>

fun evict_to :: "nat \<Rightarrow> nat \<Rightarrow> ('k::linorder, 'v) btree \<Rightarrow> ('k, 'v) btree" where
  "evict_to needed limit [] = []"
| "evict_to needed limit (kv # m) =
     (if length (kv # m) + needed > limit then evict_to needed limit m else kv # m)"

lemma evict_while_inv: "bt_inv m \<Longrightarrow> bt_inv (evict_while old m)"
  by (induction old m rule: evict_while.induct) (auto simp: bt_inv_Cons)

lemma evict_while_filter:
  assumes "bt_inv m" and "\<And>a b. a \<le> b \<Longrightarrow> old b \<Longrightarrow> old a"
  shows "evict_while old m = filter (\<lambda>kv. \<not> old (fst kv)) m"
  using assms
proof (induction old m rule: evict_while.induct)
  case (2 old k v m)
  show ?case
  proof (cases "old k")
    case True
    with 2 show ?thesis by (simp add: bt_inv_Cons)
  next
    case False
    have "\<forall>kv\<in>set m. \<not> old (fst kv)"
    proof
      fix kv assume "kv \<in> set m"
      with 2(2) have "k < fst kv" by (auto simp: bt_inv_Cons)
      then have "k \<le> fst kv" by simp
      with False 2(3) show "\<not> old (fst kv)" by blast
    qed
    then have "filter (\<lambda>kv. \<not> old (fst kv)) m = m" by (simp add: filter_id_conv)
    with False show ?thesis by simp
  qed
qed simp

lemma evict_to_drop: "evict_to needed limit m = drop (length m + needed - limit) m"
proof (induction needed limit m rule: evict_to.induct)
  case (2 needed limit kv m)
  show ?case
  proof (cases "length (kv # m) + needed > limit")
    case True
    then have "length (kv # m) + needed - limit = Suc (length m + needed - limit)" by simp
    then have "drop (length (kv # m) + needed - limit) (kv # m) = drop (length m + needed - limit) m"
      by (simp del: length_Cons)
    with True 2 show ?thesis by simp
  qed simp
qed simp

lemma bt_inv_drop: "bt_inv m \<Longrightarrow> bt_inv (drop n m)"
  by (simp add: bt_inv_def drop_map [symmetric] sorted_wrt_drop)

lemma evict_to_inv: "bt_inv m \<Longrightarrow> bt_inv (evict_to needed limit m)"
  by (simp add: evict_to_drop bt_inv_drop)

lemma evict_to_length: "needed \<le> limit \<Longrightarrow> length (evict_to needed limit m) + needed \<le> limit"
  by (simp add: evict_to_drop)

lemma evict_to_id: "length m + needed \<le> limit \<Longrightarrow> evict_to needed limit m = m"
  by (simp add: evict_to_drop)

lemma evict_while_length: "length (evict_while old m) \<le> length m"
  by (induction old m rule: evict_while.induct) auto

lemma evict_while_subset: "set (evict_while old m) \<subseteq> set m"
  by (induction old m rule: evict_while.induct) auto

lemma evict_to_subset: "set (evict_to needed limit m) \<subseteq> set m"
  by (simp add: evict_to_drop set_drop_subset)

lemma bt_get_subset:
  assumes "bt_inv m'" "set m \<subseteq> set m'" "bt_get m k = Some v"
  shows "bt_get m' k = Some v"
  using assms map_of_SomeD [of m k v] bt_distinct [of m'] by (auto simp: bt_get_def)

lemmas evict_laws = evict_while_inv evict_to_inv evict_to_length evict_while_length

end
