(* ===== verification/Master_Key.thy ===== *)
theory Master_Key
  imports Sample_Prims
begin

text \<open>
  Derivation of identity seeds from a master key (\<^verbatim>\<open>crypto/master_key_derivation.rs\<close>). The
  derivation input frames the context label and the membership id with 16-bit lengths. It is
  shown which input each derivation expands, and that the inputs of two derivations are the same
  only for the same kind of seed and the same member.
\<close>

definition MKD_LABEL :: bytes where
  "MKD_LABEL = ascii ''aura-mkd''"

definition MAX_OUTPUT_BYTES :: nat where
  [simp]: "MAX_OUTPUT_BYTES = 64"

definition mkd_info :: "bytes \<Rightarrow> bytes \<Rightarrow> bytes" where
  "mkd_info context_string membership_id =
     le_bytes 2 (length context_string) @ context_string @
     le_bytes 2 (length membership_id) @ membership_id"

definition mkd_derive :: "prims \<Rightarrow> bytes \<Rightarrow> bytes \<Rightarrow> bytes \<Rightarrow> nat \<Rightarrow> bytes pres" where
  "mkd_derive P master_key context_string membership_id out_len =
     (if length master_key < MIN_MASTER_KEY_BYTES then
        Err (DeriveKey ''Master key must be at least 32 bytes'')
      else if out_len = 0 \<or> out_len > MAX_OUTPUT_BYTES then
        Err (DeriveKey ''Invalid output length: {out_len}'')
      else if length context_string > u16_max then
        Err (InvalidInput ''Context string too long (max 65535 bytes)'')
      else if length membership_id > u16_max then
        Err (InvalidInput ''Membership ID too long (max 65535 bytes)'')
      else hkdf_expand P (hkdf_extract P MKD_LABEL master_key) (mkd_info context_string membership_id) out_len)"

definition derive_ed25519_seed :: "prims \<Rightarrow> bytes \<Rightarrow> bytes \<Rightarrow> bytes pres" where
  "derive_ed25519_seed P master_key membership_id =
     mkd_derive P master_key MKD_ED25519_INFO membership_id X25519_PRIVATE_KEY_BYTES"

definition derive_x25519_seed :: "prims \<Rightarrow> bytes \<Rightarrow> bytes \<Rightarrow> bytes pres" where
  "derive_x25519_seed P master_key membership_id =
     mkd_derive P master_key MKD_X25519_INFO membership_id X25519_PRIVATE_KEY_BYTES"

definition derive_signed_pre_key_seed :: "prims \<Rightarrow> bytes \<Rightarrow> bytes \<Rightarrow> bytes pres" where
  "derive_signed_pre_key_seed P master_key membership_id =
     mkd_derive P master_key MKD_SIGNED_PRE_KEY_INFO membership_id X25519_PRIVATE_KEY_BYTES"

text \<open>Decimal digits, as \<open>format!\<close> prints an unsigned integer.\<close>

fun decimal :: "nat \<Rightarrow> bytes" where
  "decimal n = (if n < 10 then [word_of_nat (48 + n)] else decimal (n div 10) @ [word_of_nat (48 + n mod 10)])"

declare decimal.simps [simp del]

definition opk_label :: "nat \<Rightarrow> bytes" where
  "opk_label index = MKD_OPK_PREFIX @ decimal index"

definition derive_one_time_pre_key_seed :: "prims \<Rightarrow> bytes \<Rightarrow> bytes \<Rightarrow> nat \<Rightarrow> bytes pres" where
  "derive_one_time_pre_key_seed P master_key membership_id index =
     mkd_derive P master_key (opk_label index) membership_id X25519_PRIVATE_KEY_BYTES"

definition derive_kyber_seed :: "prims \<Rightarrow> bytes \<Rightarrow> bytes \<Rightarrow> bytes pres" where
  "derive_kyber_seed P master_key membership_id =
     (if length master_key < MIN_MASTER_KEY_BYTES then
        Err (DeriveKey ''Master key must be at least 32 bytes for Kyber seed derivation'')
      else
        res_bind (mkd_derive P master_key MKD_KYBER_SEED_1_INFO membership_id KYBER_SEED_KEY_BYTES) (\<lambda>seed.
        res_bind (mkd_derive P master_key MKD_KYBER_SEED_2_INFO membership_id KYBER_SEED_KEY_BYTES) (\<lambda>seed2.
          Ok (seed @ seed2))))"

section \<open>Separation of the derivation inputs\<close>

lemma mkd_info_inject:
  assumes "length c \<le> u16_max" "length c' \<le> u16_max" "length m \<le> u16_max" "length m' \<le> u16_max"
  shows "mkd_info c m = mkd_info c' m' \<longleftrightarrow> c = c' \<and> m = m'"
proof
  assume eq: "mkd_info c m = mkd_info c' m'"
  then have "le_bytes 2 (length c) = le_bytes 2 (length c')"
    unfolding mkd_info_def by (metis append_eq_append_conv length_le_bytes)
  then have "length c = length c'" using assms by (subst (asm) le_bytes_inject) simp_all
  with eq show "c = c' \<and> m = m'" by (simp add: mkd_info_def)
qed simp

fun dec_value :: "bytes \<Rightarrow> nat \<Rightarrow> nat" where
  "dec_value [] acc = acc"
| "dec_value (b # bs) acc = dec_value bs (acc * 10 + (unat b - 48))"

lemma dec_value_append: "dec_value (xs @ ys) acc = dec_value ys (dec_value xs acc)"
  by (induction xs arbitrary: acc) auto

lemma dec_value_decimal: "dec_value (decimal n) 0 = n"
proof (induction n rule: decimal.induct)
  case (1 n)
  have u: "unat (word_of_nat (48 + d) :: u8) = 48 + d" if "d < 10" for d
    using that by (intro unat_word_of_nat) simp
  show ?case
  proof (cases "n < 10")
    case True
    then show ?thesis using u [of n] by (subst decimal.simps) simp
  next
    case False
    then show ?thesis using 1 u [of "n mod 10"] by (subst decimal.simps) (simp add: dec_value_append)
  qed
qed

lemma decimal_inject: "decimal m = decimal n \<longleftrightarrow> m = n"
  by (metis dec_value_decimal)

lemma opk_label_inject: "opk_label i = opk_label j \<longleftrightarrow> i = j"
  by (simp add: opk_label_def decimal_inject)

text \<open>The kinds of seed, and the derivation of the code that yields each: a Kyber seed consists of two
  parts of 32 bytes. The label of a kind is a specification; that the derivations use it is proved
  below.\<close>

datatype seed_kind =
    Ed25519Seed
  | X25519Seed
  | SignedPreKeySeed
  | OneTimePreKeySeed nat
  | KyberSeedFirst
  | KyberSeedSecond

fun kind_ok :: "seed_kind \<Rightarrow> bool" where
  "kind_ok (OneTimePreKeySeed index) = (index \<le> u32_max)"
| "kind_ok _ = True"

fun derived_seed :: "prims \<Rightarrow> bytes \<Rightarrow> bytes \<Rightarrow> seed_kind \<Rightarrow> bytes pres" where
  "derived_seed P mk m Ed25519Seed = derive_ed25519_seed P mk m"
| "derived_seed P mk m X25519Seed = derive_x25519_seed P mk m"
| "derived_seed P mk m SignedPreKeySeed = derive_signed_pre_key_seed P mk m"
| "derived_seed P mk m (OneTimePreKeySeed index) = derive_one_time_pre_key_seed P mk m index"
| "derived_seed P mk m KyberSeedFirst = res_bind (derive_kyber_seed P mk m) (\<lambda>s. Ok (take 32 s))"
| "derived_seed P mk m KyberSeedSecond = res_bind (derive_kyber_seed P mk m) (\<lambda>s. Ok (drop 32 s))"

fun seed_label :: "seed_kind \<Rightarrow> bytes" where
  "seed_label Ed25519Seed = MKD_ED25519_INFO"
| "seed_label X25519Seed = MKD_X25519_INFO"
| "seed_label SignedPreKeySeed = MKD_SIGNED_PRE_KEY_INFO"
| "seed_label (OneTimePreKeySeed index) = opk_label index"
| "seed_label KyberSeedFirst = MKD_KYBER_SEED_1_INFO"
| "seed_label KyberSeedSecond = MKD_KYBER_SEED_2_INFO"

definition seed_input :: "seed_kind \<Rightarrow> bytes \<Rightarrow> bytes" where
  "seed_input k m = mkd_info (seed_label k) m"

lemmas label_defs = MKD_ED25519_INFO_def MKD_X25519_INFO_def MKD_SIGNED_PRE_KEY_INFO_def
  MKD_KYBER_SEED_1_INFO_def MKD_KYBER_SEED_2_INFO_def MKD_OPK_PREFIX_def

lemma opk_label_prefix: "take 9 (opk_label i) = MKD_OPK_PREFIX"
  by (simp add: opk_label_def MKD_OPK_PREFIX_def ascii_def)

lemma opk_label_not_fixed:
  assumes "seed_label k = opk_label i"
  shows "k = OneTimePreKeySeed i"
  using assms opk_label_prefix [of i] by (cases k) (auto simp: opk_label_inject label_defs ascii_def dest: arg_cong [where f = "take 9"])

lemma seed_label_inject: "seed_label k = seed_label k' \<longleftrightarrow> k = k'"
proof (cases k)
  case (OneTimePreKeySeed i)
  then show ?thesis using opk_label_not_fixed [of k' i] by auto
next
  case Ed25519Seed
  then show ?thesis using opk_label_not_fixed [of k] by (cases k') (auto simp: label_defs ascii_def)
next
  case X25519Seed
  then show ?thesis using opk_label_not_fixed [of k] by (cases k') (auto simp: label_defs ascii_def)
next
  case SignedPreKeySeed
  then show ?thesis using opk_label_not_fixed [of k] by (cases k') (auto simp: label_defs ascii_def)
next
  case KyberSeedFirst
  then show ?thesis using opk_label_not_fixed [of k] by (cases k') (auto simp: label_defs ascii_def)
next
  case KyberSeedSecond
  then show ?thesis using opk_label_not_fixed [of k] by (cases k') (auto simp: label_defs ascii_def)
qed

lemma decimal_length: "n < 10 ^ Suc k \<Longrightarrow> length (decimal n) \<le> Suc k"
proof (induction k arbitrary: n)
  case 0
  then show ?case by (subst decimal.simps) simp
next
  case (Suc k)
  have "n div 10 < 10 ^ Suc k" using Suc.prems by (simp add: less_mult_imp_div_less)
  with Suc.IH show ?case by (subst decimal.simps) simp
qed

lemma mkd_derive_ok:
  assumes "hkdf_ok P" "32 \<le> length mk" "0 < n" "n \<le> 64" "length c \<le> u16_max" "length m \<le> u16_max"
  shows "\<exists>okm. mkd_derive P mk c m n = Ok okm \<and> length okm = n"
proof -
  have "32 \<le> length (hkdf_extract P MKD_LABEL mk)" using hkdf_extract_length [OF assms(1)] by simp
  then obtain okm where "hkdf_expand P (hkdf_extract P MKD_LABEL mk) (mkd_info c m) n = Ok okm" "length okm = n"
    using hkdf_expand_ok [OF assms(1), of "hkdf_extract P MKD_LABEL mk" n "mkd_info c m"] assms(3,4) by auto
  with assms show ?thesis by (simp add: mkd_derive_def)
qed

lemma seed_label_length: "kind_ok k \<Longrightarrow> length (seed_label k) \<le> u16_max"
proof (cases k)
  case (OneTimePreKeySeed i)
  then show "kind_ok k \<Longrightarrow> ?thesis" using decimal_length [of i 9] by (simp add: opk_label_def MKD_OPK_PREFIX_def)
qed (simp_all add: label_defs)

lemma seed_input_inject:
  assumes "kind_ok k" "kind_ok k'" "length m \<le> u16_max" "length m' \<le> u16_max"
  shows "seed_input k m = seed_input k' m' \<longleftrightarrow> k = k' \<and> m = m'"
  using assms by (simp add: seed_input_def mkd_info_inject seed_label_length seed_label_inject)

lemma mkd_derive_expand:
  assumes "32 \<le> length mk" "length c \<le> u16_max" "length m \<le> u16_max"
  shows "mkd_derive P mk c m 32 = hkdf_expand P (hkdf_extract P MKD_LABEL mk) (mkd_info c m) 32"
  using assms by (simp add: mkd_derive_def)

lemma derive_kyber_seed_parts:
  assumes "hkdf_ok P" "32 \<le> length mk" "length m \<le> u16_max"
  obtains s1 s2 where "derive_kyber_seed P mk m = Ok (s1 @ s2)" "length s1 = 32" "length s2 = 32"
    "mkd_derive P mk MKD_KYBER_SEED_1_INFO m 32 = Ok s1" "mkd_derive P mk MKD_KYBER_SEED_2_INFO m 32 = Ok s2"
proof -
  have "length MKD_KYBER_SEED_1_INFO \<le> u16_max" "length MKD_KYBER_SEED_2_INFO \<le> u16_max" by (simp_all add: label_defs)
  with assms obtain s1 s2 where "mkd_derive P mk MKD_KYBER_SEED_1_INFO m 32 = Ok s1" "length s1 = 32"
    "mkd_derive P mk MKD_KYBER_SEED_2_INFO m 32 = Ok s2" "length s2 = 32"
    using mkd_derive_ok [of P mk 32 _ m] by (metis order_refl zero_less_numeral numeral_le_iff semiring_norm(68,69,70,71,72))
  with assms that show ?thesis by (simp add: derive_kyber_seed_def)
qed

lemma derived_seed_expand:
  assumes "hkdf_ok P" "32 \<le> length mk" "length m \<le> u16_max" "kind_ok k"
  shows "derived_seed P mk m k = hkdf_expand P (hkdf_extract P MKD_LABEL mk) (seed_input k m) 32"
proof -
  have e: "mkd_derive P mk (seed_label k) m 32 = hkdf_expand P (hkdf_extract P MKD_LABEL mk) (seed_input k m) 32"
    using mkd_derive_expand [OF assms(2) seed_label_length [OF assms(4)] assms(3)] by (simp add: seed_input_def)
  obtain s1 s2 where "derive_kyber_seed P mk m = Ok (s1 @ s2)" "length s1 = 32" "length s2 = 32"
    "mkd_derive P mk MKD_KYBER_SEED_1_INFO m 32 = Ok s1" "mkd_derive P mk MKD_KYBER_SEED_2_INFO m 32 = Ok s2"
    by (rule derive_kyber_seed_parts [OF assms(1-3)])
  then show ?thesis unfolding e [symmetric]
    by (cases k) (simp_all add: derive_ed25519_seed_def derive_x25519_seed_def derive_signed_pre_key_seed_def derive_one_time_pre_key_seed_def)
qed

section \<open>Properties\<close>

text \<open>C26. Separation of the seeds of one master key. Each derivation, and each half of the Kyber derivation, is
  the HKDF expansion of one input under the key extracted from the master key, and two derivations
  have the same input only if they are of the same kind (and index) for the same member. So unless
  HKDF maps their two different inputs to the same 32 bytes, two derivations of different kinds,
  indices or members yield different seeds.\<close>

theorem mkd_inputs_separated:
  assumes "hkdf_ok P" "32 \<le> length mk" "length m \<le> u16_max" "length m' \<le> u16_max" "kind_ok k" "kind_ok k'"
  shows "let expand = (\<lambda>info. hkdf_expand P (hkdf_extract P MKD_LABEL mk) info 32) in
    derived_seed P mk m k = expand (seed_input k m) \<and>
    (seed_input k m = seed_input k' m' \<longleftrightarrow> k = k' \<and> m = m') \<and>
    (inj_on expand {seed_input k m, seed_input k' m'} \<longrightarrow>
      (derived_seed P mk m k = derived_seed P mk m' k' \<longleftrightarrow> k = k' \<and> m = m'))"
  using derived_seed_expand [OF assms(1-3,5)] derived_seed_expand [OF assms(1,2,4,6)] seed_input_inject [OF assms(5,6,3,4)]
  by (auto simp: Let_def)

text \<open>An instance whose expansion depends on its input.\<close>

definition info_prims :: prims where
  "info_prims = sample_prims\<lparr> hkdf_prf_expand := (\<lambda>p i n. Some (fill n i)) \<rparr>"

lemma info_prims_ok: "hkdf_ok info_prims"
  by (simp add: hkdf_ok_def info_prims_def sample_prims_def)

theorem mkd_inputs_separated_witness:
  "derive_ed25519_seed info_prims (zeros 32) [7] \<noteq> derive_x25519_seed info_prims (zeros 32) [7] \<and>
   derive_one_time_pre_key_seed info_prims (zeros 32) [7] 1 \<noteq> derive_one_time_pre_key_seed info_prims (zeros 32) [7] 10"
proof -
  let ?e = "\<lambda>info. hkdf_expand info_prims (hkdf_extract info_prims MKD_LABEL (zeros 32)) info 32"
  have e: "?e x = Ok (fill 32 x)" for x
    by (simp add: hkdf_expand_def hkdf_extract_def info_prims_def sample_prims_def)
  have "inj_on ?e {seed_input Ed25519Seed [7], seed_input X25519Seed [7]}"
    unfolding e by (simp add: inj_on_def seed_input_def mkd_info_def label_defs ascii_def fill_def)
  moreover have "inj_on ?e {seed_input (OneTimePreKeySeed 1) [7], seed_input (OneTimePreKeySeed 10) [7]}"
    unfolding e by (simp add: inj_on_def seed_input_def mkd_info_def opk_label_def decimal.simps label_defs ascii_def fill_def le_bytes_inject)
  ultimately show ?thesis
    using mkd_inputs_separated [OF info_prims_ok, of "zeros 32" "[7]" "[7]" Ed25519Seed X25519Seed]
      mkd_inputs_separated [OF info_prims_ok, of "zeros 32" "[7]" "[7]" "OneTimePreKeySeed 1" "OneTimePreKeySeed 10"]
    by (simp add: Let_def) metis
qed

text \<open>C27. With a master key of at least 32 bytes and a membership id that fits its length field,
  every seed is derived and has its length. The Kyber seed has 64 bytes, of which the key
  generation uses the first 32 only: the part derived under the second label has no effect.\<close>

theorem mkd_seeds_total:
  assumes "hkdf_ok P" "32 \<le> length mk" "length m \<le> u16_max" "i \<le> u32_max"
  shows "(\<exists>s. derive_ed25519_seed P mk m = Ok s \<and> length s = 32) \<and>
    (\<exists>s. derive_x25519_seed P mk m = Ok s \<and> length s = 32) \<and>
    (\<exists>s. derive_signed_pre_key_seed P mk m = Ok s \<and> length s = 32) \<and>
    (\<exists>s. derive_one_time_pre_key_seed P mk m i = Ok s \<and> length s = 32) \<and>
    (\<exists>s. derive_kyber_seed P mk m = Ok s \<and> length s = 64 \<and>
      kyber_generate_keypair_from_seed P s = kyber_generate_keypair_from_seed P (take 32 s))"
proof -
  have d: "\<exists>okm. mkd_derive P mk (seed_label k) m 32 = Ok okm \<and> length okm = 32" if "kind_ok k" for k
    using assms seed_label_length [OF that] by (intro mkd_derive_ok) simp_all
  obtain s1 s2 where "derive_kyber_seed P mk m = Ok (s1 @ s2)" "length s1 = 32" "length s2 = 32"
    by (rule derive_kyber_seed_parts [OF assms(1-3)])
  then show ?thesis
    using d [of Ed25519Seed] d [of X25519Seed] d [of SignedPreKeySeed] d [of "OneTimePreKeySeed i"] assms(4)
    by (simp add: derive_ed25519_seed_def derive_x25519_seed_def derive_signed_pre_key_seed_def
        derive_one_time_pre_key_seed_def kyber_generate_keypair_from_seed_def)
qed

theorem mkd_seeds_total_witness:
  "\<exists>s. derive_kyber_seed sample_prims (zeros 32) [3] = Ok s \<and> length s = 64"
  using mkd_seeds_total [OF sample_hkdf_ok, of "zeros 32" "[3]" 0] by auto

end
