(* ===== verification/Key_Schedule.thy ===== *)
theory Key_Schedule
  imports Sample_Prims
begin

text \<open>
  The key schedule of a group epoch (\<^verbatim>\<open>protocol/group/key_schedule.rs\<close>): epoch secret and
  sub-keys, sender key bases, the group context hash, external key pairs, the injection of a
  pre-shared key and the confirmation tag. Shown here: with the documented behaviour of HKDF
  every derivation succeeds with keys of the right size, the hash input of the group context
  determines the context, and the sender key inputs are separated.
\<close>

record epoch_keys =
  epoch_secret :: bytes
  metadata_key :: bytes
  welcome_key :: bytes
  confirmation_key :: bytes
  init_secret :: bytes

definition derive_sub_key :: "prims \<Rightarrow> bytes \<Rightarrow> bytes \<Rightarrow> nat \<Rightarrow> bool \<Rightarrow> bytes pres" where
  "derive_sub_key P epoch_sec info n enhanced =
     (if enhanced then
        res_bind (hkdf_expand P epoch_sec (info @ GROUP_ENHANCED_KDF_PASS1) n) (\<lambda>intermediate.
          hkdf_expand P intermediate (info @ GROUP_ENHANCED_KDF_PASS2) n)
      else hkdf_expand P epoch_sec info n)"

definition derive_sub_keys_from_epoch_secret_ex :: "prims \<Rightarrow> bytes \<Rightarrow> bool \<Rightarrow> epoch_keys pres" where
  "derive_sub_keys_from_epoch_secret_ex P epoch_sec enhanced =
     res_bind (derive_sub_key P epoch_sec GROUP_METADATA_KEY_INFO METADATA_KEY_BYTES enhanced) (\<lambda>mk.
     res_bind (derive_sub_key P epoch_sec GROUP_WELCOME_KEY_INFO WELCOME_KEY_BYTES enhanced) (\<lambda>wk.
     res_bind (derive_sub_key P epoch_sec GROUP_CONFIRM_KEY_INFO CONFIRMATION_KEY_BYTES enhanced) (\<lambda>ck.
     res_bind (derive_sub_key P epoch_sec GROUP_INIT_SECRET_INFO INIT_SECRET_BYTES enhanced) (\<lambda>is.
       Ok \<lparr> epoch_secret = epoch_sec, metadata_key = mk, welcome_key = wk, confirmation_key = ck, init_secret = is \<rparr>))))"

definition derive_sub_keys_from_epoch_secret :: "prims \<Rightarrow> bytes \<Rightarrow> epoch_keys pres" where
  "derive_sub_keys_from_epoch_secret P epoch_sec = derive_sub_keys_from_epoch_secret_ex P epoch_sec True"

definition derive_epoch_keys :: "prims \<Rightarrow> bytes \<Rightarrow> bytes \<Rightarrow> bytes \<Rightarrow> bool \<Rightarrow> epoch_keys pres" where
  "derive_epoch_keys P prev_init_secret commit_secret group_context_hash enhanced =
     (let joiner_secret = hkdf_extract P prev_init_secret commit_secret
      in res_bind (hkdf_expand P joiner_secret (GROUP_EPOCH_SECRET_INFO @ group_context_hash) EPOCH_SECRET_BYTES)
           (\<lambda>es. derive_sub_keys_from_epoch_secret_ex P es enhanced))"

definition derive_joiner_secret :: "prims \<Rightarrow> bytes \<Rightarrow> bytes \<Rightarrow> bytes" where
  "derive_joiner_secret P prev_init_secret commit_secret = hkdf_extract P prev_init_secret commit_secret"

definition sender_key_info :: "nat \<Rightarrow> bytes \<Rightarrow> bytes" where
  "sender_key_info leaf_index group_context_hash = GROUP_SENDER_KEY_INFO @ le_bytes 4 leaf_index @ group_context_hash"

definition derive_sender_key_base :: "prims \<Rightarrow> bytes \<Rightarrow> nat \<Rightarrow> bytes \<Rightarrow> bytes pres" where
  "derive_sender_key_base P epoch_sec leaf_index group_context_hash =
     hkdf_expand P epoch_sec (sender_key_info leaf_index group_context_hash) SENDER_KEY_BASE_BYTES"

definition group_context_bytes :: "bytes \<Rightarrow> nat \<Rightarrow> bytes \<Rightarrow> bytes \<Rightarrow> bytes" where
  "group_context_bytes group_id epoch tree_hash policy_bytes =
     len_prefixed group_id @ le_bytes 8 epoch @ len_prefixed tree_hash @ len_prefixed policy_bytes"

definition compute_group_context_hash :: "prims \<Rightarrow> bytes \<Rightarrow> nat \<Rightarrow> bytes \<Rightarrow> bytes \<Rightarrow> bytes" where
  "compute_group_context_hash P group_id epoch tree_hash policy_bytes =
     sha256 P (group_context_bytes group_id epoch tree_hash policy_bytes)"

definition derive_external_keypairs :: "prims \<Rightarrow> bytes \<Rightarrow> (handle \<times> bytes \<times> handle \<times> bytes) pres" where
  "derive_external_keypairs P init_sec =
     res_bind (hkdf_expand P init_sec GROUP_EXTERNAL_PUB_X25519_INFO X25519_PRIVATE_KEY_BYTES) (\<lambda>seed.
     let x25519_seed = clamp seed
     in if length x25519_seed \<noteq> X25519_PRIVATE_KEY_BYTES then
          Err (GroupProtocol ''External X25519 seed has wrong length'')
        else
          let x25519_pub = x25519_public P x25519_seed
          in res_bind (map_err CryptoErr (new_handle P X25519_PRIVATE_KEY_BYTES x25519_seed)) (\<lambda>x25519_handle.
             res_bind (hkdf_expand P init_sec GROUP_EXTERNAL_PUB_KYBER_INFO KYBER_SEED_KEY_BYTES) (\<lambda>kyber_seed.
             res_bind (map_err CryptoErr (kyber_generate_keypair_from_seed P kyber_seed)) (\<lambda>(kyber_secret, kyber_public).
               Ok (x25519_handle, x25519_pub, kyber_secret, kyber_public)))))"

definition inject_psk :: "prims \<Rightarrow> bytes \<Rightarrow> bytes \<Rightarrow> bytes \<Rightarrow> bytes pres" where
  "inject_psk P epoch_sec psk psk_nonce =
     (let psk_input = hkdf_extract P psk_nonce psk;
          extracted = hkdf_extract P epoch_sec psk_input
      in res_bind (hkdf_expand P extracted GROUP_PSK_EXTRACT_INFO EPOCH_SECRET_BYTES) (\<lambda>intermediate.
           hkdf_expand P intermediate GROUP_PSK_SECRET_INFO EPOCH_SECRET_BYTES))"

definition compute_confirmation_mac :: "prims \<Rightarrow> bytes \<Rightarrow> bytes \<Rightarrow> bytes pres" where
  "compute_confirmation_mac P conf_key group_context_hash =
     ok_or (GroupProtocol ''HMAC init failed: {e}'') (hmac_sha256 P conf_key group_context_hash)"

section \<open>Totality\<close>

definition epoch_keys_wf :: "epoch_keys \<Rightarrow> bool" where
  "epoch_keys_wf k \<longleftrightarrow> length (epoch_secret k) = 32 \<and> length (metadata_key k) = 32 \<and> length (welcome_key k) = 32 \<and>
     length (confirmation_key k) = 32 \<and> length (init_secret k) = 32"

lemma hkdf_expand_32: "hkdf_ok P \<Longrightarrow> 32 \<le> length prk \<Longrightarrow> \<exists>okm. hkdf_expand P prk info 32 = Ok okm \<and> length okm = 32"
  by (rule hkdf_expand_ok [of P prk 32 info]) auto

lemma derive_sub_key_32:
  assumes "hkdf_ok P" "length es = 32"
  shows "\<exists>k. derive_sub_key P es info 32 enhanced = Ok k \<and> length k = 32"
proof -
  obtain i where i: "hkdf_expand P es (info @ GROUP_ENHANCED_KDF_PASS1) 32 = Ok i" "length i = 32"
    using hkdf_expand_32 [OF assms(1), of es] assms(2) by fastforce
  obtain k where "hkdf_expand P i (info @ GROUP_ENHANCED_KDF_PASS2) 32 = Ok k" "length k = 32"
    using hkdf_expand_32 [OF assms(1), of i] i(2) by fastforce
  moreover obtain k' where "hkdf_expand P es info 32 = Ok k'" "length k' = 32"
    using hkdf_expand_32 [OF assms(1), of es] assms(2) by fastforce
  ultimately show ?thesis using i by (simp add: derive_sub_key_def)
qed

lemma derive_sub_keys_ok:
  assumes "hkdf_ok P" "length es = 32"
  shows "\<exists>k. derive_sub_keys_from_epoch_secret_ex P es enhanced = Ok k \<and> epoch_keys_wf k \<and> epoch_secret k = es"
proof -
  note d = derive_sub_key_32 [OF assms, of _ enhanced]
  obtain a b c i where "derive_sub_key P es GROUP_METADATA_KEY_INFO 32 enhanced = Ok a" "length a = 32"
    "derive_sub_key P es GROUP_WELCOME_KEY_INFO 32 enhanced = Ok b" "length b = 32"
    "derive_sub_key P es GROUP_CONFIRM_KEY_INFO 32 enhanced = Ok c" "length c = 32"
    "derive_sub_key P es GROUP_INIT_SECRET_INFO 32 enhanced = Ok i" "length i = 32"
    using d [of GROUP_METADATA_KEY_INFO] d [of GROUP_WELCOME_KEY_INFO] d [of GROUP_CONFIRM_KEY_INFO]
      d [of GROUP_INIT_SECRET_INFO] by blast
  with assms(2) show ?thesis by (simp add: derive_sub_keys_from_epoch_secret_ex_def epoch_keys_wf_def)
qed

lemma derive_epoch_keys_ok:
  assumes "hkdf_ok P"
  shows "\<exists>k. derive_epoch_keys P init_sec commit_sec gch enhanced = Ok k \<and> epoch_keys_wf k"
proof -
  have j: "32 \<le> length (hkdf_extract P init_sec commit_sec)" using hkdf_extract_length [OF assms] by simp
  obtain es where es: "hkdf_expand P (hkdf_extract P init_sec commit_sec) (GROUP_EPOCH_SECRET_INFO @ gch) 32 = Ok es"
    "length es = 32" using hkdf_expand_32 [OF assms j] by blast
  from derive_sub_keys_ok [OF assms es(2), of enhanced] es(1) show ?thesis
    by (auto simp: derive_epoch_keys_def Let_def)
qed

lemma derive_sender_key_base_ok:
  "hkdf_ok P \<Longrightarrow> length es = 32 \<Longrightarrow> \<exists>b. derive_sender_key_base P es leaf gch = Ok b \<and> length b = 32"
  using hkdf_expand_32 [of P es] by (simp add: derive_sender_key_base_def)

section \<open>Properties\<close>

text \<open>C25. The bytes that are hashed into the group context hash determine the group id, the epoch,
  the tree hash and the policy, whatever the sizes of the variable-length fields.\<close>

theorem group_context_injective:
  assumes "length g \<le> u32_max" "length g' \<le> u32_max" "length t \<le> u32_max" "length t' \<le> u32_max"
    and "length p \<le> u32_max" "length p' \<le> u32_max" "e \<le> u64_max" "e' \<le> u64_max"
  shows "group_context_bytes g e t p = group_context_bytes g' e' t' p' \<longleftrightarrow> g = g' \<and> e = e' \<and> t = t' \<and> p = p'"
proof -
  have "le_bytes 8 e = le_bytes 8 e' \<longleftrightarrow> e = e'" using assms by (intro le_bytes_inject) simp_all
  moreover have "len_prefixed p = len_prefixed p' \<longleftrightarrow> p = p'"
    using len_prefixed_inject [OF assms(5,6), of "[]" "[]"] by simp
  ultimately show ?thesis
    using assms by (simp add: group_context_bytes_def len_prefixed_inject)
qed

theorem group_context_injective_witness:
  "group_context_bytes [1, 2] 5 [3] [] \<noteq> group_context_bytes [1] 5 [2, 3] []"
  using group_context_injective [of "[1, 2]" "[1]" "[3]" "[2, 3]" "[]" "[]" 5 5] by simp

text \<open>Given HKDF's documented behaviour, deriving an epoch always succeeds and all its keys
  have 32 bytes; so do the injection of a pre-shared key, the sender key base of every leaf and the
  keys derived from the new epoch secret. Sender key inputs of different leaves are different.\<close>

theorem epoch_derivation_total:
  assumes "hkdf_ok P" "leaf \<le> u32_max" "leaf' \<le> u32_max"
  shows "\<exists>k es k2 b. derive_epoch_keys P init_sec commit_sec gch enhanced = Ok k \<and> epoch_keys_wf k \<and>
    inject_psk P (epoch_secret k) psk psk_nonce = Ok es \<and>
    derive_sub_keys_from_epoch_secret_ex P es enhanced = Ok k2 \<and> epoch_keys_wf k2 \<and> epoch_secret k2 = es \<and>
    derive_sender_key_base P es leaf gch = Ok b \<and> length b = SENDER_KEY_BASE_BYTES \<and>
    (sender_key_info leaf gch = sender_key_info leaf' gch \<longrightarrow> leaf = leaf')"
proof -
  obtain k where k: "derive_epoch_keys P init_sec commit_sec gch enhanced = Ok k" "epoch_keys_wf k"
    using derive_epoch_keys_ok [OF assms(1)] by blast
  let ?x = "hkdf_extract P (epoch_secret k) (hkdf_extract P psk_nonce psk)"
  obtain i where i: "hkdf_expand P ?x GROUP_PSK_EXTRACT_INFO 32 = Ok i" "length i = 32"
    using hkdf_expand_32 [OF assms(1), of ?x] hkdf_extract_length [OF assms(1)] by fastforce
  obtain es where es: "hkdf_expand P i GROUP_PSK_SECRET_INFO 32 = Ok es" "length es = 32"
    using hkdf_expand_32 [OF assms(1), of i] i(2) by fastforce
  obtain k2 where k2: "derive_sub_keys_from_epoch_secret_ex P es enhanced = Ok k2" "epoch_keys_wf k2" "epoch_secret k2 = es"
    using derive_sub_keys_ok [OF assms(1) es(2)] by blast
  obtain b where b: "derive_sender_key_base P es leaf gch = Ok b" "length b = 32"
    using derive_sender_key_base_ok [OF assms(1) es(2)] by blast
  have "sender_key_info leaf gch = sender_key_info leaf' gch \<longrightarrow> leaf = leaf'"
    using assms(2,3) by (simp add: sender_key_info_def le_bytes_inject)
  with k i es k2 b show ?thesis by (simp add: inject_psk_def Let_def)
qed

theorem epoch_derivation_total_witness:
  "\<exists>k. derive_epoch_keys sample_prims (zeros 32) [4] [5] True = Ok k \<and> epoch_keys_wf k"
  using epoch_derivation_total [OF sample_hkdf_ok, of 0 1 "zeros 32" "[4]" "[5]" True] by auto

end
