(* ===== verification/Sender_Key.thy ===== *)
theory Sender_Key
  imports Key_Schedule BTree_Map Hash_Chain
begin

text \<open>
  Sender keys of a group epoch (\<^verbatim>\<open>protocol/group/sender_key.rs\<close>): one key chain per member and
  the bounded cache of skipped message keys. Shown here: every key handed out is the key of its
  generation in the chain of its sender, whatever order messages arrive in; no key is handed out
  twice; the cache keeps its bounds; and a failed request changes nothing.
\<close>

section \<open>SenderKeyChain\<close>

record sender_chain =
  sc_leaf_index :: nat
  sc_chain_key :: bytes
  sc_generation :: nat
  sc_enhanced :: bool
  sc_max_generation :: nat
  sc_max_skipped_per_sender :: nat

definition new_with_policy :: "nat \<Rightarrow> bytes \<Rightarrow> bool \<Rightarrow> nat \<Rightarrow> nat \<Rightarrow> sender_chain pres" where
  "new_with_policy leaf_index sender_key_base enhanced max_generation max_skipped =
     (if length sender_key_base \<noteq> SENDER_KEY_BASE_BYTES then Err (InvalidInput ''Invalid sender key base size'')
      else Ok \<lparr> sc_leaf_index = leaf_index, sc_chain_key = sender_key_base, sc_generation = 0, sc_enhanced = enhanced,
                sc_max_generation = max_generation, sc_max_skipped_per_sender = max_skipped \<rparr>)"

definition sender_chain_new :: "nat \<Rightarrow> bytes \<Rightarrow> sender_chain pres" where
  "sender_chain_new leaf_index sender_key_base =
     new_with_policy leaf_index sender_key_base False MAX_SENDER_KEY_GENERATION MAX_SKIPPED_SENDER_KEYS_PER_SENDER"

definition from_state_with_policy :: "nat \<Rightarrow> bytes \<Rightarrow> nat \<Rightarrow> bool \<Rightarrow> nat \<Rightarrow> nat \<Rightarrow> sender_chain pres" where
  "from_state_with_policy leaf_index ck gen enhanced max_generation max_skipped =
     (if length ck \<noteq> CHAIN_KEY_BYTES then Err (InvalidInput ''Invalid chain key size'')
      else Ok \<lparr> sc_leaf_index = leaf_index, sc_chain_key = ck, sc_generation = gen, sc_enhanced = enhanced,
                sc_max_generation = max_generation, sc_max_skipped_per_sender = max_skipped \<rparr>)"

definition sender_chain_from_state :: "nat \<Rightarrow> bytes \<Rightarrow> nat \<Rightarrow> sender_chain pres" where
  "sender_chain_from_state leaf_index ck gen =
     from_state_with_policy leaf_index ck gen False MAX_SENDER_KEY_GENERATION MAX_SKIPPED_SENDER_KEYS_PER_SENDER"

text \<open>The derivation inside \<open>next_message_key\<close>.\<close>

definition sender_step :: "prims \<Rightarrow> bool \<Rightarrow> bytes \<Rightarrow> protocol_error + (bytes \<times> bytes)" where
  "sender_step P enhanced ck =
     res_bind (hkdf_expand P ck GROUP_MSG_INFO MESSAGE_KEY_BYTES) (\<lambda>message_key.
     res_bind (hkdf_expand P ck GROUP_CHAIN_INFO CHAIN_KEY_BYTES) (\<lambda>next_chain.
       if enhanced then
         res_bind (blake2b_keyed_hash P GROUP_BLAKE2B_CHAIN_PERSONALIZATION next_chain) (\<lambda>blaked.
           Ok (message_key, blaked))
       else Ok (message_key, next_chain)))"

definition next_message_key :: "prims \<Rightarrow> sender_chain \<Rightarrow> (nat \<times> bytes) pres \<times> sender_chain" where
  "next_message_key P c =
     (if sc_generation c \<ge> sc_max_generation c then
        (Err (GroupProtocol ''Sender key chain exhausted -- trigger epoch update''), c)
      else
        case sender_step P (sc_enhanced c) (sc_chain_key c) of
          Inl e \<Rightarrow> (Err e, c)
        | Inr (message_key, next_chain) \<Rightarrow>
            (Ok (sc_generation c, message_key),
             c\<lparr> sc_chain_key := next_chain, sc_generation := sc_generation c + 1 \<rparr>))"

lemma next_message_key_progress:
  "next_message_key P c = (Ok gk, c') \<Longrightarrow> sc_generation c' = sc_generation c + 1"
  by (auto simp: next_message_key_def split: if_splits sum.splits prod.splits)

function skip_loop :: "prims \<Rightarrow> nat \<Rightarrow> sender_chain \<Rightarrow> (nat \<times> bytes) list \<Rightarrow> (nat \<times> bytes) list pres \<times> sender_chain" where
  "skip_loop P target c skipped =
     (if sc_generation c < target then
        case next_message_key P c of
          (Inl e, c') \<Rightarrow> (Err e, c')
        | (Inr (gen, key), c') \<Rightarrow> skip_loop P target c' (skipped @ [(gen, key)])
      else (Ok skipped, c))"
  by pat_completeness auto
termination
  by (relation "measure (\<lambda>(P, target, c, skipped). target - sc_generation c)")
    (auto dest: sym [THEN next_message_key_progress])

declare skip_loop.simps [simp del]

definition sc_advance_to :: "prims \<Rightarrow> sender_chain \<Rightarrow> nat \<Rightarrow> (bytes \<times> (nat \<times> bytes) list) pres \<times> sender_chain" where
  "sc_advance_to P c target_generation =
     (if target_generation < sc_generation c then
        (Err (ReplayAttack ''Sender key generation {} already consumed (current: {})''), c)
      else if target_generation \<ge> sc_max_generation c then
        (Err (GroupProtocol ''Target generation exceeds maximum''), c)
      else
        let skip_count = target_generation - sc_generation c
        in if skip_count > sc_max_skipped_per_sender c then
             (Err (GroupProtocol ''Too many skipped generations: {skip_count} (max {})''), c)
           else
             case skip_loop P target_generation c [] of
               (Inl e, c') \<Rightarrow> (Err e, c')
             | (Inr skipped, c') \<Rightarrow>
                 (case next_message_key P c' of
                    (Inl e, c'') \<Rightarrow> (Err e, c'')
                  | (Inr (_, message_key), c'') \<Rightarrow> (Ok (message_key, skipped), c'')))"

section \<open>SenderKeyStore\<close>

record sender_key_store =
  st_chains :: "(nat \<times> sender_chain) list"
  st_skipped_keys :: "(nat \<times> nat, bytes) btree"
  st_max_skipped_per_sender :: nat
  st_max_skipped_total :: nat

fun epoch_chains :: "prims \<Rightarrow> bytes \<Rightarrow> bytes \<Rightarrow> bool \<Rightarrow> nat \<Rightarrow> nat \<Rightarrow> nat list \<Rightarrow> (nat \<times> sender_chain) list pres" where
  "epoch_chains P es gch enhanced max_generation max_skipped [] = Ok []"
| "epoch_chains P es gch enhanced max_generation max_skipped (leaf_idx # leaves) =
     res_bind (derive_sender_key_base P es leaf_idx gch) (\<lambda>base.
     res_bind (new_with_policy leaf_idx base enhanced max_generation max_skipped) (\<lambda>chain.
     res_bind (epoch_chains P es gch enhanced max_generation max_skipped leaves) (\<lambda>chains.
       Ok ((leaf_idx, chain) # chains))))"

definition new_epoch_with_policy :: "prims \<Rightarrow> bytes \<Rightarrow> nat list \<Rightarrow> bytes \<Rightarrow> bool \<Rightarrow> nat \<Rightarrow> nat \<Rightarrow> sender_key_store pres" where
  "new_epoch_with_policy P es leaf_indices gch enhanced max_generation max_skipped =
     res_bind (epoch_chains P es gch enhanced max_generation max_skipped leaf_indices) (\<lambda>chains.
       Ok \<lparr> st_chains = chains, st_skipped_keys = [], st_max_skipped_per_sender = max_skipped,
            st_max_skipped_total = MAX_SKIPPED_SENDER_KEYS \<rparr>)"

definition new_epoch :: "prims \<Rightarrow> bytes \<Rightarrow> nat list \<Rightarrow> bytes \<Rightarrow> sender_key_store pres" where
  "new_epoch P es leaf_indices gch =
     new_epoch_with_policy P es leaf_indices gch False MAX_SENDER_KEY_GENERATION MAX_SKIPPED_SENDER_KEYS_PER_SENDER"

definition from_chains :: "(nat, sender_chain) btree \<Rightarrow> nat \<Rightarrow> sender_key_store" where
  "from_chains chain_map max_skipped =
     \<lparr> st_chains = chain_map, st_skipped_keys = [], st_max_skipped_per_sender = max_skipped,
       st_max_skipped_total = MAX_SKIPPED_SENDER_KEYS \<rparr>"

definition get_chain :: "sender_key_store \<Rightarrow> nat \<Rightarrow> sender_chain option" where
  "get_chain st leaf_index = map_option snd (find (\<lambda>(idx, _). idx = leaf_index) (st_chains st))"

text \<open>Writing through the reference that \<open>get_chain_mut\<close> returns.\<close>

fun set_chain :: "nat \<Rightarrow> sender_chain \<Rightarrow> (nat \<times> sender_chain) list \<Rightarrow> (nat \<times> sender_chain) list" where
  "set_chain leaf c [] = []"
| "set_chain leaf c ((idx, c') # cs) = (if idx = leaf then (idx, c) # cs else (idx, c') # set_chain leaf c cs)"

definition next_own_message_key :: "prims \<Rightarrow> sender_key_store \<Rightarrow> nat \<Rightarrow> (nat \<times> bytes) pres \<times> sender_key_store" where
  "next_own_message_key P st my_leaf_index =
     (case get_chain st my_leaf_index of
        None \<Rightarrow> (Err (GroupProtocol ''Own sender key chain not found''), st)
      | Some chain \<Rightarrow>
          (case next_message_key P chain of (r, chain') \<Rightarrow>
             (r, st\<lparr> st_chains := set_chain my_leaf_index chain' (st_chains st) \<rparr>)))"

definition per_sender :: "(nat \<times> nat, bytes) btree \<Rightarrow> (nat, (nat \<times> nat) list) btree" where
  "per_sender m =
     fold (\<lambda>(sender, gen) g. bt_insert sender ((case bt_get g sender of None \<Rightarrow> [] | Some ks \<Rightarrow> ks) @ [(sender, gen)]) g)
       (map fst m) []"

definition evict_sender :: "nat \<Rightarrow> nat \<times> (nat \<times> nat) list \<Rightarrow> (nat \<times> nat, bytes) btree \<Rightarrow> (nat \<times> nat, bytes) btree" where
  "evict_sender max_per_sender entry m =
     (let keys = snd entry
      in if length keys > max_per_sender then
           fold bt_remove (take (length keys - max_per_sender) (sort_key snd keys)) m
         else m)"

definition sk_enforce_cache_limit :: "sender_key_store \<Rightarrow> sender_key_store" where
  "sk_enforce_cache_limit st =
     (let m1 = fold (evict_sender (st_max_skipped_per_sender st)) (per_sender (st_skipped_keys st)) (st_skipped_keys st)
      in st\<lparr> st_skipped_keys := evict_to 0 (st_max_skipped_total st) m1 \<rparr>)"

definition get_message_key :: "prims \<Rightarrow> sender_key_store \<Rightarrow> nat \<Rightarrow> nat \<Rightarrow> bytes pres \<times> sender_key_store" where
  "get_message_key P st sender_leaf_index gen =
     (case bt_get (st_skipped_keys st) (sender_leaf_index, gen) of
        Some key \<Rightarrow> (Ok key, st\<lparr> st_skipped_keys := bt_remove (sender_leaf_index, gen) (st_skipped_keys st) \<rparr>)
      | None \<Rightarrow>
          (case get_chain st sender_leaf_index of
             None \<Rightarrow> (Err (GroupProtocol ''No sender key chain for leaf {sender_leaf_index}''), st)
           | Some chain \<Rightarrow>
               if gen < sc_generation chain then
                 (Err (ReplayAttack ''Generation {generation} already consumed for sender {sender_leaf_index}''), st)
               else if gen = sc_generation chain then
                 (case next_message_key P chain of (r, chain') \<Rightarrow>
                    (res_bind r (\<lambda>(_, key). Ok key),
                     st\<lparr> st_chains := set_chain sender_leaf_index chain' (st_chains st) \<rparr>))
               else
                 (case sc_advance_to P chain gen of
                    (Inl e, chain') \<Rightarrow> (Err e, st\<lparr> st_chains := set_chain sender_leaf_index chain' (st_chains st) \<rparr>)
                  | (Inr (message_key, skipped), chain') \<Rightarrow>
                      (Ok message_key,
                       sk_enforce_cache_limit
                         (st\<lparr> st_chains := set_chain sender_leaf_index chain' (st_chains st),
                              st_skipped_keys :=
                                fold (\<lambda>(g, key). bt_insert (sender_leaf_index, g) key) skipped (st_skipped_keys st) \<rparr>)))))"

definition export_chains :: "sender_key_store \<Rightarrow> (nat \<times> bytes \<times> nat) list" where
  "export_chains st = map (\<lambda>(_, chain). (sc_leaf_index chain, sc_chain_key chain, sc_generation chain)) (st_chains st)"

section \<open>Chains as key chains\<close>

definition crypto_ok :: "prims \<Rightarrow> bool" where
  "crypto_ok P \<longleftrightarrow> hkdf_ok P \<and> hash_ok P"

lemma sender_step_ok:
  assumes "crypto_ok P" "length ck = 32"
  shows "\<exists>k n. sender_step P enh ck = Ok (k, n) \<and> length k = 32 \<and> length n = 32"
proof -
  have h: "hkdf_ok P" "hash_ok P" using assms(1) by (auto simp: crypto_ok_def)
  obtain k n where kn: "hkdf_expand P ck GROUP_MSG_INFO 32 = Ok k" "length k = 32"
    "hkdf_expand P ck GROUP_CHAIN_INFO 32 = Ok n" "length n = 32"
    using hkdf_expand_32 [OF h(1), of ck] assms(2) by (metis order_refl)
  have "length GROUP_BLAKE2B_CHAIN_PERSONALIZATION \<le> 64" by (simp add: GROUP_BLAKE2B_CHAIN_PERSONALIZATION_def)
  then obtain t where "blake2b_mac P GROUP_BLAKE2B_CHAIN_PERSONALIZATION n = Some t" "length t = 32"
    using h(2) unfolding hash_ok_def by blast
  with kn show ?thesis by (simp add: sender_step_def blake2b_keyed_hash_def)
qed

interpretation sender_chains: ratchet_chain "sender_step P enh" "\<lambda>ck. crypto_ok P \<and> length ck = 32" for P enh
proof
  fix s :: bytes
  assume "crypto_ok P \<and> length s = 32"
  then show "\<exists>m s'. sender_step P enh s = Ok (m, s') \<and> crypto_ok P \<and> length s' = 32"
    using sender_step_ok [of P s enh] by auto
qed

text \<open>The chain of a sender stands at generation \<open>g\<close>, and the key of a generation.\<close>

definition chain_at :: "prims \<Rightarrow> bool \<Rightarrow> bytes \<Rightarrow> nat \<Rightarrow> bytes \<Rightarrow> bool" where
  "chain_at P enh base g ck \<longleftrightarrow> (\<exists>ks. chain_run (sender_step P enh) g base = Ok (ks, ck))"

definition key_at :: "prims \<Rightarrow> bool \<Rightarrow> bytes \<Rightarrow> nat \<Rightarrow> bytes \<Rightarrow> bool" where
  "key_at P enh base g k \<longleftrightarrow> (\<exists>ck n. chain_at P enh base g ck \<and> sender_step P enh ck = Ok (k, n))"

lemma chain_at_fun: "chain_at P enh base g ck \<Longrightarrow> chain_at P enh base g ck' \<Longrightarrow> ck = ck'"
  by (auto simp: chain_at_def)

lemma key_at_fun: "key_at P enh base g k \<Longrightarrow> key_at P enh base g k' \<Longrightarrow> k = k'"
  by (auto simp: key_at_def dest: chain_at_fun)

lemma chain_at_0: "chain_at P enh base 0 base"
  by (simp add: chain_at_def)

lemma chain_at_step:
  "chain_at P enh base g ck \<Longrightarrow> sender_step P enh ck = Ok (k, n) \<Longrightarrow> chain_at P enh base (g + 1) n"
  using chain_run_snoc by (fastforce simp: chain_at_def)

lemma chain_at_length: "crypto_ok P \<Longrightarrow> length base = 32 \<Longrightarrow> chain_at P enh base g ck \<Longrightarrow> length ck = 32"
  using sender_chains.run_good unfolding chain_at_def by blast

definition chain_rel :: "prims \<Rightarrow> bytes \<Rightarrow> sender_chain \<Rightarrow> bool" where
  "chain_rel P base c \<longleftrightarrow> crypto_ok P \<and> length base = 32 \<and> chain_at P (sc_enhanced c) base (sc_generation c) (sc_chain_key c)"

lemma next_message_key_rel:
  assumes "chain_rel P base c" "sc_generation c < sc_max_generation c"
  shows "\<exists>k n. next_message_key P c = (Ok (sc_generation c, k), c\<lparr> sc_chain_key := n, sc_generation := sc_generation c + 1 \<rparr>) \<and>
    key_at P (sc_enhanced c) base (sc_generation c) k \<and>
    chain_rel P base (c\<lparr> sc_chain_key := n, sc_generation := sc_generation c + 1 \<rparr>)"
proof -
  have at: "chain_at P (sc_enhanced c) base (sc_generation c) (sc_chain_key c)" and ok: "crypto_ok P" "length base = 32"
    using assms(1) by (auto simp: chain_rel_def)
  obtain k n where s: "sender_step P (sc_enhanced c) (sc_chain_key c) = Ok (k, n)"
    using sender_step_ok [OF ok(1) chain_at_length [OF ok at]] by blast
  then have "key_at P (sc_enhanced c) base (sc_generation c) k" using at by (auto simp: key_at_def)
  moreover have "chain_rel P base (c\<lparr> sc_chain_key := n, sc_generation := sc_generation c + 1 \<rparr>)"
    using chain_at_step [OF at s] ok by (simp add: chain_rel_def)
  ultimately show ?thesis using s assms(2)
    by (intro exI [of _ k] exI [of _ n]) (simp add: next_message_key_def)
qed

lemma skip_loop_rel:
  assumes "chain_rel P base c" "sc_generation c \<le> target" "target \<le> sc_max_generation c"
  shows "\<exists>ks n. skip_loop P target c skipped = (Ok (skipped @ ks), c\<lparr> sc_chain_key := n, sc_generation := target \<rparr>) \<and>
    map fst ks = [sc_generation c..<target] \<and> (\<forall>(g, k) \<in> set ks. key_at P (sc_enhanced c) base g k) \<and>
    chain_rel P base (c\<lparr> sc_chain_key := n, sc_generation := target \<rparr>)"
  using assms
proof (induction "target - sc_generation c" arbitrary: c skipped)
  case 0
  then have "target = sc_generation c" by simp
  then show ?case using 0(2) by (auto simp: skip_loop.simps intro!: exI [of _ "sc_chain_key c"])
next
  case (Suc d)
  have lt: "sc_generation c < target" using Suc.hyps(2) by simp
  obtain k n where s: "next_message_key P c = (Ok (sc_generation c, k), c\<lparr> sc_chain_key := n, sc_generation := sc_generation c + 1 \<rparr>)"
    "key_at P (sc_enhanced c) base (sc_generation c) k"
    "chain_rel P base (c\<lparr> sc_chain_key := n, sc_generation := sc_generation c + 1 \<rparr>)"
    using next_message_key_rel [OF Suc.prems(1)] lt Suc.prems(3) by fastforce
  let ?c = "c\<lparr> sc_chain_key := n, sc_generation := sc_generation c + 1 \<rparr>"
  have "d = target - sc_generation ?c" "sc_generation ?c \<le> target" "target \<le> sc_max_generation ?c"
    using Suc.hyps(2) Suc.prems(3) by simp_all
  from Suc.hyps(1) [OF this(1) s(3) this(2,3), of "skipped @ [(sc_generation c, k)]"] obtain ks m where
    r: "skip_loop P target ?c (skipped @ [(sc_generation c, k)]) =
      (Ok ((skipped @ [(sc_generation c, k)]) @ ks), ?c\<lparr> sc_chain_key := m, sc_generation := target \<rparr>)"
    "map fst ks = [sc_generation ?c..<target]" "\<forall>(g, k) \<in> set ks. key_at P (sc_enhanced c) base g k"
    "chain_rel P base (?c\<lparr> sc_chain_key := m, sc_generation := target \<rparr>)" by auto
  have "skip_loop P target c skipped =
      (Ok (skipped @ (sc_generation c, k) # ks), c\<lparr> sc_chain_key := m, sc_generation := target \<rparr>)"
    using r(1) s(1) lt by (subst skip_loop.simps) simp
  moreover have "map fst ((sc_generation c, k) # ks) = [sc_generation c..<target]"
    using r(2) lt by (simp add: upt_conv_Cons)
  ultimately show ?case using r(3,4) s(2) by (intro exI [of _ "(sc_generation c, k) # ks"] exI [of _ m]) auto
qed

lemma sc_advance_to_rel:
  assumes "chain_rel P base c" "sc_generation c \<le> target" "target < sc_max_generation c"
    and "target - sc_generation c \<le> sc_max_skipped_per_sender c"
  shows "\<exists>k ks n. sc_advance_to P c target = (Ok (k, ks), c\<lparr> sc_chain_key := n, sc_generation := target + 1 \<rparr>) \<and>
    key_at P (sc_enhanced c) base target k \<and>
    map fst ks = [sc_generation c..<target] \<and> (\<forall>(g, k) \<in> set ks. key_at P (sc_enhanced c) base g k) \<and>
    chain_rel P base (c\<lparr> sc_chain_key := n, sc_generation := target + 1 \<rparr>)"
proof -
  obtain ks n where l: "skip_loop P target c [] = (Ok ks, c\<lparr> sc_chain_key := n, sc_generation := target \<rparr>)"
    "map fst ks = [sc_generation c..<target]" "\<forall>(g, k) \<in> set ks. key_at P (sc_enhanced c) base g k"
    "chain_rel P base (c\<lparr> sc_chain_key := n, sc_generation := target \<rparr>)"
    using skip_loop_rel [OF assms(1,2), of "[]"] assms(3) by fastforce
  obtain k m where "next_message_key P (c\<lparr> sc_chain_key := n, sc_generation := target \<rparr>) =
      (Ok (target, k), c\<lparr> sc_chain_key := m, sc_generation := target + 1 \<rparr>)"
    "key_at P (sc_enhanced c) base target k" "chain_rel P base (c\<lparr> sc_chain_key := m, sc_generation := target + 1 \<rparr>)"
    using next_message_key_rel [OF l(4)] assms(3) by auto
  with l assms show ?thesis
    by (intro exI [of _ k] exI [of _ ks] exI [of _ m]) (simp add: sc_advance_to_def Let_def)
qed

section \<open>The store\<close>

lemma get_chain_map_of: "get_chain st i = map_of (st_chains st) i"
proof -
  have "map_option snd (find (\<lambda>(idx, _). idx = i) xs) = map_of xs i" for xs :: "(nat \<times> sender_chain) list"
    by (induction xs) auto
  then show ?thesis by (simp add: get_chain_def)
qed

lemma map_of_set_chain:
  "map_of (set_chain i c cs) = (if map_of cs i = None then map_of cs else (map_of cs)(i \<mapsto> c))"
  by (induction i c cs rule: set_chain.induct) (auto simp: fun_eq_iff)

lemma set_chain_same: "map_of cs i = Some c \<Longrightarrow> set_chain i c cs = cs"
  by (induction i c cs rule: set_chain.induct) (auto split: if_splits)

text \<open>What the store knows: each chain stands at its generation, every cached key belongs to a
  generation the chain has passed.\<close>

definition store_inv :: "prims \<Rightarrow> (nat \<Rightarrow> bytes) \<Rightarrow> sender_key_store \<Rightarrow> bool" where
  "store_inv P bases st \<longleftrightarrow> bt_inv (st_skipped_keys st) \<and>
     (\<forall>i c. get_chain st i = Some c \<longrightarrow> chain_rel P (bases i) c) \<and>
     (\<forall>s g k. bt_get (st_skipped_keys st) (s, g) = Some k \<longrightarrow>
        (\<exists>c. get_chain st s = Some c \<and> g < sc_generation c \<and> key_at P (sc_enhanced c) (bases s) g k))"

definition same_policy :: "sender_chain \<Rightarrow> sender_chain \<Rightarrow> bool" where
  "same_policy c c' \<longleftrightarrow> sc_enhanced c' = sc_enhanced c \<and> sc_max_generation c' = sc_max_generation c \<and>
     sc_max_skipped_per_sender c' = sc_max_skipped_per_sender c \<and> sc_generation c \<le> sc_generation c'"

lemma store_inv_step:
  assumes "store_inv P bases st" "get_chain st i = Some c" "chain_rel P (bases i) c'" "same_policy c c'"
    and "bt_inv m" "\<And>s g k. bt_get m (s, g) = Some k \<Longrightarrow> bt_get (st_skipped_keys st) (s, g) = Some k \<or>
      s = i \<and> g < sc_generation c' \<and> key_at P (sc_enhanced c) (bases i) g k"
  shows "store_inv P bases (st\<lparr> st_chains := set_chain i c' (st_chains st), st_skipped_keys := m \<rparr>)"
proof -
  let ?st = "st\<lparr> st_chains := set_chain i c' (st_chains st), st_skipped_keys := m \<rparr>"
  have gc: "get_chain ?st j = (if j = i then Some c' else get_chain st j)" for j
    using assms(2) by (simp add: get_chain_map_of map_of_set_chain)
  have "\<exists>d. get_chain ?st s = Some d \<and> g < sc_generation d \<and> key_at P (sc_enhanced d) (bases s) g k"
    if "bt_get m (s, g) = Some k" for s g k
  proof (cases "bt_get (st_skipped_keys st) (s, g) = Some k")
    case True
    then obtain d where d: "get_chain st s = Some d" "g < sc_generation d" "key_at P (sc_enhanced d) (bases s) g k"
      using assms(1) unfolding store_inv_def by blast
    then show ?thesis using assms(2,4) by (cases "s = i") (auto simp: gc same_policy_def)
  next
    case False
    then show ?thesis using assms(6) [OF that] assms(4) by (auto simp: gc same_policy_def)
  qed
  moreover have "\<forall>j d. get_chain ?st j = Some d \<longrightarrow> chain_rel P (bases j) d"
    using assms(1,3) by (auto simp: gc store_inv_def)
  ultimately show ?thesis using assms(5) by (simp add: store_inv_def)
qed

subsection \<open>The cache limit\<close>

lemma per_sender_get:
  "bt_get (fold (\<lambda>(sender, gen) g. bt_insert sender ((case bt_get g sender of None \<Rightarrow> [] | Some ks \<Rightarrow> ks) @ [(sender, gen)]) g) L g0) s =
    (if filter (\<lambda>k. fst k = s) L = [] then bt_get g0 s
     else Some ((case bt_get g0 s of None \<Rightarrow> [] | Some ks \<Rightarrow> ks) @ filter (\<lambda>k. fst k = s) L))"
proof (induction L arbitrary: g0)
  case (Cons a L)
  obtain b n where "a = (b, n)" by fastforce
  then show ?case using Cons [of "bt_insert b ((case bt_get g0 b of None \<Rightarrow> [] | Some ks \<Rightarrow> ks) @ [(b, n)]) g0"]
    by (auto split: option.splits)
qed simp

lemma per_sender_inv: "bt_inv (per_sender m)"
proof -
  have "bt_inv g0 \<Longrightarrow> bt_inv (fold (\<lambda>(sender, gen) g. bt_insert sender
      ((case bt_get g sender of None \<Rightarrow> [] | Some ks \<Rightarrow> ks) @ [(sender, gen)]) g) L g0)" for L and g0 :: "(nat, (nat \<times> nat) list) btree"
    by (induction L arbitrary: g0) auto
  from this [OF bt_inv_Nil] show ?thesis by (simp add: per_sender_def)
qed

lemma per_sender_mem:
  "(s, ks) \<in> set (per_sender m) \<longleftrightarrow> ks = filter (\<lambda>k. fst k = s) (map fst m) \<and> ks \<noteq> []"
proof -
  have "(s, ks) \<in> set (per_sender m) \<longleftrightarrow> bt_get (per_sender m) s = Some ks"
    using bt_distinct [OF per_sender_inv] by (simp add: bt_get_def)
  also have "\<dots> \<longleftrightarrow> ks = filter (\<lambda>k. fst k = s) (map fst m) \<and> ks \<noteq> []"
    unfolding per_sender_def by (subst per_sender_get) auto
  finally show ?thesis .
qed

definition evicted :: "nat \<Rightarrow> (nat \<times> nat) list \<Rightarrow> (nat \<times> nat) set" where
  "evicted mx ks = set (take (length ks - mx) (sort_key snd ks))"

lemma evict_sender_filter:
  "bt_inv m \<Longrightarrow> evict_sender mx (s, ks) m = filter (\<lambda>kv. fst kv \<notin> evicted mx ks) m"
  by (simp add: evict_sender_def evicted_def bt_remove_fold)

lemma evict_senders_filter:
  "bt_inv m \<Longrightarrow> fold (evict_sender mx) es m = filter (\<lambda>kv. \<forall>e \<in> set es. fst kv \<notin> evicted mx (snd e)) m"
proof (induction es arbitrary: m)
  case (Cons e es)
  obtain s ks where e: "e = (s, ks)" by fastforce
  show ?case using Cons
    by (auto simp: e evict_sender_filter bt_inv_filter intro: filter_cong)
qed simp

definition sender_count :: "nat \<Rightarrow> (nat \<times> nat, bytes) btree \<Rightarrow> nat" where
  "sender_count s m = length (filter (\<lambda>kv. fst (fst kv) = s) m)"

definition cache_bounded :: "sender_key_store \<Rightarrow> bool" where
  "cache_bounded st \<longleftrightarrow> length (st_skipped_keys st) \<le> st_max_skipped_total st \<and>
     (\<forall>s. sender_count s (st_skipped_keys st) \<le> st_max_skipped_per_sender st)"

lemma kept_bound:
  assumes "distinct ks"
  shows "length (filter (\<lambda>k. k \<notin> evicted mx ks) ks) \<le> mx"
proof -
  have "?thesis \<longleftrightarrow> card (set ks - evicted mx ks) \<le> mx"
    using distinct_card [of "filter (\<lambda>k. k \<notin> evicted mx ks) ks"] assms by (simp add: set_diff_eq)
  moreover have "evicted mx ks \<subseteq> set ks"
    using set_take_subset [of "length ks - mx" "sort_key snd ks"] by (auto simp: evicted_def)
  moreover have "card (evicted mx ks) = length ks - mx"
    unfolding evicted_def using assms by (subst distinct_card) (auto simp: distinct_sort)
  ultimately show ?thesis using assms by (simp add: card_Diff_subset evicted_def distinct_card)
qed

lemma evict_senders_count:
  assumes "bt_inv m"
  shows "sender_count s (fold (evict_sender mx) (per_sender m) m) \<le> mx"
proof (cases "filter (\<lambda>k. fst k = s) (map fst m) = []")
  case True
  then have "\<forall>kv \<in> set m. fst (fst kv) \<noteq> s" by (auto simp: filter_empty_conv)
  then show ?thesis using assms by (auto simp: sender_count_def evict_senders_filter filter_empty_conv)
next
  case False
  let ?ks = "filter (\<lambda>k. fst k = s) (map fst m)"
  let ?E = "evicted mx ?ks"
  have mem: "(s, ?ks) \<in> set (per_sender m)" using False by (simp add: per_sender_mem)
  have dist: "distinct ?ks" using bt_distinct [OF assms] by simp
  have "length (filter (\<lambda>kv. fst (fst kv) = s) (fold (evict_sender mx) (per_sender m) m))
      \<le> length (filter (\<lambda>kv. fst (fst kv) = s \<and> fst kv \<notin> ?E) m)"
  proof -
    have "filter (\<lambda>kv. fst (fst kv) = s) (fold (evict_sender mx) (per_sender m) m) =
        filter (\<lambda>kv. fst (fst kv) = s \<and> (\<forall>e \<in> set (per_sender m). fst kv \<notin> evicted mx (snd e))) m"
      using assms by (simp add: evict_senders_filter conj_commute)
    also have "length \<dots> \<le> length (filter (\<lambda>kv. fst (fst kv) = s \<and> fst kv \<notin> ?E) m)"
      using mem by (intro length_filter_mono) force
    finally show ?thesis .
  qed
  also have "\<dots> = length (filter (\<lambda>k. k \<notin> ?E) ?ks)"
    by (simp add: filter_map comp_def conj_commute)
  also have "\<dots> \<le> mx" using dist by (rule kept_bound)
  finally show ?thesis by (simp add: sender_count_def)
qed

lemma sk_enforce_cache_limit_laws:
  assumes "bt_inv (st_skipped_keys st)"
  shows "bt_inv (st_skipped_keys (sk_enforce_cache_limit st))"
    and "set (st_skipped_keys (sk_enforce_cache_limit st)) \<subseteq> set (st_skipped_keys st)"
    and "cache_bounded (sk_enforce_cache_limit st)"
    and "st_chains (sk_enforce_cache_limit st) = st_chains st"
proof -
  let ?mx = "st_max_skipped_per_sender st" and ?m = "st_skipped_keys st"
  let ?m1 = "fold (evict_sender ?mx) (per_sender ?m) ?m"
  have m1: "bt_inv ?m1" "set ?m1 \<subseteq> set ?m" using assms by (auto simp: evict_senders_filter bt_inv_filter)
  have e: "st_skipped_keys (sk_enforce_cache_limit st) = evict_to 0 (st_max_skipped_total st) ?m1"
    by (simp add: sk_enforce_cache_limit_def)
  show "bt_inv (st_skipped_keys (sk_enforce_cache_limit st))" using m1 by (simp add: e evict_to_inv)
  show "set (st_skipped_keys (sk_enforce_cache_limit st)) \<subseteq> set ?m"
    using m1 evict_to_subset [of 0 "st_max_skipped_total st" ?m1] by (simp add: e)
  show "st_chains (sk_enforce_cache_limit st) = st_chains st" by (simp add: sk_enforce_cache_limit_def)
  have "sender_count s (drop n ?m1) \<le> ?mx" for s n
  proof -
    have "sender_count s (take n ?m1) + sender_count s (drop n ?m1) = sender_count s ?m1"
      by (simp add: sender_count_def flip: length_append filter_append)
    then show ?thesis using evict_senders_count [OF assms, of s ?mx] by simp
  qed
  moreover have "length (evict_to 0 (st_max_skipped_total st) ?m1) \<le> st_max_skipped_total st"
    using evict_to_length [of 0 "st_max_skipped_total st" ?m1] by simp
  ultimately show "cache_bounded (sk_enforce_cache_limit st)"
    unfolding cache_bounded_def e by (simp add: evict_to_drop sk_enforce_cache_limit_def Let_def)
qed

subsection \<open>Requests\<close>

lemma bt_get_fold_insert:
  assumes "bt_get (fold (\<lambda>(g, key). bt_insert (i, g) key) ks m) (s, g) = Some k"
  shows "bt_get m (s, g) = Some k \<or> s = i \<and> (g, k) \<in> set ks"
  using assms
proof (induction ks arbitrary: m)
  case (Cons a ks)
  obtain g' k' where a: "a = (g', k')" by fastforce
  from Cons.IH [of "bt_insert (i, g') k' m"] Cons.prems show ?case by (auto simp: a split: if_splits)
qed simp

lemma bt_inv_fold_insert: "bt_inv m \<Longrightarrow> bt_inv (fold (\<lambda>(g, key). bt_insert (i, g) key) ks m)"
  by (induction ks arbitrary: m) auto

text \<open>A request that the chain answers: the key is the chain's key of that generation, the chain
  moves past it, and only keys of the generations in between join the cache.\<close>

definition derived_step ::
  "prims \<Rightarrow> (nat \<Rightarrow> bytes) \<Rightarrow> sender_key_store \<Rightarrow> nat \<Rightarrow> nat \<Rightarrow> bytes \<Rightarrow> sender_key_store \<Rightarrow> bool" where
  "derived_step P bases st s g k st' \<longleftrightarrow> (\<exists>c c' m. bt_get (st_skipped_keys st) (s, g) = None \<and>
     get_chain st s = Some c \<and> sc_generation c \<le> g \<and> key_at P (sc_enhanced c) (bases s) g k \<and>
     chain_rel P (bases s) c' \<and> same_policy c c' \<and> sc_generation c' = g + 1 \<and> bt_inv m \<and>
     (\<forall>x h y. bt_get m (x, h) = Some y \<longrightarrow> bt_get (st_skipped_keys st) (x, h) = Some y \<or>
        x = s \<and> sc_generation c \<le> h \<and> h < g \<and> key_at P (sc_enhanced c) (bases s) h y) \<and>
     st' = st\<lparr> st_chains := set_chain s c' (st_chains st), st_skipped_keys := m \<rparr> \<and>
     (cache_bounded st \<longrightarrow> cache_bounded st'))"

lemma get_message_key_exact:
  assumes inv: "store_inv P bases st" and none: "bt_get (st_skipped_keys st) (s, g) = None"
    and c: "get_chain st s = Some c" "g = sc_generation c" "g < sc_max_generation c"
  shows "\<exists>k st'. get_message_key P st s g = (Ok k, st') \<and> derived_step P bases st s g k st'"
proof -
  have rel: "chain_rel P (bases s) c" and bti: "bt_inv (st_skipped_keys st)"
    using inv c(1) by (auto simp: store_inv_def)
  obtain k n where k: "next_message_key P c = (Ok (g, k), c\<lparr> sc_chain_key := n, sc_generation := g + 1 \<rparr>)"
    "key_at P (sc_enhanced c) (bases s) g k" "chain_rel P (bases s) (c\<lparr> sc_chain_key := n, sc_generation := g + 1 \<rparr>)"
    using next_message_key_rel [OF rel] c(2,3) by auto
  let ?c = "c\<lparr> sc_chain_key := n, sc_generation := g + 1 \<rparr>"
  let ?st = "st\<lparr> st_chains := set_chain s ?c (st_chains st) \<rparr>"
  have "derived_step P bases st s g k ?st" unfolding derived_step_def
    by (intro exI [of _ c] exI [of _ ?c] exI [of _ "st_skipped_keys st"])
      (use none c k bti in \<open>simp add: same_policy_def cache_bounded_def\<close>)
  moreover have "get_message_key P st s g = (Ok k, ?st)" using none c k(1) by (simp add: get_message_key_def)
  ultimately show ?thesis by blast
qed

lemma skipped_sources:
  assumes "bt_inv m" "set m' \<subseteq> set (fold (\<lambda>(g, key). bt_insert (s, g) key) ks m)" "bt_get m' (x, h) = Some y"
    and "map fst ks = [a..<g]" "\<forall>(h, y) \<in> set ks. key_at P enh base h y"
  shows "bt_get m (x, h) = Some y \<or> x = s \<and> a \<le> h \<and> h < g \<and> key_at P enh base h y"
proof -
  have "bt_get (fold (\<lambda>(g, key). bt_insert (s, g) key) ks m) (x, h) = Some y"
    using bt_get_subset [OF bt_inv_fold_insert [OF assms(1)] assms(2,3)] .
  from bt_get_fold_insert [OF this]
  consider "bt_get m (x, h) = Some y" | "x = s" "(h, y) \<in> set ks" by blast
  then show ?thesis
  proof cases
    case 2
    then have "h \<in> set (map fst ks)" by force
    then show ?thesis using 2 assms(4,5) by auto
  qed simp
qed

lemma get_message_key_ahead:
  assumes inv: "store_inv P bases st" and none: "bt_get (st_skipped_keys st) (s, g) = None"
    and c: "get_chain st s = Some c" "sc_generation c < g" "g < sc_max_generation c"
    and skip: "g - sc_generation c \<le> sc_max_skipped_per_sender c"
  shows "\<exists>k st'. get_message_key P st s g = (Ok k, st') \<and> derived_step P bases st s g k st'"
proof -
  have rel: "chain_rel P (bases s) c" and bti: "bt_inv (st_skipped_keys st)"
    using inv c(1) by (auto simp: store_inv_def)
  obtain k ks n where k: "sc_advance_to P c g = (Ok (k, ks), c\<lparr> sc_chain_key := n, sc_generation := g + 1 \<rparr>)"
    "key_at P (sc_enhanced c) (bases s) g k" "map fst ks = [sc_generation c..<g]"
    "\<forall>(h, y) \<in> set ks. key_at P (sc_enhanced c) (bases s) h y"
    "chain_rel P (bases s) (c\<lparr> sc_chain_key := n, sc_generation := g + 1 \<rparr>)"
    using sc_advance_to_rel [OF rel less_imp_le [OF c(2)] c(3) skip] by blast
  let ?c = "c\<lparr> sc_chain_key := n, sc_generation := g + 1 \<rparr>"
  let ?m = "fold (\<lambda>(g, key). bt_insert (s, g) key) ks (st_skipped_keys st)"
  let ?st = "st\<lparr> st_chains := set_chain s ?c (st_chains st), st_skipped_keys := ?m \<rparr>"
  have mi: "bt_inv (st_skipped_keys ?st)" using bti by (simp add: bt_inv_fold_insert)
  note lim = sk_enforce_cache_limit_laws [OF mi]
  have src: "bt_get (st_skipped_keys st) (x, h) = Some y \<or>
       x = s \<and> sc_generation c \<le> h \<and> h < g \<and> key_at P (sc_enhanced c) (bases s) h y"
    if "bt_get (st_skipped_keys (sk_enforce_cache_limit ?st)) (x, h) = Some y" for x h y
    using lim(2) by (intro skipped_sources [OF bti _ that k(3,4)]) simp
  have eq: "sk_enforce_cache_limit ?st = st\<lparr> st_chains := set_chain s ?c (st_chains st),
      st_skipped_keys := st_skipped_keys (sk_enforce_cache_limit ?st) \<rparr>"
    by (simp add: sk_enforce_cache_limit_def Let_def)
  have "derived_step P bases st s g k (sk_enforce_cache_limit ?st)" unfolding derived_step_def
    by (intro exI [of _ c] exI [of _ ?c] exI [of _ "st_skipped_keys (sk_enforce_cache_limit ?st)"] conjI)
      (use none c k(2,5) lim(1,3) src eq in \<open>simp_all add: same_policy_def\<close>)
  moreover have "get_message_key P st s g = (Ok k, sk_enforce_cache_limit ?st)"
    using none c k(1) by (simp add: get_message_key_def)
  ultimately show ?thesis by blast
qed

text \<open>A request is answered from the cache, answered by the chain, or refused without effect.\<close>

lemma get_message_key_cases:
  assumes inv: "store_inv P bases st" and req: "get_message_key P st s g = (r, st')"
  obtains (cached) k where "bt_get (st_skipped_keys st) (s, g) = Some k" "r = Ok k"
      "st' = st\<lparr> st_skipped_keys := bt_remove (s, g) (st_skipped_keys st) \<rparr>"
  | (derived) k where "r = Ok k" "derived_step P bases st s g k st'"
  | (refused) e where "r = Err e" "st' = st"
proof (cases "bt_get (st_skipped_keys st) (s, g)")
  case (Some k)
  then show ?thesis using req cached by (simp add: get_message_key_def)
next
  case none: None
  show ?thesis
  proof (cases "get_chain st s")
    case None
    then show ?thesis using none req refused by (auto simp: get_message_key_def)
  next
    case (Some c)
    have same: "set_chain s c (st_chains st) = st_chains st" using Some by (simp add: get_chain_map_of set_chain_same)
    consider "g < sc_generation c" | "g = sc_generation c" "g < sc_max_generation c"
      | "g = sc_generation c" "\<not> g < sc_max_generation c"
      | "sc_generation c < g" "g < sc_max_generation c" "g - sc_generation c \<le> sc_max_skipped_per_sender c"
      | "sc_generation c < g" "\<not> (g < sc_max_generation c \<and> g - sc_generation c \<le> sc_max_skipped_per_sender c)"
      by linarith
    then show ?thesis
    proof cases
      case 1
      then show ?thesis using none Some req refused by (auto simp: get_message_key_def)
    next
      case 2
      then show ?thesis using get_message_key_exact [OF inv none Some] req derived by auto
    next
      case 3
      then have "next_message_key P c = (Err (GroupProtocol ''Sender key chain exhausted -- trigger epoch update''), c)"
        by (simp add: next_message_key_def)
      then show ?thesis using none Some req 3 same refused by (auto simp: get_message_key_def)
    next
      case 4
      then show ?thesis using get_message_key_ahead [OF inv none Some] req derived by auto
    next
      case 5
      then have "\<exists>e. sc_advance_to P c g = (Err e, c)"
        by (cases "g < sc_max_generation c") (simp_all add: sc_advance_to_def Let_def)
      then obtain e where "sc_advance_to P c g = (Err e, c)" ..
      then show ?thesis using none Some req 5 same refused by (auto simp: get_message_key_def)
    qed
  qed
qed

lemma store_inv_cached:
  "store_inv P bases st \<Longrightarrow> store_inv P bases (st\<lparr> st_skipped_keys := bt_remove k (st_skipped_keys st) \<rparr>)"
  by (auto simp: store_inv_def get_chain_def split: if_splits)

lemma store_inv_derived:
  assumes "store_inv P bases st" "derived_step P bases st s g k st'"
  shows "store_inv P bases st'"
proof -
  obtain c c' m where d: "get_chain st s = Some c" "chain_rel P (bases s) c'" "same_policy c c'" "sc_generation c' = g + 1"
    "bt_inv m" "\<And>x h y. bt_get m (x, h) = Some y \<Longrightarrow> bt_get (st_skipped_keys st) (x, h) = Some y \<or>
        x = s \<and> sc_generation c \<le> h \<and> h < g \<and> key_at P (sc_enhanced c) (bases s) h y"
    "st' = st\<lparr> st_chains := set_chain s c' (st_chains st), st_skipped_keys := m \<rparr>"
    using assms(2) unfolding derived_step_def by blast
  show ?thesis unfolding d(7)
  proof (rule store_inv_step [OF assms(1) d(1,2,3,5)])
    fix x h y assume "bt_get m (x, h) = Some y"
    from d(6) [OF this] d(4) show "bt_get (st_skipped_keys st) (x, h) = Some y \<or>
        x = s \<and> h < sc_generation c' \<and> key_at P (sc_enhanced c) (bases s) h y" by auto
  qed
qed

lemma get_message_key_inv:
  assumes "store_inv P bases st" "get_message_key P st s g = (r, st')"
  shows "store_inv P bases st'" and "cache_bounded st \<Longrightarrow> cache_bounded st'"
proof -
  from assms show "store_inv P bases st'"
    by (rule get_message_key_cases) (use assms(1) in \<open>auto intro: store_inv_cached store_inv_derived\<close>)
  assume b: "cache_bounded st"
  from assms show "cache_bounded st'"
  proof (cases rule: get_message_key_cases)
    case (cached k)
    have "sender_count x (bt_remove (s, g) m) \<le> sender_count x m" if "bt_inv m" for x and m :: "(nat \<times> nat, bytes) btree"
      unfolding sender_count_def bt_remove_filter [OF that] by (induction m) auto
    moreover have "bt_inv (st_skipped_keys st)" using assms(1) by (simp add: store_inv_def)
    ultimately show ?thesis using b cached(3) bt_length_remove [of "(s, g)" "st_skipped_keys st"]
      by (fastforce simp: cache_bounded_def intro: order_trans)
  qed (use b in \<open>auto simp: derived_step_def\<close>)
qed

lemma next_own_derived:
  assumes "store_inv P bases st" "next_own_message_key P st i = (Ok (g, k), st')"
  shows "derived_step P bases st i g k st' \<and> get_message_key P st i g = (Ok k, st')"
proof -
  obtain c where c: "get_chain st i = Some c"
    using assms(2) by (cases "get_chain st i") (auto simp: next_own_message_key_def)
  have lt: "sc_generation c < sc_max_generation c"
    using assms(2) c by (cases "sc_generation c < sc_max_generation c")
      (auto simp: next_own_message_key_def next_message_key_def split: prod.splits)
  have rel: "chain_rel P (bases i) c" using assms(1) c by (simp add: store_inv_def)
  have g: "g = sc_generation c"
    using assms(2) c next_message_key_rel [OF rel lt] by (auto simp: next_own_message_key_def)
  have none: "bt_get (st_skipped_keys st) (i, g) = None"
    using assms(1) c g by (cases "bt_get (st_skipped_keys st) (i, g)") (force simp: store_inv_def)+
  obtain k' st'' where s: "get_message_key P st i g = (Ok k', st'')" "derived_step P bases st i g k' st''"
    using get_message_key_exact [OF assms(1) none c g] lt g by auto
  have "get_message_key P st i g = (Ok k, st')"
    using none c g assms(2) by (auto simp: get_message_key_def next_own_message_key_def split: prod.splits)
  with s show ?thesis by simp
qed

lemma next_own_refused:
  assumes "store_inv P bases st" "next_own_message_key P st i = (Err e, st')"
  shows "st' = st"
proof (cases "get_chain st i")
  case (Some c)
  have rel: "chain_rel P (bases i) c" using assms(1) Some by (simp add: store_inv_def)
  have "\<not> sc_generation c < sc_max_generation c"
    using assms(2) Some next_message_key_rel [OF rel] by (auto simp: next_own_message_key_def split: prod.splits)
  then show ?thesis using assms(2) Some
    by (auto simp: next_own_message_key_def next_message_key_def get_chain_map_of set_chain_same)
qed (use assms(2) in \<open>simp add: next_own_message_key_def\<close>)

section \<open>Histories of a store\<close>

text \<open>Any sequence of requests for received and own keys, refused ones included; \<open>used\<close> lists
  the positions whose key was handed out.\<close>

inductive sk_reach :: "prims \<Rightarrow> sender_key_store \<Rightarrow> sender_key_store \<Rightarrow> (nat \<times> nat) list \<Rightarrow> bool"
  for P :: prims and st0 :: sender_key_store where
  start: "sk_reach P st0 st0 []"
| recv_ok: "sk_reach P st0 st used \<Longrightarrow> get_message_key P st s g = (Ok k, st') \<Longrightarrow> sk_reach P st0 st' ((s, g) # used)"
| recv_err: "sk_reach P st0 st used \<Longrightarrow> get_message_key P st s g = (Err e, st') \<Longrightarrow> sk_reach P st0 st' used"
| send_ok: "sk_reach P st0 st used \<Longrightarrow> next_own_message_key P st i = (Ok (g, k), st') \<Longrightarrow> sk_reach P st0 st' ((i, g) # used)"
| send_err: "sk_reach P st0 st used \<Longrightarrow> next_own_message_key P st i = (Err e, st') \<Longrightarrow> sk_reach P st0 st' used"

definition used_inv :: "sender_key_store \<Rightarrow> (nat \<times> nat) list \<Rightarrow> bool" where
  "used_inv st used \<longleftrightarrow> distinct used \<and> (\<forall>(s, g) \<in> set used. bt_get (st_skipped_keys st) (s, g) = None \<and>
     (\<exists>c. get_chain st s = Some c \<and> g < sc_generation c))"

lemma used_inv_request:
  assumes inv: "store_inv P bases st" and u: "used_inv st used" and req: "get_message_key P st s g = (Ok k, st')"
  shows "used_inv st' ((s, g) # used)"
  using inv req
proof (cases rule: get_message_key_cases)
  case (cached k)
  have "\<exists>c. get_chain st s = Some c \<and> g < sc_generation c" using inv cached(1) unfolding store_inv_def by blast
  moreover have "(s, g) \<notin> set used" using u cached(1) by (auto simp: used_inv_def)
  moreover have "bt_inv (st_skipped_keys st)" using inv by (simp add: store_inv_def)
  ultimately show ?thesis using u cached(3) by (auto simp: used_inv_def get_chain_def)
next
  case (derived k)
  obtain c c' m where d: "get_chain st s = Some c" "sc_generation c \<le> g" "same_policy c c'" "sc_generation c' = g + 1"
    "\<And>x h y. bt_get m (x, h) = Some y \<Longrightarrow> bt_get (st_skipped_keys st) (x, h) = Some y \<or> x = s \<and> sc_generation c \<le> h \<and> h < g"
    "st' = st\<lparr> st_chains := set_chain s c' (st_chains st), st_skipped_keys := m \<rparr>"
    "bt_get (st_skipped_keys st) (s, g) = None"
    using derived(2) unfolding derived_step_def by blast
  have gc: "get_chain st' j = (if j = s then Some c' else get_chain st j)" for j
    using d(1) by (simp add: d(6) get_chain_map_of map_of_set_chain)
  have old: "bt_get m (x, h) = None \<and> (\<exists>c. get_chain st' x = Some c \<and> h < sc_generation c)" if "(x, h) \<in> set used" for x h
  proof -
    have n: "bt_get (st_skipped_keys st) (x, h) = None" "\<exists>c. get_chain st x = Some c \<and> h < sc_generation c"
      using u that by (auto simp: used_inv_def)
    then have "\<not> (x = s \<and> sc_generation c \<le> h)" using d(1) by auto
    with n d(5) [of x h] have "bt_get m (x, h) = None" by (cases "bt_get m (x, h)") auto
    moreover have "\<exists>c. get_chain st' x = Some c \<and> h < sc_generation c" using n(2) d(1,2,4) by (auto simp: gc)
    ultimately show ?thesis ..
  qed
  have "bt_get m (s, g) = None" using d(5) [of s g] d(7) by (cases "bt_get m (s, g)") auto
  moreover have "(s, g) \<notin> set used" using u d(1,2) by (auto simp: used_inv_def)
  moreover have "st_skipped_keys st' = m" by (simp add: d(6))
  ultimately show ?thesis using u old d(4) gc by (auto simp: used_inv_def)
qed simp

lemma sk_reach_inv:
  assumes "sk_reach P st0 st used" "store_inv P bases st0"
  shows "store_inv P bases st \<and> used_inv st used \<and> (cache_bounded st0 \<longrightarrow> cache_bounded st)"
  using assms
proof (induction rule: sk_reach.induct)
  case start
  then show ?case by (simp add: used_inv_def)
next
  case (recv_ok st used s g k st')
  then have a: "store_inv P bases st" "used_inv st used" "cache_bounded st0 \<longrightarrow> cache_bounded st" by blast+
  show ?case
    using used_inv_request [OF a(1,2) recv_ok.hyps(2)] get_message_key_inv [OF a(1) recv_ok.hyps(2)] a(3) by blast
next
  case (recv_err st used s g e st')
  then have "st' = st" using get_message_key_cases [of P bases st s g "Err e" st'] by blast
  then show ?case using recv_err by simp
next
  case (send_ok st used i g k st')
  then have a: "store_inv P bases st" "used_inv st used" "cache_bounded st0 \<longrightarrow> cache_bounded st" by blast+
  have "get_message_key P st i g = (Ok k, st')" using next_own_derived [OF a(1) send_ok.hyps(2)] ..
  then show ?case
    using used_inv_request [OF a(1,2)] get_message_key_inv [OF a(1)] a(3) by blast
next
  case (send_err st used i e st')
  then have "st' = st" using next_own_refused by blast
  then show ?case using send_err by simp
qed

definition all_enhanced :: "bool \<Rightarrow> sender_key_store \<Rightarrow> bool" where
  "all_enhanced enh st \<longleftrightarrow> (\<forall>i c. get_chain st i = Some c \<longrightarrow> sc_enhanced c = enh)"

lemma all_enhanced_request:
  assumes inv: "store_inv P bases st" and e: "all_enhanced enh st" and req: "get_message_key P st s g = (r, st')"
  shows "all_enhanced enh st'"
  using inv req
proof (cases rule: get_message_key_cases)
  case (cached k)
  then show ?thesis using e by (simp add: all_enhanced_def get_chain_def)
next
  case (derived k)
  then obtain c c' m where "get_chain st s = Some c" "same_policy c c'"
    "st' = st\<lparr> st_chains := set_chain s c' (st_chains st), st_skipped_keys := m \<rparr>"
    unfolding derived_step_def by blast
  then show ?thesis using e by (auto simp: all_enhanced_def same_policy_def get_chain_map_of map_of_set_chain)
qed (use e in simp)

lemma sk_reach_enhanced:
  assumes "sk_reach P st0 st used" "store_inv P bases st0" "all_enhanced enh st0"
  shows "all_enhanced enh st"
  using assms
proof (induction rule: sk_reach.induct)
  case (recv_ok st used s g k st')
  then show ?case using sk_reach_inv [OF recv_ok.hyps(1)] all_enhanced_request by blast
next
  case (recv_err st used s g e st')
  then show ?case using sk_reach_inv [OF recv_err.hyps(1)] all_enhanced_request by blast
next
  case (send_ok st used i g k st')
  then have "store_inv P bases st" using sk_reach_inv by blast
  then show ?case using send_ok next_own_derived all_enhanced_request by blast
next
  case (send_err st used i e st')
  then have "st' = st" using sk_reach_inv next_own_refused by blast
  then show ?case using send_err by simp
qed

section \<open>Properties\<close>

lemma epoch_chains_get:
  assumes "epoch_chains P es gch enh mg ms leaves = Ok cs" "map_of cs i = Some c"
  shows "\<exists>base. derive_sender_key_base P es i gch = Ok base \<and> length base = 32 \<and>
    c = \<lparr> sc_leaf_index = i, sc_chain_key = base, sc_generation = 0, sc_enhanced = enh, sc_max_generation = mg,
          sc_max_skipped_per_sender = ms \<rparr>"
  using assms
proof (induction leaves arbitrary: cs)
  case (Cons l leaves)
  then show ?case
    by (auto simp: result_simps new_with_policy_def split: if_splits)
qed simp

definition epoch_base :: "prims \<Rightarrow> bytes \<Rightarrow> bytes \<Rightarrow> nat \<Rightarrow> bytes" where
  "epoch_base P es gch i = (case derive_sender_key_base P es i gch of Inr b \<Rightarrow> b | Inl _ \<Rightarrow> [])"

lemma new_epoch_inv:
  assumes "crypto_ok P" "new_epoch_with_policy P es leaves gch enh mg ms = Ok st"
  shows "store_inv P (epoch_base P es gch) st" and "cache_bounded st" and "all_enhanced enh st"
proof -
  obtain cs where cs: "epoch_chains P es gch enh mg ms leaves = Ok cs" "st_chains st = cs" "st_skipped_keys st = []"
    using assms(2) by (auto simp: new_epoch_with_policy_def result_simps)
  have "chain_rel P (epoch_base P es gch i) c" if "get_chain st i = Some c" for i c
  proof -
    have "map_of cs i = Some c" using that cs(2) by (simp add: get_chain_map_of)
    from epoch_chains_get [OF cs(1) this] assms(1) show ?thesis
      by (auto simp: chain_rel_def epoch_base_def chain_at_0)
  qed
  then show "store_inv P (epoch_base P es gch) st" using cs(3) by (simp add: store_inv_def)
  show "all_enhanced enh st"
    using epoch_chains_get [OF cs(1)] cs(2) by (fastforce simp: all_enhanced_def get_chain_map_of)
  show "cache_bounded st" using cs(3) by (simp add: cache_bounded_def sender_count_def)
qed

lemma epoch_chains_ok:
  assumes "crypto_ok P" "length es = 32"
  shows "\<exists>cs. epoch_chains P es gch enh mg ms leaves = Ok cs \<and> set leaves \<subseteq> dom (map_of cs)"
proof (induction leaves)
  case (Cons l leaves)
  then obtain cs where cs: "epoch_chains P es gch enh mg ms leaves = Ok cs" "set leaves \<subseteq> dom (map_of cs)" by blast
  obtain b where "derive_sender_key_base P es l gch = Ok b" "length b = 32"
    using derive_sender_key_base_ok assms by (metis crypto_ok_def)
  with cs show ?case by (auto simp: new_with_policy_def)
qed simp

text \<open>An epoch can be entered, and the first key of each member can be taken by it and by others.\<close>

lemma new_epoch_first_keys:
  assumes "crypto_ok P" "length es = 32" "i \<in> set leaves" "0 < mg"
  shows "\<exists>st k a b. new_epoch_with_policy P es leaves gch enh mg ms = Ok st \<and>
    next_own_message_key P st i = (Ok (0, k), a) \<and> get_message_key P st i 0 = (Ok k, b)"
proof -
  obtain cs where cs: "epoch_chains P es gch enh mg ms leaves = Ok cs" "set leaves \<subseteq> dom (map_of cs)"
    using epoch_chains_ok [OF assms(1,2)] by blast
  let ?st = "\<lparr> st_chains = cs, st_skipped_keys = [], st_max_skipped_per_sender = ms, st_max_skipped_total = 256 \<rparr>"
  have n: "new_epoch_with_policy P es leaves gch enh mg ms = Ok ?st" using cs by (simp add: new_epoch_with_policy_def)
  obtain c where c: "map_of cs i = Some c" using cs(2) assms(3) by auto
  have g: "sc_generation c = 0" "sc_max_generation c = mg" using epoch_chains_get [OF cs(1) c] by auto
  have rel: "chain_rel P (epoch_base P es gch i) c"
    using new_epoch_inv(1) [OF assms(1) n] c by (simp add: store_inv_def get_chain_map_of)
  obtain k c' where "next_message_key P c = (Ok (0, k), c')"
    using next_message_key_rel [OF rel] g assms(4) by auto
  then show ?thesis using n c g
    by (intro exI [of _ ?st]) (simp add: next_own_message_key_def get_message_key_def get_chain_map_of)
qed

lemma sample_crypto_ok: "crypto_ok sample_prims"
  by (simp add: crypto_ok_def sample_hkdf_ok sample_hash_ok)

text \<open>C22. Members that entered an epoch with the same secret agree on message keys: when one
  member, after any history, takes the key of its next own message, and another member, after any
  history of its own, is given a key for that sender and generation, the two keys are equal,
  whatever was skipped, reordered, refused or evicted in between.\<close>

theorem sender_keys_agree:
  assumes "crypto_ok P"
    and "new_epoch_with_policy P es leaves gch enh mg ms = Ok st0" "new_epoch_with_policy P es leaves' gch enh mg' ms' = Ok st0'"
    and "sk_reach P st0 a used" "sk_reach P st0' b used'"
    and "next_own_message_key P a i = (Ok (g, k), a')" "get_message_key P b i g = (Ok k', b')"
  shows "k = k'"
proof -
  have ia: "store_inv P (epoch_base P es gch) a" and ib: "store_inv P (epoch_base P es gch) b"
    using sk_reach_inv assms(4,5) new_epoch_inv [OF assms(1)] assms(2,3) by blast+
  have ea: "all_enhanced enh a" and eb: "all_enhanced enh b"
    using sk_reach_enhanced [OF assms(4) new_epoch_inv(1,3) [OF assms(1,2)]]
      sk_reach_enhanced [OF assms(5) new_epoch_inv(1,3) [OF assms(1,3)]] by blast+
  have "key_at P enh (epoch_base P es gch i) g k"
    using next_own_derived [OF ia assms(6)] ea by (auto simp: derived_step_def all_enhanced_def)
  moreover have "key_at P enh (epoch_base P es gch i) g k'"
    using ib assms(7)
  proof (cases rule: get_message_key_cases)
    case (cached y)
    then have "\<exists>c. get_chain b i = Some c \<and> key_at P (sc_enhanced c) (epoch_base P es gch i) g y"
      using ib unfolding store_inv_def by blast
    then show ?thesis using eb cached(2) by (auto simp: all_enhanced_def)
  qed (use eb in \<open>auto simp: derived_step_def all_enhanced_def\<close>)
  ultimately show ?thesis by (rule key_at_fun)
qed

theorem sender_keys_agree_witness:
  "\<exists>st k a b. new_epoch_with_policy sample_prims (zeros 32) [0, 1] [9] True 10 5 = Ok st \<and>
     next_own_message_key sample_prims st 1 = (Ok (0, k), a) \<and> get_message_key sample_prims st 1 0 = (Ok k, b)"
proof -
  obtain st k a k' b where e: "new_epoch_with_policy sample_prims (zeros 32) [0, 1] [9] True 10 5 = Ok st"
    "next_own_message_key sample_prims st 1 = (Ok (0, k), a)" "get_message_key sample_prims st 1 0 = (Ok k', b)"
    using new_epoch_first_keys [OF sample_crypto_ok, of "zeros 32" 1 "[0, 1]" 10] by fastforce
  have "k = k'"
    by (rule sender_keys_agree [OF sample_crypto_ok e(1,1) sk_reach.start sk_reach.start e(2,3)])
  with e show ?thesis by blast
qed

text \<open>C23. Over any history of an epoch, received and own messages together, no position of any
  sender's chain yields its key twice, and the cache of skipped keys keeps within its total and
  per-sender bounds.\<close>

theorem sender_keys_used_once:
  assumes "crypto_ok P" "new_epoch_with_policy P es leaves gch enh mg ms = Ok st0" "sk_reach P st0 st used"
  shows "distinct used \<and> length (st_skipped_keys st) \<le> st_max_skipped_total st \<and>
    (\<forall>s. sender_count s (st_skipped_keys st) \<le> st_max_skipped_per_sender st)"
  using sk_reach_inv [OF assms(3) new_epoch_inv(1) [OF assms(1,2)]] new_epoch_inv(2) [OF assms(1,2)]
  by (simp add: used_inv_def cache_bounded_def)

theorem sender_keys_used_once_witness:
  "\<exists>st0 st. new_epoch_with_policy sample_prims (zeros 32) [0, 1] [9] True 10 5 = Ok st0 \<and>
     sk_reach sample_prims st0 st [(1, 0)] \<and> length (st_skipped_keys st) \<le> st_max_skipped_total st"
proof -
  obtain st0 k st where e: "new_epoch_with_policy sample_prims (zeros 32) [0, 1] [9] True 10 5 = Ok st0"
    "get_message_key sample_prims st0 1 0 = (Ok k, st)"
    using new_epoch_first_keys [OF sample_crypto_ok, of "zeros 32" 1 "[0, 1]" 10] by fastforce
  have r: "sk_reach sample_prims st0 st [(1, 0)]" using sk_reach.recv_ok [OF sk_reach.start e(2)] .
  with sender_keys_used_once [OF sample_crypto_ok e(1) r] e(1) show ?thesis by blast
qed

text \<open>C24. In any reachable store a request that is refused, for whatever reason, leaves the store as
  it was; in particular a refused position can still be asked for later, and asking again for a
  position whose key was handed out is refused as a replay.\<close>

theorem sender_key_refusal:
  assumes "crypto_ok P" "new_epoch_with_policy P es leaves gch enh mg ms = Ok st0" "sk_reach P st0 st used"
  shows "(get_message_key P st s g = (Err e, st') \<longrightarrow> st' = st) \<and>
    ((s, g) \<in> set used \<longrightarrow> get_message_key P st s g =
      (Err (ReplayAttack ''Generation {generation} already consumed for sender {sender_leaf_index}''), st))"
proof -
  have inv: "store_inv P (epoch_base P es gch) st" and u: "used_inv st used"
    using sk_reach_inv [OF assms(3) new_epoch_inv(1) [OF assms(1,2)]] by auto
  have "st' = st" if "get_message_key P st s g = (Err e, st')"
    using inv that by (cases rule: get_message_key_cases) auto
  moreover have "get_message_key P st s g =
      (Err (ReplayAttack ''Generation {generation} already consumed for sender {sender_leaf_index}''), st)"
    if "(s, g) \<in> set used"
    using u that by (auto simp: used_inv_def get_message_key_def)
  ultimately show ?thesis by blast
qed

theorem sender_key_refusal_witness:
  "\<exists>st0 st. new_epoch_with_policy sample_prims (zeros 32) [0, 1] [9] True 10 5 = Ok st0 \<and>
     sk_reach sample_prims st0 st [(1, 0)] \<and> \<not> is_ok (fst (get_message_key sample_prims st 1 0))"
proof -
  obtain st0 k st where e: "new_epoch_with_policy sample_prims (zeros 32) [0, 1] [9] True 10 5 = Ok st0"
    "get_message_key sample_prims st0 1 0 = (Ok k, st)"
    using new_epoch_first_keys [OF sample_crypto_ok, of "zeros 32" 1 "[0, 1]" 10] by fastforce
  have r: "sk_reach sample_prims st0 st [(1, 0)]" using sk_reach.recv_ok [OF sk_reach.start e(2)] .
  with sender_key_refusal [OF sample_crypto_ok e(1) r, of 1 0] e(1) show ?thesis by auto
qed

end
