(* ===== verification/Proto_Group.thy ===== *)
theory Proto_Group
  imports Core
begin

text \<open>
  The messages of \<^verbatim>\<open>proto/protocol/group.proto\<close> that the group protocol builds and reads, as
  records. A message field that may be absent is an \<open>option\<close>, a repeated field a list; the
  alternatives of a proposal are the constructors of a datatype. Encoding and decoding of messages
  is generated code and does not appear here.
\<close>

type_synonym timestamp = "int \<times> int"

record group_key_package =
  kp_version :: nat
  kp_identity_ed25519_public :: bytes
  kp_identity_x25519_public :: bytes
  kp_leaf_x25519_public :: bytes
  kp_leaf_kyber_public :: bytes
  kp_signature :: bytes
  kp_credential :: bytes
  kp_created_at :: "timestamp option"
  kp_identity_kyber_public :: bytes

record group_tree_node =
  tn_node_index :: nat
  tn_x25519_public :: bytes
  tn_kyber_public :: bytes
  tn_x25519_private :: bytes
  tn_kyber_secret :: bytes
  tn_parent_hash :: bytes
  tn_key_package :: "group_key_package option"

datatype group_proposal =
    Add "group_key_package option"
  | Remove nat
  | Update bytes bytes
  | ExternalInit bytes bytes bytes
  | Psk bytes bytes
  | ReInit bytes nat

record group_hybrid_ciphertext =
  hc_ephemeral_x25519_public :: bytes
  hc_kyber_ciphertext :: bytes
  hc_encrypted_secret :: bytes
  hc_nonce :: bytes

record group_update_path_node =
  upn_x25519_public :: bytes
  upn_kyber_public :: bytes
  upn_encrypted_path_secrets :: "group_hybrid_ciphertext list"
  upn_parent_hash :: bytes

record group_update_path =
  up_leaf_x25519_public :: bytes
  up_leaf_kyber_public :: bytes
  up_nodes :: "group_update_path_node list"
  up_leaf_signature :: bytes

end
