(* ===== verification/Key_Package.thy ===== *)
theory Key_Package
  imports Dh_Validator Proto_Group
begin

text \<open>
  Key packages (\<^verbatim>\<open>protocol/group/key_package.rs\<close>): creation, validation, signing and the sealing
  of their private secrets. The identity enters through its public keys and a copy of its signing
  key; the random draws of key generation and of the nonce are arguments.
\<close>

section \<open>Ed25519 wrappers\<close>

definition ed25519_sign :: "prims \<Rightarrow> bytes \<Rightarrow> bytes \<Rightarrow> bytes pres" where
  "ed25519_sign P secret_key message =
     (if length secret_key \<noteq> ED25519_SECRET_KEY_BYTES then
        Err (InvalidInput ''Invalid Ed25519 secret key size'')
      else if \<not> sig_keypair_ok P secret_key then
        Err (KeyGeneration ''Invalid Ed25519 keypair bytes'')
      else Ok (sig_sign P secret_key message))"

definition ed25519_verify :: "prims \<Rightarrow> bytes \<Rightarrow> bytes \<Rightarrow> bytes \<Rightarrow> unit pres" where
  "ed25519_verify P public_key signature message =
     (if length public_key \<noteq> ED25519_PUBLIC_KEY_BYTES then
        Err (InvalidInput ''Invalid Ed25519 public key size'')
      else if length signature \<noteq> ED25519_SIGNATURE_BYTES then
        Err (InvalidInput ''Invalid Ed25519 signature size'')
      else if \<not> sig_pk_ok P public_key then Err (PeerPubKey ''Invalid Ed25519 public key'')
      else if \<not> sig_verify P public_key signature message then
        Err (PeerPubKey ''Ed25519 signature verification failed'')
      else Ok ())"

section \<open>Key packages\<close>

definition build_signed_content ::
    "nat \<Rightarrow> bytes \<Rightarrow> bytes \<Rightarrow> bytes \<Rightarrow> bytes \<Rightarrow> bytes \<Rightarrow> bytes \<Rightarrow> bytes" where
  "build_signed_content version identity_ed25519 identity_x25519 identity_kyber leaf_x25519 leaf_kyber credential =
     le_bytes 4 version @ identity_ed25519 @ identity_x25519 @ identity_kyber @ leaf_x25519 @ leaf_kyber @ credential"

definition create_key_package ::
    "prims \<Rightarrow> bytes \<Rightarrow> bytes \<Rightarrow> bytes \<Rightarrow> bytes pres \<Rightarrow> bytes \<Rightarrow> bytes \<Rightarrow> bytes \<Rightarrow> bytes
      \<Rightarrow> (group_key_package \<times> handle \<times> handle) pres" where
  "create_key_package P identity_ed25519 identity_x25519 identity_kyber ed25519_private_copy credential
       x_rand k_rand k_test_rand =
     res_bind (generate_x25519_keypair P x_rand) (\<lambda>(x25519_private, x25519_pub).
     res_bind (map_err CryptoErr (kyber_generate_keypair P k_rand k_test_rand)) (\<lambda>(kyber_secret, kyber_pub).
       if length credential > MAX_CREDENTIAL_SIZE then
         Err (InvalidInput ''Credential size {} exceeds maximum {MAX_CREDENTIAL_SIZE} bytes'')
       else
         let sign_content = build_signed_content GROUP_PROTOCOL_VERSION identity_ed25519 identity_x25519
               identity_kyber x25519_pub kyber_pub credential
         in res_bind ed25519_private_copy (\<lambda>ed25519_secret.
            res_bind (ed25519_sign P ed25519_secret sign_content) (\<lambda>signature.
              Ok (\<lparr> kp_version = GROUP_PROTOCOL_VERSION, kp_identity_ed25519_public = identity_ed25519,
                    kp_identity_x25519_public = identity_x25519, kp_leaf_x25519_public = x25519_pub,
                    kp_leaf_kyber_public = kyber_pub, kp_signature = signature, kp_credential = credential,
                    kp_created_at = None, kp_identity_kyber_public = identity_kyber \<rparr>,
                  x25519_private, kyber_secret)))))"

definition validate_key_package :: "prims \<Rightarrow> group_key_package \<Rightarrow> unit pres" where
  "validate_key_package P pkg =
     (if kp_version pkg \<noteq> GROUP_PROTOCOL_VERSION then
        Err (InvalidInput ''Unsupported KeyPackage version: {} (expected {})'')
      else if length (kp_credential pkg) > MAX_CREDENTIAL_SIZE then
        Err (InvalidInput ''Credential size {} exceeds maximum {MAX_CREDENTIAL_SIZE} bytes'')
      else if length (kp_identity_ed25519_public pkg) \<noteq> ED25519_PUBLIC_KEY_BYTES then
        Err (InvalidInput ''Invalid Ed25519 public key size'')
      else if length (kp_identity_x25519_public pkg) \<noteq> X25519_PUBLIC_KEY_BYTES then
        Err (InvalidInput ''Invalid identity X25519 public key size'')
      else if length (kp_identity_kyber_public pkg) \<noteq> KYBER_PUBLIC_KEY_BYTES then
        Err (InvalidInput ''Invalid identity Kyber public key size'')
      else if length (kp_leaf_x25519_public pkg) \<noteq> X25519_PUBLIC_KEY_BYTES then
        Err (InvalidInput ''Invalid leaf X25519 public key size'')
      else if length (kp_leaf_kyber_public pkg) \<noteq> KYBER_PUBLIC_KEY_BYTES then
        Err (InvalidInput ''Invalid leaf Kyber public key size'')
      else if length (kp_signature pkg) \<noteq> ED25519_SIGNATURE_BYTES then
        Err (InvalidInput ''Invalid signature size'')
      else
        res_bind (validate_x25519_public_key (kp_identity_x25519_public pkg)) (\<lambda>_.
        res_bind (map_err CryptoErr (kyber_validate_public_key P (kp_identity_kyber_public pkg))) (\<lambda>_.
        res_bind (validate_x25519_public_key (kp_leaf_x25519_public pkg)) (\<lambda>_.
        res_bind (map_err CryptoErr (kyber_validate_public_key P (kp_leaf_kyber_public pkg))) (\<lambda>_.
          ed25519_verify P (kp_identity_ed25519_public pkg) (kp_signature pkg)
            (build_signed_content (kp_version pkg) (kp_identity_ed25519_public pkg) (kp_identity_x25519_public pkg)
               (kp_identity_kyber_public pkg) (kp_leaf_x25519_public pkg) (kp_leaf_kyber_public pkg)
               (kp_credential pkg)))))))"

definition sign_existing_key_package ::
    "prims \<Rightarrow> bytes \<Rightarrow> bytes \<Rightarrow> bytes \<Rightarrow> bytes \<Rightarrow> bytes \<Rightarrow> bytes \<Rightarrow> bytes \<Rightarrow> bytes pres" where
  "sign_existing_key_package P ed25519_secret identity_ed25519 identity_x25519 identity_kyber leaf_x25519 leaf_kyber credential =
     ed25519_sign P ed25519_secret
       (build_signed_content GROUP_PROTOCOL_VERSION identity_ed25519 identity_x25519 identity_kyber
          leaf_x25519 leaf_kyber credential)"

section \<open>Sealing the secrets\<close>

definition KEY_PACKAGE_SECRETS_SEAL_VERSION :: u8 where
  "KEY_PACKAGE_SECRETS_SEAL_VERSION = 1"

definition KEY_PACKAGE_SECRETS_SEAL_AAD :: bytes where
  "KEY_PACKAGE_SECRETS_SEAL_AAD = ascii ''aura-group-key-package-secrets-v1''"

definition seal_key_package_secrets :: "prims \<Rightarrow> handle \<Rightarrow> handle \<Rightarrow> bytes \<Rightarrow> bytes \<Rightarrow> bytes pres" where
  "seal_key_package_secrets P x25519_private kyber_secret seal_key nonce =
     (if length seal_key \<noteq> AES_KEY_BYTES then Err (InvalidInput ''Seal key must be {AES_KEY_BYTES} bytes'')
      else
        res_bind (map_err CryptoErr (read_bytes x25519_private (length x25519_private))) (\<lambda>x.
        res_bind (map_err CryptoErr (read_bytes kyber_secret (length kyber_secret))) (\<lambda>k.
          if length x > u16_max then Err (InvalidInput ''Key package secret exceeds maximum length'')
          else if length k > u16_max then Err (InvalidInput ''Key package secret exceeds maximum length'')
          else
            let inner = be_bytes 2 (length x) @ x @ be_bytes 2 (length k) @ k
            in res_bind (aes_gcm_encrypt P seal_key nonce inner KEY_PACKAGE_SECRETS_SEAL_AAD) (\<lambda>ciphertext.
                 Ok ([KEY_PACKAGE_SECRETS_SEAL_VERSION] @ nonce @ ciphertext)))))"

definition read_len_prefixed :: "bytes \<Rightarrow> nat \<Rightarrow> (bytes \<times> nat) pres" where
  "read_len_prefixed buf offset =
     (if offset + 2 > length buf then Err (InvalidInput ''Malformed sealed key package secrets'')
      else
        let len = be_value [buf ! offset, buf ! (offset + 1)];
            start = offset + 2;
            end_pos = start + len
        in if end_pos > length buf then Err (InvalidInput ''Malformed sealed key package secrets'')
           else Ok (take len (drop start buf), end_pos))"

definition unseal_key_package_secrets :: "prims \<Rightarrow> bytes \<Rightarrow> bytes \<Rightarrow> (handle \<times> handle) pres" where
  "unseal_key_package_secrets P sealed seal_key =
     (if length seal_key \<noteq> AES_KEY_BYTES then Err (InvalidInput ''Seal key must be {AES_KEY_BYTES} bytes'')
      else
        let header = 1 + AES_GCM_NONCE_BYTES
        in if length sealed < header + AES_GCM_TAG_BYTES then
             Err (InvalidInput ''Sealed key package secrets too short'')
           else if sealed ! 0 \<noteq> KEY_PACKAGE_SECRETS_SEAL_VERSION then
             Err (InvalidInput ''Unsupported sealed key package secrets version'')
           else
             let nonce = take AES_GCM_NONCE_BYTES (drop 1 sealed);
                 ciphertext = drop header sealed
             in res_bind (aes_gcm_decrypt P seal_key nonce ciphertext KEY_PACKAGE_SECRETS_SEAL_AAD) (\<lambda>inner.
                res_bind (read_len_prefixed inner 0) (\<lambda>(x, off1).
                res_bind (read_len_prefixed inner off1) (\<lambda>(k, off2).
                  if off2 \<noteq> length inner then
                    Err (InvalidInput ''Trailing bytes in sealed key package secrets'')
                  else
                    res_bind (map_err CryptoErr (new_handle P (length x) x)) (\<lambda>x_handle.
                    res_bind (map_err CryptoErr (new_handle P (length k) k)) (\<lambda>k_handle.
                      Ok (x_handle, k_handle)))))))"

section \<open>Round trips\<close>

lemma two_elements: "length xs = 2 \<Longrightarrow> \<exists>a b. xs = [a, b]"
  by (auto simp: numeral_2_eq_2 length_Suc_conv)

lemma read_len_prefixed_append:
  assumes "length x \<le> u16_max"
  shows "read_len_prefixed (pre @ be_bytes 2 (length x) @ x @ rest) (length pre) = Ok (x, length pre + 2 + length x)"
proof -
  obtain a b where ab: "be_bytes 2 (length x) = [a, b]"
    using two_elements length_be_bytes by blast
  have "be_value [a, b] = length x"
    using assms be_value_be_bytes [of "length x" 2] ab by simp
  then show ?thesis by (simp add: read_len_prefixed_def ab nth_append)
qed

lemma ed25519_sign_verify:
  assumes "sig_ok P" "sig_keygen P seed = (sk, pk)"
  shows "ed25519_sign P sk m = Ok (sig_sign P sk m) \<and> ed25519_verify P pk (sig_sign P sk m) m = Ok () \<and>
    length (sig_sign P sk m) = 64 \<and> length pk = 32"
proof -
  from assms(1) [unfolded sig_ok_def, rule_format, of m seed] assms(2)
  show ?thesis by (simp add: ed25519_sign_def ed25519_verify_def)
qed

definition signed_content :: "group_key_package \<Rightarrow> bytes" where
  "signed_content kp = build_signed_content (kp_version kp) (kp_identity_ed25519_public kp) (kp_identity_x25519_public kp)
     (kp_identity_kyber_public kp) (kp_leaf_x25519_public kp) (kp_leaf_kyber_public kp) (kp_credential kp)"

lemma validate_key_package_sizes:
  assumes "validate_key_package P kp = Ok ()"
  shows "kp_version kp = GROUP_PROTOCOL_VERSION" "length (kp_identity_ed25519_public kp) = 32"
    "length (kp_identity_x25519_public kp) = 32" "length (kp_identity_kyber_public kp) = 1184"
    "length (kp_leaf_x25519_public kp) = 32" "length (kp_leaf_kyber_public kp) = 1184"
    "length (kp_signature kp) = 64" "length (kp_credential kp) \<le> MAX_CREDENTIAL_SIZE"
    "ed25519_verify P (kp_identity_ed25519_public kp) (kp_signature kp) (signed_content kp) = Ok ()"
  using assms by (auto simp: validate_key_package_def signed_content_def result_simps split: if_splits)

lemma signed_content_inject:
  assumes "validate_key_package P a = Ok ()" "validate_key_package P b = Ok ()" "signed_content a = signed_content b"
  shows "a = b\<lparr> kp_signature := kp_signature a, kp_created_at := kp_created_at a \<rparr>"
  using assms(3) validate_key_package_sizes [OF assms(1)] validate_key_package_sizes [OF assms(2)]
  by (cases a, cases b) (simp add: signed_content_def build_signed_content_def)

section \<open>Properties\<close>

text \<open>C37. Sealing the secrets of a key package and unsealing the result under the same key gives
  both secrets back.\<close>

theorem key_package_seal_roundtrip:
  assumes "aead_ok P" "length key = AES_KEY_BYTES" "length nonce = AES_GCM_NONCE_BYTES"
    and "0 < length x" "length x \<le> u16_max" "slot_free P (length x)"
    and "0 < length k" "length k \<le> u16_max" "slot_free P (length k)"
  shows "\<exists>sealed. seal_key_package_secrets P x k key nonce = Ok sealed \<and>
    unseal_key_package_secrets P sealed key = Ok (x, k)"
proof -
  let ?inner = "be_bytes 2 (length x) @ x @ be_bytes 2 (length k) @ k"
  have "length ?inner \<le> 2 ^ 36" "length KEY_PACKAGE_SECRETS_SEAL_AAD \<le> 2 ^ 36"
    using assms(5,8) by (simp_all add: KEY_PACKAGE_SECRETS_SEAL_AAD_def)
  then obtain c where c: "aes_gcm_encrypt P key nonce ?inner KEY_PACKAGE_SECRETS_SEAL_AAD = Ok c"
    "length c = length ?inner + 16" "aes_gcm_decrypt P key nonce c KEY_PACKAGE_SECRETS_SEAL_AAD = Ok ?inner"
    using aes_gcm_seal_ex [OF assms(1), of key nonce ?inner KEY_PACKAGE_SECRETS_SEAL_AAD] assms(2,3)
    unfolding AES_KEY_BYTES_def AES_GCM_NONCE_BYTES_def by blast
  have r1: "read_len_prefixed ?inner 0 = Ok (x, 2 + length x)"
    using read_len_prefixed_append [OF assms(5), of "[]"] by simp
  have r2: "read_len_prefixed ?inner (2 + length x) = Ok (k, 4 + length x + length k)"
    using read_len_prefixed_append [OF assms(8), of "be_bytes 2 (length x) @ x" "[]"] by simp
  have "new_handle P (length x) x = Ok x" "new_handle P (length k) k = Ok k"
    using assms by (auto intro!: new_handle_exact)
  with assms c r1 r2 show ?thesis
    by (simp add: seal_key_package_secrets_def unseal_key_package_secrets_def)
qed

theorem key_package_seal_roundtrip_witness:
  "\<exists>sealed. seal_key_package_secrets sample_prims [1, 2] [3] (zeros 32) (zeros 12) = Ok sealed \<and>
    unseal_key_package_secrets sample_prims sealed (zeros 32) = Ok ([1, 2], [3])"
  by (rule key_package_seal_roundtrip) (simp_all add: sample_ok)

lemma create_key_package_ok:
  assumes "sig_ok P" "kem_ok P" "x25519_keys_ok P" "slot_free P 32" "slot_free P 64"
    and "sig_keygen P seed = (sk, ed)" "validate_x25519_public_key ix = Ok ()"
    and "kyber_validate_public_key P ik = Ok ()" "length cred \<le> MAX_CREDENTIAL_SIZE" "length xr = X25519_PRIVATE_KEY_BYTES"
    and "mlkem_keygen P kr = (dk, ek)" "\<not> list_all (\<lambda>b. b = 0) ek"
  shows "\<exists>kp. create_key_package P ed ix ik (Ok sk) cred xr kr kt = Ok (kp, xr, dk) \<and> validate_key_package P kp = Ok () \<and>
    kp_leaf_x25519_public kp = x25519_public P xr \<and> kp_leaf_kyber_public kp = ek \<and> kp_identity_ed25519_public kp = ed"
proof -
  have lx: "validate_x25519_public_key (x25519_public P xr) = Ok ()" using assms(3,10) by (simp add: x25519_keys_ok_def)
  then have len: "length (x25519_public P xr) = 32" "length ix = 32"
    using assms(7) by (auto simp: validate_x25519_public_key_def split: if_splits)
  have lk: "length ik = 1184" using assms(8) by (auto simp: kyber_validate_public_key_def split: if_splits)
  have ek: "kyber_validate_public_key P ek = Ok ()" "length ek = 1184"
    using kem_ok_keygen [OF assms(2,11)] assms(12) by (simp_all add: kyber_validate_public_key_def)
  note s = ed25519_sign_verify [OF assms(1,6)]
  have "\<not> length cred > MAX_CREDENTIAL_SIZE" using assms(9) by simp
  with s lx len lk ek assms generate_x25519_keypair_ok [of xr P] kyber_generate_keypair_ok [OF assms(2,5,11), of kt]
  show ?thesis by (simp add: create_key_package_def validate_key_package_def Let_def)
qed

text \<open>C36. A key package made with an identity's keys passes validation, and its private parts belong
  to its leaf keys. The signature covers the version, the three identity keys, the two leaf keys
  and the credential (the comment in \<^verbatim>\<open>group.proto\<close> leaves the identity keys out): another valid
  package with the same signed content differs from it in the signature and the unsigned creation
  time only.\<close>

theorem created_key_package_valid:
  assumes "sig_ok P" "kem_ok P" "x25519_keys_ok P" "slot_free P 32" "slot_free P 64"
    and "sig_keygen P seed = (sk, ed)" "validate_x25519_public_key ix = Ok ()"
    and "kyber_validate_public_key P ik = Ok ()" "length cred \<le> MAX_CREDENTIAL_SIZE" "length xr = X25519_PRIVATE_KEY_BYTES"
    and "mlkem_keygen P kr = (dk, ek)" "\<not> list_all (\<lambda>b. b = 0) ek"
  shows "\<exists>kp. create_key_package P ed ix ik (Ok sk) cred xr kr kt = Ok (kp, xr, dk) \<and>
    validate_key_package P kp = Ok () \<and> kp_leaf_x25519_public kp = x25519_public P xr \<and> kp_leaf_kyber_public kp = ek \<and>
    (\<forall>kp'. validate_key_package P kp' = Ok () \<and> signed_content kp' = signed_content kp \<longrightarrow>
       kp' = kp\<lparr> kp_signature := kp_signature kp', kp_created_at := kp_created_at kp' \<rparr>)"
  using create_key_package_ok [OF assms, of kt] signed_content_inject by blast

lemma sample_keys_valid:
  "validate_x25519_public_key (fill 31 [] @ [7]) = Ok ()" "kyber_validate_public_key sample_prims (fill 1184 [1]) = Ok ()"
  "\<not> list_all (\<lambda>b. b = 0) (fill 1184 [1])"
proof -
  have "x25519_public sample_prims (zeros 32) = fill 31 [] @ [7]" by (simp add: sample_prims_def fill_def zeros_def)
  then show "validate_x25519_public_key (fill 31 [] @ [7]) = Ok ()"
    using sample_x25519_keys_ok by (metis X25519_PRIVATE_KEY_BYTES_def length_zeros x25519_keys_ok_def)
  show nz: "\<not> list_all (\<lambda>b. b = 0) (fill 1184 [1])" by (simp add: fill_def)
  then show "kyber_validate_public_key sample_prims (fill 1184 [1]) = Ok ()"
    by (simp add: kyber_validate_public_key_def sample_prims_def)
qed

lemma sample_key_package:
  obtains kp where "validate_key_package sample_prims kp = Ok ()" "kp_identity_ed25519_public kp = fill 32 [5]"
  using create_key_package_ok [OF sample_sig_ok sample_kem_ok sample_x25519_keys_ok sample_slots sample_slots _ sample_keys_valid(1,2),
      of "[5]" "fill 32 [5] @ fill 32 [5]" "fill 32 [5]" "[9]" "zeros 32" "[]" "fill 64 []" "fill 1184 [1]" "[]"] sample_keys_valid(3) that
  by (auto simp: sample_prims_def)

theorem created_key_package_valid_witness:
  "\<exists>kp. create_key_package sample_prims (fill 32 [5]) (fill 31 [] @ [7]) (fill 1184 [1]) (Ok (fill 32 [5] @ fill 32 [5]))
      [9] (zeros 32) [] [] = Ok (kp, zeros 32, fill 64 []) \<and> validate_key_package sample_prims kp = Ok ()"
  using created_key_package_valid [OF sample_sig_ok sample_kem_ok sample_x25519_keys_ok sample_slots sample_slots
      _ sample_keys_valid(1,2), of "[5]" "fill 32 [5] @ fill 32 [5]" "fill 32 [5]" "[9]" "zeros 32" "[]" "fill 64 []" "fill 1184 [1]" "[]"]
    sample_keys_valid(3)
  by (auto simp: sample_prims_def)

end
