(* ===== verification/Tree_Math.thy ===== *)
theory Tree_Math
  imports Core
begin

text \<open>
  Index arithmetic of the left-balanced ratchet tree (\<^verbatim>\<open>protocol/group/tree.rs\<close>, the free
  functions). Node indices and leaf counts are \<open>u32\<close> values, as natural numbers; the bit
  operations are those of the code, with the truncating shift of \<open>right\<close> written out.
  Doubling a leaf count panics from \<open>2 ^ 31\<close> on, which is an error value of \<open>root\<close>; the
  statements below are for trees whose depth is within \<open>MAX_TREE_DEPTH\<close>, which covers every
  tree the library builds.

  Shown here: the bit formulas denote a binary tree in which every node below the node count has
  its place, \<open>parent\<close> inverts \<open>left\<close> and \<open>right\<close>, all loops end, and a leaf, its direct
  path and the subtrees of its copath partition the tree.
\<close>

section \<open>Operations\<close>

text \<open>\<open>(!x).trailing_zeros()\<close>: the number of trailing one bits.\<close>

function level :: "nat \<Rightarrow> nat" where
  "level x = (if odd x then Suc (level (x div 2)) else 0)"
  by pat_completeness auto

termination level
  by (relation "measure id") (auto elim: oddE)

declare level.simps [simp del]

definition is_leaf :: "nat \<Rightarrow> bool" where
  "is_leaf x \<longleftrightarrow> x AND 1 = 0"

definition node_count :: "nat \<Rightarrow> nat" where
  "node_count n = (if n = 0 then 0 else 2 * n - 1)"

fun ilog2 :: "nat \<Rightarrow> nat" where
  "ilog2 x = (if x \<le> 1 then 0 else Suc (ilog2 (x div 2)))"

declare ilog2.simps [simp del]

definition log2 :: "nat \<Rightarrow> nat pres" where
  "log2 x = (if x = 0 then Err (TreeIntegrity ''log2(0) is undefined'') else Ok (ilog2 x))"

definition root :: "nat \<Rightarrow> nat pres" where
  "root n =
     (if n = 0 then Err (TreeIntegrity ''root: leaf count must be > 0'')
      else if 2 * n > u32_max then Err (Generic ''panic: attempt to multiply with overflow'')
      else res_bind (log2 (node_count n)) (\<lambda>k. Ok (push_bit k 1 - 1)))"

definition left :: "nat \<Rightarrow> nat pres" where
  "left x =
     (if is_leaf x then Err (TreeIntegrity ''left: leaves have no children'')
      else let k = level x
      in if k = 0 then Err (TreeIntegrity ''left: level must be > 0 for non-leaf'')
         else Ok (x XOR push_bit (k - 1) 1))"

text \<open>Bits of a node.\<close>

lemma is_leaf_iff: "is_leaf x \<longleftrightarrow> even x"
  by (simp add: is_leaf_def and_one_eq even_iff_mod_2_eq_zero)

lemma level_odd: "odd x \<Longrightarrow> level x = Suc (level (x div 2))"
  by (simp add: level.simps)

lemma level_even [simp]: "even x \<Longrightarrow> level x = 0"
  by (simp add: level.simps)

lemma level_pos_iff: "0 < level x \<longleftrightarrow> odd x"
  by (simp add: level.simps)

lemma bit_level: "\<not> bit x (level x)" and bit_below_level: "i < level x \<Longrightarrow> bit x i"
proof (induction x arbitrary: i rule: level.induct)
  case (1 x)
  { case 1
    show ?case using 1 "1.IH"(1) by (cases "odd x") (simp_all add: level_odd bit_Suc bit_0)
  next
    case 2
    then have "odd x" using level_pos_iff [of x] by (metis gr_zeroI not_less0)
    with 2 "1.IH"(2) [OF \<open>odd x\<close>] show ?case by (cases i) (simp_all add: level_odd bit_Suc bit_0) }
qed

lemma left_odd: "odd x \<Longrightarrow> left x = Ok (x - 2 ^ (level x - 1))"
  using level_pos_iff [of x] bit_below_level [of "level x - 1" x]
  by (simp add: left_def is_leaf_iff Let_def xor_bit_set)

lemma left_even: "even x \<Longrightarrow> left x = Err (TreeIntegrity ''left: leaves have no children'')"
  by (simp add: left_def is_leaf_iff)

lemma left_less: "left x = Ok l \<Longrightarrow> l < x"
  by (cases "even x") (auto simp: left_odd left_even elim: oddE)

text \<open>\<open>right\<close> starts at the sibling position of the full tree and goes left until the node
  exists.\<close>

function descend :: "nat \<Rightarrow> nat \<Rightarrow> nat pres" where
  "descend n r = (if node_count n \<le> r then res_bind (left r) (descend n) else Ok r)"
  by pat_completeness auto

termination descend
  by (relation "measure snd") (auto dest: left_less)

declare descend.simps [simp del]

definition right :: "nat \<Rightarrow> nat \<Rightarrow> nat pres" where
  "right x n =
     (if is_leaf x then Err (TreeIntegrity ''right: leaves have no children'')
      else let k = level x
      in if k = 0 then Err (TreeIntegrity ''right: level must be > 0 for non-leaf'')
         else descend n (x XOR take_bit 32 (push_bit (k - 1) 3)))"

function find_parent :: "nat \<Rightarrow> nat \<Rightarrow> nat \<Rightarrow> nat \<Rightarrow> nat \<Rightarrow> nat option pres" where
  "find_parent node target n nc depth =
     (if depth > MAX_TREE_DEPTH then Err (TreeIntegrity ''parent_walk: exceeded MAX_TREE_DEPTH'')
      else if is_leaf node \<or> node \<ge> nc then Ok None
      else res_bind (left node) (\<lambda>l.
           res_bind (right node n) (\<lambda>r.
             if l = target \<or> r = target then Ok (Some node)
             else res_bind (find_parent l target n nc (depth + 1)) (\<lambda>left_result.
               if left_result \<noteq> None then Ok left_result
               else find_parent r target n nc (depth + 1)))))"
  by pat_completeness auto

termination find_parent
  by (relation "measure (\<lambda>(_, _, _, _, depth). Suc MAX_TREE_DEPTH - depth)") auto

declare find_parent.simps [simp del]

definition parent_walk :: "nat \<Rightarrow> nat \<Rightarrow> nat pres" where
  "parent_walk x n =
     res_bind (root n) (\<lambda>r.
     res_bind (find_parent r x n (node_count n) 0) (\<lambda>p.
       Ok (case p of Some q \<Rightarrow> q | None \<Rightarrow> r)))"

definition parent :: "nat \<Rightarrow> nat \<Rightarrow> nat pres" where
  "parent x n =
     res_bind (root n) (\<lambda>r.
       if x = r then Err (TreeIntegrity ''parent: root has no parent'')
       else let k = level x
       in if k \<ge> 31 then Err (TreeIntegrity ''parent: node level exceeds tree depth'')
          else let b = drop_bit (k + 1) x AND 1;
                   p = (x OR push_bit k 1) XOR push_bit (k + 1) b
               in if p > r \<or> p \<ge> node_count n then parent_walk x n else Ok p)"

definition sibling :: "nat \<Rightarrow> nat \<Rightarrow> nat pres" where
  "sibling x n =
     res_bind (parent x n) (\<lambda>p.
     res_bind (left p) (\<lambda>l. if l = x then right p n else Ok l))"

definition checked_leaf_to_node :: "nat \<Rightarrow> nat pres" where
  "checked_leaf_to_node leaf_idx =
     (if leaf_idx * 2 \<le> u32_max then Ok (leaf_idx * 2)
      else Err (TreeIntegrity ''checked_leaf_to_node: leaf index overflow''))"

definition leaf_to_node :: "nat \<Rightarrow> nat pres" where
  "leaf_to_node leaf_idx = checked_leaf_to_node leaf_idx"

definition node_to_leaf :: "nat \<Rightarrow> nat option" where
  "node_to_leaf node_idx = (if is_leaf node_idx then Some (node_idx div 2) else None)"

section \<open>The tree the indices describe\<close>

text \<open>A node of level \<open>k\<close> is \<open>2 ^ k (2 j + 1) - 1\<close>; in a full tree the nodes below it are the
  interval from \<open>lo\<close> to \<open>hi\<close>.\<close>

definition lo :: "nat \<Rightarrow> nat" where
  "lo x = x + 1 - 2 ^ level x"

definition hi :: "nat \<Rightarrow> nat" where
  "hi x = x + 2 ^ level x - 1"

lemma level_form: "\<exists>j. x + 1 = 2 ^ level x * (2 * j + 1)"
proof (induction x rule: level.induct)
  case (1 x)
  show ?case
  proof (cases "odd x")
    case True
    with 1 obtain j where "x div 2 + 1 = 2 ^ level (x div 2) * (2 * j + 1)" by blast
    moreover have "x + 1 = 2 * (x div 2 + 1)" using True by (elim oddE) simp
    ultimately have "x + 1 = 2 ^ level x * (2 * j + 1)" using True by (simp add: level_odd)
    then show ?thesis by blast
  next
    case False
    then show ?thesis by (auto elim!: evenE)
  qed
qed

lemma level_unique: "x + 1 = 2 ^ k * (2 * j + 1) \<Longrightarrow> level x = k"
proof (induction k arbitrary: x)
  case 0
  then show ?case by simp
next
  case (Suc k)
  then have e: "x + 1 = 2 * (2 ^ k * (2 * j + 1))" by simp
  then have "odd x" by presburger
  moreover from e have "x div 2 + 1 = 2 ^ k * (2 * j + 1)" by presburger
  ultimately show ?case using Suc.IH by (simp add: level_odd)
qed

lemma level_le: "2 ^ level x \<le> x + 1"
  using level_form [of x] by (metis le_add2 mult.right_neutral mult_le_mono2)

abbreviation tree_size :: "nat \<Rightarrow> bool" where
  "tree_size n \<equiv> 0 < n \<and> n \<le> 2 ^ MAX_TREE_DEPTH"

lemma lo_le: "lo x \<le> x" and hi_ge: "x \<le> hi x"
proof -
  have "0 < (2::nat) ^ level x" by simp
  then show "lo x \<le> x" "x \<le> hi x" unfolding lo_def hi_def by linarith+
qed

lemma node_count_odd: "0 < n \<Longrightarrow> odd (node_count n)"
  by (cases n) (simp_all add: node_count_def)

lemma left_spec:
  assumes "odd x"
  shows "\<exists>l. left x = Ok l \<and> Suc (level l) = level x \<and> lo l = lo x \<and> Suc (hi l) = x"
proof -
  obtain m where m: "level x = Suc m" using assms level_odd by blast
  obtain j where j: "x + 1 = 2 ^ Suc m * (2 * j + 1)" using level_form [of x] m by auto
  define l where "l = x - 2 ^ m"
  have p: "2 ^ m \<le> x" using bit_below_level [of m x] m by (intro pow_le_bit) simp
  then have l1: "l + 1 = 2 ^ m * (2 * (2 * j) + 1)" using j by (simp add: l_def algebra_simps)
  then have lv: "level l = m" by (rule level_unique)
  have "left x = Ok l" using assms m by (simp add: left_odd l_def)
  moreover have "lo l = lo x" using l1 j by (simp add: lo_def lv m algebra_simps)
  moreover have "Suc (hi l) = x" using p odd_pos [OF assms] unfolding hi_def lv unfolding l_def by simp
  ultimately show ?thesis using lv m by auto
qed

lemma full_right_spec:
  assumes "odd x" "level x < 32"
  shows "\<exists>r. x XOR take_bit 32 (push_bit (level x - 1) 3) = r \<and> Suc (level r) = level x \<and> lo r = Suc x \<and> hi r = hi x"
proof -
  obtain m where m: "level x = Suc m" using assms level_odd by blast
  obtain j where j: "x + 1 = 2 ^ Suc m * (2 * j + 1)" using level_form [of x] m by auto
  have "m < 31" using m assms(2) by simp
  then have "(2::nat) ^ m \<le> 2 ^ 30" by (intro power_increasing) simp_all
  then have t: "take_bit 32 (push_bit m 3 :: nat) = push_bit m 3"
    by (intro take_bit_nat_eq_self) (simp add: push_bit_eq_mult)
  have three: "(3::nat) = 1 XOR 2" by simp
  have "push_bit m 3 = (2::nat) ^ m XOR 2 ^ Suc m"
    by (subst three, subst push_bit_xor) (simp add: push_bit_eq_mult)
  then have "x XOR push_bit m 3 = (x XOR 2 ^ m) XOR 2 ^ Suc m" by (simp add: xor.assoc)
  also have "x XOR 2 ^ m = x - 2 ^ m" using bit_below_level [of m x] m by (simp add: xor_bit_set)
  also have "(x - 2 ^ m) XOR 2 ^ Suc m = x - 2 ^ m + 2 ^ Suc m"
    using bit_level [of x] m xor_bit_set [of x m] bit_below_level [of m x]
    by (intro xor_bit_clear) (simp add: bit_xor_iff bit_exp_iff flip: xor_bit_set)
  finally have r: "x XOR push_bit m 3 = x + 2 ^ m"
    using pow_le_bit [of x m] bit_below_level [of m x] m by simp
  have r1: "x + 2 ^ m + 1 = 2 ^ m * (2 * (2 * j + 1) + 1)" using j by (simp add: algebra_simps)
  then have lv: "level (x + 2 ^ m) = m" by (rule level_unique)
  then show ?thesis using m t r by (simp add: lo_def hi_def)
qed

lemma descend_spec:
  assumes "lo r < node_count n"
  shows "\<exists>r'. descend n r = Ok r' \<and> r' < node_count n \<and> level r' \<le> level r \<and> lo r' = lo r \<and>
    min (hi r') (node_count n - 1) = min (hi r) (node_count n - 1)"
  using assms
proof (induction n r rule: descend.induct)
  case (1 n r)
  show ?case
  proof (cases "node_count n \<le> r")
    case True
    have "odd r"
    proof
      assume "even r"
      then have "lo r = r" by (simp add: lo_def)
      with True 1(2) show False by simp
    qed
    then obtain l where l: "left r = Ok l" "Suc (level l) = level r" "lo l = lo r" "Suc (hi l) = r"
      using left_spec by blast
    from 1(1) [OF True l(1)] l(3) 1(2) obtain r' where r': "descend n l = Ok r'" "r' < node_count n"
      "level r' \<le> level l" "lo r' = lo l" "min (hi r') (node_count n - 1) = min (hi l) (node_count n - 1)" by auto
    moreover have "node_count n - 1 \<le> hi l" "node_count n - 1 \<le> hi r" using l(4) True hi_ge [of r] by auto
    moreover have "descend n r = descend n l" using True l(1) by (simp add: descend.simps [of n r])
    ultimately show ?thesis using l by (auto simp: min_def)
  next
    case False
    then show ?thesis by (simp add: descend.simps [of n r])
  qed
qed

lemma level_bound: "x < node_count n \<Longrightarrow> tree_size n \<Longrightarrow> level x < 31"
proof -
  assume "x < node_count n" "tree_size n"
  moreover have "node_count n \<le> 2 * n" by (simp add: node_count_def)
  ultimately have "x + 1 < 2 ^ 31" by simp
  with level_le [of x] have "(2::nat) ^ level x < 2 ^ 31" by linarith
  then show ?thesis by (rule power_less_imp_less_exp [rotated]) simp
qed

lemma right_spec:
  assumes "odd x" "x < node_count n" "tree_size n"
  shows "\<exists>r. right x n = Ok r \<and> r < node_count n \<and> level r < level x \<and> lo r = Suc x \<and>
    min (hi r) (node_count n - 1) = min (hi x) (node_count n - 1)"
proof -
  have "level x < 32" using level_bound [OF assms(2,3)] by simp
  then obtain r0 where r0: "x XOR take_bit 32 (push_bit (level x - 1) 3) = r0"
    "Suc (level r0) = level x" "lo r0 = Suc x" "hi r0 = hi x" using full_right_spec assms(1) by blast
  have "Suc x \<noteq> node_count n" using assms(1) node_count_odd [of n] assms(3) by (metis even_Suc)
  then have "lo r0 < node_count n" using r0(3) assms(2) by simp
  then obtain r where "descend n r0 = Ok r" "r < node_count n" "level r \<le> level r0" "lo r = lo r0"
    "min (hi r) (node_count n - 1) = min (hi r0) (node_count n - 1)" using descend_spec by blast
  moreover have "right x n = descend n r0"
    using assms(1) r0 level_pos_iff [of x] by (simp add: right_def is_leaf_iff Let_def)
  ultimately show ?thesis using r0 by auto
qed

lemma ilog2_bounds: "0 < x \<Longrightarrow> 2 ^ ilog2 x \<le> x \<and> x < 2 ^ Suc (ilog2 x)"
proof (induction x rule: ilog2.induct)
  case (1 x)
  show ?case
  proof (cases "x \<le> 1")
    case True
    with 1(2) show ?thesis by (simp add: ilog2.simps)
  next
    case False
    with 1 have "2 ^ ilog2 (x div 2) \<le> x div 2 \<and> x div 2 < 2 ^ Suc (ilog2 (x div 2))" by simp
    moreover have "ilog2 x = Suc (ilog2 (x div 2))" using False by (simp add: ilog2.simps [of x])
    ultimately show ?thesis by auto
  qed
qed

lemma root_spec:
  assumes "0 < n" "n < 2 ^ 31"
  shows "\<exists>r. root n = Ok r \<and> r < node_count n \<and> lo r = 0 \<and> node_count n - 1 \<le> hi r \<and> (n \<le> 2 ^ k \<longrightarrow> level r \<le> k)"
proof -
  define m where "m = ilog2 (node_count n)"
  have pos: "0 < node_count n" using assms by (simp add: node_count_def)
  have b: "2 ^ m \<le> node_count n" "node_count n < 2 ^ Suc m" using ilog2_bounds [OF pos] by (auto simp: m_def)
  have r: "root n = Ok (2 ^ m - 1)" using assms pos by (simp add: root_def log2_def m_def)
  have lv: "level (2 ^ m - 1) = m" by (rule level_unique [where j = 0]) simp
  have "m \<le> k" if "n \<le> 2 ^ k"
  proof -
    have "node_count n < 2 ^ Suc k" using assms that by (simp add: node_count_def)
    with b(1) have "(2::nat) ^ m < 2 ^ Suc k" by linarith
    then show ?thesis by (metis less_Suc_eq_le one_less_numeral_iff power_less_imp_less_exp semiring_norm(76))
  qed
  moreover have "lo (2 ^ m - 1) = 0" "node_count n - 1 \<le> hi (2 ^ m - 1)" "2 ^ m - 1 < node_count n"
    using b unfolding lo_def hi_def lv by simp_all
  ultimately show ?thesis using r lv by auto
qed

text \<open>The nodes of the tree with \<open>n\<close> leaves below \<open>x\<close>: an interval, and the reachable ones.\<close>

definition sub :: "nat \<Rightarrow> nat \<Rightarrow> nat set" where
  "sub n x = {lo x .. min (hi x) (node_count n - 1)}"

inductive below :: "nat \<Rightarrow> nat \<Rightarrow> nat \<Rightarrow> bool" for n where
  here: "below n x x"
| left: "left x = Ok l \<Longrightarrow> below n l y \<Longrightarrow> below n x y"
| right: "right x n = Ok r \<Longrightarrow> below n r y \<Longrightarrow> below n x y"

lemma sub_leaf: "even x \<Longrightarrow> x < node_count n \<Longrightarrow> sub n x = {x}"
  by (auto simp: sub_def lo_def hi_def)

lemma sub_self: "x < node_count n \<Longrightarrow> x \<in> sub n x"
  using lo_le [of x] hi_ge [of x] by (auto simp: sub_def)

lemma sub_root: "tree_size n \<Longrightarrow> root n = Ok r \<Longrightarrow> sub n r = {..< node_count n}"
  using root_spec [of n 0] by (auto simp: sub_def node_count_def)

text \<open>The two children split the nodes below an inner node.\<close>

lemma children:
  assumes "odd x" "x < node_count n" "tree_size n"
  shows "\<exists>l r. left x = Ok l \<and> right x n = Ok r \<and> l < node_count n \<and> r < node_count n \<and>
    level l < level x \<and> level r < level x \<and> l < x \<and> x < r \<and> sub n l = {lo x ..< x} \<and>
    sub n r = {x <.. min (hi x) (node_count n - 1)}"
proof -
  obtain l where l: "left x = Ok l" "Suc (level l) = level x" "lo l = lo x" "Suc (hi l) = x"
    using left_spec [OF assms(1)] by blast
  obtain r where r: "right x n = Ok r" "r < node_count n" "level r < level x" "lo r = Suc x"
    "min (hi r) (node_count n - 1) = min (hi x) (node_count n - 1)"
    using right_spec [OF assms] by blast
  have "sub n l = {lo x ..< x}" using l(3,4) assms(2) by (auto simp: sub_def)
  moreover have "sub n r = {x <.. min (hi x) (node_count n - 1)}" using r(4,5) by (auto simp: sub_def)
  moreover have "l < x" "x < r" using left_less [OF l(1)] r(4) lo_le [of r] by simp_all
  ultimately show ?thesis using l r assms(2) by auto
qed

lemma sub_inner:
  assumes "odd x" "x < node_count n" "tree_size n" "left x = Ok l" "right x n = Ok r"
  shows "sub n x = insert x (sub n l \<union> sub n r)" "x \<notin> sub n l" "x \<notin> sub n r" "sub n l \<inter> sub n r = {}"
proof -
  have c: "sub n l = {lo x ..< x}" "sub n r = {x <.. min (hi x) (node_count n - 1)}"
    using children [OF assms(1-3)] assms(4,5) by auto
  have "x \<in> {lo x .. min (hi x) (node_count n - 1)}" using sub_self [OF assms(2)] by (simp add: sub_def)
  then show "sub n x = insert x (sub n l \<union> sub n r)" unfolding c unfolding sub_def by auto
  show "x \<notin> sub n l" "x \<notin> sub n r" "sub n l \<inter> sub n r = {}" unfolding c by auto
qed

lemma right_even: "even x \<Longrightarrow> right x n = Err (TreeIntegrity ''right: leaves have no children'')"
  by (simp add: right_def is_leaf_iff)

lemma child_odd: "left x = Ok y \<or> right x n = Ok y \<Longrightarrow> odd x"
  by (metis left_even right_even sum.distinct(1))

lemma below_sub:
  assumes "below n x y" "x < node_count n" "tree_size n"
  shows "y \<in> sub n x"
  using assms
proof induction
  case (here x)
  then show ?case by (simp add: sub_self)
next
  case (left x l y)
  then have "odd x" by (intro child_odd) blast
  from children [OF this left.prems] left sub_inner(1) [OF this left.prems] show ?case by auto
next
  case (right x r y)
  then have "odd x" by (intro child_odd) blast
  from children [OF this right.prems] right sub_inner(1) [OF this right.prems] show ?case by auto
qed

lemma sub_below:
  assumes "x < node_count n" "tree_size n" "y \<in> sub n x"
  shows "below n x y"
  using assms
proof (induction "level x" arbitrary: x rule: less_induct)
  case less
  show ?case
  proof (cases "odd x")
    case True
    obtain l r where c: "left x = Ok l" "right x n = Ok r" "l < node_count n" "r < node_count n"
      "level l < level x" "level r < level x" using children [OF True less.prems(1,2)] by blast
    consider "y = x" | "y \<in> sub n l" | "y \<in> sub n r"
      using less.prems(3) sub_inner(1) [OF True less.prems(1,2) c(1,2)] by blast
    then show ?thesis
      by cases (use less.hyps c less.prems(2) in \<open>auto intro: below.intros\<close>)
  next
    case False
    then show ?thesis using less.prems by (simp add: sub_leaf below.here)
  qed
qed

lemma below_iff: "x < node_count n \<Longrightarrow> tree_size n \<Longrightarrow> below n x y \<longleftrightarrow> y \<in> sub n x"
  using below_sub sub_below by blast

section \<open>Parents\<close>

lemma find_parent_None:
  assumes "x < node_count n" "tree_size n" "y \<notin> sub n x" "depth + level x \<le> MAX_TREE_DEPTH"
  shows "find_parent x y n (node_count n) depth = Ok None"
  using assms
proof (induction "level x" arbitrary: x depth rule: less_induct)
  case less
  show ?case
  proof (cases "odd x")
    case True
    obtain l r where c: "left x = Ok l" "right x n = Ok r" "l < node_count n" "r < node_count n"
      "level l < level x" "level r < level x" using children [OF True less.prems(1,2)] by blast
    have y: "y \<notin> sub n l" "y \<notin> sub n r"
      using less.prems(3) sub_inner(1) [OF True less.prems(1,2) c(1,2)] by auto
    have "l \<noteq> y" "r \<noteq> y" using y sub_self c(3,4) by blast+
    moreover have "find_parent l y n (node_count n) (depth + 1) = Ok None"
      "find_parent r y n (node_count n) (depth + 1) = Ok None"
      using less.hyps c y less.prems(2,4) by simp_all
    ultimately show ?thesis
      using c less.prems True by (simp add: find_parent.simps [of x] is_leaf_iff)
  next
    case False
    then show ?thesis using less.prems by (simp add: find_parent.simps [of x] is_leaf_iff)
  qed
qed

lemma find_parent_Some:
  assumes "x < node_count n" "tree_size n" "y \<in> sub n x" "y \<noteq> x" "depth + level x \<le> MAX_TREE_DEPTH"
  shows "\<exists>p. find_parent x y n (node_count n) depth = Ok (Some p) \<and> p < node_count n \<and>
    (left p = Ok y \<or> right p n = Ok y)"
  using assms
proof (induction "level x" arbitrary: x depth rule: less_induct)
  case less
  have odd: "odd x" using less.prems sub_leaf [of x n] by (cases "even x") auto
  obtain l r where c: "left x = Ok l" "right x n = Ok r" "l < node_count n" "r < node_count n"
    "level l < level x" "level r < level x" using children [OF odd less.prems(1,2)] by blast
  note unfold = find_parent.simps [of x y n "node_count n" depth]
  have base: "\<not> depth > MAX_TREE_DEPTH" "\<not> (is_leaf x \<or> x \<ge> node_count n)"
    using less.prems odd by (auto simp: is_leaf_iff)
  show ?case
  proof (cases "l = y \<or> r = y")
    case True
    with c less.prems(1) base show ?thesis by (auto simp: unfold)
  next
    case False
    consider "y \<in> sub n l" | "y \<in> sub n r" "y \<notin> sub n l"
      using less.prems(3,4) sub_inner [OF odd less.prems(1,2) c(1,2)] by blast
    then show ?thesis
    proof cases
      case 1
      then have "\<exists>p. find_parent l y n (node_count n) (depth + 1) = Ok (Some p) \<and> p < node_count n \<and>
        (left p = Ok y \<or> right p n = Ok y)" using less.hyps [of l "depth + 1"] c False less.prems by auto
      with c base False show ?thesis by (auto simp: unfold)
    next
      case 2
      then have "\<exists>p. find_parent r y n (node_count n) (depth + 1) = Ok (Some p) \<and> p < node_count n \<and>
        (left p = Ok y \<or> right p n = Ok y)" using less.hyps [of r "depth + 1"] c False less.prems by auto
      moreover have "find_parent l y n (node_count n) (depth + 1) = Ok None"
        using 2 c less.prems by (intro find_parent_None) simp_all
      ultimately show ?thesis using c base False by (auto simp: unfold)
    qed
  qed
qed

lemma node_eq: "lo x = lo y \<Longrightarrow> level x = level y \<Longrightarrow> x = y"
  using level_le [of x] level_le [of y] unfolding lo_def by simp

text \<open>The closed formula of \<open>parent\<close> names the parent in the full tree.\<close>

lemma parent_formula:
  assumes "level x < 31"
  defines "p \<equiv> (x OR push_bit (level x) 1) XOR push_bit (level x + 1) (drop_bit (level x + 1) x AND 1)"
  shows "level p = Suc (level x) \<and> (lo p = lo x \<or> Suc p = lo x)"
proof -
  define k where "k = level x"
  obtain j where j: "x + 1 = 2 ^ k * (2 * j + 1)" using level_form [of x] by (auto simp: k_def)
  have "x + 1 = 2 ^ Suc k * j + 2 ^ k" using j by (simp add: algebra_simps)
  moreover have "0 < (2::nat) ^ k" "2 ^ Suc k * Suc j = 2 ^ Suc k * j + 2 * 2 ^ k" by simp_all
  ultimately have "2 ^ Suc k * j \<le> x" "x < 2 ^ Suc k * Suc j" by linarith+
  then have "x div 2 ^ Suc k = j" by (intro div_nat_eqI)
  then have bj: "bit x (Suc k) \<longleftrightarrow> odd j" by (simp add: bit_iff_odd)
  have b: "drop_bit (Suc k) x AND 1 = of_bool (odd j)"
    using \<open>x div 2 ^ Suc k = j\<close> by (simp add: drop_bit_eq_div and_one_eq mod_2_eq_odd)
  have q: "x OR 2 ^ k = x + 2 ^ k" using bit_level [of x] by (simp add: k_def or_bit_clear)
  have bq: "bit (x OR 2 ^ k) (Suc k) \<longleftrightarrow> odd j" using bj by (simp add: bit_or_iff bit_exp_iff)
  have p: "p = (x OR 2 ^ k) XOR (of_bool (odd j) * 2 ^ Suc k)"
    unfolding p_def k_def [symmetric] using b by (simp add: push_bit_eq_mult)
  have p1: "p + 1 = 2 ^ Suc k * (2 * (j div 2) + 1)"
  proof (cases "odd j")
    case True
    then obtain i where i: "j = 2 * i + 1" by (elim oddE)
    have "p = x + 2 ^ k - 2 ^ Suc k" using True bq q p xor_bit_set [of "x OR 2 ^ k" "Suc k"] by simp
    moreover have "x + 2 ^ k + 1 = 2 ^ Suc k * (2 * i + 1) + 2 ^ Suc k" using j i by (simp add: algebra_simps)
    ultimately show ?thesis using i by simp
  next
    case False
    then have "p = x + 2 ^ k" using p q by simp
    moreover from False obtain i where "j = 2 * i" by (auto elim: evenE)
    ultimately show ?thesis using j by (simp add: algebra_simps)
  qed
  then have lv: "level p = Suc k" by (rule level_unique)
  have lx: "lo x = 2 ^ Suc k * j" using j by (simp add: lo_def k_def [symmetric] algebra_simps)
  show ?thesis
  proof (cases "odd j")
    case True
    then have "2 * (j div 2) + 1 = j" by presburger
    with p1 lx have "Suc p = lo x" by (metis Suc_eq_plus1)
    with lv show ?thesis by (simp add: k_def)
  next
    case False
    then have "2 * (j div 2) = j" by presburger
    with p1 have "p + 1 = 2 ^ Suc k * j + 2 ^ Suc k" by (simp add: algebra_simps)
    with lv lx show ?thesis by (simp add: k_def lo_def)
  qed
qed

lemma parent_spec:
  assumes "x < node_count n" "tree_size n" "root n = Ok r" "x \<noteq> r"
  shows "\<exists>p. parent x n = Ok p \<and> p < node_count n \<and> (left p = Ok x \<or> right p n = Ok x)"
proof -
  define p where "p = (x OR push_bit (level x) 1) XOR push_bit (level x + 1) (drop_bit (level x + 1) x AND 1)"
  have r: "r < node_count n" "level r \<le> MAX_TREE_DEPTH" "sub n r = {..< node_count n}"
    using root_spec [of n MAX_TREE_DEPTH] sub_root [of n r] assms(2,3) by auto
  obtain q where q: "find_parent r x n (node_count n) 0 = Ok (Some q)" "q < node_count n"
    "left q = Ok x \<or> right q n = Ok x"
    using find_parent_Some [OF r(1) assms(2), of x 0] r assms by auto
  then have walk: "parent_walk x n = Ok q" using assms(3) by (simp add: parent_walk_def)
  have lv: "level x < 31" using level_bound assms(1,2) by blast
  have par: "parent x n = (if p > r \<or> p \<ge> node_count n then parent_walk x n else Ok p)"
    using assms(3,4) lv unfolding parent_def p_def by (simp add: Let_def)
  show ?thesis
  proof (cases "p > r \<or> p \<ge> node_count n")
    case True
    with par walk q show ?thesis by auto
  next
    case False
    have f: "level p = Suc (level x)" "lo p = lo x \<or> Suc p = lo x" using parent_formula [OF lv] by (auto simp: p_def)
    then have odd: "odd p" using level_pos_iff [of p] by simp
    have "left p = Ok x \<or> right p n = Ok x"
      using f(2)
    proof
      assume "lo p = lo x"
      with left_spec [OF odd] f(1) node_eq [of _ x] show ?thesis by auto
    next
      assume lo: "Suc p = lo x"
      have "level p < 32" using f(1) lv by simp
      from full_right_spec [OF odd this] lo f(1) have "p XOR take_bit 32 (push_bit (level p - 1) 3) = x"
        using node_eq [of _ x] by auto
      with odd f(1) assms(1) have "right p n = Ok x"
        by (simp add: right_def is_leaf_iff Let_def descend.simps [of n x])
      then show ?thesis ..
    qed
    with False par show ?thesis by auto
  qed
qed

lemma level_dvd: "2 ^ i dvd x + 1 \<Longrightarrow> i \<le> level x"
proof (induction i arbitrary: x)
  case 0
  then show ?case by simp
next
  case (Suc i)
  then have "2 dvd x + 1" by (metis dvd_mult_left power_Suc)
  then have "odd x" by simp
  then have "x + 1 = 2 * (x div 2 + 1)" by (elim oddE) simp
  with Suc.prems have "2 * 2 ^ i dvd 2 * (x div 2 + 1)" by (metis power_Suc)
  then have "2 ^ i dvd x div 2 + 1" by (metis dvd_times_left_cancel_iff zero_neq_numeral)
  with Suc.IH \<open>odd x\<close> show ?case by (simp add: level_odd)
qed

lemma parent_unique:
  assumes "p < node_count n" "q < node_count n" "tree_size n"
    and "left p = Ok x \<or> right p n = Ok x" "left q = Ok x \<or> right q n = Ok x"
  shows "p = q"
proof -
  have mixed: False if a: "p < node_count n" "q < node_count n" "left p = Ok x" "right q n = Ok x" for p q
  proof -
    have o: "odd p" "odd q" using child_odd that(3,4) by blast+
    have l: "lo x = lo p" "Suc (hi x) = p" using left_spec [OF o(1)] that(3) by auto
    have r: "lo x = Suc q" "min (hi x) (node_count n - 1) = min (hi q) (node_count n - 1)"
      using right_spec [OF o(2) a(2) assms(3)] a(4) by auto
    have h: "hi q + 1 = p" using r(2) l(2) a(1) by (auto simp: min_def split: if_splits)
    obtain j where j: "q + 1 = 2 ^ level q * (2 * j + 1)" using level_form by blast
    have "p + 1 = q + 1 + 2 ^ level q" using h by (simp add: hi_def)
    also have "\<dots> = 2 ^ Suc (level q) * (j + 1)" using j by (simp add: algebra_simps)
    finally have "2 ^ Suc (level q) dvd p + 1" by simp
    then have "Suc (level q) \<le> level p" by (rule level_dvd)
    then have "(2::nat) ^ Suc (level q) \<le> 2 ^ level p" by (intro power_increasing) simp_all
    then have "2 * 2 ^ level q \<le> (2::nat) ^ level p" by simp
    moreover have "0 < (2::nat) ^ level q" by simp
    ultimately have "lo p \<le> q" using \<open>p + 1 = q + 1 + 2 ^ level q\<close> unfolding lo_def by linarith
    with l r show False by simp
  qed
  have ll: "p = q" if "left p = Ok x" "left q = Ok x"
    using that left_spec [of p] left_spec [of q] child_odd [of p x] child_odd [of q x] by auto
  have rr: "p = q" if "right p n = Ok x" "right q n = Ok x"
    using that right_spec [of p n] right_spec [of q n] child_odd [of p x n] child_odd [of q x n] assms(1-3) by auto
  show ?thesis using assms(4,5) mixed [OF assms(1,2)] mixed [OF assms(2,1)] ll rr by blast
qed

lemma root_no_parent:
  assumes "tree_size n" "root n = Ok r" "p < node_count n" "left p = Ok x \<or> right p n = Ok x"
  shows "x \<noteq> r"
proof
  assume e: "x = r"
  have odd: "odd p" using child_odd assms(4) by blast
  obtain l q where c: "left p = Ok l" "right p n = Ok q" using children [OF odd assms(3,1)] by blast
  have "p \<notin> sub n x" using sub_inner [OF odd assms(3,1) c] c assms(4) by auto
  with e sub_root [of n r] assms show False by simp
qed

lemma parent_iff:
  assumes "tree_size n" "root n = Ok r" "p < node_count n" "left p = Ok x \<or> right p n = Ok x"
  shows "parent x n = Ok p"
proof -
  have odd: "odd p" using child_odd assms(4) by blast
  obtain l q where c: "left p = Ok l" "right p n = Ok q" "l < node_count n" "q < node_count n"
    using children [OF odd assms(3,1)] by blast
  then have "x < node_count n" using assms(4) by auto
  from parent_spec [OF this assms(1,2) root_no_parent [OF assms]]
  obtain p' where p': "parent x n = Ok p'" "p' < node_count n" "left p' = Ok x \<or> right p' n = Ok x" by blast
  with parent_unique [OF assms(3) p'(2) assms(1,4) p'(3)] show ?thesis by simp
qed

text \<open>One step up: the parent's nodes are the parent, the node's own and the sibling's.\<close>

lemma up_step:
  assumes "x < node_count n" "tree_size n" "root n = Ok r" "x \<noteq> r"
  shows "\<exists>p s. parent x n = Ok p \<and> sibling x n = Ok s \<and> parent s n = Ok p \<and> p < node_count n \<and> s < node_count n \<and>
    odd p \<and> level x < level p \<and> sub n p = insert p (sub n x \<union> sub n s) \<and> p \<notin> sub n x \<and> p \<notin> sub n s \<and>
    sub n x \<inter> sub n s = {}"
proof -
  obtain p where p: "parent x n = Ok p" "p < node_count n" "left p = Ok x \<or> right p n = Ok x"
    using parent_spec [OF assms] by blast
  have odd: "odd p" using child_odd p(3) by blast
  obtain a b where c: "left p = Ok a" "right p n = Ok b" "a < node_count n" "b < node_count n"
    "level a < level p" "level b < level p" "a < p" "p < b" using children [OF odd p(2) assms(2)] by blast
  note i = sub_inner [OF odd p(2) assms(2) c(1,2)]
  have pp: "parent a n = Ok p" "parent b n = Ok p" using parent_iff [OF assms(2,3) p(2)] c by auto
  show ?thesis
  proof (cases "a = x")
    case True
    then have "sibling x n = Ok b" using p c by (simp add: sibling_def)
    with True p c odd i pp show ?thesis by auto
  next
    case False
    then have "b = x" "sibling x n = Ok a" using p c by (simp_all add: sibling_def)
    with p c odd i pp show ?thesis by auto
  qed
qed

section \<open>Paths\<close>

lemma descend_level: "descend n r = Ok r' \<Longrightarrow> level r' \<le> level r \<and> r' < node_count n"
proof (induction n r rule: descend.induct)
  case (1 n r)
  show ?case
  proof (cases "node_count n \<le> r")
    case True
    with 1(2) obtain l where l: "left r = Ok l" "descend n l = Ok r'"
      by (auto simp: descend.simps [of n r] result_simps)
    then have "odd r" by (intro child_odd) blast
    with left_spec [of r] l(1) have "level l \<le> level r" by auto
    with 1(1) [OF True l] show ?thesis by simp
  next
    case False
    with 1(2) show ?thesis by (simp add: descend.simps [of n r])
  qed
qed

lemma child_level: "left p = Ok x \<or> right p n = Ok x \<Longrightarrow> level p < 32 \<Longrightarrow> level x < level p"
proof -
  assume c: "left p = Ok x \<or> right p n = Ok x" and p: "level p < 32"
  then have odd: "odd p" using child_odd by blast
  obtain r where r: "p XOR take_bit 32 (push_bit (level p - 1) 3) = r" "Suc (level r) = level p"
    using full_right_spec [OF odd p] by blast
  from c show "level x < level p"
  proof
    assume "left p = Ok x"
    with left_spec [OF odd] show ?thesis by auto
  next
    assume "right p n = Ok x"
    then have "descend n r = Ok x" using r odd by (simp add: right_def is_leaf_iff Let_def split: if_splits)
    with descend_level r(2) show ?thesis by force
  qed
qed

lemma find_parent_sound:
  "find_parent x y n nc depth = Ok (Some p) \<Longrightarrow> p < nc \<and> (left p = Ok y \<or> right p n = Ok y)"
proof (induction x y n nc depth rule: find_parent.induct)
  case (1 x y n nc depth)
  from 1(3) obtain l r where c: "\<not> depth > MAX_TREE_DEPTH" "\<not> (is_leaf x \<or> x \<ge> nc)" "left x = Ok l" "right x n = Ok r"
    and f: "(if l = y \<or> r = y then Ok (Some x)
      else res_bind (find_parent l y n nc (depth + 1)) (\<lambda>left_result.
        if left_result \<noteq> None then Ok left_result else find_parent r y n nc (depth + 1))) = Ok (Some p)"
    by (subst (asm) find_parent.simps) (auto simp: result_simps split: if_splits)
  show ?case
  proof (cases "l = y \<or> r = y")
    case True
    with f c show ?thesis by auto
  next
    case False
    with f obtain q where q: "find_parent l y n nc (depth + 1) = Ok q"
      "q \<noteq> None \<and> q = Some p \<or> q = None \<and> find_parent r y n nc (depth + 1) = Ok (Some p)"
      by (auto simp: result_simps split: if_splits)
    then show ?thesis using 1(1) [OF c False] 1(2) [OF c False q(1)] by auto
  qed
qed

text \<open>Every step of \<open>parent\<close>, in or out of the tree, ends in the tree and at the root or a
  higher level: the loops over a path end.\<close>

lemma parent_progress:
  assumes "parent x n = Ok p"
  shows "p < node_count n \<and> (root n = Ok p \<or> level x < level p)"
proof -
  obtain r where r: "root n = Ok r" and lv: "level x < 31"
    using assms by (auto simp: parent_def Let_def result_simps split: if_splits)
  then have n: "0 < n" "n < 2 ^ 31" by (auto simp: root_def split: if_splits)
  have rn: "r < node_count n" using root_spec [OF n, of 0] r by auto
  have lev: "level q < 32" if "q < node_count n" for q
  proof -
    have "q + 1 < 2 ^ 32" using that n by (simp add: node_count_def)
    with level_le [of q] have "(2::nat) ^ level q < 2 ^ 32" by linarith
    then show ?thesis by (rule power_less_imp_less_exp [rotated]) simp
  qed
  define f where "f = (x OR push_bit (level x) 1) XOR push_bit (level x + 1) (drop_bit (level x + 1) x AND 1)"
  have lf: "level f = Suc (level x)" using parent_formula [OF lv] by (simp add: f_def)
  have "parent x n = (if x = r then Err (TreeIntegrity ''parent: root has no parent'')
    else if f > r \<or> f \<ge> node_count n then parent_walk x n else Ok f)"
    using r lv unfolding parent_def f_def by (simp add: Let_def)
  then consider "p = f" "f < node_count n" | "parent_walk x n = Ok p"
    using assms by (auto split: if_splits)
  then show ?thesis
  proof cases
    case 1
    with lf show ?thesis by simp
  next
    case 2
    then consider "p = r" | "find_parent r x n (node_count n) 0 = Ok (Some p)"
      using r by (auto simp: parent_walk_def result_simps split: option.splits)
    then show ?thesis
      by cases (use r rn lev child_level find_parent_sound in blast)+
  qed
qed

function path_from :: "nat \<Rightarrow> nat \<Rightarrow> nat \<Rightarrow> nat list pres" where
  "path_from n r x =
     (if x = r then Ok []
      else res_bind (parent x n) (\<lambda>p. res_bind (path_from n r p) (\<lambda>path. Ok (p # path))))"
  by pat_completeness auto

definition climb :: "nat \<Rightarrow> nat \<Rightarrow> nat" where
  "climb n x = (if root n = Ok x then 0 else if x < node_count n then Suc (node_count n) - level x else node_count n + 2)"

lemma climb_parent: "parent x n = Ok p \<Longrightarrow> climb n p < climb n x"
proof -
  assume p: "parent x n = Ok p"
  have lv: "level y \<le> y" for y
    using level_le [of y] less_exp [of "level y"] by linarith
  have "root n \<noteq> Ok x" using p by (auto simp: parent_def)
  with parent_progress [OF p] lv [of x] lv [of p] show ?thesis by (auto simp: climb_def)
qed

termination path_from
  by (relation "measure (\<lambda>(n, r, x). climb n x)") (auto dest: climb_parent)

function copath_from :: "nat \<Rightarrow> nat \<Rightarrow> nat \<Rightarrow> nat list pres" where
  "copath_from n r x =
     (if x = r then Ok []
      else res_bind (sibling x n) (\<lambda>s. res_bind (parent x n) (\<lambda>p.
           res_bind (copath_from n r p) (\<lambda>cp. Ok (s # cp)))))"
  by pat_completeness auto

termination copath_from
  by (relation "measure (\<lambda>(n, r, x). climb n x)") (auto dest: climb_parent)

declare path_from.simps [simp del] copath_from.simps [simp del]

definition direct_path :: "nat \<Rightarrow> nat \<Rightarrow> nat list pres" where
  "direct_path leaf_idx n =
     res_bind (root n) (\<lambda>r. res_bind (checked_leaf_to_node leaf_idx) (\<lambda>x. path_from n r x))"

definition copath :: "nat \<Rightarrow> nat \<Rightarrow> nat list pres" where
  "copath leaf_idx n =
     res_bind (root n) (\<lambda>r. res_bind (checked_leaf_to_node leaf_idx) (\<lambda>x. copath_from n r x))"

lemma below_trans: "below n x y \<Longrightarrow> below n y z \<Longrightarrow> below n x z"
  by (induction rule: below.induct) (auto intro: below.intros)

lemma below_parent:
  assumes "below n y x" "y \<noteq> x" "y < node_count n" "tree_size n" "root n = Ok r" "parent x n = Ok p"
  shows "below n y p"
  using assms
proof induction
  case (here x)
  then show ?case by simp
next
  case (left y l x)
  have "odd y" using child_odd left.hyps(1) by blast
  then have "l < node_count n" using children left.prems(2,3) left.hyps(1) by fastforce
  show ?case
  proof (cases "l = x")
    case True
    then have "parent x n = Ok y" using parent_iff [of n r y x] left.prems left.hyps(1) by blast
    with left.prems(5) show ?thesis by (simp add: below.here)
  next
    case False
    with left \<open>l < node_count n\<close> have "below n l p" by blast
    with left.hyps(1) show ?thesis by (rule below.left)
  qed
next
  case (right y l x)
  have "odd y" using child_odd right.hyps(1) by blast
  then have "l < node_count n" using children right.prems(2,3) right.hyps(1) by fastforce
  show ?case
  proof (cases "l = x")
    case True
    then have "parent x n = Ok y" using parent_iff [of n r y x] right.prems right.hyps(1) by blast
    with right.prems(5) show ?thesis by (simp add: below.here)
  next
    case False
    with right \<open>l < node_count n\<close> have "below n l p" by blast
    with right.hyps(1) show ?thesis by (rule below.right)
  qed
qed

text \<open>What a path and its copath are: the ancestors, and subtrees that with them and the start
  make up the tree.\<close>

definition path_ok :: "nat \<Rightarrow> nat \<Rightarrow> nat \<Rightarrow> nat list \<Rightarrow> nat list \<Rightarrow> bool" where
  "path_ok n r x ps cs \<longleftrightarrow>
     length cs = length ps \<and> length ps + level x \<le> level r \<and> last (x # ps) = r \<and>
     (\<forall>p\<in>set ps. p < node_count n \<and> odd p \<and> level x < level p) \<and> distinct ps \<and>
     (\<forall>j<length cs. cs ! j < node_count n \<and> parent (cs ! j) n = Ok (ps ! j)) \<and>
     (\<forall>y<node_count n. y \<in> set ps \<longleftrightarrow> y \<noteq> x \<and> below n y x) \<and>
     {..<node_count n} = sub n x \<union> set ps \<union> (\<Union>c\<in>set cs. sub n c) \<and>
     sub n x \<inter> set ps = {} \<and> (\<forall>c\<in>set cs. sub n c \<inter> (sub n x \<union> set ps) = {}) \<and>
     (\<forall>j k. j < k \<longrightarrow> k < length cs \<longrightarrow> sub n (cs ! j) \<inter> sub n (cs ! k) = {})"

lemma below_level:
  assumes "below n y x" "y < node_count n" "tree_size n"
  shows "y = x \<or> level x < level y"
  using assms
proof induction
  case (here x)
  then show ?case by simp
next
  case (left y l x)
  then have "odd y" by (intro child_odd) blast
  from children [OF this left.prems] left show ?case by auto
next
  case (right y l x)
  then have "odd y" by (intro child_odd) blast
  from children [OF this right.prems] right show ?case by auto
qed

lemma path_ok_root:
  assumes "tree_size n" "root n = Ok r"
  shows "path_ok n r r [] []"
proof -
  have r: "r < node_count n" using root_spec [of n 0] assms by auto
  have "\<not> (y \<noteq> r \<and> below n y r)" if "y < node_count n" for y
  proof
    assume a: "y \<noteq> r \<and> below n y r"
    have "below n r y" using sub_below [OF r assms(1)] sub_root [OF assms] that by simp
    with a below_level [of n r y] below_level [of n y r] r that assms(1) show False by auto
  qed
  then show ?thesis using assms sub_root by (auto simp: path_ok_def)
qed

lemma path_okD:
  assumes "path_ok n r p ps cs"
  shows "length cs = length ps" and "length ps + level p \<le> level r" and "last (p # ps) = r" and
    "\<forall>q\<in>set ps. q < node_count n \<and> odd q \<and> level p < level q" and "distinct ps" and
    "\<forall>j<length cs. cs ! j < node_count n \<and> parent (cs ! j) n = Ok (ps ! j)" and
    "\<forall>y<node_count n. y \<in> set ps \<longleftrightarrow> y \<noteq> p \<and> below n y p" and
    "{..<node_count n} = sub n p \<union> set ps \<union> (\<Union>c\<in>set cs. sub n c)" and
    "sub n p \<inter> set ps = {}" and "\<forall>c\<in>set cs. sub n c \<inter> (sub n p \<union> set ps) = {}" and
    "\<forall>j k. j < k \<longrightarrow> k < length cs \<longrightarrow> sub n (cs ! j) \<inter> sub n (cs ! k) = {}"
  using assms unfolding path_ok_def by simp_all

lemma path_ok_step:
  assumes "x < node_count n" "tree_size n" "root n = Ok r" "x \<noteq> r"
    and "parent x n = Ok p" "sibling x n = Ok s" "path_ok n r p ps cs"
  shows "path_ok n r x (p # ps) (s # cs)"
proof -
  obtain p' s' where u0: "parent s' n = Ok p'" "p' < node_count n" "s' < node_count n" "odd p'" "level x < level p'"
    "sub n p' = insert p' (sub n x \<union> sub n s')" "p' \<notin> sub n x" "p' \<notin> sub n s'" "sub n x \<inter> sub n s' = {}"
    and eq: "parent x n = Ok p'" "sibling x n = Ok s'" using up_step [OF assms(1-4)] by blast
  have eq': "p' = p" "s' = s" using eq assms(5,6) by simp_all
  note u = u0 [unfolded eq']
  note o = path_okD [OF assms(7)]
  have px: "below n p x" using sub_below [OF u(2) assms(2)] u(6) sub_self [OF assms(1)] by simp
  have anc: "y \<in> set (p # ps) \<longleftrightarrow> y \<noteq> x \<and> below n y x" if "y < node_count n" for y
  proof
    assume "y \<in> set (p # ps)"
    then have "below n y p" "y = p \<or> level p < level y" using o(4,7) that below.here by auto
    moreover have "below n y x" using \<open>below n y p\<close> px by (rule below_trans)
    ultimately show "y \<noteq> x \<and> below n y x" using u(5) less_irrefl less_trans by blast
  next
    assume "y \<noteq> x \<and> below n y x"
    then have "below n y p" using below_parent assms(2,3,5) that by blast
    with o(7) that show "y \<in> set (p # ps)" by auto
  qed
  have dj: "sub n ((s # cs) ! j) \<inter> sub n ((s # cs) ! k) = {}" if jk: "j < k" "k < length (s # cs)" for j k
  proof -
    obtain k' where k': "k = Suc k'" using jk(1) by (cases k) auto
    then have c: "cs ! k' \<in> set cs" using jk by simp
    show ?thesis
    proof (cases j)
      case 0
      have "sub n (cs ! k') \<inter> (sub n p \<union> set ps) = {}" using o(10) c by blast
      with 0 k' u(6) show ?thesis by auto
    next
      case (Suc j')
      then show ?thesis using o(11) jk k' by simp
    qed
  qed
  have "{..<node_count n} = sub n x \<union> set (p # ps) \<union> (\<Union>c\<in>set (s # cs). sub n c)"
    unfolding o(8) u(6) by auto
  moreover have "sub n x \<inter> set (p # ps) = {}" using u(7) o(9) unfolding u(6) by auto
  moreover have cc: "sub n c \<inter> (sub n x \<union> set (p # ps)) = {}" if "c \<in> set (s # cs)" for c
  proof (cases "c = s")
    case True
    with u(8,9) o(9) show ?thesis unfolding u(6) by auto
  next
    case False
    with that have "sub n c \<inter> (sub n p \<union> set ps) = {}" using o(10) by simp
    then show ?thesis unfolding u(6) by auto
  qed
  moreover have "\<forall>c\<in>set (s # cs). sub n c \<inter> (sub n x \<union> set (p # ps)) = {}" using cc by blast
  moreover have "distinct (p # ps)" using o(4,5) by auto
  moreover have "\<forall>j<length (s # cs). (s # cs) ! j < node_count n \<and> parent ((s # cs) ! j) n = Ok ((p # ps) ! j)"
    using o(6) u(1,3) by (auto simp: nth_Cons split: nat.splits)
  moreover have "\<forall>q\<in>set (p # ps). q < node_count n \<and> odd q \<and> level x < level q"
    using o(4) u(2,4,5) less_trans unfolding list.set by blast
  moreover have "length (s # cs) = length (p # ps)" "length (p # ps) + level x \<le> level r" "last (x # p # ps) = r"
    using o(1-3) u(5) by simp_all
  moreover have "\<forall>y<node_count n. y \<in> set (p # ps) \<longleftrightarrow> y \<noteq> x \<and> below n y x" using anc by blast
  moreover have "\<forall>j k. j < k \<longrightarrow> k < length (s # cs) \<longrightarrow> sub n ((s # cs) ! j) \<inter> sub n ((s # cs) ! k) = {}"
    using dj by blast
  ultimately show ?thesis unfolding path_ok_def by (intro conjI)
qed

lemma path_spec:
  assumes "x < node_count n" "tree_size n" "root n = Ok r"
  shows "\<exists>ps cs. path_from n r x = Ok ps \<and> copath_from n r x = Ok cs \<and> path_ok n r x ps cs"
  using assms(1)
proof (induction "climb n x" arbitrary: x rule: less_induct)
  case less
  show ?case
  proof (cases "x = r")
    case True
    moreover have "path_from n r r = Ok []" "copath_from n r r = Ok []"
      by (simp_all add: path_from.simps [of n r r] copath_from.simps [of n r r])
    ultimately show ?thesis using path_ok_root [OF assms(2,3)] by blast
  next
    case False
    obtain p s where p: "parent x n = Ok p" "sibling x n = Ok s" "p < node_count n"
      using up_step [OF less.prems assms(2,3) False] by blast
    obtain ps cs where "path_from n r p = Ok ps" "copath_from n r p = Ok cs" "path_ok n r p ps cs"
      using less.hyps [OF climb_parent [OF p(1)] p(3)] by blast
    with p False path_ok_step [OF less.prems assms(2,3) False p(1,2)] show ?thesis
      by (simp add: path_from.simps [of n r x] copath_from.simps [of n r x])
  qed
qed

lemma leaf_node:
  assumes "i < n" "tree_size n"
  shows "checked_leaf_to_node i = Ok (2 * i)" "2 * i < node_count n"
  using assms by (auto simp: checked_leaf_to_node_def node_count_def)

lemma direct_path_spec:
  assumes "i < n" "tree_size n"
  shows "\<exists>r ps cs. root n = Ok r \<and> direct_path i n = Ok ps \<and> copath i n = Ok cs \<and> path_ok n r (2 * i) ps cs"
proof -
  have "0 < n" "n < 2 ^ 31" using assms(2) by simp_all
  then obtain r where r: "root n = Ok r" using root_spec [of n 0] by blast
  with path_spec [OF leaf_node(2) [OF assms] assms(2) r] leaf_node(1) [OF assms] show ?thesis
    by (auto simp: direct_path_def copath_def)
qed

lemmas root_eval = root_def log2_def node_count_def ilog2.simps
lemmas nav_eval = left_def right_def level.simps is_leaf_iff descend.simps Let_def push_bit_eq_mult

section \<open>Properties\<close>

text \<open>C28. The bit formulas describe one binary tree on the indices below the node count: every node
  is reachable from the root, every inner node has a left child below and a right child above it,
  and \<open>parent\<close>, closed formula and fallback search together, inverts both child functions.\<close>

theorem tree_navigation:
  assumes "0 < n" "n \<le> 2 ^ MAX_TREE_DEPTH" "x < node_count n"
  shows "\<exists>r. root n = Ok r \<and> r < node_count n \<and> below n r x \<and>
    (x \<noteq> r \<longrightarrow> (\<exists>p. parent x n = Ok p \<and> p < node_count n \<and> (left p = Ok x \<or> right p n = Ok x))) \<and>
    (\<not> is_leaf x \<longrightarrow> (\<exists>l q. left x = Ok l \<and> right x n = Ok q \<and> l < x \<and> x < q \<and> q < node_count n \<and>
       parent l n = Ok x \<and> parent q n = Ok x \<and> sibling l n = Ok q \<and> sibling q n = Ok l))"
proof -
  have n: "tree_size n" "n < 2 ^ 31" using assms by simp_all
  obtain r where r: "root n = Ok r" "r < node_count n" using root_spec [OF assms(1) n(2), of 0] by blast
  have "below n r x" using sub_below [OF r(2) n(1)] sub_root [OF n(1) r(1)] assms(3) by simp
  moreover have "\<exists>p. parent x n = Ok p \<and> p < node_count n \<and> (left p = Ok x \<or> right p n = Ok x)" if "x \<noteq> r"
    using parent_spec [OF assms(3) n(1) r(1) that] .
  moreover have "\<exists>l q. left x = Ok l \<and> right x n = Ok q \<and> l < x \<and> x < q \<and> q < node_count n \<and>
       parent l n = Ok x \<and> parent q n = Ok x \<and> sibling l n = Ok q \<and> sibling q n = Ok l" if "\<not> is_leaf x"
  proof -
    have odd: "odd x" using that by (simp add: is_leaf_iff)
    obtain l q where c: "left x = Ok l" "right x n = Ok q" "l < x" "x < q" "q < node_count n"
      using children [OF odd assms(3) n(1)] by blast
    then have p: "parent l n = Ok x" "parent q n = Ok x" using parent_iff [OF n(1) r(1) assms(3)] by blast+
    then have "sibling l n = Ok q" "sibling q n = Ok l" using c by (auto simp: sibling_def)
    with c p show ?thesis by blast
  qed
  ultimately show ?thesis using r by blast
qed

theorem tree_navigation_witness:
  "root 5 = Ok 7 \<and> parent 8 5 = Ok 7 \<and>
   below 5 7 8 \<and> (\<exists>p. parent 8 5 = Ok p \<and> (left p = Ok 8 \<or> right p 5 = Ok 8))"
proof -
  have "root 5 = Ok 7" by (simp add: root_eval)
  moreover have "parent 8 5 = Ok 7" by (simp add: parent_def parent_walk_def root_eval nav_eval find_parent.simps Let_def)
  ultimately show ?thesis using tree_navigation [of 5 8] by (auto simp: node_count_def)
qed

text \<open>C29. For every leaf the direct path and the copath are computed (the loops end, within the depth
  limit), the direct path is exactly the proper ancestors of the leaf, the copath node at each
  position is the other child of the path node there, and the subtrees of the copath are disjoint
  and contain exactly the nodes that are neither the leaf nor an ancestor of it. So a path secret
  encrypted to the copath reaches every other member along exactly one copath node.\<close>

theorem direct_path_copath:
  assumes "0 < n" "n \<le> 2 ^ MAX_TREE_DEPTH" "i < n"
  shows "\<exists>ps cs. direct_path i n = Ok ps \<and> copath i n = Ok cs \<and> length cs = length ps \<and>
    length ps \<le> MAX_TREE_DEPTH \<and> distinct ps \<and> (2 \<le> n \<longrightarrow> ps \<noteq> [] \<and> root n = Ok (last ps)) \<and>
    (\<forall>j<length cs. parent (cs ! j) n = Ok (ps ! j)) \<and>
    (\<forall>y<node_count n. y \<in> set ps \<longleftrightarrow> y \<noteq> 2 * i \<and> below n y (2 * i)) \<and>
    (\<forall>y<node_count n. (\<exists>c\<in>set cs. below n c y) \<longleftrightarrow> \<not> below n y (2 * i)) \<and>
    (\<forall>j k y. j < length cs \<longrightarrow> k < length cs \<longrightarrow> below n (cs ! j) y \<longrightarrow> below n (cs ! k) y \<longrightarrow> j = k)"
proof -
  have n: "tree_size n" "n < 2 ^ 31" using assms by simp_all
  obtain r ps cs where p: "root n = Ok r" "direct_path i n = Ok ps" "copath i n = Ok cs" "path_ok n r (2 * i) ps cs"
    using direct_path_spec [OF assms(3) n(1)] by blast
  note o = path_okD [OF p(4)]
  have x: "2 * i < node_count n" by (rule leaf_node(2) [OF assms(3) n(1)])
  have len: "length ps \<le> MAX_TREE_DEPTH"
    using o(2) root_spec [OF assms(1) n(2), of MAX_TREE_DEPTH] p(1) assms(2) by auto
  have cb: "below n c y \<longleftrightarrow> y \<in> sub n c" if "c \<in> set cs" for c y
    using that o(6) below_iff [of c n y] n(1) by (auto simp: in_set_conv_nth)
  have cov: "(\<exists>c\<in>set cs. below n c y) \<longleftrightarrow> \<not> below n y (2 * i)" if y: "y < node_count n" for y
  proof -
    have s: "sub n (2 * i) = {2 * i}" using sub_leaf [OF _ x] by simp
    have "below n y (2 * i) \<longleftrightarrow> y = 2 * i \<or> y \<in> set ps" using o(7) y below.here by blast
    moreover have "y = 2 * i \<or> y \<in> set ps \<longleftrightarrow> \<not> (\<exists>c\<in>set cs. y \<in> sub n c)"
      using o(8,10) y unfolding s by blast
    ultimately show ?thesis using cb by blast
  qed
  have uniq: "j = k" if "j < length cs" "k < length cs" "below n (cs ! j) y" "below n (cs ! k) y" for j k y
  proof (rule ccontr)
    assume "j \<noteq> k"
    then consider "j < k" | "k < j" by linarith
    moreover have "y \<in> sub n (cs ! j)" "y \<in> sub n (cs ! k)" using that cb by auto
    ultimately show False using o(11) that(1,2) by cases blast+
  qed
  have root: "ps \<noteq> [] \<and> root n = Ok (last ps)" if "2 \<le> n"
  proof -
    have "node_count n - 1 \<le> hi r" "r < node_count n" "lo r = 0" using root_spec [OF assms(1) n(2), of 0] p(1) by auto
    have "r \<noteq> 2 * i"
    proof
      assume "r = 2 * i"
      then have "sub n r = {r}" using sub_leaf [of r n] x by simp
      with sub_root [OF n(1) p(1)] have "{0, 1} \<subseteq> {r}" using that by (auto simp: node_count_def)
      then show False by auto
    qed
    with o(3) p(1) show ?thesis by (auto split: if_splits)
  qed
  show ?thesis
    using p(2,3) o(1,5,6,7) len cov uniq root by (intro exI [of _ ps] exI [of _ cs] conjI) blast+
qed

theorem direct_path_copath_witness:
  "direct_path 4 5 = Ok [7] \<and> copath 4 5 = Ok [3] \<and>
   below 5 3 0 \<noteq> below 5 0 8"
proof -
  have r: "root 5 = Ok 7" by (simp add: root_eval)
  have p: "parent 8 5 = Ok 7" by (simp add: parent_def parent_walk_def root_eval nav_eval find_parent.simps Let_def)
  have s: "sibling 8 5 = Ok 3" using p by (simp add: sibling_def nav_eval)
  have e: "direct_path 4 5 = Ok [7]" "copath 4 5 = Ok [3]"
    using r p s by (simp_all add: direct_path_def copath_def checked_leaf_to_node_def path_from.simps copath_from.simps)
  moreover have "0 < node_count 5" by (simp add: node_count_def)
  ultimately show ?thesis using direct_path_copath [of 5 4] by auto
qed

end
