(* ===== verification/Ratchet_Tree.thy ===== *)
theory Ratchet_Tree
  imports Key_Package Tree_Math
begin

text \<open>
  The ratchet tree of a group (\<^verbatim>\<open>protocol/group/tree.rs\<close>, the type \<open>RatchetTree\<close>): node keys,
  leaves, resolution, changes of the tree, the tree hash and the parent hash chain, export and
  import. A method that changes the tree returns its result and the tree. Indexing a vector out
  of range panics, which is the error value \<open>index_panic\<close>.
\<close>

section \<open>State\<close>

record hybrid_node_keys =
  nk_x25519_public :: bytes
  nk_kyber_public :: bytes
  nk_x25519_private :: "handle option"
  nk_kyber_secret :: "handle option"

datatype tree_node_content = Blank | Populated hybrid_node_keys bytes

record leaf_data =
  ld_credential :: bytes
  ld_identity_ed25519_public :: bytes
  ld_identity_x25519_public :: bytes
  ld_identity_kyber_public :: bytes
  ld_signature :: bytes

record ratchet_tree =
  rt_nodes :: "tree_node_content list"
  rt_leaves :: "leaf_data option list"
  rt_leaf_count :: nat

definition index_panic :: protocol_error where
  "index_panic = Generic ''panic: index out of bounds''"

definition opt_try_clone :: "prims \<Rightarrow> handle option \<Rightarrow> handle option pres" where
  "opt_try_clone P h =
     (case h of None \<Rightarrow> Ok None
      | Some x \<Rightarrow> res_bind (map_err CryptoErr (handle_try_clone P x)) (\<lambda>y. Ok (Some y)))"

definition keys_try_clone :: "prims \<Rightarrow> hybrid_node_keys \<Rightarrow> hybrid_node_keys pres" where
  "keys_try_clone P keys =
     res_bind (opt_try_clone P (nk_x25519_private keys)) (\<lambda>x.
     res_bind (opt_try_clone P (nk_kyber_secret keys)) (\<lambda>k.
       Ok \<lparr> nk_x25519_public = nk_x25519_public keys, nk_kyber_public = nk_kyber_public keys,
            nk_x25519_private = x, nk_kyber_secret = k \<rparr>))"

definition content_try_clone :: "prims \<Rightarrow> tree_node_content \<Rightarrow> tree_node_content pres" where
  "content_try_clone P node =
     (case node of Blank \<Rightarrow> Ok Blank
      | Populated keys ph \<Rightarrow> res_bind (keys_try_clone P keys) (\<lambda>k. Ok (Populated k ph)))"

fun clone_nodes :: "prims \<Rightarrow> tree_node_content list \<Rightarrow> tree_node_content list pres" where
  "clone_nodes P [] = Ok []"
| "clone_nodes P (node # nodes) =
     res_bind (content_try_clone P node) (\<lambda>n. res_bind (clone_nodes P nodes) (\<lambda>ns. Ok (n # ns)))"

definition tree_try_clone :: "prims \<Rightarrow> ratchet_tree \<Rightarrow> ratchet_tree pres" where
  "tree_try_clone P t =
     res_bind (clone_nodes P (rt_nodes t)) (\<lambda>ns.
       Ok \<lparr> rt_nodes = ns, rt_leaves = rt_leaves t, rt_leaf_count = rt_leaf_count t \<rparr>)"

definition new_single :: "bytes \<Rightarrow> bytes \<Rightarrow> handle \<Rightarrow> handle \<Rightarrow> bytes \<Rightarrow> bytes \<Rightarrow> bytes \<Rightarrow> bytes \<Rightarrow> bytes \<Rightarrow> ratchet_tree pres" where
  "new_single x25519_pub kyber_pub x25519_private kyber_secret identity_ed25519 identity_x25519 identity_kyber credential signature =
     (if length x25519_pub \<noteq> X25519_PUBLIC_KEY_BYTES then Err (InvalidInput ''Invalid X25519 public key size'')
      else if length kyber_pub \<noteq> KYBER_PUBLIC_KEY_BYTES then Err (InvalidInput ''Invalid Kyber public key size'')
      else
        Ok \<lparr> rt_nodes = [Populated \<lparr> nk_x25519_public = x25519_pub, nk_kyber_public = kyber_pub,
               nk_x25519_private = Some x25519_private, nk_kyber_secret = Some kyber_secret \<rparr> (zeros SHA256_HASH_BYTES)],
             rt_leaves = [Some \<lparr> ld_credential = credential, ld_identity_ed25519_public = identity_ed25519,
               ld_identity_x25519_public = identity_x25519, ld_identity_kyber_public = identity_kyber, ld_signature = signature \<rparr>],
             rt_leaf_count = 1 \<rparr>)"

section \<open>Queries\<close>

definition member_count :: "ratchet_tree \<Rightarrow> nat" where
  "member_count t = length (filter (\<lambda>l. l \<noteq> None) (rt_leaves t))"

definition get_leaf_data :: "ratchet_tree \<Rightarrow> nat \<Rightarrow> leaf_data option" where
  "get_leaf_data t leaf_idx = (case get_nth (rt_leaves t) leaf_idx of Some l \<Rightarrow> l | None \<Rightarrow> None)"

definition populated_leaf_indices :: "ratchet_tree \<Rightarrow> nat list" where
  "populated_leaf_indices t = filter (\<lambda>i. rt_leaves t ! i \<noteq> None) [0..<length (rt_leaves t)]"

definition get_node_keys :: "ratchet_tree \<Rightarrow> nat \<Rightarrow> hybrid_node_keys option" where
  "get_node_keys t node_idx =
     (case get_nth (rt_nodes t) node_idx of Some (Populated keys _) \<Rightarrow> Some keys | _ \<Rightarrow> None)"

definition get_node_public_keys :: "ratchet_tree \<Rightarrow> nat \<Rightarrow> (bytes \<times> bytes) option" where
  "get_node_public_keys t node_idx =
     (case get_nth (rt_nodes t) node_idx of
        Some (Populated keys _) \<Rightarrow> Some (nk_x25519_public keys, nk_kyber_public keys) | _ \<Rightarrow> None)"

definition is_blank :: "ratchet_tree \<Rightarrow> nat \<Rightarrow> bool" where
  "is_blank t node_idx = (case get_nth (rt_nodes t) node_idx of Some (Populated _ _) \<Rightarrow> False | _ \<Rightarrow> True)"

function resolution_inner :: "ratchet_tree \<Rightarrow> nat \<Rightarrow> nat \<Rightarrow> nat list pres" where
  "resolution_inner t node_idx depth =
     (if depth > MAX_TREE_DEPTH then Err (TreeIntegrity ''resolution: exceeded MAX_TREE_DEPTH'')
      else if node_idx \<ge> length (rt_nodes t) then Ok []
      else case rt_nodes t ! node_idx of
        Populated _ _ \<Rightarrow> Ok [node_idx]
      | Blank \<Rightarrow>
          if is_leaf node_idx then Ok []
          else res_bind (left node_idx) (\<lambda>l.
               res_bind (right node_idx (rt_leaf_count t)) (\<lambda>r.
               res_bind (resolution_inner t l (depth + 1)) (\<lambda>res.
               res_bind (resolution_inner t r (depth + 1)) (\<lambda>res2. Ok (res @ res2))))))"
  by pat_completeness auto

termination resolution_inner
  by (relation "measure (\<lambda>(_, _, depth). Suc MAX_TREE_DEPTH - depth)") auto

declare resolution_inner.simps [simp del]

definition resolution :: "ratchet_tree \<Rightarrow> nat \<Rightarrow> nat list pres" where
  "resolution t node_idx = resolution_inner t node_idx 0"

definition next_leaf_index :: "ratchet_tree \<Rightarrow> nat" where
  "next_leaf_index t = (case position (\<lambda>l. l = None) (rt_leaves t) of Some idx \<Rightarrow> idx | None \<Rightarrow> rt_leaf_count t)"

section \<open>Changes\<close>

definition public_node :: "bytes \<Rightarrow> bytes \<Rightarrow> tree_node_content" where
  "public_node x25519_pub kyber_pub =
     Populated \<lparr> nk_x25519_public = x25519_pub, nk_kyber_public = kyber_pub,
       nk_x25519_private = None, nk_kyber_secret = None \<rparr> (zeros SHA256_HASH_BYTES)"

definition add_leaf :: "ratchet_tree \<Rightarrow> bytes \<Rightarrow> bytes \<Rightarrow> leaf_data \<Rightarrow> nat pres \<times> ratchet_tree" where
  "add_leaf t x25519_pub kyber_pub leaf_data =
     (if member_count t \<ge> MAX_GROUP_MEMBERS then (Err (GroupMembership ''Group member limit reached''), t)
      else case position (\<lambda>l. l = None) (rt_leaves t) of
        Some idx \<Rightarrow>
          (case checked_leaf_to_node idx of Inl e \<Rightarrow> (Err e, t)
           | Inr node_idx \<Rightarrow>
               if node_idx \<ge> length (rt_nodes t) then (Err index_panic, t)
               else (Ok idx, t\<lparr> rt_nodes := (rt_nodes t)[node_idx := public_node x25519_pub kyber_pub],
                                rt_leaves := (rt_leaves t)[idx := Some leaf_data] \<rparr>))
      | None \<Rightarrow>
          let new_leaf_idx = rt_leaf_count t;
              new_leaf_count = rt_leaf_count t + 1;
              grown = t\<lparr> rt_nodes := rt_nodes t @ replicate (node_count new_leaf_count - length (rt_nodes t)) Blank \<rparr>
          in case checked_leaf_to_node new_leaf_idx of Inl e \<Rightarrow> (Err e, grown)
             | Inr node_idx \<Rightarrow>
                 if node_idx \<ge> length (rt_nodes grown) then (Err index_panic, grown)
                 else (Ok new_leaf_idx,
                       grown\<lparr> rt_nodes := (rt_nodes grown)[node_idx := public_node x25519_pub kyber_pub],
                              rt_leaves := rt_leaves t @ [Some leaf_data], rt_leaf_count := new_leaf_count \<rparr>))"

definition blank_nodes :: "nat list \<Rightarrow> tree_node_content list \<Rightarrow> tree_node_content list" where
  "blank_nodes path nodes = fold (\<lambda>p ns. if p < length ns then ns[p := Blank] else ns) path nodes"

definition blank_leaf :: "ratchet_tree \<Rightarrow> nat \<Rightarrow> unit pres \<times> ratchet_tree" where
  "blank_leaf t leaf_idx =
     (if leaf_idx \<ge> rt_leaf_count t then (Err (GroupMembership ''Leaf index out of range''), t)
      else if leaf_idx \<ge> length (rt_leaves t) then (Err index_panic, t)
      else if rt_leaves t ! leaf_idx = None then (Err (GroupMembership ''Leaf already blank''), t)
      else case checked_leaf_to_node leaf_idx of Inl e \<Rightarrow> (Err e, t)
        | Inr node_idx \<Rightarrow>
            if node_idx \<ge> length (rt_nodes t) then (Err index_panic, t)
            else
              let t1 = t\<lparr> rt_nodes := (rt_nodes t)[node_idx := Blank], rt_leaves := (rt_leaves t)[leaf_idx := None] \<rparr>
              in if rt_leaf_count t > 1 then
                   (case direct_path leaf_idx (rt_leaf_count t) of Inl e \<Rightarrow> (Err e, t1)
                    | Inr path \<Rightarrow> (Ok (), t1\<lparr> rt_nodes := blank_nodes path (rt_nodes t1) \<rparr>))
                 else (Ok (), t1))"

definition set_node_public_keys :: "ratchet_tree \<Rightarrow> nat \<Rightarrow> bytes \<Rightarrow> bytes \<Rightarrow> unit pres \<times> ratchet_tree" where
  "set_node_public_keys t node_idx x25519_pub kyber_pub =
     (if node_idx \<ge> length (rt_nodes t) then (Err (TreeIntegrity ''Node index out of range''), t)
      else (Ok (), t\<lparr> rt_nodes := (rt_nodes t)[node_idx :=
        (case rt_nodes t ! node_idx of
           Populated keys ph \<Rightarrow> Populated (keys\<lparr> nk_x25519_public := x25519_pub, nk_kyber_public := kyber_pub \<rparr>) ph
         | Blank \<Rightarrow> public_node x25519_pub kyber_pub)] \<rparr>))"

definition set_node_private_keys :: "ratchet_tree \<Rightarrow> nat \<Rightarrow> handle \<Rightarrow> handle \<Rightarrow> unit pres \<times> ratchet_tree" where
  "set_node_private_keys t node_idx x25519_private kyber_secret =
     (case get_nth (rt_nodes t) node_idx of
        Some (Populated keys ph) \<Rightarrow>
          (Ok (), t\<lparr> rt_nodes := (rt_nodes t)[node_idx :=
             Populated (keys\<lparr> nk_x25519_private := Some x25519_private, nk_kyber_secret := Some kyber_secret \<rparr>) ph] \<rparr>)
      | _ \<Rightarrow> (Err (TreeIntegrity ''Cannot set private keys on blank node''), t))"

definition set_leaf_signature :: "ratchet_tree \<Rightarrow> nat \<Rightarrow> bytes \<Rightarrow> unit pres \<times> ratchet_tree" where
  "set_leaf_signature t leaf_idx signature =
     (case get_leaf_data t leaf_idx of
        None \<Rightarrow> (Err (TreeIntegrity ''Cannot set signature on blank leaf''), t)
      | Some leaf \<Rightarrow> (Ok (), t\<lparr> rt_leaves := (rt_leaves t)[leaf_idx := Some (leaf\<lparr> ld_signature := signature \<rparr>)] \<rparr>))"

definition update_leaf :: "ratchet_tree \<Rightarrow> nat \<Rightarrow> bytes \<Rightarrow> bytes \<Rightarrow> handle \<Rightarrow> handle \<Rightarrow> unit pres \<times> ratchet_tree" where
  "update_leaf t leaf_idx x25519_pub kyber_pub x25519_private kyber_secret =
     (case checked_leaf_to_node leaf_idx of Inl e \<Rightarrow> (Err e, t)
      | Inr node_idx \<Rightarrow>
          if node_idx \<ge> length (rt_nodes t) then (Err (TreeIntegrity ''Leaf node index out of range''), t)
          else (Ok (), t\<lparr> rt_nodes := (rt_nodes t)[node_idx :=
            Populated \<lparr> nk_x25519_public = x25519_pub, nk_kyber_public = kyber_pub,
              nk_x25519_private = Some x25519_private, nk_kyber_secret = Some kyber_secret \<rparr> (zeros SHA256_HASH_BYTES)] \<rparr>))"

definition set_node_parent_hash :: "ratchet_tree \<Rightarrow> nat \<Rightarrow> bytes \<Rightarrow> unit pres \<times> ratchet_tree" where
  "set_node_parent_hash t node_idx hash =
     (case get_nth (rt_nodes t) node_idx of
        Some (Populated keys _) \<Rightarrow> (Ok (), t\<lparr> rt_nodes := (rt_nodes t)[node_idx := Populated keys hash] \<rparr>)
      | _ \<Rightarrow> (Err (TreeIntegrity ''Cannot set parent_hash on blank node''), t))"

definition get_node_parent_hash :: "ratchet_tree \<Rightarrow> nat \<Rightarrow> bytes option" where
  "get_node_parent_hash t node_idx =
     (case get_nth (rt_nodes t) node_idx of Some (Populated _ ph) \<Rightarrow> Some ph | _ \<Rightarrow> None)"

section \<open>Hashes\<close>

text \<open>The bytes hashed for a node before its children's hashes.\<close>

definition leaf_hash_part :: "leaf_data option \<Rightarrow> bytes" where
  "leaf_hash_part ld =
     (case ld of
        Some l \<Rightarrow> [1] @ len_prefixed (ld_credential l) @ len_prefixed (ld_identity_ed25519_public l) @
          len_prefixed (ld_identity_x25519_public l) @ len_prefixed (ld_identity_kyber_public l) @
          len_prefixed (ld_signature l)
      | None \<Rightarrow> [0])"

definition node_hash_part :: "ratchet_tree \<Rightarrow> nat \<Rightarrow> bytes" where
  "node_hash_part t node_idx =
     (let keys = get_node_keys t node_idx;
          populated = keys \<noteq> None;
          leaf = is_leaf node_idx;
          label = (if \<not> populated then GROUP_BLANK_NODE_HASH_LABEL
                   else if leaf then GROUP_LEAF_NODE_HASH_LABEL else GROUP_PARENT_NODE_HASH_LABEL)
      in len_prefixed label @ le_bytes 4 node_idx @ [of_bool populated] @
         (case keys of Some k \<Rightarrow> len_prefixed (nk_x25519_public k) @ len_prefixed (nk_kyber_public k) | None \<Rightarrow> []) @
         (if leaf \<and> populated then
            leaf_hash_part (case node_to_leaf node_idx of Some i \<Rightarrow> get_leaf_data t i | None \<Rightarrow> None)
          else []))"

function compute_node_hash_inner :: "prims \<Rightarrow> ratchet_tree \<Rightarrow> nat \<Rightarrow> nat \<Rightarrow> bytes pres" where
  "compute_node_hash_inner P t node_idx depth =
     (if depth > MAX_TREE_DEPTH then Err (TreeIntegrity ''compute_node_hash: exceeded MAX_TREE_DEPTH'')
      else if \<not> is_leaf node_idx \<and> rt_leaf_count t > 1 then
        res_bind (left node_idx) (\<lambda>l.
        res_bind (right node_idx (rt_leaf_count t)) (\<lambda>r.
        res_bind (compute_node_hash_inner P t l (depth + 1)) (\<lambda>left_hash.
        res_bind (compute_node_hash_inner P t r (depth + 1)) (\<lambda>right_hash.
          Ok (sha256 P (node_hash_part t node_idx @ len_prefixed left_hash @ len_prefixed right_hash))))))
      else Ok (sha256 P (node_hash_part t node_idx)))"
  by pat_completeness auto

termination compute_node_hash_inner
  by (relation "measure (\<lambda>(_, _, _, depth). Suc MAX_TREE_DEPTH - depth)") auto

declare compute_node_hash_inner.simps [simp del]

definition compute_node_hash :: "prims \<Rightarrow> ratchet_tree \<Rightarrow> nat \<Rightarrow> bytes pres" where
  "compute_node_hash P t node_idx = compute_node_hash_inner P t node_idx 0"

definition tree_hash :: "prims \<Rightarrow> ratchet_tree \<Rightarrow> bytes pres" where
  "tree_hash P t =
     (if rt_leaf_count t = 0 then Ok (zeros SHA256_HASH_BYTES)
      else res_bind (root (rt_leaf_count t)) (\<lambda>r. compute_node_hash P t r))"

definition subtree_hash :: "prims \<Rightarrow> ratchet_tree \<Rightarrow> nat \<Rightarrow> bytes pres" where
  "subtree_hash P t node_idx = compute_node_hash P t node_idx"

definition compute_parent_hash_value :: "prims \<Rightarrow> ratchet_tree \<Rightarrow> bytes \<Rightarrow> bytes \<Rightarrow> bytes \<Rightarrow> nat \<Rightarrow> bytes pres" where
  "compute_parent_hash_value P t parent_x25519 parent_kyber parent_parent_hash sibling_idx =
     res_bind (subtree_hash P t sibling_idx) (\<lambda>sibling_hash.
       Ok (sha256 P (len_prefixed GROUP_PARENT_HASH_LABEL @ len_prefixed parent_x25519 @ len_prefixed parent_kyber @
             len_prefixed parent_parent_hash @ len_prefixed sibling_hash)))"

text \<open>The loop over the direct path from the root down.\<close>

fun verify_chain :: "prims \<Rightarrow> ratchet_tree \<Rightarrow> nat \<Rightarrow> bytes \<Rightarrow> nat list \<Rightarrow> unit pres" where
  "verify_chain P t root_idx expected [] = Ok ()"
| "verify_chain P t root_idx expected (node_idx # rest) =
     res_bind (ok_or (TreeIntegrity ''Missing parent_hash at node {node_idx}'') (get_node_parent_hash t node_idx)) (\<lambda>stored.
       if length stored \<noteq> SHA256_HASH_BYTES then
         Err (TreeIntegrity ''Invalid parent_hash length at node {node_idx}: expected {}, got {}'')
       else if node_idx = root_idx \<and> \<not> is_all_zero stored then
         Err (TreeIntegrity ''parent_hash at root node must be all-zero'')
       else if node_idx \<noteq> root_idx \<and> is_all_zero stored then
         Err (TreeIntegrity ''parent_hash is all-zero at non-root node {node_idx}'')
       else res_bind (map_err CryptoErr (constant_time_equals stored expected)) (\<lambda>hash_ok.
         if \<not> hash_ok then Err (TreeIntegrity ''parent_hash mismatch at node {node_idx}'')
         else case rest of [] \<Rightarrow> Ok ()
           | child_node_idx # _ \<Rightarrow>
               res_bind (sibling child_node_idx (rt_leaf_count t)) (\<lambda>sib_idx.
               res_bind (ok_or (TreeIntegrity ''Missing public keys at node {node_idx} for parent_hash verification'')
                   (get_node_public_keys t node_idx)) (\<lambda>(x, k).
               res_bind (compute_parent_hash_value P t x k stored sib_idx) (\<lambda>next_expected.
                 verify_chain P t root_idx next_expected rest)))))"

definition verify_parent_hash_chain :: "prims \<Rightarrow> ratchet_tree \<Rightarrow> nat \<Rightarrow> unit pres" where
  "verify_parent_hash_chain P t leaf_idx =
     (if rt_leaf_count t \<le> 1 then Ok ()
      else res_bind (direct_path leaf_idx (rt_leaf_count t)) (\<lambda>dp.
        if dp = [] then Ok ()
        else res_bind (root (rt_leaf_count t)) (\<lambda>root_idx.
          verify_chain P t root_idx (zeros SHA256_HASH_BYTES) (rev dp))))"

section \<open>Export and import\<close>

definition leaf_key_package :: "ratchet_tree \<Rightarrow> nat \<Rightarrow> group_key_package option" where
  "leaf_key_package t node_idx =
     (if \<not> is_leaf node_idx then None
      else case get_leaf_data t (node_idx div 2) of None \<Rightarrow> None
        | Some ld \<Rightarrow>
            (case get_node_public_keys t node_idx of None \<Rightarrow> None
             | Some (x25519_pub, kyber_pub) \<Rightarrow>
                 Some \<lparr> kp_version = GROUP_PROTOCOL_VERSION, kp_identity_ed25519_public = ld_identity_ed25519_public ld,
                        kp_identity_x25519_public = ld_identity_x25519_public ld, kp_leaf_x25519_public = x25519_pub,
                        kp_leaf_kyber_public = kyber_pub, kp_signature = ld_signature ld, kp_credential = ld_credential ld,
                        kp_created_at = None, kp_identity_kyber_public = ld_identity_kyber_public ld \<rparr>))"

definition export_blank :: "ratchet_tree \<Rightarrow> nat \<Rightarrow> group_tree_node" where
  "export_blank t i = \<lparr> tn_node_index = i, tn_x25519_public = [], tn_kyber_public = [], tn_x25519_private = [],
     tn_kyber_secret = [], tn_parent_hash = [], tn_key_package = leaf_key_package t i \<rparr>"

text \<open>\<open>h.and_then(|h| h.read_bytes(n).ok()).unwrap_or_default()\<close>.\<close>

definition read_or_empty :: "handle option \<Rightarrow> nat \<Rightarrow> bytes" where
  "read_or_empty h n =
     (case h of None \<Rightarrow> [] | Some x \<Rightarrow> (case read_bytes x n of Inr b \<Rightarrow> b | Inl _ \<Rightarrow> []))"

definition export_public :: "ratchet_tree \<Rightarrow> group_tree_node list" where
  "export_public t = map (\<lambda>i. case rt_nodes t ! i of
       Blank \<Rightarrow> export_blank t i
     | Populated keys ph \<Rightarrow>
         \<lparr> tn_node_index = i, tn_x25519_public = nk_x25519_public keys, tn_kyber_public = nk_kyber_public keys,
           tn_x25519_private = [], tn_kyber_secret = [], tn_parent_hash = ph, tn_key_package = leaf_key_package t i \<rparr>)
     [0..<length (rt_nodes t)]"

definition export_for_welcome :: "ratchet_tree \<Rightarrow> nat \<Rightarrow> group_tree_node list pres" where
  "export_for_welcome t new_member_leaf_idx =
     res_bind (direct_path new_member_leaf_idx (rt_leaf_count t)) (\<lambda>dp.
       Ok (map (\<lambda>i. case rt_nodes t ! i of
           Blank \<Rightarrow> export_blank t i
         | Populated keys ph \<Rightarrow>
             let include_priv = (\<not> is_leaf i \<and> i \<in> set dp)
             in \<lparr> tn_node_index = i, tn_x25519_public = nk_x25519_public keys, tn_kyber_public = nk_kyber_public keys,
                  tn_x25519_private = (if include_priv then read_or_empty (nk_x25519_private keys) X25519_PRIVATE_KEY_BYTES else []),
                  tn_kyber_secret = (if include_priv then read_or_empty (nk_kyber_secret keys) KYBER_SECRET_KEY_BYTES else []),
                  tn_parent_hash = ph, tn_key_package = leaf_key_package t i \<rparr>)
         [0..<length (rt_nodes t)]))"

definition export_with_private_keys :: "ratchet_tree \<Rightarrow> group_tree_node list" where
  "export_with_private_keys t = map (\<lambda>i. case rt_nodes t ! i of
       Blank \<Rightarrow> export_blank t i
     | Populated keys ph \<Rightarrow>
         \<lparr> tn_node_index = i, tn_x25519_public = nk_x25519_public keys, tn_kyber_public = nk_kyber_public keys,
           tn_x25519_private = read_or_empty (nk_x25519_private keys) X25519_PRIVATE_KEY_BYTES,
           tn_kyber_secret = read_or_empty (nk_kyber_secret keys) KYBER_SECRET_KEY_BYTES,
           tn_parent_hash = ph, tn_key_package = leaf_key_package t i \<rparr>)
     [0..<length (rt_nodes t)]"

definition opt_handle :: "prims \<Rightarrow> nat \<Rightarrow> bytes \<Rightarrow> handle option pres" where
  "opt_handle P n data =
     (if data = [] then Ok None else res_bind (map_err CryptoErr (new_handle P n data)) (\<lambda>h. Ok (Some h)))"

definition import_node :: "prims \<Rightarrow> group_tree_node \<Rightarrow> tree_node_content pres" where
  "import_node P pn =
     (if tn_x25519_public pn = [] then Ok Blank
      else if length (tn_x25519_public pn) \<noteq> X25519_PUBLIC_KEY_BYTES then
        Err (TreeIntegrity ''Invalid X25519 public key size in tree node {}: expected {}, got {}'')
      else if tn_kyber_public pn \<noteq> [] \<and> length (tn_kyber_public pn) \<noteq> KYBER_PUBLIC_KEY_BYTES then
        Err (TreeIntegrity ''Invalid Kyber public key size in tree node {}: expected {}, got {}'')
      else if tn_x25519_private pn \<noteq> [] \<and> length (tn_x25519_private pn) \<noteq> X25519_PRIVATE_KEY_BYTES then
        Err (TreeIntegrity ''Invalid X25519 private key size in tree node {}'')
      else if tn_kyber_secret pn \<noteq> [] \<and> length (tn_kyber_secret pn) \<noteq> KYBER_SECRET_KEY_BYTES then
        Err (TreeIntegrity ''Invalid Kyber secret key size in tree node {}'')
      else
        res_bind (opt_handle P X25519_PRIVATE_KEY_BYTES (tn_x25519_private pn)) (\<lambda>x.
        res_bind (opt_handle P KYBER_SECRET_KEY_BYTES (tn_kyber_secret pn)) (\<lambda>k.
          Ok (Populated \<lparr> nk_x25519_public = tn_x25519_public pn, nk_kyber_public = tn_kyber_public pn,
                nk_x25519_private = x, nk_kyber_secret = k \<rparr> (tn_parent_hash pn)))))"

fun import_nodes :: "prims \<Rightarrow> group_tree_node list \<Rightarrow> tree_node_content list pres" where
  "import_nodes P [] = Ok []"
| "import_nodes P (pn # pns) =
     res_bind (import_node P pn) (\<lambda>n. res_bind (import_nodes P pns) (\<lambda>ns. Ok (n # ns)))"

definition package_leaf :: "group_key_package \<Rightarrow> leaf_data" where
  "package_leaf kp = \<lparr> ld_credential = kp_credential kp, ld_identity_ed25519_public = kp_identity_ed25519_public kp,
     ld_identity_x25519_public = kp_identity_x25519_public kp, ld_identity_kyber_public = kp_identity_kyber_public kp,
     ld_signature = kp_signature kp \<rparr>"

text \<open>The loop over the leaves \<open>i, i + 1, \<dots>\<close>; \<open>seen\<close> holds the identity keys so far.\<close>

fun import_leaves :: "prims \<Rightarrow> group_tree_node list \<Rightarrow> tree_node_content list \<Rightarrow> bytes list \<Rightarrow> nat list \<Rightarrow> leaf_data option list pres" where
  "import_leaves P pns nodes seen [] = Ok []"
| "import_leaves P pns nodes seen (i # is) =
     res_bind (checked_leaf_to_node i) (\<lambda>node_idx.
       if node_idx \<ge> length pns then
         res_bind (import_leaves P pns nodes seen is) (\<lambda>ls. Ok (None # ls))
       else case tn_key_package (pns ! node_idx) of
         None \<Rightarrow> res_bind (import_leaves P pns nodes seen is) (\<lambda>ls. Ok (None # ls))
       | Some kp \<Rightarrow>
           res_bind (validate_key_package P kp) (\<lambda>_.
             if kp_identity_ed25519_public kp \<in> set seen then
               Err (TreeIntegrity ''Duplicate Ed25519 identity key in group tree'')
             else case nodes ! node_idx of
               Blank \<Rightarrow> Err (TreeIntegrity ''Blank leaf cannot carry a key package'')
             | Populated keys _ \<Rightarrow>
                 if nk_x25519_public keys \<noteq> kp_leaf_x25519_public kp \<or> nk_kyber_public keys \<noteq> kp_leaf_kyber_public kp then
                   Err (TreeIntegrity ''Leaf key package does not match leaf node public keys'')
                 else res_bind (import_leaves P pns nodes (kp_identity_ed25519_public kp # seen) is) (\<lambda>ls.
                   Ok (Some (package_leaf kp) # ls))))"

definition from_proto :: "prims \<Rightarrow> group_tree_node list \<Rightarrow> ratchet_tree pres" where
  "from_proto P proto_nodes =
     (if proto_nodes = [] then Err (TreeIntegrity ''Empty tree'')
      else let nc = length proto_nodes
      in if even nc then Err (TreeIntegrity ''Node count must be odd (2n-1), got {nc}'')
         else if nc > MAX_TREE_NODES then
           Err (TreeIntegrity ''Tree node count {nc} exceeds MAX_TREE_NODES ({MAX_TREE_NODES})'')
         else let lc = div_ceil nc 2
         in res_bind (import_nodes P proto_nodes) (\<lambda>nodes.
            res_bind (import_leaves P proto_nodes nodes [] [0..<lc]) (\<lambda>leaves.
              Ok \<lparr> rt_nodes = nodes, rt_leaves = leaves, rt_leaf_count = lc \<rparr>)))"

definition from_public_proto :: "prims \<Rightarrow> group_tree_node list \<Rightarrow> ratchet_tree pres" where
  "from_public_proto P proto_nodes = from_proto P proto_nodes"

end
