(* ===== verification/Ratchet_Tree_Inv.thy ===== *)
theory Ratchet_Tree_Inv
  imports Ratchet_Tree
begin

text \<open>
  What the ratchet tree guarantees: the shape invariant of every tree the operations can build,
  the resolution of a node, the effect of removing a leaf, the binding of the tree hash, and what
  the exports disclose.
\<close>

section \<open>The invariant\<close>

definition tree_wf :: "ratchet_tree \<Rightarrow> bool" where
  "tree_wf t \<longleftrightarrow> 0 < rt_leaf_count t \<and> rt_leaf_count t \<le> MAX_GROUP_MEMBERS \<and>
     length (rt_nodes t) = node_count (rt_leaf_count t) \<and> length (rt_leaves t) = rt_leaf_count t \<and>
     (\<forall>i<rt_leaf_count t. rt_leaves t ! i \<noteq> None \<longrightarrow> rt_nodes t ! (2 * i) \<noteq> Blank)"

inductive tree_reach :: "prims \<Rightarrow> ratchet_tree \<Rightarrow> bool" for P where
  single: "new_single x k xs ks ie ix ik cr sg = Ok t \<Longrightarrow> tree_reach P t"
| import: "from_proto P pns = Ok t \<Longrightarrow> tree_reach P t"
| add: "tree_reach P t \<Longrightarrow> add_leaf t x k ld = (res, t') \<Longrightarrow> tree_reach P t'"
| blank: "tree_reach P t \<Longrightarrow> blank_leaf t i = (res, t') \<Longrightarrow> tree_reach P t'"
| set_public: "tree_reach P t \<Longrightarrow> set_node_public_keys t i x k = (res, t') \<Longrightarrow> tree_reach P t'"
| set_private: "tree_reach P t \<Longrightarrow> set_node_private_keys t i x k = (res, t') \<Longrightarrow> tree_reach P t'"
| set_signature: "tree_reach P t \<Longrightarrow> set_leaf_signature t i sg = (res, t') \<Longrightarrow> tree_reach P t'"
| update: "tree_reach P t \<Longrightarrow> update_leaf t i x k xs ks = (res, t') \<Longrightarrow> tree_reach P t'"
| set_parent_hash: "tree_reach P t \<Longrightarrow> set_node_parent_hash t i h = (res, t') \<Longrightarrow> tree_reach P t'"

lemma tree_wf_size: "tree_wf t \<Longrightarrow> tree_size (rt_leaf_count t)"
  by (simp add: tree_wf_def)

lemma leaf_below_count: "i < n \<Longrightarrow> 2 * i < node_count n"
  by (simp add: node_count_def)

lemma wf_update_nodes:
  assumes "tree_wf t" "length ns = length (rt_nodes t)"
    and "\<And>i. i < rt_leaf_count t \<Longrightarrow> rt_nodes t ! (2 * i) \<noteq> Blank \<Longrightarrow> ns ! (2 * i) \<noteq> Blank"
  shows "tree_wf (t\<lparr> rt_nodes := ns \<rparr>)"
  using assms by (simp add: tree_wf_def)

lemma wf_populate_node:
  assumes "tree_wf t" "c \<noteq> Blank"
  shows "tree_wf (t\<lparr> rt_nodes := (rt_nodes t)[i := c] \<rparr>)"
proof (rule wf_update_nodes [OF assms(1)])
  fix j assume "j < rt_leaf_count t" "rt_nodes t ! (2 * j) \<noteq> Blank"
  then show "(rt_nodes t)[i := c] ! (2 * j) \<noteq> Blank"
    using assms by (cases "i < length (rt_nodes t)") (auto simp: nth_list_update list_update_beyond)
qed simp

lemma new_single_wf: "new_single x k xs ks ie ix ik cr sg = Ok t \<Longrightarrow> tree_wf t"
  by (auto simp: new_single_def tree_wf_def node_count_def split: if_splits)

lemma import_nodes_nth:
  "import_nodes P pns = Ok ns \<Longrightarrow> length ns = length pns \<and> (\<forall>i<length pns. import_node P (pns ! i) = Ok (ns ! i))"
  by (induction pns arbitrary: ns) (auto simp: result_simps nth_Cons split: nat.splits)

lemma import_leaves_spec:
  assumes "import_leaves P pns nodes seen is = Ok ls"
  shows "length ls = length is \<and> (\<forall>j<length is. ls ! j \<noteq> None \<longrightarrow> nodes ! (2 * (is ! j)) \<noteq> Blank)"
  using assms
proof (induction "is" arbitrary: seen ls)
  case Nil
  then show ?case by simp
next
  case (Cons i "is")
  from Cons.prems obtain l seen' ls' where l: "ls = l # ls'" "import_leaves P pns nodes seen' is = Ok ls'"
    "l \<noteq> None \<longrightarrow> nodes ! (2 * i) \<noteq> Blank"
    by (auto simp: checked_leaf_to_node_def result_simps mult.commute split: if_splits option.splits tree_node_content.splits)
  with Cons.IH [OF l(2)] show ?case by (auto simp: nth_Cons split: nat.splits)
qed

lemma from_proto_wf:
  assumes "from_proto P pns = Ok t"
  shows "tree_wf t"
proof -
  obtain ns ls where i: "import_nodes P pns = Ok ns" "import_leaves P pns ns [] [0..<div_ceil (length pns) 2] = Ok ls"
    "t = \<lparr> rt_nodes = ns, rt_leaves = ls, rt_leaf_count = div_ceil (length pns) 2 \<rparr>"
    "odd (length pns)" "length pns \<le> MAX_TREE_NODES"
    using assms by (auto simp: from_proto_def Let_def result_simps split: if_splits)
  obtain m where m: "length pns = 2 * m + 1" using i(4) by (elim oddE)
  then have lc: "div_ceil (length pns) 2 = m + 1" by (simp add: div_ceil_def)
  have "length ns = node_count (m + 1)" using import_nodes_nth [OF i(1)] m by (simp add: node_count_def)
  moreover have "length ls = m + 1" "\<forall>j<m + 1. ls ! j \<noteq> None \<longrightarrow> ns ! (2 * j) \<noteq> Blank"
    using import_leaves_spec [OF i(2)] unfolding lc by (auto simp del: upt_Suc)
  moreover have "m + 1 \<le> MAX_GROUP_MEMBERS" using i(5) m by simp
  ultimately show ?thesis using i(3) lc by (simp add: tree_wf_def)
qed

lemma filter_length_lt: "x \<in> set xs \<Longrightarrow> \<not> P x \<Longrightarrow> length (filter P xs) < length xs"
  by (simp add: length_filter_less)

lemma add_leaf_wf:
  assumes "tree_wf t" "add_leaf t x k ld = (res, t')"
  shows "tree_wf t'"
proof (cases "member_count t \<ge> MAX_GROUP_MEMBERS")
  case True
  with assms show ?thesis by (simp add: add_leaf_def)
next
  case small: False
  show ?thesis
  proof (cases "position (\<lambda>l. l = None) (rt_leaves t)")
    case None
    then have all: "\<forall>l\<in>set (rt_leaves t). l \<noteq> None" by (simp add: position_None)
    then have "member_count t = rt_leaf_count t" using assms(1) by (simp add: member_count_def tree_wf_def)
    with small have lc: "rt_leaf_count t + 1 \<le> MAX_GROUP_MEMBERS" by simp
    let ?n = "rt_leaf_count t"
    let ?g = "rt_nodes t @ replicate (node_count (?n + 1) - length (rt_nodes t)) Blank"
    have len: "length ?g = node_count (?n + 1)" using assms(1) by (simp add: tree_wf_def node_count_def)
    have node: "checked_leaf_to_node ?n = Ok (2 * ?n)" "2 * ?n < length ?g"
      using lc len by (simp_all add: checked_leaf_to_node_def node_count_def)
    have t': "t' = t\<lparr> rt_nodes := ?g[2 * ?n := public_node x k], rt_leaves := rt_leaves t @ [Some ld],
      rt_leaf_count := ?n + 1 \<rparr>"
      using assms(2) small None node by (auto simp: add_leaf_def Let_def)
    have nb: "?g[2 * ?n := public_node x k] ! (2 * i) \<noteq> Blank" if "i < ?n + 1" "(rt_leaves t @ [Some ld]) ! i \<noteq> None" for i
    proof (cases "i = ?n")
      case True
      then show ?thesis using node(2) by (simp add: public_node_def)
    next
      case False
      then have "i < ?n" using that by simp
      then show ?thesis using that assms(1) leaf_below_count [of i ?n] by (simp add: tree_wf_def nth_append)
    qed
    have "length (rt_leaves t) = ?n" using assms(1) by (simp add: tree_wf_def)
    with t' len lc nb show ?thesis by (simp add: tree_wf_def)
  next
    case (Some idx)
    then have i: "idx < length (rt_leaves t)" using position_Some by metis
    then have "idx < rt_leaf_count t" using assms(1) by (simp add: tree_wf_def)
    then have node: "checked_leaf_to_node idx = Ok (2 * idx)" "2 * idx < length (rt_nodes t)"
      using assms(1) by (simp_all add: checked_leaf_to_node_def tree_wf_def node_count_def)
    have t': "t' = t\<lparr> rt_nodes := (rt_nodes t)[2 * idx := public_node x k], rt_leaves := (rt_leaves t)[idx := Some ld] \<rparr>"
      using assms(2) small Some node by (auto simp: add_leaf_def)
    show ?thesis
      using assms(1) node(2) unfolding t' by (auto simp: tree_wf_def nth_list_update public_node_def)
  qed
qed

lemma blank_nodes_length [simp]: "length (blank_nodes path ns) = length ns"
  by (induction path arbitrary: ns) (auto simp: blank_nodes_def)

lemma blank_nodes_nth:
  "i < length ns \<Longrightarrow> blank_nodes path ns ! i = (if i \<in> set path then Blank else ns ! i)"
  by (induction path arbitrary: ns) (auto simp: blank_nodes_def nth_list_update split: if_splits)

definition without_leaf :: "ratchet_tree \<Rightarrow> nat \<Rightarrow> nat list \<Rightarrow> ratchet_tree" where
  "without_leaf t i ps = t\<lparr> rt_nodes := blank_nodes (2 * i # ps) (rt_nodes t), rt_leaves := (rt_leaves t)[i := None] \<rparr>"

lemma blank_leaf_Err:
  "tree_wf t \<Longrightarrow> \<not> (i < rt_leaf_count t \<and> rt_leaves t ! i \<noteq> None) \<Longrightarrow> \<exists>e. blank_leaf t i = (Err e, t)"
  by (auto simp: blank_leaf_def tree_wf_def)

lemma blank_leaf_Ok:
  assumes "tree_wf t" "i < rt_leaf_count t" "rt_leaves t ! i \<noteq> None"
  shows "\<exists>r ps cs. direct_path i (rt_leaf_count t) = Ok ps \<and> path_ok (rt_leaf_count t) r (2 * i) ps cs \<and>
    blank_leaf t i = (Ok (), without_leaf t i ps)"
proof -
  let ?n = "rt_leaf_count t"
  have n: "tree_size ?n" using tree_wf_size [OF assms(1)] .
  obtain r ps cs where p: "root ?n = Ok r" "direct_path i ?n = Ok ps" "copath i ?n = Ok cs" "path_ok ?n r (2 * i) ps cs"
    using direct_path_spec [OF assms(2) n] by blast
  have len: "\<not> rt_leaf_count t \<le> i" "\<not> length (rt_leaves t) \<le> i" "\<not> length (rt_nodes t) \<le> 2 * i"
    using assms(1,2) leaf_below_count [OF assms(2)] by (simp_all add: tree_wf_def)
  have bn: "blank_nodes (2 * i # ps) (rt_nodes t) = blank_nodes ps ((rt_nodes t)[2 * i := Blank])"
    using len by (simp add: blank_nodes_def)
  have "blank_leaf t i = (Ok (), without_leaf t i ps)"
  proof (cases "1 < ?n")
    case True
    then show ?thesis
      using len assms(3) p(2) leaf_node(1) [OF assms(2) n] unfolding without_leaf_def bn
      by (simp add: blank_leaf_def Let_def)
  next
    case False
    then have "level r \<le> 0" using root_spec [of ?n 0] p(1) n by auto
    with path_okD(2) [OF p(4)] have "ps = []" by simp
    with False show ?thesis
      using len assms(3) leaf_node(1) [OF assms(2) n] unfolding without_leaf_def bn
      by (simp add: blank_leaf_def Let_def blank_nodes_def)
  qed
  with p show ?thesis by blast
qed

lemma without_leaf_wf:
  assumes "tree_wf t" "path_ok (rt_leaf_count t) r (2 * i) ps cs"
  shows "tree_wf (without_leaf t i ps)"
proof -
  have "2 * j \<notin> set ps" for j using path_okD(4) [OF assms(2)] by fastforce
  then have "blank_nodes (2 * i # ps) (rt_nodes t) ! (2 * j) \<noteq> Blank"
    if "j < rt_leaf_count t" "(rt_leaves t)[i := None] ! j \<noteq> None" for j
    using that assms(1) leaf_below_count [of j "rt_leaf_count t"]
    by (auto simp: blank_nodes_nth tree_wf_def nth_list_update split: if_splits)
  then show ?thesis using assms(1) by (simp add: tree_wf_def without_leaf_def)
qed

lemma blank_leaf_wf:
  assumes "tree_wf t" "blank_leaf t i = (res, t')"
  shows "tree_wf t'"
proof (cases "i < rt_leaf_count t \<and> rt_leaves t ! i \<noteq> None")
  case True
  with blank_leaf_Ok [OF assms(1)] assms without_leaf_wf show ?thesis by fastforce
next
  case False
  with blank_leaf_Err [OF assms(1)] assms show ?thesis by fastforce
qed

lemma set_public_wf: "tree_wf t \<Longrightarrow> set_node_public_keys t i x k = (res, t') \<Longrightarrow> tree_wf t'"
  by (auto simp: set_node_public_keys_def public_node_def intro!: wf_populate_node split: if_splits tree_node_content.splits)

lemma set_private_wf: "tree_wf t \<Longrightarrow> set_node_private_keys t i x k = (res, t') \<Longrightarrow> tree_wf t'"
  by (auto simp: set_node_private_keys_def intro!: wf_populate_node split: option.splits tree_node_content.splits)

lemma set_parent_hash_wf: "tree_wf t \<Longrightarrow> set_node_parent_hash t i h = (res, t') \<Longrightarrow> tree_wf t'"
  by (auto simp: set_node_parent_hash_def intro!: wf_populate_node split: option.splits tree_node_content.splits)

lemma update_leaf_wf: "tree_wf t \<Longrightarrow> update_leaf t i x k xs ks = (res, t') \<Longrightarrow> tree_wf t'"
  by (auto simp: update_leaf_def intro!: wf_populate_node split: sum.splits if_splits)

lemma set_signature_wf: "tree_wf t \<Longrightarrow> set_leaf_signature t i sg = (res, t') \<Longrightarrow> tree_wf t'"
  by (auto simp: set_leaf_signature_def get_leaf_data_def get_nth_def tree_wf_def nth_list_update
      split: option.splits if_splits)

lemma tree_reach_wf: "tree_reach P t \<Longrightarrow> tree_wf t"
  by (induction rule: tree_reach.induct)
    (auto intro: new_single_wf from_proto_wf add_leaf_wf blank_leaf_wf set_public_wf set_private_wf
      set_signature_wf update_leaf_wf set_parent_hash_wf)

section \<open>Resolution\<close>

definition resolution_ok :: "ratchet_tree \<Rightarrow> nat \<Rightarrow> nat list \<Rightarrow> bool" where
  "resolution_ok t x rs \<longleftrightarrow> distinct rs \<and>
     (\<forall>r\<in>set rs. r \<in> sub (rt_leaf_count t) x \<and> rt_nodes t ! r \<noteq> Blank) \<and>
     (\<forall>y\<in>sub (rt_leaf_count t) x. rt_nodes t ! y \<noteq> Blank \<longrightarrow> (\<exists>r\<in>set rs. y \<in> sub (rt_leaf_count t) r)) \<and>
     (\<forall>r\<in>set rs. \<forall>r'\<in>set rs. r \<noteq> r' \<longrightarrow> sub (rt_leaf_count t) r \<inter> sub (rt_leaf_count t) r' = {})"

lemma sub_mono:
  assumes "y \<in> sub n x" "x < node_count n" "tree_size n"
  shows "sub n y \<subseteq> sub n x"
proof
  fix z assume z: "z \<in> sub n y"
  have y: "y < node_count n" using assms by (auto simp: sub_def node_count_def)
  have "below n x y" "below n y z" using sub_below assms y z by blast+
  then show "z \<in> sub n x" using below_trans below_sub assms by blast
qed

lemma resolution_okD:
  assumes "resolution_ok t x rs"
  shows "distinct rs" "r \<in> set rs \<Longrightarrow> r \<in> sub (rt_leaf_count t) x" "r \<in> set rs \<Longrightarrow> rt_nodes t ! r \<noteq> Blank"
    "y \<in> sub (rt_leaf_count t) x \<Longrightarrow> rt_nodes t ! y \<noteq> Blank \<Longrightarrow> \<exists>r\<in>set rs. y \<in> sub (rt_leaf_count t) r"
    "r \<in> set rs \<Longrightarrow> r' \<in> set rs \<Longrightarrow> r \<noteq> r' \<Longrightarrow> sub (rt_leaf_count t) r \<inter> sub (rt_leaf_count t) r' = {}"
  using assms by (simp_all add: resolution_ok_def)

lemma resolution_ok_append:
  assumes "resolution_ok t l rl" "resolution_ok t r rr"
    and x: "sub (rt_leaf_count t) x = insert x (sub (rt_leaf_count t) l \<union> sub (rt_leaf_count t) r)"
    and lr: "sub (rt_leaf_count t) l \<inter> sub (rt_leaf_count t) r = {}" and blank: "rt_nodes t ! x = Blank"
    and mono: "\<And>a. a \<in> sub (rt_leaf_count t) l \<Longrightarrow> sub (rt_leaf_count t) a \<subseteq> sub (rt_leaf_count t) l"
      "\<And>a. a \<in> sub (rt_leaf_count t) r \<Longrightarrow> sub (rt_leaf_count t) a \<subseteq> sub (rt_leaf_count t) r"
  shows "resolution_ok t x (rl @ rr)"
proof -
  note L = resolution_okD [OF assms(1)] and R = resolution_okD [OF assms(2)]
  have dj: "sub (rt_leaf_count t) a \<inter> sub (rt_leaf_count t) b = {}" if "a \<in> set rl" "b \<in> set rr" for a b
    using mono(1) [OF L(2) [OF that(1)]] mono(2) [OF R(2) [OF that(2)]] lr by blast
  have "set rl \<inter> set rr = {}" using L(2) R(2) lr by blast
  moreover have "\<exists>q\<in>set (rl @ rr). y \<in> sub (rt_leaf_count t) q" if "y \<in> sub (rt_leaf_count t) x" "rt_nodes t ! y \<noteq> Blank" for y
  proof -
    from that blank x consider "y \<in> sub (rt_leaf_count t) l" | "y \<in> sub (rt_leaf_count t) r" by auto
    then show ?thesis using L(4) R(4) that(2) by cases auto
  qed
  moreover have "sub (rt_leaf_count t) a \<inter> sub (rt_leaf_count t) b = {}"
    if "a \<in> set (rl @ rr)" "b \<in> set (rl @ rr)" "a \<noteq> b" for a b
  proof -
    from that consider "a \<in> set rl" "b \<in> set rl" | "a \<in> set rr" "b \<in> set rr" | "a \<in> set rl" "b \<in> set rr" | "b \<in> set rl" "a \<in> set rr"
      by auto
    then show ?thesis
    proof cases
      case 4
      with dj [of b a] show ?thesis by (simp add: Int_commute)
    qed (use L(5) R(5) dj that(3) in blast)+
  qed
  moreover have "a \<in> sub (rt_leaf_count t) x \<and> rt_nodes t ! a \<noteq> Blank" if "a \<in> set (rl @ rr)" for a
    using that L(2,3) R(2,3) x by auto
  ultimately show ?thesis using L(1) R(1) unfolding resolution_ok_def by simp
qed

lemma resolution_inner_spec:
  assumes "tree_wf t" "x < node_count (rt_leaf_count t)" "depth + level x \<le> MAX_TREE_DEPTH"
  shows "\<exists>rs. resolution_inner t x depth = Ok rs \<and> resolution_ok t x rs"
  using assms(2,3)
proof (induction "level x" arbitrary: x depth rule: less_induct)
  case less
  let ?n = "rt_leaf_count t"
  have n: "tree_size ?n" using tree_wf_size assms(1) by blast
  have len: "x < length (rt_nodes t)" using less.prems(1) assms(1) by (simp add: tree_wf_def)
  note unfold = resolution_inner.simps [of t x depth]
  show ?case
  proof (cases "rt_nodes t ! x")
    case (Populated keys ph)
    then have "resolution_ok t x [x]" using sub_self [OF less.prems(1)] by (simp add: resolution_ok_def)
    with Populated len less.prems show ?thesis by (simp add: unfold)
  next
    case blank: Blank
    show ?thesis
    proof (cases "odd x")
      case True
      obtain l r where c: "left x = Ok l" "right x ?n = Ok r" "l < node_count ?n" "r < node_count ?n"
        "level l < level x" "level r < level x" using children [OF True less.prems(1) n] by blast
      note i = sub_inner [OF True less.prems(1) n c(1,2)]
      obtain rl where rl: "resolution_inner t l (depth + 1) = Ok rl" "resolution_ok t l rl"
        using less.hyps [of l "depth + 1"] c less.prems by auto
      obtain rr where rr: "resolution_inner t r (depth + 1) = Ok rr" "resolution_ok t r rr"
        using less.hyps [of r "depth + 1"] c less.prems by auto
      have "resolution_ok t x (rl @ rr)"
        using resolution_ok_append [OF rl(2) rr(2) i(1,4) blank] sub_mono c(3,4) n by blast
      with c rl(1) rr(1) blank len less.prems True show ?thesis by (simp add: unfold is_leaf_iff)
    next
      case False
      then have "resolution_ok t x []" using blank sub_leaf [of x ?n] less.prems(1) by (simp add: resolution_ok_def)
      with False blank len less.prems show ?thesis by (simp add: unfold is_leaf_iff)
    qed
  qed
qed

lemma level_depth: "x < node_count n \<Longrightarrow> tree_size n \<Longrightarrow> level x \<le> MAX_TREE_DEPTH"
proof -
  assume x: "x < node_count n" and n: "tree_size n"
  then obtain r where r: "root n = Ok r" "level r \<le> MAX_TREE_DEPTH" "r < node_count n" using root_spec [of n MAX_TREE_DEPTH] by auto
  have "below n r x" using sub_below [OF r(3) n] sub_root [OF n r(1)] x by simp
  with below_level [of n r x] r n show ?thesis by auto
qed

lemma resolution_spec:
  assumes "tree_wf t" "x < node_count (rt_leaf_count t)"
  shows "\<exists>rs. resolution t x = Ok rs \<and> resolution_ok t x rs"
  using resolution_inner_spec [OF assms, of 0] level_depth [OF assms(2) tree_wf_size [OF assms(1)]]
  by (simp add: resolution_def)

lemma is_blank_iff: "tree_wf t \<Longrightarrow> x < node_count (rt_leaf_count t) \<Longrightarrow> is_blank t x \<longleftrightarrow> rt_nodes t ! x = Blank"
  by (simp add: is_blank_def get_nth_def tree_wf_def split: tree_node_content.splits)

section \<open>Properties of shape, resolution and removal\<close>

text \<open>C30. Every tree that can be built, whatever the order of operations and whether they
  succeeded, has at most 1024 leaves, an array of exactly \<open>2 n - 1\<close> nodes, one leaf slot per leaf,
  and a populated node wherever a leaf is occupied; and the member limit is respected.\<close>

theorem tree_invariant:
  assumes "tree_reach P t"
  shows "tree_wf t \<and> member_count t \<le> MAX_GROUP_MEMBERS \<and> length (rt_nodes t) \<le> MAX_TREE_NODES"
proof -
  have w: "tree_wf t" using tree_reach_wf [OF assms] .
  have "member_count t \<le> length (rt_leaves t)" by (simp add: member_count_def)
  with w show ?thesis by (auto simp: tree_wf_def node_count_def)
qed

theorem tree_invariant_witness:
  "\<exists>t t'. new_single (zeros 32) (zeros 1184) (zeros 32) (zeros 64) [] [] [] [] [] = Ok t \<and>
     add_leaf t (zeros 32) (zeros 1184) \<lparr> ld_credential = [], ld_identity_ed25519_public = [],
       ld_identity_x25519_public = [], ld_identity_kyber_public = [], ld_signature = [] \<rparr> = (Ok 1, t') \<and>
     rt_leaf_count t' = 2 \<and> tree_wf t'"
proof -
  let ?ld = "\<lparr> ld_credential = [], ld_identity_ed25519_public = [],
       ld_identity_x25519_public = [], ld_identity_kyber_public = [], ld_signature = [] \<rparr> :: leaf_data"
  obtain t where t: "new_single (zeros 32) (zeros 1184) (zeros 32) (zeros 64) [] [] [] [] [] = Ok t"
    by (simp add: new_single_def)
  obtain t' where t': "add_leaf t (zeros 32) (zeros 1184) ?ld = (Ok 1, t')" "rt_leaf_count t' = 2"
    using t by (auto simp: new_single_def add_leaf_def member_count_def Let_def checked_leaf_to_node_def node_count_def)
  have "tree_reach sample_prims t'" by (rule tree_reach.add [OF tree_reach.single [OF t] t'(1)])
  with tree_invariant [of sample_prims t'] t t' show ?thesis by blast
qed

text \<open>C31. In every reachable tree the resolution of a node is computed within the depth limit. It
  lists populated nodes below the node, without repetition and with disjoint subtrees, and every
  populated node below is below one of them, so encrypting to a resolution reaches each member of
  the subtree exactly once.\<close>

theorem resolution_covers:
  assumes "tree_reach P t" "x < node_count (rt_leaf_count t)"
  shows "\<exists>rs. resolution t x = Ok rs \<and> distinct rs \<and>
    (\<forall>r\<in>set rs. below (rt_leaf_count t) x r \<and> \<not> is_blank t r) \<and>
    (\<forall>y. below (rt_leaf_count t) x y \<and> \<not> is_blank t y \<longrightarrow> (\<exists>!r. r \<in> set rs \<and> below (rt_leaf_count t) r y))"
proof -
  let ?n = "rt_leaf_count t"
  have w: "tree_wf t" using tree_reach_wf [OF assms(1)] .
  have n: "tree_size ?n" using tree_wf_size [OF w] .
  obtain rs where rs: "resolution t x = Ok rs" "resolution_ok t x rs" using resolution_spec [OF w assms(2)] by blast
  have inside: "y < node_count ?n" if "y \<in> sub ?n x" for y using that n by (auto simp: sub_def node_count_def)
  have r: "below ?n r y \<longleftrightarrow> y \<in> sub ?n r" if "r \<in> set rs" for r y
    using below_iff [of r ?n y] inside resolution_okD(2) [OF rs(2) that] n by blast
  have x: "below ?n x y \<longleftrightarrow> y \<in> sub ?n x" for y using below_iff assms(2) n by blast
  have b: "is_blank t y \<longleftrightarrow> rt_nodes t ! y = Blank" if "y \<in> sub ?n x" for y using is_blank_iff [OF w] inside that by blast
  have ex1: "\<exists>!r. r \<in> set rs \<and> below ?n r y" if y: "y \<in> sub ?n x" "rt_nodes t ! y \<noteq> Blank" for y
  proof (rule ex_ex1I)
    show "\<exists>r. r \<in> set rs \<and> below ?n r y" using resolution_okD(4) [OF rs(2) y] r by blast
    fix a c assume "a \<in> set rs \<and> below ?n a y" "c \<in> set rs \<and> below ?n c y"
    with resolution_okD(5) [OF rs(2), of a c] r show "a = c" by blast
  qed
  have "\<forall>r\<in>set rs. below ?n x r \<and> \<not> is_blank t r" using resolution_okD(2,3) [OF rs(2)] x b by blast
  moreover have "\<forall>y. below ?n x y \<and> \<not> is_blank t y \<longrightarrow> (\<exists>!r. r \<in> set rs \<and> below ?n r y)" using ex1 x b by blast
  ultimately show ?thesis using rs(1) resolution_okD(1) [OF rs(2)] by blast
qed

theorem resolution_covers_witness:
  "\<exists>t. new_single (zeros 32) (zeros 1184) (zeros 32) (zeros 64) [] [] [] [] [] = Ok t \<and>
     (\<exists>rs. resolution t 0 = Ok rs \<and> distinct rs)"
proof -
  obtain t where t: "new_single (zeros 32) (zeros 1184) (zeros 32) (zeros 64) [] [] [] [] [] = Ok t" "rt_leaf_count t = 1"
    by (simp add: new_single_def)
  from resolution_covers [OF tree_reach.single [OF t(1)], of 0] t show ?thesis by (auto simp: node_count_def)
qed

text \<open>C32. Removing a member blanks its leaf and every ancestor and erases its leaf data, and nothing else: the
  number of leaves and of nodes, the contents of every node that is not above it and the leaf data
  of every other member stay as they were. Afterwards no resolution contains a node whose private
  key the removed member may hold. Removing an absent member fails and changes nothing.\<close>

theorem removed_member_excluded:
  assumes "tree_reach P t" "blank_leaf t i = (res, t')"
  shows "(is_ok res \<longrightarrow> rt_leaf_count t' = rt_leaf_count t \<and> length (rt_nodes t') = length (rt_nodes t) \<and>
      rt_leaves t' = (rt_leaves t)[i := None] \<and> get_leaf_data t' = (get_leaf_data t)(i := None) \<and>
      (\<forall>y<node_count (rt_leaf_count t). rt_nodes t' ! y =
        (if below (rt_leaf_count t) y (2 * i) then Blank else rt_nodes t ! y)) \<and>
      (\<forall>x<node_count (rt_leaf_count t). \<exists>rs. resolution t' x = Ok rs \<and>
        (\<forall>r\<in>set rs. \<not> below (rt_leaf_count t) r (2 * i)))) \<and>
    (\<not> is_ok res \<longleftrightarrow> get_leaf_data t i = None) \<and> (\<not> is_ok res \<longrightarrow> t' = t)"
proof (cases "i < rt_leaf_count t \<and> rt_leaves t ! i \<noteq> None")
  case False
  have w: "tree_wf t" using tree_reach_wf [OF assms(1)] .
  from blank_leaf_Err [OF w False] assms(2) obtain e where e: "res = Err e" "t' = t" by auto
  have "get_leaf_data t i = None" using False w by (auto simp: get_leaf_data_def get_nth_def tree_wf_def split: if_splits)
  with e show ?thesis by simp
next
  case True
  let ?n = "rt_leaf_count t"
  have w: "tree_wf t" using tree_reach_wf [OF assms(1)] .
  obtain r ps cs where p: "path_ok ?n r (2 * i) ps cs" "res = Ok ()" "t' = without_leaf t i ps"
    using blank_leaf_Ok [OF w] True assms(2) by force
  have w': "tree_wf t'" using without_leaf_wf [OF w p(1)] p(3) by simp
  have lc: "rt_leaf_count t' = ?n" "length (rt_leaves t) = ?n" "length (rt_nodes t) = node_count ?n"
    using w p(3) by (simp_all add: tree_wf_def without_leaf_def)
  have nodes: "rt_nodes t' ! y = (if below ?n y (2 * i) then Blank else rt_nodes t ! y)" if "y < node_count ?n" for y
    using that lc path_okD(7) [OF p(1)] p(3) by (auto simp: without_leaf_def blank_nodes_nth intro: below.here)
  have res: "\<exists>rs. resolution t' x = Ok rs \<and> (\<forall>r\<in>set rs. \<not> below ?n r (2 * i))" if xn: "x < node_count ?n" for x
  proof -
    obtain rs where rs: "resolution t' x = Ok rs" "resolution_ok t' x rs" using resolution_spec [OF w', of x] xn lc(1) by auto
    have "\<not> below ?n r (2 * i)" if r: "r \<in> set rs" for r
    proof -
      have "r \<in> sub ?n x" "rt_nodes t' ! r \<noteq> Blank" using rs(2) r lc(1) by (auto simp: resolution_ok_def)
      moreover have "r < node_count ?n" using \<open>r \<in> sub ?n x\<close> xn by (auto simp: sub_def)
      ultimately show ?thesis using nodes by auto
    qed
    with rs show ?thesis by blast
  qed
  have "get_leaf_data t' = (get_leaf_data t)(i := None)" "get_leaf_data t i \<noteq> None"
    using True lc p(3) by (auto simp: get_leaf_data_def get_nth_def without_leaf_def fun_eq_iff)
  moreover have "rt_leaves t' = (rt_leaves t)[i := None]" "length (rt_nodes t') = length (rt_nodes t)"
    using p(3) w w' lc by (simp_all add: without_leaf_def tree_wf_def)
  ultimately show ?thesis using nodes res lc(1) p(2) by simp
qed

text \<open>A tree of two members, for instances.\<close>

definition sample_leaf :: "bytes \<Rightarrow> leaf_data" where
  "sample_leaf ed = \<lparr> ld_credential = [], ld_identity_ed25519_public = ed, ld_identity_x25519_public = [],
     ld_identity_kyber_public = [], ld_signature = [] \<rparr>"

lemma sample_two_members:
  obtains t t1 where "new_single (zeros 32) (zeros 1184) (zeros 32) (zeros 64) [] [] [] [] [] = Ok t"
    "add_leaf t (zeros 32) (zeros 1184) (sample_leaf [1]) = (Ok 1, t1)"
    "tree_reach P t1" "rt_leaf_count t1 = 2" "rt_leaves t1 = [Some (sample_leaf []), Some (sample_leaf [1])]"
proof -
  obtain t where t: "new_single (zeros 32) (zeros 1184) (zeros 32) (zeros 64) [] [] [] [] [] = Ok t"
    by (simp add: new_single_def)
  obtain t1 where t1: "add_leaf t (zeros 32) (zeros 1184) (sample_leaf [1]) = (Ok 1, t1)"
    "rt_leaf_count t1 = 2" "rt_leaves t1 = [Some (sample_leaf []), Some (sample_leaf [1])]"
    using t by (auto simp: new_single_def add_leaf_def member_count_def Let_def checked_leaf_to_node_def node_count_def sample_leaf_def)
  with t that tree_reach.add [OF tree_reach.single [OF t] t1(1)] show ?thesis by blast
qed

theorem removed_member_excluded_witness:
  "\<exists>t t1 t'. new_single (zeros 32) (zeros 1184) (zeros 32) (zeros 64) [] [] [] [] [] = Ok t \<and>
     add_leaf t (zeros 32) (zeros 1184) (sample_leaf [1]) = (Ok 1, t1) \<and> blank_leaf t1 1 = (Ok (), t') \<and>
     get_leaf_data t' 0 = Some (sample_leaf []) \<and> get_leaf_data t' 1 = None"
proof -
  obtain t t1 where t: "new_single (zeros 32) (zeros 1184) (zeros 32) (zeros 64) [] [] [] [] [] = Ok t"
    "add_leaf t (zeros 32) (zeros 1184) (sample_leaf [1]) = (Ok 1, t1)"
    "tree_reach sample_prims t1" "rt_leaf_count t1 = 2" "rt_leaves t1 = [Some (sample_leaf []), Some (sample_leaf [1])]"
    by (rule sample_two_members)
  then have d: "get_leaf_data t1 0 = Some (sample_leaf [])" "get_leaf_data t1 1 \<noteq> None" by (simp_all add: get_leaf_data_def get_nth_def)
  obtain res t' where b: "blank_leaf t1 1 = (res, t')" by fastforce
  with removed_member_excluded [OF t(3) b] d have "is_ok res" "get_leaf_data t' = (get_leaf_data t1)(1 := None)" by auto
  with t b d show ?thesis by (cases res) auto
qed

end
