(* ===== verification/Tree_Hash.thy ===== *)
theory Tree_Hash
  imports Ratchet_Tree_Inv
begin

text \<open>
  The tree hash binds the public content of the tree, exporting a tree with its private keys and
  importing it gives it back, and the other two exports disclose no private key, or only those the
  new member is to have.
\<close>

section \<open>Hash inputs\<close>

text \<open>All byte strings that are hashed on the way to the hash of a node.\<close>

function hash_inputs :: "prims \<Rightarrow> ratchet_tree \<Rightarrow> nat \<Rightarrow> nat \<Rightarrow> bytes list" where
  "hash_inputs P t node_idx depth =
     (if depth > MAX_TREE_DEPTH then []
      else if \<not> is_leaf node_idx \<and> rt_leaf_count t > 1 then
        (case (left node_idx, right node_idx (rt_leaf_count t)) of
           (Inr l, Inr r) \<Rightarrow>
             hash_inputs P t l (depth + 1) @ hash_inputs P t r (depth + 1) @
             (case (compute_node_hash_inner P t l (depth + 1), compute_node_hash_inner P t r (depth + 1)) of
                (Inr a, Inr b) \<Rightarrow> [node_hash_part t node_idx @ len_prefixed a @ len_prefixed b] | _ \<Rightarrow> [])
         | _ \<Rightarrow> [])
      else [node_hash_part t node_idx])"
  by pat_completeness auto

termination hash_inputs
  by (relation "measure (\<lambda>(_, _, _, depth). Suc MAX_TREE_DEPTH - depth)") auto

declare hash_inputs.simps [simp del]

text \<open>Fields that fit their 32-bit length prefix.\<close>

definition node_small :: "ratchet_tree \<Rightarrow> nat \<Rightarrow> bool" where
  "node_small t x \<longleftrightarrow>
     (\<forall>k. get_node_keys t x = Some k \<longrightarrow> length (nk_x25519_public k) \<le> u32_max \<and> length (nk_kyber_public k) \<le> u32_max) \<and>
     (\<forall>l. get_leaf_data t (x div 2) = Some l \<longrightarrow> length (ld_credential l) \<le> u32_max \<and>
        length (ld_identity_ed25519_public l) \<le> u32_max \<and> length (ld_identity_x25519_public l) \<le> u32_max \<and>
        length (ld_identity_kyber_public l) \<le> u32_max \<and> length (ld_signature l) \<le> u32_max)"

lemma public_keys_map:
  "get_node_public_keys t x = map_option (\<lambda>k. (nk_x25519_public k, nk_kyber_public k)) (get_node_keys t x)"
  by (simp add: get_node_public_keys_def get_node_keys_def split: option.splits tree_node_content.splits)

lemma hash_labels:
  "length GROUP_BLANK_NODE_HASH_LABEL = 27" "length GROUP_LEAF_NODE_HASH_LABEL = 26"
  "length GROUP_PARENT_NODE_HASH_LABEL = 28"
  by (simp_all add: GROUP_BLANK_NODE_HASH_LABEL_def GROUP_LEAF_NODE_HASH_LABEL_def GROUP_PARENT_NODE_HASH_LABEL_def)

lemma leaf_hash_part_inject:
  assumes "\<And>l. u = Some l \<or> v = Some l \<Longrightarrow> length (ld_credential l) \<le> u32_max \<and>
        length (ld_identity_ed25519_public l) \<le> u32_max \<and> length (ld_identity_x25519_public l) \<le> u32_max \<and>
        length (ld_identity_kyber_public l) \<le> u32_max \<and> length (ld_signature l) \<le> u32_max"
    and "leaf_hash_part u @ s = leaf_hash_part v @ s'"
  shows "u = v \<and> s = s'"
proof (cases u)
  case None
  with assms(2) show ?thesis by (cases v) (simp_all add: leaf_hash_part_def)
next
  case (Some a)
  then obtain b where b: "v = Some b" using assms(2) by (cases v) (simp_all add: leaf_hash_part_def)
  from assms(2) Some b assms(1) [of a] assms(1) [of b] show ?thesis
    by (simp add: leaf_hash_part_def len_prefixed_inject)
qed

lemma node_hash_part_inject:
  assumes "node_small a x" "node_small b x" "node_hash_part a x @ s = node_hash_part b x @ s'"
  shows "get_node_public_keys a x = get_node_public_keys b x \<and>
    (is_leaf x \<and> get_node_keys a x \<noteq> None \<longrightarrow> get_leaf_data a (x div 2) = get_leaf_data b (x div 2)) \<and> s = s'"
proof -
  let ?label = "\<lambda>t. if get_node_keys t x = None then GROUP_BLANK_NODE_HASH_LABEL
    else if is_leaf x then GROUP_LEAF_NODE_HASH_LABEL else GROUP_PARENT_NODE_HASH_LABEL"
  let ?rest = "\<lambda>t. (case get_node_keys t x of Some k \<Rightarrow> len_prefixed (nk_x25519_public k) @ len_prefixed (nk_kyber_public k) | None \<Rightarrow> []) @
         (if is_leaf x \<and> get_node_keys t x \<noteq> None then leaf_hash_part (get_leaf_data t (x div 2)) else [])"
  have part: "node_hash_part t x = len_prefixed (?label t) @ le_bytes 4 x @ [of_bool (get_node_keys t x \<noteq> None)] @ ?rest t" for t
    by (auto simp: node_hash_part_def Let_def node_to_leaf_def)
  have small: "length (?label t) \<le> u32_max" for t using hash_labels by simp
  have eq: "?label a = ?label b" "?rest a @ s = ?rest b @ s'"
    using assms(3) unfolding part append_assoc len_prefixed_inject [OF small small] by simp_all
  have pop: "get_node_keys a x = None \<longleftrightarrow> get_node_keys b x = None"
    using arg_cong [OF eq(1), of length] hash_labels by (auto split: if_splits)
  show ?thesis
  proof (cases "get_node_keys a x")
    case None
    with pop eq(2) show ?thesis by (simp add: public_keys_map)
  next
    case (Some k)
    then obtain k' where k': "get_node_keys b x = Some k'" using pop by auto
    have k: "nk_x25519_public k = nk_x25519_public k'" "nk_kyber_public k = nk_kyber_public k'"
      "(if is_leaf x then leaf_hash_part (get_leaf_data a (x div 2)) else []) @ s =
       (if is_leaf x then leaf_hash_part (get_leaf_data b (x div 2)) else []) @ s'"
      using eq(2) Some k' assms(1,2) by (simp_all add: node_small_def len_prefixed_inject)
    have "(is_leaf x \<longrightarrow> get_leaf_data a (x div 2) = get_leaf_data b (x div 2)) \<and> s = s'"
      using k(3) leaf_hash_part_inject [of "get_leaf_data a (x div 2)" "get_leaf_data b (x div 2)" s s'] assms(1,2)
      by (auto simp: node_small_def split: if_splits)
    with k Some k' show ?thesis by (simp add: public_keys_map)
  qed
qed

lemma node_hash_total:
  assumes "hash_ok P" "tree_wf t" "x < node_count (rt_leaf_count t)" "depth + level x \<le> MAX_TREE_DEPTH"
  shows "\<exists>h. compute_node_hash_inner P t x depth = Ok h \<and> length h = 32"
  using assms(3,4)
proof (induction "level x" arbitrary: x depth rule: less_induct)
  case less
  let ?n = "rt_leaf_count t"
  have n: "tree_size ?n" using tree_wf_size assms(2) by blast
  have sha: "length (sha256 P m) = 32" for m using assms(1) by (simp add: hash_ok_def)
  show ?case
  proof (cases "odd x")
    case True
    obtain l r where c: "left x = Ok l" "right x ?n = Ok r" "l < node_count ?n" "r < node_count ?n"
      "level l < level x" "level r < level x" using children [OF True less.prems(1) n] by blast
    have "\<exists>h. compute_node_hash_inner P t l (depth + 1) = Ok h \<and> length h = 32"
      "\<exists>h. compute_node_hash_inner P t r (depth + 1) = Ok h \<and> length h = 32"
      using less.hyps c less.prems by simp_all
    with c sha less.prems True show ?thesis by (auto simp: compute_node_hash_inner.simps [of P t x depth] is_leaf_iff)
  next
    case False
    with sha less.prems show ?thesis by (simp add: compute_node_hash_inner.simps [of P t x depth] is_leaf_iff)
  qed
qed

definition same_node :: "ratchet_tree \<Rightarrow> ratchet_tree \<Rightarrow> nat \<Rightarrow> bool" where
  "same_node a b x \<longleftrightarrow> get_node_public_keys a x = get_node_public_keys b x \<and>
     (is_leaf x \<and> get_node_keys a x \<noteq> None \<longrightarrow> get_leaf_data a (x div 2) = get_leaf_data b (x div 2))"

lemma node_hash_leaf:
  assumes "depth \<le> MAX_TREE_DEPTH" "even x"
  shows "compute_node_hash_inner P t x depth = Ok (sha256 P (node_hash_part t x))"
    "hash_inputs P t x depth = [node_hash_part t x]"
  using assms by (simp_all add: compute_node_hash_inner.simps [of P t x depth] hash_inputs.simps [of P t x depth] is_leaf_iff)

lemma node_hash_inner:
  assumes "depth \<le> MAX_TREE_DEPTH" "odd x" "1 < rt_leaf_count t" "left x = Ok l" "right x (rt_leaf_count t) = Ok r"
    and "compute_node_hash_inner P t l (depth + 1) = Ok u" "compute_node_hash_inner P t r (depth + 1) = Ok v"
  shows "compute_node_hash_inner P t x depth = Ok (sha256 P (node_hash_part t x @ len_prefixed u @ len_prefixed v))"
    "hash_inputs P t x depth = hash_inputs P t l (depth + 1) @ hash_inputs P t r (depth + 1) @
       [node_hash_part t x @ len_prefixed u @ len_prefixed v]"
  using assms by (simp_all add: compute_node_hash_inner.simps [of P t x depth] hash_inputs.simps [of P t x depth] is_leaf_iff)

lemma node_hash_binds:
  assumes "hash_ok P" "tree_wf a" "tree_wf b" "rt_leaf_count a = rt_leaf_count b"
    and small: "\<And>y. node_small a y \<and> node_small b y"
    and "x < node_count (rt_leaf_count a)" "depth + level x \<le> MAX_TREE_DEPTH"
    and "compute_node_hash_inner P a x depth = compute_node_hash_inner P b x depth"
    and "inj_on (sha256 P) (set (hash_inputs P a x depth) \<union> set (hash_inputs P b x depth))"
  shows "\<forall>y\<in>sub (rt_leaf_count a) x. same_node a b y"
  using assms(6-9)
proof (induction "level x" arbitrary: x depth rule: less_induct)
  case less
  let ?n = "rt_leaf_count a"
  have n: "tree_size ?n" using tree_wf_size assms(2) by blast
  have d: "depth \<le> MAX_TREE_DEPTH" using less.prems(2) by simp
  have inj: "inj_on (sha256 P) S" if "S \<subseteq> set (hash_inputs P a x depth) \<union> set (hash_inputs P b x depth)" for S
    using inj_on_subset [OF less.prems(4) that] .
  show ?case
  proof (cases "odd x")
    case False
    then have h: "sha256 P (node_hash_part a x) = sha256 P (node_hash_part b x)"
      using less.prems(3) node_hash_leaf(1) [OF d] by simp
    have "inj_on (sha256 P) {node_hash_part a x, node_hash_part b x}"
      using False node_hash_leaf(2) [OF d] by (intro inj) simp
    with h have "node_hash_part a x @ [] = node_hash_part b x @ []" by (simp add: inj_on_eq_iff)
    then have "same_node a b x" using node_hash_part_inject small unfolding same_node_def by blast
    with False less.prems(1) show ?thesis by (simp add: sub_leaf)
  next
    case True
    obtain l r where c: "left x = Ok l" "right x ?n = Ok r" "l < node_count ?n" "r < node_count ?n"
      "level l < level x" "level r < level x" using children [OF True less.prems(1) n] by blast
    have n1: "1 < ?n" using True less.prems(1) n by (cases "?n = 1") (auto simp: node_count_def)
    have dl: "depth + 1 + level l \<le> MAX_TREE_DEPTH" "depth + 1 + level r \<le> MAX_TREE_DEPTH" using c less.prems(2) by simp_all
    obtain u v where ua: "compute_node_hash_inner P a l (depth + 1) = Ok u" "compute_node_hash_inner P a r (depth + 1) = Ok v"
      "length u = 32" "length v = 32" using node_hash_total [OF assms(1,2)] c dl by blast
    obtain u' v' where ub: "compute_node_hash_inner P b l (depth + 1) = Ok u'" "compute_node_hash_inner P b r (depth + 1) = Ok v'"
      "length u' = 32" "length v' = 32" using node_hash_total [OF assms(1,3)] c(3,4) [unfolded assms(4)] dl by blast
    note ha = node_hash_inner [OF d True n1 c(1,2) ua(1,2)]
    note hb = node_hash_inner [OF d True n1 [unfolded assms(4)] c(1) c(2) [unfolded assms(4)] ub(1,2)]
    let ?A = "node_hash_part a x @ len_prefixed u @ len_prefixed v" and ?B = "node_hash_part b x @ len_prefixed u' @ len_prefixed v'"
    have "inj_on (sha256 P) {?A, ?B}" using ha(2) hb(2) by (intro inj) simp
    moreover have "sha256 P ?A = sha256 P ?B" using less.prems(3) ha(1) hb(1) by simp
    ultimately have "?A = ?B" unfolding inj_on_def by blast
    then have s: "same_node a b x" and uv: "len_prefixed u @ len_prefixed v = len_prefixed u' @ len_prefixed v'"
      using node_hash_part_inject [of a x b] small unfolding same_node_def by blast+
    have e: "u = u'" "v = v'" using uv ua(3,4) ub(3,4) by (simp_all add: len_prefixed_def)
    have "inj_on (sha256 P) (set (hash_inputs P a l (depth + 1)) \<union> set (hash_inputs P b l (depth + 1)))"
      "inj_on (sha256 P) (set (hash_inputs P a r (depth + 1)) \<union> set (hash_inputs P b r (depth + 1)))"
      unfolding ha(2) hb(2) by (rule inj, auto simp: ha(2) hb(2))+
    moreover have "compute_node_hash_inner P a l (depth + 1) = compute_node_hash_inner P b l (depth + 1)"
      "compute_node_hash_inner P a r (depth + 1) = compute_node_hash_inner P b r (depth + 1)"
      using e ua(1,2) ub(1,2) by simp_all
    ultimately have "\<forall>y\<in>sub ?n l. same_node a b y" "\<forall>y\<in>sub ?n r. same_node a b y"
      using less.hyps [OF c(5,3) dl(1)] less.hyps [OF c(6,4) dl(2)] by blast+
    with s sub_inner(1) [OF True less.prems(1) n c(1,2)] show ?thesis by auto
  qed
qed

section \<open>Export and import\<close>

text \<open>The trees that survive storage: keys have their sizes, and the packages of the leaves are valid
  and of different identities. Importing yields such trees.\<close>

definition node_exportable :: "tree_node_content \<Rightarrow> bool" where
  "node_exportable c \<longleftrightarrow> (case c of Blank \<Rightarrow> True
     | Populated k ph \<Rightarrow> length (nk_x25519_public k) = 32 \<and> (nk_kyber_public k = [] \<or> length (nk_kyber_public k) = 1184) \<and>
         (\<forall>h. nk_x25519_private k = Some h \<longrightarrow> length h = 32) \<and> (\<forall>h. nk_kyber_secret k = Some h \<longrightarrow> length h = 64))"

definition tree_exportable :: "prims \<Rightarrow> ratchet_tree \<Rightarrow> bool" where
  "tree_exportable P t \<longleftrightarrow> tree_wf t \<and> list_all node_exportable (rt_nodes t) \<and>
     (\<forall>i<rt_leaf_count t. \<forall>kp. leaf_key_package t (2 * i) = Some kp \<longrightarrow> validate_key_package P kp = Ok ()) \<and>
     distinct (map ld_identity_ed25519_public (List.map_filter id (rt_leaves t)))"

lemma read_or_empty_exact: "(\<And>x. h = Some x \<Longrightarrow> length x = n) \<Longrightarrow> read_or_empty h n = (case h of None \<Rightarrow> [] | Some x \<Rightarrow> x)"
  by (auto simp: read_or_empty_def split: option.splits)

lemma opt_handle_exact:
  assumes "slot_free P n" "0 < n" "n \<le> MAX_BUFFER_SIZE" "\<And>x. h = Some x \<Longrightarrow> length x = n"
  shows "opt_handle P n (case h of None \<Rightarrow> [] | Some x \<Rightarrow> x) = Ok h"
proof (cases h)
  case (Some x)
  then have "length x = n" "x \<noteq> []" using assms by auto
  with Some assms show ?thesis by (simp add: opt_handle_def new_handle_exact)
qed (simp add: opt_handle_def)

lemma import_export_node:
  assumes "slot_free P 32" "slot_free P 64" "i < length (rt_nodes t)" "node_exportable (rt_nodes t ! i)"
  shows "import_node P (export_with_private_keys t ! i) = Ok (rt_nodes t ! i)"
proof (cases "rt_nodes t ! i")
  case Blank
  then show ?thesis using assms(3) by (simp add: export_with_private_keys_def export_blank_def import_node_def)
next
  case (Populated k ph)
  have e: "length (nk_x25519_public k) = 32" "nk_kyber_public k = [] \<or> length (nk_kyber_public k) = 1184"
    and x: "\<And>h. nk_x25519_private k = Some h \<Longrightarrow> length h = 32" and s: "\<And>h. nk_kyber_secret k = Some h \<Longrightarrow> length h = 64"
    using assms(4) Populated by (simp_all add: node_exportable_def)
  have o: "opt_handle P 32 (read_or_empty (nk_x25519_private k) 32) = Ok (nk_x25519_private k)"
    "opt_handle P 64 (read_or_empty (nk_kyber_secret k) 64) = Ok (nk_kyber_secret k)"
    using opt_handle_exact [OF assms(1), of "nk_x25519_private k"] opt_handle_exact [OF assms(2), of "nk_kyber_secret k"]
      read_or_empty_exact [OF x] read_or_empty_exact [OF s] x s by simp_all
  have l: "read_or_empty (nk_x25519_private k) 32 = [] \<or> length (read_or_empty (nk_x25519_private k) 32) = 32"
    "read_or_empty (nk_kyber_secret k) 64 = [] \<or> length (read_or_empty (nk_kyber_secret k) 64) = 64"
    using read_or_empty_exact [OF x] read_or_empty_exact [OF s] x s by (auto split: option.splits)
  have "nk_x25519_public k \<noteq> []" using e(1) by auto
  with Populated e o l assms(3) show ?thesis
    by (auto simp: export_with_private_keys_def import_node_def)
qed

lemma import_nodes_all:
  assumes "length ns = length pns" "\<And>i. i < length pns \<Longrightarrow> import_node P (pns ! i) = Ok (ns ! i)"
  shows "import_nodes P pns = Ok ns"
  using assms
proof (induction pns arbitrary: ns)
  case Nil
  then show ?case by simp
next
  case (Cons pn pns)
  then obtain m ms where ns: "ns = m # ms" by (cases ns) auto
  have "import_node P pn = Ok m" using Cons.prems(2) [of 0] ns by simp
  moreover have "import_nodes P pns = Ok ms"
    using Cons.prems(1) Cons.prems(2) [of "Suc _"] ns by (intro Cons.IH) simp_all
  ultimately show ?case using ns by simp
qed

lemma export_key_package: "i < length (rt_nodes t) \<Longrightarrow> tn_key_package (export_with_private_keys t ! i) = leaf_key_package t i"
  by (simp add: export_with_private_keys_def export_blank_def split: tree_node_content.splits)

lemma leaf_package_some:
  assumes "tree_wf t" "i < rt_leaf_count t" "rt_leaves t ! i = Some ld"
  shows "\<exists>kp k ph. leaf_key_package t (2 * i) = Some kp \<and> rt_nodes t ! (2 * i) = Populated k ph \<and> package_leaf kp = ld \<and>
    kp_identity_ed25519_public kp = ld_identity_ed25519_public ld \<and>
    kp_leaf_x25519_public kp = nk_x25519_public k \<and> kp_leaf_kyber_public kp = nk_kyber_public k"
proof -
  obtain k ph where "rt_nodes t ! (2 * i) = Populated k ph"
    using assms by (cases "rt_nodes t ! (2 * i)") (auto simp: tree_wf_def)
  then show ?thesis
    using assms leaf_below_count [OF assms(2)]
    by (simp add: leaf_key_package_def is_leaf_iff get_leaf_data_def get_node_public_keys_def get_nth_def package_leaf_def tree_wf_def)
qed

lemma leaf_package_none:
  "tree_wf t \<Longrightarrow> i < rt_leaf_count t \<Longrightarrow> rt_leaves t ! i = None \<Longrightarrow> leaf_key_package t (2 * i) = None"
  by (simp add: leaf_key_package_def get_leaf_data_def get_nth_def tree_wf_def)

lemma import_export_leaves:
  assumes "tree_exportable P t" "\<forall>i\<in>set is. i < rt_leaf_count t"
    and "distinct (seen @ map ld_identity_ed25519_public (List.map_filter (\<lambda>i. rt_leaves t ! i) is))"
  shows "import_leaves P (export_with_private_keys t) (rt_nodes t) seen is = Ok (map (\<lambda>i. rt_leaves t ! i) is)"
  using assms(2,3)
proof (induction "is" arbitrary: seen)
  case Nil
  then show ?case by simp
next
  case (Cons i "is")
  have w: "tree_wf t" and i: "i < rt_leaf_count t" using assms(1) Cons.prems by (simp_all add: tree_exportable_def)
  have node: "checked_leaf_to_node i = Ok (2 * i)" "2 * i < length (rt_nodes t)" "length (export_with_private_keys t) = length (rt_nodes t)"
    using leaf_node(1) [OF i tree_wf_size [OF w]] leaf_below_count [OF i] w
    by (simp_all add: tree_wf_def export_with_private_keys_def)
  note kp = export_key_package [OF node(2)]
  show ?case
  proof (cases "rt_leaves t ! i")
    case None
    with Cons.prems have "import_leaves P (export_with_private_keys t) (rt_nodes t) seen is = Ok (map (\<lambda>i. rt_leaves t ! i) is)"
      by (intro Cons.IH) (simp_all add: map_filter_simps)
    with None node kp leaf_package_none [OF w i None] show ?thesis by simp
  next
    case (Some ld)
    obtain pk k ph where p: "leaf_key_package t (2 * i) = Some pk" "rt_nodes t ! (2 * i) = Populated k ph" "package_leaf pk = ld"
      "kp_identity_ed25519_public pk = ld_identity_ed25519_public ld"
      "kp_leaf_x25519_public pk = nk_x25519_public k" "kp_leaf_kyber_public pk = nk_kyber_public k"
      using leaf_package_some [OF w i Some] by blast
    have v: "validate_key_package P pk = Ok ()" using assms(1) i p(1) by (simp add: tree_exportable_def)
    have "import_leaves P (export_with_private_keys t) (rt_nodes t) (kp_identity_ed25519_public pk # seen) is =
      Ok (map (\<lambda>i. rt_leaves t ! i) is)"
      using Cons.prems Some p(4) by (intro Cons.IH) (auto simp: map_filter_simps)
    moreover have "kp_identity_ed25519_public pk \<notin> set seen" using Cons.prems(2) Some p(4) by (auto simp: map_filter_simps)
    ultimately show ?thesis using node kp p v Some by simp
  qed
qed

lemma import_node_exportable:
  assumes "import_node P pn = Ok c"
  shows "node_exportable c"
proof (cases c)
  case (Populated k ph)
  have h: "length x = n" if "opt_handle P n d = Ok (Some x)" for n d x
    using that new_handle_length [of P n d x] by (auto simp: opt_handle_def result_simps split: if_splits)
  from assms Populated show ?thesis
    by (auto simp: import_node_def node_exportable_def result_simps h split: if_splits)
qed (simp add: node_exportable_def)

lemma import_leaves_valid:
  assumes "import_leaves P pns nodes seen is = Ok ls" "j < length is" "ls ! j = Some ld"
  shows "\<exists>kp k ph. validate_key_package P kp = Ok () \<and> package_leaf kp = ld \<and> nodes ! (2 * (is ! j)) = Populated k ph \<and>
    nk_x25519_public k = kp_leaf_x25519_public kp \<and> nk_kyber_public k = kp_leaf_kyber_public kp"
  using assms
proof (induction "is" arbitrary: seen ls j)
  case Nil
  then show ?case by simp
next
  case (Cons i "is")
  from Cons.prems(1) obtain l seen' ls' where l: "ls = l # ls'" "import_leaves P pns nodes seen' is = Ok ls'"
    "\<And>d. l = Some d \<Longrightarrow> \<exists>kp k ph. validate_key_package P kp = Ok () \<and> package_leaf kp = d \<and> nodes ! (2 * i) = Populated k ph \<and>
      nk_x25519_public k = kp_leaf_x25519_public kp \<and> nk_kyber_public k = kp_leaf_kyber_public kp"
    by (auto simp: checked_leaf_to_node_def result_simps mult.commute split: if_splits option.splits tree_node_content.splits)
  show ?case
  proof (cases j)
    case 0
    with l(1,3) Cons.prems(3) show ?thesis by simp
  next
    case (Suc j')
    with Cons.IH [OF l(2), of j'] l(1) Cons.prems(2,3) show ?thesis by simp
  qed
qed

lemma import_leaves_distinct:
  assumes "import_leaves P pns nodes seen is = Ok ls" "distinct seen"
  shows "distinct (seen @ map ld_identity_ed25519_public (List.map_filter id ls))"
  using assms
proof (induction "is" arbitrary: seen ls)
  case Nil
  then show ?case by (simp add: map_filter_simps)
next
  case (Cons i "is")
  from Cons.prems(1) consider ls' where "ls = None # ls'" "import_leaves P pns nodes seen is = Ok ls'"
    | kp ls' where "ls = Some (package_leaf kp) # ls'" "kp_identity_ed25519_public kp \<notin> set seen"
      "import_leaves P pns nodes (kp_identity_ed25519_public kp # seen) is = Ok ls'"
    by (auto simp: result_simps split: if_splits option.splits tree_node_content.splits)
  then show ?case
  proof cases
    case 1
    with Cons.IH [of seen ls'] Cons.prems(2) show ?thesis by (simp add: map_filter_simps)
  next
    case 2
    with Cons.IH [of "kp_identity_ed25519_public kp # seen" ls'] Cons.prems(2) show ?thesis
      by (auto simp: map_filter_simps package_leaf_def)
  qed
qed

lemma validate_key_package_cong:
  assumes "kp_version a = kp_version b" "kp_identity_ed25519_public a = kp_identity_ed25519_public b"
    "kp_identity_x25519_public a = kp_identity_x25519_public b" "kp_identity_kyber_public a = kp_identity_kyber_public b"
    "kp_leaf_x25519_public a = kp_leaf_x25519_public b" "kp_leaf_kyber_public a = kp_leaf_kyber_public b"
    "kp_signature a = kp_signature b" "kp_credential a = kp_credential b"
  shows "validate_key_package P a = validate_key_package P b"
  using assms by (simp add: validate_key_package_def)

lemma from_proto_exportable:
  assumes "from_proto P pns = Ok t"
  shows "tree_exportable P t"
proof -
  have w: "tree_wf t" using from_proto_wf [OF assms] .
  obtain lc where i: "import_nodes P pns = Ok (rt_nodes t)" "import_leaves P pns (rt_nodes t) [] [0..<lc] = Ok (rt_leaves t)"
    "rt_leaf_count t = lc"
    using assms by (auto simp: from_proto_def Let_def result_simps split: if_splits)
  have "list_all node_exportable (rt_nodes t)"
    using import_nodes_nth [OF i(1)] import_node_exportable by (auto simp: list_all_length)
  moreover have "distinct (map ld_identity_ed25519_public (List.map_filter id (rt_leaves t)))"
    using import_leaves_distinct [OF i(2)] by simp
  moreover have "validate_key_package P kp = Ok ()" if j: "j < lc" "leaf_key_package t (2 * j) = Some kp" for j kp
  proof -
    obtain ld where ld: "rt_leaves t ! j = Some ld"
      using leaf_package_none [OF w, of j] j i(3) by (cases "rt_leaves t ! j") auto
    obtain q k ph where q: "validate_key_package P q = Ok ()" "package_leaf q = ld" "rt_nodes t ! (2 * j) = Populated k ph"
      "nk_x25519_public k = kp_leaf_x25519_public q" "nk_kyber_public k = kp_leaf_kyber_public q"
      using import_leaves_valid [OF i(2), of j ld] ld j(1) by (auto simp del: upt_Suc)
    obtain kp' k' ph' where p: "leaf_key_package t (2 * j) = Some kp'" "rt_nodes t ! (2 * j) = Populated k' ph'" "package_leaf kp' = ld"
      "kp_leaf_x25519_public kp' = nk_x25519_public k'" "kp_leaf_kyber_public kp' = nk_kyber_public k'"
      using leaf_package_some [OF w _ ld] j(1) i(3) by blast
    have "kp_version kp = GROUP_PROTOCOL_VERSION" "kp_version q = GROUP_PROTOCOL_VERSION"
      using j(2) validate_key_package_sizes(1) [OF q(1)]
      by (auto simp: leaf_key_package_def split: if_splits option.splits prod.splits)
    then have "validate_key_package P kp = validate_key_package P q"
      using p q j(2) by (intro validate_key_package_cong) (auto simp: package_leaf_def)
    with q(1) show ?thesis by simp
  qed
  ultimately show ?thesis using w i(3) by (simp add: tree_exportable_def)
qed

section \<open>Properties\<close>

text \<open>C33. The tree hash is defined for every reachable tree. Two trees of the same size with the same
  hash have the same public keys at every node and the same credential, identity keys and
  signature at every leaf, provided SHA-256 does not collide on the strings hashed for the two.\<close>

theorem tree_hash_binds:
  assumes "hash_ok P" "tree_reach P a" "tree_reach P b" "rt_leaf_count a = rt_leaf_count b"
    and "\<And>y. node_small a y \<and> node_small b y" "root (rt_leaf_count a) = Ok r"
    and "inj_on (sha256 P) (set (hash_inputs P a r 0) \<union> set (hash_inputs P b r 0))"
  shows "(\<exists>h. tree_hash P a = Ok h \<and> length h = SHA256_HASH_BYTES) \<and>
    (tree_hash P a = tree_hash P b \<longrightarrow>
      (\<forall>y<node_count (rt_leaf_count a). get_node_public_keys a y = get_node_public_keys b y) \<and>
      (\<forall>i<rt_leaf_count a. get_leaf_data a i = get_leaf_data b i))"
proof -
  let ?n = "rt_leaf_count a"
  have w: "tree_wf a" "tree_wf b" using tree_reach_wf assms(2,3) by blast+
  have n: "tree_size ?n" using tree_wf_size w(1) by blast
  have r: "r < node_count ?n" "level r \<le> MAX_TREE_DEPTH" using root_spec [of ?n MAX_TREE_DEPTH] assms(6) n by auto
  have ta: "tree_hash P a = compute_node_hash_inner P a r 0" "tree_hash P b = compute_node_hash_inner P b r 0"
    using n assms(4,6) by (auto simp: tree_hash_def compute_node_hash_def)
  have tot: "\<exists>h. tree_hash P a = Ok h \<and> length h = SHA256_HASH_BYTES"
    using node_hash_total [OF assms(1) w(1) r(1), of 0] r(2) ta by simp
  have "(\<forall>y<node_count ?n. get_node_public_keys a y = get_node_public_keys b y) \<and>
      (\<forall>i<?n. get_leaf_data a i = get_leaf_data b i)" if eq: "tree_hash P a = tree_hash P b"
  proof -
    have "\<forall>y\<in>sub ?n r. same_node a b y"
      using node_hash_binds [OF assms(1) w assms(4,5) r(1), of 0] r(2) eq assms(7) unfolding ta by simp
    then have same: "same_node a b y" if "y < node_count ?n" for y
      using sub_root [OF n assms(6)] that by simp
    have "get_leaf_data a i = get_leaf_data b i" if i: "i < ?n" for i
    proof (cases "get_node_keys a (2 * i)")
      case None
      then have "get_node_keys b (2 * i) = None"
        using same [OF leaf_below_count [OF i]] by (simp add: same_node_def public_keys_map)
      with None have "rt_leaves a ! i = None" "rt_leaves b ! i = None"
        using w i assms(4) leaf_below_count [OF i]
        by (auto simp: tree_wf_def get_node_keys_def get_nth_def split: tree_node_content.splits)
      then show ?thesis using w i assms(4) by (simp add: get_leaf_data_def get_nth_def tree_wf_def)
    next
      case (Some k)
      then show ?thesis using same [OF leaf_below_count [OF i]] by (simp add: same_node_def is_leaf_iff)
    qed
    with same show ?thesis by (simp add: same_node_def)
  qed
  with tot show ?thesis by blast
qed

definition sample_single :: "u8 \<Rightarrow> ratchet_tree" where
  "sample_single c = \<lparr> rt_nodes = [Populated \<lparr> nk_x25519_public = zeros 32, nk_kyber_public = zeros 1184,
     nk_x25519_private = Some (zeros 32), nk_kyber_secret = Some (zeros 64) \<rparr> (zeros 32)],
     rt_leaves = [Some \<lparr> ld_credential = [], ld_identity_ed25519_public = [], ld_identity_x25519_public = [],
       ld_identity_kyber_public = [], ld_signature = [c] \<rparr>], rt_leaf_count = 1 \<rparr>"

theorem tree_hash_binds_witness:
  "tree_hash (sample_prims\<lparr> sha256 := (\<lambda>m. fill 32 (rev m)) \<rparr>) (sample_single 1) \<noteq>
   tree_hash (sample_prims\<lparr> sha256 := (\<lambda>m. fill 32 (rev m)) \<rparr>) (sample_single 2)"
proof -
  let ?P = "sample_prims\<lparr> sha256 := (\<lambda>m. fill 32 (rev m)) \<rparr>"
  have ok: "hash_ok ?P" using sample_hash_ok by (simp add: hash_ok_def)
  have "new_single (zeros 32) (zeros 1184) (zeros 32) (zeros 64) [] [] [] [] [c] = Ok (sample_single c)" for c
    by (simp add: new_single_def sample_single_def)
  then have reach: "tree_reach ?P (sample_single c)" for c by (rule tree_reach.single)
  have small: "node_small (sample_single c) y" for c y
    by (auto simp: node_small_def sample_single_def get_node_keys_def get_leaf_data_def get_nth_def split: if_splits)
  have inp: "hash_inputs ?P (sample_single c) 0 0 = [node_hash_part (sample_single c) 0]" for c
    by (rule node_hash_leaf(2)) simp_all
  have "\<exists>xs. node_hash_part (sample_single c) 0 = xs @ [c]" for c
    by (simp add: node_hash_part_def sample_single_def get_node_keys_def get_leaf_data_def get_nth_def is_leaf_iff
        node_to_leaf_def leaf_hash_part_def len_prefixed_def)
  moreover have "hd (fill 32 (rev (xs @ [c]))) = c" for xs c by (simp add: fill_def)
  moreover have "sha256 ?P m = fill 32 (rev m)" for m by simp
  ultimately have hd: "hd (sha256 ?P (node_hash_part (sample_single c) 0)) = c" for c by metis
  have "sha256 ?P (node_hash_part (sample_single 1) 0) \<noteq> sha256 ?P (node_hash_part (sample_single 2) 0)"
    using hd [of 1] hd [of 2] by auto
  then have inj: "inj_on (sha256 ?P) (set (hash_inputs ?P (sample_single 1) 0 0) \<union> set (hash_inputs ?P (sample_single 2) 0 0))"
    unfolding inp by (auto simp: inj_on_def)
  have "rt_leaf_count (sample_single c) = 1" "root 1 = Ok 0" for c by (simp_all add: sample_single_def root_eval)
  moreover have "get_leaf_data (sample_single 1) 0 \<noteq> get_leaf_data (sample_single 2) 0"
    by (simp add: sample_single_def get_leaf_data_def get_nth_def)
  ultimately show ?thesis
    using tree_hash_binds [OF ok reach reach, of 1 2 0] small inj by auto
qed

text \<open>C34. A tree with well-sized keys, valid leaf packages and different identities is restored exactly
  from its private export, and every imported tree is such a tree; so what was imported once can be
  stored and loaded again without change.\<close>

theorem tree_export_roundtrip:
  assumes "slot_free P X25519_PRIVATE_KEY_BYTES" "slot_free P KYBER_SECRET_KEY_BYTES"
  shows "(tree_exportable P t \<longrightarrow> from_proto P (export_with_private_keys t) = Ok t) \<and>
    (from_proto P pns = Ok t' \<longrightarrow> tree_exportable P t' \<and> from_proto P (export_with_private_keys t') = Ok t')"
proof -
  have rt: "from_proto P (export_with_private_keys t) = Ok t" if e: "tree_exportable P t" for t
  proof -
    have w: "tree_wf t" using e by (simp add: tree_exportable_def)
    let ?pns = "export_with_private_keys t"
    have len: "length ?pns = length (rt_nodes t)" by (simp add: export_with_private_keys_def)
    obtain m where m: "rt_leaf_count t = m + 1" "length (rt_nodes t) = 2 * m + 1" "m + 1 \<le> MAX_GROUP_MEMBERS" "length (rt_leaves t) = m + 1"
      using w by (cases "rt_leaf_count t") (auto simp: tree_wf_def node_count_def)
    have nodes: "import_nodes P ?pns = Ok (rt_nodes t)"
      using e len import_export_node assms by (intro import_nodes_all) (auto simp: tree_exportable_def list_all_length)
    have "map (\<lambda>i. rt_leaves t ! i) [0..<m + 1] = rt_leaves t" using m(4) by (metis map_nth)
    moreover have "List.map_filter (\<lambda>i. rt_leaves t ! i) [0..<m + 1] = List.map_filter id (map (\<lambda>i. rt_leaves t ! i) [0..<m + 1])"
      by (simp add: List.map_filter_def filter_map o_def del: upt_Suc)
    ultimately have "import_leaves P ?pns (rt_nodes t) [] [0..<m + 1] = Ok (rt_leaves t)"
      using import_export_leaves [OF e, of "[0..<m + 1]" "[]"] e m(1) by (auto simp: tree_exportable_def simp del: upt_Suc)
    moreover have "div_ceil (length ?pns) 2 = m + 1" "?pns \<noteq> []" "odd (length ?pns)" "length ?pns \<le> MAX_TREE_NODES"
      using m len by (auto simp: div_ceil_def)
    ultimately show ?thesis using nodes m(1) by (simp add: from_proto_def Let_def del: upt_Suc)
  qed
  with from_proto_exportable show ?thesis by blast
qed

theorem tree_export_roundtrip_witness:
  "\<exists>t ld k ph. tree_exportable sample_prims t \<and> rt_leaves t = [Some ld] \<and> rt_nodes t = [Populated k ph] \<and>
     nk_x25519_private k = Some (zeros 32) \<and> nk_kyber_secret k = Some (zeros 64) \<and>
     from_proto sample_prims (export_with_private_keys t) = Ok t"
proof -
  obtain kp where kp: "validate_key_package sample_prims kp = Ok ()" by (rule sample_key_package)
  let ?k = "\<lparr> nk_x25519_public = kp_leaf_x25519_public kp, nk_kyber_public = kp_leaf_kyber_public kp,
    nk_x25519_private = Some (zeros 32), nk_kyber_secret = Some (zeros 64) \<rparr>"
  let ?t = "\<lparr> rt_nodes = [Populated ?k (zeros 32)], rt_leaves = [Some (package_leaf kp)], rt_leaf_count = 1 \<rparr> :: ratchet_tree"
  have len: "length (kp_leaf_x25519_public kp) = 32" "length (kp_leaf_kyber_public kp) = 1184"
    using kp by (auto simp: validate_key_package_def validate_x25519_public_key_def kyber_validate_public_key_def result_simps split: if_splits)
  have "validate_key_package sample_prims kp' = Ok ()" if "leaf_key_package ?t 0 = Some kp'" for kp'
    using kp that by (auto simp: leaf_key_package_def get_leaf_data_def get_nth_def get_node_public_keys_def package_leaf_def validate_key_package_def
        signed_content_def split: if_splits)
  with len have "tree_exportable sample_prims ?t"
    by (auto simp: tree_exportable_def tree_wf_def node_count_def node_exportable_def map_filter_simps)
  with tree_export_roundtrip [of sample_prims ?t "[]" ?t] show ?thesis 
    by (intro exI [of _ ?t] exI [of _ "package_leaf kp"] exI [of _ ?k] exI [of _ "zeros 32"]) simp
qed

lemma welcome_private:
  assumes "export_for_welcome t i = Ok nds" "direct_path i (rt_leaf_count t) = Ok ps"
    and "y < length nds" "tn_x25519_private (nds ! y) \<noteq> [] \<or> tn_kyber_secret (nds ! y) \<noteq> []"
  shows "y \<in> set ps"
proof (rule ccontr)
  assume y: "y \<notin> set ps"
  have len: "length nds = length (rt_nodes t)" using assms(1,2) by (auto simp: export_for_welcome_def)
  then have up: "[0..<length (rt_nodes t)] ! y = y" using assms(3) by simp
  have "tn_x25519_private (nds ! y) = [] \<and> tn_kyber_secret (nds ! y) = []"
    using assms(1-3) len y up
    by (cases "rt_nodes t ! y") (auto simp: export_for_welcome_def export_blank_def Let_def)
  with assms(4) show False by simp
qed

text \<open>C35. The public export of a tree contains no private key. The export for a new member contains
  private keys of ancestors of that member's leaf only, the inner nodes the member will share.\<close>

theorem tree_export_disclosure:
  assumes "tree_reach P t" "i < rt_leaf_count t"
  shows "(\<forall>nd\<in>set (export_public t). tn_x25519_private nd = [] \<and> tn_kyber_secret nd = []) \<and>
    (\<exists>nds. export_for_welcome t i = Ok nds \<and> length nds = node_count (rt_leaf_count t) \<and>
      (\<forall>y<length nds. tn_x25519_private (nds ! y) \<noteq> [] \<or> tn_kyber_secret (nds ! y) \<noteq> [] \<longrightarrow>
         y \<noteq> 2 * i \<and> below (rt_leaf_count t) y (2 * i)))"
proof -
  let ?n = "rt_leaf_count t"
  have w: "tree_wf t" using tree_reach_wf [OF assms(1)] .
  obtain r ps cs where p: "direct_path i ?n = Ok ps" "path_ok ?n r (2 * i) ps cs"
    using direct_path_spec [OF assms(2) tree_wf_size [OF w]] by blast
  have "tn_x25519_private nd = [] \<and> tn_kyber_secret nd = []" if "nd \<in> set (export_public t)" for nd
    using that by (auto simp: export_public_def export_blank_def split: tree_node_content.splits)
  moreover obtain nds where nds: "export_for_welcome t i = Ok nds" "length nds = node_count ?n"
    using p(1) w by (auto simp: export_for_welcome_def tree_wf_def)
  moreover note welcome_private [OF nds(1) p(1)]
  moreover have "y \<noteq> 2 * i \<and> below ?n y (2 * i)" if "y \<in> set ps" "y < node_count ?n" for y
    using that path_okD(7) [OF p(2)] by blast
  ultimately show ?thesis by (intro conjI ballI exI [of _ nds]) auto
qed

theorem tree_export_disclosure_witness:
  "\<exists>nds. export_for_welcome (sample_single 3) 0 = Ok nds \<and> tn_x25519_private (nds ! 0) = []"
proof -
  have "new_single (zeros 32) (zeros 1184) (zeros 32) (zeros 64) [] [] [] [] [3] = Ok (sample_single 3)"
    by (simp add: new_single_def sample_single_def)
  then have "tree_reach sample_prims (sample_single 3)" by (rule tree_reach.single)
  from tree_export_disclosure [OF this, of 0] show ?thesis by (auto simp: sample_single_def node_count_def)
qed

end
