(* ===== verification/Membership.thy ===== *)
theory Membership
  imports Ratchet_Tree_Inv
begin

text \<open>
  Proposals (\<^verbatim>\<open>protocol/group/membership.rs\<close>): the checks that need no tree, the checks against
  the tree, and applying removals and additions. Applying returns its result and the tree.
\<close>

section \<open>Validation\<close>

definition psk_shape :: "bytes \<Rightarrow> bytes \<Rightarrow> unit pres" where
  "psk_shape psk_id psk_nonce =
     (if psk_id = [] then Err (GroupMembership ''PSK proposal: empty psk_id'')
      else if length psk_nonce \<noteq> PSK_BYTES then
        Err (GroupMembership ''PSK proposal: psk_nonce must be {} bytes, got {}'')
      else Ok ())"

definition external_init_shape :: "bytes \<Rightarrow> bytes \<Rightarrow> bytes \<Rightarrow> unit pres" where
  "external_init_shape ephemeral_x25519 kyber_ciphertext authorization =
     res_bind (map_err (\<lambda>_. GroupMembership ''ExternalInit has invalid ephemeral X25519 key: {error}'')
       (validate_x25519_public_key ephemeral_x25519)) (\<lambda>_.
     res_bind (map_err CryptoErr (kyber_validate_ciphertext kyber_ciphertext)) (\<lambda>_.
       if authorization = [] then Err (GroupMembership ''ExternalInit authorization is required'') else Ok ()))"

definition update_shape :: "prims \<Rightarrow> bytes \<Rightarrow> bytes \<Rightarrow> unit pres" where
  "update_shape P leaf_x25519 leaf_kyber =
     res_bind (map_err (\<lambda>_. GroupMembership ''Update proposal has invalid X25519 leaf key: {error}'')
       (validate_x25519_public_key leaf_x25519)) (\<lambda>_.
     map_err CryptoErr (kyber_validate_public_key P leaf_kyber))"

text \<open>The loop over the proposals; the result is the number of re-initialisations.\<close>

fun shape_loop :: "prims \<Rightarrow> nat list \<Rightarrow> bytes list \<Rightarrow> nat \<Rightarrow> group_proposal option list \<Rightarrow> nat pres" where
  "shape_loop P removed added reinits [] = Ok reinits"
| "shape_loop P removed added reinits (None # ps) = Err (GroupMembership ''Empty proposal'')"
| "shape_loop P removed added reinits (Some (Add None) # ps) = Err (GroupMembership ''Add proposal missing key package'')"
| "shape_loop P removed added reinits (Some (Add (Some kp)) # ps) =
     res_bind (validate_key_package P kp) (\<lambda>_.
       if kp_identity_ed25519_public kp \<in> set added then
         Err (GroupMembership ''Duplicate Add proposal: same identity key added twice'')
       else shape_loop P removed (kp_identity_ed25519_public kp # added) reinits ps)"
| "shape_loop P removed added reinits (Some (Remove i) # ps) =
     (if i \<in> set removed then Err (GroupMembership ''Duplicate Remove proposal for leaf {}'')
      else shape_loop P (i # removed) added reinits ps)"
| "shape_loop P removed added reinits (Some (Update x k) # ps) =
     res_bind (update_shape P x k) (\<lambda>_. shape_loop P removed added reinits ps)"
| "shape_loop P removed added reinits (Some (ExternalInit e ct auth) # ps) =
     res_bind (external_init_shape e ct auth) (\<lambda>_. shape_loop P removed added reinits ps)"
| "shape_loop P removed added reinits (Some (Psk psk_id psk_nonce) # ps) =
     res_bind (psk_shape psk_id psk_nonce) (\<lambda>_. shape_loop P removed added reinits ps)"
| "shape_loop P removed added reinits (Some (ReInit gid v) # ps) =
     (if length gid \<noteq> GROUP_ID_BYTES then Err (GroupMembership ''ReInit: new_group_id must be {} bytes, got {}'')
      else shape_loop P removed added (reinits + 1) ps)"

definition validate_proposal_shapes :: "prims \<Rightarrow> group_proposal option list \<Rightarrow> unit pres" where
  "validate_proposal_shapes P proposals =
     (if length proposals > MAX_PROPOSALS_PER_COMMIT then Err (GroupMembership ''Too many proposals: {} (max {})'')
      else res_bind (shape_loop P [] [] 0 proposals) (\<lambda>reinit_count.
        if reinit_count > 1 then Err (GroupMembership ''ReInit proposal must appear at most once'')
        else if reinit_count = 1 \<and> length proposals \<noteq> 1 then
          Err (GroupMembership ''ReInit commit must not contain other proposal types'')
        else Ok ()))"

definition identity_exists :: "ratchet_tree \<Rightarrow> bytes \<Rightarrow> bool" where
  "identity_exists t key =
     list_ex (\<lambda>i. case get_leaf_data t i of Some ld \<Rightarrow> ld_identity_ed25519_public ld = key | None \<Rightarrow> False)
       (populated_leaf_indices t)"

definition check_proposal :: "ratchet_tree \<Rightarrow> nat \<Rightarrow> group_proposal option \<Rightarrow> unit pres" where
  "check_proposal t committer proposal =
     (case proposal of
        Some (Add None) \<Rightarrow> Err (GroupMembership ''Add proposal missing key package'')
      | Some (Add (Some kp)) \<Rightarrow>
          if identity_exists t (kp_identity_ed25519_public kp) then
            Err (GroupMembership ''Add proposal: identity key already exists in group tree'')
          else Ok ()
      | Some (Remove leaf_idx) \<Rightarrow>
          if leaf_idx \<ge> rt_leaf_count t then Err (GroupMembership ''Remove: leaf index {leaf_idx} out of range'')
          else if get_leaf_data t leaf_idx = None then
            Err (GroupMembership ''Remove: leaf {leaf_idx} is already blank'')
          else if leaf_idx = committer then Err (GroupMembership ''Cannot remove the committer'')
          else Ok ()
      | _ \<Rightarrow> Ok ())"

fun check_proposals :: "ratchet_tree \<Rightarrow> nat \<Rightarrow> group_proposal option list \<Rightarrow> unit pres" where
  "check_proposals t committer [] = Ok ()"
| "check_proposals t committer (p # ps) = res_bind (check_proposal t committer p) (\<lambda>_. check_proposals t committer ps)"

definition validate_proposals :: "prims \<Rightarrow> ratchet_tree \<Rightarrow> group_proposal option list \<Rightarrow> nat \<Rightarrow> unit pres" where
  "validate_proposals P t proposals committer =
     res_bind (validate_proposal_shapes P proposals) (\<lambda>_. check_proposals t committer proposals)"

section \<open>Application\<close>

definition apply_add :: "ratchet_tree \<Rightarrow> group_key_package option \<Rightarrow> nat pres \<times> ratchet_tree" where
  "apply_add t key_package =
     (case key_package of
        None \<Rightarrow> (Err (GroupMembership ''Add proposal missing key package''), t)
      | Some kp \<Rightarrow> add_leaf t (kp_leaf_x25519_public kp) (kp_leaf_kyber_public kp) (package_leaf kp))"

definition apply_remove :: "ratchet_tree \<Rightarrow> nat \<Rightarrow> unit pres \<times> ratchet_tree" where
  "apply_remove t removed_leaf_index = blank_leaf t removed_leaf_index"

fun apply_removes :: "ratchet_tree \<Rightarrow> group_proposal option list \<Rightarrow> unit pres \<times> ratchet_tree" where
  "apply_removes t [] = (Ok (), t)"
| "apply_removes t (Some (Remove i) # ps) =
     (case apply_remove t i of (Inl e, t') \<Rightarrow> (Err e, t') | (Inr _, t') \<Rightarrow> apply_removes t' ps)"
| "apply_removes t (p # ps) = apply_removes t ps"

fun apply_adds :: "ratchet_tree \<Rightarrow> group_proposal option list \<Rightarrow> nat list pres \<times> ratchet_tree" where
  "apply_adds t [] = (Ok [], t)"
| "apply_adds t (Some (Add kp) # ps) =
     (case apply_add t kp of
        (Inl e, t') \<Rightarrow> (Err e, t')
      | (Inr i, t') \<Rightarrow> (case apply_adds t' ps of (Inl e, t'') \<Rightarrow> (Err e, t'') | (Inr is, t'') \<Rightarrow> (Ok (i # is), t'')))"
| "apply_adds t (p # ps) = apply_adds t ps"

definition apply_proposals :: "ratchet_tree \<Rightarrow> group_proposal option list \<Rightarrow> nat list pres \<times> ratchet_tree" where
  "apply_proposals t proposals =
     (case apply_removes t proposals of
        (Inl e, t') \<Rightarrow> (Err e, t')
      | (Inr _, t') \<Rightarrow> apply_adds t' proposals)"

section \<open>What validation accepts\<close>

definition removes :: "group_proposal option list \<Rightarrow> nat list" where
  "removes ps = List.map_filter (\<lambda>p. case p of Some (Remove i) \<Rightarrow> Some i | _ \<Rightarrow> None) ps"

definition adds :: "group_proposal option list \<Rightarrow> group_key_package list" where
  "adds ps = List.map_filter (\<lambda>p. case p of Some (Add kp) \<Rightarrow> kp | _ \<Rightarrow> None) ps"

definition reinits :: "group_proposal option list \<Rightarrow> nat" where
  "reinits ps = length (filter (\<lambda>p. case p of Some (ReInit _ _) \<Rightarrow> True | _ \<Rightarrow> False) ps)"

definition shape_ok :: "prims \<Rightarrow> group_proposal option \<Rightarrow> bool" where
  "shape_ok P p \<longleftrightarrow> (case p of
       None \<Rightarrow> False
     | Some (Add None) \<Rightarrow> False
     | Some (Add (Some kp)) \<Rightarrow> validate_key_package P kp = Ok ()
     | Some (Remove _) \<Rightarrow> True
     | Some (Update x k) \<Rightarrow> validate_x25519_public_key x = Ok () \<and> kyber_validate_public_key P k = Ok ()
     | Some (ExternalInit e ct auth) \<Rightarrow> validate_x25519_public_key e = Ok () \<and> kyber_validate_ciphertext ct = Ok () \<and> auth \<noteq> []
     | Some (Psk i n) \<Rightarrow> i \<noteq> [] \<and> length n = PSK_BYTES
     | Some (ReInit g _) \<Rightarrow> length g = GROUP_ID_BYTES)"

lemma shape_ok_simps [simp]:
  "\<not> shape_ok P None" "\<not> shape_ok P (Some (Add None))"
  "shape_ok P (Some (Add (Some kp))) \<longleftrightarrow> validate_key_package P kp = Ok ()"
  "shape_ok P (Some (Remove i))"
  "shape_ok P (Some (Update x k)) \<longleftrightarrow> validate_x25519_public_key x = Ok () \<and> kyber_validate_public_key P k = Ok ()"
  "shape_ok P (Some (ExternalInit e ct auth)) \<longleftrightarrow>
     validate_x25519_public_key e = Ok () \<and> kyber_validate_ciphertext ct = Ok () \<and> auth \<noteq> []"
  "shape_ok P (Some (Psk a b)) \<longleftrightarrow> a \<noteq> [] \<and> length b = PSK_BYTES"
  "shape_ok P (Some (ReInit g v)) \<longleftrightarrow> length g = GROUP_ID_BYTES"
  by (simp_all add: shape_ok_def)

lemma proposal_lists_Cons [simp]:
  "removes (p # ps) = (case p of Some (Remove i) \<Rightarrow> i # removes ps | _ \<Rightarrow> removes ps)"
  "adds (p # ps) = (case p of Some (Add (Some kp)) \<Rightarrow> kp # adds ps | _ \<Rightarrow> adds ps)"
  "reinits (p # ps) = (case p of Some (ReInit _ _) \<Rightarrow> Suc (reinits ps) | _ \<Rightarrow> reinits ps)"
  by (simp_all add: removes_def adds_def reinits_def map_filter_simps split: option.splits group_proposal.splits)

lemma proposal_lists_Nil [simp]: "removes [] = []" "adds [] = []" "reinits [] = 0"
  by (simp_all add: removes_def adds_def reinits_def map_filter_simps)

lemma shape_loop_iff:
  "shape_loop P removed added r ps = Ok r' \<longleftrightarrow>
     list_all (shape_ok P) ps \<and> distinct (removes ps) \<and> set (removes ps) \<inter> set removed = {} \<and>
     distinct (map kp_identity_ed25519_public (adds ps)) \<and>
     (\<forall>kp\<in>set (adds ps). kp_identity_ed25519_public kp \<notin> set added) \<and> r' = r + reinits ps"
  by (induction P removed added r ps rule: shape_loop.induct)
    (auto simp: result_simps psk_shape_def external_init_shape_def update_shape_def image_iff dest: sym)

lemma shapes_iff:
  "validate_proposal_shapes P ps = Ok () \<longleftrightarrow>
     length ps \<le> MAX_PROPOSALS_PER_COMMIT \<and> list_all (shape_ok P) ps \<and> distinct (removes ps) \<and>
     distinct (map kp_identity_ed25519_public (adds ps)) \<and> (reinits ps = 0 \<or> length ps = 1)"
proof -
  have "reinits ps \<le> length ps" by (simp add: reinits_def)
  then show ?thesis by (auto simp: validate_proposal_shapes_def result_simps shape_loop_iff)
qed

lemma identity_exists_iff:
  "identity_exists t key \<longleftrightarrow> (\<exists>i ld. get_leaf_data t i = Some ld \<and> ld_identity_ed25519_public ld = key)"
  by (auto simp: identity_exists_def list_ex_iff populated_leaf_indices_def get_leaf_data_def get_nth_def
      split: option.splits if_splits)

lemma check_proposals_iff:
  "list_all (shape_ok P) ps \<Longrightarrow> check_proposals t c ps = Ok () \<longleftrightarrow>
     (\<forall>kp\<in>set (adds ps). \<not> identity_exists t (kp_identity_ed25519_public kp)) \<and>
     (\<forall>i\<in>set (removes ps). i < rt_leaf_count t \<and> get_leaf_data t i \<noteq> None \<and> i \<noteq> c)"
  by (induction ps)
    (auto simp: check_proposal_def result_simps split: option.splits group_proposal.splits if_splits)

section \<open>What application does\<close>

lemma member_count_card: "member_count t = card (dom (get_leaf_data t))"
proof -
  have "dom (get_leaf_data t) = {i. i < length (rt_leaves t) \<and> rt_leaves t ! i \<noteq> None}"
    by (auto simp: get_leaf_data_def get_nth_def split: if_splits)
  then show ?thesis by (simp add: member_count_def length_filter_conv_card)
qed

lemma finite_leaves: "finite (dom (get_leaf_data t))"
proof (rule finite_subset)
  show "dom (get_leaf_data t) \<subseteq> {..<length (rt_leaves t)}"
    by (auto simp: get_leaf_data_def get_nth_def split: if_splits)
qed simp

lemma blank_leaf_data:
  assumes "tree_wf t" "get_leaf_data t i \<noteq> None"
  shows "\<exists>t'. blank_leaf t i = (Ok (), t') \<and> tree_wf t' \<and> rt_leaf_count t' = rt_leaf_count t \<and>
    get_leaf_data t' = (get_leaf_data t)(i := None)"
proof -
  have i: "i < rt_leaf_count t" "rt_leaves t ! i \<noteq> None"
    using assms by (auto simp: get_leaf_data_def get_nth_def tree_wf_def split: if_splits)
  obtain r ps cs where p: "path_ok (rt_leaf_count t) r (2 * i) ps cs" "blank_leaf t i = (Ok (), without_leaf t i ps)"
    using blank_leaf_Ok [OF assms(1) i] by blast
  have "get_leaf_data (without_leaf t i ps) = (get_leaf_data t)(i := None)"
    by (auto simp: get_leaf_data_def get_nth_def without_leaf_def fun_eq_iff)
  with p without_leaf_wf [OF assms(1) p(1)] show ?thesis by (simp add: without_leaf_def)
qed

lemma add_leaf_data:
  assumes "tree_wf t" "member_count t < MAX_GROUP_MEMBERS"
  shows "\<exists>i t'. add_leaf t x k ld = (Ok i, t') \<and> tree_wf t' \<and> get_leaf_data t i = None \<and>
    get_leaf_data t' = (get_leaf_data t)(i \<mapsto> ld) \<and> rt_leaf_count t \<le> rt_leaf_count t'"
proof (cases "position (\<lambda>l. l = None) (rt_leaves t)")
  case None
  let ?n = "rt_leaf_count t"
  have "\<forall>l\<in>set (rt_leaves t). l \<noteq> None" using None by (simp add: position_None)
  then have "member_count t = ?n" using assms(1) by (simp add: member_count_def tree_wf_def)
  then have n: "?n < MAX_GROUP_MEMBERS" using assms(2) by simp
  have w: "length (rt_leaves t) = ?n" "length (rt_nodes t) = node_count ?n" using assms(1) by (simp_all add: tree_wf_def)
  have c: "checked_leaf_to_node ?n = Ok (2 * ?n)" "\<not> length (rt_nodes t) + (node_count (?n + 1) - length (rt_nodes t)) \<le> 2 * ?n"
    using n by (simp_all add: checked_leaf_to_node_def node_count_def)
  have "\<exists>t'. add_leaf t x k ld = (Ok ?n, t') \<and> rt_leaves t' = rt_leaves t @ [Some ld] \<and> rt_leaf_count t' = ?n + 1"
    using None c assms(2) by (simp add: add_leaf_def Let_def)
  then obtain t' where t': "add_leaf t x k ld = (Ok ?n, t')" "rt_leaves t' = rt_leaves t @ [Some ld]" "rt_leaf_count t' = ?n + 1"
    by blast
  have "get_leaf_data t' = (get_leaf_data t)(?n \<mapsto> ld)" "get_leaf_data t ?n = None"
    using t'(2) w(1) by (auto simp: get_leaf_data_def get_nth_def fun_eq_iff nth_append)
  moreover have "rt_leaf_count t \<le> rt_leaf_count t'" using t'(3) by simp
  ultimately show ?thesis using t'(1) add_leaf_wf [OF assms(1) t'(1)] by blast
next
  case (Some idx)
  then have i: "idx < length (rt_leaves t)" "rt_leaves t ! idx = None" using position_Some [OF Some] by simp_all
  then have "idx < rt_leaf_count t" using assms(1) by (simp add: tree_wf_def)
  then have c: "checked_leaf_to_node idx = Ok (2 * idx)" "2 * idx < length (rt_nodes t)"
    using leaf_node(1) [OF _ tree_wf_size [OF assms(1)]] leaf_below_count [of idx "rt_leaf_count t"] assms(1)
    by (simp_all add: tree_wf_def)
  have "\<exists>t'. add_leaf t x k ld = (Ok idx, t') \<and> rt_leaves t' = (rt_leaves t)[idx := Some ld] \<and> rt_leaf_count t' = rt_leaf_count t"
    using Some c assms(2) by (simp add: add_leaf_def)
  then obtain t' where t': "add_leaf t x k ld = (Ok idx, t')" "rt_leaves t' = (rt_leaves t)[idx := Some ld]" "rt_leaf_count t' = rt_leaf_count t"
    by blast
  have "get_leaf_data t' = (get_leaf_data t)(idx \<mapsto> ld)" "get_leaf_data t idx = None"
    using t'(2) i by (auto simp: get_leaf_data_def get_nth_def fun_eq_iff)
  moreover have "rt_leaf_count t \<le> rt_leaf_count t'" using t'(3) by simp
  ultimately show ?thesis using t'(1) add_leaf_wf [OF assms(1) t'(1)] by blast
qed

lemma apply_removes_other:
  assumes "\<nexists>i. p = Some (Remove i)"
  shows "apply_removes t (p # ps) = apply_removes t ps \<and> removes (p # ps) = removes ps"
proof (cases p)
  case (Some q)
  with assms show ?thesis by (cases q) auto
qed simp

lemma apply_adds_other:
  assumes "\<nexists>kp. p = Some (Add kp)"
  shows "apply_adds t (p # ps) = apply_adds t ps \<and> adds (p # ps) = adds ps"
proof (cases p)
  case (Some q)
  with assms show ?thesis by (cases q) auto
qed simp

lemma apply_removes_data:
  assumes "tree_wf t" "distinct (removes ps)" "\<forall>i\<in>set (removes ps). get_leaf_data t i \<noteq> None"
  shows "\<exists>t'. apply_removes t ps = (Ok (), t') \<and> tree_wf t' \<and> rt_leaf_count t' = rt_leaf_count t \<and>
    get_leaf_data t' = get_leaf_data t |` (- set (removes ps))"
  using assms
proof (induction ps arbitrary: t)
  case Nil
  then show ?case by (simp add: restrict_map_def)
next
  case (Cons p ps)
  show ?case
  proof (cases "\<exists>i. p = Some (Remove i)")
    case False
    then have "apply_removes t (p # ps) = apply_removes t ps" "removes (p # ps) = removes ps"
      using apply_removes_other by blast+
    with Cons show ?thesis by simp
  next
    case True
    then obtain i where p: "p = Some (Remove i)" by blast
    then obtain t1 where t1: "blank_leaf t i = (Ok (), t1)" "tree_wf t1" "rt_leaf_count t1 = rt_leaf_count t"
      "get_leaf_data t1 = (get_leaf_data t)(i := None)" using blank_leaf_data [OF Cons.prems(1)] Cons.prems(3) by force
    have "\<exists>t'. apply_removes t1 ps = (Ok (), t') \<and> tree_wf t' \<and> rt_leaf_count t' = rt_leaf_count t1 \<and>
      get_leaf_data t' = get_leaf_data t1 |` (- set (removes ps))"
      using t1 Cons.prems p by (intro Cons.IH) auto
    moreover have "((get_leaf_data t)(i := None)) |` (- set (removes ps)) = get_leaf_data t |` (- set (removes (p # ps)))"
      using p by (auto simp: restrict_map_def fun_eq_iff)
    ultimately show ?thesis using t1 p by (auto simp: apply_remove_def)
  qed
qed

lemma apply_adds_data:
  assumes "tree_wf t" "list_all (shape_ok P) ps" "member_count t + length (adds ps) \<le> MAX_GROUP_MEMBERS"
  shows "\<exists>is t'. apply_adds t ps = (Ok is, t') \<and> tree_wf t' \<and> length is = length (adds ps) \<and> distinct is \<and>
    set is \<inter> dom (get_leaf_data t) = {} \<and> rt_leaf_count t \<le> rt_leaf_count t' \<and>
    get_leaf_data t' = get_leaf_data t ++ map_of (zip is (map package_leaf (adds ps)))"
  using assms
proof (induction ps arbitrary: t)
  case Nil
  then show ?case by simp
next
  case (Cons p ps)
  show ?case
  proof (cases "\<exists>kp. p = Some (Add kp)")
    case False
    then have "apply_adds t (p # ps) = apply_adds t ps" "adds (p # ps) = adds ps"
      using apply_adds_other by blast+
    with Cons show ?thesis by simp
  next
    case True
    then obtain q where q: "p = Some (Add q)" by blast
    then obtain kp where p: "p = Some (Add (Some kp))" using Cons.prems(2) by (cases q) auto
    then obtain i t1 where t1: "add_leaf t (kp_leaf_x25519_public kp) (kp_leaf_kyber_public kp) (package_leaf kp) = (Ok i, t1)"
      "tree_wf t1" "get_leaf_data t i = None" "get_leaf_data t1 = (get_leaf_data t)(i \<mapsto> package_leaf kp)"
      "rt_leaf_count t \<le> rt_leaf_count t1"
      using add_leaf_data [OF Cons.prems(1)] Cons.prems(3) by fastforce
    have "member_count t1 = member_count t + 1"
      using t1(3,4) finite_leaves [of t] by (simp add: member_count_card card_insert_if domIff)
    then obtain "is" t' where t': "apply_adds t1 ps = (Ok is, t')" "tree_wf t'" "length is = length (adds ps)" "distinct is"
      "set is \<inter> dom (get_leaf_data t1) = {}" "rt_leaf_count t1 \<le> rt_leaf_count t'"
      "get_leaf_data t' = get_leaf_data t1 ++ map_of (zip is (map package_leaf (adds ps)))"
      using Cons.IH [OF t1(2)] Cons.prems p by auto
    have "i \<notin> set is" using t'(5) t1(4) by auto
    then have "i \<notin> dom (map_of (zip is (map package_leaf (adds ps))))" using t'(3) by (simp add: dom_map_of_zip)
    then have "(get_leaf_data t)(i \<mapsto> package_leaf kp) ++ map_of (zip is (map package_leaf (adds ps))) =
      get_leaf_data t ++ (map_of (zip is (map package_leaf (adds ps))))(i \<mapsto> package_leaf kp)"
      by (simp add: map_add_upd_left)
    with t1 t' p \<open>i \<notin> set is\<close> show ?thesis by (auto simp: apply_add_def)
  qed
qed

section \<open>Properties\<close>

text \<open>C38. The proposals of a commit are accepted exactly when there are not too many, each is well formed,
  no leaf is removed twice and no identity added twice, a re-initialisation stands alone, no added
  identity is already in the tree, and every removed leaf is an occupied one other than the
  committer's.\<close>

theorem validate_proposals_iff:
  "validate_proposals P t ps c = Ok () \<longleftrightarrow>
     length ps \<le> MAX_PROPOSALS_PER_COMMIT \<and> list_all (shape_ok P) ps \<and> distinct (removes ps) \<and>
     distinct (map kp_identity_ed25519_public (adds ps)) \<and> (reinits ps = 0 \<or> length ps = 1) \<and>
     (\<forall>kp\<in>set (adds ps). \<nexists>i ld. get_leaf_data t i = Some ld \<and> ld_identity_ed25519_public ld = kp_identity_ed25519_public kp) \<and>
     (\<forall>i\<in>set (removes ps). i < rt_leaf_count t \<and> get_leaf_data t i \<noteq> None \<and> i \<noteq> c)"
  using shapes_iff [of P ps] check_proposals_iff [of P ps t c]
  by (auto simp: validate_proposals_def result_simps identity_exists_iff)

theorem validate_proposals_iff_witness:
  "validate_proposals sample_prims \<lparr> rt_nodes = [Blank], rt_leaves = [None], rt_leaf_count = 1 \<rparr> [Some (Psk [1] (zeros 32))] 0 = Ok () \<and>
   validate_proposals sample_prims \<lparr> rt_nodes = [Blank], rt_leaves = [None], rt_leaf_count = 1 \<rparr> [Some (Remove 0)] 0 \<noteq> Ok ()"
  by (simp add: validate_proposals_iff)

text \<open>C39. Applying validated proposals to a tree with room for the new members succeeds, whatever the
  order in which they are listed: afterwards the removed leaves are gone, each added package
  occupies a slot of its own that was free, everyone else, the committer included, is untouched.\<close>

theorem proposals_apply:
  assumes "tree_reach P t" "validate_proposals P t ps c = Ok ()"
    and "member_count t + length (adds ps) \<le> MAX_GROUP_MEMBERS + length (removes ps)"
  shows "\<exists>is t'. apply_proposals t ps = (Ok is, t') \<and> tree_wf t' \<and> distinct is \<and> length is = length (adds ps) \<and>
    get_leaf_data t' = (get_leaf_data t |` (- set (removes ps))) ++ map_of (zip is (map package_leaf (adds ps))) \<and>
    set is \<inter> (dom (get_leaf_data t) - set (removes ps)) = {} \<and>
    (get_leaf_data t c \<noteq> None \<longrightarrow> get_leaf_data t' c = get_leaf_data t c)"
proof -
  have w: "tree_wf t" using tree_reach_wf [OF assms(1)] .
  have v: "list_all (shape_ok P) ps" "distinct (removes ps)" "\<forall>i\<in>set (removes ps). get_leaf_data t i \<noteq> None \<and> i \<noteq> c"
    using assms(2) shapes_iff [of P ps] check_proposals_iff [of P ps t c]
    by (auto simp: validate_proposals_def result_simps)
  obtain t1 where t1: "apply_removes t ps = (Ok (), t1)" "tree_wf t1" "get_leaf_data t1 = get_leaf_data t |` (- set (removes ps))"
    using apply_removes_data [OF w v(2)] v(3) by auto
  have "set (removes ps) \<subseteq> dom (get_leaf_data t)" using v(3) by auto
  moreover have "dom (get_leaf_data t1) = dom (get_leaf_data t) - set (removes ps)" using t1(3) by auto
  ultimately have "member_count t1 + length (removes ps) = member_count t"
    using finite_leaves [of t] card_mono [of "dom (get_leaf_data t)" "set (removes ps)"] v(2)
    by (simp add: member_count_card card_Diff_subset distinct_card)
  then have "member_count t1 + length (adds ps) \<le> MAX_GROUP_MEMBERS" using assms(3) by simp
  then obtain "is" t' where t': "apply_adds t1 ps = (Ok is, t')" "tree_wf t'" "length is = length (adds ps)" "distinct is"
    "set is \<inter> dom (get_leaf_data t1) = {}" "get_leaf_data t' = get_leaf_data t1 ++ map_of (zip is (map package_leaf (adds ps)))"
    using apply_adds_data [OF t1(2) v(1)] by blast
  have "get_leaf_data t' c = get_leaf_data t c" if "get_leaf_data t c \<noteq> None"
  proof -
    have c: "c \<in> dom (get_leaf_data t1)" "get_leaf_data t1 c = get_leaf_data t c"
      using that v(3) t1(3) by (auto simp: restrict_map_def)
    then have "c \<notin> set is" using t'(5) by blast
    moreover have "dom (map_of (zip is (map package_leaf (adds ps)))) = set is" using t'(3) by (simp add: dom_map_of_zip)
    ultimately have "map_of (zip is (map package_leaf (adds ps))) c = None" by blast
    with c(2) t'(6) show ?thesis by (simp add: map_add_def)
  qed
  moreover have "apply_proposals t ps = (Ok is, t')" using t1(1) t'(1) by (simp add: apply_proposals_def)
  moreover have "set is \<inter> (dom (get_leaf_data t) - set (removes ps)) = {}"
    using t'(5) \<open>dom (get_leaf_data t1) = dom (get_leaf_data t) - set (removes ps)\<close> by simp
  moreover have "get_leaf_data t' = (get_leaf_data t |` (- set (removes ps))) ++ map_of (zip is (map package_leaf (adds ps)))"
    using t'(6) t1(3) by simp
  ultimately show ?thesis using t'(2-4) by blast
qed

theorem proposals_apply_witness:
  "\<exists>t kp i t'. get_leaf_data t = [0 \<mapsto> sample_leaf [], 1 \<mapsto> sample_leaf [1]] \<and>
     apply_proposals t [Some (Add (Some kp)), Some (Remove 1)] = (Ok [i], t') \<and> i \<noteq> 0 \<and>
     get_leaf_data t' = [0 \<mapsto> sample_leaf [], i \<mapsto> package_leaf kp]"
proof -
  obtain t0 t where t: "tree_reach sample_prims t" "rt_leaf_count t = 2" "rt_leaves t = [Some (sample_leaf []), Some (sample_leaf [1])]"
    by (rule sample_two_members)
  obtain kp where kp: "validate_key_package sample_prims kp = Ok ()" "kp_identity_ed25519_public kp = fill 32 [5]"
    by (rule sample_key_package)
  let ?ps = "[Some (Add (Some kp)), Some (Remove 1)]"
  have d: "get_leaf_data t = [0 \<mapsto> sample_leaf [], 1 \<mapsto> sample_leaf [1]]"
    using t(3) by (auto simp: get_leaf_data_def get_nth_def fun_eq_iff less_Suc_eq nth_Cons')
  have ne: "fill 32 [5] \<noteq> []" "fill 32 [5] \<noteq> [1]" by (simp_all add: fill_def)
  have v: "validate_proposals sample_prims t ?ps 0 = Ok ()"
    using t kp d ne by (simp add: validate_proposals_def validate_proposal_shapes_def check_proposal_def identity_exists_iff sample_leaf_def)
  have "member_count t + length (adds ?ps) \<le> MAX_GROUP_MEMBERS + length (removes ?ps)" using t(3) by (simp add: member_count_def)
  from proposals_apply [OF t(1) v this] obtain "is" t' where a: "apply_proposals t ?ps = (Ok is, t')" "length is = 1"
    "get_leaf_data t' = (get_leaf_data t |` (- {1})) ++ map_of (zip is [package_leaf kp])" "set is \<inter> (dom (get_leaf_data t) - {1}) = {}"
    by auto
  then obtain i where i: "is = [i]" by (cases "is") auto
  have "get_leaf_data t' = [0 \<mapsto> sample_leaf [], i \<mapsto> package_leaf kp]" "i \<noteq> 0"
    using a(3,4) d by (auto simp: i fun_eq_iff restrict_map_def)
  with a(1) d i show ?thesis by blast
qed

end
