(* ===== verification/Tree_Kem.thy ===== *)
theory Tree_Kem
  imports Ratchet_Tree_Inv
begin

text \<open>
  Update paths (\<^verbatim>\<open>protocol/group/tree_kem.rs\<close>): a committer draws a path secret, derives from it a key
  pair for every node of its direct path, and encrypts the secret of each node to the resolution of the
  node's other child. Every other member decrypts one of them and derives the rest. Random bytes are the
  arguments \<open>path_draws\<close> and \<open>hybrid_draws\<close>; processing returns its result and the tree.
\<close>

section \<open>Hybrid encryption of a path secret\<close>

record hybrid_draws =
  hyd_x25519 :: bytes
  hyd_encaps :: bytes
  hyd_nonce :: bytes

definition hybrid_key :: "prims \<Rightarrow> bytes \<Rightarrow> bytes \<Rightarrow> bytes pres" where
  "hybrid_key P dh_shared kyber_ss =
     derive_key_bytes P kyber_ss AES_KEY_BYTES (GROUP_HYBRID_SALT_PREFIX @ dh_shared) GROUP_HYBRID_PATH_INFO"

definition encrypt_path_secret :: "prims \<Rightarrow> bytes \<Rightarrow> bytes \<Rightarrow> bytes \<Rightarrow> nat \<Rightarrow> hybrid_draws \<Rightarrow> group_hybrid_ciphertext pres" where
  "encrypt_path_secret P path_secret target_x25519_public target_kyber_public node_index d =
     res_bind (generate_x25519_keypair P (hyd_x25519 d)) (\<lambda>(eph_private, eph_public).
     res_bind (map_err CryptoErr (read_bytes eph_private X25519_PRIVATE_KEY_BYTES)) (\<lambda>sk.
       if length target_x25519_public \<noteq> X25519_PUBLIC_KEY_BYTES then Err (GroupProtocol ''Invalid X25519 public key size'')
       else
         let dh_shared = x25519_dh P sk target_x25519_public
         in if is_all_zero dh_shared then
              Err (GroupProtocol ''X25519 DH produced all-zero output in encrypt_path_secret (RFC 7748 section 6.1)'')
            else
     res_bind (map_err CryptoErr (kyber_encapsulate P target_kyber_public (hyd_encaps d))) (\<lambda>(kyber_ct, kyber_ss_handle).
     res_bind (map_err CryptoErr (read_bytes kyber_ss_handle KYBER_SHARED_SECRET_BYTES)) (\<lambda>kyber_ss.
     res_bind (hybrid_key P dh_shared kyber_ss) (\<lambda>key.
     res_bind (aes_gcm_encrypt P key (hyd_nonce d) path_secret (le_bytes 4 node_index)) (\<lambda>encrypted.
       Ok \<lparr> hc_ephemeral_x25519_public = eph_public, hc_kyber_ciphertext = kyber_ct,
            hc_encrypted_secret = encrypted, hc_nonce = hyd_nonce d \<rparr>))))))"

definition decrypt_path_secret :: "prims \<Rightarrow> group_hybrid_ciphertext \<Rightarrow> handle \<Rightarrow> handle \<Rightarrow> nat \<Rightarrow> bytes pres" where
  "decrypt_path_secret P ciphertext x25519_private kyber_secret node_index =
     res_bind (map_err (\<lambda>_. GroupProtocol ''decrypt_path_secret: invalid ephemeral X25519 key: {e}'')
       (validate_x25519_public_key (hc_ephemeral_x25519_public ciphertext))) (\<lambda>_.
     res_bind (map_err (\<lambda>_. GroupProtocol ''decrypt_path_secret: invalid Kyber ciphertext: {e}'')
       (kyber_validate_ciphertext (hc_kyber_ciphertext ciphertext))) (\<lambda>_.
     res_bind (map_err CryptoErr (read_bytes x25519_private X25519_PRIVATE_KEY_BYTES)) (\<lambda>sk.
       if length (hc_ephemeral_x25519_public ciphertext) \<noteq> X25519_PUBLIC_KEY_BYTES then
         Err (GroupProtocol ''Invalid X25519 public key size'')
       else
         let dh_shared = x25519_dh P sk (hc_ephemeral_x25519_public ciphertext)
         in if is_all_zero dh_shared then
              Err (GroupProtocol ''X25519 DH produced all-zero output in decrypt_path_secret (RFC 7748 section 6.1)'')
            else
     res_bind (map_err CryptoErr (kyber_decapsulate P (hc_kyber_ciphertext ciphertext) kyber_secret)) (\<lambda>kyber_ss_handle.
     res_bind (map_err CryptoErr (read_bytes kyber_ss_handle KYBER_SHARED_SECRET_BYTES)) (\<lambda>kyber_ss.
     res_bind (hybrid_key P dh_shared kyber_ss) (\<lambda>key.
       aes_gcm_decrypt P key (hc_nonce ciphertext) (hc_encrypted_secret ciphertext) (le_bytes 4 node_index)))))))"

section \<open>Derivation along the path\<close>

definition derive_node_keypairs :: "prims \<Rightarrow> bytes \<Rightarrow> (handle \<times> bytes \<times> handle \<times> bytes) pres" where
  "derive_node_keypairs P path_secret =
     res_bind (hkdf_expand P path_secret (GROUP_NODE_KEY_INFO @ ascii ''x25519'') X25519_PRIVATE_KEY_BYTES) (\<lambda>seed.
     let x25519_seed = clamp seed
     in if length x25519_seed \<noteq> X25519_PRIVATE_KEY_BYTES then Err (TreeIntegrity ''X25519 seed has wrong length'')
        else
          let x25519_pub = x25519_public P x25519_seed
          in res_bind (map_err CryptoErr (new_handle P X25519_PRIVATE_KEY_BYTES x25519_seed)) (\<lambda>x25519_handle.
             res_bind (hkdf_expand P path_secret (GROUP_NODE_KEY_INFO @ ascii ''kyber'') KYBER_SEED_KEY_BYTES) (\<lambda>kyber_seed.
             res_bind (map_err CryptoErr (kyber_generate_keypair_from_seed P kyber_seed)) (\<lambda>(kyber_secret, kyber_public).
               Ok (x25519_handle, x25519_pub, kyber_secret, kyber_public)))))"

definition derive_next_path_secret :: "prims \<Rightarrow> bytes \<Rightarrow> nat \<Rightarrow> bytes pres" where
  "derive_next_path_secret P current level' =
     hkdf_expand P current (GROUP_PATH_SECRET_INFO @ le_bytes 4 level') PATH_SECRET_BYTES"

text \<open>The secrets of the levels \<open>levels\<close>, each derived from the one before.\<close>

fun next_path_secrets :: "prims \<Rightarrow> bytes \<Rightarrow> nat list \<Rightarrow> bytes list pres" where
  "next_path_secrets P current [] = Ok []"
| "next_path_secrets P current (i # levels) =
     res_bind (derive_next_path_secret P current i) (\<lambda>next'.
     res_bind (next_path_secrets P next' levels) (\<lambda>rest. Ok (next' # rest)))"

section \<open>Creating an update path\<close>

record path_draws =
  pd_commit_secret :: bytes
  pd_leaf_x25519 :: bytes
  pd_leaf_kyber :: bytes
  pd_leaf_kyber_test :: bytes
  pd_path_secret :: bytes
  pd_hybrid :: "nat \<Rightarrow> nat \<Rightarrow> hybrid_draws"

fun encrypt_to_resolution :: "prims \<Rightarrow> ratchet_tree \<Rightarrow> bytes \<Rightarrow> nat \<Rightarrow> (nat \<Rightarrow> hybrid_draws) \<Rightarrow> nat \<Rightarrow> nat list \<Rightarrow> group_hybrid_ciphertext list pres" where
  "encrypt_to_resolution P t path_secret node_idx d j [] = Ok []"
| "encrypt_to_resolution P t path_secret node_idx d j (res_node # rest) =
     res_bind (ok_or (TreeIntegrity ''Resolution node {res_node} is blank'') (get_node_public_keys t res_node)) (\<lambda>(target_x25519, target_kyber).
     res_bind (encrypt_path_secret P path_secret target_x25519 target_kyber node_idx (d j)) (\<lambda>ct.
     res_bind (encrypt_to_resolution P t path_secret node_idx d (Suc j) rest) (\<lambda>cts. Ok (ct # cts))))"

text \<open>The loop over the levels of the direct path, given as (node, copath node, path secret); the result
  is the nodes of the update path, without parent hashes, and the new private keys.\<close>

fun create_path_nodes :: "prims \<Rightarrow> ratchet_tree \<Rightarrow> (nat \<Rightarrow> nat \<Rightarrow> hybrid_draws) \<Rightarrow> nat \<Rightarrow> (nat \<times> nat \<times> bytes) list \<Rightarrow>
    (group_update_path_node list \<times> (nat \<times> handle \<times> handle) list) pres" where
  "create_path_nodes P t d i [] = Ok ([], [])"
| "create_path_nodes P t d i ((node_idx, copath_node, path_secret) # rest) =
     res_bind (derive_node_keypairs P path_secret) (\<lambda>(x25519_priv, x25519_pub, kyber_sec, kyber_pub).
     res_bind (resolution t copath_node) (\<lambda>res.
     res_bind (encrypt_to_resolution P t path_secret node_idx (d i) 0 res) (\<lambda>encrypted_secrets.
     res_bind (create_path_nodes P t d (Suc i) rest) (\<lambda>(nodes, keys).
       Ok (\<lparr> upn_x25519_public = x25519_pub, upn_kyber_public = kyber_pub,
              upn_encrypted_path_secrets = encrypted_secrets, upn_parent_hash = zeros SHA256_HASH_BYTES \<rparr> # nodes,
           (node_idx, x25519_priv, kyber_sec) # keys)))))"

text \<open>The parent hashes, from the root down: zeros at the root, and below it the hash of the parent's
  new keys, its parent hash and the sibling subtree.\<close>

fun set_parent_hashes :: "prims \<Rightarrow> ratchet_tree \<Rightarrow> (nat \<times> group_update_path_node) list \<Rightarrow> group_update_path_node list pres" where
  "set_parent_hashes P t [] = Ok []"
| "set_parent_hashes P t [(node_idx, node)] = Ok [node\<lparr> upn_parent_hash := zeros SHA256_HASH_BYTES \<rparr>]"
| "set_parent_hashes P t ((child_node_idx, node) # (parent_idx, parent_node) # rest) =
     res_bind (set_parent_hashes P t ((parent_idx, parent_node) # rest)) (\<lambda>above.
     res_bind (sibling child_node_idx (rt_leaf_count t)) (\<lambda>sib_idx.
     res_bind (compute_parent_hash_value P t (upn_x25519_public parent_node) (upn_kyber_public parent_node)
         (upn_parent_hash (hd above)) sib_idx) (\<lambda>h.
       Ok (node\<lparr> upn_parent_hash := h \<rparr> # above))))"

definition create_update_path :: "prims \<Rightarrow> ratchet_tree \<Rightarrow> nat \<Rightarrow> path_draws \<Rightarrow>
    (group_update_path \<times> bytes \<times> (nat \<times> handle \<times> handle) list) pres" where
  "create_update_path P t my_leaf_idx d =
     (let n = rt_leaf_count t
      in if n \<le> 1 then
           res_bind (generate_x25519_keypair P (pd_leaf_x25519 d)) (\<lambda>(x25519_priv, x25519_pub).
           res_bind (map_err CryptoErr (kyber_generate_keypair P (pd_leaf_kyber d) (pd_leaf_kyber_test d))) (\<lambda>(kyber_sec, kyber_pub).
           res_bind (checked_leaf_to_node my_leaf_idx) (\<lambda>leaf_node.
             Ok (\<lparr> up_leaf_x25519_public = x25519_pub, up_leaf_kyber_public = kyber_pub, up_nodes = [], up_leaf_signature = [] \<rparr>,
                 pd_commit_secret d, [(leaf_node, x25519_priv, kyber_sec)]))))
         else
           res_bind (generate_x25519_keypair P (pd_leaf_x25519 d)) (\<lambda>(leaf_x25519_priv, leaf_x25519_pub).
           res_bind (map_err CryptoErr (kyber_generate_keypair P (pd_leaf_kyber d) (pd_leaf_kyber_test d))) (\<lambda>(leaf_kyber_sec, leaf_kyber_pub).
           res_bind (direct_path my_leaf_idx n) (\<lambda>dp.
           res_bind (copath my_leaf_idx n) (\<lambda>cp.
           res_bind (next_path_secrets P (pd_path_secret d) [1..<length dp]) (\<lambda>rest.
           let path_secrets = pd_path_secret d # rest in
           res_bind (checked_leaf_to_node my_leaf_idx) (\<lambda>leaf_node.
           res_bind (create_path_nodes P t (pd_hybrid d) 0 (zip dp (zip cp path_secrets))) (\<lambda>(nodes, keys).
           res_bind (set_parent_hashes P t (zip dp nodes)) (\<lambda>update_nodes.
             Ok (\<lparr> up_leaf_x25519_public = leaf_x25519_pub, up_leaf_kyber_public = leaf_kyber_pub, up_nodes = update_nodes,
                    up_leaf_signature = [] \<rparr>,
                 last path_secrets, (leaf_node, leaf_x25519_priv, leaf_kyber_sec) # keys))))))))))"

section \<open>Processing an update path\<close>

fun validate_path_keys :: "prims \<Rightarrow> group_update_path_node list \<Rightarrow> unit pres" where
  "validate_path_keys P [] = Ok ()"
| "validate_path_keys P (node # nodes) =
     res_bind (map_err (\<lambda>_. TreeIntegrity ''UpdatePath node {i} X25519 key invalid: {e}'')
       (validate_x25519_public_key (upn_x25519_public node))) (\<lambda>_.
     res_bind (map_err (\<lambda>_. TreeIntegrity ''UpdatePath node {i} Kyber key invalid: {e}'')
       (kyber_validate_public_key P (upn_kyber_public node))) (\<lambda>_. validate_path_keys P nodes))"

fun validate_path_hashes :: "group_update_path_node list \<Rightarrow> unit pres" where
  "validate_path_hashes [] = Ok ()"
| "validate_path_hashes (node # nodes) =
     (if length (upn_parent_hash node) \<noteq> SHA256_HASH_BYTES then
        Err (TreeIntegrity ''Invalid parent_hash length at node level {i}: expected {}, got {}'')
      else if nodes \<noteq> [] \<and> is_all_zero (upn_parent_hash node) then
        Err (TreeIntegrity ''parent_hash is all-zero at non-root node level {i}'')
      else validate_path_hashes nodes)"

text \<open>The two searches for the level at which the committer's path meets mine, over the levels of the
  committer's direct path as (level, node, copath node).\<close>

fun ancestor_search :: "ratchet_tree \<Rightarrow> nat \<Rightarrow> nat list \<Rightarrow> (nat \<times> nat \<times> nat) list \<Rightarrow> nat option pres" where
  "ancestor_search t my_node my_path [] = Ok None"
| "ancestor_search t my_node my_path ((i, dp_node, copath_node) # rest) =
     (if dp_node = my_node \<or> dp_node \<in> set my_path then
        res_bind (resolution t copath_node) (\<lambda>res.
          if my_node \<in> set res \<or> list_ex (\<lambda>r. r = my_node \<or> r \<in> set my_path) res then Ok (Some i)
          else ancestor_search t my_node my_path rest)
      else ancestor_search t my_node my_path rest)"

fun copath_search :: "ratchet_tree \<Rightarrow> nat \<Rightarrow> nat list \<Rightarrow> (nat \<times> nat) list \<Rightarrow> nat option pres" where
  "copath_search t my_node my_path [] = Ok None"
| "copath_search t my_node my_path ((i, copath_node) # rest) =
     res_bind (resolution t copath_node) (\<lambda>res.
       if list_ex (\<lambda>r. r = my_node \<or> r \<in> set my_path) res then Ok (Some i)
       else copath_search t my_node my_path rest)"

text \<open>The new keys of one level: the derived public keys must be those of the update path; the private
  keys are kept for nodes of my own path.\<close>

definition install_level :: "prims \<Rightarrow> nat list \<Rightarrow> bytes \<Rightarrow> nat \<Rightarrow> group_update_path_node \<Rightarrow> string \<Rightarrow> string \<Rightarrow> ratchet_tree \<Rightarrow> unit pres \<times> ratchet_tree" where
  "install_level P my_path secret node_idx node x25519_error kyber_error t =
     (case derive_node_keypairs P secret of
        Inl e \<Rightarrow> (Err e, t)
      | Inr (x25519_priv, x25519_pub, kyber_sec, kyber_pub) \<Rightarrow>
          if x25519_pub \<noteq> upn_x25519_public node then (Err (TreeIntegrity x25519_error), t)
          else if kyber_pub \<noteq> upn_kyber_public node then (Err (TreeIntegrity kyber_error), t)
          else (case set_node_public_keys t node_idx (upn_x25519_public node) (upn_kyber_public node) of
                  (Inl e, t1) \<Rightarrow> (Err e, t1)
                | (Inr _, t1) \<Rightarrow>
                    if node_idx \<in> set my_path then set_node_private_keys t1 node_idx x25519_priv kyber_sec else (Ok (), t1)))"

fun install_upper :: "prims \<Rightarrow> nat list \<Rightarrow> bytes \<Rightarrow> (nat \<times> nat \<times> group_update_path_node) list \<Rightarrow> ratchet_tree \<Rightarrow> bytes pres \<times> ratchet_tree" where
  "install_upper P my_path current [] t = (Ok current, t)"
| "install_upper P my_path current ((i, node_idx, node) # rest) t =
     (case derive_next_path_secret P current i of
        Inl e \<Rightarrow> (Err e, t)
      | Inr next_secret \<Rightarrow>
          (case install_level P my_path next_secret node_idx node ''X25519 public key mismatch at path level {i}''
                  ''Kyber public key mismatch at path level {i}'' t of
             (Inl e, t1) \<Rightarrow> (Err e, t1)
           | (Inr _, t1) \<Rightarrow> install_upper P my_path next_secret rest t1))"

fun set_path_public_keys :: "(nat \<times> group_update_path_node) list \<Rightarrow> ratchet_tree \<Rightarrow> unit pres \<times> ratchet_tree" where
  "set_path_public_keys [] t = (Ok (), t)"
| "set_path_public_keys ((node_idx, node) # rest) t =
     (case set_node_public_keys t node_idx (upn_x25519_public node) (upn_kyber_public node) of
        (Inl e, t1) \<Rightarrow> (Err e, t1) | (Inr _, t1) \<Rightarrow> set_path_public_keys rest t1)"

fun set_path_parent_hashes :: "(nat \<times> group_update_path_node) list \<Rightarrow> ratchet_tree \<Rightarrow> unit pres \<times> ratchet_tree" where
  "set_path_parent_hashes [] t = (Ok (), t)"
| "set_path_parent_hashes ((node_idx, node) # rest) t =
     (case set_node_parent_hash t node_idx (upn_parent_hash node) of
        (Inl e, t1) \<Rightarrow> (Err e, t1) | (Inr _, t1) \<Rightarrow> set_path_parent_hashes rest t1)"

text \<open>The part that only reads the tree: validation, the search for the level, and decryption. The
  result is the committer's path, the level and the path secret of that level.\<close>

definition open_update_path :: "prims \<Rightarrow> ratchet_tree \<Rightarrow> group_update_path \<Rightarrow> nat \<Rightarrow> nat \<Rightarrow> (nat list \<times> nat list \<times> nat \<times> bytes) pres" where
  "open_update_path P t up committer_leaf_idx my_leaf_idx =
     (let n = rt_leaf_count t
      in if n \<le> 1 then Err (TreeIntegrity ''Cannot process UpdatePath in single-member group'')
         else if committer_leaf_idx \<ge> n then
           Err (TreeIntegrity ''Committer leaf index {committer_leaf_idx} out of range for tree with {n} leaves'')
         else if my_leaf_idx \<ge> n then Err (TreeIntegrity ''My leaf index {my_leaf_idx} out of range for tree with {n} leaves'')
         else
           res_bind (validate_x25519_public_key (up_leaf_x25519_public up)) (\<lambda>_.
           res_bind (map_err CryptoErr (kyber_validate_public_key P (up_leaf_kyber_public up))) (\<lambda>_.
           res_bind (validate_path_keys P (up_nodes up)) (\<lambda>_.
           res_bind (direct_path committer_leaf_idx n) (\<lambda>dp.
           res_bind (copath committer_leaf_idx n) (\<lambda>cp.
           res_bind (checked_leaf_to_node my_leaf_idx) (\<lambda>my_node.
             if length (up_nodes up) \<noteq> length dp then Err (TreeIntegrity ''UpdatePath node count mismatch: expected {}, got {}'')
             else
           res_bind (validate_path_hashes (up_nodes up)) (\<lambda>_.
           res_bind (direct_path my_leaf_idx n) (\<lambda>my_path.
           res_bind (ancestor_search t my_node my_path (zip [0..<length dp] (zip dp cp))) (\<lambda>found.
           res_bind (if found = None then copath_search t my_node my_path (zip [0..<length cp] cp) else Ok found) (\<lambda>found.
           res_bind (ok_or (TreeIntegrity ''Could not find common ancestor with committer'') found) (\<lambda>ancestor_level.
             if ancestor_level \<ge> length (up_nodes up) then Err (TreeIntegrity ''UpdatePath too short for common ancestor'')
             else
           res_bind (resolution t (cp ! ancestor_level)) (\<lambda>res.
           res_bind (ok_or (TreeIntegrity ''Not found in co-path resolution'') (position (\<lambda>r. r = my_node \<or> r \<in> set my_path) res)) (\<lambda>res_idx.
           let path_node = up_nodes up ! ancestor_level in
             if res_idx \<ge> length (upn_encrypted_path_secrets path_node) then
               Err (TreeIntegrity ''Missing encrypted path secret for my resolution index'')
             else
           res_bind (ok_or (TreeIntegrity ''Decrypt node is blank'') (get_node_keys t (res ! res_idx))) (\<lambda>node_keys.
           res_bind (ok_or (TreeIntegrity ''No X25519 private key for decryption'') (nk_x25519_private node_keys)) (\<lambda>x25519_priv.
           res_bind (ok_or (TreeIntegrity ''No Kyber secret key for decryption'') (nk_kyber_secret node_keys)) (\<lambda>kyber_sec.
           res_bind (decrypt_path_secret P (upn_encrypted_path_secrets path_node ! res_idx) x25519_priv kyber_sec (dp ! ancestor_level)) (\<lambda>secret.
             Ok (dp, my_path, ancestor_level, secret)))))))))))))))))))"

definition process_update_path :: "prims \<Rightarrow> group_update_path \<Rightarrow> nat \<Rightarrow> nat \<Rightarrow> ratchet_tree \<Rightarrow> bytes pres \<times> ratchet_tree" where
  "process_update_path P up committer_leaf_idx my_leaf_idx t =
     (case open_update_path P t up committer_leaf_idx my_leaf_idx of
        Inl e \<Rightarrow> (Err e, t)
      | Inr (dp, my_path, ancestor_level, secret) \<Rightarrow>
     (case install_level P my_path secret (dp ! ancestor_level) (up_nodes up ! ancestor_level)
             ''X25519 public key mismatch at ancestor path level {ancestor_level}''
             ''Kyber public key mismatch at ancestor path level {ancestor_level}'' t of
        (Inl e, t1) \<Rightarrow> (Err e, t1)
      | (Inr _, t1) \<Rightarrow>
     (case install_upper P my_path secret (drop (Suc ancestor_level) (zip [0..<length dp] (zip dp (up_nodes up)))) t1 of
        (Inl e, t2) \<Rightarrow> (Err e, t2)
      | (Inr commit_secret, t2) \<Rightarrow>
     (case set_path_public_keys (take ancestor_level (zip dp (up_nodes up))) t2 of
        (Inl e, t3) \<Rightarrow> (Err e, t3)
      | (Inr _, t3) \<Rightarrow>
     (case checked_leaf_to_node committer_leaf_idx of
        Inl e \<Rightarrow> (Err e, t3)
      | Inr committer_node \<Rightarrow>
     (case set_node_public_keys t3 committer_node (up_leaf_x25519_public up) (up_leaf_kyber_public up) of
        (Inl e, t4) \<Rightarrow> (Err e, t4)
      | (Inr _, t4) \<Rightarrow>
     (case set_path_parent_hashes (zip dp (up_nodes up)) t4 of
        (Inl e, t5) \<Rightarrow> (Err e, t5)
      | (Inr _, t5) \<Rightarrow>
     (case verify_parent_hash_chain P t5 committer_leaf_idx of
        Inl e \<Rightarrow> (Err e, t5) | Inr _ \<Rightarrow> (Ok commit_secret, t5)))))))))"

end
