(* ===== verification/Tree_Paths.thy ===== *)
theory Tree_Paths
  imports Tree_Kem Tree_Hash
begin

text \<open>
  What an update path touches: how the direct paths of two leaves meet, what the setters of the ratchet tree
  change, and that resolution and node hashes depend only on the public part of the nodes below.
\<close>

section \<open>How two direct paths meet\<close>

lemma path_more:
  assumes "x < node_count n" "tree_size n" "root n = Ok r" "path_from n r x = Ok ps" "copath_from n r x = Ok cs"
  shows "(\<forall>i<length ps. sub n (ps ! i) = sub n x \<union> set (take (Suc i) ps) \<union> (\<Union>c\<in>set (take (Suc i) cs). sub n c)) \<and>
    (\<forall>i<length ps. sibling ((x # ps) ! i) n = Ok (cs ! i))"
  using assms(1,4,5)
proof (induction "climb n x" arbitrary: x ps cs rule: less_induct)
  case less
  show ?case
  proof (cases "x = r")
    case True
    with less.prems show ?thesis by (simp add: path_from.simps [of n r r])
  next
    case False
    from up_step [OF less.prems(1) assms(2,3) False] obtain p s where
      p: "parent x n = Ok p" "sibling x n = Ok s" "p < node_count n" "sub n p = insert p (sub n x \<union> sub n s)" by blast
    from less.prems(2,3) p(1,2) False obtain ps' cs' where
      q: "path_from n r p = Ok ps'" "copath_from n r p = Ok cs'" "ps = p # ps'" "cs = s # cs'"
      by (auto simp: path_from.simps [of n r x] copath_from.simps [of n r x] res_bind_eq_Ok)
    note IH = less.hyps [OF climb_parent [OF p(1)] p(3) q(1,2)]
    have "sub n (ps ! i) = sub n x \<union> set (take (Suc i) ps) \<union> (\<Union>c\<in>set (take (Suc i) cs). sub n c)" if "i < length ps" for i
    proof (cases i)
      case (Suc j)
      then have "sub n (ps' ! j) = sub n p \<union> set (take (Suc j) ps') \<union> (\<Union>c\<in>set (take (Suc j) cs'). sub n c)"
        using IH that q(3) by simp
      then show ?thesis unfolding q(3,4) Suc p(4) by auto
    qed (simp add: q(3,4) p(4))
    moreover have "sibling ((x # ps) ! i) n = Ok (cs ! i)" if "i < length ps" for i
      using that IH p(2) q(3,4) by (cases i) auto
    ultimately show ?thesis by blast
  qed
qed

lemma in_set_take: "c \<in> set (take m xs) \<longleftrightarrow> (\<exists>i<m. i < length xs \<and> c = xs ! i)"
  by (auto simp: in_set_conv_nth)

text \<open>The path of one leaf and where the path of another meets it.\<close>

lemma leaf_path:
  assumes "i < n" "tree_size n"
  obtains r dp cp where "root n = Ok r" "direct_path i n = Ok dp" "copath i n = Ok cp" "path_ok n r (2 * i) dp cp"
    "\<And>k. k < length dp \<Longrightarrow> sub n (dp ! k) = sub n (2 * i) \<union> set (take (Suc k) dp) \<union> (\<Union>c\<in>set (take (Suc k) cp). sub n c)"
    "\<And>k. Suc k < length dp \<Longrightarrow> sibling (dp ! k) n = Ok (cp ! Suc k)"
proof -
  obtain r dp cp where d: "root n = Ok r" "direct_path i n = Ok dp" "copath i n = Ok cp" "path_ok n r (2 * i) dp cp"
    using direct_path_spec [OF assms] by blast
  then have "path_from n r (2 * i) = Ok dp" "copath_from n r (2 * i) = Ok cp"
    using leaf_node(1) [OF assms] by (simp_all add: direct_path_def copath_def)
  from path_more [OF leaf_node(2) [OF assms] assms(2) d(1) this]
  have m: "\<And>k. k < length dp \<Longrightarrow> sub n (dp ! k) = sub n (2 * i) \<union> set (take (Suc k) dp) \<union> (\<Union>c\<in>set (take (Suc k) cp). sub n c)"
    "\<And>k. k < length dp \<Longrightarrow> sibling ((2 * i # dp) ! k) n = Ok (cp ! k)" by blast+
  have "sibling (dp ! k) n = Ok (cp ! Suc k)" if "Suc k < length dp" for k using m(2) [OF that] by simp
  with that d m(1) show ?thesis by blast
qed

text \<open>An ancestor of a leaf is the leaf itself or on its direct path.\<close>

lemma on_path_iff:
  assumes "j < n" "tree_size n" "direct_path j n = Ok mp" "y < node_count n"
  shows "2 * j \<in> sub n y \<longleftrightarrow> y = 2 * j \<or> y \<in> set mp"
proof -
  obtain r mp' cp where m: "direct_path j n = Ok mp'" "path_ok n r (2 * j) mp' cp"
    using direct_path_spec [OF assms(1,2)] by blast
  then have "y \<in> set mp \<longleftrightarrow> y \<noteq> 2 * j \<and> below n y (2 * j)" using assms(3,4) path_okD(7) [OF m(2)] by auto
  moreover have "below n y (2 * j) \<longleftrightarrow> 2 * j \<in> sub n y" using below_iff [OF assms(4,2)] by blast
  ultimately show ?thesis using below.here by blast
qed

lemma meeting_level:
  assumes "j < n" "i < n" "i \<noteq> j" "tree_size n" "path_ok n r (2 * i) dp cp" "direct_path j n = Ok mp"
    and s: "\<And>k. k < length dp \<Longrightarrow> sub n (dp ! k) = sub n (2 * i) \<union> set (take (Suc k) dp) \<union> (\<Union>c\<in>set (take (Suc k) cp). sub n c)"
  obtains L where "L < length dp" "2 * j \<in> sub n (cp ! L)" "\<And>k. k < length dp \<Longrightarrow> dp ! k \<in> set mp \<longleftrightarrow> L \<le> k"
proof -
  note o = path_okD [OF assms(5)]
  have j: "2 * j < node_count n" using leaf_node(2) assms(1,4) by blast
  have odd: "\<And>q. q \<in> set dp \<Longrightarrow> odd q \<and> q < node_count n" using o(4) by blast
  have ni: "2 * j \<notin> sub n (2 * i)" using sub_leaf [of "2 * i" n] leaf_node(2) [OF assms(2,4)] assms(3) by simp
  have nd: "2 * j \<notin> set dp" using odd by force
  have "2 * j \<in> (\<Union>c\<in>set cp. sub n c)" using o(8) j ni nd by blast
  then obtain L where L: "L < length cp" "2 * j \<in> sub n (cp ! L)" by (auto simp: in_set_conv_nth)
  have "dp ! k \<in> set mp \<longleftrightarrow> L \<le> k" if k: "k < length dp" for k
  proof -
    have dk: "dp ! k < node_count n" "odd (dp ! k)" using odd k by simp_all
    have "dp ! k \<in> set mp \<longleftrightarrow> 2 * j \<in> sub n (dp ! k)" using on_path_iff [OF assms(1,4,6) dk(1)] dk(2) by auto
    also have "\<dots> \<longleftrightarrow> (\<exists>m<Suc k. m < length cp \<and> 2 * j \<in> sub n (cp ! m))"
    proof -
      have "2 * j \<notin> set (take (Suc k) dp)" using nd set_take_subset by fast
      then have "2 * j \<in> sub n (dp ! k) \<longleftrightarrow> (\<exists>c\<in>set (take (Suc k) cp). 2 * j \<in> sub n c)" unfolding s [OF k] using ni by blast
      then show ?thesis unfolding Bex_def in_set_take by blast
    qed
    also have "\<dots> \<longleftrightarrow> L \<le> k"
    proof
      assume "\<exists>m<Suc k. m < length cp \<and> 2 * j \<in> sub n (cp ! m)"
      then obtain m where m: "m \<le> k" "m < length cp" "2 * j \<in> sub n (cp ! m)" unfolding less_Suc_eq_le by blast
      have "m = L"
      proof (rule ccontr)
        assume "m \<noteq> L"
        then have "sub n (cp ! m) \<inter> sub n (cp ! L) = {}" using o(11) m(2) L(1) by (cases "m < L") (auto simp: Int_commute)
        with m(3) L(2) show False by blast
      qed
      with m(1) show "L \<le> k" by simp
    next
      assume "L \<le> k"
      with L show "\<exists>m<Suc k. m < length cp \<and> 2 * j \<in> sub n (cp ! m)" by (intro exI [of _ L]) (simp add: less_Suc_eq_le)
    qed
    finally show ?thesis .
  qed
  moreover have "L < length dp" using L(1) o(1) by simp
  ultimately show ?thesis using that L(2) by blast
qed

section \<open>What the setters change\<close>

text \<open>Setters keep the shape of the tree.\<close>

definition same_shape :: "ratchet_tree \<Rightarrow> ratchet_tree \<Rightarrow> bool" where
  "same_shape t t' \<longleftrightarrow> rt_leaf_count t' = rt_leaf_count t \<and> rt_leaves t' = rt_leaves t \<and> length (rt_nodes t') = length (rt_nodes t)"

lemma same_shape_refl [simp]: "same_shape t t"
  by (simp add: same_shape_def)

lemma same_shape_trans: "same_shape a b \<Longrightarrow> same_shape b c \<Longrightarrow> same_shape a c"
  by (simp add: same_shape_def)

lemma public_of_keys: "get_node_public_keys t i = map_option (\<lambda>k. (nk_x25519_public k, nk_kyber_public k)) (get_node_keys t i)"
  by (simp add: get_node_public_keys_def get_node_keys_def split: option.splits tree_node_content.splits)

lemma keys_None_iff: "i < length (rt_nodes t) \<Longrightarrow> get_node_keys t i = None \<longleftrightarrow> rt_nodes t ! i = Blank"
  by (simp add: get_node_keys_def get_nth_def split: tree_node_content.splits)

definition with_public :: "bytes \<Rightarrow> bytes \<Rightarrow> hybrid_node_keys option \<Rightarrow> hybrid_node_keys" where
  "with_public x k keys = (case keys of
     Some ks \<Rightarrow> ks\<lparr> nk_x25519_public := x, nk_kyber_public := k \<rparr>
   | None \<Rightarrow> \<lparr> nk_x25519_public = x, nk_kyber_public = k, nk_x25519_private = None, nk_kyber_secret = None \<rparr>)"

lemma with_public_fields [simp]: "nk_x25519_public (with_public x k keys) = x" "nk_kyber_public (with_public x k keys) = k"
  by (simp_all add: with_public_def split: option.splits)

lemma set_public_effect:
  assumes "i < length (rt_nodes t)"
  shows "\<exists>t'. set_node_public_keys t i x k = (Ok (), t') \<and> same_shape t t' \<and>
    (\<forall>j. get_node_keys t' j = (if j = i then Some (with_public x k (get_node_keys t i)) else get_node_keys t j))"
  using assms
  by (auto simp: set_node_public_keys_def same_shape_def get_node_keys_def get_nth_def nth_list_update with_public_def public_node_def
      split: tree_node_content.splits)

lemma set_private_effect:
  assumes "get_node_keys t i = Some keys"
  shows "\<exists>t'. set_node_private_keys t i x k = (Ok (), t') \<and> same_shape t t' \<and>
    (\<forall>j. get_node_keys t' j = (if j = i then Some (keys\<lparr> nk_x25519_private := Some x, nk_kyber_secret := Some k \<rparr>) else get_node_keys t j))"
  using assms
  by (auto simp: set_node_private_keys_def same_shape_def get_node_keys_def get_nth_def nth_list_update
      split: option.splits if_splits tree_node_content.splits)

lemma set_parent_hash_effect:
  assumes "get_node_keys t i = Some keys"
  shows "\<exists>t'. set_node_parent_hash t i h = (Ok (), t') \<and> same_shape t t' \<and> (\<forall>j. get_node_keys t' j = get_node_keys t j) \<and>
    (\<forall>j. get_node_parent_hash t' j = (if j = i then Some h else get_node_parent_hash t j))"
  using assms
  by (auto simp: set_node_parent_hash_def same_shape_def get_node_keys_def get_node_parent_hash_def get_nth_def nth_list_update
      split: option.splits if_splits tree_node_content.splits)

lemma same_shape_wf:
  assumes "tree_wf t" "same_shape t t'" "\<And>j. get_node_keys t j \<noteq> None \<Longrightarrow> get_node_keys t' j \<noteq> None"
  shows "tree_wf t'"
proof -
  have "rt_nodes t' ! (2 * i) \<noteq> Blank" if "i < rt_leaf_count t" "rt_nodes t ! (2 * i) \<noteq> Blank" for i
  proof -
    have l: "2 * i < length (rt_nodes t)" "2 * i < length (rt_nodes t')"
      using leaf_below_count [OF that(1)] assms(1,2) by (simp_all add: tree_wf_def same_shape_def)
    have "get_node_keys t (2 * i) \<noteq> None" using keys_None_iff [OF l(1)] that(2) by simp
    then have "get_node_keys t' (2 * i) \<noteq> None" by (rule assms(3))
    then show ?thesis using keys_None_iff [OF l(2)] by simp
  qed
  with assms(1,2) show ?thesis by (simp add: tree_wf_def same_shape_def)
qed

section \<open>What resolution and hashes depend on\<close>

definition same_public :: "ratchet_tree \<Rightarrow> ratchet_tree \<Rightarrow> bool" where
  "same_public t t' \<longleftrightarrow> same_shape t t' \<and> (\<forall>i. get_node_public_keys t' i = get_node_public_keys t i)"

lemma same_public_sym: "same_public t t' \<Longrightarrow> same_public t' t"
  by (simp add: same_public_def same_shape_def)

lemma resolution_inner_cong:
  assumes "same_shape t t'" "\<And>i. get_node_keys t' i = None \<longleftrightarrow> get_node_keys t i = None"
  shows "resolution_inner t' x depth = resolution_inner t x depth"
proof (induction "Suc MAX_TREE_DEPTH - depth" arbitrary: x depth rule: less_induct)
  case less
  have len: "length (rt_nodes t') = length (rt_nodes t)" "rt_leaf_count t' = rt_leaf_count t" using assms(1) by (simp_all add: same_shape_def)
  have blank: "rt_nodes t' ! x = Blank \<longleftrightarrow> rt_nodes t ! x = Blank" if "x < length (rt_nodes t)"
    using assms(2) [of x] keys_None_iff [of x t] keys_None_iff [of x t'] that len(1) by simp
  have rec: "resolution_inner t' y (depth + 1) = resolution_inner t y (depth + 1)" if "\<not> MAX_TREE_DEPTH < depth" for y
    using less.hyps [of "depth + 1" y] that by simp
  show ?case
  proof (cases "MAX_TREE_DEPTH < depth \<or> length (rt_nodes t) \<le> x")
    case True
    then show ?thesis by (auto simp: resolution_inner.simps [of _ x depth] len)
  next
    case False
    then show ?thesis using blank rec
      by (cases "rt_nodes t ! x"; cases "rt_nodes t' ! x") (simp_all add: resolution_inner.simps [of _ x depth] len)
  qed
qed

lemma resolution_cong:
  assumes "same_public t t'"
  shows "resolution t' x = resolution t x"
proof -
  have "get_node_keys t' i = None \<longleftrightarrow> get_node_keys t i = None" for i
  proof -
    have "get_node_public_keys t' i = get_node_public_keys t i" using assms by (simp add: same_public_def)
    then show ?thesis unfolding public_of_keys by (cases "get_node_keys t i"; cases "get_node_keys t' i") simp_all
  qed
  then show ?thesis using resolution_inner_cong assms by (simp add: resolution_def same_public_def)
qed

lemma node_hash_part_cong:
  assumes "rt_leaves t' = rt_leaves t" "get_node_public_keys t' x = get_node_public_keys t x"
  shows "node_hash_part t' x = node_hash_part t x"
proof -
  have "get_leaf_data t' = get_leaf_data t" using assms(1) by (simp add: get_leaf_data_def fun_eq_iff)
  with assms(2) show ?thesis by (cases "get_node_keys t x"; cases "get_node_keys t' x")
    (simp_all add: node_hash_part_def public_of_keys Let_def split: option.split)
qed

lemma node_hash_cong:
  assumes "same_shape t t'" "tree_size (rt_leaf_count t)" "x < node_count (rt_leaf_count t)"
    and "\<And>y. y \<in> sub (rt_leaf_count t) x \<Longrightarrow> get_node_public_keys t' y = get_node_public_keys t y"
  shows "compute_node_hash_inner P t' x depth = compute_node_hash_inner P t x depth"
  using assms(3,4)
proof (induction "level x" arbitrary: x depth rule: less_induct)
  case less
  let ?n = "rt_leaf_count t"
  have sh: "rt_leaf_count t' = ?n" "rt_leaves t' = rt_leaves t" using assms(1) by (simp_all add: same_shape_def)
  have part: "node_hash_part t' x = node_hash_part t x"
    using node_hash_part_cong [OF sh(2)] less.prems(2) sub_self [OF less.prems(1)] by blast
  show ?case
  proof (cases "odd x")
    case True
    obtain l r where c: "left x = Ok l" "right x ?n = Ok r" "l < node_count ?n" "r < node_count ?n"
      "level l < level x" "level r < level x" using children [OF True less.prems(1) assms(2)] by blast
    have s: "sub ?n l \<subseteq> sub ?n x" "sub ?n r \<subseteq> sub ?n x" using sub_inner(1) [OF True less.prems(1) assms(2) c(1,2)] by auto
    have "compute_node_hash_inner P t' l (depth + 1) = compute_node_hash_inner P t l (depth + 1)"
      by (rule less.hyps [OF c(5,3)]) (use less.prems(2) s in blast)
    moreover have "compute_node_hash_inner P t' r (depth + 1) = compute_node_hash_inner P t r (depth + 1)"
      by (rule less.hyps [OF c(6,4)]) (use less.prems(2) s in blast)
    ultimately show ?thesis by (simp add: compute_node_hash_inner.simps [of P _ x depth] part sh c(1,2))
  next
    case False
    then show ?thesis by (simp add: compute_node_hash_inner.simps [of P _ x depth] part is_leaf_iff)
  qed
qed

lemma parent_hash_cong:
  assumes "same_shape t t'" "tree_size (rt_leaf_count t)" "s < node_count (rt_leaf_count t)"
    and "\<And>y. y \<in> sub (rt_leaf_count t) s \<Longrightarrow> get_node_public_keys t' y = get_node_public_keys t y"
  shows "compute_parent_hash_value P t' x k h s = compute_parent_hash_value P t x k h s"
  using node_hash_cong [OF assms] by (simp add: compute_parent_hash_value_def subtree_hash_def compute_node_hash_def)

end
