(* ===== verification/Tree_Kem_Agree.thy ===== *)
theory Tree_Kem_Agree
  imports Tree_Paths
begin

text \<open>
  An update path works: what the committer derives and encrypts, every other member with the keys of its
  own path decrypts and derives, so that both end up with the same commit secret and the same public tree.
\<close>

section \<open>Keys\<close>

definition kem_pair :: "prims \<Rightarrow> bytes \<Rightarrow> bytes \<Rightarrow> bool" where
  "kem_pair P ks kp \<longleftrightarrow> (\<exists>seed. mlkem_keygen P seed = (ks, kp) \<or> mlkem_keygen_chacha P seed = (ks, kp))"

definition key_pairs :: "prims \<Rightarrow> bytes \<Rightarrow> bytes \<Rightarrow> bytes \<Rightarrow> bytes \<Rightarrow> bool" where
  "key_pairs P xs xp ks kp \<longleftrightarrow> length xs = 32 \<and> xp = x25519_public P xs \<and> kem_pair P ks kp"

definition group_crypto_ok :: "prims \<Rightarrow> bool" where
  "group_crypto_ok P \<longleftrightarrow> hkdf_ok P \<and> aead_ok P \<and> dh_ok P \<and> kem_ok P \<and> kem_seed_ok P \<and> x25519_keys_ok P \<and> hash_ok P \<and> sig_ok P \<and>
     slot_free P 32 \<and> slot_free P 64"

lemma group_crypto_okD:
  assumes "group_crypto_ok P"
  shows "hkdf_ok P" "aead_ok P" "dh_ok P" "kem_ok P" "kem_seed_ok P" "x25519_keys_ok P" "hash_ok P" "sig_ok P" "slot_free P 32" "slot_free P 64"
  using assms by (simp_all add: group_crypto_ok_def)

lemma kem_pairD:
  assumes "group_crypto_ok P" "kem_pair P ks kp" "mlkem_encaps P kp r = (ct, ss)"
  shows "length ks = 64" "length kp = 1184" "mlkem_ek_parse P kp = Some kp" "length ct = 1088" "length ss = 32" "mlkem_decaps P ks ct = ss"
proof -
  note k = group_crypto_okD(4,5) [OF assms(1)]
  from assms(2) obtain seed where "mlkem_keygen P seed = (ks, kp) \<or> mlkem_keygen_chacha P seed = (ks, kp)" by (auto simp: kem_pair_def)
  then have "length ks = 64 \<and> length kp = 1184 \<and> mlkem_ek_parse P kp = Some kp \<and> length ct = 1088 \<and> length ss = 32 \<and> mlkem_decaps P ks ct = ss"
    using k(1) [unfolded kem_ok_def, rule_format, of r seed] k(2) [unfolded kem_seed_ok_def, rule_format, of r seed] assms(3) by auto
  then show "length ks = 64" "length kp = 1184" "mlkem_ek_parse P kp = Some kp" "length ct = 1088" "length ss = 32" "mlkem_decaps P ks ct = ss"
    by simp_all
qed

lemma kem_pair_sizes: "group_crypto_ok P \<Longrightarrow> kem_pair P ks kp \<Longrightarrow> length ks = 64 \<and> length kp = 1184 \<and> mlkem_ek_parse P kp = Some kp"
  using kem_pairD(1-3) by (metis surj_pair)

text \<open>An encapsulation whose ciphertext is all zero would be refused.\<close>

definition hybrid_draws_ok :: "prims \<Rightarrow> hybrid_draws \<Rightarrow> bool" where
  "hybrid_draws_ok P d \<longleftrightarrow> length (hyd_x25519 d) = 32 \<and> length (hyd_nonce d) = 12 \<and>
     (\<forall>ks kp. kem_pair P ks kp \<longrightarrow> \<not> list_all (\<lambda>b. b = 0) (fst (mlkem_encaps P kp (hyd_encaps d))))"

lemma path_secret_roundtrip:
  assumes "group_crypto_ok P" "key_pairs P xs xp ks kp" "hybrid_draws_ok P d" "length secret \<le> 2 ^ 36"
  shows "\<exists>ct. encrypt_path_secret P secret xp kp node d = Ok ct \<and> decrypt_path_secret P ct xs ks node = Ok secret"
proof -
  note c = group_crypto_okD [OF assms(1)]
  have xs: "length xs = 32" "xp = x25519_public P xs" "kem_pair P ks kp" using assms(2) by (simp_all add: key_pairs_def)
  have d: "length (hyd_x25519 d) = 32" "length (hyd_nonce d) = 12" using assms(3) by (simp_all add: hybrid_draws_ok_def)
  obtain ct ss where e: "mlkem_encaps P kp (hyd_encaps d) = (ct, ss)" by fastforce
  note k = kem_pairD [OF assms(1) xs(3) e]
  have nz: "\<not> list_all (\<lambda>b. b = 0) ct" using assms(3) xs(3) e by (force simp: hybrid_draws_ok_def)
  have ss: "new_handle P 32 ss = Ok ss" using k(5) c(9) by (intro new_handle_exact) simp_all
  let ?dh = "x25519_dh P (hyd_x25519 d) (x25519_public P xs)"
  have dh: "length (x25519_public P xs) = 32" "length (x25519_public P (hyd_x25519 d)) = 32" "\<not> is_all_zero ?dh"
    "x25519_dh P xs (x25519_public P (hyd_x25519 d)) = ?dh"
    using c(3) [unfolded dh_ok_def, rule_format, of "hyd_x25519 d" xs] c(3) [unfolded dh_ok_def, rule_format, of xs "hyd_x25519 d"] xs(1) d(1) by auto
  have v: "validate_x25519_public_key (x25519_public P (hyd_x25519 d)) = Ok ()" using c(6) d(1) by (simp add: x25519_keys_ok_def)
  obtain key where key: "hybrid_key P ?dh ss = Ok key" "length key = 32"
    using derive_key_bytes_32 [OF c(1), of ss "GROUP_HYBRID_SALT_PREFIX @ ?dh" GROUP_HYBRID_PATH_INFO] by (auto simp: hybrid_key_def)
  have "length (le_bytes 4 node) \<le> 2 ^ 36" by simp
  then obtain enc where enc: "aes_gcm_encrypt P key (hyd_nonce d) secret (le_bytes 4 node) = Ok enc"
    "aes_gcm_decrypt P key (hyd_nonce d) enc (le_bytes 4 node) = Ok secret"
    using aes_gcm_seal_ex [OF c(2) key(2) d(2) assms(4)] by blast
  have "kyber_validate_ciphertext ct = Ok ()" using k(4) nz by (simp add: kyber_validate_ciphertext_def)
  then show ?thesis using xs(1,2) d(1) k ss dh v key(1) enc e generate_x25519_keypair_ok [OF d(1) c(9)]
    by (simp add: encrypt_path_secret_def decrypt_path_secret_def kyber_encapsulate_def kyber_decapsulate_def Let_def)
qed

lemma node_keypairs_ok:
  assumes "group_crypto_ok P" "length secret = 32"
  shows "\<exists>xs xp ks kp. derive_node_keypairs P secret = Ok (xs, xp, ks, kp) \<and> key_pairs P xs xp ks kp"
proof -
  note c = group_crypto_okD [OF assms(1)]
  have e: "\<exists>okm. hkdf_expand P secret info 32 = Ok okm \<and> length okm = 32" for info
    using hkdf_expand_ok [OF c(1), of secret 32 info] assms(2) by auto
  obtain a where a: "hkdf_expand P secret (GROUP_NODE_KEY_INFO @ ascii ''x25519'') 32 = Ok a" "length a = 32" using e by blast
  obtain b where b: "hkdf_expand P secret (GROUP_NODE_KEY_INFO @ ascii ''kyber'') 32 = Ok b" "length b = 32" using e by blast
  obtain ks kp where k: "mlkem_keygen_chacha P b = (ks, kp)" by fastforce
  then have kp: "kem_pair P ks kp" by (auto simp: kem_pair_def)
  have "new_handle P 32 (clamp a) = Ok (clamp a)" using a(2) c(9) by (intro new_handle_exact) simp_all
  moreover have "new_handle P 64 ks = Ok ks" using kem_pair_sizes [OF assms(1) kp] c(10) by (intro new_handle_exact) simp_all
  ultimately have "derive_node_keypairs P secret = Ok (clamp a, x25519_public P (clamp a), ks, kp)"
    using a b k kem_pair_sizes [OF assms(1) kp] by (simp add: derive_node_keypairs_def kyber_generate_keypair_from_seed_def Let_def)
  with a(2) kp show ?thesis by (auto simp: key_pairs_def)
qed

lemma next_path_secret_ok:
  assumes "group_crypto_ok P" "length s = 32"
  shows "\<exists>s'. derive_next_path_secret P s i = Ok s' \<and> length s' = 32"
  by (rule hkdf_expand_ok [OF group_crypto_okD(1) [OF assms(1)], of s 32 "GROUP_PATH_SECRET_INFO @ le_bytes 4 i"])
    (use assms(2) in \<open>simp_all add: derive_next_path_secret_def\<close>)

section \<open>What the committer makes\<close>

lemma sub_less: "y \<in> sub n x \<Longrightarrow> 0 < n \<Longrightarrow> y < node_count n"
  by (auto simp: sub_def node_count_def)

definition keys_generated :: "prims \<Rightarrow> ratchet_tree \<Rightarrow> bool" where
  "keys_generated P t \<longleftrightarrow> (\<forall>i keys. get_node_keys t i = Some keys \<longrightarrow>
     (\<exists>xs ks. key_pairs P xs (nk_x25519_public keys) ks (nk_kyber_public keys)))"

lemma next_path_secrets_ok:
  assumes "group_crypto_ok P" "length s = 32"
  shows "\<exists>ss. next_path_secrets P s levels = Ok ss \<and> length ss = length levels \<and> (\<forall>x\<in>set ss. length x = 32) \<and>
    (\<forall>k<length ss. derive_next_path_secret P ((s # ss) ! k) (levels ! k) = Ok (ss ! k))"
  using assms(2)
proof (induction levels arbitrary: s)
  case (Cons i levels)
  obtain s' where s': "derive_next_path_secret P s i = Ok s'" "length s' = 32"
    using next_path_secret_ok [OF assms(1) Cons.prems] by blast
  from Cons.IH [OF s'(2)] obtain ss where ss: "next_path_secrets P s' levels = Ok ss" "length ss = length levels" "\<forall>x\<in>set ss. length x = 32"
    "\<And>k. k < length ss \<Longrightarrow> derive_next_path_secret P ((s' # ss) ! k) (levels ! k) = Ok (ss ! k)" by blast
  have "derive_next_path_secret P ((s # s' # ss) ! k) ((i # levels) ! k) = Ok ((s' # ss) ! k)" if "k < length (s' # ss)" for k
    using that s'(1) ss(4) by (cases k) simp_all
  with s' ss(1-3) show ?case by (intro exI [of _ "s' # ss"]) simp
qed simp

lemma encrypt_to_resolution_ok:
  assumes "group_crypto_ok P" "keys_generated P t" "\<And>j. hybrid_draws_ok P (d j)" "length s = 32"
    and "\<And>r. r \<in> set rs \<Longrightarrow> get_node_keys t r \<noteq> None"
  shows "\<exists>cts. encrypt_to_resolution P t s node d i rs = Ok cts \<and> length cts = length rs \<and>
    (\<forall>j<length rs. \<forall>xp kp xs ks. get_node_public_keys t (rs ! j) = Some (xp, kp) \<and> key_pairs P xs xp ks kp \<longrightarrow>
       decrypt_path_secret P (cts ! j) xs ks node = Ok s)"
  using assms(5)
proof (induction rs arbitrary: i)
  case (Cons r rs)
  obtain keys where keys: "get_node_keys t r = Some keys" using Cons.prems [of r] by auto
  obtain xs ks where g: "key_pairs P xs (nk_x25519_public keys) ks (nk_kyber_public keys)" using assms(2) keys unfolding keys_generated_def by blast
  have len: "length s \<le> 2 ^ 36" using assms(4) by simp
  obtain ct where ct: "encrypt_path_secret P s (nk_x25519_public keys) (nk_kyber_public keys) node (d i) = Ok ct"
    using path_secret_roundtrip [OF assms(1) g assms(3) len] by blast
  have dec: "decrypt_path_secret P ct xs' ks' node = Ok s" if "key_pairs P xs' (nk_x25519_public keys) ks' (nk_kyber_public keys)" for xs' ks'
    using path_secret_roundtrip [OF assms(1) that assms(3) len, of node i] ct by auto
  obtain cts where cts: "encrypt_to_resolution P t s node d (Suc i) rs = Ok cts" "length cts = length rs"
    "\<And>j xp kp xs ks. j < length rs \<Longrightarrow> get_node_public_keys t (rs ! j) = Some (xp, kp) \<Longrightarrow> key_pairs P xs xp ks kp \<Longrightarrow>
       decrypt_path_secret P (cts ! j) xs ks node = Ok s"
    using Cons.IH [of "Suc i"] Cons.prems by auto
  have "decrypt_path_secret P ((ct # cts) ! j) xs' ks' node = Ok s"
    if "j < length (r # rs)" "get_node_public_keys t ((r # rs) ! j) = Some (xp, kp)" "key_pairs P xs' xp ks' kp" for j xp kp xs' ks'
    using that dec cts(3) keys by (cases j) (auto simp: public_of_keys)
  moreover have "encrypt_to_resolution P t s node d i (r # rs) = Ok (ct # cts)" using ct cts(1) keys by (simp add: public_of_keys)
  moreover have "length (ct # cts) = length (r # rs)" using cts(2) by simp
  ultimately show ?case by blast
qed simp

text \<open>One level of the path: the keys are derived from its secret, which every holder of keys of the
  resolution of the copath node can decrypt.\<close>

definition level_ok :: "prims \<Rightarrow> ratchet_tree \<Rightarrow> nat \<times> nat \<times> bytes \<Rightarrow> group_update_path_node \<Rightarrow> nat \<times> handle \<times> handle \<Rightarrow> bool" where
  "level_ok P t = (\<lambda>(node, c, s) u (node', xs, ks). node' = node \<and>
     derive_node_keypairs P s = Ok (xs, upn_x25519_public u, ks, upn_kyber_public u) \<and>
     key_pairs P xs (upn_x25519_public u) ks (upn_kyber_public u) \<and>
     (\<exists>res. resolution t c = Ok res \<and> length (upn_encrypted_path_secrets u) = length res \<and>
       (\<forall>j<length res. \<forall>xp kp xs ks. get_node_public_keys t (res ! j) = Some (xp, kp) \<and> key_pairs P xs xp ks kp \<longrightarrow>
          decrypt_path_secret P (upn_encrypted_path_secrets u ! j) xs ks node = Ok s)))"

lemma create_path_nodes_ok:
  assumes "group_crypto_ok P" "tree_wf t" "keys_generated P t" "\<And>i j. hybrid_draws_ok P (d i j)"
    and "\<forall>e\<in>set es. fst (snd e) < node_count (rt_leaf_count t) \<and> length (snd (snd e)) = 32"
  shows "\<exists>nodes keys. create_path_nodes P t d i es = Ok (nodes, keys) \<and> length nodes = length es \<and> length keys = length es \<and>
    (\<forall>k<length es. level_ok P t (es ! k) (nodes ! k) (keys ! k))"
  using assms(5)
proof (induction es arbitrary: i)
  case (Cons e es)
  obtain node c s where e: "e = (node, c, s)" by (cases e)
  have c: "c < node_count (rt_leaf_count t)" "length s = 32" using Cons.prems e by simp_all
  obtain xs xp ks kp where k: "derive_node_keypairs P s = Ok (xs, xp, ks, kp)" "key_pairs P xs xp ks kp"
    using node_keypairs_ok [OF assms(1) c(2)] by blast
  obtain res where r: "resolution t c = Ok res" "resolution_ok t c res" using resolution_spec [OF assms(2) c(1)] by blast
  have "get_node_keys t y \<noteq> None" if "y \<in> set res" for y
  proof -
    have "rt_nodes t ! y \<noteq> Blank" "y \<in> sub (rt_leaf_count t) c" using resolution_okD(2,3) [OF r(2) that] by simp_all
    moreover have "0 < rt_leaf_count t" "length (rt_nodes t) = node_count (rt_leaf_count t)" using assms(2) by (simp_all add: tree_wf_def)
    ultimately show ?thesis using keys_None_iff [of y t] sub_less by simp
  qed
  from encrypt_to_resolution_ok [where d = "d i" and rs = res and i = 0 and node = node, OF assms(1,3,4) c(2) this] obtain cts where
    cts: "encrypt_to_resolution P t s node (d i) 0 res = Ok cts" "length cts = length res"
    "\<forall>j<length res. \<forall>xp kp xs ks. get_node_public_keys t (res ! j) = Some (xp, kp) \<and> key_pairs P xs xp ks kp \<longrightarrow>
       decrypt_path_secret P (cts ! j) xs ks node = Ok s" by blast
  obtain nodes keys where n: "create_path_nodes P t d (Suc i) es = Ok (nodes, keys)" "length nodes = length es" "length keys = length es"
    "\<And>k. k < length es \<Longrightarrow> level_ok P t (es ! k) (nodes ! k) (keys ! k)" using Cons.IH [of "Suc i"] Cons.prems by auto
  let ?u = "\<lparr> upn_x25519_public = xp, upn_kyber_public = kp, upn_encrypted_path_secrets = cts, upn_parent_hash = zeros SHA256_HASH_BYTES \<rparr>"
  have "level_ok P t ((e # es) ! j) ((?u # nodes) ! j) (((node, xs, ks) # keys) ! j)" if "j < length (e # es)" for j
    using that n(4) k r(1) cts(2,3) by (cases j) (simp_all add: level_ok_def e)
  with n k(1) r(1) cts(1) show ?case by (intro exI [of _ "?u # nodes"] exI [of _ "(node, xs, ks) # keys"]) (simp add: e)
qed simp

definition same_node_keys :: "group_update_path_node \<Rightarrow> group_update_path_node \<Rightarrow> bool" where
  "same_node_keys u v \<longleftrightarrow> upn_x25519_public v = upn_x25519_public u \<and> upn_kyber_public v = upn_kyber_public u \<and>
     upn_encrypted_path_secrets v = upn_encrypted_path_secrets u"

lemma parent_hash_ok:
  assumes "hash_ok P" "tree_wf t" "s < node_count (rt_leaf_count t)"
  shows "\<exists>h. compute_parent_hash_value P t x k g s = Ok h \<and> length h = 32"
proof -
  have "level s \<le> MAX_TREE_DEPTH" using level_depth [OF assms(3) tree_wf_size [OF assms(2)]] .
  then obtain a where "compute_node_hash_inner P t s 0 = Ok a" using node_hash_total [OF assms, of 0] by auto
  then show ?thesis using assms(1) by (simp add: compute_parent_hash_value_def subtree_hash_def compute_node_hash_def hash_ok_def)
qed

lemma set_parent_hashes_ok:
  assumes "hash_ok P" "tree_wf t"
  shows "(\<And>k. Suc k < length es \<Longrightarrow> sibling (fst (es ! k)) (rt_leaf_count t) = Ok (sib (Suc k)) \<and> sib (Suc k) < node_count (rt_leaf_count t)) \<Longrightarrow>
    es \<noteq> [] \<Longrightarrow> \<exists>us. set_parent_hashes P t es = Ok us \<and> length us = length es \<and>
      (\<forall>k<length es. same_node_keys (snd (es ! k)) (us ! k) \<and> length (upn_parent_hash (us ! k)) = 32) \<and>
      upn_parent_hash (last us) = zeros 32 \<and>
      (\<forall>k. Suc k < length es \<longrightarrow> compute_parent_hash_value P t (upn_x25519_public (us ! Suc k)) (upn_kyber_public (us ! Suc k))
         (upn_parent_hash (us ! Suc k)) (sib (Suc k)) = Ok (upn_parent_hash (us ! k)))"
proof (induction es arbitrary: sib)
  case (Cons e es)
  obtain c u where e: "e = (c, u)" by (cases e)
  show ?case
  proof (cases es)
    case Nil
    then show ?thesis by (simp add: e same_node_keys_def)
  next
    case (Cons f fs)
    obtain p v where f: "f = (p, v)" by (cases f)
    have sib: "sibling (fst (es ! k)) (rt_leaf_count t) = Ok ((sib \<circ> Suc) (Suc k)) \<and> (sib \<circ> Suc) (Suc k) < node_count (rt_leaf_count t)"
      if "Suc k < length es" for k using Cons.prems(1) [of "Suc k"] that by simp
    have "es \<noteq> []" using Cons by simp
    from Cons.IH [of "sib \<circ> Suc", OF sib this] obtain us where us: "set_parent_hashes P t es = Ok us" "length us = length es"
      "\<And>k. k < length es \<Longrightarrow> same_node_keys (snd (es ! k)) (us ! k) \<and> length (upn_parent_hash (us ! k)) = 32"
      "upn_parent_hash (last us) = zeros 32"
      "\<And>k. Suc k < length es \<Longrightarrow> compute_parent_hash_value P t (upn_x25519_public (us ! Suc k)) (upn_kyber_public (us ! Suc k))
         (upn_parent_hash (us ! Suc k)) (sib (Suc (Suc k))) = Ok (upn_parent_hash (us ! k))" by auto
    obtain w ws where w: "us = w # ws" using us(2) \<open>es \<noteq> []\<close> by (cases us) auto
    have same: "same_node_keys v w" using us(3) [of 0] Cons f w by simp
    have s0: "sibling c (rt_leaf_count t) = Ok (sib (Suc 0))" "sib (Suc 0) < node_count (rt_leaf_count t)"
      using Cons.prems(1) [of 0] Cons e by simp_all
    obtain h where h: "compute_parent_hash_value P t (upn_x25519_public w) (upn_kyber_public w) (upn_parent_hash w) (sib (Suc 0)) = Ok h" "length h = 32"
      using parent_hash_ok [OF assms s0(2)] by blast
    let ?u = "u\<lparr> upn_parent_hash := h \<rparr>"
    have 1: "set_parent_hashes P t (e # es) = Ok (?u # us)"
      using us(1) s0(1) h(1) same w unfolding e Cons f by (simp add: same_node_keys_def)
    have 2: "same_node_keys (snd ((e # es) ! k)) ((?u # us) ! k) \<and> length (upn_parent_hash ((?u # us) ! k)) = 32" if "k < length (e # es)" for k
      using that us(3) h(2) by (cases k) (simp_all add: e same_node_keys_def)
    have 3: "compute_parent_hash_value P t (upn_x25519_public ((?u # us) ! Suc k)) (upn_kyber_public ((?u # us) ! Suc k))
         (upn_parent_hash ((?u # us) ! Suc k)) (sib (Suc k)) = Ok (upn_parent_hash ((?u # us) ! k))" if "Suc k < length (e # es)" for k
      using that us(5) h(1) w by (cases k) simp_all
    have "upn_parent_hash (last (?u # us)) = zeros 32" using us(4) w by simp
    with 1 2 3 us(2) show ?thesis by (intro exI [of _ "?u # us"]) simp
  qed
qed simp

lemma level_ok_same: "level_ok P t e u k \<Longrightarrow> same_node_keys u v \<Longrightarrow> level_ok P t e v k"
  by (cases e; cases k) (simp add: level_ok_def same_node_keys_def)

lemma path_nonempty:
  assumes "1 < n" "tree_size n" "path_ok n r (2 * i) dp cp" "i < n"
  shows "dp \<noteq> []"
proof
  assume "dp = []"
  then have "{..<node_count n} = sub n (2 * i)" using path_okD(1,8) [OF assms(3)] by simp
  also have "\<dots> = {2 * i}" using sub_leaf leaf_node(2) [OF assms(4,2)] by simp
  finally have "card {..<node_count n} = 1" by simp
  with assms(1) show False by (simp add: node_count_def)
qed

text \<open>An update path for the direct path \<open>dp\<close> and copath \<open>cp\<close> with the path secrets \<open>ss\<close>, and the private
  keys of its nodes.\<close>

definition path_made :: "prims \<Rightarrow> ratchet_tree \<Rightarrow> nat list \<Rightarrow> nat list \<Rightarrow> bytes list \<Rightarrow> group_update_path \<Rightarrow> (nat \<times> handle \<times> handle) list \<Rightarrow> bool" where
  "path_made P t dp cp ss up keys \<longleftrightarrow>
     length ss = length dp \<and> length (up_nodes up) = length dp \<and> length keys = length dp \<and> (\<forall>s\<in>set ss. length s = 32) \<and>
     (\<forall>k. Suc k < length dp \<longrightarrow> derive_next_path_secret P (ss ! k) (Suc k) = Ok (ss ! Suc k)) \<and>
     (\<forall>k<length dp. level_ok P t (dp ! k, cp ! k, ss ! k) (up_nodes up ! k) (keys ! k) \<and> length (upn_parent_hash (up_nodes up ! k)) = 32) \<and>
     upn_parent_hash (last (up_nodes up)) = zeros 32 \<and>
     (\<forall>k. Suc k < length dp \<longrightarrow> compute_parent_hash_value P t (upn_x25519_public (up_nodes up ! Suc k)) (upn_kyber_public (up_nodes up ! Suc k))
        (upn_parent_hash (up_nodes up ! Suc k)) (cp ! Suc k) = Ok (upn_parent_hash (up_nodes up ! k)))"

definition path_draws_ok :: "prims \<Rightarrow> path_draws \<Rightarrow> bool" where
  "path_draws_ok P d \<longleftrightarrow> length (pd_leaf_x25519 d) = 32 \<and> length (pd_path_secret d) = 32 \<and> length (pd_commit_secret d) = 32 \<and>
     (\<forall>i j. hybrid_draws_ok P (pd_hybrid d i j))"

lemma create_update_path_ok:
  assumes "group_crypto_ok P" "tree_wf t" "keys_generated P t" "path_draws_ok P d" "1 < rt_leaf_count t" "i < rt_leaf_count t"
    and "root (rt_leaf_count t) = Ok r" "direct_path i (rt_leaf_count t) = Ok dp" "copath i (rt_leaf_count t) = Ok cp"
    and "path_ok (rt_leaf_count t) r (2 * i) dp cp"
    and "\<And>k. Suc k < length dp \<Longrightarrow> sibling (dp ! k) (rt_leaf_count t) = Ok (cp ! Suc k)"
  shows "\<exists>up ss keys lx lk. create_update_path P t i d = Ok (up, last ss, (2 * i, lx, lk) # keys) \<and> path_made P t dp cp ss up keys \<and>
    key_pairs P lx (up_leaf_x25519_public up) lk (up_leaf_kyber_public up) \<and> up_leaf_signature up = []"
proof -
  let ?n = "rt_leaf_count t" and ?s = "pd_path_secret d"
  note c = group_crypto_okD [OF assms(1)] and o = path_okD [OF assms(10)]
  have size: "tree_size ?n" using tree_wf_size [OF assms(2)] .
  have ne: "dp \<noteq> []" using path_nonempty [OF assms(5) size assms(10,6)] .
  have d: "length (pd_leaf_x25519 d) = 32" "length ?s = 32" "\<And>i j. hybrid_draws_ok P (pd_hybrid d i j)" using assms(4) by (simp_all add: path_draws_ok_def)
  obtain lk lp where lk: "mlkem_keygen P (pd_leaf_kyber d) = (lk, lp)" by fastforce
  from next_path_secrets_ok [OF assms(1) d(2), of "[1..<length dp]"] obtain rest where
    rest: "next_path_secrets P ?s [1..<length dp] = Ok rest" "length rest = length dp - 1" "\<forall>x\<in>set rest. length x = 32"
      "\<And>k. k < length rest \<Longrightarrow> derive_next_path_secret P ((?s # rest) ! k) ([1..<length dp] ! k) = Ok (rest ! k)" by auto
  let ?ss = "?s # rest" and ?es = "zip dp (zip cp (?s # rest))"
  have len: "length ?ss = length dp" using rest(2) ne by (cases dp) simp_all
  have ss: "\<forall>s\<in>set ?ss. length s = 32" using rest(3) d(2) by simp
  have es: "fst (snd e) < node_count ?n \<and> length (snd (snd e)) = 32" if e: "e \<in> set ?es" for e
  proof -
    obtain node c s where that: "e = (node, c, s)" by (rule prod_cases3)
    have "(c, s) \<in> set (zip cp ?ss)" by (rule set_zip_rightD [OF e [unfolded that]])
    then have "c \<in> set cp" "s \<in> set ?ss" by (rule set_zip_leftD, rule set_zip_rightD)
    moreover have "c < node_count ?n" using o(6) \<open>c \<in> set cp\<close> by (auto simp: in_set_conv_nth)
    ultimately show ?thesis using ss that by auto
  qed
  have lenes: "length ?es = length dp" using len o(1) by simp
  obtain nodes keys where n: "create_path_nodes P t (pd_hybrid d) 0 ?es = Ok (nodes, keys)" "length nodes = length dp" "length keys = length dp"
    "\<And>k. k < length dp \<Longrightarrow> level_ok P t (?es ! k) (nodes ! k) (keys ! k)"
    using create_path_nodes_ok [where es = ?es and d = "pd_hybrid d" and i = 0, OF assms(1-3) d(3)] es unfolding lenes by blast
  have sib: "sibling (fst (zip dp nodes ! k)) ?n = Ok (cp ! Suc k) \<and> cp ! Suc k < node_count ?n" if "Suc k < length (zip dp nodes)" for k
    using that n(2) assms(11) o(1,6) by simp
  have zne: "zip dp nodes \<noteq> []" using ne n(2) by (cases dp; cases nodes) simp_all
  from set_parent_hashes_ok [where sib = "\<lambda>k. cp ! k", OF c(7) assms(2) sib zne] obtain us where
    us: "set_parent_hashes P t (zip dp nodes) = Ok us" "length us = length dp"
      "\<And>k. k < length dp \<Longrightarrow> same_node_keys (nodes ! k) (us ! k) \<and> length (upn_parent_hash (us ! k)) = 32"
      "upn_parent_hash (last us) = zeros 32"
      "\<And>k. Suc k < length dp \<Longrightarrow> compute_parent_hash_value P t (upn_x25519_public (us ! Suc k)) (upn_kyber_public (us ! Suc k))
        (upn_parent_hash (us ! Suc k)) (cp ! Suc k) = Ok (upn_parent_hash (us ! k))" using n(2) by auto
  let ?up = "\<lparr> up_leaf_x25519_public = x25519_public P (pd_leaf_x25519 d), up_leaf_kyber_public = lp, up_nodes = us, up_leaf_signature = [] \<rparr>"
  have "create_update_path P t i d = Ok (?up, last ?ss, (2 * i, pd_leaf_x25519 d, lk) # keys)"
    using assms(5,8,9) rest(1) n(1) us(1) generate_x25519_keypair_ok [OF d(1) c(9)] kyber_generate_keypair_ok [OF c(4,10) lk] leaf_node(1) [OF assms(6) size]
    by (simp add: create_update_path_def Let_def)
  moreover have "level_ok P t (dp ! k, cp ! k, ?ss ! k) (us ! k) (keys ! k)" if "k < length dp" for k
    using level_ok_same [OF n(4) [OF that]] us(3) [OF that] that len o(1) by simp
  moreover have "derive_next_path_secret P (?ss ! k) (Suc k) = Ok (?ss ! Suc k)" if "Suc k < length dp" for k
    using rest(4) [of k] that rest(2) by simp
  moreover have "key_pairs P (pd_leaf_x25519 d) (x25519_public P (pd_leaf_x25519 d)) lk lp" using d(1) lk by (auto simp: key_pairs_def kem_pair_def)
  ultimately show ?thesis
    by (intro exI [of _ ?up] exI [of _ ?ss] exI [of _ keys] exI [of _ "pd_leaf_x25519 d"] exI [of _ lk])
      (use len ss n(3) us in \<open>simp add: path_made_def\<close>)
qed

end
