(* ===== verification/Tree_Kem_Process.thy ===== *)
theory Tree_Kem_Process
  imports Tree_Kem_Agree
begin

text \<open>
  A member processes an update path: it finds the level at which the committer's path meets its own,
  decrypts the secret of that level, and installs the keys above it.
\<close>

section \<open>Opening the path\<close>

text \<open>A member holds matching private keys for every node with keys above its leaf.\<close>

definition member_keys :: "prims \<Rightarrow> ratchet_tree \<Rightarrow> nat \<Rightarrow> bool" where
  "member_keys P t j \<longleftrightarrow> (\<forall>y keys. y < node_count (rt_leaf_count t) \<and> 2 * j \<in> sub (rt_leaf_count t) y \<and> get_node_keys t y = Some keys \<longrightarrow>
     (\<exists>xs ks. nk_x25519_private keys = Some xs \<and> nk_kyber_secret keys = Some ks \<and>
        key_pairs P xs (nk_x25519_public keys) ks (nk_kyber_public keys)))"

text \<open>The checks refuse all-zero keys and hashes; a path has none but with negligible probability.\<close>

definition path_nondegenerate :: "group_update_path \<Rightarrow> bool" where
  "path_nondegenerate up \<longleftrightarrow> \<not> list_all (\<lambda>b. b = 0) (up_leaf_kyber_public up) \<and>
     (\<forall>u\<in>set (up_nodes up). \<not> list_all (\<lambda>b. b = 0) (upn_kyber_public u)) \<and>
     (\<forall>u\<in>set (butlast (up_nodes up)). \<not> is_all_zero (upn_parent_hash u))"

lemma key_pairs_valid:
  assumes "group_crypto_ok P" "key_pairs P xs xp ks kp" "\<not> list_all (\<lambda>b. b = 0) kp"
  shows "validate_x25519_public_key xp = Ok ()" "kyber_validate_public_key P kp = Ok ()"
proof -
  have k: "length xs = 32" "xp = x25519_public P xs" "kem_pair P ks kp" using assms(2) by (simp_all add: key_pairs_def)
  show "validate_x25519_public_key xp = Ok ()" using group_crypto_okD(6) [OF assms(1)] k(1,2) by (simp add: x25519_keys_ok_def)
  show "kyber_validate_public_key P kp = Ok ()" using kem_pair_sizes [OF assms(1) k(3)] assms(3) by (simp add: kyber_validate_public_key_def)
qed

lemma validate_path_keys_ok:
  assumes "group_crypto_ok P"
    and "\<And>u. u \<in> set us \<Longrightarrow> (\<exists>xs ks. key_pairs P xs (upn_x25519_public u) ks (upn_kyber_public u)) \<and> \<not> list_all (\<lambda>b. b = 0) (upn_kyber_public u)"
  shows "validate_path_keys P us = Ok ()"
  using assms(2)
proof (induction us)
  case (Cons u us)
  then have "(\<exists>xs ks. key_pairs P xs (upn_x25519_public u) ks (upn_kyber_public u)) \<and> \<not> list_all (\<lambda>b. b = 0) (upn_kyber_public u)" by simp
  then have "validate_x25519_public_key (upn_x25519_public u) = Ok ()" "kyber_validate_public_key P (upn_kyber_public u) = Ok ()"
    using key_pairs_valid [OF assms(1)] by blast+
  with Cons show ?case by simp
qed simp

lemma validate_path_hashes_ok:
  "\<forall>u\<in>set us. length (upn_parent_hash u) = 32 \<Longrightarrow> \<forall>u\<in>set (butlast us). \<not> is_all_zero (upn_parent_hash u) \<Longrightarrow> validate_path_hashes us = Ok ()"
  by (induction us) (auto split: if_splits)

lemma level_ok_keys:
  "level_ok P t (node, c, s) u k \<Longrightarrow> \<exists>xs ks. k = (node, xs, ks) \<and> derive_node_keypairs P s = Ok (xs, upn_x25519_public u, ks, upn_kyber_public u) \<and>
     key_pairs P xs (upn_x25519_public u) ks (upn_kyber_public u)"
  by (cases k) (auto simp: level_ok_def)

lemma ancestor_search_finds:
  assumes "length cp = length dp" "L < length dp" "\<And>k. k < L \<Longrightarrow> dp ! k \<noteq> y \<and> dp ! k \<notin> set mp" "dp ! L \<in> set mp"
    and "resolution t (cp ! L) = Ok res" "\<exists>r\<in>set res. r = y \<or> r \<in> set mp"
  shows "ancestor_search t y mp (zip [a..<a + length dp] (zip dp cp)) = Ok (Some (a + L))"
  using assms(1-5)
proof (induction dp arbitrary: cp a L)
  case (Cons d dp)
  obtain c cp' where cp: "cp = c # cp'" "length cp' = length dp" using Cons.prems(1) by (cases cp) auto
  have up: "[a..<a + length (d # dp)] = a # [Suc a..<Suc a + length dp]" by (simp add: upt_conv_Cons del: upt_Suc)
  show ?case
  proof (cases L)
    case 0
    with Cons.prems(4,5) cp assms(6) show ?thesis unfolding up by (auto simp: list_ex_iff)
  next
    case (Suc M)
    have "ancestor_search t y mp (zip [Suc a..<Suc a + length dp] (zip dp cp')) = Ok (Some (Suc a + M))"
    proof (rule Cons.IH [OF cp(2)])
      show "M < length dp" "dp ! M \<in> set mp" "resolution t (cp' ! M) = Ok res" using Cons.prems(2,4,5) Suc cp by simp_all
      show "dp ! k \<noteq> y \<and> dp ! k \<notin> set mp" if "k < M" for k using Cons.prems(3) [of "Suc k"] that Suc by simp
    qed
    then show ?thesis using Cons.prems(3) [of 0] Suc cp unfolding up by simp
  qed
qed simp

lemma open_update_path_ok:
  assumes P: "group_crypto_ok P" and wf: "tree_wf t'" and same: "same_public t t'" and n: "rt_leaf_count t' = n" "1 < n"
    and ij: "i < n" "j < n" "i \<noteq> j"
    and path: "direct_path i n = Ok dp" "copath i n = Ok cp" "path_ok n r (2 * i) dp cp"
      "\<And>k. k < length dp \<Longrightarrow> sub n (dp ! k) = sub n (2 * i) \<union> set (take (Suc k) dp) \<union> (\<Union>c\<in>set (take (Suc k) cp). sub n c)"
    and made: "path_made P t dp cp ss up keys" "key_pairs P lx (up_leaf_x25519_public up) lk (up_leaf_kyber_public up)" "path_nondegenerate up"
    and mine: "member_keys P t' j" "get_node_keys t' (2 * j) \<noteq> None"
  shows "\<exists>mp L. direct_path j n = Ok mp \<and> open_update_path P t' up i j = Ok (dp, mp, L, ss ! L) \<and> L < length dp \<and>
    (\<forall>k<length dp. dp ! k \<in> set mp \<longleftrightarrow> L \<le> k)"
proof -
  have size: "tree_size n" using tree_wf_size [OF wf] n(1) by simp
  note o = path_okD [OF path(3)]
  obtain mp where mp: "direct_path j n = Ok mp" using direct_path_spec [OF ij(2) size] by blast
  obtain L where L: "L < length dp" "2 * j \<in> sub n (cp ! L)" "\<And>k. k < length dp \<Longrightarrow> dp ! k \<in> set mp \<longleftrightarrow> L \<le> k"
    using meeting_level [OF ij(2,1,3) size path(3) mp path(4)] by blast
  have m: "length ss = length dp" "length (up_nodes up) = length dp" "length keys = length dp"
    "\<And>k. k < length dp \<Longrightarrow> level_ok P t (dp ! k, cp ! k, ss ! k) (up_nodes up ! k) (keys ! k) \<and> length (upn_parent_hash (up_nodes up ! k)) = 32"
    using made(1) by (simp_all add: path_made_def)
  have cpL: "cp ! L < node_count n" using o(1,6) L(1) by simp
  obtain res where res: "resolution t' (cp ! L) = Ok res" "resolution_ok t' (cp ! L) res" using resolution_spec [OF wf] cpL n(1) by auto
  have on: "2 * j \<in> sub n y \<longleftrightarrow> y = 2 * j \<or> y \<in> set mp" if "y < node_count n" for y using on_path_iff [OF ij(2) size mp that] .
  have j: "2 * j < length (rt_nodes t')" using leaf_node(2) [OF ij(2) size] wf n(1) by (simp add: tree_wf_def)
  have resn: "y < node_count n \<and> rt_nodes t' ! y \<noteq> Blank" if "y \<in> set res" for y
    using resolution_okD(2,3) [OF res(2) that] n sub_less [of y n] by auto
  have "\<exists>y\<in>set res. 2 * j \<in> sub n y" using resolution_okD(4) [OF res(2), of "2 * j"] L(2) n(1) mine(2) keys_None_iff [OF j] by simp
  then have ex: "\<exists>y\<in>set res. y = 2 * j \<or> y \<in> set mp" using on resn by blast
  have odd: "dp ! k \<noteq> 2 * j" if "k < length dp" for k using o(4) nth_mem [OF that] by (metis dvd_triv_left)
  have found: "ancestor_search t' (2 * j) mp (zip [0..<length dp] (zip dp cp)) = Ok (Some L)"
    using ancestor_search_finds [of cp dp L "2 * j" mp t' res 0] o(1) L odd res(1) ex by simp
  obtain q where q: "position (\<lambda>r. r = 2 * j \<or> r \<in> set mp) res = Some q"
    using position_None [of "\<lambda>r. r = 2 * j \<or> r \<in> set mp" res] ex by (cases "position (\<lambda>r. r = 2 * j \<or> r \<in> set mp) res") auto
  note q' = position_Some [OF q]
  have rq: "res ! q < node_count n" "rt_nodes t' ! (res ! q) \<noteq> Blank" using resn q' by simp_all
  obtain nk where nk: "get_node_keys t' (res ! q) = Some nk"
    using keys_None_iff [of "res ! q" t'] rq wf n(1) by (auto simp: tree_wf_def)
  obtain xs ks where priv: "nk_x25519_private nk = Some xs" "nk_kyber_secret nk = Some ks" "key_pairs P xs (nk_x25519_public nk) ks (nk_kyber_public nk)"
    using mine(1) nk rq(1) on [OF rq(1)] q' n(1) unfolding member_keys_def by blast
  have "get_node_public_keys t (res ! q) = Some (nk_x25519_public nk, nk_kyber_public nk)"
  proof -
    have "get_node_public_keys t (res ! q) = get_node_public_keys t' (res ! q)" using same by (simp add: same_public_def)
    with nk show ?thesis unfolding public_of_keys [of t'] by simp
  qed
  moreover have "resolution t (cp ! L) = Ok res" using res(1) resolution_cong [OF same] by simp
  ultimately have dec: "length (upn_encrypted_path_secrets (up_nodes up ! L)) = length res"
    "decrypt_path_secret P (upn_encrypted_path_secrets (up_nodes up ! L) ! q) xs ks (dp ! L) = Ok (ss ! L)"
    using m(4) [OF L(1)] q' priv(3) by (auto simp: level_ok_def split: prod.splits)
  have "validate_path_keys P (up_nodes up) = Ok ()"
  proof (rule validate_path_keys_ok [OF P])
    fix u assume "u \<in> set (up_nodes up)"
    moreover then obtain k where k: "k < length dp" "u = up_nodes up ! k" using m(2) by (auto simp: in_set_conv_nth)
    ultimately show "(\<exists>xs ks. key_pairs P xs (upn_x25519_public u) ks (upn_kyber_public u)) \<and> \<not> list_all (\<lambda>b. b = 0) (upn_kyber_public u)"
      using level_ok_keys [of P t "dp ! k" "cp ! k" "ss ! k" u "keys ! k"] m(4) [OF k(1)] made(3) unfolding path_nondegenerate_def by blast
  qed
  moreover have "validate_path_hashes (up_nodes up) = Ok ()"
    using m(2,4) made(3) by (intro validate_path_hashes_ok) (auto simp: path_nondegenerate_def in_set_conv_nth)
  moreover have "validate_x25519_public_key (up_leaf_x25519_public up) = Ok ()" "kyber_validate_public_key P (up_leaf_kyber_public up) = Ok ()"
    using key_pairs_valid [OF P made(2)] made(3) by (simp_all add: path_nondegenerate_def)
  ultimately have "open_update_path P t' up i j = Ok (dp, mp, L, ss ! L)"
    using n ij path(1,2) mp found L(1) m(2) res(1) q q' dec nk priv(1,2) leaf_node(1) [OF ij(2) size]
    by (simp add: open_update_path_def Let_def)
  with mp L show ?thesis by blast
qed

section \<open>Installing the keys\<close>

definition full_keys :: "group_update_path_node \<Rightarrow> nat \<times> handle \<times> handle \<Rightarrow> hybrid_node_keys" where
  "full_keys u = (\<lambda>(_, xs, ks). \<lparr> nk_x25519_public = upn_x25519_public u, nk_kyber_public = upn_kyber_public u,
     nk_x25519_private = Some xs, nk_kyber_secret = Some ks \<rparr>)"

lemma install_level_ok:
  assumes "level_ok P t0 (node, c, s) u k" "node < length (rt_nodes t)" "node \<in> set mp"
  shows "\<exists>t'. install_level P mp s node u ex ek t = (Ok (), t') \<and> same_shape t t' \<and>
    (\<forall>y. get_node_keys t' y = (if y = node then Some (full_keys u k) else get_node_keys t y))"
proof -
  obtain xs ks where k: "k = (node, xs, ks)" "derive_node_keypairs P s = Ok (xs, upn_x25519_public u, ks, upn_kyber_public u)"
    using level_ok_keys [OF assms(1)] by blast
  obtain t1 where t1: "set_node_public_keys t node (upn_x25519_public u) (upn_kyber_public u) = (Ok (), t1)" "same_shape t t1"
    "\<And>y. get_node_keys t1 y = (if y = node then Some (with_public (upn_x25519_public u) (upn_kyber_public u) (get_node_keys t node)) else get_node_keys t y)"
    using set_public_effect [OF assms(2)] by blast
  have "get_node_keys t1 node = Some (with_public (upn_x25519_public u) (upn_kyber_public u) (get_node_keys t node))" using t1(3) by simp
  from set_private_effect [OF this, of xs ks] obtain t2 where t2: "set_node_private_keys t1 node xs ks = (Ok (), t2)" "same_shape t1 t2"
    "\<And>y. get_node_keys t2 y = (if y = node then Some ((with_public (upn_x25519_public u) (upn_kyber_public u) (get_node_keys t node))
        \<lparr> nk_x25519_private := Some xs, nk_kyber_secret := Some ks \<rparr>) else get_node_keys t1 y)" by blast
  have "(with_public (upn_x25519_public u) (upn_kyber_public u) old) \<lparr> nk_x25519_private := Some xs, nk_kyber_secret := Some ks \<rparr> = full_keys u k" for old
    by (simp add: k(1) full_keys_def with_public_def split: option.splits)
  then show ?thesis using k(2) t1 t2 assms(3) same_shape_trans by (intro exI [of _ t2]) (auto simp: install_level_def)
qed

lemma install_upper_ok:
  assumes "path_made P t0 dp cp ss up keys" "distinct dp" "\<And>k. L < k \<Longrightarrow> k < length dp \<Longrightarrow> dp ! k < length (rt_nodes t) \<and> dp ! k \<in> set mp" "L < length dp"
  shows "\<exists>t'. install_upper P mp (ss ! L) (drop (Suc L) (zip [0..<length dp] (zip dp (up_nodes up)))) t = (Ok (last ss), t') \<and> same_shape t t' \<and>
    (\<forall>k. L < k \<and> k < length dp \<longrightarrow> get_node_keys t' (dp ! k) = Some (full_keys (up_nodes up ! k) (keys ! k))) \<and>
    (\<forall>y. y \<notin> set (drop (Suc L) dp) \<longrightarrow> get_node_keys t' y = get_node_keys t y)"
  using assms(3,4)
proof (induction "length dp - Suc L" arbitrary: L t)
  case 0
  have "length ss = length dp" using assms(1) by (simp add: path_made_def)
  moreover have "L = length dp - 1" using 0 by simp
  ultimately have "ss ! L = last ss" using 0 by (subst last_conv_nth) auto
  moreover have "\<not> (L < k \<and> k < length dp)" for k using 0 by simp
  moreover have "drop (Suc L) (zip [0..<length dp] (zip dp (up_nodes up))) = []" using 0 by simp
  ultimately show ?case by (intro exI [of _ t]) auto
next
  case (Suc m)
  let ?z = "zip [0..<length dp] (zip dp (up_nodes up))"
  have m: "length (up_nodes up) = length dp" "derive_next_path_secret P (ss ! L) (Suc L) = Ok (ss ! Suc L)"
    "level_ok P t0 (dp ! Suc L, cp ! Suc L, ss ! Suc L) (up_nodes up ! Suc L) (keys ! Suc L)"
    using assms(1) Suc.hyps(2) by (simp_all add: path_made_def)
  have l: "Suc L < length dp" using Suc.hyps(2) by simp
  have z: "drop (Suc L) ?z = (Suc L, dp ! Suc L, up_nodes up ! Suc L) # drop (Suc (Suc L)) ?z"
    using l m(1) by (subst Cons_nth_drop_Suc [symmetric]) simp_all
  obtain t1 where t1: "install_level P mp (ss ! Suc L) (dp ! Suc L) (up_nodes up ! Suc L) ''X25519 public key mismatch at path level {i}''
      ''Kyber public key mismatch at path level {i}'' t = (Ok (), t1)" "same_shape t t1"
      "\<And>y. get_node_keys t1 y = (if y = dp ! Suc L then Some (full_keys (up_nodes up ! Suc L) (keys ! Suc L)) else get_node_keys t y)"
    using install_level_ok [OF m(3)] Suc.prems(1) [of "Suc L"] l by blast
  have pre: "dp ! k < length (rt_nodes t1) \<and> dp ! k \<in> set mp" if "Suc L < k" "k < length dp" for k
    using Suc.prems(1) [of k] that t1(2) by (simp add: same_shape_def)
  have "m = length dp - Suc (Suc L)" using Suc.hyps(2) by simp
  from Suc.hyps(1) [OF this pre l] obtain t2 where t2: "install_upper P mp (ss ! Suc L) (drop (Suc (Suc L)) ?z) t1 = (Ok (last ss), t2)" "same_shape t1 t2"
    "\<And>k. Suc L < k \<and> k < length dp \<Longrightarrow> get_node_keys t2 (dp ! k) = Some (full_keys (up_nodes up ! k) (keys ! k))"
    "\<And>y. y \<notin> set (drop (Suc (Suc L)) dp) \<Longrightarrow> get_node_keys t2 y = get_node_keys t1 y"
    by blast
  have d: "drop (Suc L) dp = dp ! Suc L # drop (Suc (Suc L)) dp" using l by (simp add: Cons_nth_drop_Suc)
  have nd: "dp ! Suc L \<notin> set (drop (Suc (Suc L)) dp)" using assms(2) distinct_drop [of dp "Suc L"] unfolding d by simp
  have "get_node_keys t2 (dp ! k) = Some (full_keys (up_nodes up ! k) (keys ! k))" if "L < k" "k < length dp" for k
    using that t2(3) [of k] t2(4) [OF nd] t1(3) by (cases "k = Suc L") simp_all
  moreover have "get_node_keys t2 y = get_node_keys t y" if "y \<notin> set (drop (Suc L) dp)" for y
    using that t2(4) [of y] t1(3) [of y] unfolding d by simp
  moreover have "install_upper P mp (ss ! L) (drop (Suc L) ?z) t = (Ok (last ss), t2)" unfolding z using m(2) t1(1) t2(1) by simp
  ultimately show ?case using same_shape_trans [OF t1(2) t2(2)] by blast
qed

lemma set_path_public_keys_ok:
  "distinct (map fst es) \<Longrightarrow> \<forall>e\<in>set es. fst e < length (rt_nodes t) \<Longrightarrow>
   \<exists>t'. set_path_public_keys es t = (Ok (), t') \<and> same_shape t t' \<and>
     (\<forall>e\<in>set es. get_node_keys t' (fst e) = Some (with_public (upn_x25519_public (snd e)) (upn_kyber_public (snd e)) (get_node_keys t (fst e)))) \<and>
     (\<forall>y. y \<notin> fst ` set es \<longrightarrow> get_node_keys t' y = get_node_keys t y)"
proof (induction es arbitrary: t)
  case (Cons e es)
  obtain node u where e: "e = (node, u)" by (cases e)
  obtain t1 where t1: "set_node_public_keys t node (upn_x25519_public u) (upn_kyber_public u) = (Ok (), t1)" "same_shape t t1"
    "\<And>y. get_node_keys t1 y = (if y = node then Some (with_public (upn_x25519_public u) (upn_kyber_public u) (get_node_keys t node)) else get_node_keys t y)"
    using set_public_effect [of node t] Cons.prems(2) e by fastforce
  have "\<forall>e\<in>set es. fst e < length (rt_nodes t1)" using Cons.prems(2) t1(2) by (simp add: same_shape_def)
  then obtain t2 where t2: "set_path_public_keys es t1 = (Ok (), t2)" "same_shape t1 t2"
    "\<And>e. e \<in> set es \<Longrightarrow> get_node_keys t2 (fst e) = Some (with_public (upn_x25519_public (snd e)) (upn_kyber_public (snd e)) (get_node_keys t1 (fst e)))"
    "\<And>y. y \<notin> fst ` set es \<Longrightarrow> get_node_keys t2 y = get_node_keys t1 y"
    using Cons.IH [of t1] Cons.prems(1) by auto
  have ne: "node \<notin> fst ` set es" using Cons.prems(1) e by simp
  have "get_node_keys t2 (fst f) = Some (with_public (upn_x25519_public (snd f)) (upn_kyber_public (snd f)) (get_node_keys t (fst f)))" if "f \<in> set (e # es)" for f
  proof (cases "f \<in> set es")
    case True
    then have "fst f \<noteq> node" using ne by force
    with t2(3) [OF True] t1(3) show ?thesis by simp
  next
    case False
    with that t2(4) [OF ne] t1(3) show ?thesis by (simp add: e)
  qed
  moreover have "get_node_keys t2 y = get_node_keys t y" if "y \<notin> fst ` set (e # es)" for y using that t2(4) [of y] t1(3) by (simp add: e)
  moreover have "set_path_public_keys (e # es) t = (Ok (), t2)" using t1(1) t2(1) by (simp add: e)
  ultimately show ?case using same_shape_trans [OF t1(2) t2(2)] by blast
qed simp

lemma set_path_parent_hashes_ok:
  "distinct (map fst es) \<Longrightarrow> \<forall>e\<in>set es. get_node_keys t (fst e) \<noteq> None \<Longrightarrow>
   \<exists>t'. set_path_parent_hashes es t = (Ok (), t') \<and> same_shape t t' \<and> (\<forall>y. get_node_keys t' y = get_node_keys t y) \<and>
     (\<forall>e\<in>set es. get_node_parent_hash t' (fst e) = Some (upn_parent_hash (snd e))) \<and>
     (\<forall>y. y \<notin> fst ` set es \<longrightarrow> get_node_parent_hash t' y = get_node_parent_hash t y)"
proof (induction es arbitrary: t)
  case (Cons e es)
  obtain node u where e: "e = (node, u)" by (cases e)
  obtain keys where "get_node_keys t node = Some keys" using Cons.prems(2) e by auto
  from set_parent_hash_effect [OF this, of "upn_parent_hash u"] obtain t1 where
    t1: "set_node_parent_hash t node (upn_parent_hash u) = (Ok (), t1)" "same_shape t t1" "\<And>y. get_node_keys t1 y = get_node_keys t y"
      "\<And>y. get_node_parent_hash t1 y = (if y = node then Some (upn_parent_hash u) else get_node_parent_hash t y)" by blast
  have pre: "distinct (map fst es)" "\<forall>e\<in>set es. get_node_keys t1 (fst e) \<noteq> None" using Cons.prems t1(3) by simp_all
  obtain t2 where t2: "set_path_parent_hashes es t1 = (Ok (), t2)" "same_shape t1 t2" "\<And>y. get_node_keys t2 y = get_node_keys t1 y"
    "\<And>e. e \<in> set es \<Longrightarrow> get_node_parent_hash t2 (fst e) = Some (upn_parent_hash (snd e))"
    "\<And>y. y \<notin> fst ` set es \<Longrightarrow> get_node_parent_hash t2 y = get_node_parent_hash t1 y"
    using Cons.IH [OF pre] by blast
  have ne: "node \<notin> fst ` set es" using Cons.prems(1) e by simp
  have "get_node_parent_hash t2 (fst f) = Some (upn_parent_hash (snd f))" if "f \<in> set (e # es)" for f
    using that t2(4) t2(5) [OF ne] t1(4) by (cases "f \<in> set es") (auto simp: e)
  moreover have "get_node_parent_hash t2 y = get_node_parent_hash t y" if "y \<notin> fst ` set (e # es)" for y using that t2(5) [of y] t1(4) by (simp add: e)
  moreover have "set_path_parent_hashes (e # es) t = (Ok (), t2)" using t1(1) t2(1) by (simp add: e)
  ultimately show ?case using same_shape_trans [OF t1(2) t2(2)] t1(3) t2(3) by auto
qed simp

section \<open>The parent hash chain\<close>

lemma verify_chain_ok:
  assumes "length hs = length dp" "length us = length dp" "distinct dp" "dp \<noteq> []" "last dp = r" "last hs = zeros 32"
    and "\<And>k. k < length dp \<Longrightarrow> get_node_parent_hash t (dp ! k) = Some (hs ! k) \<and> length (hs ! k) = 32"
    and "\<And>k. k < length dp \<Longrightarrow> get_node_public_keys t (dp ! k) = Some (us ! k)"
    and "\<And>k. Suc k < length dp \<Longrightarrow> \<not> is_all_zero (hs ! k)"
    and "\<And>k. Suc k < length dp \<Longrightarrow> sibling (dp ! k) (rt_leaf_count t) = Ok (cp ! Suc k)"
    and "\<And>k. Suc k < length dp \<Longrightarrow> compute_parent_hash_value P t (fst (us ! Suc k)) (snd (us ! Suc k)) (hs ! Suc k) (cp ! Suc k) = Ok (hs ! k)"
  shows "verify_chain P t r (zeros 32) (rev dp) = Ok ()"
proof -
  have root: "dp ! k = r \<longleftrightarrow> Suc k = length dp" if "k < length dp" for k
    using that assms(3-5) nth_eq_iff_index_eq [of dp k "length dp - 1"] by (auto simp: last_conv_nth)
  have zero: "is_all_zero (hs ! k) \<longleftrightarrow> Suc k = length dp" if "k < length dp" for k
  proof (cases "Suc k = length dp")
    case True
    have "hs \<noteq> []" using assms(1,4) by auto
    then have "last hs = hs ! (length dp - 1)" using assms(1) by (simp add: last_conv_nth)
    moreover have "k = length dp - 1" using True by simp
    ultimately have "hs ! k = last hs" by simp
    with assms(6) True show ?thesis by simp
  next
    case False
    with that assms(9) [of k] show ?thesis by simp
  qed
  have step: "verify_chain P t r (hs ! k) (rev (take (Suc k) dp)) = Ok ()" if "k < length dp" for k
    using that
  proof (induction k)
    case 0
    have "rev (take (Suc 0) dp) = [dp ! 0]" using 0 by (simp add: take_Suc_conv_app_nth)
    with 0 root [OF 0] zero [OF 0] assms(7) [OF 0] show ?case by auto
  next
    case (Suc k)
    have l: "k < length dp" using Suc.prems by simp
    have "rev (take (Suc (Suc k)) dp) = dp ! Suc k # rev (take (Suc k) dp)" using Suc.prems by (simp add: take_Suc_conv_app_nth)
    moreover have "rev (take (Suc k) dp) = dp ! k # rev (take k dp)" using l by (simp add: take_Suc_conv_app_nth)
    ultimately show ?case
      using Suc.IH [OF l] root [OF Suc.prems] zero [OF Suc.prems] assms(7) [OF Suc.prems] assms(8) [OF Suc.prems] assms(10,11) [OF Suc.prems]
      by (cases "us ! Suc k") auto
  qed
  have "hs ! (length dp - 1) = zeros 32" using assms(1,4,6) by (metis last_conv_nth length_0_conv)
  with step [of "length dp - 1"] assms(4) show ?thesis by simp
qed

section \<open>The whole path\<close>

definition path_public :: "ratchet_tree \<Rightarrow> nat \<Rightarrow> nat list \<Rightarrow> group_update_path \<Rightarrow> nat \<Rightarrow> (bytes \<times> bytes) option" where
  "path_public t i dp up y =
     (if y = 2 * i then Some (up_leaf_x25519_public up, up_leaf_kyber_public up)
      else case map_of (zip dp (up_nodes up)) y of Some u \<Rightarrow> Some (upn_x25519_public u, upn_kyber_public u) | None \<Rightarrow> get_node_public_keys t y)"

lemma take_zip_fst: "length us = length dp \<Longrightarrow> map fst (take L (zip dp us)) = take L dp"
  by (simp add: take_zip)

lemma install_path_ok:
  assumes made: "path_made P t dp cp ss up keys" and dp: "distinct dp" "\<forall>y\<in>set dp. y < length (rt_nodes t') \<and> odd y"
    and i: "2 * i < length (rt_nodes t')" and L: "L < length dp" "\<And>k. k < length dp \<Longrightarrow> dp ! k \<in> set mp \<longleftrightarrow> L \<le> k"
  shows "\<exists>t1 t2 t3 t4 t5. install_level P mp (ss ! L) (dp ! L) (up_nodes up ! L) ex ek t' = (Ok (), t1) \<and>
    install_upper P mp (ss ! L) (drop (Suc L) (zip [0..<length dp] (zip dp (up_nodes up)))) t1 = (Ok (last ss), t2) \<and>
    set_path_public_keys (take L (zip dp (up_nodes up))) t2 = (Ok (), t3) \<and>
    set_node_public_keys t3 (2 * i) (up_leaf_x25519_public up) (up_leaf_kyber_public up) = (Ok (), t4) \<and>
    set_path_parent_hashes (zip dp (up_nodes up)) t4 = (Ok (), t5) \<and> same_shape t' t5 \<and>
    (\<forall>k<length dp. get_node_public_keys t5 (dp ! k) = Some (upn_x25519_public (up_nodes up ! k), upn_kyber_public (up_nodes up ! k))) \<and>
    (\<forall>k<length dp. L \<le> k \<longrightarrow> get_node_keys t5 (dp ! k) = Some (full_keys (up_nodes up ! k) (keys ! k))) \<and>
    get_node_public_keys t5 (2 * i) = Some (up_leaf_x25519_public up, up_leaf_kyber_public up) \<and>
    (\<forall>y. y \<notin> set dp \<and> y \<noteq> 2 * i \<longrightarrow> get_node_keys t5 y = get_node_keys t' y) \<and>
    (\<forall>k<length dp. get_node_parent_hash t5 (dp ! k) = Some (upn_parent_hash (up_nodes up ! k)))"
proof -
  let ?us = "up_nodes up"
  have m: "length ?us = length dp" "\<And>k. k < length dp \<Longrightarrow> level_ok P t (dp ! k, cp ! k, ss ! k) (?us ! k) (keys ! k)"
    using made by (simp_all add: path_made_def)
  have ndp: "dp ! k < length (rt_nodes t') \<and> dp ! k \<noteq> 2 * i" if "k < length dp" for k using dp(2) nth_mem [OF that] by fastforce
  obtain t1 where t1: "install_level P mp (ss ! L) (dp ! L) (?us ! L) ex ek t' = (Ok (), t1)" "same_shape t' t1"
      "\<And>y. get_node_keys t1 y = (if y = dp ! L then Some (full_keys (?us ! L) (keys ! L)) else get_node_keys t' y)"
    using install_level_ok [OF m(2) [OF L(1)]] ndp [OF L(1)] L by blast
  have "dp ! k < length (rt_nodes t1) \<and> dp ! k \<in> set mp" if "L < k" "k < length dp" for k
    using ndp [OF that(2)] L(2) [OF that(2)] that(1) t1(2) by (simp add: same_shape_def)
  from install_upper_ok [OF made dp(1) this L(1)] obtain t2 where
    t2: "install_upper P mp (ss ! L) (drop (Suc L) (zip [0..<length dp] (zip dp ?us))) t1 = (Ok (last ss), t2)" "same_shape t1 t2"
      "\<And>k. L < k \<and> k < length dp \<Longrightarrow> get_node_keys t2 (dp ! k) = Some (full_keys (?us ! k) (keys ! k))"
      "\<And>y. y \<notin> set (drop (Suc L) dp) \<Longrightarrow> get_node_keys t2 y = get_node_keys t1 y" by blast
  let ?es = "take L (zip dp ?us)"
  have es: "map fst ?es = take L dp" using take_zip_fst [OF m(1)] .
  then have fs: "fst ` set ?es = set (take L dp)" by (metis set_map)
  have "\<forall>e\<in>set ?es. fst e < length (rt_nodes t2)"
  proof
    fix e assume "e \<in> set ?es"
    then have "fst e \<in> set dp" using fs set_take_subset by fast
    then show "fst e < length (rt_nodes t2)" using dp(2) t1(2) t2(2) by (simp add: same_shape_def)
  qed
  from set_path_public_keys_ok [OF _ this] es dp(1) obtain t3 where
    t3: "set_path_public_keys ?es t2 = (Ok (), t3)" "same_shape t2 t3"
      "\<And>e. e \<in> set ?es \<Longrightarrow> get_node_keys t3 (fst e) = Some (with_public (upn_x25519_public (snd e)) (upn_kyber_public (snd e)) (get_node_keys t2 (fst e)))"
      "\<And>y. y \<notin> set (take L dp) \<Longrightarrow> get_node_keys t3 y = get_node_keys t2 y" unfolding fs by auto
  have sh3: "same_shape t' t3" using t1(2) t2(2) t3(2) same_shape_trans by blast
  then have "2 * i < length (rt_nodes t3)" using i by (simp add: same_shape_def)
  from set_public_effect [OF this] obtain t4 where
    t4: "set_node_public_keys t3 (2 * i) (up_leaf_x25519_public up) (up_leaf_kyber_public up) = (Ok (), t4)" "same_shape t3 t4"
      "\<And>y. get_node_keys t4 y = (if y = 2 * i then Some (with_public (up_leaf_x25519_public up) (up_leaf_kyber_public up) (get_node_keys t3 (2 * i))) else get_node_keys t3 y)"
    by blast
  have full: "get_node_keys t4 (dp ! k) = Some (full_keys (?us ! k) (keys ! k))" if k: "k < length dp" "L \<le> k" for k
  proof -
    have "dp ! k \<notin> set (take L dp)" using k dp(1) by (auto simp: in_set_take nth_eq_iff_index_eq)
    moreover have "get_node_keys t2 (dp ! k) = Some (full_keys (?us ! k) (keys ! k))"
    proof (cases "k = L")
      case True
      have "dp ! L \<notin> set (drop (Suc L) dp)" using dp(1) distinct_drop [of dp L] L(1) by (simp add: Cons_nth_drop_Suc [symmetric])
      with t2(4) t1(3) True show ?thesis by simp
    qed (use k t2(3) in simp)
    ultimately show ?thesis using t3(4) t4(3) ndp [OF k(1)] by simp
  qed
  have low: "get_node_public_keys t4 (dp ! k) = Some (upn_x25519_public (?us ! k), upn_kyber_public (?us ! k))" if k: "k < L" for k
  proof -
    have "(dp ! k, ?us ! k) \<in> set ?es" using k L(1) m(1) by (auto simp: in_set_take intro!: exI [of _ k])
    from t3(3) [OF this] show ?thesis using t4(3) ndp [of k] k L(1) by (simp add: public_of_keys)
  qed
  have pub: "get_node_public_keys t4 (dp ! k) = Some (upn_x25519_public (?us ! k), upn_kyber_public (?us ! k))" if "k < length dp" for k
    using low [of k] full [OF that] by (cases "L \<le> k") (simp_all add: public_of_keys full_keys_def split: prod.splits)
  have "\<forall>e\<in>set (zip dp ?us). get_node_keys t4 (fst e) \<noteq> None"
  proof
    fix e assume "e \<in> set (zip dp ?us)"
    then obtain k where "k < length dp" "fst e = dp ! k" by (auto simp: in_set_zip)
    with pub [of k] show "get_node_keys t4 (fst e) \<noteq> None" by (auto simp: public_of_keys)
  qed
  from set_path_parent_hashes_ok [OF _ this] dp(1) m(1) obtain t5 where
    t5: "set_path_parent_hashes (zip dp ?us) t4 = (Ok (), t5)" "same_shape t4 t5" "\<And>y. get_node_keys t5 y = get_node_keys t4 y"
      "\<And>e. e \<in> set (zip dp ?us) \<Longrightarrow> get_node_parent_hash t5 (fst e) = Some (upn_parent_hash (snd e))" by auto
  have "get_node_parent_hash t5 (dp ! k) = Some (upn_parent_hash (?us ! k))" if "k < length dp" for k
    using t5(4) [of "(dp ! k, ?us ! k)"] that m(1) by (auto simp: in_set_zip)
  moreover have "get_node_keys t5 y = get_node_keys t' y" if "y \<notin> set dp \<and> y \<noteq> 2 * i" for y
  proof -
    have "y \<notin> set (take L dp)" "y \<notin> set (drop (Suc L) dp)" "y \<noteq> dp ! L" using that set_take_subset set_drop_subset nth_mem [OF L(1)] by fast+
    then show ?thesis using t5(3) t4(3) t3(4) t2(4) t1(3) that by simp
  qed
  moreover have "same_shape t' t5" using sh3 t4(2) t5(2) same_shape_trans by blast
  ultimately show ?thesis using t1(1) t2(1) t3(1) t4(1) t5(1) pub full t4(3) by (simp add: public_of_keys t5(3))
qed

lemma path_public_cases:
  assumes "length (up_nodes up) = length dp" "distinct dp" "2 * i \<notin> set dp"
  shows "path_public t i dp up (2 * i) = Some (up_leaf_x25519_public up, up_leaf_kyber_public up)"
    "k < length dp \<Longrightarrow> path_public t i dp up (dp ! k) = Some (upn_x25519_public (up_nodes up ! k), upn_kyber_public (up_nodes up ! k))"
    "y \<notin> set dp \<Longrightarrow> y \<noteq> 2 * i \<Longrightarrow> path_public t i dp up y = get_node_public_keys t y"
proof -
  show "path_public t i dp up (2 * i) = Some (up_leaf_x25519_public up, up_leaf_kyber_public up)" by (simp add: path_public_def)
  show "path_public t i dp up (dp ! k) = Some (upn_x25519_public (up_nodes up ! k), upn_kyber_public (up_nodes up ! k))" if "k < length dp"
  proof -
    have "dp ! k \<noteq> 2 * i" using assms(3) nth_mem [OF that] by metis
    with map_of_zip_nth [OF assms(1) [symmetric] assms(2), of k] that assms(1) show ?thesis by (simp add: path_public_def)
  qed
  show "path_public t i dp up y = get_node_public_keys t y" if "y \<notin> set dp" "y \<noteq> 2 * i"
    using that assms(1) by (simp add: path_public_def split: option.splits) (metis map_of_zip_is_None option.distinct(1))
qed

lemma path_chain_ok:
  assumes "path_made P t dp cp ss up keys" "path_nondegenerate up" "same_shape t t5" "rt_leaf_count t = n" "1 < n" "i < n" "tree_size n"
    and path: "root n = Ok r" "direct_path i n = Ok dp" "path_ok n r (2 * i) dp cp" "\<And>k. Suc k < length dp \<Longrightarrow> sibling (dp ! k) n = Ok (cp ! Suc k)"
    and pub: "\<And>y. get_node_public_keys t5 y = path_public t i dp up y"
    and hash: "\<And>k. k < length dp \<Longrightarrow> get_node_parent_hash t5 (dp ! k) = Some (upn_parent_hash (up_nodes up ! k))"
  shows "verify_parent_hash_chain P t5 i = Ok ()"
proof -
  let ?us = "up_nodes up"
  note o = path_okD [OF path(3)]
  have ne: "dp \<noteq> []" using path_nonempty [OF assms(5,7) path(3) assms(6)] .
  have ni: "2 * i \<notin> set dp" using o(4) by force
  have m: "length ?us = length dp" "\<And>k. k < length dp \<Longrightarrow> length (upn_parent_hash (?us ! k)) = 32" "upn_parent_hash (last ?us) = zeros 32"
    "\<And>k. Suc k < length dp \<Longrightarrow> compute_parent_hash_value P t (upn_x25519_public (?us ! Suc k)) (upn_kyber_public (?us ! Suc k))
       (upn_parent_hash (?us ! Suc k)) (cp ! Suc k) = Ok (upn_parent_hash (?us ! k))" using assms(1) by (simp_all add: path_made_def)
  have n5: "rt_leaf_count t5 = n" using assms(3,4) by (simp add: same_shape_def)
  have nz: "\<not> is_all_zero (upn_parent_hash (?us ! k))" if "Suc k < length dp" for k
  proof -
    have "?us ! k \<in> set (butlast ?us)" using that m(1) by (auto simp: in_set_conv_nth nth_butlast intro!: exI [of _ k])
    then show ?thesis using assms(2) by (simp add: path_nondegenerate_def)
  qed
  have next_hash: "compute_parent_hash_value P t5 x k h (cp ! Suc j) = compute_parent_hash_value P t x k h (cp ! Suc j)" if "Suc j < length dp" for x k h j
  proof (rule parent_hash_cong [OF assms(3)])
    have c: "cp ! Suc j \<in> set cp" using that o(1) by simp
    show "tree_size (rt_leaf_count t)" "cp ! Suc j < node_count (rt_leaf_count t)" using assms(4,7) o(1,6) that by simp_all
    fix y assume "y \<in> sub (rt_leaf_count t) (cp ! Suc j)"
    then have "y \<notin> set dp" "y \<noteq> 2 * i" using o(10) c sub_self [OF leaf_node(2) [OF assms(6,7)]] assms(4) by blast+
    then show "get_node_public_keys t5 y = get_node_public_keys t y" using pub path_public_cases(3) [OF m(1) o(5) ni] by simp
  qed
  have "verify_chain P t5 r (zeros 32) (rev dp) = Ok ()"
  proof (rule verify_chain_ok [where hs = "map upn_parent_hash ?us" and us = "map (\<lambda>u. (upn_x25519_public u, upn_kyber_public u)) ?us" and cp = cp])
    show "last dp = r" using o(3) ne by simp
    show "last (map upn_parent_hash ?us) = zeros 32" using m(1,3) ne by (subst last_map) auto
  qed (use m nz next_hash hash pub path_public_cases(2) [OF m(1) o(5) ni] path(4) n5 o(5) ne in simp_all)
  with n5 assms(5) path(1,2) ne show ?thesis by (simp add: verify_parent_hash_chain_def)
qed

lemma process_update_path_ok:
  assumes P: "group_crypto_ok P" and wf: "tree_wf t'" and same: "same_public t t'" and n: "rt_leaf_count t' = n" "1 < n"
    and ij: "i < n" "j < n" "i \<noteq> j"
    and path: "root n = Ok r" "direct_path i n = Ok dp" "copath i n = Ok cp" "path_ok n r (2 * i) dp cp"
      "\<And>k. k < length dp \<Longrightarrow> sub n (dp ! k) = sub n (2 * i) \<union> set (take (Suc k) dp) \<union> (\<Union>c\<in>set (take (Suc k) cp). sub n c)"
      "\<And>k. Suc k < length dp \<Longrightarrow> sibling (dp ! k) n = Ok (cp ! Suc k)"
    and made: "path_made P t dp cp ss up keys" "key_pairs P lx (up_leaf_x25519_public up) lk (up_leaf_kyber_public up)" "path_nondegenerate up"
    and mine: "member_keys P t' j" "get_node_keys t' (2 * j) \<noteq> None"
  shows "\<exists>t''. process_update_path P up i j t' = (Ok (last ss), t'') \<and> tree_wf t'' \<and> same_shape t' t'' \<and> member_keys P t'' j \<and>
    (\<forall>y. get_node_public_keys t'' y = path_public t i dp up y)"
proof -
  have size: "tree_size n" using tree_wf_size [OF wf] n(1) by simp
  note o = path_okD [OF path(4)]
  have ne: "dp \<noteq> []" using path_nonempty [OF n(2) size path(4) ij(1)] .
  have len: "length (rt_nodes t') = node_count n" using wf n(1) by (simp add: tree_wf_def)
  have i: "2 * i < length (rt_nodes t')" "2 * i < node_count n" using leaf_node(2) [OF ij(1) size] len by simp_all
  obtain mp L where op: "direct_path j n = Ok mp" "open_update_path P t' up i j = Ok (dp, mp, L, ss ! L)" "L < length dp"
    "\<And>k. k < length dp \<Longrightarrow> dp ! k \<in> set mp \<longleftrightarrow> L \<le> k"
    using open_update_path_ok [OF P wf same n ij path(2-5) made mine] by blast
  have dp: "\<forall>y\<in>set dp. y < length (rt_nodes t') \<and> odd y" using o(4) len by simp
  then have ni: "2 * i \<notin> set dp" by force
  obtain t1 t2 t3 t4 t5 where T: "install_level P mp (ss ! L) (dp ! L) (up_nodes up ! L)
        ''X25519 public key mismatch at ancestor path level {ancestor_level}'' ''Kyber public key mismatch at ancestor path level {ancestor_level}'' t' = (Ok (), t1)"
    "install_upper P mp (ss ! L) (drop (Suc L) (zip [0..<length dp] (zip dp (up_nodes up)))) t1 = (Ok (last ss), t2)"
    "set_path_public_keys (take L (zip dp (up_nodes up))) t2 = (Ok (), t3)"
    "set_node_public_keys t3 (2 * i) (up_leaf_x25519_public up) (up_leaf_kyber_public up) = (Ok (), t4)"
    "set_path_parent_hashes (zip dp (up_nodes up)) t4 = (Ok (), t5)" "same_shape t' t5"
    and K: "\<And>k. k < length dp \<Longrightarrow> get_node_public_keys t5 (dp ! k) = Some (upn_x25519_public (up_nodes up ! k), upn_kyber_public (up_nodes up ! k))"
    "\<And>k. k < length dp \<Longrightarrow> L \<le> k \<Longrightarrow> get_node_keys t5 (dp ! k) = Some (full_keys (up_nodes up ! k) (keys ! k))"
    "get_node_public_keys t5 (2 * i) = Some (up_leaf_x25519_public up, up_leaf_kyber_public up)"
    "\<And>y. y \<notin> set dp \<and> y \<noteq> 2 * i \<Longrightarrow> get_node_keys t5 y = get_node_keys t' y"
    "\<And>k. k < length dp \<Longrightarrow> get_node_parent_hash t5 (dp ! k) = Some (upn_parent_hash (up_nodes up ! k))"
    using install_path_ok [OF made(1) o(5) dp i(1) op(3,4)] by blast
  have m: "length (up_nodes up) = length dp" "\<And>k. k < length dp \<Longrightarrow> level_ok P t (dp ! k, cp ! k, ss ! k) (up_nodes up ! k) (keys ! k)"
    using made(1) by (simp_all add: path_made_def)
  have pub: "get_node_public_keys t5 y = path_public t i dp up y" for y
  proof -
    consider k where "k < length dp" "y = dp ! k" | "y = 2 * i" | "y \<notin> set dp" "y \<noteq> 2 * i" by (metis in_set_conv_nth)
    then show ?thesis using K path_public_cases [OF m(1) o(5) ni] same by cases (simp_all add: public_of_keys same_public_def)
  qed
  have "verify_parent_hash_chain P t5 i = Ok ()"
  proof (rule path_chain_ok [OF made(1,3) _ _ n(2) ij(1) size path(1,2,4,6) pub K(5)])
    show "same_shape t t5" "rt_leaf_count t = n" using same T(6) n(1) by (simp_all add: same_public_def same_shape_def)
  qed
  then have "process_update_path P up i j t' = (Ok (last ss), t5)"
    using op(2) T leaf_node(1) [OF ij(1) size] by (simp add: process_update_path_def)
  moreover have "tree_wf t5"
  proof (rule same_shape_wf [OF wf T(6)])
    fix y assume y: "get_node_keys t' y \<noteq> None"
    consider k where "k < length dp" "y = dp ! k" | "y = 2 * i" | "y \<notin> set dp" "y \<noteq> 2 * i" by (metis in_set_conv_nth)
    then show "get_node_keys t5 y \<noteq> None" using K(1,3,4) y by cases (auto simp: public_of_keys)
  qed
  moreover have "member_keys P t5 j"
    unfolding member_keys_def
  proof (intro allI impI, elim conjE)
    fix y nk assume y: "y < node_count (rt_leaf_count t5)" "2 * j \<in> sub (rt_leaf_count t5) y" "get_node_keys t5 y = Some nk"
    have n5: "rt_leaf_count t5 = n" using T(6) n(1) by (simp add: same_shape_def)
    have "y \<noteq> 2 * i" using y(2) n5 sub_leaf [OF _ i(2)] ij(3) by auto
    moreover have "y = 2 * j \<or> y \<in> set mp" using on_path_iff [OF ij(2) size op(1), of y] y(1,2) n5 by simp
    ultimately consider k where "k < length dp" "y = dp ! k" "L \<le> k" | "y \<notin> set dp" "y \<noteq> 2 * i"
      using dp op(4) by (metis dvd_triv_left in_set_conv_nth)
    then show "\<exists>xs ks. nk_x25519_private nk = Some xs \<and> nk_kyber_secret nk = Some ks \<and> key_pairs P xs (nk_x25519_public nk) ks (nk_kyber_public nk)"
    proof cases
      case 1
      then have "nk = full_keys (up_nodes up ! k) (keys ! k)" using K(2) y(3) by simp
      with level_ok_keys [OF m(2) [OF 1(1)]] show ?thesis by (auto simp: full_keys_def)
    next
      case 2
      then have "get_node_keys t' y = Some nk" using K(4) y(3) by simp
      with mine(1) y(1,2) n5 n(1) show ?thesis unfolding member_keys_def by simp
    qed
  qed
  ultimately show ?thesis using T(6) pub by blast
qed

section \<open>Agreement\<close>

text \<open>C3. TreeKEM: if the committer and another member have the same public tree, the keys in it were
  generated, and the member holds the private keys of the nodes above its leaf, then creating an update path
  succeeds, and, unless a key or hash in it is all zero, the member processes it to the same commit
  secret. Its tree then has the committer's new public keys along the committer's path and is otherwise
  as before, and it again holds the private keys of all nodes above its leaf.\<close>

theorem update_path_agrees:
  assumes "group_crypto_ok P" "tree_wf t \<and> tree_wf t' \<and> same_public t t'" "keys_generated P t" "path_draws_ok P d"
    and "1 < rt_leaf_count t" "i < rt_leaf_count t" "j < rt_leaf_count t" "i \<noteq> j"
    and "member_keys P t' j" "get_node_keys t' (2 * j) \<noteq> None"
  shows "\<exists>up secret keys dp. create_update_path P t i d = Ok (up, secret, keys) \<and> direct_path i (rt_leaf_count t) = Ok dp \<and>
    (path_nondegenerate up \<longrightarrow> (\<exists>t''. process_update_path P up i j t' = (Ok secret, t'') \<and> tree_wf t'' \<and> member_keys P t'' j \<and>
       rt_leaves t'' = rt_leaves t' \<and> (\<forall>y. get_node_public_keys t'' y = path_public t i dp up y)))"
proof -
  have wf: "tree_wf t" "tree_wf t'" "same_public t t'" "rt_leaf_count t' = rt_leaf_count t" using assms(2) by (simp_all add: same_public_def same_shape_def)
  obtain r dp cp where path: "root (rt_leaf_count t) = Ok r" "direct_path i (rt_leaf_count t) = Ok dp" "copath i (rt_leaf_count t) = Ok cp"
    "path_ok (rt_leaf_count t) r (2 * i) dp cp"
    "\<And>k. k < length dp \<Longrightarrow> sub (rt_leaf_count t) (dp ! k) =
       sub (rt_leaf_count t) (2 * i) \<union> set (take (Suc k) dp) \<union> (\<Union>c\<in>set (take (Suc k) cp). sub (rt_leaf_count t) c)"
    "\<And>k. Suc k < length dp \<Longrightarrow> sibling (dp ! k) (rt_leaf_count t) = Ok (cp ! Suc k)"
    using leaf_path [OF assms(6) tree_wf_size [OF wf(1)]] by blast
  obtain up ss keys lx lk where made: "create_update_path P t i d = Ok (up, last ss, (2 * i, lx, lk) # keys)" "path_made P t dp cp ss up keys"
    "key_pairs P lx (up_leaf_x25519_public up) lk (up_leaf_kyber_public up)"
    using create_update_path_ok [OF assms(1) wf(1) assms(3-6) path(1-4,6)] by blast
  have "\<exists>t''. process_update_path P up i j t' = (Ok (last ss), t'') \<and> tree_wf t'' \<and> same_shape t' t'' \<and> member_keys P t'' j \<and>
      (\<forall>y. get_node_public_keys t'' y = path_public t i dp up y)" if "path_nondegenerate up"
    by (rule process_update_path_ok [OF assms(1) wf(2-4) assms(5-8) path made(2,3) that assms(9,10)])
  then show ?thesis using made(1) path(2) unfolding same_shape_def by blast
qed

text \<open>An example with two members.\<close>

definition sample_node :: "bytes \<Rightarrow> bool \<Rightarrow> tree_node_content" where
  "sample_node s priv = Populated \<lparr> nk_x25519_public = x25519_public sample_prims s, nk_kyber_public = fill 1184 [1],
     nk_x25519_private = (if priv then Some s else None), nk_kyber_secret = (if priv then Some (fill 64 s) else None) \<rparr> (zeros 32)"

definition sample_pair :: "bool \<Rightarrow> ratchet_tree" where
  "sample_pair second = \<lparr> rt_nodes = [sample_node (replicate 32 1) (\<not> second), Blank, sample_node (replicate 32 2) second],
     rt_leaves = [None, None], rt_leaf_count = 2 \<rparr>"

definition sample_path_draws :: path_draws where
  "sample_path_draws = \<lparr> pd_commit_secret = zeros 32, pd_leaf_x25519 = replicate 32 3, pd_leaf_kyber = replicate 32 4, pd_leaf_kyber_test = [],
     pd_path_secret = replicate 32 5, pd_hybrid = (\<lambda>_ _. \<lparr> hyd_x25519 = replicate 32 6, hyd_encaps = [7], hyd_nonce = replicate 12 8 \<rparr>) \<rparr>"

lemma sample_group_crypto_ok: "group_crypto_ok sample_prims"
  by (simp add: group_crypto_ok_def sample_ok sample_x25519_keys_ok)

lemma sample_kem_pair: "kem_pair sample_prims ks kp \<longleftrightarrow> (\<exists>s. ks = fill 64 s) \<and> kp = fill 1184 [1]"
  by (auto simp: kem_pair_def sample_prims_def)

lemma fill_nonzero: "0 < n \<Longrightarrow> \<not> list_all (\<lambda>b. b = 0) (fill n (1 # bs))"
  by (cases n) (simp_all add: fill_def)

lemma sample_key_pairs: "length s = 32 \<Longrightarrow> key_pairs sample_prims s (x25519_public sample_prims s) (fill 64 s) (fill 1184 [1])"
  by (auto simp: key_pairs_def sample_kem_pair)

lemma sample_pair_keys:
  "get_node_keys (sample_pair b) y = (if y = 0 then Some \<lparr> nk_x25519_public = x25519_public sample_prims (replicate 32 1), nk_kyber_public = fill 1184 [1],
       nk_x25519_private = (if b then None else Some (replicate 32 1)), nk_kyber_secret = (if b then None else Some (fill 64 (replicate 32 1))) \<rparr>
     else if y = 2 then Some \<lparr> nk_x25519_public = x25519_public sample_prims (replicate 32 2), nk_kyber_public = fill 1184 [1],
       nk_x25519_private = (if b then Some (replicate 32 2) else None), nk_kyber_secret = (if b then Some (fill 64 (replicate 32 2)) else None) \<rparr>
     else None)"
proof -
  consider "y = 0" | "y = 1" | "y = 2" | "3 \<le> y" by linarith
  then show ?thesis by cases (simp_all add: get_node_keys_def get_nth_def sample_pair_def sample_node_def)
qed

lemma sample_pair_count [simp]: "rt_leaf_count (sample_pair b) = 2"
  by (simp add: sample_pair_def)

lemma sample_pair_ok:
  "tree_wf (sample_pair b)" "same_public (sample_pair False) (sample_pair True)" "keys_generated sample_prims (sample_pair b)"
  "path_draws_ok sample_prims sample_path_draws" "member_keys sample_prims (sample_pair True) 1"
proof -
  show "tree_wf (sample_pair b)" by (simp add: tree_wf_def sample_pair_def node_count_def less_2_cases_iff)
  show "same_public (sample_pair False) (sample_pair True)"
    by (simp add: same_public_def same_shape_def public_of_keys sample_pair_keys) (simp add: sample_pair_def)
  have "\<exists>xs ks. key_pairs sample_prims xs (x25519_public sample_prims (replicate 32 c)) ks (fill 1184 [1])" for c
    using sample_key_pairs [of "replicate 32 c"] by auto
  then show "keys_generated sample_prims (sample_pair b)" by (simp add: keys_generated_def sample_pair_keys split: if_splits)
  have "fst (mlkem_encaps sample_prims kp [7]) = fill 1088 (7 # zeros 31)" for kp by (simp add: sample_prims_def fill_def zeros_def)
  moreover have "\<not> list_all (\<lambda>b. b = 0) (fill 1088 (7 # zeros 31))" by (simp add: fill_def)
  ultimately show "path_draws_ok sample_prims sample_path_draws" by (simp add: path_draws_ok_def hybrid_draws_ok_def sample_path_draws_def)
  have "2 \<notin> sub 2 0" using sub_leaf [of 0 2] by (simp add: node_count_def)
  then show "member_keys sample_prims (sample_pair True) 1"
    using sample_key_pairs [of "replicate 32 2"] by (auto simp: member_keys_def sample_pair_keys split: if_splits)
qed

theorem update_path_agrees_witness:
  "\<exists>up secret keys t''. create_update_path sample_prims (sample_pair False) 0 sample_path_draws = Ok (up, secret, keys) \<and>
     process_update_path sample_prims up 0 1 (sample_pair True) = (Ok secret, t'')"
proof -
  let ?t = "sample_pair False"
  have n: "(0 :: nat) < 2" "tree_size 2" by simp_all
  obtain r dp cp where path: "root 2 = Ok r" "direct_path 0 2 = Ok dp" "copath 0 2 = Ok cp" "path_ok 2 r (2 * 0) dp cp"
    "\<And>k. k < length dp \<Longrightarrow> sub 2 (dp ! k) = sub 2 (2 * 0) \<union> set (take (Suc k) dp) \<union> (\<Union>c\<in>set (take (Suc k) cp). sub 2 c)"
    "\<And>k. Suc k < length dp \<Longrightarrow> sibling (dp ! k) 2 = Ok (cp ! Suc k)" by (rule leaf_path [OF n]) (rule that)
  obtain up ss keys lx lk where made: "create_update_path sample_prims ?t 0 sample_path_draws = Ok (up, last ss, (0, lx, lk) # keys)"
    "path_made sample_prims ?t dp cp ss up keys" "key_pairs sample_prims lx (up_leaf_x25519_public up) lk (up_leaf_kyber_public up)"
    using create_update_path_ok [OF sample_group_crypto_ok sample_pair_ok(1) [of False] sample_pair_ok(3,4), unfolded sample_pair_count, OF _ n(1) path(1-4,6)] by auto
  have "root 2 = Ok 1" by (simp add: root_eval)
  then have "level r = 1" using path(1) by (simp add: level_odd)
  then have "length dp = 1" using path_okD(2) [OF path(4)] path_nonempty [OF _ n(2) path(4) n(1)] by (cases dp) auto
  then have len: "length (up_nodes up) = 1" "level_ok sample_prims ?t (dp ! 0, cp ! 0, ss ! 0) (up_nodes up ! 0) (keys ! 0)"
    using made(2) by (simp_all add: path_made_def)
  then obtain u where u: "up_nodes up = [u]" by (cases "up_nodes up") auto
  have kp: "\<not> list_all (\<lambda>b. b = 0) kp" if "key_pairs sample_prims xs xp ks kp" for xs xp ks kp
  proof -
    have "kp = fill 1184 [1]" using that unfolding key_pairs_def sample_kem_pair by blast
    then show ?thesis using fill_nonzero [of 1184 "[]"] by simp
  qed
  obtain xs ks where "key_pairs sample_prims xs (upn_x25519_public u) ks (upn_kyber_public u)" using level_ok_keys [OF len(2)] u by auto
  with kp made(3) have "path_nondegenerate up" by (simp add: path_nondegenerate_def u)
  moreover have "get_node_keys (sample_pair True) (2 * 1) \<noteq> None" by (simp add: sample_pair_keys)
  from update_path_agrees [OF sample_group_crypto_ok _ sample_pair_ok(3,4) _ _ _ _ sample_pair_ok(5) this, of False 0]
  obtain up' secret keys' where "create_update_path sample_prims ?t 0 sample_path_draws = Ok (up', secret, keys')"
    "path_nondegenerate up' \<Longrightarrow> \<exists>t''. process_update_path sample_prims up' 0 1 (sample_pair True) = (Ok secret, t'')"
    using sample_pair_ok(1,2) by auto
  ultimately show ?thesis using made(1) by auto
qed

end
