(* ===== verification/Proto_State.thy ===== *)
theory Proto_State
  imports Core Proto_Group
begin

text \<open>
  The messages of \<^verbatim>\<open>proto/protocol/state.proto\<close>, \<^verbatim>\<open>envelope.proto\<close> and
  \<^verbatim>\<open>sealed_state.proto\<close> that a session builds, reads and stores, as records: an absent field is
  an \<open>option\<close>, a repeated field a list. The encoders and decoders are generated by the build, so
  they are the fields of the parameter \<open>codec\<close>; \<open>codec_ok\<close> is the round trip that the wire
  format promises.
\<close>

section \<open>Session state\<close>

record cached_message_key =
  cmk_message_index :: nat
  cmk_message_key :: bytes
  cmk_epoch :: nat

record cached_metadata_key =
  cdk_epoch :: nat
  cdk_metadata_key :: bytes

record chain_state =
  cs_message_index :: nat
  cs_chain_key :: bytes
  cs_skipped_message_keys :: "cached_message_key list"

record dh_key_pair =
  dkp_private_key :: bytes
  dkp_public_key :: bytes

record kyber_key_pair =
  kkp_secret_key :: bytes
  kkp_public_key :: bytes

record nonce_state_proto =
  nsp_prefix :: bytes
  nsp_counter :: nat

record protocol_state =
  ps_version :: nat
  ps_is_initiator :: bool
  ps_created_at :: "timestamp option"
  ps_session_id :: bytes
  ps_state_counter :: nat
  ps_send_ratchet_epoch :: nat
  ps_recv_ratchet_epoch :: nat
  ps_root_key :: bytes
  ps_send_chain :: "chain_state option"
  ps_recv_chain :: "chain_state option"
  ps_dh_local :: "dh_key_pair option"
  ps_dh_remote_public :: bytes
  ps_dh_local_initial_public :: bytes
  ps_dh_remote_initial_public :: bytes
  ps_metadata_key :: bytes
  ps_kyber_local :: "kyber_key_pair option"
  ps_kyber_remote_public :: bytes
  ps_nonce_generator :: "nonce_state_proto option"
  ps_state_hmac :: bytes
  ps_max_messages_per_chain :: nat
  ps_max_nonce_counter :: nat
  ps_local_identity_ed25519_public :: bytes
  ps_local_identity_x25519_public :: bytes
  ps_peer_identity_ed25519_public :: bytes
  ps_peer_identity_x25519_public :: bytes
  ps_identity_binding_hash :: bytes
  ps_replay_epoch :: nat
  ps_seen_payload_nonces :: "bytes list"
  ps_send_ratchet_pending :: bool
  ps_skipped_keys :: "cached_message_key list"
  ps_cached_metadata_keys :: "cached_metadata_key list"
  ps_send_metadata_key :: bytes
  ps_device_id :: "bytes option"
  ps_session_ttl_seconds :: "nat option"
  ps_last_activity_unix :: "nat option"
  ps_total_messages_sent :: nat
  ps_total_messages_received :: nat

section \<open>Envelopes\<close>

record secure_envelope =
  se_version :: nat
  se_encrypted_metadata :: bytes
  se_encrypted_payload :: bytes
  se_header_nonce :: bytes
  se_ratchet_epoch :: nat
  se_dh_public_key :: "bytes option"
  se_kyber_ciphertext :: "bytes option"
  se_sent_at :: "timestamp option"
  se_new_kyber_public :: "bytes option"
  se_previous_chain_length :: "nat option"

record envelope_metadata =
  em_message_index :: nat
  em_payload_nonce :: bytes
  em_envelope_type :: int
  em_envelope_id :: nat
  em_correlation_id :: "string option"

record sealed_state =
  ss_version :: nat
  ss_dek_nonce :: bytes
  ss_state_nonce :: bytes
  ss_encrypted_dek :: bytes
  ss_encrypted_state :: bytes
  ss_external_counter :: nat

section \<open>Encoding\<close>

text \<open>The generated encoders and decoders. An encoder reports an error only when the output
  buffer cannot grow.\<close>

record codec =
  encode_metadata :: "envelope_metadata \<Rightarrow> bytes option"
  decode_metadata :: "bytes \<Rightarrow> envelope_metadata option"
  encode_state :: "protocol_state \<Rightarrow> bytes option"
  decode_state :: "bytes \<Rightarrow> protocol_state option"
  encode_sealed :: "sealed_state \<Rightarrow> bytes option"
  decode_sealed :: "bytes \<Rightarrow> sealed_state option"

text \<open>A message that was encoded is decoded to itself. The metadata of an envelope takes at most 64 bytes
  for its integers and its nonce, and its correlation id at most twice its length.\<close>

definition metadata_bounded :: "envelope_metadata \<Rightarrow> bool" where
  "metadata_bounded m \<longleftrightarrow> em_message_index m \<le> u64_max \<and> length (em_payload_nonce m) \<le> 12 \<and>
     - (2 ^ 31) \<le> em_envelope_type m \<and> em_envelope_type m < 2 ^ 31 \<and> em_envelope_id m \<le> u32_max"

definition correlation_size :: "string option \<Rightarrow> nat" where
  "correlation_size c = (case c of None \<Rightarrow> 0 | Some s \<Rightarrow> length s)"

definition codec_ok :: "codec \<Rightarrow> bool" where
  "codec_ok C \<longleftrightarrow>
     (\<forall>m. \<exists>b. encode_metadata C m = Some b \<and> decode_metadata C b = Some m \<and>
        (metadata_bounded m \<longrightarrow> length b \<le> 64 + 2 * correlation_size (em_correlation_id m))) \<and>
     (\<forall>s. \<exists>b. encode_state C s = Some b \<and> decode_state C b = Some s) \<and>
     (\<forall>s. \<exists>b. encode_sealed C s = Some b \<and> decode_sealed C b = Some s)"

end
