(* ===== verification/Session_State.thy ===== *)
theory Session_State
  imports Proto_State Crypto Dh_Validator Nonce BTree_Map
begin

text \<open>
  The state of a session (\<^verbatim>\<open>protocol/session.rs\<close>): key derivation, associated data, nonce state
  and clock helpers, the construction of the protocol state, and the bounded caches of skipped message
  keys, old metadata keys and seen nonces. The clock of a call is the sequence of its readings; an
  event handler, when one is installed, is the list of the notifications it received.
\<close>

section \<open>Key derivation\<close>

definition compute_state_hmac :: "prims \<Rightarrow> bytes \<Rightarrow> bytes \<Rightarrow> bytes pres" where
  "compute_state_hmac P root_key serialized_state =
     res_bind (derive_key_bytes P root_key HMAC_BYTES [] STATE_HMAC_INFO) (\<lambda>hmac_key.
       ok_or (Handshake ''HMAC-SHA256 init failed'') (hmac_sha256 P hmac_key serialized_state))"

text \<open>The order of byte vectors: lexicographic, a proper prefix first.\<close>

fun vec_less :: "bytes \<Rightarrow> bytes \<Rightarrow> bool" where
  "vec_less _ [] = False"
| "vec_less [] (_ # _) = True"
| "vec_less (x # xs) (y # ys) = (x < y \<or> x = y \<and> vec_less xs ys)"

definition sorted_pair :: "bytes \<Rightarrow> bytes \<Rightarrow> bytes" where
  "sorted_pair a b = (if vec_less b a then b @ a else a @ b)"

definition compute_identity_binding_hash :: "prims \<Rightarrow> bytes \<Rightarrow> bytes \<Rightarrow> bytes \<Rightarrow> bytes \<Rightarrow> bytes pres" where
  "compute_identity_binding_hash P local_ed25519 local_x25519 peer_ed25519 peer_x25519 =
     (if length local_ed25519 \<noteq> ED25519_PUBLIC_KEY_BYTES \<or> length peer_ed25519 \<noteq> ED25519_PUBLIC_KEY_BYTES then
        Err (InvalidInput ''Invalid Ed25519 identity key sizes for binding'')
      else if length local_x25519 \<noteq> X25519_PUBLIC_KEY_BYTES \<or> length peer_x25519 \<noteq> X25519_PUBLIC_KEY_BYTES then
        Err (InvalidInput ''Invalid X25519 identity key sizes for binding'')
      else Ok (sha256 P (IDENTITY_BINDING_INFO @ sorted_pair local_ed25519 peer_ed25519
                          @ sorted_pair local_x25519 peer_x25519)))"

definition derive_message_and_chain_key :: "prims \<Rightarrow> bytes \<Rightarrow> (bytes \<times> bytes) pres" where
  "derive_message_and_chain_key P chain_key =
     res_bind (derive_key_bytes P chain_key MESSAGE_KEY_BYTES [] MESSAGE_INFO) (\<lambda>message_key.
     res_bind (derive_key_bytes P chain_key CHAIN_KEY_BYTES [] CHAIN_INFO) (\<lambda>next_chain_key.
       Ok (message_key, next_chain_key)))"

section \<open>Associated data\<close>

definition previous_chain_length_aad :: "nat option \<Rightarrow> bytes" where
  "previous_chain_length_aad pcl = (case pcl of Some value \<Rightarrow> 1 # le_bytes 8 value | None \<Rightarrow> zeros 9)"

definition build_metadata_aad :: "protocol_state \<Rightarrow> nat \<Rightarrow> nat option \<Rightarrow> bytes pres" where
  "build_metadata_aad state ratchet_epoch pcl =
     (if length (ps_session_id state) \<noteq> SESSION_ID_BYTES then Err (InvalidInput ''Invalid session id size'')
      else if length (ps_identity_binding_hash state) \<noteq> IDENTITY_BINDING_HASH_BYTES then
        Err (InvalidInput ''Invalid identity binding hash size'')
      else Ok (ps_session_id state @ ps_identity_binding_hash state @ le_bytes 8 ratchet_epoch
               @ le_bytes 4 PROTOCOL_VERSION @ previous_chain_length_aad pcl))"

definition build_payload_aad :: "protocol_state \<Rightarrow> nat \<Rightarrow> nat \<Rightarrow> nat option \<Rightarrow> bytes pres" where
  "build_payload_aad state ratchet_epoch message_index pcl =
     (if length (ps_session_id state) \<noteq> SESSION_ID_BYTES then Err (InvalidInput ''Invalid session id size'')
      else if length (ps_identity_binding_hash state) \<noteq> IDENTITY_BINDING_HASH_BYTES then
        Err (InvalidInput ''Invalid identity binding hash size'')
      else Ok (ps_session_id state @ ps_identity_binding_hash state @ le_bytes 8 ratchet_epoch
               @ le_bytes 8 message_index @ le_bytes 4 PROTOCOL_VERSION @ previous_chain_length_aad pcl))"

section \<open>Nonce state\<close>

definition extract_nonce_index :: "bytes \<Rightarrow> nat pres" where
  "extract_nonce_index nonce =
     (if length nonce \<noteq> AES_GCM_NONCE_BYTES then Err (InvalidInput ''Invalid nonce size'')
      else let offset = NONCE_PREFIX_BYTES + NONCE_COUNTER_BYTES
           in Ok (le_value [nonce ! offset, nonce ! (offset + 1)]))"

definition state_nonce_limit :: "protocol_state \<Rightarrow> nat" where
  "state_nonce_limit state = (if ps_max_nonce_counter state = 0 then MAX_NONCE_COUNTER else ps_max_nonce_counter state)"

definition load_nonce_generator :: "protocol_state \<Rightarrow> nonce_generator pres" where
  "load_nonce_generator state =
     res_bind (ok_or (InvalidInput ''Missing nonce generator state'') (ps_nonce_generator state)) (\<lambda>ng.
       if length (nsp_prefix ng) \<noteq> NONCE_PREFIX_BYTES then Err (InvalidInput ''Invalid nonce prefix size'')
       else res_bind (nonce_state_new (nsp_prefix ng) (nsp_counter ng)) (\<lambda>ns.
              from_state_with_limit ns (state_nonce_limit state)))"

definition store_nonce_state :: "protocol_state \<Rightarrow> nonce_state \<Rightarrow> protocol_state" where
  "store_nonce_state state ns =
     state\<lparr> ps_nonce_generator := Some \<lparr> nsp_prefix = ns_prefix ns, nsp_counter = ns_counter ns \<rparr> \<rparr>"

definition effective_chain_nonce_budget :: "protocol_state \<Rightarrow> nat" where
  "effective_chain_nonce_budget state =
     (if ps_max_messages_per_chain state = 0 then state_nonce_limit state
      else min (state_nonce_limit state) (ps_max_messages_per_chain state))"

definition reset_nonce_generator :: "protocol_state \<Rightarrow> bytes \<Rightarrow> unit pres \<times> protocol_state" where
  "reset_nonce_generator state random =
     (case create_with_limit (state_nonce_limit state) random of
        Err e \<Rightarrow> (Err e, state)
      | Ok ng \<Rightarrow> (Ok (), store_nonce_state state (export_state ng)))"

section \<open>Time\<close>

type_synonym clock = "nat \<Rightarrow> nat pres"

definition timestamp_from_unix_secs :: "nat \<Rightarrow> timestamp pres" where
  "timestamp_from_unix_secs unix_secs =
     (if unix_secs > 9223372036854775807 then Err (InvalidState ''Unix timestamp exceeds i64 range'')
      else Ok (int unix_secs, 0))"

text \<open>\<open>created.seconds as u64\<close> reinterprets a negative number of seconds.\<close>

definition seconds_as_u64 :: "timestamp \<Rightarrow> nat" where
  "seconds_as_u64 t = nat (fst t mod 18446744073709551616)"

definition check_inner_expired :: "protocol_state \<Rightarrow> nat pres \<Rightarrow> bool pres" where
  "check_inner_expired state now_reading =
     (case ps_session_ttl_seconds state of
        None \<Rightarrow> Ok False
      | Some ttl \<Rightarrow>
          res_bind now_reading (\<lambda>now.
            if (case ps_last_activity_unix state of Some last_seen \<Rightarrow> now - last_seen > ttl | None \<Rightarrow> False) then Ok True
            else if (case ps_created_at state of Some created \<Rightarrow> now - seconds_as_u64 created > ttl | None \<Rightarrow> False)
            then Ok True
            else Ok False))"

section \<open>Wiping\<close>

definition wipe_chain :: "chain_state \<Rightarrow> chain_state" where
  "wipe_chain chain = chain\<lparr> cs_chain_key := secure_wipe (cs_chain_key chain),
     cs_skipped_message_keys :=
       map (\<lambda>cached. cached\<lparr> cmk_message_key := secure_wipe (cmk_message_key cached) \<rparr>) (cs_skipped_message_keys chain) \<rparr>"

definition wipe_dh :: "dh_key_pair \<Rightarrow> dh_key_pair" where
  "wipe_dh dh = dh\<lparr> dkp_private_key := secure_wipe (dkp_private_key dh) \<rparr>"

definition wipe_kyber :: "kyber_key_pair \<Rightarrow> kyber_key_pair" where
  "wipe_kyber kyber = kyber\<lparr> kkp_secret_key := secure_wipe (kkp_secret_key kyber) \<rparr>"

definition wipe_protocol_state_keys :: "protocol_state \<Rightarrow> protocol_state" where
  "wipe_protocol_state_keys state = state\<lparr>
     ps_root_key := secure_wipe (ps_root_key state),
     ps_metadata_key := secure_wipe (ps_metadata_key state),
     ps_send_metadata_key := secure_wipe (ps_send_metadata_key state),
     ps_dh_local := map_option wipe_dh (ps_dh_local state),
     ps_kyber_local := map_option wipe_kyber (ps_kyber_local state),
     ps_send_chain := map_option wipe_chain (ps_send_chain state),
     ps_recv_chain := map_option wipe_chain (ps_recv_chain state),
     ps_skipped_keys :=
       map (\<lambda>cached. cached\<lparr> cmk_message_key := secure_wipe (cmk_message_key cached) \<rparr>) (ps_skipped_keys state),
     ps_cached_metadata_keys :=
       map (\<lambda>cached. cached\<lparr> cdk_metadata_key := secure_wipe (cdk_metadata_key cached) \<rparr>) (ps_cached_metadata_keys state),
     ps_state_hmac := secure_wipe (ps_state_hmac state) \<rparr>"

section \<open>The protocol state after a handshake\<close>

definition empty_chain :: chain_state where
  "empty_chain = \<lparr> cs_message_index = 0, cs_chain_key = [], cs_skipped_message_keys = [] \<rparr>"

definition build_protocol_state ::
    "prims \<Rightarrow> bool \<Rightarrow> bytes \<Rightarrow> bytes \<Rightarrow> bytes \<Rightarrow> bytes \<Rightarrow> bytes \<Rightarrow> bytes \<Rightarrow> bytes \<Rightarrow> bytes \<Rightarrow> bytes \<Rightarrow> bytes \<Rightarrow> bytes
      \<Rightarrow> nat \<Rightarrow> nat \<Rightarrow> nonce_state \<Rightarrow> nat \<Rightarrow> bytes \<Rightarrow> bytes \<Rightarrow> bytes \<Rightarrow> bytes \<Rightarrow> protocol_state pres" where
  "build_protocol_state P initiator root_key session_id metadata_key dh_local_private dh_local_public
       dh_remote_public initial_self_public initial_peer_public kyber_secret kyber_public peer_kyber_public
       max_messages_per_chain max_nonce_counter nonce_gen created_at_unix
       local_identity_ed25519 local_identity_x25519 peer_identity_ed25519 peer_identity_x25519 =
     (if length root_key \<noteq> ROOT_KEY_BYTES \<or> length session_id \<noteq> SESSION_ID_BYTES \<or>
         length metadata_key \<noteq> METADATA_KEY_BYTES then
        Err (InvalidInput ''Invalid root/session/metadata key sizes'')
      else if length dh_local_private \<noteq> X25519_PRIVATE_KEY_BYTES \<or> length dh_local_public \<noteq> X25519_PUBLIC_KEY_BYTES \<or>
         length dh_remote_public \<noteq> X25519_PUBLIC_KEY_BYTES \<or> length initial_self_public \<noteq> X25519_PUBLIC_KEY_BYTES \<or>
         length initial_peer_public \<noteq> X25519_PUBLIC_KEY_BYTES then
        Err (InvalidInput ''Invalid DH key sizes'')
      else if length kyber_secret \<noteq> KYBER_SECRET_KEY_BYTES \<or> length kyber_public \<noteq> KYBER_PUBLIC_KEY_BYTES \<or>
         length peer_kyber_public \<noteq> KYBER_PUBLIC_KEY_BYTES then
        Err (InvalidInput ''Invalid Kyber key sizes'')
      else if length local_identity_ed25519 \<noteq> ED25519_PUBLIC_KEY_BYTES \<or>
         length local_identity_x25519 \<noteq> X25519_PUBLIC_KEY_BYTES \<or>
         length peer_identity_ed25519 \<noteq> ED25519_PUBLIC_KEY_BYTES \<or>
         length peer_identity_x25519 \<noteq> X25519_PUBLIC_KEY_BYTES then
        Err (InvalidInput ''Invalid identity key sizes'')
      else
        res_bind (map_err (\<lambda>_. InvalidInput ''Local X25519 identity key validation failed'')
                    (validate_x25519_public_key local_identity_x25519)) (\<lambda>_.
        res_bind (map_err (\<lambda>_. InvalidInput ''Peer X25519 identity key validation failed'')
                    (validate_x25519_public_key peer_identity_x25519)) (\<lambda>_.
          if is_all_zero local_identity_ed25519 then
            Err (InvalidInput ''Local Ed25519 identity key is all zeros'')
          else if is_all_zero peer_identity_ed25519 then
            Err (InvalidInput ''Peer Ed25519 identity key is all zeros'')
          else if max_messages_per_chain = 0 \<or> max_messages_per_chain > MAX_MESSAGES_PER_CHAIN then
            Err (InvalidInput ''Invalid max messages per chain'')
          else if max_nonce_counter = 0 \<or> max_nonce_counter > MAX_NONCE_COUNTER then
            Err (InvalidInput ''Invalid max nonce counter (must be 1..=65535)'')
          else
            res_bind (compute_identity_binding_hash P local_identity_ed25519 local_identity_x25519
                        peer_identity_ed25519 peer_identity_x25519) (\<lambda>identity_binding.
            res_bind (timestamp_from_unix_secs created_at_unix) (\<lambda>created_at.
              Ok \<lparr> ps_version = PROTOCOL_VERSION, ps_is_initiator = initiator, ps_created_at = Some created_at,
                   ps_session_id = session_id, ps_state_counter = 0, ps_send_ratchet_epoch = 0,
                   ps_recv_ratchet_epoch = 0, ps_root_key = root_key, ps_send_chain = Some empty_chain,
                   ps_recv_chain = Some empty_chain,
                   ps_dh_local = Some \<lparr> dkp_private_key = dh_local_private, dkp_public_key = dh_local_public \<rparr>,
                   ps_dh_remote_public = dh_remote_public, ps_dh_local_initial_public = initial_self_public,
                   ps_dh_remote_initial_public = initial_peer_public, ps_metadata_key = metadata_key,
                   ps_kyber_local = Some \<lparr> kkp_secret_key = kyber_secret, kkp_public_key = kyber_public \<rparr>,
                   ps_kyber_remote_public = peer_kyber_public,
                   ps_nonce_generator = Some \<lparr> nsp_prefix = ns_prefix nonce_gen, nsp_counter = ns_counter nonce_gen \<rparr>,
                   ps_state_hmac = [], ps_max_messages_per_chain = max_messages_per_chain,
                   ps_max_nonce_counter = max_nonce_counter,
                   ps_local_identity_ed25519_public = local_identity_ed25519,
                   ps_local_identity_x25519_public = local_identity_x25519,
                   ps_peer_identity_ed25519_public = peer_identity_ed25519,
                   ps_peer_identity_x25519_public = peer_identity_x25519,
                   ps_identity_binding_hash = identity_binding, ps_replay_epoch = 0, ps_seen_payload_nonces = [],
                   ps_send_ratchet_pending = False, ps_skipped_keys = [], ps_cached_metadata_keys = [],
                   ps_send_metadata_key = metadata_key, ps_device_id = None, ps_session_ttl_seconds = None,
                   ps_last_activity_unix = None, ps_total_messages_sent = 0, ps_total_messages_received = 0 \<rparr>)))))"

section \<open>The session\<close>

datatype session_event =
    NonceExhaustionWarning nat nat
  | RatchetStallingWarning nat

record session_inner =
  si_state :: protocol_state
  si_pending_kyber_shared_secret :: bytes
  si_skipped_message_keys :: "(nat \<times> nat, bytes) btree"
  si_cached_metadata_keys :: "(nat, bytes) btree"
  si_replay_epoch :: nat
  si_seen_payload_nonces :: "bytes set"
  si_seen_payload_nonce_order :: "bytes list"
  si_is_initiator :: bool
  si_dh_private_handle :: "handle option"
  si_kyber_secret_handle :: "handle option"
  si_send_ratchet_pending :: bool
  si_event_handler :: "session_event list option"
  si_messages_since_last_dh_ratchet :: nat

definition notify :: "session_event \<Rightarrow> session_inner \<Rightarrow> session_inner" where
  "notify ev inner = inner\<lparr> si_event_handler := map_option (\<lambda>log. log @ [ev]) (si_event_handler inner) \<rparr>"

definition map_state :: "(protocol_state \<Rightarrow> protocol_state) \<Rightarrow> session_inner \<Rightarrow> session_inner" where
  "map_state f inner = inner\<lparr> si_state := f (si_state inner) \<rparr>"

text \<open>Moving the secret halves of the local key pairs into locked memory.\<close>

definition lock_dh_private :: "prims \<Rightarrow> protocol_state \<Rightarrow> (protocol_state \<times> handle option) pres" where
  "lock_dh_private P state =
     (case ps_dh_local state of
        None \<Rightarrow> Ok (state, None)
      | Some dh \<Rightarrow>
          if dkp_private_key dh = [] then Ok (state, None)
          else res_bind (map_err CryptoErr (new_handle P X25519_PRIVATE_KEY_BYTES (dkp_private_key dh))) (\<lambda>handle.
                 Ok (state\<lparr> ps_dh_local := Some (dh\<lparr> dkp_private_key := zeros X25519_PRIVATE_KEY_BYTES \<rparr>) \<rparr>,
                     Some handle)))"

definition lock_kyber_secret :: "prims \<Rightarrow> protocol_state \<Rightarrow> (protocol_state \<times> handle option) pres" where
  "lock_kyber_secret P state =
     (case ps_kyber_local state of
        None \<Rightarrow> Ok (state, None)
      | Some kyber \<Rightarrow>
          if kkp_secret_key kyber = [] then Ok (state, None)
          else res_bind (map_err CryptoErr (new_handle P KYBER_SECRET_KEY_BYTES (kkp_secret_key kyber))) (\<lambda>handle.
                 Ok (state\<lparr> ps_kyber_local := Some (kyber\<lparr> kkp_secret_key := zeros KYBER_SECRET_KEY_BYTES \<rparr>) \<rparr>,
                     Some handle)))"

definition session_new :: "prims \<Rightarrow> protocol_state \<Rightarrow> bytes \<Rightarrow> session_inner pres" where
  "session_new P state pending =
     res_bind (lock_dh_private P state) (\<lambda>(state1, dh_private_handle).
     res_bind (lock_kyber_secret P state1) (\<lambda>(state2, kyber_secret_handle).
       Ok \<lparr> si_state = state2, si_pending_kyber_shared_secret = pending, si_skipped_message_keys = [],
            si_cached_metadata_keys = [], si_replay_epoch = ps_recv_ratchet_epoch state,
            si_seen_payload_nonces = {}, si_seen_payload_nonce_order = [],
            si_is_initiator = ps_is_initiator state, si_dh_private_handle = dh_private_handle,
            si_kyber_secret_handle = kyber_secret_handle, si_send_ratchet_pending = False,
            si_event_handler = None, si_messages_since_last_dh_ratchet = 0 \<rparr>))"

definition set_event_handler :: "session_inner \<Rightarrow> session_inner" where
  "set_event_handler inner = inner\<lparr> si_event_handler := Some [] \<rparr>"

section \<open>Caches\<close>

text \<open>Keys are evicted oldest first, those of epochs that are too old in any case.\<close>

definition evict_aged_skipped_keys :: "session_inner \<Rightarrow> session_inner" where
  "evict_aged_skipped_keys inner =
     (let min_allowed_epoch = ps_recv_ratchet_epoch (si_state inner) - MAX_SKIPPED_KEY_EPOCH_AGE
      in inner\<lparr> si_skipped_message_keys :=
            evict_while (\<lambda>(oldest_epoch, _). \<not> oldest_epoch \<ge> min_allowed_epoch) (si_skipped_message_keys inner) \<rparr>)"

definition reserve_skipped_capacity :: "session_inner \<Rightarrow> nat \<Rightarrow> unit pres \<times> session_inner" where
  "reserve_skipped_capacity inner needed =
     (if needed > MAX_SKIPPED_MESSAGE_KEYS then (Err (InvalidState ''Message key cache overflow''), inner)
      else let inner1 = evict_aged_skipped_keys inner
           in (Ok (), inner1\<lparr> si_skipped_message_keys :=
                 evict_to needed MAX_SKIPPED_MESSAGE_KEYS (si_skipped_message_keys inner1) \<rparr>))"

definition enforce_cache_limit :: "session_inner \<Rightarrow> session_inner" where
  "enforce_cache_limit inner =
     (let inner1 = evict_aged_skipped_keys inner
      in inner1\<lparr> si_skipped_message_keys := evict_to 0 MAX_SKIPPED_MESSAGE_KEYS (si_skipped_message_keys inner1) \<rparr>)"

definition enforce_metadata_cache_limit :: "session_inner \<Rightarrow> session_inner" where
  "enforce_metadata_cache_limit inner =
     (let min_allowed_epoch = ps_recv_ratchet_epoch (si_state inner) - MAX_METADATA_KEY_EPOCH_AGE;
          kept = evict_while (\<lambda>oldest_epoch. oldest_epoch < min_allowed_epoch) (si_cached_metadata_keys inner)
      in inner\<lparr> si_cached_metadata_keys := evict_to 0 MAX_CACHED_METADATA_KEYS kept \<rparr>)"

fun prune_seen_nonces :: "bytes set \<Rightarrow> bytes list \<Rightarrow> bytes set \<times> bytes list" where
  "prune_seen_nonces seen [] = (seen, [])"
| "prune_seen_nonces seen (oldest # order) =
     (if length (oldest # order) > MAX_SEEN_NONCES then prune_seen_nonces (seen - {oldest}) order
      else (seen, oldest # order))"

definition payload_nonce_to_array :: "bytes \<Rightarrow> bytes pres" where
  "payload_nonce_to_array nonce =
     (if length nonce \<noteq> AES_GCM_NONCE_BYTES then Err (InvalidInput ''Invalid payload nonce size'') else Ok nonce)"

fun rebuild_seen_loop :: "bytes list \<Rightarrow> bytes set \<times> bytes list \<Rightarrow> (bytes set \<times> bytes list) pres" where
  "rebuild_seen_loop [] cache = Ok cache"
| "rebuild_seen_loop (entry # entries) (seen, order) =
     res_bind (payload_nonce_to_array entry) (\<lambda>nonce.
       rebuild_seen_loop entries
         (if nonce \<in> seen then (seen, order) else prune_seen_nonces (insert nonce seen) (order @ [nonce])))"

definition rebuild_seen_payload_nonce_cache :: "bytes list \<Rightarrow> (bytes set \<times> bytes list) pres" where
  "rebuild_seen_payload_nonce_cache entries = rebuild_seen_loop entries ({}, [])"

definition remember_seen_payload_nonce :: "session_inner \<Rightarrow> bytes \<Rightarrow> session_inner" where
  "remember_seen_payload_nonce inner nonce =
     (if nonce \<in> si_seen_payload_nonces inner then inner
      else case prune_seen_nonces (insert nonce (si_seen_payload_nonces inner)) (si_seen_payload_nonce_order inner @ [nonce]) of
             (seen, order) \<Rightarrow> inner\<lparr> si_seen_payload_nonces := seen, si_seen_payload_nonce_order := order \<rparr>)"

end
