(* ===== verification/Session.thy ===== *)
theory Session
  imports Session_State Padding
begin

text \<open>
  The operations of a session (\<^verbatim>\<open>protocol/session.rs\<close>): initialisation from a handshake, the
  symmetric and hybrid ratchets, encryption and decryption with their rollbacks, and the accessors. An
  operation that can fail after it changed the session returns its result together with the session it
  leaves behind. The random draws of a call are the fields of \<open>send_draws\<close>; the clock is a sequence
  of readings, one for each place that reads it.
\<close>

section \<open>Initialisation from a handshake\<close>

record handshake_state =
  hs_state :: protocol_state
  hs_kyber_shared_secret :: bytes

text \<open>Every error path after the first checks also clears the pending secret; the session is dropped on
  an error, so only the result matters.\<close>

definition initialize_from_handshake_inner :: "prims \<Rightarrow> session_inner \<Rightarrow> session_inner pres" where
  "initialize_from_handshake_inner P inner =
     (let state = si_state inner
      in if length (si_pending_kyber_shared_secret inner) \<noteq> KYBER_SHARED_SECRET_BYTES then
           Err (InvalidState ''Missing Kyber shared secret for handshake init'')
         else if length (ps_root_key state) \<noteq> ROOT_KEY_BYTES then Err (InvalidInput ''Invalid root key size'')
         else if (case ps_dh_local state of None \<Rightarrow> 0 | Some d \<Rightarrow> length (dkp_private_key d)) \<noteq> X25519_PRIVATE_KEY_BYTES \<or>
                 length (ps_dh_remote_public state) \<noteq> X25519_PUBLIC_KEY_BYTES then
           Err (InvalidInput ''Invalid DH keys for handshake init'')
         else
           res_bind (validate_x25519_public_key (ps_dh_remote_public state)) (\<lambda>_.
           res_bind (ok_or (InvalidState ''DH private key handle missing'') (si_dh_private_handle inner)) (\<lambda>handle.
           res_bind (map_err CryptoErr (read_bytes handle X25519_PRIVATE_KEY_BYTES)) (\<lambda>dh_private.
           res_bind (compute_dh P dh_private (ps_dh_remote_public state)) (\<lambda>dh_init.
           res_bind (derive_key_bytes P (dh_init @ si_pending_kyber_shared_secret inner) (ROOT_KEY_BYTES * 2)
                       (ps_root_key state) HYBRID_RATCHET_INFO) (\<lambda>hybrid_out.
             if length hybrid_out \<noteq> ROOT_KEY_BYTES * 2 then Err (InvalidState ''Hybrid ratchet output size mismatch'')
             else
               let new_root = take ROOT_KEY_BYTES hybrid_out
               in res_bind (derive_key_bytes P new_root (CHAIN_KEY_BYTES * 2) [] CHAIN_INIT_INFO) (\<lambda>chain_init.
                 if length chain_init \<noteq> CHAIN_KEY_BYTES * 2 then Err (InvalidState ''Chain init output size mismatch'')
                 else
                   let first_chain = take CHAIN_KEY_BYTES chain_init;
                       second_chain = drop CHAIN_KEY_BYTES chain_init;
                       (send_chain, recv_chain) =
                         (if \<not> si_is_initiator inner then (second_chain, first_chain) else (first_chain, second_chain))
                   in Ok (inner\<lparr>
                        si_state := state\<lparr> ps_root_key := new_root,
                          ps_send_chain := Some \<lparr> cs_message_index = 0, cs_chain_key = send_chain, cs_skipped_message_keys = [] \<rparr>,
                          ps_recv_chain := Some \<lparr> cs_message_index = 0, cs_chain_key = recv_chain, cs_skipped_message_keys = [] \<rparr>,
                          ps_send_ratchet_epoch := 0, ps_recv_ratchet_epoch := 0 \<rparr>,
                        si_pending_kyber_shared_secret := [],
                        si_skipped_message_keys := [] \<rparr>))))))))"

definition from_handshake_state :: "prims \<Rightarrow> handshake_state \<Rightarrow> session_inner pres" where
  "from_handshake_state P hs =
     (if ps_version (hs_state hs) \<noteq> PROTOCOL_VERSION then
        Err (InvalidInput ''Invalid protocol version in handshake state'')
      else res_bind (session_new P (hs_state hs) (hs_kyber_shared_secret hs)) (\<lambda>inner.
             initialize_from_handshake_inner P inner))"

section \<open>The symmetric ratchet\<close>

definition set_send_chain :: "chain_state \<Rightarrow> session_inner \<Rightarrow> session_inner" where
  "set_send_chain chain = map_state (\<lambda>st. st\<lparr> ps_send_chain := Some chain \<rparr>)"

definition set_recv_chain :: "chain_state \<Rightarrow> session_inner \<Rightarrow> session_inner" where
  "set_recv_chain chain = map_state (\<lambda>st. st\<lparr> ps_recv_chain := Some chain \<rparr>)"

definition next_send_message_key :: "prims \<Rightarrow> session_inner \<Rightarrow> ((nat \<times> bytes) \<times> session_inner) pres" where
  "next_send_message_key P inner =
     res_bind (ok_or (InvalidState ''Send chain not initialized'') (ps_send_chain (si_state inner))) (\<lambda>chain.
       if length (cs_chain_key chain) \<noteq> CHAIN_KEY_BYTES then Err (InvalidState ''Sending chain key missing'')
       else if cs_message_index chain > MAX_MESSAGE_INDEX then Err (InvalidState ''Message index exceeds maximum'')
       else
         res_bind (derive_message_and_chain_key P (cs_chain_key chain)) (\<lambda>(message_key, next_chain_key).
           Ok ((cs_message_index chain, message_key),
               set_send_chain (chain\<lparr> cs_chain_key := next_chain_key, cs_message_index := cs_message_index chain + 1 \<rparr>) inner)))"

text \<open>The loop that stores the keys of the indices from \<open>idx\<close> on, and the chain key after them. A
  failing derivation leaves the keys stored so far.\<close>

fun skip_keys :: "prims \<Rightarrow> nat \<Rightarrow> nat \<Rightarrow> nat \<Rightarrow> bytes \<Rightarrow> (nat \<times> nat, bytes) btree
    \<Rightarrow> bytes pres \<times> (nat \<times> nat, bytes) btree" where
  "skip_keys P epoch idx 0 chain_key skipped = (Ok chain_key, skipped)"
| "skip_keys P epoch idx (Suc n) chain_key skipped =
     (case derive_message_and_chain_key P chain_key of
        Err e \<Rightarrow> (Err e, skipped)
      | Ok (message_key, next_chain_key) \<Rightarrow>
          skip_keys P epoch (idx + 1) n next_chain_key (bt_insert (epoch, idx) message_key skipped))"

definition skip_old_chain_keys :: "prims \<Rightarrow> session_inner \<Rightarrow> nat \<Rightarrow> unit pres \<times> session_inner" where
  "skip_old_chain_keys P inner previous_chain_length =
     (case ps_recv_chain (si_state inner) of
        None \<Rightarrow> (Err (InvalidState ''Recv chain not initialized''), inner)
      | Some recv_chain \<Rightarrow>
          let current_index = cs_message_index recv_chain;
              epoch = ps_recv_ratchet_epoch (si_state inner);
              max_messages = ps_max_messages_per_chain (si_state inner)
          in if length (cs_chain_key recv_chain) \<noteq> CHAIN_KEY_BYTES then
               (Err (InvalidState ''Receiving chain key missing''), inner)
             else if max_messages = 0 \<or> max_messages > MAX_MESSAGES_PER_CHAIN then
               (Err (InvalidState ''Invalid max messages per chain''), inner)
             else if previous_chain_length > max_messages then
               (Err (InvalidInput ''Previous chain length exceeds per-chain limit''), inner)
             else if current_index \<ge> previous_chain_length then (Ok (), inner)
             else
               case reserve_skipped_capacity inner (previous_chain_length - current_index) of
                 (Err e, inner1) \<Rightarrow> (Err e, inner1)
               | (Ok _, inner1) \<Rightarrow>
                   (case skip_keys P epoch current_index (previous_chain_length - current_index)
                           (cs_chain_key recv_chain) (si_skipped_message_keys inner1) of
                      (Err e, skipped) \<Rightarrow> (Err e, inner1\<lparr> si_skipped_message_keys := skipped \<rparr>)
                    | (Ok chain_key, skipped) \<Rightarrow>
                        (Ok (), set_recv_chain (recv_chain\<lparr> cs_chain_key := chain_key, cs_message_index := previous_chain_length \<rparr>)
                                  (inner1\<lparr> si_skipped_message_keys := skipped \<rparr>))))"

definition try_skipped_key :: "session_inner \<Rightarrow> nat \<Rightarrow> nat \<Rightarrow> bytes option \<times> session_inner" where
  "try_skipped_key inner epoch message_index =
     (bt_get (si_skipped_message_keys inner) (epoch, message_index),
      inner\<lparr> si_skipped_message_keys := bt_remove (epoch, message_index) (si_skipped_message_keys inner) \<rparr>)"

definition get_recv_message_key :: "prims \<Rightarrow> session_inner \<Rightarrow> nat \<Rightarrow> bytes pres \<times> session_inner" where
  "get_recv_message_key P inner message_index =
     (case ps_recv_chain (si_state inner) of
        None \<Rightarrow> (Err (InvalidState ''Recv chain not initialized''), inner)
      | Some recv_chain \<Rightarrow>
          let current_index = cs_message_index recv_chain;
              epoch = ps_recv_ratchet_epoch (si_state inner)
          in if length (cs_chain_key recv_chain) \<noteq> CHAIN_KEY_BYTES then
               (Err (InvalidState ''Receiving chain key missing''), inner)
             else if message_index > MAX_MESSAGE_INDEX then (Err (InvalidInput ''Message index exceeds maximum''), inner)
             else if message_index < current_index then
               (case try_skipped_key inner epoch message_index of
                  (Some key, inner1) \<Rightarrow> (Ok key, inner1)
                | (None, inner1) \<Rightarrow>
                    (Err (ReplayAttack ''Replay attack detected: message index already processed''), inner1))
             else
               case reserve_skipped_capacity inner (message_index - current_index) of
                 (Err e, inner1) \<Rightarrow> (Err e, inner1)
               | (Ok _, inner1) \<Rightarrow>
                   (case skip_keys P epoch current_index (message_index - current_index)
                           (cs_chain_key recv_chain) (si_skipped_message_keys inner1) of
                      (Err e, skipped) \<Rightarrow> (Err e, inner1\<lparr> si_skipped_message_keys := skipped \<rparr>)
                    | (Ok chain_key, skipped) \<Rightarrow>
                        let inner2 = inner1\<lparr> si_skipped_message_keys := skipped \<rparr>
                        in (case derive_message_and_chain_key P chain_key of
                              Err e \<Rightarrow> (Err e, inner2)
                            | Ok (message_key, next_chain_key) \<Rightarrow>
                                (Ok message_key,
                                 set_recv_chain (recv_chain\<lparr> cs_chain_key := next_chain_key,
                                   cs_message_index := message_index + 1 \<rparr>) inner2))))"

section \<open>The hybrid ratchet\<close>

record send_draws =
  sd_x25519 :: bytes
  sd_encaps :: bytes
  sd_kyber_keygen :: bytes
  sd_kyber_selftest :: bytes
  sd_nonce_prefix :: bytes
  sd_header_nonce :: bytes

text \<open>Both directions derive the new root, chain and metadata keys from the two shared secrets, the
  old root key and the sender's new ML-KEM key.\<close>

definition derive_ratchet_keys :: "prims \<Rightarrow> bytes \<Rightarrow> bytes \<Rightarrow> bytes \<Rightarrow> bytes \<Rightarrow> (bytes \<times> bytes \<times> bytes) pres" where
  "derive_ratchet_keys P dh_secret kyber_ss root_key new_kyber_pk =
     res_bind (derive_key_bytes P (dh_secret @ kyber_ss) RATCHET_OUTPUT_BYTES root_key (HYBRID_RATCHET_INFO @ new_kyber_pk))
       (\<lambda>ratchet_out.
          if length ratchet_out \<noteq> RATCHET_OUTPUT_BYTES then Err (InvalidState ''Ratchet output size mismatch'')
          else Ok (take ROOT_KEY_BYTES ratchet_out,
                   take CHAIN_KEY_BYTES (drop ROOT_KEY_BYTES ratchet_out),
                   drop (ROOT_KEY_BYTES + CHAIN_KEY_BYTES) ratchet_out))"

definition send_ratchet_rotation_needed :: "session_inner \<Rightarrow> bool pres" where
  "send_ratchet_rotation_needed inner =
     (let chain_idx = (case ps_send_chain (si_state inner) of None \<Rightarrow> 0 | Some c \<Rightarrow> cs_message_index c);
          max_messages = ps_max_messages_per_chain (si_state inner)
      in if max_messages = 0 \<or> max_messages > MAX_MESSAGES_PER_CHAIN then
           Err (InvalidState ''Invalid max messages per chain'')
         else Ok (si_send_ratchet_pending inner \<or> chain_idx \<ge> max_messages))"

text \<open>Everything \<open>maybe_rotate_send_ratchet\<close> computes before it changes the session: the new X25519
  pair, the ciphertext, the new ML-KEM pair and the derived keys.\<close>

definition send_ratchet_material ::
    "prims \<Rightarrow> protocol_state \<Rightarrow> send_draws
      \<Rightarrow> ((bytes \<times> bytes) \<times> bytes \<times> (handle \<times> bytes) \<times> (bytes \<times> bytes \<times> bytes)) pres" where
  "send_ratchet_material P state d =
     (if length (ps_dh_remote_public state) \<noteq> X25519_PUBLIC_KEY_BYTES \<or> length (ps_root_key state) \<noteq> ROOT_KEY_BYTES then
        Err (InvalidState ''Cannot rotate ratchet: missing key material'')
      else if length (ps_kyber_remote_public state) \<noteq> KYBER_PUBLIC_KEY_BYTES then
        Err (InvalidState ''Peer Kyber public key missing'')
      else
        res_bind (generate_x25519_keypair P (sd_x25519 d)) (\<lambda>(new_private_handle, new_public).
        res_bind (map_err CryptoErr (read_bytes new_private_handle X25519_PRIVATE_KEY_BYTES)) (\<lambda>new_private.
        res_bind (validate_x25519_public_key (ps_dh_remote_public state)) (\<lambda>_.
        res_bind (compute_dh P new_private (ps_dh_remote_public state)) (\<lambda>dh_secret.
        res_bind (map_err CryptoErr (kyber_encapsulate P (ps_kyber_remote_public state) (sd_encaps d)))
          (\<lambda>(kyber_ct, kyber_ss_handle).
        res_bind (map_err CryptoErr (read_bytes kyber_ss_handle KYBER_SHARED_SECRET_BYTES)) (\<lambda>kyber_ss.
        res_bind (map_err CryptoErr (kyber_generate_keypair P (sd_kyber_keygen d) (sd_kyber_selftest d)))
          (\<lambda>(new_kyber_sk_handle, new_kyber_pk).
        res_bind (derive_ratchet_keys P dh_secret kyber_ss (ps_root_key state) new_kyber_pk) (\<lambda>keys.
          Ok ((new_private, new_public), kyber_ct, (new_kyber_sk_handle, new_kyber_pk), keys))))))))))"

definition set_local_dh_public :: "bytes \<Rightarrow> dh_key_pair option \<Rightarrow> dh_key_pair option" where
  "set_local_dh_public new_public dl =
     (case dl of
        Some d \<Rightarrow> Some (d\<lparr> dkp_private_key := zeros X25519_PRIVATE_KEY_BYTES, dkp_public_key := new_public \<rparr>)
      | None \<Rightarrow> Some \<lparr> dkp_private_key = zeros X25519_PRIVATE_KEY_BYTES, dkp_public_key = new_public \<rparr>)"

definition set_local_kyber_public :: "bytes \<Rightarrow> kyber_key_pair option \<Rightarrow> kyber_key_pair option" where
  "set_local_kyber_public new_kyber_pk =
     map_option (\<lambda>kyber. kyber\<lparr> kkp_secret_key := zeros KYBER_SECRET_KEY_BYTES, kkp_public_key := new_kyber_pk \<rparr>)"

definition maybe_rotate_send_ratchet ::
    "prims \<Rightarrow> session_inner \<Rightarrow> secure_envelope \<Rightarrow> send_draws \<Rightarrow> secure_envelope pres \<times> session_inner" where
  "maybe_rotate_send_ratchet P inner envelope d =
     (case send_ratchet_rotation_needed inner of
        Err e \<Rightarrow> (Err e, inner)
      | Ok should_ratchet \<Rightarrow>
          if \<not> should_ratchet then (Ok envelope, inner)
          else case send_ratchet_material P (si_state inner) d of
            Err e \<Rightarrow> (Err e, inner)
          | Ok ((new_private, new_public), kyber_ct, (new_kyber_sk_handle, new_kyber_pk),
                (new_root, new_chain, new_metadata)) \<Rightarrow>
              (let state = si_state inner;
                   prev_chain_len = (case ps_send_chain state of None \<Rightarrow> 0 | Some c \<Rightarrow> cs_message_index c);
                   inner1 = inner\<lparr> si_state := state\<lparr> ps_root_key := new_root, ps_send_metadata_key := new_metadata,
                     ps_send_chain := Some \<lparr> cs_message_index = 0, cs_chain_key = new_chain, cs_skipped_message_keys = [] \<rparr> \<rparr> \<rparr>
               in case checked_add_u64 (ps_send_ratchet_epoch state) 1 of
                    None \<Rightarrow> (Err (InvalidState ''Send ratchet epoch overflow''), inner1)
                  | Some next_epoch \<Rightarrow>
                      let inner2 = map_state (\<lambda>st. st\<lparr> ps_send_ratchet_epoch := next_epoch \<rparr>) inner1
                      in (case map_err CryptoErr (new_handle P X25519_PRIVATE_KEY_BYTES new_private) of
                            Err e \<Rightarrow> (Err e, inner2)
                          | Ok dh_handle \<Rightarrow>
                              let inner3 = (map_state (\<lambda>st. st\<lparr>
                                      ps_dh_local := set_local_dh_public new_public (ps_dh_local st),
                                      ps_kyber_local := set_local_kyber_public new_kyber_pk (ps_kyber_local st),
                                      ps_send_ratchet_pending := False \<rparr>) inner2)
                                    \<lparr> si_dh_private_handle := Some dh_handle, si_kyber_secret_handle := Some new_kyber_sk_handle,
                                      si_send_ratchet_pending := False, si_messages_since_last_dh_ratchet := 0 \<rparr>;
                                  envelope1 = envelope\<lparr> se_previous_chain_length := Some prev_chain_len,
                                      se_dh_public_key := Some new_public, se_kyber_ciphertext := Some kyber_ct,
                                      se_new_kyber_public := Some new_kyber_pk \<rparr>
                              in (case reset_nonce_generator (si_state inner3) (sd_nonce_prefix d) of
                                    (Err e, state4) \<Rightarrow> (Err e, inner3\<lparr> si_state := state4 \<rparr>)
                                  | (Ok _, state4) \<Rightarrow> (Ok envelope1, inner3\<lparr> si_state := state4 \<rparr>)))))"

text \<open>The checks of a ratchet header that come before the session changes.\<close>

definition check_ratchet_header ::
    "prims \<Rightarrow> session_inner \<Rightarrow> secure_envelope \<Rightarrow> (bytes \<times> bytes \<times> bytes) pres" where
  "check_ratchet_header P inner envelope =
     res_bind (ok_or (InvalidInput ''Ratchet header missing'') (se_dh_public_key envelope)) (\<lambda>dh_public.
     res_bind (ok_or (InvalidInput ''Ratchet header missing'') (se_kyber_ciphertext envelope)) (\<lambda>kyber_ct.
     res_bind (ok_or (InvalidInput ''Ratchet message missing new Kyber public key'') (se_new_kyber_public envelope))
       (\<lambda>new_kyber_pk.
         if length dh_public \<noteq> X25519_PUBLIC_KEY_BYTES \<or> length kyber_ct \<noteq> KYBER_CIPHERTEXT_BYTES then
           Err (InvalidInput ''Invalid ratchet header sizes'')
         else if length new_kyber_pk \<noteq> KYBER_PUBLIC_KEY_BYTES then
           Err (InvalidInput ''Invalid new Kyber public key size'')
         else
           res_bind (validate_x25519_public_key dh_public) (\<lambda>_.
           res_bind (map_err CryptoErr (kyber_validate_ciphertext kyber_ct)) (\<lambda>_.
           res_bind (map_err CryptoErr (kyber_validate_public_key P new_kyber_pk)) (\<lambda>_.
             if length (ps_root_key (si_state inner)) \<noteq> ROOT_KEY_BYTES then
               Err (InvalidState ''Missing ratchet key material'')
             else Ok (dh_public, kyber_ct, new_kyber_pk)))))))"

definition recv_ratchet_material ::
    "prims \<Rightarrow> session_inner \<Rightarrow> bytes \<Rightarrow> bytes \<Rightarrow> bytes \<Rightarrow> (bytes \<times> bytes \<times> bytes) pres" where
  "recv_ratchet_material P inner dh_public kyber_ct new_kyber_pk =
     res_bind (ok_or (InvalidState ''DH private key handle missing'') (si_dh_private_handle inner)) (\<lambda>dh_handle.
     res_bind (map_err CryptoErr (read_bytes dh_handle X25519_PRIVATE_KEY_BYTES)) (\<lambda>dh_private.
     res_bind (compute_dh P dh_private dh_public) (\<lambda>dh_secret.
     res_bind (ok_or (InvalidState ''Kyber secret key handle missing'') (si_kyber_secret_handle inner)) (\<lambda>sk_handle.
     res_bind (map_err CryptoErr (kyber_decapsulate P kyber_ct sk_handle)) (\<lambda>ss_handle.
     res_bind (map_err CryptoErr (read_bytes ss_handle KYBER_SHARED_SECRET_BYTES)) (\<lambda>kyber_ss.
       derive_ratchet_keys P dh_secret kyber_ss (ps_root_key (si_state inner)) new_kyber_pk))))))"

definition apply_recv_ratchet :: "prims \<Rightarrow> session_inner \<Rightarrow> secure_envelope \<Rightarrow> unit pres \<times> session_inner" where
  "apply_recv_ratchet P inner envelope =
     (case check_ratchet_header P inner envelope of
        Err e \<Rightarrow> (Err e, inner)
      | Ok (dh_public, kyber_ct, new_kyber_pk) \<Rightarrow>
          (case (case se_previous_chain_length envelope of
                   None \<Rightarrow> (Ok (), inner) | Some pcl \<Rightarrow> skip_old_chain_keys P inner pcl) of
             (Err e, inner1) \<Rightarrow> (Err e, inner1)
           | (Ok _, inner1) \<Rightarrow>
               (case recv_ratchet_material P inner1 dh_public kyber_ct new_kyber_pk of
                  Err e \<Rightarrow> (Err e, inner1)
                | Ok (new_root, new_chain, new_metadata) \<Rightarrow>
                    let state = si_state inner1;
                        inner2 = enforce_metadata_cache_limit
                          (inner1\<lparr> si_cached_metadata_keys :=
                             bt_insert (ps_recv_ratchet_epoch state) (ps_metadata_key state) (si_cached_metadata_keys inner1) \<rparr>);
                        inner3 = map_state (\<lambda>st. st\<lparr> ps_root_key := new_root, ps_metadata_key := new_metadata,
                          ps_recv_chain := Some \<lparr> cs_message_index = 0, cs_chain_key = new_chain, cs_skipped_message_keys = [] \<rparr> \<rparr>) inner2
                    in (case checked_add_u64 (ps_recv_ratchet_epoch state) 1 of
                          None \<Rightarrow> (Err (InvalidState ''Recv ratchet epoch overflow''), inner3)
                        | Some next_epoch \<Rightarrow>
                            let inner4 = (map_state (\<lambda>st. st\<lparr> ps_recv_ratchet_epoch := next_epoch,
                                    ps_dh_remote_public := dh_public, ps_kyber_remote_public := new_kyber_pk \<rparr>) inner3)
                                  \<lparr> si_replay_epoch := next_epoch \<rparr>;
                                inner5 = enforce_cache_limit inner4
                            in (Ok (), (map_state (\<lambda>st. st\<lparr> ps_send_ratchet_pending := True \<rparr>) inner5)
                                         \<lparr> si_send_ratchet_pending := True \<rparr>)))))"

section \<open>Snapshots of the sending side\<close>

record send_progress_snapshot =
  sps_send_chain :: "chain_state option"
  sps_nonce_generator :: "nonce_state_proto option"
  sps_messages_since_last_dh_ratchet :: nat

definition capture_progress :: "session_inner \<Rightarrow> send_progress_snapshot" where
  "capture_progress inner =
     \<lparr> sps_send_chain = ps_send_chain (si_state inner), sps_nonce_generator = ps_nonce_generator (si_state inner),
       sps_messages_since_last_dh_ratchet = si_messages_since_last_dh_ratchet inner \<rparr>"

definition restore_progress :: "send_progress_snapshot \<Rightarrow> session_inner \<Rightarrow> session_inner" where
  "restore_progress snap inner =
     (map_state (\<lambda>st. st\<lparr> ps_send_chain := sps_send_chain snap, ps_nonce_generator := sps_nonce_generator snap \<rparr>) inner)
       \<lparr> si_messages_since_last_dh_ratchet := sps_messages_since_last_dh_ratchet snap \<rparr>"

record send_ratchet_snapshot =
  srs_state :: protocol_state
  srs_dh_private_key :: "bytes option"
  srs_kyber_secret_key :: "bytes option"
  srs_send_ratchet_pending :: bool
  srs_messages_since_last_dh_ratchet :: nat

definition read_optional_handle :: "handle option \<Rightarrow> nat \<Rightarrow> bytes option pres" where
  "read_optional_handle h n =
     (case h of None \<Rightarrow> Ok None
      | Some handle \<Rightarrow> res_bind (map_err CryptoErr (read_bytes handle n)) (\<lambda>b. Ok (Some b)))"

definition capture_ratchet :: "session_inner \<Rightarrow> send_ratchet_snapshot pres" where
  "capture_ratchet inner =
     res_bind (read_optional_handle (si_dh_private_handle inner) X25519_PRIVATE_KEY_BYTES) (\<lambda>dh.
     res_bind (read_optional_handle (si_kyber_secret_handle inner) KYBER_SECRET_KEY_BYTES) (\<lambda>kyber.
       Ok \<lparr> srs_state = si_state inner, srs_dh_private_key = dh, srs_kyber_secret_key = kyber,
            srs_send_ratchet_pending = si_send_ratchet_pending inner,
            srs_messages_since_last_dh_ratchet = si_messages_since_last_dh_ratchet inner \<rparr>))"

definition restore_secret_handle :: "prims \<Rightarrow> bytes option \<Rightarrow> nat \<Rightarrow> handle option" where
  "restore_secret_handle P secret expected_len =
     (case secret of
        None \<Rightarrow> None
      | Some b \<Rightarrow>
          if length b \<noteq> expected_len then None
          else case new_handle P expected_len b of Err _ \<Rightarrow> None | Ok handle \<Rightarrow> Some handle)"

definition restore_ratchet :: "prims \<Rightarrow> send_ratchet_snapshot \<Rightarrow> session_inner \<Rightarrow> session_inner" where
  "restore_ratchet P snap inner =
     inner\<lparr> si_state := srs_state snap, si_send_ratchet_pending := srs_send_ratchet_pending snap,
       si_messages_since_last_dh_ratchet := srs_messages_since_last_dh_ratchet snap,
       si_dh_private_handle := restore_secret_handle P (srs_dh_private_key snap) X25519_PRIVATE_KEY_BYTES,
       si_kyber_secret_handle := restore_secret_handle P (srs_kyber_secret_key snap) KYBER_SECRET_KEY_BYTES \<rparr>"

definition rollback_send_encrypt_state ::
    "prims \<Rightarrow> session_inner \<Rightarrow> send_ratchet_snapshot option \<Rightarrow> send_progress_snapshot \<Rightarrow> session_inner" where
  "rollback_send_encrypt_state P inner ratchet_snapshot progress_snapshot =
     (case ratchet_snapshot of
        Some snapshot \<Rightarrow> restore_ratchet P snapshot inner
      | None \<Rightarrow> restore_progress progress_snapshot inner)"

section \<open>Encryption\<close>

definition empty_envelope :: secure_envelope where
  "empty_envelope = \<lparr> se_version = PROTOCOL_VERSION, se_encrypted_metadata = [], se_encrypted_payload = [],
     se_header_nonce = [], se_ratchet_epoch = 0, se_dh_public_key = None, se_kyber_ciphertext = None,
     se_sent_at = None, se_new_kyber_public = None, se_previous_chain_length = None \<rparr>"

text \<open>The warnings after a nonce was taken: the budget that remains, and the messages since the last
  ratchet step.\<close>

definition warn_after_nonce :: "nonce_state \<Rightarrow> session_inner \<Rightarrow> session_inner" where
  "warn_after_nonce nonce_export inner =
     (let max_cap = effective_chain_nonce_budget (si_state inner);
          remaining = max_cap - ns_counter nonce_export;
          inner1 = map_state (\<lambda>st. store_nonce_state st nonce_export) inner;
          threshold = div_ceil (saturating_mul_u64 max_cap NONCE_EXHAUSTION_WARNING_PERCENT) 100;
          inner2 = (if remaining \<le> threshold then notify (NonceExhaustionWarning remaining max_cap) inner1 else inner1);
          since = si_messages_since_last_dh_ratchet inner2 + 1;
          inner3 = inner2\<lparr> si_messages_since_last_dh_ratchet := since \<rparr>
      in if since \<ge> RATCHET_STALLING_WARNING_THRESHOLD then notify (RatchetStallingWarning since) inner3 else inner3)"

text \<open>Encryption under the current sending chain, once a due ratchet step has been made. Every error
  here makes the caller roll the session back.\<close>

definition seal_message ::
    "prims \<Rightarrow> codec \<Rightarrow> session_inner \<Rightarrow> secure_envelope \<Rightarrow> bytes \<Rightarrow> int \<Rightarrow> nat \<Rightarrow> string option \<Rightarrow> bytes option
      \<Rightarrow> send_draws \<Rightarrow> nat pres \<Rightarrow> secure_envelope pres \<times> session_inner" where
  "seal_message P C inner envelope payload envelope_type envelope_id correlation_id header_nonce_override d sent_reading =
     (case next_send_message_key P inner of
        Err e \<Rightarrow> (Err e, inner)
      | Ok ((message_index, message_key), inner1) \<Rightarrow>
        (case load_nonce_generator (si_state inner1) of
           Err e \<Rightarrow> (Err e, inner1)
         | Ok nonce_gen \<Rightarrow>
           (case next_nonce nonce_gen message_index of
              (Err e, _) \<Rightarrow> (Err e, inner1)
            | (Ok payload_nonce, nonce_gen1) \<Rightarrow>
              (let inner2 = warn_after_nonce (export_state nonce_gen1) inner1;
                   state = si_state inner2;
                   metadata = \<lparr> em_message_index = message_index, em_payload_nonce = payload_nonce,
                     em_envelope_type = envelope_type, em_envelope_id = envelope_id, em_correlation_id = correlation_id \<rparr>;
                   header_nonce = (case header_nonce_override of Some nonce \<Rightarrow> nonce | None \<Rightarrow> sd_header_nonce d);
                   epoch = se_ratchet_epoch envelope;
                   pcl = se_previous_chain_length envelope
               in (res_bind (ok_or (Encode ''Failed to serialize metadata: {e}'') (encode_metadata C metadata)) (\<lambda>metadata_bytes.
                     if length header_nonce \<noteq> AES_GCM_NONCE_BYTES then
                       (if header_nonce_override \<noteq> None then Err (InvalidInput ''Invalid header nonce size'')
                        else Err (Generic ''Failed to generate header nonce''))
                     else
                       res_bind (build_metadata_aad state epoch pcl) (\<lambda>metadata_aad.
                       res_bind (aes_gcm_encrypt P (ps_send_metadata_key state) header_nonce metadata_bytes metadata_aad)
                         (\<lambda>encrypted_metadata.
                       res_bind (build_payload_aad state epoch message_index pcl) (\<lambda>payload_aad.
                       res_bind (aes_gcm_encrypt P message_key payload_nonce (pad payload) payload_aad) (\<lambda>encrypted_payload.
                       res_bind (res_bind sent_reading timestamp_from_unix_secs) (\<lambda>sent_at.
                         Ok (envelope\<lparr> se_encrypted_metadata := encrypted_metadata, se_encrypted_payload := encrypted_payload,
                               se_header_nonce := header_nonce, se_sent_at := Some sent_at \<rparr>))))))),
                   inner2)))))"

text \<open>\<open>hook\<close> is the closure that \<open>encrypt_internal\<close> runs after the ratchet step.\<close>

definition encrypt_internal ::
    "prims \<Rightarrow> codec \<Rightarrow> session_inner \<Rightarrow> bytes \<Rightarrow> int \<Rightarrow> nat \<Rightarrow> string option \<Rightarrow> bytes option
      \<Rightarrow> (session_inner \<Rightarrow> unit pres \<times> session_inner) \<Rightarrow> send_draws \<Rightarrow> clock \<Rightarrow> secure_envelope pres \<times> session_inner" where
  "encrypt_internal P C inner payload envelope_type envelope_id correlation_id header_nonce_override hook d clk =
     (let state = si_state inner
      in if ps_version state = 0 then (Err (InvalidState ''Session has been destroyed''), inner)
         else case check_inner_expired state (clk 0) of
           Err e \<Rightarrow> (Err e, inner)
         | Ok expired \<Rightarrow>
           if expired then (Err (InvalidState ''Session expired''), inner)
           else case clk 1 of
             Err e \<Rightarrow> (Err e, inner)
           | Ok activity_unix \<Rightarrow>
             (case checked_add_u64 (ps_total_messages_sent state) 1 of
                None \<Rightarrow> (Err (InvalidState ''Sent-message counter overflow''), inner)
              | Some next_total_sent \<Rightarrow>
                if length (ps_send_metadata_key state) \<noteq> METADATA_KEY_BYTES then
                  (Err (InvalidState ''Send metadata key not initialized''), inner)
                else if length payload > MAX_BUFFER_SIZE then (Err (InvalidInput ''Payload too large''), inner)
                else case res_bind (send_ratchet_rotation_needed inner) (\<lambda>needed.
                       if needed then res_bind (capture_ratchet inner) (\<lambda>snap. Ok (Some snap)) else Ok None) of
                  Err e \<Rightarrow> (Err e, inner)
                | Ok ratchet_snapshot \<Rightarrow>
                  (case maybe_rotate_send_ratchet P inner empty_envelope d of
                     (Err e, inner1) \<Rightarrow>
                       (Err e, case ratchet_snapshot of Some snap \<Rightarrow> restore_ratchet P snap inner1 | None \<Rightarrow> inner1)
                   | (Ok envelope, inner1) \<Rightarrow>
                       (let envelope1 = envelope\<lparr> se_ratchet_epoch := ps_send_ratchet_epoch (si_state inner1) \<rparr>;
                            progress = capture_progress inner1
                        in case hook inner1 of
                             (Err e, inner2) \<Rightarrow> (Err e, rollback_send_encrypt_state P inner2 ratchet_snapshot progress)
                           | (Ok _, inner2) \<Rightarrow>
                             (case seal_message P C inner2 envelope1 payload envelope_type envelope_id correlation_id
                                     header_nonce_override d (clk 2) of
                                (Err e, inner3) \<Rightarrow> (Err e, rollback_send_encrypt_state P inner3 ratchet_snapshot progress)
                              | (Ok envelope2, inner3) \<Rightarrow>
                                  (Ok envelope2,
                                   map_state (\<lambda>st. st\<lparr> ps_last_activity_unix := Some activity_unix,
                                     ps_total_messages_sent := next_total_sent \<rparr>) inner3))))))"

definition encrypt ::
    "prims \<Rightarrow> codec \<Rightarrow> session_inner \<Rightarrow> bytes \<Rightarrow> int \<Rightarrow> nat \<Rightarrow> string option \<Rightarrow> send_draws \<Rightarrow> clock
      \<Rightarrow> secure_envelope pres \<times> session_inner" where
  "encrypt P C inner payload envelope_type envelope_id correlation_id d clk =
     encrypt_internal P C inner payload envelope_type envelope_id correlation_id None (\<lambda>inner. (Ok (), inner)) d clk"

section \<open>Decryption\<close>

record decrypt_result =
  dr_plaintext :: bytes
  dr_metadata :: envelope_metadata

record recv_ratchet_snapshot =
  rs_state :: protocol_state
  rs_cached_metadata_keys :: "(nat, bytes) btree"
  rs_skipped_message_keys :: "(nat \<times> nat, bytes) btree"
  rs_replay_epoch :: nat
  rs_send_ratchet_pending :: bool

definition take_ratchet_snapshot :: "session_inner \<Rightarrow> recv_ratchet_snapshot" where
  "take_ratchet_snapshot inner =
     \<lparr> rs_state = si_state inner, rs_cached_metadata_keys = si_cached_metadata_keys inner,
       rs_skipped_message_keys = si_skipped_message_keys inner, rs_replay_epoch = si_replay_epoch inner,
       rs_send_ratchet_pending = si_send_ratchet_pending inner \<rparr>"

definition rollback_ratchet :: "recv_ratchet_snapshot option \<Rightarrow> session_inner \<Rightarrow> session_inner" where
  "rollback_ratchet snapshot inner =
     (case snapshot of
        None \<Rightarrow> inner
      | Some snap \<Rightarrow> inner\<lparr> si_state := rs_state snap, si_cached_metadata_keys := rs_cached_metadata_keys snap,
          si_skipped_message_keys := rs_skipped_message_keys snap, si_replay_epoch := rs_replay_epoch snap,
          si_send_ratchet_pending := rs_send_ratchet_pending snap \<rparr>)"

text \<open>The ratchet part of \<open>decrypt\<close>: whether the envelope is of an old epoch, and the snapshot taken when
  it carries a ratchet header.\<close>

definition decrypt_ratchet ::
    "prims \<Rightarrow> session_inner \<Rightarrow> secure_envelope \<Rightarrow> (bool \<times> recv_ratchet_snapshot option) pres \<times> session_inner" where
  "decrypt_ratchet P inner envelope =
     (let state = si_state inner;
          envelope_epoch = se_ratchet_epoch envelope;
          has_dh = se_dh_public_key envelope \<noteq> None;
          has_kyber_ct = se_kyber_ciphertext envelope \<noteq> None;
          has_new_kyber_pk = se_new_kyber_public envelope \<noteq> None
      in if has_dh \<or> has_kyber_ct \<or> has_new_kyber_pk then
           if \<not> has_dh \<or> \<not> has_kyber_ct \<or> \<not> has_new_kyber_pk then
             (Err (InvalidInput ''Incomplete ratchet header: dh_public_key, kyber_ciphertext, and new_kyber_public must all be present''), inner)
           else case checked_add_u64 (ps_recv_ratchet_epoch state) 1 of
             None \<Rightarrow> (Err (InvalidState ''Receive ratchet epoch overflow''), inner)
           | Some expected_epoch \<Rightarrow>
               if envelope_epoch \<noteq> expected_epoch then (Err (InvalidState ''Unexpected ratchet epoch''), inner)
               else if (case se_previous_chain_length envelope of None \<Rightarrow> False
                        | Some pcl \<Rightarrow> pcl > ps_max_messages_per_chain state) then
                 (Err (InvalidInput ''Previous chain length exceeds per-chain limit''), inner)
               else if (case se_previous_chain_length envelope of None \<Rightarrow> False
                        | Some pcl \<Rightarrow> pcl - (case ps_recv_chain state of None \<Rightarrow> 0 | Some rc \<Rightarrow> cs_message_index rc)
                                       > MAX_SKIPPED_MESSAGE_KEYS) then
                 (Err (InvalidState ''Message key cache overflow''), inner)
               else
                 let snapshot = Some (take_ratchet_snapshot inner)
                 in (case apply_recv_ratchet P inner envelope of
                       (Err e, inner1) \<Rightarrow> (Err e, rollback_ratchet snapshot inner1)
                     | (Ok _, inner1) \<Rightarrow> (Ok (False, snapshot), inner1))
         else if envelope_epoch \<le> ps_recv_ratchet_epoch state then
           if se_previous_chain_length envelope \<noteq> None then
             (Err (InvalidInput ''previous_chain_length present on non-ratchet envelope''), inner)
           else (Ok (envelope_epoch < ps_recv_ratchet_epoch state, None), inner)
         else (Err (InvalidState ''Future ratchet epoch without ratchet headers''), inner))"

definition open_metadata ::
    "prims \<Rightarrow> codec \<Rightarrow> session_inner \<Rightarrow> secure_envelope \<Rightarrow> bool \<Rightarrow> nat \<Rightarrow> envelope_metadata pres" where
  "open_metadata P C inner envelope is_old_epoch max_messages =
     (let state = si_state inner;
          envelope_epoch = se_ratchet_epoch envelope
      in res_bind (if is_old_epoch
           then ok_or (InvalidState ''Metadata decryption failed'') (bt_get (si_cached_metadata_keys inner) envelope_epoch)
           else Ok (ps_metadata_key state)) (\<lambda>metadata_key_ref.
         res_bind (build_metadata_aad state envelope_epoch (se_previous_chain_length envelope)) (\<lambda>metadata_aad.
         res_bind (aes_gcm_decrypt P metadata_key_ref (se_header_nonce envelope) (se_encrypted_metadata envelope) metadata_aad)
           (\<lambda>metadata_bytes.
         res_bind (ok_or (Decode ''Failed to parse metadata: {e}'') (decode_metadata C metadata_bytes)) (\<lambda>metadata.
           if length (em_payload_nonce metadata) \<noteq> AES_GCM_NONCE_BYTES then
             Err (InvalidInput ''Invalid payload nonce size'')
           else if em_message_index metadata > MAX_MESSAGE_INDEX then
             Err (InvalidInput ''Message index exceeds maximum'')
           else if em_message_index metadata \<ge> max_messages then
             Err (InvalidInput ''Message index exceeds per-chain limit'')
           else
             res_bind (extract_nonce_index (em_payload_nonce metadata)) (\<lambda>nonce_index.
               if nonce_index \<noteq> em_message_index metadata then Err (InvalidInput ''Nonce index mismatch'')
               else
                 res_bind (payload_nonce_to_array (em_payload_nonce metadata)) (\<lambda>nonce_key.
                   if nonce_key \<in> si_seen_payload_nonces inner then
                     Err (ReplayAttack ''Replay attack detected: payload nonce reused'')
                   else Ok metadata)))))))"

definition recv_message_key ::
    "prims \<Rightarrow> session_inner \<Rightarrow> bool \<Rightarrow> nat \<Rightarrow> nat \<Rightarrow> bytes pres \<times> session_inner" where
  "recv_message_key P inner is_old_epoch envelope_epoch message_index =
     (if is_old_epoch then
        (case try_skipped_key inner envelope_epoch message_index of
           (key, inner1) \<Rightarrow>
             (ok_or (ReplayAttack ''Old-epoch message key not found (already consumed or never cached)'') key, inner1))
      else get_recv_message_key P inner message_index)"

text \<open>What is undone when the payload does not open: a ratchet step, the removal of a skipped key, or
  the advance of the receiving chain.\<close>

definition undo_message_key ::
    "session_inner \<Rightarrow> recv_ratchet_snapshot option \<Rightarrow> bool \<Rightarrow> nat \<Rightarrow> nat \<Rightarrow> bytes \<Rightarrow> (bytes \<times> nat) option \<Rightarrow> session_inner" where
  "undo_message_key inner snapshot is_old_epoch envelope_epoch message_index message_key recv_chain_pre =
     (if snapshot \<noteq> None then rollback_ratchet snapshot inner
      else if is_old_epoch then
        inner\<lparr> si_skipped_message_keys := bt_insert (envelope_epoch, message_index) message_key (si_skipped_message_keys inner) \<rparr>
      else case recv_chain_pre of
        None \<Rightarrow> inner
      | Some (saved_key, saved_index) \<Rightarrow>
          (let epoch = ps_recv_ratchet_epoch (si_state inner);
               inner1 = (if message_index < saved_index then
                   inner\<lparr> si_skipped_message_keys := bt_insert (epoch, message_index) message_key (si_skipped_message_keys inner) \<rparr>
                 else inner\<lparr> si_skipped_message_keys :=
                   fold bt_remove (map (\<lambda>idx. (epoch, idx)) [saved_index..<message_index]) (si_skipped_message_keys inner) \<rparr>)
           in case ps_recv_chain (si_state inner1) of
                None \<Rightarrow> inner1
              | Some rc \<Rightarrow> set_recv_chain (rc\<lparr> cs_chain_key := saved_key, cs_message_index := saved_index \<rparr>) inner1))"

definition open_payload ::
    "prims \<Rightarrow> session_inner \<Rightarrow> secure_envelope \<Rightarrow> envelope_metadata \<Rightarrow> bytes \<Rightarrow> bytes pres" where
  "open_payload P inner envelope metadata message_key =
     res_bind (build_payload_aad (si_state inner) (se_ratchet_epoch envelope) (em_message_index metadata)
                 (se_previous_chain_length envelope)) (\<lambda>payload_aad.
     res_bind (aes_gcm_decrypt P message_key (em_payload_nonce metadata) (se_encrypted_payload envelope) payload_aad)
       (\<lambda>padded_plaintext. unpad padded_plaintext))"

definition open_message ::
    "prims \<Rightarrow> codec \<Rightarrow> session_inner \<Rightarrow> secure_envelope \<Rightarrow> bool \<Rightarrow> recv_ratchet_snapshot option \<Rightarrow> nat
      \<Rightarrow> decrypt_result pres \<times> session_inner" where
  "open_message P C inner envelope is_old_epoch snapshot max_messages =
     (case open_metadata P C inner envelope is_old_epoch max_messages of
        Err e \<Rightarrow> (Err e, rollback_ratchet snapshot inner)
      | Ok metadata \<Rightarrow>
          (let recv_chain_pre = (if is_old_epoch then None
                 else map_option (\<lambda>rc. (cs_chain_key rc, cs_message_index rc)) (ps_recv_chain (si_state inner)))
           in case recv_message_key P inner is_old_epoch (se_ratchet_epoch envelope) (em_message_index metadata) of
                (Err e, inner1) \<Rightarrow> (Err e, rollback_ratchet snapshot inner1)
              | (Ok message_key, inner1) \<Rightarrow>
                  (case open_payload P inner1 envelope metadata message_key of
                     Err e \<Rightarrow>
                       (Err e, undo_message_key inner1 snapshot is_old_epoch (se_ratchet_epoch envelope)
                                 (em_message_index metadata) message_key recv_chain_pre)
                   | Ok plaintext \<Rightarrow>
                       let inner2 = remember_seen_payload_nonce inner1 (em_payload_nonce metadata)
                       in (Ok \<lparr> dr_plaintext = plaintext, dr_metadata = metadata \<rparr>,
                           if si_send_ratchet_pending inner2 then inner2
                           else (map_state (\<lambda>st. st\<lparr> ps_send_ratchet_pending := True \<rparr>) inner2)
                                  \<lparr> si_send_ratchet_pending := True \<rparr>))))"

definition decrypt :: "prims \<Rightarrow> codec \<Rightarrow> session_inner \<Rightarrow> secure_envelope \<Rightarrow> clock \<Rightarrow> decrypt_result pres \<times> session_inner" where
  "decrypt P C inner envelope clk =
     (let state = si_state inner;
          max_messages = ps_max_messages_per_chain state
      in if ps_version state = 0 then (Err (InvalidState ''Session has been destroyed''), inner)
         else case check_inner_expired state (clk 0) of
           Err e \<Rightarrow> (Err e, inner)
         | Ok expired \<Rightarrow>
           if expired then (Err (InvalidState ''Session expired''), inner)
           else case clk 1 of
             Err e \<Rightarrow> (Err e, inner)
           | Ok activity_unix \<Rightarrow>
             (case checked_add_u64 (ps_total_messages_received state) 1 of
                None \<Rightarrow> (Err (InvalidState ''Received-message counter overflow''), inner)
              | Some next_total_received \<Rightarrow>
                if se_version envelope \<noteq> PROTOCOL_VERSION then (Err (InvalidInput ''Invalid envelope version''), inner)
                else if length (se_header_nonce envelope) \<noteq> AES_GCM_NONCE_BYTES then
                  (Err (InvalidInput ''Invalid header nonce size''), inner)
                else if length (ps_metadata_key state) \<noteq> METADATA_KEY_BYTES then
                  (Err (InvalidState ''Metadata key not initialized''), inner)
                else if max_messages = 0 \<or> max_messages > MAX_MESSAGES_PER_CHAIN then
                  (Err (InvalidState ''Invalid max messages per chain''), inner)
                else case decrypt_ratchet P inner envelope of
                  (Err e, inner1) \<Rightarrow> (Err e, inner1)
                | (Ok (is_old_epoch, snapshot), inner1) \<Rightarrow>
                    (case open_message P C inner1 envelope is_old_epoch snapshot max_messages of
                       (Err e, inner2) \<Rightarrow> (Err e, inner2)
                     | (Ok result, inner2) \<Rightarrow>
                         (Ok result, map_state (\<lambda>st. st\<lparr> ps_last_activity_unix := Some activity_unix,
                            ps_total_messages_received := next_total_received \<rparr>) inner2))))"

section \<open>Accessors and destruction\<close>

definition nonce_remaining :: "session_inner \<Rightarrow> nat pres" where
  "nonce_remaining inner =
     res_bind (load_nonce_generator (si_state inner)) (\<lambda>ng.
       Ok (effective_chain_nonce_budget (si_state inner) - ns_counter (export_state ng)))"

record session_metadata =
  sm_session_id :: bytes
  sm_is_initiator :: bool
  sm_send_ratchet_epoch :: nat
  sm_recv_ratchet_epoch :: nat
  sm_send_message_index :: nat
  sm_recv_message_index :: nat
  sm_nonce_remaining :: nat
  sm_skipped_keys_count :: nat
  sm_cached_metadata_keys_count :: nat
  sm_state_counter :: nat
  sm_total_messages_sent :: nat
  sm_total_messages_received :: nat
  sm_device_id :: "bytes option"
  sm_session_ttl_seconds :: "nat option"
  sm_last_activity_unix :: "nat option"

definition get_metadata :: "session_inner \<Rightarrow> session_metadata pres" where
  "get_metadata inner =
     (let state = si_state inner
      in if ps_version state = 0 then Err (InvalidState ''Session has been destroyed'')
         else res_bind (load_nonce_generator state) (\<lambda>ng.
           Ok \<lparr> sm_session_id = ps_session_id state, sm_is_initiator = si_is_initiator inner,
                sm_send_ratchet_epoch = ps_send_ratchet_epoch state, sm_recv_ratchet_epoch = ps_recv_ratchet_epoch state,
                sm_send_message_index = (case ps_send_chain state of None \<Rightarrow> 0 | Some c \<Rightarrow> cs_message_index c),
                sm_recv_message_index = (case ps_recv_chain state of None \<Rightarrow> 0 | Some c \<Rightarrow> cs_message_index c),
                sm_nonce_remaining = effective_chain_nonce_budget state - ns_counter (export_state ng),
                sm_skipped_keys_count = length (si_skipped_message_keys inner),
                sm_cached_metadata_keys_count = length (si_cached_metadata_keys inner),
                sm_state_counter = ps_state_counter state, sm_total_messages_sent = ps_total_messages_sent state,
                sm_total_messages_received = ps_total_messages_received state, sm_device_id = ps_device_id state,
                sm_session_ttl_seconds = ps_session_ttl_seconds state,
                sm_last_activity_unix = ps_last_activity_unix state \<rparr>))"

definition is_expired :: "session_inner \<Rightarrow> nat pres \<Rightarrow> bool pres" where
  "is_expired inner now_reading =
     (if ps_version (si_state inner) = 0 then Err (InvalidState ''Session has been destroyed'')
      else check_inner_expired (si_state inner) now_reading)"

definition get_device_id :: "session_inner \<Rightarrow> bytes option pres" where
  "get_device_id inner =
     (if ps_version (si_state inner) = 0 then Err (InvalidState ''Session has been destroyed'')
      else Ok (ps_device_id (si_state inner)))"

definition set_device_id :: "session_inner \<Rightarrow> bytes \<Rightarrow> session_inner pres" where
  "set_device_id inner device_id =
     (if length device_id \<noteq> DEVICE_ID_BYTES then Err (InvalidInput ''device_id must be exactly DEVICE_ID_BYTES'')
      else if ps_version (si_state inner) = 0 then Err (InvalidState ''Session has been destroyed'')
      else Ok (map_state (\<lambda>st. st\<lparr> ps_device_id := Some device_id \<rparr>) inner))"

definition set_session_ttl :: "session_inner \<Rightarrow> nat option \<Rightarrow> session_inner pres" where
  "set_session_ttl inner ttl_seconds =
     (if (case ttl_seconds of None \<Rightarrow> False | Some ttl \<Rightarrow> \<not> (MIN_SESSION_TTL_SECONDS \<le> ttl \<and> ttl \<le> MAX_SESSION_TTL_SECONDS)) then
        Err (InvalidInput ''TTL out of allowed range'')
      else if ps_version (si_state inner) = 0 then Err (InvalidState ''Session has been destroyed'')
      else Ok (map_state (\<lambda>st. st\<lparr> ps_session_ttl_seconds := ttl_seconds \<rparr>) inner))"

definition destroy :: "session_inner \<Rightarrow> session_inner" where
  "destroy inner =
     (let state = si_state inner
      in inner\<lparr> si_state := state\<lparr>
           ps_root_key := secure_wipe (ps_root_key state), ps_metadata_key := secure_wipe (ps_metadata_key state),
           ps_send_metadata_key := secure_wipe (ps_send_metadata_key state),
           ps_send_chain := map_option wipe_chain (ps_send_chain state),
           ps_recv_chain := map_option wipe_chain (ps_recv_chain state),
           ps_dh_local := map_option wipe_dh (ps_dh_local state),
           ps_kyber_local := map_option wipe_kyber (ps_kyber_local state),
           ps_identity_binding_hash := secure_wipe (ps_identity_binding_hash state),
           ps_session_id := secure_wipe (ps_session_id state),
           ps_state_hmac := secure_wipe (ps_state_hmac state),
           ps_version := 0 \<rparr>,
         si_dh_private_handle := None, si_kyber_secret_handle := None,
         si_skipped_message_keys := [], si_cached_metadata_keys := [],
         si_pending_kyber_shared_secret := secure_wipe (si_pending_kyber_shared_secret inner),
         si_seen_payload_nonces := {}, si_seen_payload_nonce_order := [] \<rparr>)"

definition is_destroyed :: "session_inner \<Rightarrow> bool" where
  "is_destroyed inner = (ps_version (si_state inner) = 0)"

end
