(* ===== verification/Session_Inv.thy ===== *)
theory Session_Inv
  imports Session Hash_Chain
begin

text \<open>
  The receiving side of a session as an invariant: the caches are ordered, bounded and lie behind the
  receiving chain, and \<open>avail\<close> is the set of message keys, named by epoch and index, that the session
  can still produce. Every operation keeps the invariant and never enlarges \<open>avail\<close>; a message that is
  accepted uses up its key. A failed decryption leaves the session as it was, but for keys that its gap
  evicted from a full cache.
\<close>

section \<open>The receiving side\<close>

definition repoch :: "session_inner \<Rightarrow> nat" where
  "repoch inner = ps_recv_ratchet_epoch (si_state inner)"

definition rindex :: "session_inner \<Rightarrow> nat" where
  "rindex inner = (case ps_recv_chain (si_state inner) of None \<Rightarrow> 0 | Some c \<Rightarrow> cs_message_index c)"

definition avail :: "session_inner \<Rightarrow> (nat \<times> nat) set" where
  "avail inner = {(e, i). bt_get (si_skipped_message_keys inner) (e, i) \<noteq> None \<or>
     e = repoch inner \<and> rindex inner \<le> i \<or> repoch inner < e}"

definition skipped_wf :: "session_inner \<Rightarrow> bool" where
  "skipped_wf inner \<longleftrightarrow> bt_inv (si_skipped_message_keys inner) \<and>
     length (si_skipped_message_keys inner) \<le> MAX_SKIPPED_MESSAGE_KEYS \<and>
     (\<forall>e i. bt_get (si_skipped_message_keys inner) (e, i) \<noteq> None \<longrightarrow>
        repoch inner - MAX_SKIPPED_KEY_EPOCH_AGE \<le> e \<and> (e < repoch inner \<or> e = repoch inner \<and> i < rindex inner))"

definition metadata_wf :: "session_inner \<Rightarrow> bool" where
  "metadata_wf inner \<longleftrightarrow> bt_inv (si_cached_metadata_keys inner) \<and>
     length (si_cached_metadata_keys inner) \<le> MAX_CACHED_METADATA_KEYS \<and>
     (\<forall>e. bt_get (si_cached_metadata_keys inner) e \<noteq> None \<longrightarrow>
        repoch inner - (MAX_METADATA_KEY_EPOCH_AGE + 1) \<le> e \<and> e < repoch inner)"

definition seen_wf :: "session_inner \<Rightarrow> bool" where
  "seen_wf inner \<longleftrightarrow> si_seen_payload_nonces inner = set (si_seen_payload_nonce_order inner) \<and>
     distinct (si_seen_payload_nonce_order inner) \<and>
     length (si_seen_payload_nonce_order inner) \<le> MAX_SEEN_NONCES"

definition session_wf :: "session_inner \<Rightarrow> bool" where
  "session_wf inner \<longleftrightarrow> skipped_wf inner \<and> metadata_wf inner \<and> seen_wf inner \<and>
     si_replay_epoch inner = repoch inner \<and>
     ps_send_ratchet_pending (si_state inner) = si_send_ratchet_pending inner"

lemmas view_defs = repoch_def rindex_def map_state_def set_recv_chain_def

lemma avail_iff: "(e, i) \<in> avail inner \<longleftrightarrow> bt_get (si_skipped_message_keys inner) (e, i) \<noteq> None \<or>
     e = repoch inner \<and> rindex inner \<le> i \<or> repoch inner < e"
  by (simp add: avail_def)

text \<open>Two sessions with the same receiving view.\<close>

lemma avail_cong:
  "si_skipped_message_keys a = si_skipped_message_keys b \<Longrightarrow> repoch a = repoch b \<Longrightarrow> rindex a = rindex b \<Longrightarrow> avail a = avail b"
  by (simp add: avail_def)

lemma skipped_wf_cong:
  "si_skipped_message_keys a = si_skipped_message_keys b \<Longrightarrow> repoch a = repoch b \<Longrightarrow> rindex a = rindex b \<Longrightarrow>
    skipped_wf a = skipped_wf b"
  by (simp add: skipped_wf_def)

section \<open>Eviction\<close>

lemma evict_aged_fields [simp]:
  "si_state (evict_aged_skipped_keys inner) = si_state inner"
  "si_cached_metadata_keys (evict_aged_skipped_keys inner) = si_cached_metadata_keys inner"
  "repoch (evict_aged_skipped_keys inner) = repoch inner"
  "rindex (evict_aged_skipped_keys inner) = rindex inner"
  by (simp_all add: evict_aged_skipped_keys_def view_defs)

lemma evict_aged_skipped:
  "si_skipped_message_keys (evict_aged_skipped_keys inner) =
     evict_while (\<lambda>(e, _). \<not> e \<ge> repoch inner - MAX_SKIPPED_KEY_EPOCH_AGE) (si_skipped_message_keys inner)"
  by (simp add: evict_aged_skipped_keys_def repoch_def)

lemma evicted_map:
  assumes "bt_inv m"
  shows "bt_inv (evict_to n lim (evict_while old m))" "set (evict_to n lim (evict_while old m)) \<subseteq> set m"
    "n \<le> lim \<Longrightarrow> length (evict_to n lim (evict_while old m)) + n \<le> lim"
  using assms evict_to_subset [of n lim "evict_while old m"] evict_while_subset [of old m]
  by (auto simp: evict_laws)

lemma subset_get: "bt_inv m \<Longrightarrow> bt_inv m' \<Longrightarrow> set m' \<subseteq> set m \<Longrightarrow> bt_get m' k \<noteq> None \<Longrightarrow> bt_get m k \<noteq> None"
  by (auto simp: bt_get_None)

text \<open>What making room does: nothing but drop skipped keys.\<close>

lemma reserve_fields:
  assumes "reserve_skipped_capacity inner n = (r, inner1)"
  shows "inner1 = inner\<lparr> si_skipped_message_keys := si_skipped_message_keys inner1 \<rparr>"
  using assms by (auto simp: reserve_skipped_capacity_def evict_aged_skipped_keys_def Let_def split: if_splits)

lemma reserve_Err: "reserve_skipped_capacity inner n = (Err e, inner1) \<Longrightarrow> inner1 = inner \<and> n > MAX_SKIPPED_MESSAGE_KEYS"
  by (auto simp: reserve_skipped_capacity_def Let_def split: if_splits)

lemma reserve_Ok:
  assumes "reserve_skipped_capacity inner n = (Ok u, inner1)" "bt_inv (si_skipped_message_keys inner)"
  shows "bt_inv (si_skipped_message_keys inner1) \<and> set (si_skipped_message_keys inner1) \<subseteq> set (si_skipped_message_keys inner) \<and>
    length (si_skipped_message_keys inner1) + n \<le> MAX_SKIPPED_MESSAGE_KEYS"
proof -
  from assms(1) have n: "n \<le> MAX_SKIPPED_MESSAGE_KEYS"
    by (auto simp: reserve_skipped_capacity_def Let_def split: if_splits)
  have "si_skipped_message_keys inner1 = evict_to n MAX_SKIPPED_MESSAGE_KEYS
      (evict_while (\<lambda>(e, _). \<not> e \<ge> repoch inner - MAX_SKIPPED_KEY_EPOCH_AGE) (si_skipped_message_keys inner))"
    using assms(1) n by (auto simp: reserve_skipped_capacity_def Let_def evict_aged_skipped simp del: MAX_SKIPPED_MESSAGE_KEYS_def)
  with evicted_map [OF assms(2)] n show ?thesis by simp
qed

text \<open>Nothing is dropped when no key is too old and there is room.\<close>

definition no_eviction :: "session_inner \<Rightarrow> nat \<Rightarrow> bool" where
  "no_eviction inner n \<longleftrightarrow> length (si_skipped_message_keys inner) + n \<le> MAX_SKIPPED_MESSAGE_KEYS \<and>
     (\<forall>k\<in>fst ` set (si_skipped_message_keys inner). repoch inner - MAX_SKIPPED_KEY_EPOCH_AGE \<le> fst k)"

lemma evict_while_none: "(\<And>k. k \<in> fst ` set m \<Longrightarrow> \<not> old k) \<Longrightarrow> evict_while old m = m"
  by (cases m) auto

lemma reserve_no_eviction: "no_eviction inner n \<Longrightarrow> reserve_skipped_capacity inner n = (Ok (), inner)"
proof -
  assume a: "no_eviction inner n"
  let ?m = "si_skipped_message_keys inner"
  have "evict_while (\<lambda>(e, _). \<not> e \<ge> ps_recv_ratchet_epoch (si_state inner) - MAX_SKIPPED_KEY_EPOCH_AGE) ?m = ?m"
    using a by (intro evict_while_none) (auto simp: no_eviction_def repoch_def)
  then have "evict_aged_skipped_keys inner = inner" by (simp add: evict_aged_skipped_keys_def Let_def)
  moreover have "evict_to n MAX_SKIPPED_MESSAGE_KEYS ?m = ?m" "n \<le> MAX_SKIPPED_MESSAGE_KEYS"
    using a by (auto simp: no_eviction_def intro: evict_to_id)
  ultimately show ?thesis by (simp add: reserve_skipped_capacity_def Let_def del: MAX_SKIPPED_MESSAGE_KEYS_def)
qed

section \<open>Storing skipped keys\<close>

lemma skip_keys_map:
  assumes "skip_keys P epoch idx n ck sk = (r, sk')" "bt_inv sk"
  shows "bt_inv sk' \<and> length sk' \<le> length sk + n \<and>
    (\<forall>k. bt_get sk' k \<noteq> None \<longrightarrow> bt_get sk k \<noteq> None \<or> fst k = epoch \<and> idx \<le> snd k \<and> snd k < idx + n)"
  using assms
proof (induction P epoch idx n ck sk rule: skip_keys.induct)
  case (2 P epoch idx n ck sk)
  show ?case
  proof (cases "derive_message_and_chain_key P ck")
    case (Inl e)
    with 2 show ?thesis by simp
  next
    case (Inr kk)
    obtain mk nk where kk: "kk = (mk, nk)" by fastforce
    let ?sk = "bt_insert (epoch, idx) mk sk"
    have "skip_keys P epoch (idx + 1) n nk ?sk = (r, sk')" using 2(2) Inr kk by simp
    then have ih: "bt_inv sk' \<and> length sk' \<le> length ?sk + n \<and>
      (\<forall>k. bt_get sk' k \<noteq> None \<longrightarrow> bt_get ?sk k \<noteq> None \<or> fst k = epoch \<and> idx + 1 \<le> snd k \<and> snd k < idx + 1 + n)"
      by (rule 2(1) [OF Inr kk [symmetric]]) (use 2(3) in simp)
    have len: "length sk' \<le> length sk + Suc n" using ih bt_length_insert [of "(epoch, idx)" mk sk] by linarith
    have "bt_get sk k \<noteq> None \<or> fst k = epoch \<and> idx \<le> snd k \<and> snd k < idx + Suc n" if "bt_get sk' k \<noteq> None" for k
    proof (cases "k = (epoch, idx)")
      case False
      then have "bt_get ?sk k = bt_get sk k" by simp
      with ih that show ?thesis by fastforce
    qed simp
    with ih len show ?thesis by blast
  qed
qed simp_all

section \<open>The receiving chain\<close>

interpretation session_chain: ratchet_chain "derive_message_and_chain_key P" "\<lambda>ck. hkdf_ok P" for P
proof
  fix s :: bytes
  assume "hkdf_ok P"
  then show "\<exists>m s'. derive_message_and_chain_key P s = Ok (m, s') \<and> hkdf_ok P"
    using derive_key_bytes_32 [of P s "[]" MESSAGE_INFO] derive_key_bytes_32 [of P s "[]" CHAIN_INFO]
    by (auto simp: derive_message_and_chain_key_def)
qed

definition msg_of :: "prims \<Rightarrow> bytes \<Rightarrow> bytes" where
  "msg_of P ck = (case derive_message_and_chain_key P ck of Ok (mk, _) \<Rightarrow> mk | Err _ \<Rightarrow> [])"

definition next_ck :: "prims \<Rightarrow> bytes \<Rightarrow> bytes" where
  "next_ck P ck = (case derive_message_and_chain_key P ck of Ok (_, nk) \<Rightarrow> nk | Err _ \<Rightarrow> [])"

text \<open>The chain key after \<open>n\<close> steps; the key of the \<open>n\<close>-th message is \<open>msg_of\<close> of it.\<close>

fun chain_at :: "prims \<Rightarrow> bytes \<Rightarrow> nat \<Rightarrow> bytes" where
  "chain_at P ck 0 = ck"
| "chain_at P ck (Suc n) = chain_at P (next_ck P ck) n"

lemma chain_at_Suc: "chain_at P ck (Suc n) = next_ck P (chain_at P ck n)"
  by (induction n arbitrary: ck) simp_all

lemma chain_at_add: "chain_at P ck (m + n) = chain_at P (chain_at P ck m) n"
  by (induction m arbitrary: ck) simp_all

lemma derive_step: "hkdf_ok P \<Longrightarrow> derive_message_and_chain_key P ck = Ok (msg_of P ck, next_ck P ck)"
  using session_chain.derive_good [of P ck] by (auto simp: msg_of_def next_ck_def)

lemma chain_lengths: "hkdf_ok P \<Longrightarrow> length (msg_of P ck) = 32 \<and> length (next_ck P ck) = 32"
  using derive_step [of P ck] derive_key_bytes_length
  by (auto simp: derive_message_and_chain_key_def result_simps)

lemma session_chain_length: "hkdf_ok P \<Longrightarrow> length ck = 32 \<Longrightarrow> length (chain_at P ck n) = 32"
  by (induction n arbitrary: ck) (simp_all add: chain_lengths)

lemma skip_keys_exact:
  assumes "hkdf_ok P" "bt_inv sk"
  shows "\<exists>sk'. skip_keys P epoch idx n ck sk = (Ok (chain_at P ck n), sk') \<and> bt_inv sk' \<and>
    (\<forall>e i. bt_get sk' (e, i) = (if e = epoch \<and> idx \<le> i \<and> i < idx + n then Some (msg_of P (chain_at P ck (i - idx)))
       else bt_get sk (e, i)))"
  using assms(2)
proof (induction n arbitrary: idx ck sk)
  case (Suc n)
  let ?sk = "bt_insert (epoch, idx) (msg_of P ck) sk"
  from Suc.IH [of ?sk "idx + 1" "next_ck P ck"] Suc.prems obtain sk' where
    sk: "skip_keys P epoch (idx + 1) n (next_ck P ck) ?sk = (Ok (chain_at P (next_ck P ck) n), sk')" "bt_inv sk'"
    "\<forall>e i. bt_get sk' (e, i) = (if e = epoch \<and> idx + 1 \<le> i \<and> i < idx + 1 + n
       then Some (msg_of P (chain_at P (next_ck P ck) (i - (idx + 1)))) else bt_get ?sk (e, i))" by auto
  have "bt_get sk' (e, i) = (if e = epoch \<and> idx \<le> i \<and> i < idx + Suc n then Some (msg_of P (chain_at P ck (i - idx)))
       else bt_get sk (e, i))" for e i
  proof (cases "i = idx")
    case False
    have "chain_at P ck (i - idx) = chain_at P (next_ck P ck) (i - (idx + 1))" if "idx + 1 \<le> i"
      using that chain_at.simps(2) [of P ck "i - (idx + 1)"] by (simp add: Suc_diff_Suc)
    with False show ?thesis by (simp add: sk(3))
  qed (simp add: sk(3))
  with sk(1,2) show ?case using derive_step [OF assms(1), of ck] by simp
qed auto

text \<open>Taking a message key, when the derivation works.\<close>

lemma get_recv_Err:
  assumes "hkdf_ok P" "bt_inv (si_skipped_message_keys inner)"
    and "get_recv_message_key P inner i = (Err e, inner1)"
  shows "inner1 = inner"
proof -
  have miss: "bt_get (si_skipped_message_keys inner) k = None \<Longrightarrow>
      inner\<lparr> si_skipped_message_keys := bt_remove k (si_skipped_message_keys inner) \<rparr> = inner" for k
    by (simp add: bt_remove_absent)
  show ?thesis
  proof (cases "ps_recv_chain (si_state inner)")
    case (Some rc)
    let ?n = "i - cs_message_index rc"
    obtain r inner2 where res: "reserve_skipped_capacity inner ?n = (r, inner2)" by fastforce
    show ?thesis
    proof (cases r)
      case (Inl e2)
      with res have "inner2 = inner" using reserve_Err by blast
      with assms(3) Some res Inl miss show ?thesis
        by (auto simp: get_recv_message_key_def try_skipped_key_def Let_def split: if_splits option.splits)
    next
      case (Inr u)
      with res assms(2) have "bt_inv (si_skipped_message_keys inner2)" using reserve_Ok by blast
      from skip_keys_exact [OF assms(1) this] obtain sk' where
        "skip_keys P (ps_recv_ratchet_epoch (si_state inner)) (cs_message_index rc) ?n (cs_chain_key rc)
           (si_skipped_message_keys inner2) = (Ok (chain_at P (cs_chain_key rc) ?n), sk')" by blast
      with assms(3) Some res Inr miss derive_step [OF assms(1)] show ?thesis
        by (auto simp: get_recv_message_key_def try_skipped_key_def Let_def split: if_splits option.splits)
    qed
  qed (use assms(3) in \<open>simp add: get_recv_message_key_def\<close>)
qed

text \<open>The two ways to get a key: from the cache, or by advancing the chain.\<close>

definition advanced :: "prims \<Rightarrow> session_inner \<Rightarrow> chain_state \<Rightarrow> nat \<Rightarrow> session_inner \<Rightarrow> bool" where
  "advanced P inner rc i inner' \<longleftrightarrow> (\<exists>inner1 sk'.
     reserve_skipped_capacity inner (i - cs_message_index rc) = (Ok (), inner1) \<and>
     inner' = set_recv_chain (rc\<lparr> cs_chain_key := chain_at P (cs_chain_key rc) (Suc (i - cs_message_index rc)),
                cs_message_index := i + 1 \<rparr>) (inner1\<lparr> si_skipped_message_keys := sk' \<rparr>) \<and>
     bt_inv sk' \<and> length sk' \<le> MAX_SKIPPED_MESSAGE_KEYS \<and>
     (\<forall>e j. bt_get sk' (e, j) = (if e = repoch inner \<and> cs_message_index rc \<le> j \<and> j < i
        then Some (msg_of P (chain_at P (cs_chain_key rc) (j - cs_message_index rc)))
        else bt_get (si_skipped_message_keys inner1) (e, j))))"

lemma get_recv_new:
  assumes "hkdf_ok P" "bt_inv (si_skipped_message_keys inner)" "ps_recv_chain (si_state inner) = Some rc"
    and "length (cs_chain_key rc) = 32" "i \<le> MAX_MESSAGE_INDEX" "cs_message_index rc \<le> i"
    and "i - cs_message_index rc \<le> MAX_SKIPPED_MESSAGE_KEYS"
  shows "\<exists>inner'. get_recv_message_key P inner i = (Ok (msg_of P (chain_at P (cs_chain_key rc) (i - cs_message_index rc))), inner')
    \<and> advanced P inner rc i inner'"
proof -
  let ?n = "i - cs_message_index rc"
  let ?e = "ps_recv_ratchet_epoch (si_state inner)"
  obtain inner1 where res: "reserve_skipped_capacity inner ?n = (Ok (), inner1)"
    using assms(7) by (simp add: reserve_skipped_capacity_def Let_def)
  with assms(2) have inv: "bt_inv (si_skipped_message_keys inner1)"
    "length (si_skipped_message_keys inner1) + ?n \<le> MAX_SKIPPED_MESSAGE_KEYS" using reserve_Ok by blast+
  from skip_keys_exact [OF assms(1) inv(1), of ?e "cs_message_index rc" ?n "cs_chain_key rc"] obtain sk' where
    sk: "skip_keys P ?e (cs_message_index rc) ?n (cs_chain_key rc) (si_skipped_message_keys inner1)
      = (Ok (chain_at P (cs_chain_key rc) ?n), sk')" "bt_inv sk'"
    "\<forall>e j. bt_get sk' (e, j) = (if e = ?e \<and> cs_message_index rc \<le> j \<and> j < cs_message_index rc + ?n
       then Some (msg_of P (chain_at P (cs_chain_key rc) (j - cs_message_index rc)))
       else bt_get (si_skipped_message_keys inner1) (e, j))" by auto
  have len: "length sk' \<le> MAX_SKIPPED_MESSAGE_KEYS" using skip_keys_map [OF sk(1) inv(1)] inv(2) by linarith
  have "get_recv_message_key P inner i = (Ok (msg_of P (chain_at P (cs_chain_key rc) ?n)),
      set_recv_chain (rc\<lparr> cs_chain_key := next_ck P (chain_at P (cs_chain_key rc) ?n), cs_message_index := i + 1 \<rparr>)
        (inner1\<lparr> si_skipped_message_keys := sk' \<rparr>))"
    using assms(3-6) res sk(1) derive_step [OF assms(1)] by (simp add: get_recv_message_key_def Let_def)
  moreover have "cs_message_index rc + ?n = i" using assms(6) by simp
  ultimately show ?thesis using res sk(2,3) len
    by (intro exI conjI) (assumption, unfold advanced_def repoch_def, intro exI conjI,
        assumption, simp only: chain_at_Suc, assumption, assumption, simp)
qed

lemma get_recv_old:
  assumes "ps_recv_chain (si_state inner) = Some rc" "length (cs_chain_key rc) = 32" "i \<le> MAX_MESSAGE_INDEX"
    and "i < cs_message_index rc" "bt_get (si_skipped_message_keys inner) (repoch inner, i) = Some mk"
  shows "get_recv_message_key P inner i =
    (Ok mk, inner\<lparr> si_skipped_message_keys := bt_remove (repoch inner, i) (si_skipped_message_keys inner) \<rparr>)"
  using assms by (simp add: get_recv_message_key_def try_skipped_key_def repoch_def)

lemma get_recv_OkD:
  assumes "hkdf_ok P" "bt_inv (si_skipped_message_keys inner)" "get_recv_message_key P inner i = (Ok mk, inner')"
  shows "\<exists>rc. ps_recv_chain (si_state inner) = Some rc \<and> length (cs_chain_key rc) = 32 \<and>
    (i < cs_message_index rc \<and> bt_get (si_skipped_message_keys inner) (repoch inner, i) = Some mk \<and>
       inner' = inner\<lparr> si_skipped_message_keys := bt_remove (repoch inner, i) (si_skipped_message_keys inner) \<rparr> \<or>
     cs_message_index rc \<le> i \<and> mk = msg_of P (chain_at P (cs_chain_key rc) (i - cs_message_index rc)) \<and> advanced P inner rc i inner')"
proof -
  obtain rc where rc: "ps_recv_chain (si_state inner) = Some rc"
    using assms(3) by (cases "ps_recv_chain (si_state inner)") (auto simp: get_recv_message_key_def)
  have b: "length (cs_chain_key rc) = 32" "i \<le> MAX_MESSAGE_INDEX"
    using assms(3) rc by (auto simp: get_recv_message_key_def Let_def split: if_splits)
  show ?thesis
  proof (cases "i < cs_message_index rc")
    case True
    then have "bt_get (si_skipped_message_keys inner) (repoch inner, i) = Some mk"
      using assms(3) rc b by (auto simp: get_recv_message_key_def try_skipped_key_def repoch_def Let_def split: option.splits)
    with get_recv_old [OF rc b True this, of P] assms(3) rc b True show ?thesis by auto
  next
    case False
    then have i: "cs_message_index rc \<le> i" by simp
    have "i - cs_message_index rc \<le> MAX_SKIPPED_MESSAGE_KEYS"
      using assms(3) rc b False
      by (auto simp: get_recv_message_key_def reserve_skipped_capacity_def Let_def split: if_splits)
    from get_recv_new [OF assms(1,2) rc b i this] assms(3) rc b i show ?thesis by auto
  qed
qed

text \<open>The receiving steps touch the receiving chain and the skipped keys only.\<close>

definition recv_only :: "session_inner \<Rightarrow> session_inner \<Rightarrow> bool" where
  "recv_only inner inner' \<longleftrightarrow> (\<exists>rc sk. inner' = inner\<lparr> si_state := (si_state inner)\<lparr> ps_recv_chain := rc \<rparr>,
     si_skipped_message_keys := sk \<rparr>)"

lemma recv_only_refl: "recv_only inner inner"
  unfolding recv_only_def
  by (rule exI [of _ "ps_recv_chain (si_state inner)"], rule exI [of _ "si_skipped_message_keys inner"]) simp

lemma recv_only_skipped: "recv_only inner (inner\<lparr> si_skipped_message_keys := sk \<rparr>)"
  unfolding recv_only_def by (rule exI [of _ "ps_recv_chain (si_state inner)"], rule exI [of _ sk]) simp

lemma recv_only_reserve:
  "reserve_skipped_capacity inner n = (r, inner1) \<Longrightarrow> recv_only inner (set_recv_chain rc (inner1\<lparr> si_skipped_message_keys := sk \<rparr>))"
proof -
  assume "reserve_skipped_capacity inner n = (r, inner1)"
  from reserve_fields [OF this] have i1: "inner1 = inner\<lparr> si_skipped_message_keys := si_skipped_message_keys inner1 \<rparr>" .
  have "set_recv_chain rc (inner1\<lparr> si_skipped_message_keys := sk \<rparr>) =
      inner\<lparr> si_state := (si_state inner)\<lparr> ps_recv_chain := Some rc \<rparr>, si_skipped_message_keys := sk \<rparr>"
    by (subst i1) (simp add: set_recv_chain_def map_state_def)
  then show ?thesis unfolding recv_only_def by blast
qed

lemma recv_only_fields:
  assumes "recv_only inner inner'"
  shows "si_seen_payload_nonces inner' = si_seen_payload_nonces inner"
    "si_seen_payload_nonce_order inner' = si_seen_payload_nonce_order inner"
    "si_cached_metadata_keys inner' = si_cached_metadata_keys inner" "si_replay_epoch inner' = si_replay_epoch inner"
    "si_send_ratchet_pending inner' = si_send_ratchet_pending inner" "repoch inner' = repoch inner"
    "ps_send_ratchet_pending (si_state inner') = ps_send_ratchet_pending (si_state inner)"
  using assms by (auto simp: recv_only_def repoch_def)

lemma skipped_wfD:
  "skipped_wf inner \<Longrightarrow> bt_get (si_skipped_message_keys inner) (e, j) \<noteq> None \<Longrightarrow>
    repoch inner - MAX_SKIPPED_KEY_EPOCH_AGE \<le> e \<and> (e < repoch inner \<or> e = repoch inner \<and> j < rindex inner)"
  unfolding skipped_wf_def by blast

lemma skipped_wf_shrink:
  assumes "skipped_wf inner" "bt_inv sk" "length sk \<le> MAX_SKIPPED_MESSAGE_KEYS" "repoch inner' = repoch inner"
    and "si_skipped_message_keys inner' = sk" "rindex inner \<le> rindex inner'"
    and "\<And>e j. bt_get sk (e, j) \<noteq> None \<Longrightarrow> bt_get (si_skipped_message_keys inner) (e, j) \<noteq> None \<or>
      e = repoch inner \<and> rindex inner \<le> j \<and> j < rindex inner'"
  shows "skipped_wf inner' \<and> avail inner' \<subseteq> avail inner"
proof -
  have k: "repoch inner - MAX_SKIPPED_KEY_EPOCH_AGE \<le> e \<and> (e < repoch inner \<or> e = repoch inner \<and> j < rindex inner')"
    if "bt_get sk (e, j) \<noteq> None" for e j
    using skipped_wfD [OF assms(1), of e j] assms(6) assms(7) [OF that] by linarith
  then have wf: "skipped_wf inner'" using assms(2-5) by (simp add: skipped_wf_def)
  have "(e, j) \<in> avail inner" if "(e, j) \<in> avail inner'" for e j
    using that assms(4-6) assms(7) [of e j] unfolding avail_iff by auto
  with wf show ?thesis by auto
qed

lemma taken:
  assumes "hkdf_ok P" "skipped_wf inner" "get_recv_message_key P inner i = (Ok mk, inner')"
  shows "(repoch inner, i) \<in> avail inner \<and> skipped_wf inner' \<and> avail inner' \<subseteq> avail inner \<and>
    (repoch inner, i) \<notin> avail inner' \<and> recv_only inner inner'"
proof -
  have inv: "bt_inv (si_skipped_message_keys inner)" using assms(2) by (simp add: skipped_wf_def)
  from get_recv_OkD [OF assms(1) inv assms(3)] obtain rc where rc: "ps_recv_chain (si_state inner) = Some rc"
    and c: "i < cs_message_index rc \<and> bt_get (si_skipped_message_keys inner) (repoch inner, i) = Some mk \<and>
       inner' = inner\<lparr> si_skipped_message_keys := bt_remove (repoch inner, i) (si_skipped_message_keys inner) \<rparr> \<or>
     cs_message_index rc \<le> i \<and> advanced P inner rc i inner'" by blast
  have ri: "rindex inner = cs_message_index rc" using rc by (simp add: rindex_def)
  from c show ?thesis
  proof
    assume a: "i < cs_message_index rc \<and> bt_get (si_skipped_message_keys inner) (repoch inner, i) = Some mk \<and>
       inner' = inner\<lparr> si_skipped_message_keys := bt_remove (repoch inner, i) (si_skipped_message_keys inner) \<rparr>"
    have v: "repoch inner' = repoch inner" "rindex inner' = rindex inner" using a by (simp_all add: view_defs)
    have get: "bt_get (si_skipped_message_keys inner') = (bt_get (si_skipped_message_keys inner))((repoch inner, i) := None)"
      using a inv by simp
    have "skipped_wf inner' \<and> avail inner' \<subseteq> avail inner"
    proof (rule skipped_wf_shrink [OF assms(2) _ _ v(1) refl])
      show "length (si_skipped_message_keys inner') \<le> MAX_SKIPPED_MESSAGE_KEYS"
        using a assms(2) bt_length_remove [of "(repoch inner, i)" "si_skipped_message_keys inner"] by (simp add: skipped_wf_def)
    qed (use a inv v get in \<open>auto split: if_splits\<close>)
    moreover have "(repoch inner, i) \<in> avail inner" "(repoch inner, i) \<notin> avail inner'"
      using a v get ri by (simp_all add: avail_iff)
    moreover have "recv_only inner inner'"
      using a recv_only_skipped by simp
    ultimately show ?thesis by blast
  next
    assume a: "cs_message_index rc \<le> i \<and> advanced P inner rc i inner'"
    then obtain inner1 sk' where res: "reserve_skipped_capacity inner (i - cs_message_index rc) = (Ok (), inner1)"
      and in': "inner' = set_recv_chain (rc\<lparr> cs_chain_key := chain_at P (cs_chain_key rc) (Suc (i - cs_message_index rc)),
                cs_message_index := i + 1 \<rparr>) (inner1\<lparr> si_skipped_message_keys := sk' \<rparr>)"
      and sk: "bt_inv sk'" "length sk' \<le> MAX_SKIPPED_MESSAGE_KEYS"
      "\<forall>e j. bt_get sk' (e, j) = (if e = repoch inner \<and> cs_message_index rc \<le> j \<and> j < i
        then Some (msg_of P (chain_at P (cs_chain_key rc) (j - cs_message_index rc)))
        else bt_get (si_skipped_message_keys inner1) (e, j))" unfolding advanced_def by blast
    have ro: "recv_only inner inner'" unfolding in' by (rule recv_only_reserve [OF res])
    have v: "repoch inner' = repoch inner" "rindex inner' = i + 1" "si_skipped_message_keys inner' = sk'"
      using recv_only_fields [OF ro] in' by (simp_all add: view_defs)
    have sub: "bt_get (si_skipped_message_keys inner1) k \<noteq> None \<Longrightarrow> bt_get (si_skipped_message_keys inner) k \<noteq> None" for k
      using reserve_Ok [OF res inv] subset_get [OF inv] by blast
    have mem: "bt_get sk' (e, j) \<noteq> None \<Longrightarrow> bt_get (si_skipped_message_keys inner) (e, j) \<noteq> None \<or>
        e = repoch inner \<and> rindex inner \<le> j \<and> j < i" for e j
      using sk(3) sub ri by (auto split: if_splits)
    have "skipped_wf inner' \<and> avail inner' \<subseteq> avail inner"
    proof (rule skipped_wf_shrink [OF assms(2) sk(1,2) v(1,3)])
      show "rindex inner \<le> rindex inner'" using a v ri by simp
      show "bt_get (si_skipped_message_keys inner) (e, j) \<noteq> None \<or> e = repoch inner \<and> rindex inner \<le> j \<and> j < rindex inner'"
        if "bt_get sk' (e, j) \<noteq> None" for e j using mem [OF that] v(2) by auto
    qed
    moreover have "bt_get sk' (repoch inner, i) = None"
    proof (rule ccontr)
      assume "bt_get sk' (repoch inner, i) \<noteq> None"
      from mem [OF this] skipped_wfD [OF assms(2), of "repoch inner" i] a ri show False by auto
    qed
    ultimately show ?thesis using a v ri ro by (simp add: avail_iff)
  qed
qed

section \<open>The hybrid ratchet of the receiver\<close>

lemma skip_old_Err:
  assumes "hkdf_ok P" "bt_inv (si_skipped_message_keys inner)" "skip_old_chain_keys P inner pcl = (Err e, inner1)"
  shows "inner1 = inner"
proof (cases "ps_recv_chain (si_state inner)")
  case (Some rc)
  let ?n = "pcl - cs_message_index rc"
  obtain r inner2 where res: "reserve_skipped_capacity inner ?n = (r, inner2)" by fastforce
  show ?thesis
  proof (cases r)
    case (Inl e2)
    with res have "inner2 = inner" using reserve_Err by blast
    with assms(3) Some res Inl show ?thesis
      by (auto simp: skip_old_chain_keys_def Let_def split: if_splits)
  next
    case (Inr u)
    with res assms(2) have "bt_inv (si_skipped_message_keys inner2)" using reserve_Ok by blast
    from skip_keys_exact [OF assms(1) this] obtain sk' where
      "skip_keys P (ps_recv_ratchet_epoch (si_state inner)) (cs_message_index rc) ?n (cs_chain_key rc)
         (si_skipped_message_keys inner2) = (Ok (chain_at P (cs_chain_key rc) ?n), sk')" by blast
    with assms(3) Some res Inr show ?thesis
      by (auto simp: skip_old_chain_keys_def Let_def split: if_splits)
  qed
qed (use assms(3) in \<open>simp add: skip_old_chain_keys_def\<close>)

lemma skip_old_Ok:
  assumes "hkdf_ok P" "skipped_wf inner" "skip_old_chain_keys P inner pcl = (Ok u, inner')"
  shows "skipped_wf inner' \<and> avail inner' \<subseteq> avail inner \<and> recv_only inner inner'"
proof -
  have inv: "bt_inv (si_skipped_message_keys inner)" using assms(2) by (simp add: skipped_wf_def)
  obtain rc where rc: "ps_recv_chain (si_state inner) = Some rc"
    using assms(3) by (cases "ps_recv_chain (si_state inner)") (auto simp: skip_old_chain_keys_def)
  have ri: "rindex inner = cs_message_index rc" using rc by (simp add: rindex_def)
  let ?n = "pcl - cs_message_index rc"
  show ?thesis
  proof (cases "cs_message_index rc \<ge> pcl")
    case True
    then have "inner' = inner" using assms(3) rc by (auto simp: skip_old_chain_keys_def Let_def split: if_splits)
    with assms(2) show ?thesis by (simp add: recv_only_refl)
  next
    case False
    obtain r inner1 where res: "reserve_skipped_capacity inner ?n = (r, inner1)" by fastforce
    have "r \<noteq> Err e" for e using assms(3) rc res False by (auto simp: skip_old_chain_keys_def Let_def split: if_splits)
    then have r: "r = Ok ()" by (cases r) auto
    have inv1: "bt_inv (si_skipped_message_keys inner1)" "length (si_skipped_message_keys inner1) + ?n \<le> MAX_SKIPPED_MESSAGE_KEYS"
      using reserve_Ok [OF res [unfolded r] inv] by blast+
    from skip_keys_exact [OF assms(1) inv1(1)] obtain sk' where
      sk: "skip_keys P (ps_recv_ratchet_epoch (si_state inner)) (cs_message_index rc) ?n (cs_chain_key rc)
         (si_skipped_message_keys inner1) = (Ok (chain_at P (cs_chain_key rc) ?n), sk')" by blast
    have in': "inner' = set_recv_chain (rc\<lparr> cs_chain_key := chain_at P (cs_chain_key rc) ?n, cs_message_index := pcl \<rparr>)
        (inner1\<lparr> si_skipped_message_keys := sk' \<rparr>)"
      using assms(3) rc res r False sk by (auto simp: skip_old_chain_keys_def Let_def split: if_splits)
    have ro: "recv_only inner inner'" unfolding in' by (rule recv_only_reserve [OF res])
    have v: "repoch inner' = repoch inner" "rindex inner' = pcl" "si_skipped_message_keys inner' = sk'"
      using recv_only_fields [OF ro] in' by (simp_all add: view_defs)
    have m: "bt_inv sk'" "length sk' \<le> MAX_SKIPPED_MESSAGE_KEYS"
      using skip_keys_map [OF sk inv1(1)] inv1(2) by auto
    have "skipped_wf inner' \<and> avail inner' \<subseteq> avail inner"
    proof (rule skipped_wf_shrink [OF assms(2) m v(1,3)])
      show "rindex inner \<le> rindex inner'" using False v ri by simp
      fix e j
      assume "bt_get sk' (e, j) \<noteq> None"
      then have "bt_get (si_skipped_message_keys inner1) (e, j) \<noteq> None \<or> e = repoch inner \<and> cs_message_index rc \<le> j \<and> j < pcl"
        using skip_keys_map [OF sk inv1(1)] False unfolding repoch_def by fastforce
      moreover have "bt_get (si_skipped_message_keys inner1) (e, j) \<noteq> None \<Longrightarrow> bt_get (si_skipped_message_keys inner) (e, j) \<noteq> None"
        using reserve_Ok [OF res [unfolded r] inv] subset_get [OF inv] by blast
      ultimately show "bt_get (si_skipped_message_keys inner) (e, j) \<noteq> None \<or> e = repoch inner \<and> rindex inner \<le> j \<and> j < rindex inner'"
        using v ri by auto
    qed
    with ro show ?thesis by blast
  qed
qed

text \<open>The last part of \<open>apply_recv_ratchet\<close>, once the new keys are known.\<close>

definition enter_epoch :: "session_inner \<Rightarrow> bytes \<Rightarrow> bytes \<Rightarrow> bytes \<times> bytes \<times> bytes \<Rightarrow> session_inner" where
  "enter_epoch inner1 dh_public new_kyber_pk keys =
     (case keys of (new_root, new_chain, new_metadata) \<Rightarrow>
      let state = si_state inner1;
          inner2 = enforce_metadata_cache_limit
            (inner1\<lparr> si_cached_metadata_keys :=
               bt_insert (ps_recv_ratchet_epoch state) (ps_metadata_key state) (si_cached_metadata_keys inner1) \<rparr>);
          inner4 = (map_state (\<lambda>st. st\<lparr> ps_root_key := new_root, ps_metadata_key := new_metadata,
            ps_recv_chain := Some \<lparr> cs_message_index = 0, cs_chain_key = new_chain, cs_skipped_message_keys = [] \<rparr>,
            ps_recv_ratchet_epoch := ps_recv_ratchet_epoch state + 1,
            ps_dh_remote_public := dh_public, ps_kyber_remote_public := new_kyber_pk \<rparr>) inner2)
              \<lparr> si_replay_epoch := ps_recv_ratchet_epoch state + 1 \<rparr>
      in (map_state (\<lambda>st. st\<lparr> ps_send_ratchet_pending := True \<rparr>) (enforce_cache_limit inner4))
           \<lparr> si_send_ratchet_pending := True \<rparr>)"

lemma apply_recv_Ok:
  assumes "apply_recv_ratchet P inner envelope = (Ok u, inner')"
  shows "\<exists>inner1 dh_public kyber_ct new_kyber_pk keys.
    check_ratchet_header P inner envelope = Ok (dh_public, kyber_ct, new_kyber_pk) \<and>
    (case se_previous_chain_length envelope of None \<Rightarrow> (Ok (), inner) | Some pcl \<Rightarrow> skip_old_chain_keys P inner pcl) = (Ok (), inner1) \<and>
    recv_ratchet_material P inner1 dh_public kyber_ct new_kyber_pk = Ok keys \<and>
    ps_recv_ratchet_epoch (si_state inner1) + 1 \<le> u64_max \<and> inner' = enter_epoch inner1 dh_public new_kyber_pk keys"
proof -
  obtain dh ct pk where h: "check_ratchet_header P inner envelope = Ok (dh, ct, pk)"
    using assms by (cases "check_ratchet_header P inner envelope") (auto simp: apply_recv_ratchet_def)
  obtain r inner1 where s: "(case se_previous_chain_length envelope of None \<Rightarrow> (Ok (), inner)
      | Some pcl \<Rightarrow> skip_old_chain_keys P inner pcl) = (r, inner1)" by fastforce
  have r: "r = Ok ()" using assms h s by (cases r) (auto simp: apply_recv_ratchet_def)
  obtain keys where k: "recv_ratchet_material P inner1 dh ct pk = Ok keys"
    using assms h s r by (cases "recv_ratchet_material P inner1 dh ct pk") (auto simp: apply_recv_ratchet_def)
  obtain a b c where keys: "keys = (a, b, c)" by (cases keys)
  show ?thesis
  proof (intro exI conjI)
    show "ps_recv_ratchet_epoch (si_state inner1) + 1 \<le> u64_max" "inner' = enter_epoch inner1 dh pk keys"
      using assms h s r k keys
      by (auto simp: apply_recv_ratchet_def enter_epoch_def checked_add_u64_def Let_def map_state_def split: if_splits)
  qed (use h s r k in auto)
qed

text \<open>The fields that receiving a message does not touch before the message is accepted.\<close>

definition recv_frame :: "session_inner \<Rightarrow> session_inner \<Rightarrow> bool" where
  "recv_frame inner inner' \<longleftrightarrow>
     si_pending_kyber_shared_secret inner' = si_pending_kyber_shared_secret inner \<and>
     si_seen_payload_nonces inner' = si_seen_payload_nonces inner \<and>
     si_seen_payload_nonce_order inner' = si_seen_payload_nonce_order inner \<and>
     si_is_initiator inner' = si_is_initiator inner \<and> si_dh_private_handle inner' = si_dh_private_handle inner \<and>
     si_kyber_secret_handle inner' = si_kyber_secret_handle inner \<and> si_event_handler inner' = si_event_handler inner \<and>
     si_messages_since_last_dh_ratchet inner' = si_messages_since_last_dh_ratchet inner"

lemma recv_frame_refl [simp]: "recv_frame inner inner"
  by (simp add: recv_frame_def)

lemma recv_frame_trans: "recv_frame a b \<Longrightarrow> recv_frame b c \<Longrightarrow> recv_frame a c"
  by (simp add: recv_frame_def)

lemma recv_only_frame: "recv_only inner inner' \<Longrightarrow> recv_frame inner inner'"
  by (auto simp: recv_only_def recv_frame_def)

lemma rollback_exact:
  "recv_frame inner inner1 \<Longrightarrow> rollback_ratchet (Some (take_ratchet_snapshot inner)) inner1 = inner"
  by (simp add: rollback_ratchet_def take_ratchet_snapshot_def recv_frame_def)

lemma enforce_frames:
  "recv_frame inner (enforce_cache_limit inner)" "recv_frame inner (enforce_metadata_cache_limit inner)"
  "recv_frame inner (map_state f inner)"
  by (simp_all add: recv_frame_def enforce_cache_limit_def evict_aged_skipped_keys_def
      enforce_metadata_cache_limit_def map_state_def Let_def)

lemma enter_epoch_fields:
  assumes "keys = (new_root, new_chain, new_metadata)"
  shows "recv_frame inner1 (enter_epoch inner1 dh pk keys)"
    "si_state (enter_epoch inner1 dh pk keys) = (si_state inner1)\<lparr> ps_root_key := new_root, ps_metadata_key := new_metadata,
       ps_recv_chain := Some \<lparr> cs_message_index = 0, cs_chain_key = new_chain, cs_skipped_message_keys = [] \<rparr>,
       ps_recv_ratchet_epoch := repoch inner1 + 1, ps_dh_remote_public := dh, ps_kyber_remote_public := pk,
       ps_send_ratchet_pending := True \<rparr>"
    "si_send_ratchet_pending (enter_epoch inner1 dh pk keys)"
    "si_replay_epoch (enter_epoch inner1 dh pk keys) = repoch inner1 + 1"
    "si_skipped_message_keys (enter_epoch inner1 dh pk keys) = evict_to 0 MAX_SKIPPED_MESSAGE_KEYS
       (evict_while (\<lambda>(e, _). \<not> e \<ge> repoch inner1 + 1 - MAX_SKIPPED_KEY_EPOCH_AGE) (si_skipped_message_keys inner1))"
    "si_cached_metadata_keys (enter_epoch inner1 dh pk keys) = evict_to 0 MAX_CACHED_METADATA_KEYS
       (evict_while (\<lambda>e. e < repoch inner1 - MAX_METADATA_KEY_EPOCH_AGE)
          (bt_insert (repoch inner1) (ps_metadata_key (si_state inner1)) (si_cached_metadata_keys inner1)))"
  using assms
  by (simp_all add: enter_epoch_def recv_frame_def enforce_cache_limit_def evict_aged_skipped_keys_def
      enforce_metadata_cache_limit_def map_state_def Let_def repoch_def
      del: MAX_SKIPPED_MESSAGE_KEYS_def MAX_CACHED_METADATA_KEYS_def MAX_SKIPPED_KEY_EPOCH_AGE_def MAX_METADATA_KEY_EPOCH_AGE_def)

lemma evicted_old:
  assumes "bt_inv m" "\<And>a b. a \<le> b \<Longrightarrow> old b \<Longrightarrow> old a" "bt_get (evict_to n lim (evict_while old m)) k \<noteq> None"
  shows "\<not> old k"
proof -
  have "k \<in> fst ` set (evict_while old m)"
    using assms(3) evict_to_subset [of n lim "evict_while old m"] by (auto simp: bt_get_None)
  with evict_while_filter [of m old] assms(1,2) show ?thesis by auto
qed

lemma enter_epoch_wf:
  assumes "skipped_wf inner1" "metadata_wf inner1"
  shows "skipped_wf (enter_epoch inner1 dh pk keys) \<and> metadata_wf (enter_epoch inner1 dh pk keys) \<and>
    avail (enter_epoch inner1 dh pk keys) \<subseteq> avail inner1 \<and>
    repoch (enter_epoch inner1 dh pk keys) = repoch inner1 + 1 \<and> rindex (enter_epoch inner1 dh pk keys) = 0"
proof -
  obtain a b c where k: "keys = (a, b, c)" by (cases keys)
  let ?i = "enter_epoch inner1 dh pk keys"
  note f = enter_epoch_fields [OF k, of inner1 dh pk]
  have v: "repoch ?i = repoch inner1 + 1" "rindex ?i = 0" using f(2) by (simp_all add: repoch_def rindex_def)
  have inv: "bt_inv (si_skipped_message_keys inner1)" "bt_inv (si_cached_metadata_keys inner1)"
    using assms by (simp_all add: skipped_wf_def metadata_wf_def)
  let ?old = "\<lambda>(e, j :: nat). \<not> e \<ge> repoch inner1 + 1 - MAX_SKIPPED_KEY_EPOCH_AGE"
  have sk: "bt_inv (si_skipped_message_keys ?i)" "length (si_skipped_message_keys ?i) \<le> MAX_SKIPPED_MESSAGE_KEYS"
    "set (si_skipped_message_keys ?i) \<subseteq> set (si_skipped_message_keys inner1)"
    using evicted_map [OF inv(1), of 0 MAX_SKIPPED_MESSAGE_KEYS ?old] unfolding f(5) by simp_all
  have mono: "a \<le> b \<Longrightarrow> ?old b \<Longrightarrow> ?old a" for a b by (auto simp: less_eq_prod_def)
  have kept: "repoch ?i - MAX_SKIPPED_KEY_EPOCH_AGE \<le> e \<and> e < repoch ?i \<and> bt_get (si_skipped_message_keys inner1) (e, j) \<noteq> None"
    if "bt_get (si_skipped_message_keys ?i) (e, j) \<noteq> None" for e j
  proof -
    have "bt_get (si_skipped_message_keys inner1) (e, j) \<noteq> None" using subset_get [OF inv(1) sk(1,3) that] .
    moreover have "\<not> ?old (e, j)" by (rule evicted_old [OF inv(1) _ that [unfolded f(5)]]) (rule mono)
    ultimately show ?thesis using skipped_wfD [OF assms(1), of e j] v by auto
  qed
  have 1: "skipped_wf ?i" unfolding skipped_wf_def using sk(1,2) kept v by blast
  have 2: "(e, j) \<in> avail inner1" if "(e, j) \<in> avail ?i" for e j
    using that kept [of e j] v unfolding avail_iff by auto
  let ?m = "bt_insert (repoch inner1) (ps_metadata_key (si_state inner1)) (si_cached_metadata_keys inner1)"
  let ?oldm = "\<lambda>e. e < repoch inner1 - MAX_METADATA_KEY_EPOCH_AGE"
  have md: "bt_inv (si_cached_metadata_keys ?i)" "length (si_cached_metadata_keys ?i) \<le> MAX_CACHED_METADATA_KEYS"
    "set (si_cached_metadata_keys ?i) \<subseteq> set ?m"
    using evicted_map [of ?m 0 MAX_CACHED_METADATA_KEYS ?oldm] inv(2) unfolding f(6) by simp_all
  have "repoch ?i - (MAX_METADATA_KEY_EPOCH_AGE + 1) \<le> e \<and> e < repoch ?i" if "bt_get (si_cached_metadata_keys ?i) e \<noteq> None" for e
  proof -
    have "bt_get ?m e \<noteq> None" using subset_get [OF _ md(1,3) that] inv(2) by simp
    then have "e = repoch inner1 \<or> bt_get (si_cached_metadata_keys inner1) e \<noteq> None" by (auto split: if_splits)
    moreover have "\<not> ?oldm e" by (rule evicted_old [OF _ _ that [unfolded f(6)]]) (use inv(2) in auto)
    ultimately show ?thesis using assms(2) v unfolding metadata_wf_def by auto
  qed
  then have 3: "metadata_wf ?i" unfolding metadata_wf_def using md(1,2) by blast
  from 1 2 3 v show ?thesis by auto
qed

end
