(* ===== verification/Session_Seal.thy ===== *)
theory Session_Seal
  imports Session
begin

text \<open>
  Persisting a session (\<^verbatim>\<open>protocol/session.rs\<close>): export of the state under a fresh data key that is
  wrapped by the caller's key and bound to an external counter, and the validation of an imported
  state. The lock is released while the exported copy is encrypted; here no other operation runs in
  between.
\<close>

section \<open>Export\<close>

definition SEALED_STATE_VERSION :: nat where
  [simp]: "SEALED_STATE_VERSION = 1"

definition dek_aad :: "nat \<Rightarrow> bytes" where
  "dek_aad external_counter = word_of_nat SEALED_STATE_VERSION # le_bytes 8 external_counter"

definition state_aad :: "bytes \<Rightarrow> bytes \<Rightarrow> bytes" where
  "state_aad dek_nonce encrypted_dek = word_of_nat SEALED_STATE_VERSION # dek_nonce @ encrypted_dek"

definition clear_chain_keys :: "chain_state option \<Rightarrow> chain_state option" where
  "clear_chain_keys = map_option (\<lambda>c. c\<lparr> cs_skipped_message_keys := [] \<rparr>)"

text \<open>The copy of the state that is exported, with the secrets and caches of the session put back.\<close>

definition export_copy :: "session_inner \<Rightarrow> protocol_state pres" where
  "export_copy inner =
     (let state = si_state inner
      in res_bind (case (ps_dh_local state, si_dh_private_handle inner) of
             (Some dh, Some handle) \<Rightarrow>
               res_bind (map_err CryptoErr (read_bytes handle X25519_PRIVATE_KEY_BYTES)) (\<lambda>b.
                 Ok (Some (dh\<lparr> dkp_private_key := b \<rparr>)))
           | (dh, _) \<Rightarrow> Ok dh) (\<lambda>dh_local.
         res_bind (case (ps_kyber_local state, si_kyber_secret_handle inner) of
             (Some kyber, Some handle) \<Rightarrow>
               res_bind (map_err CryptoErr (read_bytes handle KYBER_SECRET_KEY_BYTES)) (\<lambda>b.
                 Ok (Some (kyber\<lparr> kkp_secret_key := b \<rparr>)))
           | (kyber, _) \<Rightarrow> Ok kyber) (\<lambda>kyber_local.
         Ok (state\<lparr>
           ps_send_chain := clear_chain_keys (ps_send_chain state),
           ps_recv_chain := clear_chain_keys (ps_recv_chain state),
           ps_state_counter := ps_state_counter state + 1,
           ps_state_hmac := [],
           ps_dh_local := dh_local,
           ps_kyber_local := kyber_local,
           ps_replay_epoch := si_replay_epoch inner,
           ps_seen_payload_nonces := si_seen_payload_nonce_order inner,
           ps_skipped_keys := map (\<lambda>((epoch, msg_idx), key).
             \<lparr> cmk_message_index = msg_idx, cmk_message_key = key, cmk_epoch = epoch \<rparr>) (si_skipped_message_keys inner),
           ps_cached_metadata_keys := map (\<lambda>(epoch, key). \<lparr> cdk_epoch = epoch, cdk_metadata_key = key \<rparr>)
             (si_cached_metadata_keys inner) \<rparr>))))"

text \<open>Encryption of the copy; \<open>kek\<close> is what the key provider returns.\<close>

definition seal_copy ::
    "prims \<Rightarrow> codec \<Rightarrow> protocol_state \<Rightarrow> handle pres \<Rightarrow> nat \<Rightarrow> bytes \<Rightarrow> bytes \<Rightarrow> bytes \<Rightarrow> bytes pres" where
  "seal_copy P C copy kek external_counter dek dek_nonce state_nonce =
     res_bind (ok_or (Encode ''Failed to serialize state: {e}'') (encode_state C copy)) (\<lambda>tmp.
     res_bind (compute_state_hmac P (ps_root_key copy) tmp) (\<lambda>hmac.
     res_bind (ok_or (Encode ''Failed to serialize state: {e}'') (encode_state C (copy\<lparr> ps_state_hmac := hmac \<rparr>)))
       (\<lambda>plaintext_state.
     res_bind kek (\<lambda>kek_handle.
     res_bind (map_err CryptoErr (read_bytes kek_handle AES_KEY_BYTES)) (\<lambda>kek_bytes.
     res_bind (aes_gcm_encrypt P kek_bytes dek_nonce dek (dek_aad external_counter)) (\<lambda>encrypt_dek.
     res_bind (aes_gcm_encrypt P dek state_nonce plaintext_state (state_aad dek_nonce encrypt_dek)) (\<lambda>encrypt_state.
       ok_or (Encode ''Failed to serialize sealed state: {e}'')
         (encode_sealed C \<lparr> ss_version = SEALED_STATE_VERSION, ss_dek_nonce = dek_nonce, ss_state_nonce = state_nonce,
            ss_encrypted_dek = encrypt_dek, ss_encrypted_state = encrypt_state,
            ss_external_counter = external_counter \<rparr>))))))))"

definition export_sealed_state ::
    "prims \<Rightarrow> codec \<Rightarrow> session_inner \<Rightarrow> handle pres \<Rightarrow> nat \<Rightarrow> bytes \<Rightarrow> bytes \<Rightarrow> bytes \<Rightarrow> bytes pres \<times> session_inner" where
  "export_sealed_state P C inner kek external_counter dek dek_nonce state_nonce =
     (if external_counter = 0 then (Err (InvalidInput ''External sealed-state counter must be > 0''), inner)
      else if ps_version (si_state inner) = 0 then (Err (InvalidState ''Session has been destroyed''), inner)
      else if ps_state_counter (si_state inner) = u64_max then (Err (InvalidState ''State counter overflow''), inner)
      else
        let previous_gen = ps_state_counter (si_state inner);
            next_gen = previous_gen + 1
        in case export_copy inner of
             Err e \<Rightarrow> (Err e, inner)
           | Ok copy \<Rightarrow>
               let inner1 = map_state (\<lambda>st. st\<lparr> ps_state_counter := next_gen \<rparr>) inner
               in (case seal_copy P C copy kek external_counter dek dek_nonce state_nonce of
                     Ok output \<Rightarrow> (Ok output, inner1)
                   | Err e \<Rightarrow>
                       (Err e, if ps_state_counter (si_state inner1) = next_gen
                               then map_state (\<lambda>st. st\<lparr> ps_state_counter := previous_gen \<rparr>) inner1 else inner1)))"

section \<open>Import\<close>

text \<open>The first group of checks: version, key sizes and the state HMAC over the state with its HMAC
  field cleared. A state without a separate sending metadata key gets the receiving one.\<close>

definition fill_send_metadata_key :: "protocol_state \<Rightarrow> protocol_state" where
  "fill_send_metadata_key state =
     (if ps_send_metadata_key state = [] then state\<lparr> ps_send_metadata_key := ps_metadata_key state \<rparr> else state)"

definition check_state_hmac :: "prims \<Rightarrow> codec \<Rightarrow> protocol_state \<Rightarrow> protocol_state pres" where
  "check_state_hmac P C state0 =
     (if ps_version state0 \<noteq> PROTOCOL_VERSION then Err (InvalidInput ''Invalid protocol version in state'')
      else
        let state = fill_send_metadata_key state0
        in if length (ps_session_id state) \<noteq> SESSION_ID_BYTES \<or> length (ps_root_key state) \<noteq> ROOT_KEY_BYTES \<or>
              length (ps_metadata_key state) \<noteq> METADATA_KEY_BYTES \<or>
              length (ps_send_metadata_key state) \<noteq> METADATA_KEY_BYTES then
             Err (InvalidInput ''Invalid session key material sizes'')
           else if length (ps_state_hmac state) \<noteq> HMAC_BYTES then
             Err (InvalidInput ''State HMAC missing or invalid size -- possible tampering'')
           else if ps_state_counter state = 0 then
             Err (InvalidInput ''State counter must be non-zero for imported state'')
           else
             let cleared = state\<lparr> ps_state_hmac := [] \<rparr>
             in res_bind (ok_or (Encode ''Failed to re-serialize state for HMAC: {e}'') (encode_state C cleared)) (\<lambda>tmp.
                res_bind (compute_state_hmac P (ps_root_key cleared) tmp) (\<lambda>expected.
                res_bind (map_err CryptoErr (constant_time_equals (ps_state_hmac state) expected)) (\<lambda>eq.
                  if \<not> eq then Err (InvalidInput ''State HMAC verification failed -- possible rollback or tampering'')
                  else Ok cleared))))"

definition check_state_keys :: "prims \<Rightarrow> protocol_state \<Rightarrow> unit pres" where
  "check_state_keys P state =
     res_bind (ok_or (InvalidInput ''Missing dh_local in state'') (ps_dh_local state)) (\<lambda>dh_local.
       if length (dkp_private_key dh_local) \<noteq> X25519_PRIVATE_KEY_BYTES \<or>
          length (dkp_public_key dh_local) \<noteq> X25519_PUBLIC_KEY_BYTES \<or>
          length (ps_dh_remote_public state) \<noteq> X25519_PUBLIC_KEY_BYTES then
         Err (InvalidInput ''Invalid DH key sizes in state'')
       else if length (ps_dh_local_initial_public state) \<noteq> X25519_PUBLIC_KEY_BYTES \<or>
          length (ps_dh_remote_initial_public state) \<noteq> X25519_PUBLIC_KEY_BYTES then
         Err (InvalidInput ''Invalid initial DH public key sizes in state'')
       else
         res_bind (ok_or (InvalidInput ''Missing kyber_local in state'') (ps_kyber_local state)) (\<lambda>kyber_local.
           if length (kkp_secret_key kyber_local) \<noteq> KYBER_SECRET_KEY_BYTES \<or>
              length (kkp_public_key kyber_local) \<noteq> KYBER_PUBLIC_KEY_BYTES \<or>
              length (ps_kyber_remote_public state) \<noteq> KYBER_PUBLIC_KEY_BYTES then
             Err (InvalidInput ''Invalid Kyber key sizes in state'')
           else
             res_bind (ok_or (InvalidInput ''Missing send_chain in state'') (ps_send_chain state)) (\<lambda>send_chain.
             res_bind (ok_or (InvalidInput ''Missing recv_chain in state'') (ps_recv_chain state)) (\<lambda>recv_chain.
               if length (cs_chain_key send_chain) \<noteq> CHAIN_KEY_BYTES \<or> length (cs_chain_key recv_chain) \<noteq> CHAIN_KEY_BYTES then
                 Err (InvalidInput ''Invalid chain key sizes in state'')
               else
                 res_bind (ok_or (InvalidInput ''Missing nonce_generator in state'') (ps_nonce_generator state)) (\<lambda>nonce_gen.
                   let limit = (if ps_max_nonce_counter state = 0 then MAX_NONCE_COUNTER
                                else min (ps_max_nonce_counter state) MAX_NONCE_COUNTER);
                       max_messages = ps_max_messages_per_chain state
                   in if length (nsp_prefix nonce_gen) \<noteq> NONCE_PREFIX_BYTES then
                        Err (InvalidInput ''Invalid nonce prefix size in state'')
                      else if max_messages = 0 \<or> max_messages > MAX_MESSAGES_PER_CHAIN then
                        Err (InvalidInput ''Invalid max messages per chain in state'')
                      else if cs_message_index send_chain > max_messages \<or> cs_message_index recv_chain > max_messages then
                        Err (InvalidInput ''Chain index exceeds max messages per chain'')
                      else if nsp_counter nonce_gen > limit then Err (InvalidState ''Nonce counter exceeds maximum'')
                      else if is_all_zero (dkp_private_key dh_local) then Err (InvalidInput ''DH private key is all zeros'')
                      else if is_all_zero (kkp_secret_key kyber_local) then
                        Err (InvalidInput ''Kyber secret key is all zeros'')
                      else
                        res_bind (validate_x25519_public_key (dkp_public_key dh_local)) (\<lambda>_.
                        res_bind (validate_x25519_public_key (ps_dh_remote_public state)) (\<lambda>_.
                        res_bind (validate_x25519_public_key (ps_dh_local_initial_public state)) (\<lambda>_.
                        res_bind (validate_x25519_public_key (ps_dh_remote_initial_public state)) (\<lambda>_.
                        res_bind (map_err CryptoErr (kyber_validate_public_key P (kkp_public_key kyber_local))) (\<lambda>_.
                          map_err CryptoErr (kyber_validate_public_key P (ps_kyber_remote_public state))))))))))))"

definition check_state_identity :: "prims \<Rightarrow> protocol_state \<Rightarrow> unit pres" where
  "check_state_identity P state =
     (if length (ps_local_identity_ed25519_public state) \<noteq> ED25519_PUBLIC_KEY_BYTES \<or>
         length (ps_local_identity_x25519_public state) \<noteq> X25519_PUBLIC_KEY_BYTES \<or>
         length (ps_peer_identity_ed25519_public state) \<noteq> ED25519_PUBLIC_KEY_BYTES \<or>
         length (ps_peer_identity_x25519_public state) \<noteq> X25519_PUBLIC_KEY_BYTES then
        Err (InvalidInput ''Invalid identity key sizes in state'')
      else if length (ps_identity_binding_hash state) \<noteq> IDENTITY_BINDING_HASH_BYTES then
        Err (InvalidInput ''Missing or invalid identity binding hash'')
      else
        res_bind (compute_identity_binding_hash P (ps_local_identity_ed25519_public state)
                    (ps_local_identity_x25519_public state) (ps_peer_identity_ed25519_public state)
                    (ps_peer_identity_x25519_public state)) (\<lambda>computed_binding.
        res_bind (map_err CryptoErr (constant_time_equals computed_binding (ps_identity_binding_hash state))) (\<lambda>eq.
          if \<not> eq then Err (InvalidInput ''Identity binding hash verification failed'') else Ok ())))"

text \<open>The caches: the keys of the list are stored in the map, each at most once.\<close>

fun load_skipped :: "nat \<Rightarrow> cached_message_key list \<Rightarrow> (nat \<times> nat) set \<Rightarrow> (nat \<times> nat, bytes) btree
    \<Rightarrow> (nat \<times> nat, bytes) btree pres" where
  "load_skipped recv_epoch [] seen_tuples skipped = Ok skipped"
| "load_skipped recv_epoch (cached # rest) seen_tuples skipped =
     (if length (cmk_message_key cached) \<noteq> MESSAGE_KEY_BYTES then
        Err (InvalidInput ''Invalid skipped message key size in state'')
      else if cmk_message_index cached > MAX_MESSAGE_INDEX then
        Err (InvalidInput ''Cached message key index exceeds maximum'')
      else if cmk_epoch cached > recv_epoch then
        Err (InvalidInput ''Cached message key epoch exceeds current recv epoch'')
      else if (cmk_epoch cached, cmk_message_index cached) \<in> seen_tuples then
        Err (InvalidInput ''Duplicate skipped message key'')
      else load_skipped recv_epoch rest (insert (cmk_epoch cached, cmk_message_index cached) seen_tuples)
             (bt_insert (cmk_epoch cached, cmk_message_index cached) (cmk_message_key cached) skipped))"

fun load_chain_skipped :: "nat \<Rightarrow> nat \<Rightarrow> cached_message_key list \<Rightarrow> (nat \<times> nat, bytes) btree
    \<Rightarrow> (nat \<times> nat, bytes) btree pres" where
  "load_chain_skipped epoch chain_index [] skipped = Ok skipped"
| "load_chain_skipped epoch chain_index (cached # rest) skipped =
     (if length (cmk_message_key cached) \<noteq> MESSAGE_KEY_BYTES then
        Err (InvalidInput ''Invalid skipped message key size in state'')
      else if cmk_message_index cached \<ge> chain_index then
        Err (InvalidInput ''Cached message key index out of range'')
      else load_chain_skipped epoch chain_index rest
             (bt_insert (epoch, cmk_message_index cached) (cmk_message_key cached) skipped))"

fun load_metadata_keys :: "nat \<Rightarrow> cached_metadata_key list \<Rightarrow> nat set \<Rightarrow> (nat, bytes) btree
    \<Rightarrow> (nat, bytes) btree pres" where
  "load_metadata_keys recv_epoch [] seen_epochs cached_mk = Ok cached_mk"
| "load_metadata_keys recv_epoch (entry # rest) seen_epochs cached_mk =
     (if length (cdk_metadata_key entry) \<noteq> METADATA_KEY_BYTES then
        Err (InvalidInput ''Invalid cached metadata key size in state'')
      else if cdk_epoch entry > recv_epoch then
        Err (InvalidInput ''Cached metadata key epoch exceeds current recv epoch'')
      else if cdk_epoch entry \<in> seen_epochs then Err (InvalidInput ''Duplicate cached metadata key epoch'')
      else load_metadata_keys recv_epoch rest (insert (cdk_epoch entry) seen_epochs)
             (bt_insert (cdk_epoch entry) (cdk_metadata_key entry) cached_mk))"

definition load_message_caches ::
    "protocol_state \<Rightarrow> ((nat \<times> nat, bytes) btree \<times> (nat, bytes) btree) pres" where
  "load_message_caches state =
     (let send_skipped = (case ps_send_chain state of None \<Rightarrow> [] | Some c \<Rightarrow> cs_skipped_message_keys c);
          recv_skipped = (case ps_recv_chain state of None \<Rightarrow> [] | Some c \<Rightarrow> cs_skipped_message_keys c);
          recv_index = (case ps_recv_chain state of None \<Rightarrow> 0 | Some c \<Rightarrow> cs_message_index c)
      in if send_skipped \<noteq> [] then Err (InvalidInput ''Send chain must not include skipped message keys'')
         else if length (ps_skipped_keys state) > MAX_SKIPPED_MESSAGE_KEYS then
           Err (InvalidInput ''Too many skipped message keys in state'')
         else
           res_bind (load_skipped (ps_recv_ratchet_epoch state) (ps_skipped_keys state) {} []) (\<lambda>skipped.
           res_bind (if skipped = [] \<and> recv_skipped \<noteq> [] then
               (if length recv_skipped > MAX_SKIPPED_MESSAGE_KEYS then
                  Err (InvalidInput ''Too many skipped message keys in state'')
                else load_chain_skipped (ps_recv_ratchet_epoch state) recv_index recv_skipped skipped)
             else Ok skipped) (\<lambda>skipped1.
             if length (ps_cached_metadata_keys state) > MAX_CACHED_METADATA_KEYS then
               Err (InvalidInput ''Too many cached metadata keys in state'')
             else
               res_bind (load_metadata_keys (ps_recv_ratchet_epoch state) (ps_cached_metadata_keys state) {} [])
                 (\<lambda>cached_mk. Ok (skipped1, cached_mk)))))"

definition from_state_internal :: "prims \<Rightarrow> codec \<Rightarrow> protocol_state \<Rightarrow> session_inner pres" where
  "from_state_internal P C state0 =
     res_bind (check_state_hmac P C state0) (\<lambda>state.
     res_bind (check_state_keys P state) (\<lambda>_.
     res_bind (check_state_identity P state) (\<lambda>_.
     res_bind (load_message_caches state) (\<lambda>(skipped, cached_mk).
     res_bind (rebuild_seen_payload_nonce_cache (ps_seen_payload_nonces state)) (\<lambda>(seen, order).
       let sanitized = state\<lparr> ps_seen_payload_nonces := [], ps_skipped_keys := [], ps_cached_metadata_keys := [],
             ps_send_chain := clear_chain_keys (ps_send_chain state),
             ps_recv_chain := clear_chain_keys (ps_recv_chain state) \<rparr>
       in res_bind (lock_dh_private P sanitized) (\<lambda>(state1, dh_private_handle).
          res_bind (lock_kyber_secret P state1) (\<lambda>(state2, kyber_secret_handle).
            Ok \<lparr> si_state = state2, si_pending_kyber_shared_secret = [], si_skipped_message_keys = skipped,
                 si_cached_metadata_keys = cached_mk, si_replay_epoch = ps_replay_epoch state,
                 si_seen_payload_nonces = seen, si_seen_payload_nonce_order = order,
                 si_is_initiator = ps_is_initiator state, si_dh_private_handle = dh_private_handle,
                 si_kyber_secret_handle = kyber_secret_handle,
                 si_send_ratchet_pending = ps_send_ratchet_pending state, si_event_handler = None,
                 si_messages_since_last_dh_ratchet = 0 \<rparr>)))))))"

definition from_sealed_state ::
    "prims \<Rightarrow> codec \<Rightarrow> bytes \<Rightarrow> handle pres \<Rightarrow> nat \<Rightarrow> session_inner pres" where
  "from_sealed_state P C sealed_data kek min_external_counter =
     (if length sealed_data > MAX_PROTOBUF_MESSAGE_SIZE then Err (InvalidInput ''Sealed state too large'')
      else
        res_bind (ok_or (Decode ''Failed to parse sealed state: {e}'') (decode_sealed C sealed_data)) (\<lambda>sealed.
          if ss_version sealed \<noteq> SEALED_STATE_VERSION then Err (InvalidInput ''Unsupported sealed state version'')
          else if length (ss_dek_nonce sealed) \<noteq> AES_GCM_NONCE_BYTES \<or> length (ss_state_nonce sealed) \<noteq> AES_GCM_NONCE_BYTES then
            Err (InvalidInput ''Invalid nonce size in sealed state'')
          else if ss_external_counter sealed = 0 then
            Err (InvalidInput ''Sealed state external counter must be > 0'')
          else if ss_external_counter sealed < min_external_counter then
            Err (InvalidState ''Sealed session state rollback detected by external counter'')
          else
            res_bind kek (\<lambda>kek_handle.
            res_bind (map_err CryptoErr (read_bytes kek_handle AES_KEY_BYTES)) (\<lambda>kek_bytes.
            res_bind (map_err (\<lambda>_. Generic ''Decryption failed - invalid key or tampered data'')
                        (aes_gcm_decrypt P kek_bytes (ss_dek_nonce sealed) (ss_encrypted_dek sealed)
                           (dek_aad (ss_external_counter sealed)))) (\<lambda>dek.
            res_bind (map_err (\<lambda>_. Generic ''Decryption failed - invalid key or tampered data'')
                        (aes_gcm_decrypt P dek (ss_state_nonce sealed) (ss_encrypted_state sealed)
                           (state_aad (ss_dek_nonce sealed) (ss_encrypted_dek sealed)))) (\<lambda>plaintext_state.
            res_bind (ok_or (Decode ''Failed to parse protocol state: {e}'') (decode_state C plaintext_state)) (\<lambda>state_proto.
              from_state_internal P C state_proto)))))))"

definition sealed_state_external_counter :: "codec \<Rightarrow> bytes \<Rightarrow> nat pres" where
  "sealed_state_external_counter C sealed_data =
     (if length sealed_data > MAX_PROTOBUF_MESSAGE_SIZE then Err (InvalidInput ''Sealed state too large'')
      else res_bind (ok_or (Decode ''Failed to parse sealed state: {e}'') (decode_sealed C sealed_data)) (\<lambda>sealed.
             Ok (ss_external_counter sealed)))"

end
