(* ===== verification/Session_Receive.thy ===== *)
theory Session_Receive
  imports Session_Inv Session_Seal
begin

text \<open>
  Decryption as a whole: what a failed and an accepted message do to a session, runs of a session under
  any sequence of calls, and the properties of the receiving side that follow.
\<close>

section \<open>The ratchet part\<close>

lemma apply_recv_frame:
  assumes "hkdf_ok P" "bt_inv (si_skipped_message_keys inner)" "apply_recv_ratchet P inner envelope = (r, inner')"
    and "skipped_wf inner"
  shows "recv_frame inner inner'"
proof (cases "check_ratchet_header P inner envelope")
  case (Inr h)
  obtain dh ct pk where h: "h = (dh, ct, pk)" by (cases h)
  obtain r1 inner1 where s: "(case se_previous_chain_length envelope of None \<Rightarrow> (Ok (), inner)
      | Some pcl \<Rightarrow> skip_old_chain_keys P inner pcl) = (r1, inner1)" by fastforce
  have f1: "recv_frame inner inner1"
  proof (cases r1)
    case (Inl e)
    with s assms(1,2) have "inner1 = inner" using skip_old_Err by (cases "se_previous_chain_length envelope") auto
    then show ?thesis by simp
  next
    case (Inr u)
    with s assms(1,4) show ?thesis
      using skip_old_Ok recv_only_frame by (cases "se_previous_chain_length envelope") auto
  qed
  have f2: "recv_frame inner1 inner'" if r1: "r1 = Ok u" for u
  proof (cases "recv_ratchet_material P inner1 dh ct pk")
    case (Inl e)
    with assms(3) Inr h s r1 show ?thesis by (simp add: apply_recv_ratchet_def)
  next
    case k: (Inr keys)
    obtain a b c where keys: "keys = (a, b, c)" by (cases keys)
    from assms(3) Inr h s r1 k keys show ?thesis
      by (auto simp: apply_recv_ratchet_def recv_frame_def enforce_cache_limit_def evict_aged_skipped_keys_def
          enforce_metadata_cache_limit_def map_state_def Let_def split: option.splits)
  qed
  show ?thesis
  proof (cases r1)
    case (Inl e)
    with assms(3) Inr h s f1 show ?thesis by (simp add: apply_recv_ratchet_def)
  next
    case (Inr u)
    from f1 f2 [OF this] show ?thesis by (rule recv_frame_trans)
  qed
qed (use assms(3) in \<open>simp add: apply_recv_ratchet_def\<close>)

lemma decrypt_ratchet_Err:
  assumes "hkdf_ok P" "skipped_wf inner" "decrypt_ratchet P inner envelope = (Err e, inner')"
  shows "inner' = inner"
proof -
  have inv: "bt_inv (si_skipped_message_keys inner)" using assms(2) by (simp add: skipped_wf_def)
  obtain r inner1 where a: "apply_recv_ratchet P inner envelope = (r, inner1)" by fastforce
  have "rollback_ratchet (Some (take_ratchet_snapshot inner)) inner1 = inner"
    by (rule rollback_exact [OF apply_recv_frame [OF assms(1) inv a assms(2)]])
  with assms(3) a show ?thesis
    by (auto simp: decrypt_ratchet_def Let_def split: if_splits option.splits sum.splits)
qed

text \<open>Without a ratchet header nothing happens; with one, the session enters the next epoch.\<close>

definition ratcheted :: "session_inner \<Rightarrow> session_inner \<Rightarrow> nat \<Rightarrow> bool" where
  "ratcheted inner inner1 epoch \<longleftrightarrow> epoch = repoch inner + 1 \<and> repoch inner1 = epoch \<and>
     recv_frame inner inner1 \<and> skipped_wf inner1 \<and> metadata_wf inner1 \<and> avail inner1 \<subseteq> avail inner \<and>
     si_replay_epoch inner1 = epoch \<and> si_send_ratchet_pending inner1 \<and> ps_send_ratchet_pending (si_state inner1)"

lemma decrypt_ratchet_Ok:
  assumes "hkdf_ok P" "skipped_wf inner" "metadata_wf inner"
    and "decrypt_ratchet P inner envelope = (Ok (old, snapshot), inner1)"
  shows "snapshot = None \<and> inner1 = inner \<and> se_ratchet_epoch envelope \<le> repoch inner \<and>
      old = (se_ratchet_epoch envelope < repoch inner) \<or>
    snapshot = Some (take_ratchet_snapshot inner) \<and> \<not> old \<and> ratcheted inner inner1 (se_ratchet_epoch envelope)"
proof (cases "se_dh_public_key envelope \<noteq> None \<or> se_kyber_ciphertext envelope \<noteq> None \<or> se_new_kyber_public envelope \<noteq> None")
  case False
  with assms(4) show ?thesis
    by (auto simp: decrypt_ratchet_def repoch_def Let_def split: if_splits)
next
  case True
  have inv: "bt_inv (si_skipped_message_keys inner)" using assms(2) by (simp add: skipped_wf_def)
  obtain r inner2 where a: "apply_recv_ratchet P inner envelope = (r, inner2)" by fastforce
  have facts: "snapshot = Some (take_ratchet_snapshot inner) \<and> \<not> old \<and> (\<exists>u. r = Ok u) \<and> inner1 = inner2 \<and>
      se_ratchet_epoch envelope = repoch inner + 1"
    using assms(4) a True unfolding decrypt_ratchet_def Let_def
    by (auto simp: repoch_def checked_add_u64_Some split: if_splits option.splits sum.splits)
  then obtain u where r: "r = Ok u" by blast
  from apply_recv_Ok [OF a [unfolded r]] obtain inner3 dh ct pk keys where
    s: "(case se_previous_chain_length envelope of None \<Rightarrow> (Ok (), inner) | Some pcl \<Rightarrow> skip_old_chain_keys P inner pcl) = (Ok (), inner3)"
    and i2: "inner2 = enter_epoch inner3 dh pk keys" by blast
  have o: "skipped_wf inner3 \<and> avail inner3 \<subseteq> avail inner \<and> recv_only inner inner3"
    using s assms(1,2) skip_old_Ok recv_only_refl by (cases "se_previous_chain_length envelope") auto
  then have md: "metadata_wf inner3" using assms(3) recv_only_fields [of inner inner3] by (simp add: metadata_wf_def)
  obtain x y z where k: "keys = (x, y, z)" by (cases keys)
  note f = enter_epoch_fields [OF k, of inner3 dh pk]
  have "ratcheted inner inner1 (se_ratchet_epoch envelope)"
    unfolding ratcheted_def
    using facts i2 enter_epoch_wf [OF conjunct1 [OF o] md, of dh pk keys] o recv_only_fields(6) [of inner inner3] f(2-4)
      apply_recv_frame [OF assms(1) inv a assms(2)] by auto
  with facts show ?thesis by blast
qed

section \<open>Seen nonces\<close>

lemma prune_seen:
  assumes "distinct order" "prune_seen_nonces (set order) order = (seen', order')"
  shows "seen' = set order' \<and> distinct order' \<and> length order' \<le> MAX_SEEN_NONCES \<and> set order' \<subseteq> set order \<and>
    (order \<noteq> [] \<longrightarrow> last order \<in> set order')"
  using assms
proof (induction order)
  case (Cons x xs)
  show ?case
  proof (cases "length (x # xs) > MAX_SEEN_NONCES")
    case True
    have "set (x # xs) - {x} = set xs" using Cons.prems(1) by auto
    then have "prune_seen_nonces (set xs) xs = (seen', order')" using Cons.prems(2) True by simp
    moreover have "xs \<noteq> []" using True by auto
    ultimately show ?thesis using Cons.IH Cons.prems(1) by auto
  next
    case False
    then show ?thesis using Cons.prems by (auto simp del: MAX_SEEN_NONCES_def)
  qed
qed simp

lemma remember_seen:
  assumes "seen_wf inner"
  shows "seen_wf (remember_seen_payload_nonce inner n) \<and> n \<in> si_seen_payload_nonces (remember_seen_payload_nonce inner n)"
proof (cases "n \<in> si_seen_payload_nonces inner")
  case False
  let ?o = "si_seen_payload_nonce_order inner @ [n]"
  have s: "set ?o = insert n (si_seen_payload_nonces inner)" "distinct ?o" using assms False by (auto simp: seen_wf_def)
  obtain seen' order' where p: "prune_seen_nonces (set ?o) ?o = (seen', order')" by fastforce
  from prune_seen [OF s(2) p] s(1) p False show ?thesis
    by (auto simp: remember_seen_payload_nonce_def seen_wf_def)
qed (use assms in \<open>simp add: remember_seen_payload_nonce_def\<close>)

lemma remember_fields:
  "si_state (remember_seen_payload_nonce inner n) = si_state inner"
  "si_skipped_message_keys (remember_seen_payload_nonce inner n) = si_skipped_message_keys inner"
  "si_cached_metadata_keys (remember_seen_payload_nonce inner n) = si_cached_metadata_keys inner"
  "si_replay_epoch (remember_seen_payload_nonce inner n) = si_replay_epoch inner"
  "si_send_ratchet_pending (remember_seen_payload_nonce inner n) = si_send_ratchet_pending inner"
  by (simp_all add: remember_seen_payload_nonce_def split: prod.splits)

section \<open>Accepted and rejected messages\<close>

lemma session_wfD:
  assumes "session_wf inner"
  shows "skipped_wf inner" "metadata_wf inner" "seen_wf inner" "si_replay_epoch inner = repoch inner"
    "ps_send_ratchet_pending (si_state inner) = si_send_ratchet_pending inner" "bt_inv (si_skipped_message_keys inner)"
  using assms by (simp_all add: session_wf_def skipped_wf_def)

text \<open>Taking the key of a message, for the current and for old epochs.\<close>

lemma recv_key_Ok:
  assumes "hkdf_ok P" "skipped_wf inner" "epoch \<le> repoch inner" "old = (epoch < repoch inner)"
    and "recv_message_key P inner old epoch i = (Ok mk, inner')"
  shows "(epoch, i) \<in> avail inner \<and> skipped_wf inner' \<and> avail inner' \<subseteq> avail inner \<and>
    (epoch, i) \<notin> avail inner' \<and> recv_only inner inner'"
proof (cases old)
  case True
  have inv: "bt_inv (si_skipped_message_keys inner)" using assms(2) by (simp add: skipped_wf_def)
  have i': "inner' = inner\<lparr> si_skipped_message_keys := bt_remove (epoch, i) (si_skipped_message_keys inner) \<rparr>"
    and mk: "bt_get (si_skipped_message_keys inner) (epoch, i) = Some mk"
    using assms(5) True by (auto simp: recv_message_key_def try_skipped_key_def result_simps)
  have v: "repoch inner' = repoch inner" "rindex inner' = rindex inner" by (simp_all add: i' view_defs)
  have g: "bt_get (si_skipped_message_keys inner') = (bt_get (si_skipped_message_keys inner))((epoch, i) := None)"
    using inv by (simp add: i')
  have "skipped_wf inner' \<and> avail inner' \<subseteq> avail inner"
  proof (rule skipped_wf_shrink [OF assms(2) _ _ v(1) refl])
    show "length (si_skipped_message_keys inner') \<le> MAX_SKIPPED_MESSAGE_KEYS"
      using assms(2) bt_length_remove [of "(epoch, i)" "si_skipped_message_keys inner"] by (simp add: skipped_wf_def i')
  qed (use inv v g in \<open>auto simp: i' split: if_splits\<close>)
  moreover have "(epoch, i) \<notin> avail inner'" using True assms(4) v g by (simp add: avail_iff)
  moreover have "recv_only inner inner'" unfolding i' by (rule recv_only_skipped)
  ultimately show ?thesis using mk by (simp add: avail_iff)
next
  case False
  then have "epoch = repoch inner" using assms(3,4) by simp
  with taken [OF assms(1,2), of i mk inner'] assms(5) False show ?thesis by (simp add: recv_message_key_def)
qed

lemma recv_key_Err:
  assumes "hkdf_ok P" "bt_inv (si_skipped_message_keys inner)" "recv_message_key P inner old epoch i = (Err e, inner')"
  shows "inner' = inner"
proof (cases old)
  case True
  then show ?thesis using assms(3) bt_remove_absent [of "si_skipped_message_keys inner" "(epoch, i)"]
    by (auto simp: recv_message_key_def try_skipped_key_def result_simps ok_or_def split: option.splits)
next
  case False
  then show ?thesis using assms get_recv_Err by (simp add: recv_message_key_def)
qed

lemma open_message_Ok:
  assumes "hkdf_ok P" "skipped_wf inner" "seen_wf inner" "se_ratchet_epoch envelope \<le> repoch inner"
    and "old = (se_ratchet_epoch envelope < repoch inner)"
    and "open_message P C inner envelope old snapshot mx = (Ok r, inner')"
  shows "\<exists>inner1. (se_ratchet_epoch envelope, em_message_index (dr_metadata r)) \<in> avail inner \<and>
    skipped_wf inner1 \<and> avail inner1 \<subseteq> avail inner \<and>
    (se_ratchet_epoch envelope, em_message_index (dr_metadata r)) \<notin> avail inner1 \<and> recv_only inner inner1 \<and>
    em_payload_nonce (dr_metadata r) \<notin> si_seen_payload_nonces inner \<and>
    (let inner2 = remember_seen_payload_nonce inner1 (em_payload_nonce (dr_metadata r))
     in inner' = (if si_send_ratchet_pending inner2 then inner2
                  else (map_state (\<lambda>st. st\<lparr> ps_send_ratchet_pending := True \<rparr>) inner2)\<lparr> si_send_ratchet_pending := True \<rparr>))"
proof -
  obtain md where md: "open_metadata P C inner envelope old mx = Ok md"
    using assms(6) by (cases "open_metadata P C inner envelope old mx") (auto simp: open_message_def)
  have unseen: "em_payload_nonce md \<notin> si_seen_payload_nonces inner"
    using md by (auto simp: open_metadata_def payload_nonce_to_array_def Let_def result_simps split: if_splits)
  obtain k inner1 where k: "recv_message_key P inner old (se_ratchet_epoch envelope) (em_message_index md) = (k, inner1)" by fastforce
  obtain mk where mk: "k = Ok mk" using assms(6) md k by (cases k) (auto simp: open_message_def Let_def)
  obtain pt where pt: "open_payload P inner1 envelope md mk = Ok pt"
    using assms(6) md k mk by (cases "open_payload P inner1 envelope md mk") (auto simp: open_message_def Let_def)
  have r: "dr_metadata r = md" using assms(6) md k mk pt by (auto simp: open_message_def Let_def)
  show ?thesis unfolding r
  proof (intro exI conjI)
    show "let inner2 = remember_seen_payload_nonce inner1 (em_payload_nonce md)
     in inner' = (if si_send_ratchet_pending inner2 then inner2
                  else (map_state (\<lambda>st. st\<lparr> ps_send_ratchet_pending := True \<rparr>) inner2)\<lparr> si_send_ratchet_pending := True \<rparr>)"
      using assms(6) md k mk pt by (auto simp: open_message_def Let_def)
  qed (use recv_key_Ok [OF assms(1,2,4,5) k [unfolded mk]] unseen in blast)+
qed

text \<open>Making room in a well-formed session drops the oldest keys, and only as many as needed.\<close>

lemma reserve_wf:
  assumes "skipped_wf inner" "n \<le> MAX_SKIPPED_MESSAGE_KEYS"
  shows "reserve_skipped_capacity inner n = (Ok (), inner\<lparr> si_skipped_message_keys :=
    drop (length (si_skipped_message_keys inner) + n - MAX_SKIPPED_MESSAGE_KEYS) (si_skipped_message_keys inner) \<rparr>)"
proof -
  let ?m = "si_skipped_message_keys inner"
  have "\<not> \<not> fst k \<ge> ps_recv_ratchet_epoch (si_state inner) - MAX_SKIPPED_KEY_EPOCH_AGE" if "k \<in> fst ` set ?m" for k
    using skipped_wfD [OF assms(1), of "fst k" "snd k"] that by (simp add: bt_get_None repoch_def)
  then have "evict_while (\<lambda>(e, _). \<not> e \<ge> ps_recv_ratchet_epoch (si_state inner) - MAX_SKIPPED_KEY_EPOCH_AGE) ?m = ?m"
    by (intro evict_while_none) (simp add: split_beta)
  then have "evict_aged_skipped_keys inner = inner" by (simp add: evict_aged_skipped_keys_def Let_def)
  with assms(2) show ?thesis
    by (simp add: reserve_skipped_capacity_def evict_to_drop Let_def del: MAX_SKIPPED_MESSAGE_KEYS_def)
qed

text \<open>Undoing an advance of the chain: the stored keys are removed again and the chain put back.\<close>

lemma undo_advance:
  assumes "skipped_wf inner" "ps_recv_chain (si_state inner) = Some rc" "cs_message_index rc \<le> i"
    and "advanced P inner rc i inner1"
  shows "undo_message_key inner1 None False epoch i mk (Some (cs_chain_key rc, cs_message_index rc)) =
    inner\<lparr> si_skipped_message_keys := drop (length (si_skipped_message_keys inner) + (i - cs_message_index rc) - MAX_SKIPPED_MESSAGE_KEYS)
      (si_skipped_message_keys inner) \<rparr>"
proof -
  let ?n = "i - cs_message_index rc"
  from assms(4) obtain inner2 sk' where res: "reserve_skipped_capacity inner ?n = (Ok (), inner2)"
    and i1: "inner1 = set_recv_chain (rc\<lparr> cs_chain_key := chain_at P (cs_chain_key rc) (Suc ?n), cs_message_index := i + 1 \<rparr>)
        (inner2\<lparr> si_skipped_message_keys := sk' \<rparr>)"
    and sk: "bt_inv sk'"
      "\<forall>e j. bt_get sk' (e, j) = (if e = repoch inner \<and> cs_message_index rc \<le> j \<and> j < i
        then Some (msg_of P (chain_at P (cs_chain_key rc) (j - cs_message_index rc)))
        else bt_get (si_skipped_message_keys inner2) (e, j))" unfolding advanced_def by blast
  have "?n \<le> MAX_SKIPPED_MESSAGE_KEYS" using res by (auto simp: reserve_skipped_capacity_def split: if_splits)
  from reserve_wf [OF assms(1) this] res have i2: "inner2 = inner\<lparr> si_skipped_message_keys :=
      drop (length (si_skipped_message_keys inner) + ?n - MAX_SKIPPED_MESSAGE_KEYS) (si_skipped_message_keys inner) \<rparr>" by simp
  have inv: "bt_inv (si_skipped_message_keys inner)" using assms(1) by (simp add: skipped_wf_def)
  have inv2: "bt_inv (si_skipped_message_keys inner2)" unfolding i2 using inv by (simp add: bt_inv_drop)
  have sub: "bt_get (si_skipped_message_keys inner2) k \<noteq> None \<Longrightarrow> bt_get (si_skipped_message_keys inner) k \<noteq> None" for k
    by (rule subset_get [OF inv inv2]) (simp_all add: i2 set_drop_subset)
  have none: "bt_get (si_skipped_message_keys inner2) (repoch inner, j) = None" if "cs_message_index rc \<le> j" for j
    using that sub [of "(repoch inner, j)"] skipped_wfD [OF assms(1), of "repoch inner" j] assms(2)
    by (cases "bt_get (si_skipped_message_keys inner2) (repoch inner, j)") (auto simp: rindex_def)
  let ?ks = "map (\<lambda>idx. (repoch inner, idx)) [cs_message_index rc..<i]"
  have inv3: "bt_inv (fold bt_remove ?ks sk')" using sk(1) by (simp add: bt_remove_fold bt_inv_filter)
  have "bt_get (filter (\<lambda>kv. fst kv \<notin> set ?ks) sk') k = (if k \<in> set ?ks then None else bt_get sk' k)" for k
    by (induction sk') (auto simp: bt_get_def)
  then have "bt_get (fold bt_remove ?ks sk') = bt_get (si_skipped_message_keys inner2)"
    using sk none by (auto simp: fun_eq_iff bt_remove_fold)
  then have put_back: "fold bt_remove ?ks sk' = si_skipped_message_keys inner2" by (rule bt_eq_iff_get [OF inv3 inv2])
  have st: "ps_recv_ratchet_epoch (si_state inner1) = repoch inner" "si_skipped_message_keys inner1 = sk'"
    "ps_recv_chain (si_state inner1) = Some (rc\<lparr> cs_chain_key := chain_at P (cs_chain_key rc) (Suc ?n), cs_message_index := i + 1 \<rparr>)"
    by (simp_all add: i1 i2 view_defs)
  have "undo_message_key inner1 None False epoch i mk (Some (cs_chain_key rc, cs_message_index rc)) =
      set_recv_chain rc (inner1\<lparr> si_skipped_message_keys := si_skipped_message_keys inner2 \<rparr>)"
    using assms(3) st put_back by (simp add: undo_message_key_def Let_def)
  also have "\<dots> = inner2" unfolding i1 i2 using assms(2) by (simp add: set_recv_chain_def map_state_def)
  finally show ?thesis unfolding i2 .
qed

text \<open>A key taken from the cache is put back.\<close>

lemma undo_removed:
  assumes "bt_inv (si_skipped_message_keys inner)" "bt_get (si_skipped_message_keys inner) (epoch, i) = Some mk"
    and "inner1 = inner\<lparr> si_skipped_message_keys := bt_remove (epoch, i) (si_skipped_message_keys inner) \<rparr>"
  shows "undo_message_key inner1 None True epoch i mk pre = inner"
    "ps_recv_chain (si_state inner) = Some rc \<Longrightarrow> i < cs_message_index rc \<Longrightarrow> epoch = repoch inner \<Longrightarrow>
      undo_message_key inner1 None False epoch i mk (Some (cs_chain_key rc, cs_message_index rc)) = inner"
  using assms by (simp_all add: undo_message_key_def bt_insert_remove Let_def set_recv_chain_def map_state_def repoch_def)

text \<open>What a rejected message may cost: the oldest skipped keys, when its gap did not fit into the cache.\<close>

definition only_evicted :: "session_inner \<Rightarrow> session_inner \<Rightarrow> nat \<Rightarrow> bool" where
  "only_evicted inner inner' mx \<longleftrightarrow> (\<exists>n. inner' = inner\<lparr> si_skipped_message_keys := drop n (si_skipped_message_keys inner) \<rparr> \<and>
     n \<le> length (si_skipped_message_keys inner) + (mx - rindex inner) - MAX_SKIPPED_MESSAGE_KEYS)"

lemma only_evicted_refl: "only_evicted inner inner mx"
  unfolding only_evicted_def by (rule exI [of _ 0]) simp

lemma open_message_Err:
  assumes "hkdf_ok P" "skipped_wf inner" "se_ratchet_epoch envelope \<le> repoch inner"
    and "old = (se_ratchet_epoch envelope < repoch inner)"
    and "open_message P C inner envelope old None mx = (Err e, inner')"
  shows "only_evicted inner inner' mx"
proof (cases "open_metadata P C inner envelope old mx")
  case (Inl e1)
  then have "inner' = inner" using assms(5) by (simp add: open_message_def rollback_ratchet_def)
  then show ?thesis by (simp add: only_evicted_refl)
next
  case (Inr md)
  let ?ep = "se_ratchet_epoch envelope" and ?i = "em_message_index md"
  have inv: "bt_inv (si_skipped_message_keys inner)" using assms(2) by (simp add: skipped_wf_def)
  obtain k inner1 where k: "recv_message_key P inner old ?ep ?i = (k, inner1)" by fastforce
  show ?thesis
  proof (cases k)
    case (Inl e1)
    then have "inner1 = inner" using recv_key_Err [OF assms(1) inv] k by blast
    then have "inner' = inner" using assms(5) Inr k Inl by (simp add: open_message_def rollback_ratchet_def)
    then show ?thesis by (simp add: only_evicted_refl)
  next
    case mk: (Inr mk)
    have lt: "?i < mx" using Inr by (auto simp: open_metadata_def Let_def result_simps split: if_splits)
    obtain e1 where pl: "open_payload P inner1 envelope md mk = Err e1"
      using assms(5) Inr k mk by (cases "open_payload P inner1 envelope md mk") (auto simp: open_message_def Let_def)
    let ?pre = "if old then None else map_option (\<lambda>rc. (cs_chain_key rc, cs_message_index rc)) (ps_recv_chain (si_state inner))"
    have i': "inner' = undo_message_key inner1 None old ?ep ?i mk ?pre"
      using assms(5) Inr k mk pl by (auto simp: open_message_def Let_def)
    show ?thesis
    proof (cases old)
      case True
      then have "inner' = inner"
        using k mk undo_removed(1) [OF inv, of ?ep ?i mk inner1] unfolding i'
        by (auto simp: recv_message_key_def try_skipped_key_def result_simps)
      then show ?thesis by (simp add: only_evicted_refl)
    next
      case False
      then have ep: "?ep = repoch inner" using assms(3,4) by simp
      have g: "get_recv_message_key P inner ?i = (Ok mk, inner1)" using k mk False by (simp add: recv_message_key_def)
      from get_recv_OkD [OF assms(1) inv g] obtain rc where rc: "ps_recv_chain (si_state inner) = Some rc"
        and c: "?i < cs_message_index rc \<and> bt_get (si_skipped_message_keys inner) (repoch inner, ?i) = Some mk \<and>
            inner1 = inner\<lparr> si_skipped_message_keys := bt_remove (repoch inner, ?i) (si_skipped_message_keys inner) \<rparr> \<or>
          cs_message_index rc \<le> ?i \<and> advanced P inner rc ?i inner1" by blast
      from c show ?thesis
      proof
        assume a: "?i < cs_message_index rc \<and> bt_get (si_skipped_message_keys inner) (repoch inner, ?i) = Some mk \<and>
            inner1 = inner\<lparr> si_skipped_message_keys := bt_remove (repoch inner, ?i) (si_skipped_message_keys inner) \<rparr>"
        have "inner' = inner" unfolding i' using a False rc ep undo_removed(2) [OF inv, of ?ep ?i mk inner1 rc] by simp
        then show ?thesis by (simp add: only_evicted_refl)
      next
        assume a: "cs_message_index rc \<le> ?i \<and> advanced P inner rc ?i inner1"
        have "inner' = inner\<lparr> si_skipped_message_keys := drop (length (si_skipped_message_keys inner) + (?i - cs_message_index rc)
            - MAX_SKIPPED_MESSAGE_KEYS) (si_skipped_message_keys inner) \<rparr>"
          unfolding i' using a False rc undo_advance [OF assms(2) rc, of ?i P inner1 ?ep mk] by simp
        moreover have "?i - cs_message_index rc \<le> mx - rindex inner" using lt rc by (simp add: rindex_def)
        ultimately show ?thesis unfolding only_evicted_def
          by (intro exI conjI) (assumption, simp only: diff_le_mono add_le_mono order_refl)
      qed
    qed
  qed
qed

lemma open_message_rollback:
  assumes "hkdf_ok P" "skipped_wf inner1" "recv_frame inner inner1" "se_ratchet_epoch envelope = repoch inner1"
    and "open_message P C inner1 envelope False (Some (take_ratchet_snapshot inner)) mx = (Err e, inner')"
  shows "inner' = inner"
proof (cases "open_metadata P C inner1 envelope False mx")
  case (Inl e1)
  then show ?thesis using assms(5) rollback_exact [OF assms(3)] by (simp add: open_message_def)
next
  case (Inr md)
  have inv: "bt_inv (si_skipped_message_keys inner1)" using assms(2) by (simp add: skipped_wf_def)
  obtain k inner2 where k: "recv_message_key P inner1 False (se_ratchet_epoch envelope) (em_message_index md) = (k, inner2)" by fastforce
  have "recv_frame inner1 inner2"
  proof (cases k)
    case (Inl e1)
    then show ?thesis using recv_key_Err [OF assms(1) inv] k by fastforce
  next
    case (Inr mk)
    with k assms(4) have "recv_message_key P inner1 False (repoch inner1) (em_message_index md) = (Ok mk, inner2)" by simp
    from recv_key_Ok [OF assms(1,2) order_refl _ this] show ?thesis by (simp add: recv_only_frame)
  qed
  from rollback_exact [OF recv_frame_trans [OF assms(3) this]] assms(5) Inr k show ?thesis
    by (auto simp: open_message_def undo_message_key_def Let_def split: sum.splits)
qed

section \<open>Decryption\<close>

text \<open>The guards of \<open>decrypt\<close> before it touches the session.\<close>

definition decrypt_guards :: "session_inner \<Rightarrow> secure_envelope \<Rightarrow> clock \<Rightarrow> (nat \<times> nat) pres" where
  "decrypt_guards inner envelope clk =
     (let state = si_state inner
      in if ps_version state = 0 then Err (InvalidState ''Session has been destroyed'')
         else res_bind (check_inner_expired state (clk 0)) (\<lambda>expired.
           if expired then Err (InvalidState ''Session expired'')
           else res_bind (clk 1) (\<lambda>activity_unix.
             res_bind (ok_or (InvalidState ''Received-message counter overflow'')
                 (checked_add_u64 (ps_total_messages_received state) 1)) (\<lambda>next_total.
               if se_version envelope \<noteq> PROTOCOL_VERSION then Err (InvalidInput ''Invalid envelope version'')
               else if length (se_header_nonce envelope) \<noteq> AES_GCM_NONCE_BYTES then
                 Err (InvalidInput ''Invalid header nonce size'')
               else if length (ps_metadata_key state) \<noteq> METADATA_KEY_BYTES then
                 Err (InvalidState ''Metadata key not initialized'')
               else if ps_max_messages_per_chain state = 0 \<or> ps_max_messages_per_chain state > MAX_MESSAGES_PER_CHAIN then
                 Err (InvalidState ''Invalid max messages per chain'')
               else Ok (activity_unix, next_total)))))"

definition note_received :: "nat \<times> nat \<Rightarrow> session_inner \<Rightarrow> session_inner" where
  "note_received at = map_state (\<lambda>st. st\<lparr> ps_last_activity_unix := Some (fst at), ps_total_messages_received := snd at \<rparr>)"

lemma decrypt_unfold:
  "decrypt P C inner envelope clk =
     (case decrypt_guards inner envelope clk of
        Err e \<Rightarrow> (Err e, inner)
      | Ok at \<Rightarrow>
          (case decrypt_ratchet P inner envelope of
             (Err e, inner1) \<Rightarrow> (Err e, inner1)
           | (Ok (old, snapshot), inner1) \<Rightarrow>
               (case open_message P C inner1 envelope old snapshot (ps_max_messages_per_chain (si_state inner)) of
                  (Err e, inner2) \<Rightarrow> (Err e, inner2)
                | (Ok result, inner2) \<Rightarrow> (Ok result, note_received at inner2))))"
  unfolding decrypt_def decrypt_guards_def Let_def note_received_def
  by (auto split: sum.splits option.splits prod.splits)

lemma decrypt_Err:
  assumes "hkdf_ok P" "session_wf inner" "decrypt P C inner envelope clk = (Err e, inner')"
  shows "only_evicted inner inner' (ps_max_messages_per_chain (si_state inner)) \<and>
    (se_dh_public_key envelope \<noteq> None \<longrightarrow> inner' = inner)"
proof (cases "decrypt_guards inner envelope clk")
  case (Inl e1)
  then have "inner' = inner" using assms(3) by (simp add: decrypt_unfold)
  then show ?thesis by (simp add: only_evicted_refl)
next
  case (Inr at)
  note wf = session_wfD [OF assms(2)]
  let ?mx = "ps_max_messages_per_chain (si_state inner)"
  obtain r inner1 where d: "decrypt_ratchet P inner envelope = (r, inner1)" by fastforce
  show ?thesis
  proof (cases r)
    case (Inl e1)
    then have "inner' = inner" using assms(3) Inr d decrypt_ratchet_Err [OF assms(1) wf(1)] by (auto simp: decrypt_unfold)
    then show ?thesis by (simp add: only_evicted_refl)
  next
    case ok: (Inr os)
    obtain old snap where os: "os = (old, snap)" by fastforce
    have o: "open_message P C inner1 envelope old snap ?mx = (Err e, inner')"
      using assms(3) Inr d ok os by (auto simp: decrypt_unfold split: sum.splits prod.splits)
    from decrypt_ratchet_Ok [OF assms(1) wf(1,2) d [unfolded ok os]] show ?thesis
    proof
      assume a: "snap = None \<and> inner1 = inner \<and> se_ratchet_epoch envelope \<le> repoch inner \<and> old = (se_ratchet_epoch envelope < repoch inner)"
      then have "only_evicted inner inner' ?mx" using open_message_Err [OF assms(1) wf(1)] o by blast
      moreover have "se_dh_public_key envelope = None"
        using d ok os a by (auto simp: decrypt_ratchet_def Let_def split: if_splits option.splits sum.splits prod.splits)
      ultimately show ?thesis by simp
    next
      assume a: "snap = Some (take_ratchet_snapshot inner) \<and> \<not> old \<and> ratcheted inner inner1 (se_ratchet_epoch envelope)"
      then have "inner' = inner"
        using open_message_rollback [OF assms(1), of inner1 inner envelope C ?mx e inner'] o by (simp add: ratcheted_def)
      then show ?thesis by (simp add: only_evicted_refl)
    qed
  qed
qed

lemma accept_view:
  assumes "recv_only inner1 inner2" "skipped_wf inner2" "metadata_wf inner1" "seen_wf inner1" "si_replay_epoch inner1 = repoch inner1"
    and "ps_send_ratchet_pending (si_state inner1) = si_send_ratchet_pending inner1"
    and "inner3 = remember_seen_payload_nonce inner2 n"
    and "inner4 = (if si_send_ratchet_pending inner3 then inner3
       else (map_state (\<lambda>st. st\<lparr> ps_send_ratchet_pending := True \<rparr>) inner3)\<lparr> si_send_ratchet_pending := True \<rparr>)"
  shows "session_wf (note_received at inner4) \<and> avail (note_received at inner4) = avail inner2"
proof -
  note f = recv_only_fields [OF assms(1)]
  have sw: "seen_wf inner3" using remember_seen [of inner2 n] assms(4,7) f by (simp add: seen_wf_def)
  have eq: "si_skipped_message_keys inner3 = si_skipped_message_keys inner2" "si_state inner3 = si_state inner2"
    "si_cached_metadata_keys inner3 = si_cached_metadata_keys inner1" "si_replay_epoch inner3 = repoch inner1"
    "si_send_ratchet_pending inner3 = si_send_ratchet_pending inner1"
    using f assms(5) by (simp_all add: assms(7) remember_fields)
  let ?i = "note_received at inner4"
  have v: "si_skipped_message_keys ?i = si_skipped_message_keys inner2" "repoch ?i = repoch inner2" "rindex ?i = rindex inner2"
    "si_cached_metadata_keys ?i = si_cached_metadata_keys inner1" "si_replay_epoch ?i = repoch inner1"
    "si_seen_payload_nonces ?i = si_seen_payload_nonces inner3" "si_seen_payload_nonce_order ?i = si_seen_payload_nonce_order inner3"
    "ps_send_ratchet_pending (si_state ?i) = si_send_ratchet_pending ?i"
    using eq f assms(6) by (auto simp: assms(8) note_received_def view_defs)
  from v assms(2,3) f sw skipped_wf_cong [of ?i inner2] avail_cong [of ?i inner2] show ?thesis
    by (simp add: session_wf_def metadata_wf_def seen_wf_def)
qed

lemma decrypt_Ok:
  assumes "hkdf_ok P" "session_wf inner" "decrypt P C inner envelope clk = (Ok r, inner')"
  shows "session_wf inner' \<and> avail inner' \<subseteq> avail inner \<and>
    (se_ratchet_epoch envelope, em_message_index (dr_metadata r)) \<in> avail inner - avail inner' \<and>
    em_payload_nonce (dr_metadata r) \<notin> si_seen_payload_nonces inner \<and>
    em_payload_nonce (dr_metadata r) \<in> si_seen_payload_nonces inner'"
proof -
  note wf = session_wfD [OF assms(2)]
  let ?mx = "ps_max_messages_per_chain (si_state inner)" and ?ep = "se_ratchet_epoch envelope"
  let ?k = "(se_ratchet_epoch envelope, em_message_index (dr_metadata r))" and ?n = "em_payload_nonce (dr_metadata r)"
  from assms(3) obtain at old snap inner1 inner4 where
    d: "decrypt_ratchet P inner envelope = (Ok (old, snap), inner1)"
    and o: "open_message P C inner1 envelope old snap ?mx = (Ok r, inner4)" and i': "inner' = note_received at inner4"
    by (auto simp: decrypt_unfold split: sum.splits prod.splits)
  have e: "?ep \<le> repoch inner1 \<and> old = (?ep < repoch inner1) \<and> avail inner1 \<subseteq> avail inner \<and> skipped_wf inner1 \<and>
      metadata_wf inner1 \<and> si_seen_payload_nonces inner1 = si_seen_payload_nonces inner \<and>
      si_seen_payload_nonce_order inner1 = si_seen_payload_nonce_order inner \<and> si_replay_epoch inner1 = repoch inner1 \<and>
      ps_send_ratchet_pending (si_state inner1) = si_send_ratchet_pending inner1"
    using decrypt_ratchet_Ok [OF assms(1) wf(1,2) d] wf by (auto simp: ratcheted_def recv_frame_def)
  then have sw: "seen_wf inner1" using wf(3) by (simp add: seen_wf_def)
  from open_message_Ok [OF assms(1) _ sw _ _ o] e obtain inner2 where
    a: "?k \<in> avail inner1" "skipped_wf inner2" "avail inner2 \<subseteq> avail inner1" "?k \<notin> avail inner2" "recv_only inner1 inner2"
      "?n \<notin> si_seen_payload_nonces inner1"
      "inner4 = (if si_send_ratchet_pending (remember_seen_payload_nonce inner2 ?n) then remember_seen_payload_nonce inner2 ?n
         else (map_state (\<lambda>st. st\<lparr> ps_send_ratchet_pending := True \<rparr>) (remember_seen_payload_nonce inner2 ?n))
                \<lparr> si_send_ratchet_pending := True \<rparr>)" unfolding Let_def by blast
  have w: "session_wf inner' \<and> avail inner' = avail inner2" unfolding i'
    by (rule accept_view [OF a(5,2) _ sw _ _ refl a(7)]) (use e in auto)
  have "seen_wf inner2" using sw recv_only_fields [OF a(5)] by (simp add: seen_wf_def)
  then have "?n \<in> si_seen_payload_nonces (remember_seen_payload_nonce inner2 ?n)" using remember_seen by blast
  then have "?n \<in> si_seen_payload_nonces inner'" using a(7) by (simp add: i' note_received_def map_state_def)
  with w a e show ?thesis by auto
qed

section \<open>The sending side leaves the receiving side alone\<close>

definition recv_view :: "session_inner \<Rightarrow> nat \<times> chain_state option \<times> (nat \<times> nat, bytes) btree \<times> (nat, bytes) btree \<times> nat
    \<times> bytes set \<times> bytes list" where
  "recv_view inner = (ps_recv_ratchet_epoch (si_state inner), ps_recv_chain (si_state inner), si_skipped_message_keys inner,
     si_cached_metadata_keys inner, si_replay_epoch inner, si_seen_payload_nonces inner, si_seen_payload_nonce_order inner)"

definition pending_agree :: "session_inner \<Rightarrow> bool" where
  "pending_agree inner \<longleftrightarrow> ps_send_ratchet_pending (si_state inner) = si_send_ratchet_pending inner"

lemma recv_view_wf:
  assumes "recv_view inner' = recv_view inner" "pending_agree inner'" "session_wf inner"
  shows "session_wf inner' \<and> avail inner' = avail inner"
proof -
  have v: "repoch inner' = repoch inner" "rindex inner' = rindex inner"
    "si_skipped_message_keys inner' = si_skipped_message_keys inner"
    "si_cached_metadata_keys inner' = si_cached_metadata_keys inner" "si_replay_epoch inner' = si_replay_epoch inner"
    "si_seen_payload_nonces inner' = si_seen_payload_nonces inner"
    "si_seen_payload_nonce_order inner' = si_seen_payload_nonce_order inner"
    using assms(1) by (simp_all add: recv_view_def repoch_def rindex_def)
  with assms skipped_wf_cong [of inner' inner] avail_cong [of inner' inner] show ?thesis
    by (simp add: session_wf_def metadata_wf_def seen_wf_def pending_agree_def)
qed

lemma rotate_view:
  assumes "maybe_rotate_send_ratchet P inner envelope d = (r, inner1)"
  shows "recv_view inner1 = recv_view inner"
    and "pending_agree inner \<Longrightarrow> r = Ok env1 \<Longrightarrow> pending_agree inner1"
  using assms
  by (auto simp: maybe_rotate_send_ratchet_def recv_view_def pending_agree_def reset_nonce_generator_def store_nonce_state_def
      map_state_def Let_def split: sum.splits option.splits prod.splits if_splits)

lemma warn_view:
  "recv_view (warn_after_nonce ns inner) = recv_view inner"
  "pending_agree (warn_after_nonce ns inner) = pending_agree inner"
  by (simp_all add: warn_after_nonce_def recv_view_def pending_agree_def notify_def map_state_def store_nonce_state_def Let_def)

lemma next_send_view:
  "next_send_message_key P inner = Ok (k, inner1) \<Longrightarrow> recv_view inner1 = recv_view inner \<and> pending_agree inner1 = pending_agree inner"
  by (auto simp: next_send_message_key_def recv_view_def pending_agree_def set_send_chain_def map_state_def result_simps
      split: if_splits)

lemma seal_view:
  assumes "seal_message P C inner envelope payload ty eid cid hno d rd = (r, inner1)"
  shows "recv_view inner1 = recv_view inner \<and> pending_agree inner1 = pending_agree inner"
proof (cases "next_send_message_key P inner")
  case (Inl e)
  with assms show ?thesis by (simp add: seal_message_def)
next
  case (Inr k)
  obtain i mk inner2 where k: "k = ((i, mk), inner2)" by (metis prod.exhaust)
  have v: "recv_view inner2 = recv_view inner" "pending_agree inner2 = pending_agree inner"
    using next_send_view [OF Inr [unfolded k]] by simp_all
  from assms Inr k v show ?thesis
    by (auto simp: seal_message_def Let_def warn_view split: sum.splits prod.splits)
qed

lemma restore_view:
  assumes "capture_ratchet inner = Ok snap" "recv_view inner1 = recv_view inner"
  shows "recv_view (restore_ratchet P snap inner1) = recv_view inner"
    "pending_agree (restore_ratchet P snap inner1) = pending_agree inner"
  using assms by (auto simp: capture_ratchet_def restore_ratchet_def recv_view_def pending_agree_def result_simps)

lemma restore_progress_view:
  "recv_view (restore_progress snap inner) = recv_view inner" "pending_agree (restore_progress snap inner) = pending_agree inner"
  by (simp_all add: restore_progress_def recv_view_def pending_agree_def map_state_def)

text \<open>The sending steps after the guards of \<open>encrypt\<close>.\<close>

definition encrypt_guards :: "session_inner \<Rightarrow> bytes \<Rightarrow> clock \<Rightarrow> ((nat \<times> nat) \<times> send_ratchet_snapshot option) pres" where
  "encrypt_guards inner payload clk =
     (let state = si_state inner
      in if ps_version state = 0 then Err (InvalidState ''Session has been destroyed'')
         else res_bind (check_inner_expired state (clk 0)) (\<lambda>expired.
           if expired then Err (InvalidState ''Session expired'')
           else res_bind (clk 1) (\<lambda>activity_unix.
             res_bind (ok_or (InvalidState ''Sent-message counter overflow'')
                 (checked_add_u64 (ps_total_messages_sent state) 1)) (\<lambda>next_total.
               if length (ps_send_metadata_key state) \<noteq> METADATA_KEY_BYTES then
                 Err (InvalidState ''Send metadata key not initialized'')
               else if length payload > MAX_BUFFER_SIZE then Err (InvalidInput ''Payload too large'')
               else
                 res_bind (res_bind (send_ratchet_rotation_needed inner) (\<lambda>needed.
                   if needed then res_bind (capture_ratchet inner) (\<lambda>snap. Ok (Some snap)) else Ok None)) (\<lambda>snapshot.
                   Ok ((activity_unix, next_total), snapshot))))))"

definition note_sent :: "nat \<times> nat \<Rightarrow> session_inner \<Rightarrow> session_inner" where
  "note_sent at = map_state (\<lambda>st. st\<lparr> ps_last_activity_unix := Some (fst at), ps_total_messages_sent := snd at \<rparr>)"

lemma encrypt_unfold:
  "encrypt P C inner payload ty eid cid d clk =
     (case encrypt_guards inner payload clk of
        Err e \<Rightarrow> (Err e, inner)
      | Ok (at, snapshot) \<Rightarrow>
          (case maybe_rotate_send_ratchet P inner empty_envelope d of
             (Err e, inner1) \<Rightarrow> (Err e, case snapshot of Some snap \<Rightarrow> restore_ratchet P snap inner1 | None \<Rightarrow> inner1)
           | (Ok envelope, inner1) \<Rightarrow>
               (case seal_message P C inner1 (envelope\<lparr> se_ratchet_epoch := ps_send_ratchet_epoch (si_state inner1) \<rparr>)
                       payload ty eid cid None d (clk 2) of
                  (Err e, inner2) \<Rightarrow> (Err e, rollback_send_encrypt_state P inner2 snapshot (capture_progress inner1))
                | (Ok envelope2, inner2) \<Rightarrow> (Ok envelope2, note_sent at inner2))))"
  unfolding encrypt_def encrypt_internal_def encrypt_guards_def Let_def note_sent_def
  by (auto split: sum.splits option.splits prod.splits)

lemma guards_snapshot:
  "encrypt_guards inner payload clk = Ok (at, snapshot) \<Longrightarrow>
    (snapshot = None \<and> send_ratchet_rotation_needed inner = Ok False \<or>
     (\<exists>snap. snapshot = Some snap \<and> capture_ratchet inner = Ok snap \<and> send_ratchet_rotation_needed inner = Ok True))"
  by (auto simp: encrypt_guards_def Let_def result_simps split: if_splits)

lemma encrypt_view:
  assumes "encrypt P C inner payload ty eid cid d clk = (r, inner')"
  shows "recv_view inner' = recv_view inner \<and> (pending_agree inner \<longrightarrow> pending_agree inner')"
proof (cases "encrypt_guards inner payload clk")
  case (Inl e)
  with assms show ?thesis by (simp add: encrypt_unfold)
next
  case (Inr g)
  obtain at snapshot where g: "g = (at, snapshot)" by fastforce
  note gs = guards_snapshot [OF Inr [unfolded g]]
  obtain r1 inner1 where rot: "maybe_rotate_send_ratchet P inner empty_envelope d = (r1, inner1)" by fastforce
  note v1 = rotate_view [OF rot]
  show ?thesis
  proof (cases r1)
    case (Inl e)
    have "inner1 = inner" if "snapshot = None"
      using rot gs that by (auto simp: maybe_rotate_send_ratchet_def)
    then show ?thesis using assms Inr g rot Inl gs v1(1) restore_view [of inner _ inner1 P]
      by (auto simp: encrypt_unfold split: option.splits)
  next
    case env: (Inr env)
    obtain r2 inner2 where seal: "seal_message P C inner1 (env\<lparr> se_ratchet_epoch := ps_send_ratchet_epoch (si_state inner1) \<rparr>)
        payload ty eid cid None d (clk 2) = (r2, inner2)" by fastforce
    have v2: "recv_view inner2 = recv_view inner" "pending_agree inner2 = pending_agree inner1"
      using seal_view [OF seal] v1(1) by simp_all
    have p1: "pending_agree inner \<longrightarrow> pending_agree inner1" using v1(2) env by blast
    show ?thesis
    proof (cases r2)
      case (Inl e)
      then show ?thesis using assms Inr g rot env seal v2 p1 gs restore_view [of inner _ inner2 P]
        by (auto simp: encrypt_unfold rollback_send_encrypt_state_def restore_progress_view split: option.splits)
    next
      case r2: (Inr env2)
      have "inner' = note_sent at inner2" using assms Inr g rot env seal r2 by (simp add: encrypt_unfold)
      then show ?thesis using v2 p1 by (simp add: note_sent_def recv_view_def pending_agree_def map_state_def)
    qed
  qed
qed

section \<open>Failed encryption\<close>

definition handles_ok :: "session_inner \<Rightarrow> bool" where
  "handles_ok inner \<longleftrightarrow> (\<forall>h. si_dh_private_handle inner = Some h \<longrightarrow> length h = X25519_PRIVATE_KEY_BYTES) \<and>
     (\<forall>h. si_kyber_secret_handle inner = Some h \<longrightarrow> length h = KYBER_SECRET_KEY_BYTES)"

definition send_frame :: "session_inner \<Rightarrow> session_inner \<Rightarrow> bool" where
  "send_frame inner inner' \<longleftrightarrow>
     si_pending_kyber_shared_secret inner' = si_pending_kyber_shared_secret inner \<and>
     si_is_initiator inner' = si_is_initiator inner \<and>
     si_skipped_message_keys inner' = si_skipped_message_keys inner \<and>
     si_cached_metadata_keys inner' = si_cached_metadata_keys inner \<and> si_replay_epoch inner' = si_replay_epoch inner \<and>
     si_seen_payload_nonces inner' = si_seen_payload_nonces inner \<and>
     si_seen_payload_nonce_order inner' = si_seen_payload_nonce_order inner"

lemma restore_handle_exact:
  "(\<forall>h. ho = Some h \<longrightarrow> length h = n) \<Longrightarrow> 0 < n \<Longrightarrow> n \<le> MAX_BUFFER_SIZE \<Longrightarrow> slot_free P n \<Longrightarrow>
    read_optional_handle ho n = Ok ho \<and> restore_secret_handle P ho n = ho"
  by (cases ho) (simp_all add: read_optional_handle_def restore_secret_handle_def new_handle_exact)

lemma restore_ratchet_exact:
  assumes "handles_ok inner" "slot_free P 32" "slot_free P 64" "capture_ratchet inner = Ok snap" "send_frame inner inner1"
  shows "restore_ratchet P snap inner1 = inner\<lparr> si_event_handler := si_event_handler inner1 \<rparr>"
proof -
  note h = restore_handle_exact [of "si_dh_private_handle inner" 32 P] restore_handle_exact [of "si_kyber_secret_handle inner" 64 P]
  show ?thesis using assms h by (auto simp: handles_ok_def capture_ratchet_def restore_ratchet_def send_frame_def)
qed

lemma rotate_frame:
  "maybe_rotate_send_ratchet P inner envelope d = (r, inner1) \<Longrightarrow> send_frame inner inner1 \<and> si_event_handler inner1 = si_event_handler inner"
  by (auto simp: maybe_rotate_send_ratchet_def send_frame_def reset_nonce_generator_def
      map_state_def Let_def split: sum.splits option.splits prod.splits if_splits)

text \<open>Sealing changes the sending chain, the nonce state, the message count and the handler's log.\<close>

definition seal_only :: "session_inner \<Rightarrow> session_inner \<Rightarrow> bool" where
  "seal_only inner inner' \<longleftrightarrow> (\<exists>sc ng ms ev. inner' = inner\<lparr> si_state := (si_state inner)\<lparr> ps_send_chain := sc, ps_nonce_generator := ng \<rparr>,
     si_messages_since_last_dh_ratchet := ms, si_event_handler := ev \<rparr>)"

lemma seal_only_refl: "seal_only inner inner"
  unfolding seal_only_def
  by (rule exI [of _ "ps_send_chain (si_state inner)"], rule exI [of _ "ps_nonce_generator (si_state inner)"],
      rule exI [of _ "si_messages_since_last_dh_ratchet inner"], rule exI [of _ "si_event_handler inner"]) simp

lemma next_send_only: "next_send_message_key P inner = Ok (k, inner1) \<Longrightarrow>
    \<exists>sc. inner1 = inner\<lparr> si_state := (si_state inner)\<lparr> ps_send_chain := sc \<rparr> \<rparr>"
  by (auto simp: next_send_message_key_def set_send_chain_def map_state_def result_simps split: if_splits)

lemma warn_only: "\<exists>ng ms ev. warn_after_nonce ns inner =
    inner\<lparr> si_state := (si_state inner)\<lparr> ps_nonce_generator := ng \<rparr>, si_messages_since_last_dh_ratchet := ms, si_event_handler := ev \<rparr>"
proof -
  let ?w = "warn_after_nonce ns inner"
  have "?w = inner\<lparr> si_state := (si_state inner)\<lparr> ps_nonce_generator := ps_nonce_generator (si_state ?w) \<rparr>,
      si_messages_since_last_dh_ratchet := si_messages_since_last_dh_ratchet ?w, si_event_handler := si_event_handler ?w \<rparr>"
    by (simp add: warn_after_nonce_def notify_def map_state_def store_nonce_state_def Let_def)
  then show ?thesis by blast
qed

lemma seal_only:
  assumes "seal_message P C inner envelope payload ty eid cid hno d rd = (r, inner1)"
  shows "seal_only inner inner1"
proof (cases "next_send_message_key P inner")
  case (Inl e)
  with assms show ?thesis by (simp add: seal_message_def seal_only_refl)
next
  case (Inr k)
  obtain i mk inner2 where k: "k = ((i, mk), inner2)" by (metis prod.exhaust)
  from next_send_only [OF Inr [unfolded k]] obtain sc where i2: "inner2 = inner\<lparr> si_state := (si_state inner)\<lparr> ps_send_chain := sc \<rparr> \<rparr>" by blast
  have a: "seal_only inner inner2" unfolding seal_only_def i2
    by (rule exI [of _ sc], rule exI [of _ "ps_nonce_generator (si_state inner)"],
        rule exI [of _ "si_messages_since_last_dh_ratchet inner"], rule exI [of _ "si_event_handler inner"]) simp
  have b: "seal_only inner (warn_after_nonce ns inner2)" for ns
    using warn_only [of ns inner2] unfolding seal_only_def i2 by auto
  from assms Inr k a b show ?thesis
    by (auto simp: seal_message_def Let_def split: sum.splits prod.splits)
qed

lemma restore_progress_exact:
  assumes "seal_only inner inner1"
  shows "restore_progress (capture_progress inner) inner1 = inner\<lparr> si_event_handler := si_event_handler inner1 \<rparr>"
  using assms by (auto simp: seal_only_def restore_progress_def capture_progress_def map_state_def)

lemma seal_only_frame: "seal_only inner inner1 \<Longrightarrow> send_frame inner inner1"
  by (auto simp: seal_only_def send_frame_def)

lemma send_frame_trans: "send_frame a b \<Longrightarrow> send_frame b c \<Longrightarrow> send_frame a c"
  by (simp add: send_frame_def)

lemma encrypt_Err:
  assumes "handles_ok inner" "slot_free P 32" "slot_free P 64"
    and "encrypt P C inner payload ty eid cid d clk = (Err e, inner')"
  shows "inner' = inner\<lparr> si_event_handler := si_event_handler inner' \<rparr>"
proof (cases "encrypt_guards inner payload clk")
  case (Inl e)
  with assms(4) show ?thesis by (simp add: encrypt_unfold)
next
  case (Inr g)
  obtain at snapshot where g: "g = (at, snapshot)" by fastforce
  note gs = guards_snapshot [OF Inr [unfolded g]]
  obtain r1 inner1 where rot: "maybe_rotate_send_ratchet P inner empty_envelope d = (r1, inner1)" by fastforce
  have same: "inner1 = inner" if "snapshot = None" using rot gs that by (auto simp: maybe_rotate_send_ratchet_def)
  have fr1: "send_frame inner inner1" using rotate_frame [OF rot] by blast
  show ?thesis
  proof (cases r1)
    case (Inl e)
    show ?thesis using assms(4) Inr g rot Inl gs same restore_ratchet_exact [OF assms(1-3) _ fr1]
      by (auto simp: encrypt_unfold split: option.splits)
  next
    case env: (Inr env)
    obtain r2 inner2 where seal: "seal_message P C inner1 (env\<lparr> se_ratchet_epoch := ps_send_ratchet_epoch (si_state inner1) \<rparr>)
        payload ty eid cid None d (clk 2) = (r2, inner2)" by fastforce
    note so = seal_only [OF seal]
    have "inner' = rollback_send_encrypt_state P inner2 snapshot (capture_progress inner1)"
      using assms(4) Inr g rot env seal by (auto simp: encrypt_unfold split: sum.splits)
    moreover have "rollback_send_encrypt_state P inner2 snapshot (capture_progress inner1) =
        inner\<lparr> si_event_handler := si_event_handler inner2 \<rparr>"
      using gs same restore_progress_exact [OF so]
        restore_ratchet_exact [OF assms(1-3) _ send_frame_trans [OF fr1 seal_only_frame [OF so]]]
      by (auto simp: rollback_send_encrypt_state_def)
    ultimately show ?thesis by simp
  qed
qed

end
