(* ===== verification/Session_Sync.thy ===== *)
theory Session_Sync
  imports Session_Receive
begin

text \<open>
  Two sessions that belong together. \<open>paired\<close> relates the sending side of each to the receiving side
  of the other; a message that one sends and the other receives comes out as it went in and leaves
  the two paired, whether or not the sender made a ratchet step. Hence every message of any
  conversation with in-order delivery arrives.
\<close>

section \<open>Sealing and opening one message\<close>

definition sent_metadata :: "nat \<Rightarrow> bytes \<Rightarrow> int \<Rightarrow> nat \<Rightarrow> string option \<Rightarrow> envelope_metadata" where
  "sent_metadata i nonce ty eid cid = \<lparr> em_message_index = i, em_payload_nonce = nonce, em_envelope_type = ty,
     em_envelope_id = eid, em_correlation_id = cid \<rparr>"

definition message_nonce :: "nonce_state_proto \<Rightarrow> nat \<Rightarrow> bytes" where
  "message_nonce ng i = nsp_prefix ng @ le_bytes 2 (nsp_counter ng) @ le_bytes 2 i"

text \<open>An envelope that opens to the given metadata and payload under a metadata key and a message key.\<close>

definition opens_to ::
    "prims \<Rightarrow> codec \<Rightarrow> protocol_state \<Rightarrow> secure_envelope \<Rightarrow> bytes \<Rightarrow> bytes \<Rightarrow> envelope_metadata \<Rightarrow> bytes \<Rightarrow> bool" where
  "opens_to P C st env mdk mk md payload \<longleftrightarrow>
     length (se_header_nonce env) = 12 \<and>
     (\<exists>mad mb. build_metadata_aad st (se_ratchet_epoch env) (se_previous_chain_length env) = Ok mad \<and>
        aes_gcm_decrypt P mdk (se_header_nonce env) (se_encrypted_metadata env) mad = Ok mb \<and> decode_metadata C mb = Some md) \<and>
     (\<exists>pad'. build_payload_aad st (se_ratchet_epoch env) (em_message_index md) (se_previous_chain_length env) = Ok pad' \<and>
        aes_gcm_decrypt P mk (em_payload_nonce md) (se_encrypted_payload env) pad' = Ok (pad payload))"

lemma aad_cong:
  assumes "ps_session_id s = ps_session_id s'" "ps_identity_binding_hash s = ps_identity_binding_hash s'"
  shows "build_metadata_aad s = build_metadata_aad s'" "build_payload_aad s = build_payload_aad s'"
  using assms by (simp_all add: fun_eq_iff build_metadata_aad_def build_payload_aad_def)

lemma opens_to_cong:
  assumes "ps_session_id s = ps_session_id s'" "ps_identity_binding_hash s = ps_identity_binding_hash s'"
  shows "opens_to P C s = opens_to P C s'"
  using aad_cong [OF assms] by (simp add: fun_eq_iff opens_to_def)

lemma aad_ok:
  assumes "length (ps_session_id s) = 16" "length (ps_identity_binding_hash s) = 32"
  shows "\<exists>m. build_metadata_aad s e pcl = Ok m \<and> length m \<le> 2 ^ 36"
    "\<exists>m. build_payload_aad s e i pcl = Ok m \<and> length m \<le> 2 ^ 36"
  using assms
  by (simp_all add: build_metadata_aad_def build_payload_aad_def previous_chain_length_aad_def split: option.splits)

text \<open>What a caller may ask to be sent.\<close>

definition message_ok :: "bytes \<Rightarrow> int \<Rightarrow> nat \<Rightarrow> string option \<Rightarrow> bool" where
  "message_ok payload ty eid cid \<longleftrightarrow> length payload \<le> MAX_BUFFER_SIZE \<and> - (2 ^ 31) \<le> ty \<and> ty < 2 ^ 31 \<and> eid \<le> u32_max \<and>
     correlation_size cid \<le> 2 ^ 34"

text \<open>A session whose sending side can take a message without a ratchet step.\<close>

definition send_ready :: "session_inner \<Rightarrow> chain_state \<Rightarrow> nonce_state_proto \<Rightarrow> bool" where
  "send_ready A sc ng \<longleftrightarrow>
     ps_send_chain (si_state A) = Some sc \<and> length (cs_chain_key sc) = 32 \<and> cs_message_index sc < MAX_MESSAGES_PER_CHAIN \<and>
     ps_nonce_generator (si_state A) = Some ng \<and> length (nsp_prefix ng) = 8 \<and> nsp_counter ng \<le> cs_message_index sc \<and>
     cs_message_index sc < state_nonce_limit (si_state A) \<and>
     length (ps_send_metadata_key (si_state A)) = 32 \<and> length (ps_session_id (si_state A)) = 16 \<and>
     length (ps_identity_binding_hash (si_state A)) = 32"

lemma nonce_limit_ge: "n < m \<Longrightarrow> n < 65535 \<Longrightarrow> n < nonce_limit m"
  by (simp add: nonce_limit_def)

lemma send_nonce:
  assumes "send_ready A sc ng"
  shows "\<exists>g g'. load_nonce_generator (si_state (set_send_chain sc' A)) = Ok g \<and>
    next_nonce g (cs_message_index sc) = (Ok (message_nonce ng (cs_message_index sc)), g') \<and>
    export_state g' = \<lparr> ns_prefix = nsp_prefix ng, ns_counter = nsp_counter ng + 1 \<rparr>"
proof -
  let ?st = "si_state (set_send_chain sc' A)"
  let ?ns = "\<lparr> ns_prefix = nsp_prefix ng, ns_counter = nsp_counter ng \<rparr>"
  let ?g = "\<lparr> ng_state = ?ns, ng_max_counter = nonce_limit (state_nonce_limit (si_state A)) \<rparr>"
  have lim: "state_nonce_limit ?st = state_nonce_limit (si_state A)" "ps_nonce_generator ?st = Some ng"
    using assms by (simp_all add: set_send_chain_def map_state_def state_nonce_limit_def send_ready_def)
  have c: "nsp_counter ng < nonce_limit (state_nonce_limit (si_state A))" "nsp_counter ng < 65535" "cs_message_index sc < 10000"
    using assms by (auto simp: send_ready_def intro!: nonce_limit_ge)
  then have l: "load_nonce_generator ?st = Ok ?g"
    using assms lim by (simp add: load_nonce_generator_def nonce_state_new_def from_state_with_limit_def send_ready_def)
  have "fst (next_nonce ?g (cs_message_index sc)) = Ok (message_nonce ng (cs_message_index sc))"
    unfolding next_nonce_Ok using c by (simp add: message_nonce_def)
  moreover have "snd (next_nonce ?g (cs_message_index sc)) =
      ?g\<lparr> ng_state := ?ns\<lparr> ns_counter := nsp_counter ng + 1 \<rparr> \<rparr>"
    using next_nonce_state [of ?g "cs_message_index sc"] calculation by simp
  ultimately show ?thesis using l
    by (intro exI [of _ ?g] exI [of _ "snd (next_nonce ?g (cs_message_index sc))"])
      (simp add: export_state_def prod_eq_iff)
qed

lemma seal_payload:
  assumes "aead_ok P" "codec_ok C" "length mdk = 32" "length mk = 32" "length hn = 12" "length nonce = 12"
    and "length (ps_session_id st) = 16" "length (ps_identity_binding_hash st) = 32"
    and "message_ok payload ty eid cid" "i < 10000" "md = sent_metadata i nonce ty eid cid"
  shows "\<exists>mb mad em pa ep. encode_metadata C md = Some mb \<and> decode_metadata C mb = Some md \<and>
    build_metadata_aad st e pcl = Ok mad \<and> aes_gcm_encrypt P mdk hn mb mad = Ok em \<and> aes_gcm_decrypt P mdk hn em mad = Ok mb \<and>
    build_payload_aad st e i pcl = Ok pa \<and> aes_gcm_encrypt P mk nonce (pad payload) pa = Ok ep \<and>
    aes_gcm_decrypt P mk nonce ep pa = Ok (pad payload)"
proof -
  from assms(2) have "\<exists>b. encode_metadata C md = Some b \<and> decode_metadata C b = Some md \<and>
      (metadata_bounded md \<longrightarrow> length b \<le> 64 + 2 * correlation_size (em_correlation_id md))" unfolding codec_ok_def by blast
  then obtain mb where mb: "encode_metadata C md = Some mb" "decode_metadata C mb = Some md"
    "metadata_bounded md \<longrightarrow> length mb \<le> 64 + 2 * correlation_size (em_correlation_id md)" by blast
  have "metadata_bounded md" "correlation_size (em_correlation_id md) \<le> 2 ^ 34"
    using assms(6,9-11) by (simp_all add: metadata_bounded_def sent_metadata_def message_ok_def)
  with mb(3) have lmb: "length mb \<le> 2 ^ 36" by simp
  obtain mad where mad: "build_metadata_aad st e pcl = Ok mad" "length mad \<le> 2 ^ 36" using aad_ok(1) [OF assms(7,8)] by blast
  obtain pa where pa: "build_payload_aad st e i pcl = Ok pa" "length pa \<le> 2 ^ 36" using aad_ok(2) [OF assms(7,8)] by blast
  have "length (pad payload) \<le> 2 ^ 36"
    using message_padding.pad_bounds [of payload] assms(9) by (simp add: message_ok_def)
  from aes_gcm_seal_ex [OF assms(1,4,6) this pa(2)] aes_gcm_seal_ex [OF assms(1,3,5) lmb mad(2)] mb(1,2) mad(1) pa(1)
  show ?thesis by blast
qed

lemma seal_ok:
  assumes "hkdf_ok P" "aead_ok P" "codec_ok C" "send_ready A sc ng" "message_ok payload ty eid cid"
    and "length (sd_header_nonce d) = 12" "rd = Ok t" "t \<le> 9223372036854775807"
  shows "\<exists>env' A'. seal_message P C A env payload ty eid cid None d rd = (Ok env', A') \<and> seal_only A A' \<and>
    ps_send_chain (si_state A') = Some (sc\<lparr> cs_chain_key := next_ck P (cs_chain_key sc), cs_message_index := cs_message_index sc + 1 \<rparr>) \<and>
    ps_nonce_generator (si_state A') = Some \<lparr> nsp_prefix = nsp_prefix ng, nsp_counter = nsp_counter ng + 1 \<rparr> \<and>
    (\<exists>em ep s. env' = env\<lparr> se_encrypted_metadata := em, se_encrypted_payload := ep, se_header_nonce := sd_header_nonce d, se_sent_at := s \<rparr>) \<and>
    opens_to P C (si_state A) env' (ps_send_metadata_key (si_state A)) (msg_of P (cs_chain_key sc))
      (sent_metadata (cs_message_index sc) (message_nonce ng (cs_message_index sc)) ty eid cid) payload"
proof -
  let ?i = "cs_message_index sc" and ?n = "message_nonce ng (cs_message_index sc)"
  let ?sc = "sc\<lparr> cs_chain_key := next_ck P (cs_chain_key sc), cs_message_index := cs_message_index sc + 1 \<rparr>"
  let ?A1 = "set_send_chain ?sc A"
  have r: "ps_send_chain (si_state A) = Some sc" "length (cs_chain_key sc) = 32" "?i < 10000" "length (nsp_prefix ng) = 8"
    "length (ps_send_metadata_key (si_state A)) = 32" "length (ps_session_id (si_state A)) = 16"
    "length (ps_identity_binding_hash (si_state A)) = 32" using assms(4) by (simp_all add: send_ready_def)
  have nk: "next_send_message_key P A = Ok ((?i, msg_of P (cs_chain_key sc)), ?A1)"
    using r derive_step [OF assms(1)] by (simp add: next_send_message_key_def)
  from send_nonce [OF assms(4)] obtain g g' where g: "load_nonce_generator (si_state ?A1) = Ok g"
    "next_nonce g ?i = (Ok ?n, g')" "export_state g' = \<lparr> ns_prefix = nsp_prefix ng, ns_counter = nsp_counter ng + 1 \<rparr>" by blast
  define A2 where "A2 = warn_after_nonce (export_state g') ?A1"
  have st: "si_state A2 = (si_state A)\<lparr> ps_send_chain := Some ?sc,
      ps_nonce_generator := Some \<lparr> nsp_prefix = nsp_prefix ng, nsp_counter = nsp_counter ng + 1 \<rparr> \<rparr>"
    by (simp add: A2_def warn_after_nonce_def g(3) notify_def map_state_def set_send_chain_def store_nonce_state_def Let_def)
  let ?md = "sent_metadata ?i ?n ty eid cid"
  have ln: "length ?n = 12" using r by (simp add: message_nonce_def)
  have ids: "length (ps_session_id (si_state A2)) = 16" "length (ps_identity_binding_hash (si_state A2)) = 32"
    "ps_send_metadata_key (si_state A2) = ps_send_metadata_key (si_state A)"
    using r by (simp_all add: st)
  from seal_payload [OF assms(2,3) r(5) conjunct1 [OF chain_lengths [OF assms(1), of "cs_chain_key sc"]] assms(6) ln
      ids(1,2) assms(5) r(3) refl, where e = "se_ratchet_epoch env" and pcl = "se_previous_chain_length env"]
  obtain mb mad em pa ep where s: "encode_metadata C ?md = Some mb" "decode_metadata C mb = Some ?md"
    "build_metadata_aad (si_state A2) (se_ratchet_epoch env) (se_previous_chain_length env) = Ok mad"
    "aes_gcm_encrypt P (ps_send_metadata_key (si_state A)) (sd_header_nonce d) mb mad = Ok em"
    "aes_gcm_decrypt P (ps_send_metadata_key (si_state A)) (sd_header_nonce d) em mad = Ok mb"
    "build_payload_aad (si_state A2) (se_ratchet_epoch env) ?i (se_previous_chain_length env) = Ok pa"
    "aes_gcm_encrypt P (msg_of P (cs_chain_key sc)) ?n (pad payload) pa = Ok ep"
    "aes_gcm_decrypt P (msg_of P (cs_chain_key sc)) ?n ep pa = Ok (pad payload)" by blast
  let ?env = "env\<lparr> se_encrypted_metadata := em, se_encrypted_payload := ep, se_header_nonce := sd_header_nonce d,
      se_sent_at := Some (int t, 0) \<rparr>"
  have seal: "seal_message P C A env payload ty eid cid None d rd = (Ok ?env, A2)"
    unfolding seal_message_def nk using g(1,2) s(1,3,4,6,7) assms(6-8) ids(3)
    by (simp add: A2_def [symmetric, simplified] Let_def sent_metadata_def timestamp_from_unix_secs_def)
  have "opens_to P C (si_state A) ?env (ps_send_metadata_key (si_state A)) (msg_of P (cs_chain_key sc)) ?md payload"
  proof -
    have "build_metadata_aad (si_state A2) = build_metadata_aad (si_state A)" "build_payload_aad (si_state A2) = build_payload_aad (si_state A)"
      by (rule aad_cong; simp add: st)+
    with s(2,3,5,6,8) assms(6) show ?thesis unfolding opens_to_def by (simp add: sent_metadata_def)
  qed
  moreover have "\<exists>em ep s. ?env = env\<lparr> se_encrypted_metadata := em, se_encrypted_payload := ep,
      se_header_nonce := sd_header_nonce d, se_sent_at := s \<rparr>" by blast
  moreover have "ps_send_chain (si_state A2) = Some ?sc"
    "ps_nonce_generator (si_state A2) = Some \<lparr> nsp_prefix = nsp_prefix ng, nsp_counter = nsp_counter ng + 1 \<rparr>"
    by (simp_all add: st)
  ultimately show ?thesis using seal seal_only [OF seal]
    by (intro exI [of _ ?env] exI [of _ A2] conjI)
qed

lemma nonce_index_read:
  assumes "length p = 8" "i < 65536" "length n2 = 2"
  shows "extract_nonce_index (p @ n2 @ le_bytes 2 i) = Ok i"
proof -
  let ?n = "p @ n2 @ le_bytes 2 i"
  obtain a b where ab: "le_bytes 2 i = [a, b]" by (simp add: numeral_2_eq_2)
  have "?n ! 10 = a" "?n ! 11 = b" using assms(1,3) by (simp_all add: nth_append ab)
  moreover have "le_value [a, b] = i" using le_value_le_bytes [of i 2] assms(2) by (simp add: ab)
  ultimately show ?thesis using assms by (simp add: extract_nonce_index_def Let_def)
qed

text \<open>Opening the next message of the receiving chain.\<close>

lemma open_ok:
  assumes "hkdf_ok P" "skipped_wf B" "ps_recv_chain (si_state B) = Some rc" "length (cs_chain_key rc) = 32"
    and "se_ratchet_epoch env = repoch B" "opens_to P C (si_state B) env (ps_metadata_key (si_state B)) (msg_of P (cs_chain_key rc)) md payload"
    and "md = sent_metadata (cs_message_index rc) (message_nonce ng (cs_message_index rc)) ty eid cid" "length (nsp_prefix ng) = 8"
    and "cs_message_index rc < mx" "mx \<le> 10000" "em_payload_nonce md \<notin> si_seen_payload_nonces B" "length payload \<le> MAX_BUFFER_SIZE"
  shows "\<exists>B1. open_message P C B env False snap mx = (Ok \<lparr> dr_plaintext = payload, dr_metadata = md \<rparr>,
      if si_send_ratchet_pending B then remember_seen_payload_nonce B1 (em_payload_nonce md)
      else (map_state (\<lambda>st. st\<lparr> ps_send_ratchet_pending := True \<rparr>) (remember_seen_payload_nonce B1 (em_payload_nonce md)))
             \<lparr> si_send_ratchet_pending := True \<rparr>) \<and> recv_only B B1 \<and>
    ps_recv_chain (si_state B1) = Some (rc\<lparr> cs_chain_key := next_ck P (cs_chain_key rc), cs_message_index := cs_message_index rc + 1 \<rparr>)"
proof -
  let ?i = "cs_message_index rc"
  have inv: "bt_inv (si_skipped_message_keys B)" using assms(2) by (simp add: skipped_wf_def)
  have md: "em_message_index md = ?i" "em_payload_nonce md = message_nonce ng ?i" by (simp_all add: assms(7) sent_metadata_def)
  have "extract_nonce_index (em_payload_nonce md) = Ok ?i" "length (em_payload_nonce md) = 12"
    using nonce_index_read [of "nsp_prefix ng" ?i "le_bytes 2 (nsp_counter ng)"] assms(8-10) by (simp_all add: md message_nonce_def)
  then have om: "open_metadata P C B env False mx = Ok md"
    using assms(6,9-11) md by (auto simp: opens_to_def open_metadata_def payload_nonce_to_array_def Let_def)
  from get_recv_new [OF assms(1) inv assms(3,4), of ?i] assms(9,10) obtain B1 where
    g: "get_recv_message_key P B ?i = (Ok (msg_of P (cs_chain_key rc)), B1)" and adv: "advanced P B rc ?i B1" by auto
  from adv obtain inner1 sk' where res: "reserve_skipped_capacity B (?i - ?i) = (Ok (), inner1)"
    and b1: "B1 = set_recv_chain (rc\<lparr> cs_chain_key := chain_at P (cs_chain_key rc) (Suc (?i - ?i)), cs_message_index := ?i + 1 \<rparr>)
       (inner1\<lparr> si_skipped_message_keys := sk' \<rparr>)" unfolding advanced_def by blast
  have ro: "recv_only B B1" unfolding b1 by (rule recv_only_reserve [OF res])
  have rc: "ps_recv_chain (si_state B1) = Some (rc\<lparr> cs_chain_key := next_ck P (cs_chain_key rc), cs_message_index := ?i + 1 \<rparr>)"
    by (simp add: b1 set_recv_chain_def map_state_def)
  have "opens_to P C (si_state B1) = opens_to P C (si_state B)"
    by (rule opens_to_cong) (use ro in \<open>auto simp: recv_only_def\<close>)
  with assms(6) have "opens_to P C (si_state B1) env (ps_metadata_key (si_state B)) (msg_of P (cs_chain_key rc)) md payload" by simp
  moreover have "unpad (pad payload) = Ok payload" using message_padding.pad_roundtrip [of payload] assms(12) by simp
  ultimately have "open_payload P B1 env md (msg_of P (cs_chain_key rc)) = Ok payload"
    by (auto simp: opens_to_def open_payload_def)
  moreover have "recv_message_key P B False (se_ratchet_epoch env) (em_message_index md) = (Ok (msg_of P (cs_chain_key rc)), B1)"
    using g md by (simp add: recv_message_key_def)
  ultimately show ?thesis using om ro rc recv_only_fields(5) [OF ro]
    by (intro exI [of _ B1]) (simp add: open_message_def remember_fields Let_def)
qed

section \<open>Pairs of sessions\<close>

text \<open>The private keys a session holds, by their public halves.\<close>

definition own_keys :: "prims \<Rightarrow> session_inner \<Rightarrow> bytes \<Rightarrow> bytes \<Rightarrow> bool" where
  "own_keys P B xpub kpub \<longleftrightarrow> (\<exists>b seed. si_dh_private_handle B = Some b \<and> length b = 32 \<and> xpub = x25519_public P b \<and>
     si_kyber_secret_handle B = Some (fst (mlkem_keygen P seed)) \<and> kpub = snd (mlkem_keygen P seed))"

text \<open>No nonce that the generator can still produce has been seen by the receiver.\<close>

definition nonces_fresh :: "nonce_state_proto \<Rightarrow> session_inner \<Rightarrow> bool" where
  "nonces_fresh ng B \<longleftrightarrow> (\<forall>c i. nsp_counter ng \<le> c \<and> c \<le> u16_max \<and> i \<le> u16_max \<longrightarrow>
     nsp_prefix ng @ le_bytes 2 c @ le_bytes 2 i \<notin> si_seen_payload_nonces B)"

text \<open>The sending side of the first session and the receiving side of the second.\<close>

definition linked :: "session_inner \<Rightarrow> session_inner \<Rightarrow> bool" where
  "linked A B \<longleftrightarrow> (\<exists>sc rc ng. ps_send_chain (si_state A) = Some sc \<and> ps_recv_chain (si_state B) = Some rc \<and>
     cs_chain_key sc = cs_chain_key rc \<and> length (cs_chain_key sc) = 32 \<and>
     cs_message_index sc = cs_message_index rc \<and> cs_message_index sc \<le> ps_max_messages_per_chain (si_state A) \<and>
     ps_send_ratchet_epoch (si_state A) = repoch B \<and>
     ps_send_metadata_key (si_state A) = ps_metadata_key (si_state B) \<and> length (ps_metadata_key (si_state B)) = 32 \<and>
     ps_nonce_generator (si_state A) = Some ng \<and> length (nsp_prefix ng) = 8 \<and> nsp_counter ng \<le> cs_message_index sc \<and>
     nonces_fresh ng B)"

definition session_ready :: "session_inner \<Rightarrow> bool" where
  "session_ready A \<longleftrightarrow> session_wf A \<and> ps_version (si_state A) \<noteq> 0 \<and> ps_session_ttl_seconds (si_state A) = None \<and>
     length (ps_session_id (si_state A)) = 16 \<and> length (ps_identity_binding_hash (si_state A)) = 32 \<and>
     length (ps_root_key (si_state A)) = 32 \<and> 0 < ps_max_messages_per_chain (si_state A) \<and>
     ps_max_messages_per_chain (si_state A) \<le> MAX_MESSAGES_PER_CHAIN \<and>
     ps_max_messages_per_chain (si_state A) \<le> state_nonce_limit (si_state A)"

definition paired :: "prims \<Rightarrow> session_inner \<Rightarrow> session_inner \<Rightarrow> bool" where
  "paired P A B \<longleftrightarrow> session_ready A \<and> session_ready B \<and>
     ps_session_id (si_state A) = ps_session_id (si_state B) \<and>
     ps_identity_binding_hash (si_state A) = ps_identity_binding_hash (si_state B) \<and>
     ps_root_key (si_state A) = ps_root_key (si_state B) \<and>
     ps_max_messages_per_chain (si_state A) = ps_max_messages_per_chain (si_state B) \<and>
     linked A B \<and> linked B A \<and>
     own_keys P B (ps_dh_remote_public (si_state A)) (ps_kyber_remote_public (si_state A)) \<and>
     own_keys P A (ps_dh_remote_public (si_state B)) (ps_kyber_remote_public (si_state B))"

lemma paired_sym: "paired P A B \<Longrightarrow> paired P B A"
  by (auto simp: paired_def)

lemma pairedD:
  assumes "paired P A B"
  shows "session_ready A" "session_ready B" "ps_session_id (si_state A) = ps_session_id (si_state B)"
    "ps_identity_binding_hash (si_state A) = ps_identity_binding_hash (si_state B)"
    "ps_root_key (si_state A) = ps_root_key (si_state B)"
    "ps_max_messages_per_chain (si_state A) = ps_max_messages_per_chain (si_state B)" "linked A B" "linked B A"
    "own_keys P B (ps_dh_remote_public (si_state A)) (ps_kyber_remote_public (si_state A))"
    "own_keys P A (ps_dh_remote_public (si_state B)) (ps_kyber_remote_public (si_state B))"
  using assms by (simp_all add: paired_def)

lemma session_readyD:
  assumes "session_ready A"
  shows "session_wf A" "ps_version (si_state A) \<noteq> 0" "ps_session_ttl_seconds (si_state A) = None"
    "length (ps_session_id (si_state A)) = 16" "length (ps_identity_binding_hash (si_state A)) = 32"
    "length (ps_root_key (si_state A)) = 32" "0 < ps_max_messages_per_chain (si_state A)"
    "ps_max_messages_per_chain (si_state A) \<le> 10000"
    "ps_max_messages_per_chain (si_state A) \<le> state_nonce_limit (si_state A)"
  using assms by (simp_all add: session_ready_def)

text \<open>The hypotheses on the primitives, and on the draws of one call.\<close>

definition session_crypto_ok :: "prims \<Rightarrow> bool" where
  "session_crypto_ok P \<longleftrightarrow> hkdf_ok P \<and> aead_ok P \<and> dh_ok P \<and> kem_ok P \<and> x25519_keys_ok P \<and> slot_free P 32 \<and> slot_free P 64"

lemma session_crypto_okD:
  assumes "session_crypto_ok P"
  shows "hkdf_ok P" "aead_ok P" "dh_ok P" "kem_ok P" "x25519_keys_ok P" "slot_free P 32" "slot_free P 64"
  using assms by (simp_all add: session_crypto_ok_def)

definition draws_ok :: "prims \<Rightarrow> send_draws \<Rightarrow> bool" where
  "draws_ok P d \<longleftrightarrow> length (sd_x25519 d) = 32 \<and> length (sd_nonce_prefix d) = 8 \<and> length (sd_header_nonce d) = 12 \<and>
     \<not> list_all (\<lambda>b. b = 0) (snd (mlkem_keygen P (sd_kyber_keygen d))) \<and>
     (\<forall>seed. \<not> list_all (\<lambda>b. b = 0) (fst (mlkem_encaps P (snd (mlkem_keygen P seed)) (sd_encaps d))))"

lemma ratchet_keys_ok:
  assumes "hkdf_ok P"
  shows "\<exists>nr nc nm. derive_ratchet_keys P dh ss root pk = Ok (nr, nc, nm) \<and> length nr = 32 \<and> length nc = 32 \<and> length nm = 32"
proof -
  obtain okm where "derive_key_bytes P (dh @ ss) 96 root (HYBRID_RATCHET_INFO @ pk) = Ok okm" "length okm = 96"
    by (rule derive_key_bytes_ok [OF assms, of 96]) auto
  then show ?thesis by (simp add: derive_ratchet_keys_def)
qed

text \<open>Both ends of a ratchet step derive the same keys.\<close>

lemma ratchet_material:
  assumes "session_crypto_ok P" "draws_ok P d" "own_keys P B (ps_dh_remote_public st) (ps_kyber_remote_public st)"
    and "ps_root_key (si_state B) = ps_root_key st" "length (ps_root_key st) = 32"
  shows "\<exists>ct keys nr nc nm. keys = (nr, nc, nm) \<and> length nr = 32 \<and> length nc = 32 \<and> length nm = 32 \<and>
    send_ratchet_material P st d = Ok ((sd_x25519 d, x25519_public P (sd_x25519 d)), ct, mlkem_keygen P (sd_kyber_keygen d), keys) \<and>
    recv_ratchet_material P B (x25519_public P (sd_x25519 d)) ct (snd (mlkem_keygen P (sd_kyber_keygen d))) = Ok keys \<and>
    length ct = 1088 \<and> kyber_validate_ciphertext ct = Ok ()"
proof -
  note c = session_crypto_okD [OF assms(1)]
  let ?x = "sd_x25519 d"
  obtain dk' ek' where kg: "mlkem_keygen P (sd_kyber_keygen d) = (dk', ek')" by fastforce
  obtain b seed where b: "si_dh_private_handle B = Some b" "length b = 32" "ps_dh_remote_public st = x25519_public P b"
    "si_kyber_secret_handle B = Some (fst (mlkem_keygen P seed))" "ps_kyber_remote_public st = snd (mlkem_keygen P seed)"
    using assms(3) unfolding own_keys_def by blast
  obtain dk ek where sk: "mlkem_keygen P seed = (dk, ek)" by fastforce
  obtain ct ss where e: "mlkem_encaps P ek (sd_encaps d) = (ct, ss)" by fastforce
  note k = kyber_encapsulate_ok [OF c(4,6) sk e]
  have lx: "length ?x = 32" using assms(2) by (simp add: draws_ok_def)
  have lp: "length (x25519_public P b) = 32" using c(3) [unfolded dh_ok_def, rule_format, of b b] b(2) by simp
  have v: "validate_x25519_public_key (x25519_public P b) = Ok ()" using c(5) b(2) by (simp add: x25519_keys_ok_def)
  note dh = compute_dh_ok [OF c(3) lx b(2)]
  from ratchet_keys_ok [OF c(1), of "x25519_dh P ?x (x25519_public P b)" ss "ps_root_key st" ek'] obtain nr nc nm where
    keys: "derive_ratchet_keys P (x25519_dh P ?x (x25519_public P b)) ss (ps_root_key st) ek' = Ok (nr, nc, nm)"
    "length nr = 32" "length nc = 32" "length nm = 32" by blast
  have "send_ratchet_material P st d = Ok ((?x, x25519_public P ?x), ct, (dk', ek'), (nr, nc, nm))"
    unfolding send_ratchet_material_def
    using b(3,5) sk lp assms(5) kem_ok_keygen(2) [OF c(4) sk] generate_x25519_keypair_ok [OF lx c(6)] lx v dh(1) k(1,3)
      kyber_generate_keypair_ok [OF c(4,7) kg] keys(1) by simp
  moreover have "recv_ratchet_material P B (x25519_public P ?x) ct ek' = Ok (nr, nc, nm)"
    unfolding recv_ratchet_material_def using b sk dh(2) k(2,3) keys(1) assms(4) by simp
  moreover have "kyber_validate_ciphertext ct = Ok ()"
  proof -
    have "\<not> list_all (\<lambda>b. b = 0) (fst (mlkem_encaps P (snd (mlkem_keygen P seed)) (sd_encaps d)))"
      using assms(2) unfolding draws_ok_def by blast
    then show ?thesis using sk e k(4) by (simp add: kyber_validate_ciphertext_def)
  qed
  ultimately show ?thesis using keys(2-4) k(4)
    by (intro exI [of _ ct] exI [of _ "(nr, nc, nm)"] exI [of _ nr] exI [of _ nc] exI [of _ nm]) (simp add: kg)
qed

text \<open>The session after its sender's ratchet step.\<close>

definition rotated :: "session_inner \<Rightarrow> send_draws \<Rightarrow> prims \<Rightarrow> bytes \<times> bytes \<times> bytes \<Rightarrow> session_inner" where
  "rotated A d P keys = (case keys of (nr, nc, nm) \<Rightarrow> A\<lparr>
     si_state := (si_state A)\<lparr> ps_root_key := nr, ps_send_metadata_key := nm,
       ps_send_chain := Some \<lparr> cs_message_index = 0, cs_chain_key = nc, cs_skipped_message_keys = [] \<rparr>,
       ps_send_ratchet_epoch := ps_send_ratchet_epoch (si_state A) + 1,
       ps_dh_local := set_local_dh_public (x25519_public P (sd_x25519 d)) (ps_dh_local (si_state A)),
       ps_kyber_local := set_local_kyber_public (snd (mlkem_keygen P (sd_kyber_keygen d))) (ps_kyber_local (si_state A)),
       ps_send_ratchet_pending := False,
       ps_nonce_generator := Some \<lparr> nsp_prefix = sd_nonce_prefix d, nsp_counter = 0 \<rparr> \<rparr>,
     si_dh_private_handle := Some (sd_x25519 d), si_kyber_secret_handle := Some (fst (mlkem_keygen P (sd_kyber_keygen d))),
     si_send_ratchet_pending := False, si_messages_since_last_dh_ratchet := 0 \<rparr>)"

lemma rotate_ok:
  assumes "session_crypto_ok P" "draws_ok P d" "send_ratchet_rotation_needed A = Ok True"
    and "send_ratchet_material P (si_state A) d =
      Ok ((sd_x25519 d, x25519_public P (sd_x25519 d)), ct, mlkem_keygen P (sd_kyber_keygen d), keys)"
    and "ps_send_ratchet_epoch (si_state A) < u64_max" "ps_send_chain (si_state A) = Some sc"
  shows "maybe_rotate_send_ratchet P A empty_envelope d =
    (Ok (empty_envelope\<lparr> se_previous_chain_length := Some (cs_message_index sc),
       se_dh_public_key := Some (x25519_public P (sd_x25519 d)), se_kyber_ciphertext := Some ct,
       se_new_kyber_public := Some (snd (mlkem_keygen P (sd_kyber_keygen d))) \<rparr>), rotated A d P keys)"
proof -
  obtain nr nc nm where k: "keys = (nr, nc, nm)" by (cases keys)
  obtain dk ek where kg: "mlkem_keygen P (sd_kyber_keygen d) = (dk, ek)" by fastforce
  have l: "length (sd_x25519 d) = 32" "length (sd_nonce_prefix d) = 8" using assms(2) by (simp_all add: draws_ok_def)
  have h: "new_handle P 32 (sd_x25519 d) = Ok (sd_x25519 d)"
    using session_crypto_okD(6) [OF assms(1)] l(1) by (intro new_handle_exact) simp_all
  have c: "checked_add_u64 (ps_send_ratchet_epoch (si_state A)) 1 = Some (ps_send_ratchet_epoch (si_state A) + 1)"
    using assms(5) by (simp add: checked_add_u64_def)
  show ?thesis
    using assms(3,4,6) k kg h c l(2)
    by (simp add: maybe_rotate_send_ratchet_def rotated_def map_state_def reset_nonce_generator_def create_with_limit_def
        export_state_def store_nonce_state_def Let_def)
qed

text \<open>The receiver of the ratchet header enters the epoch with the same keys.\<close>

lemma recv_rotate_ok:
  assumes "session_crypto_ok P" "draws_ok P d" "session_ready B" "ps_recv_chain (si_state B) = Some rc" "length (cs_chain_key rc) = 32"
    and "cs_message_index rc \<le> ps_max_messages_per_chain (si_state B)" "repoch B < u64_max"
    and "recv_ratchet_material P B (x25519_public P (sd_x25519 d)) ct (snd (mlkem_keygen P (sd_kyber_keygen d))) = Ok keys"
    and "length ct = 1088" "kyber_validate_ciphertext ct = Ok ()"
    and "se_dh_public_key env = Some (x25519_public P (sd_x25519 d))" "se_kyber_ciphertext env = Some ct"
    and "se_new_kyber_public env = Some (snd (mlkem_keygen P (sd_kyber_keygen d)))"
    and "se_previous_chain_length env = Some (cs_message_index rc)" "se_ratchet_epoch env = repoch B + 1"
  shows "decrypt_ratchet P B env = (Ok (False, Some (take_ratchet_snapshot B)),
    enter_epoch B (x25519_public P (sd_x25519 d)) (snd (mlkem_keygen P (sd_kyber_keygen d))) keys)"
proof -
  note c = session_crypto_okD [OF assms(1)] and r = session_readyD [OF assms(3)]
  obtain nr nc nm where k: "keys = (nr, nc, nm)" by (cases keys)
  obtain dk ek where kg: "mlkem_keygen P (sd_kyber_keygen d) = (dk, ek)" by fastforce
  have lx: "length (sd_x25519 d) = 32" using assms(2) by (simp add: draws_ok_def)
  have lp: "length (x25519_public P (sd_x25519 d)) = 32"
    using c(3) [unfolded dh_ok_def, rule_format, of "sd_x25519 d" "sd_x25519 d"] lx by simp
  have v: "validate_x25519_public_key (x25519_public P (sd_x25519 d)) = Ok ()" using c(5) lx by (simp add: x25519_keys_ok_def)
  have vk: "kyber_validate_public_key P ek = Ok ()"
    using kem_ok_keygen [OF c(4) kg] assms(2) kg by (simp add: kyber_validate_public_key_def draws_ok_def)
  have h: "check_ratchet_header P B env = Ok (x25519_public P (sd_x25519 d), ct, ek)"
    using assms(9-13) kg lp v vk r(6) kem_ok_keygen(2) [OF c(4) kg] by (simp add: check_ratchet_header_def)
  have s: "skip_old_chain_keys P B (cs_message_index rc) = (Ok (), B)"
    using assms(4-6) r(7,8) by (simp add: skip_old_chain_keys_def Let_def)
  have e: "checked_add_u64 (repoch B) 1 = Some (repoch B + 1)" using assms(7) by (simp add: checked_add_u64_def)
  have a: "apply_recv_ratchet P B env = (Ok (), enter_epoch B (x25519_public P (sd_x25519 d)) ek keys)"
    using h s assms(8,14) kg k e unfolding repoch_def
    by (simp add: apply_recv_ratchet_def enter_epoch_def map_state_def Let_def)
  show ?thesis using a assms(4,6,11-15) e kg unfolding repoch_def
    by (simp add: decrypt_ratchet_def Let_def)
qed

section \<open>Delivery of one message\<close>

lemma nonces_fresh_mono: "nonces_fresh ng B \<Longrightarrow> si_seen_payload_nonces B' \<subseteq> si_seen_payload_nonces B \<Longrightarrow> nonces_fresh ng B'"
  unfolding nonces_fresh_def by blast

text \<open>A link depends on the sending view of one session and the receiving view of the other.\<close>

definition send_view :: "session_inner \<Rightarrow> chain_state option \<times> nat \<times> nat \<times> bytes \<times> nonce_state_proto option" where
  "send_view A = (ps_send_chain (si_state A), ps_max_messages_per_chain (si_state A), ps_send_ratchet_epoch (si_state A),
     ps_send_metadata_key (si_state A), ps_nonce_generator (si_state A))"

lemma linked_cong:
  assumes "linked A B" "send_view A' = send_view A" "ps_recv_chain (si_state B') = ps_recv_chain (si_state B)"
    and "repoch B' = repoch B" "ps_metadata_key (si_state B') = ps_metadata_key (si_state B)"
    and "si_seen_payload_nonces B' \<subseteq> si_seen_payload_nonces B"
  shows "linked A' B'"
  using assms nonces_fresh_mono [OF _ assms(6)] unfolding linked_def send_view_def by auto

lemma rotated_fields:
  assumes "keys = (nr, nc, nm)"
  shows "recv_view (rotated A d P keys) = recv_view A" "pending_agree (rotated A d P keys)"
    "ps_metadata_key (si_state (rotated A d P keys)) = ps_metadata_key (si_state A)"
    "ps_session_id (si_state (rotated A d P keys)) = ps_session_id (si_state A)"
    "ps_identity_binding_hash (si_state (rotated A d P keys)) = ps_identity_binding_hash (si_state A)"
    "ps_dh_remote_public (si_state (rotated A d P keys)) = ps_dh_remote_public (si_state A)"
    "ps_kyber_remote_public (si_state (rotated A d P keys)) = ps_kyber_remote_public (si_state A)"
    "ps_max_messages_per_chain (si_state (rotated A d P keys)) = ps_max_messages_per_chain (si_state A)"
    "ps_root_key (si_state (rotated A d P keys)) = nr"
  using assms by (simp_all add: rotated_def recv_view_def pending_agree_def)

lemma rotated_ready:
  assumes "session_ready A" "keys = (nr, nc, nm)" "length nr = 32"
  shows "session_ready (rotated A d P keys)"
proof -
  note r = session_readyD [OF assms(1)]
  have "session_wf (rotated A d P keys)"
    using recv_view_wf [OF rotated_fields(1,2) [OF assms(2)] r(1)] by blast
  moreover have "state_nonce_limit (si_state (rotated A d P keys)) = state_nonce_limit (si_state A)"
    using assms(2) by (simp add: rotated_def state_nonce_limit_def)
  ultimately show ?thesis using r assms(2,3) by (simp add: session_ready_def rotated_def)
qed

lemma enter_epoch_ready:
  assumes "session_ready B" "keys = (nr, nc, nm)" "length nr = 32"
  shows "session_ready (enter_epoch B dh pk keys)"
proof -
  note r = session_readyD [OF assms(1)] and f = enter_epoch_fields [OF assms(2), of B dh pk]
  note w = session_wfD [OF r(1)] and e = enter_epoch_wf [OF session_wfD(1,2) [OF r(1)], of dh pk keys]
  have "seen_wf (enter_epoch B dh pk keys)" using w(3) f(1) by (simp add: seen_wf_def recv_frame_def)
  moreover have "repoch (enter_epoch B dh pk keys) = repoch B + 1" using e by blast
  ultimately have "session_wf (enter_epoch B dh pk keys)"
    unfolding session_wf_def using e f(2-4) by simp
  moreover have "state_nonce_limit (si_state (enter_epoch B dh pk keys)) = state_nonce_limit (si_state B)"
    using f(2) by (simp add: state_nonce_limit_def)
  ultimately show ?thesis using r assms(3) f(2) by (simp add: session_ready_def)
qed

definition prefix_fresh :: "bytes \<Rightarrow> session_inner \<Rightarrow> bool" where
  "prefix_fresh p B \<longleftrightarrow> (\<forall>n\<in>si_seen_payload_nonces B. take 8 n \<noteq> p)"

lemma prefix_fresh_nonces:
  "prefix_fresh p B \<Longrightarrow> length p = 8 \<Longrightarrow> nonces_fresh \<lparr> nsp_prefix = p, nsp_counter = c \<rparr> B"
  unfolding prefix_fresh_def nonces_fresh_def by force

lemma rotated_paired:
  assumes "session_crypto_ok P" "draws_ok P d" "paired P A B" "prefix_fresh (sd_nonce_prefix d) B"
    and "keys = (nr, nc, nm)" "length nr = 32" "length nc = 32" "length nm = 32"
    and "A1 = rotated A d P keys" "B1 = enter_epoch B (x25519_public P (sd_x25519 d)) (snd (mlkem_keygen P (sd_kyber_keygen d))) keys"
  shows "paired P A1 B1 \<and> ps_send_chain (si_state A1) = Some \<lparr> cs_message_index = 0, cs_chain_key = nc, cs_skipped_message_keys = [] \<rparr>"
proof -
  note p = pairedD [OF assms(3)]
  note fa = rotated_fields [OF assms(5), of A d P] and
    fb = enter_epoch_fields [OF assms(5), of B "x25519_public P (sd_x25519 d)" "snd (mlkem_keygen P (sd_kyber_keygen d))"]
  have st: "si_state A1 = (si_state A)\<lparr> ps_root_key := nr, ps_send_metadata_key := nm,
       ps_send_chain := Some \<lparr> cs_message_index = 0, cs_chain_key = nc, cs_skipped_message_keys = [] \<rparr>,
       ps_send_ratchet_epoch := ps_send_ratchet_epoch (si_state A) + 1,
       ps_dh_local := set_local_dh_public (x25519_public P (sd_x25519 d)) (ps_dh_local (si_state A)),
       ps_kyber_local := set_local_kyber_public (snd (mlkem_keygen P (sd_kyber_keygen d))) (ps_kyber_local (si_state A)),
       ps_send_ratchet_pending := False,
       ps_nonce_generator := Some \<lparr> nsp_prefix = sd_nonce_prefix d, nsp_counter = 0 \<rparr> \<rparr>"
    by (simp add: assms(5,9) rotated_def)
  have r: "session_ready A1" "session_ready B1"
    unfolding assms(9,10) using rotated_ready [OF p(1) assms(5,6)] enter_epoch_ready [OF p(2) assms(5,6)] by blast+
  have ep: "repoch B1 = repoch B + 1" unfolding assms(10) using enter_epoch_wf session_wfD(1,2) [OF session_readyD(1) [OF p(2)]] by blast
  have frame: "si_seen_payload_nonces B1 = si_seen_payload_nonces B" "si_dh_private_handle B1 = si_dh_private_handle B"
    "si_kyber_secret_handle B1 = si_kyber_secret_handle B" using fb(1) by (simp_all add: assms(10) recv_frame_def)
  have lab: "ps_send_ratchet_epoch (si_state A) = repoch B" using p(7) by (auto simp: linked_def)
  have l8: "length (sd_nonce_prefix d) = 8" "length (sd_x25519 d) = 32" using assms(2) by (simp_all add: draws_ok_def)
  have fresh: "nonces_fresh \<lparr> nsp_prefix = sd_nonce_prefix d, nsp_counter = 0 \<rparr> B1"
    by (rule nonces_fresh_mono [OF prefix_fresh_nonces [OF assms(4) l8(1)]]) (simp add: frame)
  have l1: "linked A1 B1" unfolding linked_def
    using st fb(2) ep lab l8 fresh assms(7,8,10) by simp
  have l2: "linked B1 A1"
  proof (rule linked_cong [OF p(8)])
    show "send_view B1 = send_view B" by (simp add: send_view_def assms(10) fb(2))
    show "repoch A1 = repoch A" "ps_recv_chain (si_state A1) = ps_recv_chain (si_state A)"
      "ps_metadata_key (si_state A1) = ps_metadata_key (si_state A)" by (simp_all add: st repoch_def)
    show "si_seen_payload_nonces A1 \<subseteq> si_seen_payload_nonces A" using fa(1) by (simp add: assms(9) recv_view_def)
  qed
  have o1: "own_keys P B1 (ps_dh_remote_public (si_state A1)) (ps_kyber_remote_public (si_state A1))"
    using p(9) frame by (simp add: own_keys_def st)
  have o2: "own_keys P A1 (ps_dh_remote_public (si_state B1)) (ps_kyber_remote_public (si_state B1))"
  proof -
    have "ps_dh_remote_public (si_state B1) = x25519_public P (sd_x25519 d)"
      "ps_kyber_remote_public (si_state B1) = snd (mlkem_keygen P (sd_kyber_keygen d))" by (simp_all add: assms(10) fb(2))
    moreover have "si_dh_private_handle A1 = Some (sd_x25519 d)"
      "si_kyber_secret_handle A1 = Some (fst (mlkem_keygen P (sd_kyber_keygen d)))" by (simp_all add: assms(5,9) rotated_def)
    ultimately show ?thesis unfolding own_keys_def using l8 by auto
  qed
  show ?thesis using r l1 l2 o1 o2 p(3-6) by (simp add: paired_def st assms(10) fb(2))
qed

definition send_prefix :: "session_inner \<Rightarrow> bytes" where
  "send_prefix A = (case ps_nonce_generator (si_state A) of None \<Rightarrow> [] | Some ng \<Rightarrow> nsp_prefix ng)"

definition in_flight :: "secure_envelope \<Rightarrow> session_inner \<Rightarrow> bytes \<Rightarrow> bytes \<Rightarrow> bytes \<Rightarrow> timestamp option \<Rightarrow> secure_envelope" where
  "in_flight env A1 em ep hn s = env\<lparr> se_ratchet_epoch := ps_send_ratchet_epoch (si_state A1), se_encrypted_metadata := em,
     se_encrypted_payload := ep, se_header_nonce := hn, se_sent_at := s \<rparr>"

lemma rotation_decision:
  assumes "session_ready A"
  shows "send_ratchet_rotation_needed A = Ok (si_send_ratchet_pending A \<or>
    ps_max_messages_per_chain (si_state A) \<le> (case ps_send_chain (si_state A) of None \<Rightarrow> 0 | Some c \<Rightarrow> cs_message_index c))"
  using session_readyD(7,8) [OF assms] by (simp add: send_ratchet_rotation_needed_def Let_def)

lemma linked_send_ready:
  assumes "session_ready A" "linked A B" "ps_send_chain (si_state A) = Some sc"
    and "cs_message_index sc < ps_max_messages_per_chain (si_state A)"
  shows "\<exists>ng. ps_nonce_generator (si_state A) = Some ng \<and> send_ready A sc ng"
  using assms session_readyD [OF assms(1)] by (auto simp: linked_def send_ready_def)

text \<open>The ratchet part of sending and receiving: after it, the two sessions are paired and the sender's
  chain has room.\<close>

lemma ratchet_phase:
  assumes "session_crypto_ok P" "draws_ok P d" "paired P A B" "prefix_fresh (sd_nonce_prefix d) B"
    and "ps_send_ratchet_epoch (si_state A) < u64_max"
  shows "\<exists>env A1 B1 snap sc ng. maybe_rotate_send_ratchet P A empty_envelope d = (Ok env, A1) \<and> paired P A1 B1 \<and>
    ps_nonce_generator (si_state A1) = Some ng \<and> send_ready A1 sc ng \<and>
    cs_message_index sc < ps_max_messages_per_chain (si_state A1) \<and> se_version env = 2 \<and>
    recv_frame B B1 \<and> nsp_prefix ng \<in> {send_prefix A, sd_nonce_prefix d} \<and>
    ps_nonce_generator (si_state B1) = ps_nonce_generator (si_state B) \<and> ps_send_ratchet_epoch (si_state A1) \<le> ps_send_ratchet_epoch (si_state A) + 1 \<and>
    ps_total_messages_sent (si_state A1) = ps_total_messages_sent (si_state A) \<and>
    ps_total_messages_received (si_state A1) = ps_total_messages_received (si_state A) \<and>
    ps_total_messages_sent (si_state B1) = ps_total_messages_sent (si_state B) \<and>
    ps_send_ratchet_epoch (si_state B1) = ps_send_ratchet_epoch (si_state B) \<and>
    (\<forall>em ep hn s. decrypt_ratchet P B (in_flight env A1 em ep hn s) = (Ok (False, snap), B1))"
proof -
  note p = pairedD [OF assms(3)]
  obtain sc rc ng where l: "ps_send_chain (si_state A) = Some sc" "ps_recv_chain (si_state B) = Some rc"
    "length (cs_chain_key rc) = 32" "cs_message_index sc = cs_message_index rc"
    "cs_message_index rc \<le> ps_max_messages_per_chain (si_state B)" "ps_send_ratchet_epoch (si_state A) = repoch B"
    "ps_nonce_generator (si_state A) = Some ng"
    using p(6,7) unfolding linked_def by auto
  note dec = rotation_decision [OF p(1)]
  show ?thesis
  proof (cases "si_send_ratchet_pending A \<or> ps_max_messages_per_chain (si_state A) \<le> cs_message_index sc")
    case False
    then have r: "maybe_rotate_send_ratchet P A empty_envelope d = (Ok empty_envelope, A)"
      using dec l(1) by (simp add: maybe_rotate_send_ratchet_def)
    have d: "decrypt_ratchet P B (in_flight empty_envelope A em ep hn s) = (Ok (False, None), B)" for em ep hn s
      using l(6) by (simp add: decrypt_ratchet_def in_flight_def empty_envelope_def repoch_def Let_def)
    obtain ng' where "send_ready A sc ng'" "ps_nonce_generator (si_state A) = Some ng'"
      using linked_send_ready [OF p(1,7) l(1)] False by auto
    with r d assms(3) False l(7) show ?thesis
      by (intro exI [of _ empty_envelope] exI [of _ A] exI [of _ B] exI [of _ None] exI [of _ sc] exI [of _ ng])
        (simp add: empty_envelope_def send_prefix_def)
  next
    case True
    from ratchet_material [OF assms(1,2) p(9) p(5) [symmetric] session_readyD(6) [OF p(1)]] obtain ct keys nr nc nm where
      m: "keys = (nr, nc, nm)" "length nr = 32" "length nc = 32" "length nm = 32"
      "send_ratchet_material P (si_state A) d =
        Ok ((sd_x25519 d, x25519_public P (sd_x25519 d)), ct, mlkem_keygen P (sd_kyber_keygen d), keys)"
      "recv_ratchet_material P B (x25519_public P (sd_x25519 d)) ct (snd (mlkem_keygen P (sd_kyber_keygen d))) = Ok keys"
      "length ct = 1088" "kyber_validate_ciphertext ct = Ok ()" by blast
    let ?A = "rotated A d P keys"
    let ?B = "enter_epoch B (x25519_public P (sd_x25519 d)) (snd (mlkem_keygen P (sd_kyber_keygen d))) keys"
    let ?env = "empty_envelope\<lparr> se_previous_chain_length := Some (cs_message_index sc),
       se_dh_public_key := Some (x25519_public P (sd_x25519 d)), se_kyber_ciphertext := Some ct,
       se_new_kyber_public := Some (snd (mlkem_keygen P (sd_kyber_keygen d))) \<rparr>"
    let ?sc = "\<lparr> cs_message_index = 0, cs_chain_key = nc, cs_skipped_message_keys = [] \<rparr>"
    have rp: "paired P ?A ?B" "ps_send_chain (si_state ?A) = Some ?sc"
      using rotated_paired [OF assms(1-4) m(1-4) refl refl] by blast+
    have r: "maybe_rotate_send_ratchet P A empty_envelope d = (Ok ?env, ?A)"
      by (rule rotate_ok [OF assms(1,2) _ m(5) assms(5) l(1)]) (use dec True l(1) in simp)
    have ep: "ps_send_ratchet_epoch (si_state ?A) = repoch B + 1" by (simp add: rotated_def m(1) l(6))
    have d: "decrypt_ratchet P B (in_flight ?env ?A em ep hn s) = (Ok (False, Some (take_ratchet_snapshot B)), ?B)" for em ep hn s
      by (rule recv_rotate_ok [OF assms(1,2) p(2) l(2,3,5) _ m(6-8)])
        (use assms(5) l(4,6) ep in \<open>simp_all add: in_flight_def\<close>)
    have mx: "ps_max_messages_per_chain (si_state ?A) = ps_max_messages_per_chain (si_state A)"
      "0 < ps_max_messages_per_chain (si_state A)" using rotated_fields(8) [OF m(1)] session_readyD(7) [OF p(1)] by auto
    obtain ng' where ng': "send_ready ?A ?sc ng'" "ps_nonce_generator (si_state ?A) = Some ng'"
      using linked_send_ready [OF pairedD(1,7) [OF rp(1)] rp(2)] mx by auto
    have "ng' = \<lparr> nsp_prefix = sd_nonce_prefix d, nsp_counter = 0 \<rparr>" using ng'(2) by (simp add: rotated_def m(1))
    moreover have "ps_total_messages_sent (si_state ?A) = ps_total_messages_sent (si_state A)"
      "ps_total_messages_received (si_state ?A) = ps_total_messages_received (si_state A)" by (simp_all add: rotated_def m(1))
    moreover note fb = enter_epoch_fields [OF m(1), of B "x25519_public P (sd_x25519 d)" "snd (mlkem_keygen P (sd_kyber_keygen d))"]
    ultimately show ?thesis using r d rp ng' mx ep l(6) fb(1,2)
      by (intro exI [of _ ?env] exI [of _ ?A] exI [of _ ?B] exI [of _ "Some (take_ratchet_snapshot B)"] exI [of _ ?sc] exI [of _ ng'])
        (simp add: empty_envelope_def)
  qed
qed

text \<open>The guards of both calls hold in a paired session.\<close>

lemma paired_handles: "own_keys P A x k \<Longrightarrow> kem_ok P \<Longrightarrow> handles_ok A"
proof -
  assume a: "own_keys P A x k" "kem_ok P"
  then obtain b seed where "si_dh_private_handle A = Some b" "length b = 32"
    "si_kyber_secret_handle A = Some (fst (mlkem_keygen P seed))" unfolding own_keys_def by blast
  moreover have "length (fst (mlkem_keygen P seed)) = 64" using kem_ok_keygen(1) [OF a(2), of seed] by (cases "mlkem_keygen P seed") auto
  ultimately show ?thesis by (simp add: handles_ok_def)
qed

lemma capture_ok: "handles_ok A \<Longrightarrow> \<exists>snap. capture_ratchet A = Ok snap"
  by (auto simp: handles_ok_def capture_ratchet_def read_optional_handle_def split: option.splits)

lemma encrypt_guards_ok:
  assumes "session_ready A" "linked A B" "handles_ok A" "clk 1 = Ok t" "ps_total_messages_sent (si_state A) < u64_max"
    and "length payload \<le> MAX_BUFFER_SIZE"
  shows "\<exists>snapshot. encrypt_guards A payload clk = Ok ((t, ps_total_messages_sent (si_state A) + 1), snapshot)"
proof -
  note r = session_readyD [OF assms(1)]
  obtain snap where "capture_ratchet A = Ok snap" using capture_ok [OF assms(3)] by blast
  moreover have "length (ps_send_metadata_key (si_state A)) = 32" using assms(2) by (auto simp: linked_def)
  ultimately show ?thesis using r assms(4-6) rotation_decision [OF assms(1)]
    by (simp add: encrypt_guards_def check_inner_expired_def checked_add_u64_def Let_def)
qed

lemma decrypt_guards_ok:
  assumes "session_ready B" "length (ps_metadata_key (si_state B)) = 32" "clk 1 = Ok t"
    and "ps_total_messages_received (si_state B) < u64_max" "se_version env = 2" "length (se_header_nonce env) = 12"
  shows "decrypt_guards B env clk = Ok (t, ps_total_messages_received (si_state B) + 1)"
  using session_readyD [OF assms(1)] assms(2-6)
  by (simp add: decrypt_guards_def check_inner_expired_def checked_add_u64_def Let_def)

lemma remember_seen_subset:
  assumes "seen_wf B"
  shows "si_seen_payload_nonces (remember_seen_payload_nonce B n) \<subseteq> insert n (si_seen_payload_nonces B)"
proof (cases "n \<in> si_seen_payload_nonces B")
  case False
  let ?o = "si_seen_payload_nonce_order B @ [n]"
  have o: "set ?o = insert n (si_seen_payload_nonces B)" "distinct ?o" using assms False by (auto simp: seen_wf_def)
  obtain s' o' where pr: "prune_seen_nonces (set ?o) ?o = (s', o')" by fastforce
  have "si_seen_payload_nonces (remember_seen_payload_nonce B n) = s'" using False pr o(1)
    by (auto simp: remember_seen_payload_nonce_def)
  with prune_seen [OF o(2) pr] o(1) show ?thesis by blast
qed (auto simp: remember_seen_payload_nonce_def)

lemma fresh_after:
  assumes "nonces_fresh ng B" "si_seen_payload_nonces B' \<subseteq> insert (message_nonce ng j) (si_seen_payload_nonces B)"
    and "nsp_counter ng < 65535"
  shows "nonces_fresh \<lparr> nsp_prefix = nsp_prefix ng, nsp_counter = nsp_counter ng + 1 \<rparr> B'"
proof -
  have "nsp_prefix ng @ le_bytes 2 c @ le_bytes 2 i \<notin> si_seen_payload_nonces B'"
    if c: "nsp_counter ng + 1 \<le> c" "c \<le> u16_max" "i \<le> u16_max" for c i
  proof
    assume m: "nsp_prefix ng @ le_bytes 2 c @ le_bytes 2 i \<in> si_seen_payload_nonces B'"
    have "nsp_prefix ng @ le_bytes 2 c @ le_bytes 2 i \<noteq> message_nonce ng j"
      using le_bytes_inject [of c 2 "nsp_counter ng"] c assms(3) by (auto simp: message_nonce_def)
    with m assms(2) have "nsp_prefix ng @ le_bytes 2 c @ le_bytes 2 i \<in> si_seen_payload_nonces B" by auto
    moreover have "nsp_counter ng \<le> c" using c by simp
    ultimately show False using assms(1) c unfolding nonces_fresh_def by blast
  qed
  then show ?thesis unfolding nonces_fresh_def by simp
qed

text \<open>Pairing after the message: the chains of the one direction advanced by one, everything else as before.\<close>

lemma delivered_paired:
  assumes "paired P A1 B1" "send_ready A1 sc ng" "cs_message_index sc < ps_max_messages_per_chain (si_state A1)"
    and "seal_only A1 A2" "recv_only B1 B2"
    and "ps_send_chain (si_state A2) = Some (sc\<lparr> cs_chain_key := ck, cs_message_index := cs_message_index sc + 1 \<rparr>)"
    and "ps_nonce_generator (si_state A2) = Some \<lparr> nsp_prefix = nsp_prefix ng, nsp_counter = nsp_counter ng + 1 \<rparr>"
    and "ps_recv_chain (si_state B1) = Some rc" "cs_message_index rc = cs_message_index sc" "length ck = 32"
    and "ps_recv_chain (si_state B2) = Some (rc\<lparr> cs_chain_key := ck, cs_message_index := cs_message_index rc + 1 \<rparr>)"
    and "A' = note_sent at A2" "session_wf A'" "session_wf B'"
    and "B' = note_received at' (if si_send_ratchet_pending B1 then remember_seen_payload_nonce B2 n
      else (map_state (\<lambda>st. st\<lparr> ps_send_ratchet_pending := True \<rparr>) (remember_seen_payload_nonce B2 n))\<lparr> si_send_ratchet_pending := True \<rparr>)"
    and "n = message_nonce ng (cs_message_index sc)" "seen_wf B1"
  shows "paired P A' B' \<and> si_seen_payload_nonces B' \<subseteq> insert n (si_seen_payload_nonces B1) \<and>
    si_seen_payload_nonces A' = si_seen_payload_nonces A1"
proof -
  note p = pairedD [OF assms(1)]
  obtain sc' ng' ms ev where a2: "A2 = A1\<lparr> si_state := (si_state A1)\<lparr> ps_send_chain := sc', ps_nonce_generator := ng' \<rparr>,
     si_messages_since_last_dh_ratchet := ms, si_event_handler := ev \<rparr>" using assms(4) unfolding seal_only_def by blast
  obtain rc' sk where b2: "B2 = B1\<lparr> si_state := (si_state B1)\<lparr> ps_recv_chain := rc' \<rparr>, si_skipped_message_keys := sk \<rparr>"
    using assms(5) unfolding recv_only_def by blast
  have sA: "si_state A' = (si_state A1)\<lparr> ps_send_chain := ps_send_chain (si_state A2), ps_nonce_generator := ps_nonce_generator (si_state A2),
      ps_last_activity_unix := Some (fst at), ps_total_messages_sent := snd at \<rparr>"
    by (simp add: assms(12) note_sent_def map_state_def a2)
  have hA: "si_dh_private_handle A' = si_dh_private_handle A1" "si_kyber_secret_handle A' = si_kyber_secret_handle A1"
    "si_seen_payload_nonces A' = si_seen_payload_nonces A1" by (simp_all add: assms(12) note_sent_def map_state_def a2)
  have "si_dh_private_handle (remember_seen_payload_nonce B2 n) = si_dh_private_handle B1"
    "si_kyber_secret_handle (remember_seen_payload_nonce B2 n) = si_kyber_secret_handle B1"
    by (simp_all add: remember_seen_payload_nonce_def b2 split: prod.splits)
  then have hB: "si_dh_private_handle B' = si_dh_private_handle B1" "si_kyber_secret_handle B' = si_kyber_secret_handle B1"
    by (simp_all add: assms(15) note_received_def map_state_def)
  have sB: "\<exists>pend. si_state B' = (si_state B1)\<lparr> ps_recv_chain := ps_recv_chain (si_state B2), ps_send_ratchet_pending := pend,
      ps_last_activity_unix := Some (fst at'), ps_total_messages_received := snd at' \<rparr>"
    by (rule exI [of _ "if si_send_ratchet_pending B1 then ps_send_ratchet_pending (si_state B1) else True"])
      (simp add: assms(15) note_received_def map_state_def remember_fields b2)
  then obtain pend where sB: "si_state B' = (si_state B1)\<lparr> ps_recv_chain := ps_recv_chain (si_state B2), ps_send_ratchet_pending := pend,
      ps_last_activity_unix := Some (fst at'), ps_total_messages_received := snd at' \<rparr>" by blast
  have seen: "si_seen_payload_nonces B' \<subseteq> insert n (si_seen_payload_nonces B1)"
    using remember_seen_subset [of B2 n] assms(17) by (auto simp: assms(15) note_received_def map_state_def b2 seen_wf_def)
  obtain rdy: "length (nsp_prefix ng) = 8" "nsp_counter ng \<le> cs_message_index sc" "cs_message_index sc < 10000"
    "ps_nonce_generator (si_state A1) = Some ng" "ps_send_chain (si_state A1) = Some sc"
    using assms(2) by (simp add: send_ready_def)
  have lnk: "nonces_fresh ng B1" "ps_send_ratchet_epoch (si_state A1) = repoch B1"
    "ps_send_metadata_key (si_state A1) = ps_metadata_key (si_state B1)" "length (ps_metadata_key (si_state B1)) = 32"
    using p(7) rdy(4) by (auto simp: linked_def)
  have "nonces_fresh \<lparr> nsp_prefix = nsp_prefix ng, nsp_counter = nsp_counter ng + 1 \<rparr> B'"
    by (rule fresh_after [OF lnk(1) seen [unfolded assms(16)]]) (use rdy in simp)
  then have l1: "linked A' B'" unfolding linked_def
    using assms(3,6,7,9-11) lnk rdy by (simp add: sA sB repoch_def)
  have l2: "linked B' A'"
    by (rule linked_cong [OF p(8)]) (simp_all add: send_view_def sA sB repoch_def hA)
  have "state_nonce_limit (si_state A') = state_nonce_limit (si_state A1)" "state_nonce_limit (si_state B') = state_nonce_limit (si_state B1)"
    by (simp_all add: sA sB state_nonce_limit_def)
  then have "session_ready A'" "session_ready B'"
    using p(1,2) assms(13,14) by (simp_all add: session_ready_def sA sB)
  then show ?thesis using l1 l2 p(3-6,9,10) seen hA hB by (simp add: paired_def own_keys_def sA sB)
qed

record outgoing =
  og_payload :: bytes
  og_type :: int
  og_id :: nat
  og_correlation :: "string option"
  og_draws :: send_draws
  og_send_clock :: clock
  og_recv_clock :: clock

definition outgoing_ok :: "prims \<Rightarrow> outgoing \<Rightarrow> bool" where
  "outgoing_ok P m \<longleftrightarrow> message_ok (og_payload m) (og_type m) (og_id m) (og_correlation m) \<and> draws_ok P (og_draws m) \<and>
     is_ok (og_send_clock m 1) \<and> is_ok (og_recv_clock m 1) \<and>
     (\<exists>t. og_send_clock m 2 = Ok t \<and> t \<le> 9223372036854775807)"

definition counters_below :: "nat \<Rightarrow> session_inner \<Rightarrow> bool" where
  "counters_below n A \<longleftrightarrow> ps_total_messages_sent (si_state A) + n \<le> u64_max \<and> ps_total_messages_received (si_state A) + n \<le> u64_max \<and>
     ps_send_ratchet_epoch (si_state A) + n \<le> u64_max"

lemma rotate_max: "maybe_rotate_send_ratchet P A env d = (r, A1) \<Longrightarrow>
    ps_max_messages_per_chain (si_state A1) = ps_max_messages_per_chain (si_state A)"
  by (auto simp: maybe_rotate_send_ratchet_def reset_nonce_generator_def store_nonce_state_def map_state_def Let_def
      split: sum.splits option.splits prod.splits if_splits)

text \<open>The receiving half, after the ratchet phase.\<close>

definition accepted_state :: "session_inner \<Rightarrow> session_inner \<Rightarrow> bytes \<Rightarrow> session_inner" where
  "accepted_state B1 B2 n = (if si_send_ratchet_pending B1 then remember_seen_payload_nonce B2 n
      else (map_state (\<lambda>st. st\<lparr> ps_send_ratchet_pending := True \<rparr>) (remember_seen_payload_nonce B2 n))\<lparr> si_send_ratchet_pending := True \<rparr>)"

lemma recv_one:
  assumes "hkdf_ok P" "paired P A1 B1" "send_ready A1 sc ng" "cs_message_index sc < ps_max_messages_per_chain (si_state A1)"
    and "opens_to P C (si_state A1) env (ps_send_metadata_key (si_state A1)) (msg_of P (cs_chain_key sc)) md pl"
    and "md = sent_metadata (cs_message_index sc) (message_nonce ng (cs_message_index sc)) ty eid cid" "length pl \<le> MAX_BUFFER_SIZE"
    and "decrypt_ratchet P B env = (Ok (False, snap), B1)" "decrypt_guards B env clk = Ok at"
    and "se_ratchet_epoch env = ps_send_ratchet_epoch (si_state A1)"
    and "ps_max_messages_per_chain (si_state B) = ps_max_messages_per_chain (si_state A1)"
  shows "\<exists>B2 rc. decrypt P C B env clk = (Ok \<lparr> dr_plaintext = pl, dr_metadata = md \<rparr>,
      note_received at (accepted_state B1 B2 (message_nonce ng (cs_message_index sc)))) \<and> recv_only B1 B2 \<and>
    ps_recv_chain (si_state B1) = Some rc \<and> cs_message_index rc = cs_message_index sc \<and>
    ps_recv_chain (si_state B2) = Some (rc\<lparr> cs_chain_key := next_ck P (cs_chain_key sc), cs_message_index := cs_message_index rc + 1 \<rparr>)"
proof -
  let ?i = "cs_message_index sc" and ?mx = "ps_max_messages_per_chain (si_state B)"
  note p = pairedD [OF assms(2)]
  have rdy: "length (nsp_prefix ng) = 8" "nsp_counter ng \<le> ?i" "?i < 10000" "ps_nonce_generator (si_state A1) = Some ng"
    "ps_send_chain (si_state A1) = Some sc" using assms(3) by (simp_all add: send_ready_def)
  from p(7) obtain rc where rc: "ps_recv_chain (si_state B1) = Some rc" "cs_chain_key rc = cs_chain_key sc"
    "length (cs_chain_key rc) = 32" "cs_message_index rc = ?i" "ps_send_ratchet_epoch (si_state A1) = repoch B1"
    "ps_send_metadata_key (si_state A1) = ps_metadata_key (si_state B1)" "nonces_fresh ng B1"
    using rdy(4,5) by (auto simp: linked_def)
  have "message_nonce ng ?i \<notin> si_seen_payload_nonces B1"
    using rc(7) rdy unfolding nonces_fresh_def message_nonce_def by simp
  then have unseen: "em_payload_nonce md \<notin> si_seen_payload_nonces B1" by (simp add: assms(6) sent_metadata_def)
  note wfB1 = session_wfD [OF session_readyD(1) [OF p(2)]]
  have op: "opens_to P C (si_state B1) env (ps_metadata_key (si_state B1)) (msg_of P (cs_chain_key rc)) md pl"
    using assms(5) opens_to_cong [OF p(3,4)] rc(2,6) by simp
  have mx: "cs_message_index rc < ?mx" "?mx \<le> 10000" using assms(4,11) rc(4) session_readyD(8) [OF p(1)] by simp_all
  have ep: "se_ratchet_epoch env = repoch B1" using assms(10) rc(5) by simp
  have md: "md = sent_metadata (cs_message_index rc) (message_nonce ng (cs_message_index rc)) ty eid cid" using assms(6) rc(4) by simp
  from open_ok [OF assms(1) wfB1(1) rc(1,3) ep op md rdy(1) mx unseen assms(7), of snap] obtain B2 where
    o: "open_message P C B1 env False snap ?mx = (Ok \<lparr> dr_plaintext = pl, dr_metadata = md \<rparr>, accepted_state B1 B2 (em_payload_nonce md))"
    "recv_only B1 B2" "ps_recv_chain (si_state B2) = Some (rc\<lparr> cs_chain_key := next_ck P (cs_chain_key rc), cs_message_index := cs_message_index rc + 1 \<rparr>)"
    unfolding accepted_state_def by blast
  have "em_payload_nonce md = message_nonce ng ?i" by (simp add: assms(6) sent_metadata_def)
  with o rc show ?thesis using assms(8,9)
    by (intro exI [of _ B2] exI [of _ rc]) (simp add: decrypt_unfold)
qed

text \<open>The bookkeeping of both sides.\<close>

lemma sent_fields:
  assumes "seal_only A1 A2" "A' = note_sent (t, k) A2"
  shows "ps_total_messages_sent (si_state A') = k" "ps_total_messages_received (si_state A') = ps_total_messages_received (si_state A1)"
    "ps_send_ratchet_epoch (si_state A') = ps_send_ratchet_epoch (si_state A1)" "ps_nonce_generator (si_state A') = ps_nonce_generator (si_state A2)"
  using assms by (auto simp: seal_only_def note_sent_def map_state_def)

lemma received_fields:
  assumes "recv_only B1 B2" "B' = note_received (t, k) (accepted_state B1 B2 n)"
  shows "ps_total_messages_received (si_state B') = k" "ps_total_messages_sent (si_state B') = ps_total_messages_sent (si_state B1)"
    "ps_send_ratchet_epoch (si_state B') = ps_send_ratchet_epoch (si_state B1)" "ps_nonce_generator (si_state B') = ps_nonce_generator (si_state B1)"
  using assms by (auto simp: recv_only_def accepted_state_def note_received_def map_state_def remember_fields)

lemma fresh_other:
  assumes "prefix_fresh p B" "si_seen_payload_nonces B' \<subseteq> insert (message_nonce ng i) (si_seen_payload_nonces B)"
    and "length (nsp_prefix ng) = 8" "p \<noteq> nsp_prefix ng"
  shows "prefix_fresh p B'"
  using assms unfolding prefix_fresh_def by (auto simp: message_nonce_def)

text \<open>One message: it is encrypted, decrypted to itself, and the sessions stay paired.\<close>

lemma send_one:
  assumes "session_crypto_ok P" "codec_ok C" "paired P A B" "outgoing_ok P m" "ps_total_messages_sent (si_state A) < u64_max"
    and "maybe_rotate_send_ratchet P A empty_envelope (og_draws m) = (Ok env, A1)" "send_ready A1 sc ng"
  shows "\<exists>t env2 A2 em ep s.
    encrypt P C A (og_payload m) (og_type m) (og_id m) (og_correlation m) (og_draws m) (og_send_clock m) =
      (Ok env2, note_sent (t, ps_total_messages_sent (si_state A) + 1) A2) \<and> seal_only A1 A2 \<and>
    ps_send_chain (si_state A2) = Some (sc\<lparr> cs_chain_key := next_ck P (cs_chain_key sc), cs_message_index := cs_message_index sc + 1 \<rparr>) \<and>
    ps_nonce_generator (si_state A2) = Some \<lparr> nsp_prefix = nsp_prefix ng, nsp_counter = nsp_counter ng + 1 \<rparr> \<and>
    env2 = in_flight env A1 em ep (sd_header_nonce (og_draws m)) s \<and>
    opens_to P C (si_state A1) env2 (ps_send_metadata_key (si_state A1)) (msg_of P (cs_chain_key sc))
      (sent_metadata (cs_message_index sc) (message_nonce ng (cs_message_index sc)) (og_type m) (og_id m) (og_correlation m)) (og_payload m)"
proof -
  let ?d = "og_draws m" and ?pl = "og_payload m"
  note c = session_crypto_okD [OF assms(1)] and p = pairedD [OF assms(3)]
  obtain ta ts where mo: "message_ok ?pl (og_type m) (og_id m) (og_correlation m)" "draws_ok P ?d" "og_send_clock m 1 = Ok ta"
    "og_send_clock m 2 = Ok ts" "ts \<le> 9223372036854775807"
    using assms(4) unfolding outgoing_ok_def is_ok_iff by blast
  have lp: "length ?pl \<le> MAX_BUFFER_SIZE" "length (sd_header_nonce ?d) = 12" using mo(1,2) by (simp_all add: message_ok_def draws_ok_def)
  let ?env = "env\<lparr> se_ratchet_epoch := ps_send_ratchet_epoch (si_state A1) \<rparr>"
  from seal_ok [OF c(1,2) assms(2,7) mo(1) lp(2) mo(4,5), of ?env] obtain env2 A2 em ep s where
    s: "seal_message P C A1 ?env ?pl (og_type m) (og_id m) (og_correlation m) None ?d (og_send_clock m 2) = (Ok env2, A2)"
      "seal_only A1 A2"
      "ps_send_chain (si_state A2) = Some (sc\<lparr> cs_chain_key := next_ck P (cs_chain_key sc), cs_message_index := cs_message_index sc + 1 \<rparr>)"
      "ps_nonce_generator (si_state A2) = Some \<lparr> nsp_prefix = nsp_prefix ng, nsp_counter = nsp_counter ng + 1 \<rparr>"
      "env2 = ?env\<lparr> se_encrypted_metadata := em, se_encrypted_payload := ep, se_header_nonce := sd_header_nonce ?d, se_sent_at := s \<rparr>"
      "opens_to P C (si_state A1) env2 (ps_send_metadata_key (si_state A1)) (msg_of P (cs_chain_key sc))
        (sent_metadata (cs_message_index sc) (message_nonce ng (cs_message_index sc)) (og_type m) (og_id m) (og_correlation m)) ?pl" by blast
  obtain snapshot where g: "encrypt_guards A ?pl (og_send_clock m) = Ok ((ta, ps_total_messages_sent (si_state A) + 1), snapshot)"
    using encrypt_guards_ok [where clk = "og_send_clock m", OF p(1,7) paired_handles [OF p(10) c(4)] mo(3) assms(5) lp(1)] by blast
  have enc: "encrypt P C A ?pl (og_type m) (og_id m) (og_correlation m) ?d (og_send_clock m) =
      (Ok env2, note_sent (ta, ps_total_messages_sent (si_state A) + 1) A2)"
    by (simp only: encrypt_unfold g assms(6) s(1) sum.case prod.case)
  have fl: "env2 = in_flight env A1 em ep (sd_header_nonce ?d) s" unfolding s(5) in_flight_def by simp
  show ?thesis by (intro exI conjI) (rule enc, rule s(2), rule s(3), rule s(4), rule fl, rule s(6))
qed

definition delivered :: "prims \<Rightarrow> codec \<Rightarrow> session_inner \<Rightarrow> session_inner \<Rightarrow> outgoing \<Rightarrow> session_inner \<Rightarrow> session_inner \<Rightarrow> bool" where
  "delivered P C A B m A' B' \<longleftrightarrow> (\<exists>env md.
    encrypt P C A (og_payload m) (og_type m) (og_id m) (og_correlation m) (og_draws m) (og_send_clock m) = (Ok env, A') \<and>
    decrypt P C B env (og_recv_clock m) = (Ok \<lparr> dr_plaintext = og_payload m, dr_metadata = md \<rparr>, B') \<and>
    em_envelope_type md = og_type m \<and> em_envelope_id md = og_id m \<and> em_correlation_id md = og_correlation m)"

lemma deliver_one:
  assumes "session_crypto_ok P" "codec_ok C" "paired P A B" "outgoing_ok P m" "prefix_fresh (sd_nonce_prefix (og_draws m)) B"
    and "counters_below (Suc k) A" "counters_below (Suc k) B"
  shows "\<exists>A' B'. delivered P C A B m A' B' \<and> paired P A' B' \<and> counters_below k A' \<and> counters_below k B' \<and>
    (\<forall>p. prefix_fresh p A \<longrightarrow> prefix_fresh p A') \<and>
    (\<forall>p. prefix_fresh p B \<and> p \<noteq> send_prefix A \<and> p \<noteq> sd_nonce_prefix (og_draws m) \<longrightarrow> prefix_fresh p B') \<and>
    send_prefix A' \<in> {send_prefix A, sd_nonce_prefix (og_draws m)} \<and> send_prefix B' = send_prefix B"
proof -
  let ?d = "og_draws m" and ?pl = "og_payload m"
  note c = session_crypto_okD [OF assms(1)] and p = pairedD [OF assms(3)]
  obtain tb where mo: "message_ok ?pl (og_type m) (og_id m) (og_correlation m)" "draws_ok P ?d" "og_recv_clock m 1 = Ok tb"
    using assms(4) unfolding outgoing_ok_def is_ok_iff by blast
  have lp: "length ?pl \<le> MAX_BUFFER_SIZE" "length (sd_header_nonce ?d) = 12" using mo(1,2) by (simp_all add: message_ok_def draws_ok_def)
  have cb: "ps_total_messages_sent (si_state A) < u64_max" "ps_send_ratchet_epoch (si_state A) < u64_max"
    "ps_total_messages_received (si_state B) < u64_max" using assms(6,7) by (simp_all add: counters_below_def)
  from ratchet_phase [OF assms(1) mo(2) assms(3,5) cb(2)] obtain env A1 B1 snap sc ng where
    r: "maybe_rotate_send_ratchet P A empty_envelope ?d = (Ok env, A1)" "paired P A1 B1"
      "ps_nonce_generator (si_state A1) = Some ng" "send_ready A1 sc ng"
      "cs_message_index sc < ps_max_messages_per_chain (si_state A1)" "se_version env = 2" "recv_frame B B1"
      "nsp_prefix ng \<in> {send_prefix A, sd_nonce_prefix ?d}"
      "ps_nonce_generator (si_state B1) = ps_nonce_generator (si_state B)"
      "ps_send_ratchet_epoch (si_state A1) \<le> ps_send_ratchet_epoch (si_state A) + 1"
      "ps_total_messages_received (si_state A1) = ps_total_messages_received (si_state A)"
      "ps_total_messages_sent (si_state B1) = ps_total_messages_sent (si_state B)"
      "ps_send_ratchet_epoch (si_state B1) = ps_send_ratchet_epoch (si_state B)"
      "\<forall>em ep hn s. decrypt_ratchet P B (in_flight env A1 em ep hn s) = (Ok (False, snap), B1)" by blast
  let ?i = "cs_message_index sc" and ?n = "message_nonce ng (cs_message_index sc)"
  let ?md = "sent_metadata ?i ?n (og_type m) (og_id m) (og_correlation m)"
  from send_one [OF assms(1-4) cb(1) r(1,4)] obtain ta env2 A2 em ep s where
    enc0: "encrypt P C A ?pl (og_type m) (og_id m) (og_correlation m) ?d (og_send_clock m) =
        (Ok env2, note_sent (ta, ps_total_messages_sent (si_state A) + 1) A2)"
    and s: "seal_only A1 A2"
      "ps_send_chain (si_state A2) = Some (sc\<lparr> cs_chain_key := next_ck P (cs_chain_key sc), cs_message_index := ?i + 1 \<rparr>)"
      "ps_nonce_generator (si_state A2) = Some \<lparr> nsp_prefix = nsp_prefix ng, nsp_counter = nsp_counter ng + 1 \<rparr>"
      "env2 = in_flight env A1 em ep (sd_header_nonce ?d) s"
      "opens_to P C (si_state A1) env2 (ps_send_metadata_key (si_state A1)) (msg_of P (cs_chain_key sc)) ?md ?pl" by blast
  define A' where "A' = note_sent (ta, ps_total_messages_sent (si_state A) + 1) A2"
  note enc = enc0 [folded A'_def]
  have d2: "decrypt_ratchet P B env2 = (Ok (False, snap), B1)" using r(14) unfolding s(4) by blast
  have lB: "length (ps_metadata_key (si_state B)) = 32" using p(7) by (auto simp: linked_def)
  have g2: "decrypt_guards B env2 (og_recv_clock m) = Ok (tb, ps_total_messages_received (si_state B) + 1)"
    by (rule decrypt_guards_ok [where clk = "og_recv_clock m", OF p(2) lB mo(3) cb(3)]) (simp_all add: s(4) in_flight_def r(6) lp(2))
  have mx: "ps_max_messages_per_chain (si_state B) = ps_max_messages_per_chain (si_state A1)"
    using rotate_max [OF r(1)] p(6) by simp
  from recv_one [OF c(1) r(2,4,5) s(5) refl lp(1) d2 g2 _ mx] obtain B2 rc where
    o: "decrypt P C B env2 (og_recv_clock m) = (Ok \<lparr> dr_plaintext = ?pl, dr_metadata = ?md \<rparr>,
          note_received (tb, ps_total_messages_received (si_state B) + 1) (accepted_state B1 B2 ?n))" "recv_only B1 B2"
      "ps_recv_chain (si_state B1) = Some rc" "cs_message_index rc = ?i"
      "ps_recv_chain (si_state B2) = Some (rc\<lparr> cs_chain_key := next_ck P (cs_chain_key sc), cs_message_index := cs_message_index rc + 1 \<rparr>)"
    by (auto simp: s(4) in_flight_def)
  define B' where "B' = note_received (tb, ps_total_messages_received (si_state B) + 1) (accepted_state B1 B2 ?n)"
  have wf: "session_wf A'" "session_wf B'"
    using encrypt_view [OF enc] recv_view_wf [of A' A] session_readyD(1) [OF p(1)]
      decrypt_Ok [OF c(1) session_readyD(1) [OF p(2)] o(1)] unfolding B'_def by (auto simp: pending_agree_def session_wf_def)
  have "length (next_ck P (cs_chain_key sc)) = 32" "seen_wf B1"
    using chain_lengths [OF c(1)] session_wfD(3) [OF session_readyD(1) [OF pairedD(2) [OF r(2)]]] by auto
  note dp = delivered_paired [OF r(2,4,5) s(1) o(2) s(2,3) o(3,4) this(1) o(5) A'_def wf
      B'_def [unfolded accepted_state_def] refl this(2)]
  note fa = sent_fields [OF s(1) A'_def] and fb = received_fields [OF o(2) B'_def]
  have "delivered P C A B m A' B'" unfolding delivered_def using enc o(1) unfolding B'_def by (auto simp: sent_metadata_def)
  moreover have "counters_below k A'" "counters_below k B'"
    using assms(6,7) fa fb r(10-13) by (simp_all add: counters_below_def)
  moreover have "prefix_fresh p A'" if "prefix_fresh p A" for p
    using that encrypt_view [OF enc] by (simp add: prefix_fresh_def recv_view_def)
  moreover have "prefix_fresh p B'" if "prefix_fresh p B \<and> p \<noteq> send_prefix A \<and> p \<noteq> sd_nonce_prefix ?d" for p
    by (rule fresh_other [of p B1 B' ng ?i]) (use that dp r(4,7,8) in \<open>auto simp: prefix_fresh_def recv_frame_def send_ready_def\<close>)
  moreover have "send_prefix A' \<in> {send_prefix A, sd_nonce_prefix ?d}" "send_prefix B' = send_prefix B"
    using r(8,9) s(3) fa(4) fb(4) by (auto simp: send_prefix_def)
  ultimately show ?thesis using dp by blast
qed

end
