(* ===== verification/Sample_Codec.thy ===== *)
theory Sample_Codec
  imports Proto_State
begin

text \<open>
  A concrete codec: varints, length-prefixed strings and lists, in field order. It meets \<open>codec_ok\<close>, so
  the theorems that assume a codec apply to it; it is not the wire format of the program.
\<close>

section \<open>Self-delimiting encodings\<close>

named_theorems cod_intros "codecs that decode what they encoded"

type_synonym 'a cod = "('a \<Rightarrow> bytes) \<times> (bytes \<Rightarrow> ('a \<times> bytes) option)"

definition cod_ok :: "'a cod \<Rightarrow> bool" where
  "cod_ok c \<longleftrightarrow> (\<forall>x r. snd c (fst c x @ r) = Some (x, r))"

lemma cod_okD: "cod_ok c \<Longrightarrow> snd c (fst c x @ r) = Some (x, r)"
  by (simp add: cod_ok_def)

fun put_nat :: "nat \<Rightarrow> bytes" where
  "put_nat n = (if n < 128 then [word_of_nat n] else word_of_nat (n mod 128 + 128) # put_nat (n div 128))"

fun get_nat :: "bytes \<Rightarrow> (nat \<times> bytes) option" where
  "get_nat [] = None"
| "get_nat (b # bs) = (if unat b < 128 then Some (unat b, bs)
     else case get_nat bs of None \<Rightarrow> None | Some (m, r) \<Rightarrow> Some (unat b - 128 + 128 * m, r))"

declare put_nat.simps [simp del]

definition c_nat :: "nat cod" where
  "c_nat = (put_nat, get_nat)"

lemma c_nat_ok [cod_intros]: "cod_ok c_nat"
proof -
  have "get_nat (put_nat n @ r) = Some (n, r)" for n r
  proof (induction n rule: put_nat.induct)
    case (1 n)
    show ?case
    proof (cases "n < 128")
      case True
      then have "unat (word_of_nat n :: u8) = n" by (intro unat_word_of_nat) simp
      with True show ?thesis by (simp add: put_nat.simps [of n])
    next
      case False
      have "n mod 128 < 128" by simp
      then have u: "unat (word_of_nat (n mod 128 + 128) :: u8) = n mod 128 + 128" by (intro unat_word_of_nat) simp
      show ?thesis using False 1 u mult_div_mod_eq [of 128 n] by (simp add: put_nat.simps [of n] add.commute)
    qed
  qed
  then show ?thesis by (simp add: cod_ok_def c_nat_def)
qed

lemma put_nat_length: "n < 128 ^ Suc k \<Longrightarrow> length (put_nat n) \<le> Suc k"
proof (induction k arbitrary: n)
  case (Suc k)
  have "n div 128 < 128 ^ Suc k" using Suc.prems by (simp add: less_mult_imp_div_less mult.commute)
  from Suc.IH [OF this] show ?case by (simp add: put_nat.simps [of n])
qed (simp add: put_nat.simps)

lemma put_nat_le: "length (put_nat n) \<le> Suc n"
proof (induction n rule: put_nat.induct)
  case (1 n)
  have "n div 128 < n" if "\<not> n < 128" using that by simp
  with 1 show ?case by (fastforce simp: put_nat.simps [of n])
qed

definition c_bytes :: "bytes cod" where
  "c_bytes = ((\<lambda>b. put_nat (length b) @ b),
     (\<lambda>s. case get_nat s of None \<Rightarrow> None | Some (n, r) \<Rightarrow> if n \<le> length r then Some (take n r, drop n r) else None))"

lemma c_bytes_ok [cod_intros]: "cod_ok c_bytes"
  using cod_okD [OF c_nat_ok] by (simp add: cod_ok_def c_bytes_def c_nat_def)

text \<open>Building blocks.\<close>

definition c_pair :: "'a cod \<Rightarrow> 'b cod \<Rightarrow> ('a \<times> 'b) cod" where
  "c_pair a b = ((\<lambda>(x, y). fst a x @ fst b y),
     (\<lambda>s. case snd a s of None \<Rightarrow> None | Some (x, r) \<Rightarrow>
        (case snd b r of None \<Rightarrow> None | Some (y, r') \<Rightarrow> Some ((x, y), r'))))"

lemma c_pair_ok [cod_intros]: "cod_ok a \<Longrightarrow> cod_ok b \<Longrightarrow> cod_ok (c_pair a b)"
  by (auto simp: cod_ok_def c_pair_def)

definition c_iso :: "('a \<Rightarrow> 'b) \<Rightarrow> ('b \<Rightarrow> 'a) \<Rightarrow> 'b cod \<Rightarrow> 'a cod" where
  "c_iso f g c = ((\<lambda>x. fst c (f x)), (\<lambda>s. case snd c s of None \<Rightarrow> None | Some (y, r) \<Rightarrow> Some (g y, r)))"

lemma c_iso_ok [cod_intros]: "cod_ok c \<Longrightarrow> (\<And>x. g (f x) = x) \<Longrightarrow> cod_ok (c_iso f g c)"
  by (simp add: cod_ok_def c_iso_def)

fun get_list :: "(bytes \<Rightarrow> ('a \<times> bytes) option) \<Rightarrow> nat \<Rightarrow> bytes \<Rightarrow> ('a list \<times> bytes) option" where
  "get_list g 0 s = Some ([], s)"
| "get_list g (Suc n) s = (case g s of None \<Rightarrow> None | Some (x, r) \<Rightarrow>
     (case get_list g n r of None \<Rightarrow> None | Some (xs, r') \<Rightarrow> Some (x # xs, r')))"

definition c_list :: "'a cod \<Rightarrow> 'a list cod" where
  "c_list c = ((\<lambda>xs. put_nat (length xs) @ concat (map (fst c) xs)),
     (\<lambda>s. case get_nat s of None \<Rightarrow> None | Some (n, r) \<Rightarrow> get_list (snd c) n r))"

lemma c_list_ok [cod_intros]: "cod_ok c \<Longrightarrow> cod_ok (c_list c)"
proof -
  assume c: "cod_ok c"
  have "get_list (snd c) (length xs) (concat (map (fst c) xs) @ r) = Some (xs, r)" for xs r
    by (induction xs) (simp_all add: cod_okD [OF c])
  then show ?thesis using cod_okD [OF c_nat_ok] by (simp add: cod_ok_def c_list_def c_nat_def)
qed

definition c_opt :: "'a cod \<Rightarrow> 'a option cod" where
  "c_opt c = c_iso (\<lambda>o'. case o' of None \<Rightarrow> [] | Some x \<Rightarrow> [x]) (\<lambda>l. case l of [] \<Rightarrow> None | x # _ \<Rightarrow> Some x) (c_list c)"

lemma c_opt_ok [cod_intros]: "cod_ok c \<Longrightarrow> cod_ok (c_opt c)"
  unfolding c_opt_def by (rule c_iso_ok [OF c_list_ok]) (auto split: option.splits)

definition c_bool :: "bool cod" where
  "c_bool = c_iso (\<lambda>b. if b then 1 else 0) (\<lambda>n. n = 1) c_nat"

definition c_int :: "int cod" where
  "c_int = c_iso (\<lambda>z. if 0 \<le> z then 2 * nat z else 2 * nat (- z) - 1) (\<lambda>n. if even n then int (n div 2) else - int ((n + 1) div 2)) c_nat"

definition c_string :: "string cod" where
  "c_string = c_iso (map (\<lambda>c. word_of_nat (of_char c))) (map (\<lambda>w. char_of (unat w))) c_bytes"

lemma c_bool_ok [cod_intros]: "cod_ok c_bool"
  unfolding c_bool_def by (rule c_iso_ok [OF c_nat_ok]) simp

lemma c_int_ok [cod_intros]: "cod_ok c_int"
  unfolding c_int_def by (rule c_iso_ok [OF c_nat_ok]) auto

lemma c_string_ok [cod_intros]: "cod_ok c_string"
proof -
  have "char_of (unat (word_of_nat (of_char c) :: u8)) = c" for c :: char
    using nat_of_char_less_256 [of c] by (simp add: unat_word_of_nat)
  then show ?thesis unfolding c_string_def by (intro c_iso_ok [OF c_bytes_ok]) (simp add: comp_def map_idI)
qed

section \<open>The messages\<close>

definition c_cached_message_key :: "cached_message_key cod" where
  "c_cached_message_key = c_iso (\<lambda>x. (cmk_message_index x, cmk_message_key x, cmk_epoch x))
      (\<lambda>(v0, v1, v2). \<lparr> cmk_message_index = v0, cmk_message_key = v1, cmk_epoch = v2 \<rparr>)
      (c_pair c_nat (c_pair c_bytes c_nat))"

lemma c_cached_message_key_ok [cod_intros]: "cod_ok c_cached_message_key"
  unfolding c_cached_message_key_def by (rule c_iso_ok) (intro cod_intros, simp)

definition c_cached_metadata_key :: "cached_metadata_key cod" where
  "c_cached_metadata_key = c_iso (\<lambda>x. (cdk_epoch x, cdk_metadata_key x)) (\<lambda>(v0, v1). \<lparr>
      cdk_epoch = v0, cdk_metadata_key = v1 \<rparr>) (c_pair c_nat c_bytes)"

lemma c_cached_metadata_key_ok [cod_intros]: "cod_ok c_cached_metadata_key"
  unfolding c_cached_metadata_key_def by (rule c_iso_ok) (intro cod_intros, simp)

definition c_chain_state :: "chain_state cod" where
  "c_chain_state = c_iso (\<lambda>x. (cs_message_index x, cs_chain_key x, cs_skipped_message_keys x))
      (\<lambda>(v0, v1, v2). \<lparr> cs_message_index = v0, cs_chain_key = v1, cs_skipped_message_keys = v2
      \<rparr>) (c_pair c_nat (c_pair c_bytes (c_list c_cached_message_key)))"

lemma c_chain_state_ok [cod_intros]: "cod_ok c_chain_state"
  unfolding c_chain_state_def by (rule c_iso_ok) (intro cod_intros, simp)

definition c_dh_key_pair :: "dh_key_pair cod" where
  "c_dh_key_pair = c_iso (\<lambda>x. (dkp_private_key x, dkp_public_key x)) (\<lambda>(v0, v1). \<lparr>
      dkp_private_key = v0, dkp_public_key = v1 \<rparr>) (c_pair c_bytes c_bytes)"

lemma c_dh_key_pair_ok [cod_intros]: "cod_ok c_dh_key_pair"
  unfolding c_dh_key_pair_def by (rule c_iso_ok) (intro cod_intros, simp)

definition c_kyber_key_pair :: "kyber_key_pair cod" where
  "c_kyber_key_pair = c_iso (\<lambda>x. (kkp_secret_key x, kkp_public_key x)) (\<lambda>(v0, v1). \<lparr>
      kkp_secret_key = v0, kkp_public_key = v1 \<rparr>) (c_pair c_bytes c_bytes)"

lemma c_kyber_key_pair_ok [cod_intros]: "cod_ok c_kyber_key_pair"
  unfolding c_kyber_key_pair_def by (rule c_iso_ok) (intro cod_intros, simp)

definition c_nonce_state_proto :: "nonce_state_proto cod" where
  "c_nonce_state_proto = c_iso (\<lambda>x. (nsp_prefix x, nsp_counter x)) (\<lambda>(v0, v1). \<lparr>
      nsp_prefix = v0, nsp_counter = v1 \<rparr>) (c_pair c_bytes c_nat)"

lemma c_nonce_state_proto_ok [cod_intros]: "cod_ok c_nonce_state_proto"
  unfolding c_nonce_state_proto_def by (rule c_iso_ok) (intro cod_intros, simp)

definition c_envelope_metadata :: "envelope_metadata cod" where
  "c_envelope_metadata = c_iso (\<lambda>x. (em_message_index x, em_payload_nonce x, em_envelope_type x,
      em_envelope_id x, em_correlation_id x)) (\<lambda>(v0, v1, v2, v3, v4). \<lparr> em_message_index = v0,
      em_payload_nonce = v1, em_envelope_type = v2, em_envelope_id = v3, em_correlation_id = v4 \<rparr>)
      (c_pair c_nat (c_pair c_bytes (c_pair c_int (c_pair c_nat (c_opt c_string)))))"

lemma c_envelope_metadata_ok [cod_intros]: "cod_ok c_envelope_metadata"
  unfolding c_envelope_metadata_def by (rule c_iso_ok) (intro cod_intros, simp)

definition c_sealed_state :: "sealed_state cod" where
  "c_sealed_state = c_iso (\<lambda>x. (ss_version x, ss_dek_nonce x, ss_state_nonce x, ss_encrypted_dek x,
      ss_encrypted_state x, ss_external_counter x)) (\<lambda>(v0, v1, v2, v3, v4, v5). \<lparr> ss_version =
      v0, ss_dek_nonce = v1, ss_state_nonce = v2, ss_encrypted_dek = v3, ss_encrypted_state = v4,
      ss_external_counter = v5 \<rparr>) (c_pair c_nat (c_pair c_bytes (c_pair c_bytes (c_pair c_bytes (c_pair
      c_bytes c_nat)))))"

lemma c_sealed_state_ok [cod_intros]: "cod_ok c_sealed_state"
  unfolding c_sealed_state_def by (rule c_iso_ok) (intro cod_intros, simp)

definition c_protocol_state :: "protocol_state cod" where
  "c_protocol_state = c_iso (\<lambda>x. (ps_version x, ps_is_initiator x, ps_created_at x, ps_session_id x,
      ps_state_counter x, ps_send_ratchet_epoch x, ps_recv_ratchet_epoch x, ps_root_key x, ps_send_chain x,
      ps_recv_chain x, ps_dh_local x, ps_dh_remote_public x, ps_dh_local_initial_public x,
      ps_dh_remote_initial_public x, ps_metadata_key x, ps_kyber_local x, ps_kyber_remote_public x,
      ps_nonce_generator x, ps_state_hmac x, ps_max_messages_per_chain x, ps_max_nonce_counter x,
      ps_local_identity_ed25519_public x, ps_local_identity_x25519_public x, ps_peer_identity_ed25519_public x,
      ps_peer_identity_x25519_public x, ps_identity_binding_hash x, ps_replay_epoch x, ps_seen_payload_nonces
      x, ps_send_ratchet_pending x, ps_skipped_keys x, ps_cached_metadata_keys x, ps_send_metadata_key x,
      ps_device_id x, ps_session_ttl_seconds x, ps_last_activity_unix x, ps_total_messages_sent x,
      ps_total_messages_received x)) (\<lambda>(v0, v1, v2, v3, v4, v5, v6, v7, v8, v9, v10, v11, v12, v13,
      v14, v15, v16, v17, v18, v19, v20, v21, v22, v23, v24, v25, v26, v27, v28, v29, v30, v31, v32, v33, v34,
      v35, v36). \<lparr> ps_version = v0, ps_is_initiator = v1, ps_created_at = v2, ps_session_id = v3,
      ps_state_counter = v4, ps_send_ratchet_epoch = v5, ps_recv_ratchet_epoch = v6, ps_root_key = v7,
      ps_send_chain = v8, ps_recv_chain = v9, ps_dh_local = v10, ps_dh_remote_public = v11,
      ps_dh_local_initial_public = v12, ps_dh_remote_initial_public = v13, ps_metadata_key = v14,
      ps_kyber_local = v15, ps_kyber_remote_public = v16, ps_nonce_generator = v17, ps_state_hmac = v18,
      ps_max_messages_per_chain = v19, ps_max_nonce_counter = v20, ps_local_identity_ed25519_public = v21,
      ps_local_identity_x25519_public = v22, ps_peer_identity_ed25519_public = v23,
      ps_peer_identity_x25519_public = v24, ps_identity_binding_hash = v25, ps_replay_epoch = v26,
      ps_seen_payload_nonces = v27, ps_send_ratchet_pending = v28, ps_skipped_keys = v29,
      ps_cached_metadata_keys = v30, ps_send_metadata_key = v31, ps_device_id = v32, ps_session_ttl_seconds =
      v33, ps_last_activity_unix = v34, ps_total_messages_sent = v35, ps_total_messages_received = v36
      \<rparr>) (c_pair c_nat (c_pair c_bool (c_pair (c_opt (c_pair c_int c_int)) (c_pair c_bytes (c_pair c_nat
      (c_pair c_nat (c_pair c_nat (c_pair c_bytes (c_pair (c_opt c_chain_state) (c_pair (c_opt c_chain_state)
      (c_pair (c_opt c_dh_key_pair) (c_pair c_bytes (c_pair c_bytes (c_pair c_bytes (c_pair c_bytes (c_pair
      (c_opt c_kyber_key_pair) (c_pair c_bytes (c_pair (c_opt c_nonce_state_proto) (c_pair c_bytes (c_pair
      c_nat (c_pair c_nat (c_pair c_bytes (c_pair c_bytes (c_pair c_bytes (c_pair c_bytes (c_pair c_bytes
      (c_pair c_nat (c_pair (c_list c_bytes) (c_pair c_bool (c_pair (c_list c_cached_message_key) (c_pair
      (c_list c_cached_metadata_key) (c_pair c_bytes (c_pair (c_opt c_bytes) (c_pair (c_opt c_nat) (c_pair
      (c_opt c_nat) (c_pair c_nat c_nat))))))))))))))))))))))))))))))))))))"

lemma c_protocol_state_ok [cod_intros]: "cod_ok c_protocol_state"
  unfolding c_protocol_state_def by (rule c_iso_ok) (intro cod_intros, simp)

definition run_put :: "'a cod \<Rightarrow> 'a \<Rightarrow> bytes option" where
  "run_put c x = Some (fst c x)"

definition run_get :: "'a cod \<Rightarrow> bytes \<Rightarrow> 'a option" where
  "run_get c s = map_option fst (snd c s)"

lemma run_roundtrip: "cod_ok c \<Longrightarrow> run_get c (fst c x) = Some x"
  using cod_okD [of c x "[]"] by (simp add: run_get_def)

definition sample_codec :: codec where
  "sample_codec = \<lparr> encode_metadata = run_put c_envelope_metadata, decode_metadata = run_get c_envelope_metadata,
     encode_state = run_put c_protocol_state, decode_state = run_get c_protocol_state,
     encode_sealed = run_put c_sealed_state, decode_sealed = run_get c_sealed_state \<rparr>"

lemma metadata_size:
  assumes "metadata_bounded m"
  shows "length (fst c_envelope_metadata m) \<le> 64 + 2 * correlation_size (em_correlation_id m)"
proof -
  have 1: "length (put_nat (em_message_index m)) \<le> 10"
    using assms put_nat_length [of "em_message_index m" 9] by (simp add: metadata_bounded_def)
  have 2: "length (put_nat (length (em_payload_nonce m))) \<le> 1" "length (em_payload_nonce m) \<le> 12"
    using assms by (simp_all add: metadata_bounded_def put_nat.simps)
  let ?z = "em_envelope_type m"
  have "(if 0 \<le> ?z then 2 * nat ?z else 2 * nat (- ?z) - 1) < 128 ^ Suc 4" using assms by (auto simp: metadata_bounded_def)
  then have 3: "length (put_nat (if 0 \<le> ?z then 2 * nat ?z else 2 * nat (- ?z) - 1)) \<le> 5" using put_nat_length by fastforce
  have 4: "length (put_nat (em_envelope_id m)) \<le> 5"
    using assms put_nat_length [of "em_envelope_id m" 4] by (simp add: metadata_bounded_def)
  have 5: "length (fst (c_opt c_string) (em_correlation_id m)) \<le> 2 + 2 * correlation_size (em_correlation_id m)"
  proof (cases "em_correlation_id m")
    case (Some s)
    then show ?thesis using put_nat_le [of "length s"]
      by (simp add: c_opt_def c_iso_def c_list_def c_string_def c_bytes_def correlation_size_def put_nat.simps [of 1] put_nat.simps [of "Suc 0"])
  qed (simp add: c_opt_def c_iso_def c_list_def put_nat.simps correlation_size_def)
  from 1 2 3 4 5 show ?thesis
    by (simp add: c_envelope_metadata_def c_iso_def c_pair_def c_nat_def c_bytes_def c_int_def)
qed

lemma sample_codec_ok: "codec_ok sample_codec"
  unfolding codec_ok_def sample_codec_def
  using run_roundtrip [OF c_envelope_metadata_ok] run_roundtrip [OF c_protocol_state_ok] run_roundtrip [OF c_sealed_state_ok]
    metadata_size by (simp add: run_put_def)

end
