(* ===== verification/Session_Conversation.thy ===== *)
theory Session_Conversation
  imports Session_Sync Sample_Codec Sample_Prims
begin

text \<open>
  Sessions from the two ends of a handshake are paired, conversations between paired sessions deliver
  every message, and the properties of sessions that follow, with the concrete sessions of their
  witnesses.
\<close>

section \<open>Conversations\<close>

text \<open>A list of messages, each sent by the first or the second session and received by the other; the
  result is the received payloads.\<close>

fun converse :: "prims \<Rightarrow> codec \<Rightarrow> (bool \<times> outgoing) list \<Rightarrow> session_inner \<Rightarrow> session_inner
    \<Rightarrow> (bytes list \<times> session_inner \<times> session_inner) pres" where
  "converse P C [] A B = Ok ([], A, B)"
| "converse P C ((from_first, m) # ms) A B =
     (let S = (if from_first then A else B); R = (if from_first then B else A)
      in case encrypt P C S (og_payload m) (og_type m) (og_id m) (og_correlation m) (og_draws m) (og_send_clock m) of
           (Err e, _) \<Rightarrow> Err e
         | (Ok env, S') \<Rightarrow>
             (case decrypt P C R env (og_recv_clock m) of
                (Err e, _) \<Rightarrow> Err e
              | (Ok r, R') \<Rightarrow>
                  res_bind (converse P C ms (if from_first then S' else R') (if from_first then R' else S'))
                    (\<lambda>(ps, A', B'). Ok (dr_plaintext r # ps, A', B'))))"

definition prefixes :: "(bool \<times> outgoing) list \<Rightarrow> bytes list" where
  "prefixes ms = map (\<lambda>(_, m). sd_nonce_prefix (og_draws m)) ms"

text \<open>The nonce prefixes drawn along the way are new: pairwise distinct, not the current ones, and not
  among the nonces the sessions remember.\<close>

definition fresh_prefixes :: "session_inner \<Rightarrow> session_inner \<Rightarrow> (bool \<times> outgoing) list \<Rightarrow> bool" where
  "fresh_prefixes A B ms \<longleftrightarrow> distinct (prefixes ms) \<and>
     (\<forall>p\<in>set (prefixes ms). p \<noteq> send_prefix A \<and> p \<noteq> send_prefix B \<and> prefix_fresh p A \<and> prefix_fresh p B)"

lemma fresh_prefixes_sym: "fresh_prefixes A B ms = fresh_prefixes B A ms"
  by (auto simp: fresh_prefixes_def)

lemma converse_step:
  assumes "session_crypto_ok P" "codec_ok C" "paired P A B" "outgoing_ok P m" "fresh_prefixes A B ((b, m) # ms)"
    and "counters_below (Suc k) A" "counters_below (Suc k) B"
  shows "\<exists>A' B'. delivered P C A B m A' B' \<and> paired P A' B' \<and> fresh_prefixes A' B' ms \<and> counters_below k A' \<and> counters_below k B'"
proof -
  let ?p = "sd_nonce_prefix (og_draws m)"
  have f: "?p \<notin> set (prefixes ms)" "distinct (prefixes ms)" "prefix_fresh ?p B"
    "\<forall>p\<in>set (prefixes ms). p \<noteq> send_prefix A \<and> p \<noteq> send_prefix B \<and> prefix_fresh p A \<and> prefix_fresh p B"
    using assms(5) by (auto simp: fresh_prefixes_def prefixes_def)
  from deliver_one [OF assms(1-4) f(3) assms(6,7)] obtain A' B' where
    d: "delivered P C A B m A' B'" "paired P A' B'" "counters_below k A'" "counters_below k B'"
      "\<forall>p. prefix_fresh p A \<longrightarrow> prefix_fresh p A'"
      "\<forall>p. prefix_fresh p B \<and> p \<noteq> send_prefix A \<and> p \<noteq> ?p \<longrightarrow> prefix_fresh p B'"
      "send_prefix A' \<in> {send_prefix A, ?p}" "send_prefix B' = send_prefix B" by blast
  have "fresh_prefixes A' B' ms" unfolding fresh_prefixes_def
  proof (intro conjI ballI)
    fix p assume p: "p \<in> set (prefixes ms)"
    then have ne: "p \<noteq> ?p" "p \<noteq> send_prefix A" "p \<noteq> send_prefix B" "prefix_fresh p A" "prefix_fresh p B" using f(1,4) by auto
    then show "p \<noteq> send_prefix A'" "p \<noteq> send_prefix B'" "prefix_fresh p A'" "prefix_fresh p B'" using d(5-8) by auto
  qed (rule f(2))
  with d show ?thesis by blast
qed

lemma converse_ok:
  assumes "session_crypto_ok P" "codec_ok C" "paired P A B" "\<forall>(b, m)\<in>set ms. outgoing_ok P m" "fresh_prefixes A B ms"
    and "counters_below (length ms) A" "counters_below (length ms) B"
  shows "\<exists>A' B'. converse P C ms A B = Ok (map (\<lambda>(_, m). og_payload m) ms, A', B') \<and> paired P A' B'"
  using assms(3-7)
proof (induction ms arbitrary: A B)
  case (Cons bm ms)
  obtain b m where bm: "bm = (b, m)" by fastforce
  have m: "outgoing_ok P m" using Cons.prems(2) bm by auto
  show ?case
  proof (cases b)
    case True
    from converse_step [OF assms(1,2) Cons.prems(1) m Cons.prems(3) [unfolded bm], of "length ms"] Cons.prems(4,5)
    obtain A' B' where d: "delivered P C A B m A' B'" "paired P A' B'" "fresh_prefixes A' B' ms"
      "counters_below (length ms) A'" "counters_below (length ms) B'" by auto
    from Cons.IH [OF d(2) _ d(3-5)] Cons.prems(2) d(1) True bm show ?thesis by (auto simp: delivered_def)
  next
    case False
    have "fresh_prefixes B A ((b, m) # ms)" using Cons.prems(3) bm fresh_prefixes_sym by simp
    from converse_step [OF assms(1,2) paired_sym [OF Cons.prems(1)] m this, of "length ms"] Cons.prems(4,5)
    obtain B' A' where d: "delivered P C B A m B' A'" "paired P B' A'" "fresh_prefixes B' A' ms"
      "counters_below (length ms) B'" "counters_below (length ms) A'" by auto
    have "fresh_prefixes A' B' ms" using d(3) fresh_prefixes_sym by simp
    from Cons.IH [OF paired_sym [OF d(2)] _ this d(5,4)] Cons.prems(2) d(1) False bm show ?thesis by (auto simp: delivered_def)
  qed
qed simp

section \<open>Sessions from a handshake\<close>

text \<open>What one side brings to the session: its ratchet key, the seed of its ML-KEM key, its identity keys
  and its nonce generator.\<close>

record party =
  pt_dh :: bytes
  pt_kyber_seed :: bytes
  pt_ed25519 :: bytes
  pt_x25519 :: bytes
  pt_nonce_prefix :: bytes

definition party_ok :: "party \<Rightarrow> bool" where
  "party_ok x \<longleftrightarrow> length (pt_dh x) = 32 \<and> length (pt_ed25519 x) = 32 \<and> \<not> is_all_zero (pt_ed25519 x) \<and>
     validate_x25519_public_key (pt_x25519 x) = Ok () \<and> length (pt_nonce_prefix x) = 8"

definition establish ::
    "prims \<Rightarrow> bool \<Rightarrow> bytes \<Rightarrow> bytes \<Rightarrow> bytes \<Rightarrow> party \<Rightarrow> party \<Rightarrow> nat \<Rightarrow> nat \<Rightarrow> nat \<Rightarrow> bytes \<Rightarrow> session_inner pres" where
  "establish P initiator root session_id metadata_key me peer max_messages max_nonce created kyber_ss =
     res_bind (build_protocol_state P initiator root session_id metadata_key (pt_dh me) (x25519_public P (pt_dh me))
       (x25519_public P (pt_dh peer)) (x25519_public P (pt_dh me)) (x25519_public P (pt_dh peer))
       (fst (mlkem_keygen P (pt_kyber_seed me))) (snd (mlkem_keygen P (pt_kyber_seed me))) (snd (mlkem_keygen P (pt_kyber_seed peer)))
       max_messages max_nonce \<lparr> ns_prefix = pt_nonce_prefix me, ns_counter = 0 \<rparr> created
       (pt_ed25519 me) (pt_x25519 me) (pt_ed25519 peer) (pt_x25519 peer)) (\<lambda>st.
       from_handshake_state P \<lparr> hs_state = st, hs_kyber_shared_secret = kyber_ss \<rparr>)"

lemma vec_less_irrefl: "\<not> vec_less x x"
  by (induction x) auto

lemma vec_less_total: "vec_less x y \<or> x = y \<or> vec_less y x"
proof (induction x y rule: vec_less.induct)
  case (1 x)
  then show ?case by (cases x) auto
qed auto

lemma vec_less_asym: "vec_less x y \<Longrightarrow> \<not> vec_less y x"
  by (induction x y rule: vec_less.induct) auto

lemma sorted_pair_commute: "sorted_pair a b = sorted_pair b a"
  using vec_less_total [of a b] vec_less_asym [of a b] vec_less_asym [of b a] by (auto simp: sorted_pair_def)

text \<open>Both sides compute the same identity binding.\<close>

lemma binding_commute:
  "compute_identity_binding_hash P le lx pe px = compute_identity_binding_hash P pe px le lx"
  by (auto simp: compute_identity_binding_hash_def sorted_pair_commute [of le pe] sorted_pair_commute [of lx px])

text \<open>The session that one side gets, from the keys both sides derive.\<close>

definition opened :: "prims \<Rightarrow> bool \<Rightarrow> bytes \<Rightarrow> bytes \<Rightarrow> bytes \<Rightarrow> bytes \<Rightarrow> bytes \<Rightarrow> bytes \<Rightarrow> party \<Rightarrow> party \<Rightarrow> nat \<Rightarrow> nat \<Rightarrow> session_inner \<Rightarrow> bool" where
  "opened P initiator root sid mdk bind c1 c2 me peer mm mn A \<longleftrightarrow>
     session_wf A \<and> ps_version (si_state A) = 2 \<and> ps_session_ttl_seconds (si_state A) = None \<and>
     ps_session_id (si_state A) = sid \<and> ps_identity_binding_hash (si_state A) = bind \<and> ps_root_key (si_state A) = root \<and>
     ps_max_messages_per_chain (si_state A) = mm \<and> ps_max_nonce_counter (si_state A) = mn \<and>
     ps_send_chain (si_state A) = Some \<lparr> cs_message_index = 0, cs_chain_key = (if initiator then c1 else c2), cs_skipped_message_keys = [] \<rparr> \<and>
     ps_recv_chain (si_state A) = Some \<lparr> cs_message_index = 0, cs_chain_key = (if initiator then c2 else c1), cs_skipped_message_keys = [] \<rparr> \<and>
     ps_send_ratchet_epoch (si_state A) = 0 \<and> repoch A = 0 \<and> ps_metadata_key (si_state A) = mdk \<and> ps_send_metadata_key (si_state A) = mdk \<and>
     ps_nonce_generator (si_state A) = Some \<lparr> nsp_prefix = pt_nonce_prefix me, nsp_counter = 0 \<rparr> \<and>
     si_dh_private_handle A = Some (pt_dh me) \<and> si_kyber_secret_handle A = Some (fst (mlkem_keygen P (pt_kyber_seed me))) \<and>
     ps_dh_remote_public (si_state A) = x25519_public P (pt_dh peer) \<and>
     ps_kyber_remote_public (si_state A) = snd (mlkem_keygen P (pt_kyber_seed peer)) \<and>
     si_seen_payload_nonces A = {} \<and> ps_total_messages_sent (si_state A) = 0 \<and> ps_total_messages_received (si_state A) = 0"

lemma initial_keys:
  assumes "hkdf_ok P"
  shows "\<exists>h c. derive_key_bytes P ikm 64 root HYBRID_RATCHET_INFO = Ok h \<and> length h = 64 \<and>
    derive_key_bytes P (take 32 h) 64 [] CHAIN_INIT_INFO = Ok c \<and> length c = 64"
proof -
  obtain h where h: "derive_key_bytes P ikm 64 root HYBRID_RATCHET_INFO = Ok h" "length h = 64"
    by (rule derive_key_bytes_ok [OF assms, of 64]) auto
  obtain c where "derive_key_bytes P (take 32 h) 64 [] CHAIN_INIT_INFO = Ok c" "length c = 64"
    by (rule derive_key_bytes_ok [OF assms, of 64]) auto
  with h show ?thesis by blast
qed

lemma validate_length: "validate_x25519_public_key k = Ok () \<Longrightarrow> length k = 32"
  by (auto simp: validate_x25519_public_key_def split: if_splits)

lemma establish_opened:
  assumes "session_crypto_ok P" "party_ok me" "party_ok peer" "length root = 32" "length sid = 16" "length mdk = 32" "length ss = 32"
    and "0 < mm" "mm \<le> 10000" "0 < mn" "mn \<le> 65535" "created \<le> 9223372036854775807"
    and "dh = x25519_dh P (pt_dh me) (x25519_public P (pt_dh peer))"
    and "derive_key_bytes P (dh @ ss) 64 root HYBRID_RATCHET_INFO = Ok h" "length h = 64"
    and "derive_key_bytes P (take 32 h) 64 [] CHAIN_INIT_INFO = Ok c" "length c = 64"
    and "compute_identity_binding_hash P (pt_ed25519 me) (pt_x25519 me) (pt_ed25519 peer) (pt_x25519 peer) = Ok bind"
  shows "\<exists>A. establish P initiator root sid mdk me peer mm mn created ss = Ok A \<and>
    opened P initiator (take 32 h) sid mdk bind (take 32 c) (drop 32 c) me peer mm mn A"
proof -
  note cr = session_crypto_okD [OF assms(1)]
  have pm: "length (pt_dh me) = 32" "length (pt_ed25519 me) = 32" "\<not> is_all_zero (pt_ed25519 me)"
    "validate_x25519_public_key (pt_x25519 me) = Ok ()" "length (pt_nonce_prefix me) = 8" using assms(2) by (simp_all add: party_ok_def)
  have pp: "length (pt_dh peer) = 32" "length (pt_ed25519 peer) = 32" "\<not> is_all_zero (pt_ed25519 peer)"
    "validate_x25519_public_key (pt_x25519 peer) = Ok ()" using assms(3) by (simp_all add: party_ok_def)
  have lx: "length (x25519_public P (pt_dh me)) = 32" "length (x25519_public P (pt_dh peer)) = 32"
    using cr(3) [unfolded dh_ok_def, rule_format, of "pt_dh me" "pt_dh peer"] cr(3) [unfolded dh_ok_def, rule_format, of "pt_dh peer" "pt_dh me"] pm(1) pp(1)
    by simp_all
  have lk: "length (fst (mlkem_keygen P s)) = 64 \<and> length (snd (mlkem_keygen P s)) = 1184" for s
    using kem_ok_keygen [OF cr(4), of s] by (cases "mlkem_keygen P s") auto
  have v: "validate_x25519_public_key (x25519_public P (pt_dh peer)) = Ok ()" using cr(5) pp(1) by (simp add: x25519_keys_ok_def)
  have hd: "new_handle P 32 (pt_dh me) = Ok (pt_dh me)" using cr(6) pm(1) by (intro new_handle_exact) simp_all
  have hk: "new_handle P 64 (fst (mlkem_keygen P (pt_kyber_seed me))) = Ok (fst (mlkem_keygen P (pt_kyber_seed me)))"
    using cr(7) lk by (intro new_handle_exact) simp_all
  have ne: "pt_dh me \<noteq> []" "fst (mlkem_keygen P (pt_kyber_seed me)) \<noteq> []" using pm(1) lk [of "pt_kyber_seed me"] by auto
  have "\<exists>A. establish P initiator root sid mdk me peer mm mn created ss = Ok A \<and>
    (session_wf A \<longrightarrow> opened P initiator (take 32 h) sid mdk bind (take 32 c) (drop 32 c) me peer mm mn A) \<and>
    si_skipped_message_keys A = [] \<and> si_cached_metadata_keys A = [] \<and> si_seen_payload_nonces A = {} \<and>
    si_seen_payload_nonce_order A = [] \<and> si_replay_epoch A = 0 \<and> repoch A = 0 \<and> \<not> si_send_ratchet_pending A \<and>
    \<not> ps_send_ratchet_pending (si_state A)"
    unfolding establish_def build_protocol_state_def
    using assms(4-12,14-18) pm pp lx lk v validate_length [OF pm(4)] validate_length [OF pp(4)] compute_dh_ok(1) [OF cr(3) pm(1) pp(1)] hd hk ne
    by (simp add: timestamp_from_unix_secs_def from_handshake_state_def session_new_def lock_dh_private_def lock_kyber_secret_def
        initialize_from_handshake_inner_def assms(13) opened_def repoch_def Let_def)
  then show ?thesis
    by (auto simp: session_wf_def skipped_wf_def metadata_wf_def seen_wf_def)
qed

lemma opened_linked:
  assumes "opened P b root sid mdk bd c1 c2 x y mm mn A" "opened P (\<not> b) root sid mdk bd c1 c2 y x mm mn B"
    and "length c1 = 32" "length c2 = 32" "length mdk = 32" "party_ok x"
  shows "linked A B"
  using assms by (auto simp: opened_def linked_def nonces_fresh_def party_ok_def)

lemma opened_ready:
  assumes "opened P b root sid mdk bd c1 c2 x y mm mn A" "length root = 32" "length sid = 16" "length bd = 32"
    and "0 < mm" "mm \<le> 10000" "mm \<le> mn"
  shows "session_ready A"
  using assms by (simp add: opened_def session_ready_def state_nonce_limit_def)

lemma opened_own:
  assumes "opened P b root sid mdk bd c1 c2 x y mm mn A" "opened P b' root sid mdk bd c1 c2 y x mm mn B" "party_ok x"
  shows "own_keys P A (ps_dh_remote_public (si_state B)) (ps_kyber_remote_public (si_state B))"
  unfolding own_keys_def
  by (rule exI [of _ "pt_dh x"], rule exI [of _ "pt_kyber_seed x"]) (use assms in \<open>simp add: opened_def party_ok_def\<close>)

lemma established_paired:
  assumes "session_crypto_ok P" "hash_ok P" "party_ok alice" "party_ok bob"
    and "length root = 32" "length sid = 16" "length mdk = 32" "length ss = 32"
    and "0 < mm" "mm \<le> 10000" "mm \<le> mn" "mn \<le> 65535" "created \<le> 9223372036854775807" "created' \<le> 9223372036854775807"
  shows "\<exists>A B root' bd c1 c2. establish P True root sid mdk alice bob mm mn created ss = Ok A \<and>
    establish P False root sid mdk bob alice mm mn created' ss = Ok B \<and> paired P A B \<and>
    opened P True root' sid mdk bd c1 c2 alice bob mm mn A \<and> opened P False root' sid mdk bd c1 c2 bob alice mm mn B"
proof -
  note cr = session_crypto_okD [OF assms(1)]
  let ?dh = "x25519_dh P (pt_dh alice) (x25519_public P (pt_dh bob))"
  have la: "length (pt_dh alice) = 32" "length (pt_dh bob) = 32" using assms(3,4) by (simp_all add: party_ok_def)
  have dh: "?dh = x25519_dh P (pt_dh bob) (x25519_public P (pt_dh alice))"
    using cr(3) [unfolded dh_ok_def, rule_format, of "pt_dh alice" "pt_dh bob"] la by simp
  from initial_keys [OF cr(1), of "?dh @ ss" root] obtain h c where
    k: "derive_key_bytes P (?dh @ ss) 64 root HYBRID_RATCHET_INFO = Ok h" "length h = 64"
    "derive_key_bytes P (take 32 h) 64 [] CHAIN_INIT_INFO = Ok c" "length c = 64" by blast
  have ids: "length (pt_ed25519 alice) = 32" "length (pt_ed25519 bob) = 32" "length (pt_x25519 alice) = 32" "length (pt_x25519 bob) = 32"
    using assms(3,4) validate_length by (auto simp: party_ok_def)
  then obtain bd where bd: "compute_identity_binding_hash P (pt_ed25519 alice) (pt_x25519 alice) (pt_ed25519 bob) (pt_x25519 bob) = Ok bd"
    "length bd = 32" using assms(2) by (simp add: compute_identity_binding_hash_def hash_ok_def)
  have mn: "0 < mn" using assms(9,11) by simp
  from establish_opened [OF assms(1,3,4-10) mn assms(12,13) refl k bd(1), of True] obtain A where
    A: "establish P True root sid mdk alice bob mm mn created ss = Ok A"
    "opened P True (take 32 h) sid mdk bd (take 32 c) (drop 32 c) alice bob mm mn A" by blast
  from establish_opened [OF assms(1,4,3,5-10) mn assms(12,14) dh k trans [OF binding_commute bd(1)], of False] obtain B where
    B: "establish P False root sid mdk bob alice mm mn created' ss = Ok B"
    "opened P False (take 32 h) sid mdk bd (take 32 c) (drop 32 c) bob alice mm mn B" by blast
  have l: "length (take 32 c) = 32" "length (drop 32 c) = 32" "length (take 32 h) = 32" using k by simp_all
  have "linked A B" by (rule opened_linked [OF A(2) _ l(1,2) assms(7,3)]) (use B(2) in simp)
  moreover have "linked B A" by (rule opened_linked [OF B(2) _ l(1,2) assms(7,4)]) (use A(2) in simp)
  moreover note opened_ready [OF A(2) l(3) assms(6) bd(2) assms(9-11)] opened_ready [OF B(2) l(3) assms(6) bd(2) assms(9-11)]
    opened_own [OF A(2) B(2) assms(3)] opened_own [OF B(2) A(2) assms(4)]
  ultimately have "paired P A B" using A(2) B(2) by (simp add: paired_def opened_def)
  with A B show ?thesis by blast
qed

lemma opened_start:
  "opened P b root sid mdk bd c1 c2 x y mm mn A \<Longrightarrow> n \<le> u64_max \<Longrightarrow> counters_below n A \<and> send_prefix A = pt_nonce_prefix x \<and> prefix_fresh p A"
  by (simp add: opened_def counters_below_def send_prefix_def prefix_fresh_def)

section \<open>Concrete sessions\<close>

definition sample_alice :: party where
  "sample_alice = \<lparr> pt_dh = fill 32 [1], pt_kyber_seed = fill 32 [2], pt_ed25519 = fill 32 [3],
     pt_x25519 = x25519_public sample_prims (fill 32 [4]), pt_nonce_prefix = fill 8 [1] \<rparr>"

definition sample_bob :: party where
  "sample_bob = \<lparr> pt_dh = fill 32 [5], pt_kyber_seed = fill 32 [6], pt_ed25519 = fill 32 [7],
     pt_x25519 = x25519_public sample_prims (fill 32 [8]), pt_nonce_prefix = fill 8 [2] \<rparr>"

definition sample_draws :: "u8 \<Rightarrow> send_draws" where
  "sample_draws n = \<lparr> sd_x25519 = fill 32 [n], sd_encaps = fill 32 [n], sd_kyber_keygen = fill 32 [n], sd_kyber_selftest = fill 32 [n],
     sd_nonce_prefix = fill 8 [n], sd_header_nonce = fill 12 [n] \<rparr>"

definition sample_message :: "u8 \<Rightarrow> bytes \<Rightarrow> outgoing" where
  "sample_message n payload = \<lparr> og_payload = payload, og_type = 0, og_id = 7, og_correlation = None, og_draws = sample_draws n,
     og_send_clock = (\<lambda>_. Ok 1000), og_recv_clock = (\<lambda>_. Ok 1001) \<rparr>"

lemma sample_session_crypto_ok: "session_crypto_ok sample_prims"
  by (simp add: session_crypto_ok_def sample_ok sample_x25519_keys_ok)

lemma fill_not_zero: "0 < n \<Longrightarrow> b \<noteq> 0 \<Longrightarrow> \<not> list_all (\<lambda>b. b = 0) (fill n (b # bs)) \<and> \<not> is_all_zero (fill n (b # bs))"
  by (cases n) (simp_all add: fill_def is_all_zero_iff zeros_def)

lemma sample_parties_ok: "party_ok sample_alice" "party_ok sample_bob"
  using sample_x25519_keys_ok by (simp_all add: party_ok_def sample_alice_def sample_bob_def x25519_keys_ok_def fill_not_zero)

lemma sample_outgoing_ok: "n \<noteq> 0 \<Longrightarrow> length payload \<le> 1000 \<Longrightarrow> outgoing_ok sample_prims (sample_message n payload)"
proof -
  assume a: "n \<noteq> 0" "length payload \<le> 1000"
  have "mlkem_keygen sample_prims s = (fill 64 s, fill 1184 [1])" "mlkem_encaps sample_prims e r = (fill 1088 (fill 32 r), fill 32 r)" for s e r
    by (simp_all add: sample_prims_def)
  moreover have "fill 1088 (fill 32 (fill 32 [n])) = fill 1088 [n]" by (simp add: fill_def zeros_def replicate_add [symmetric])
  ultimately have "draws_ok sample_prims (sample_draws n)"
    using a(1) fill_not_zero [of 1184 1 "[]"] fill_not_zero [of 1088 n "[]"] by (simp add: draws_ok_def sample_draws_def)
  with a(2) show ?thesis by (simp add: outgoing_ok_def sample_message_def message_ok_def correlation_size_def)
qed

lemma sample_fields [simp]:
  "sd_nonce_prefix (og_draws (sample_message n p)) = fill 8 [n]" "og_payload (sample_message n p) = p"
  "pt_nonce_prefix sample_alice = fill 8 [1]" "pt_nonce_prefix sample_bob = fill 8 [2]"
  by (simp_all add: sample_message_def sample_draws_def sample_alice_def sample_bob_def)

lemma sample_prefix: "fill 8 [a] = fill 8 [b] \<longleftrightarrow> a = b"
  by (simp add: fill_def)

lemma sample_paired:
  "\<exists>A B. establish sample_prims True (zeros 32) (zeros 16) (zeros 32) sample_alice sample_bob 100 100 5 (zeros 32) = Ok A \<and>
    establish sample_prims False (zeros 32) (zeros 16) (zeros 32) sample_bob sample_alice 100 100 5 (zeros 32) = Ok B \<and>
    paired sample_prims A B \<and> counters_below 9 A \<and> counters_below 9 B \<and>
    send_prefix A = fill 8 [1] \<and> send_prefix B = fill 8 [2] \<and> (\<forall>p. prefix_fresh p A \<and> prefix_fresh p B)"
proof -
  from established_paired [OF sample_session_crypto_ok sample_hash_ok sample_parties_ok, of "zeros 32" "zeros 16" "zeros 32" "zeros 32" 100 100 5 5]
  obtain A B root' bd c1 c2 where e: "establish sample_prims True (zeros 32) (zeros 16) (zeros 32) sample_alice sample_bob 100 100 5 (zeros 32) = Ok A"
    "establish sample_prims False (zeros 32) (zeros 16) (zeros 32) sample_bob sample_alice 100 100 5 (zeros 32) = Ok B" "paired sample_prims A B"
    "opened sample_prims True root' (zeros 16) (zeros 32) bd c1 c2 sample_alice sample_bob 100 100 A"
    "opened sample_prims False root' (zeros 16) (zeros 32) bd c1 c2 sample_bob sample_alice 100 100 B" by auto
  have "counters_below 9 A \<and> send_prefix A = fill 8 [1] \<and> prefix_fresh p A" for p
    using opened_start [OF e(4), of 9 p] by (simp add: sample_alice_def)
  moreover have "counters_below 9 B \<and> send_prefix B = fill 8 [2] \<and> prefix_fresh p B" for p
    using opened_start [OF e(5), of 9 p] by (simp add: sample_bob_def)
  ultimately show ?thesis using e(1-3) by blast
qed

section \<open>Properties\<close>

text \<open>C2. Conversations. Let the two ends of a handshake hold the same root key, metadata key, session id and
  ML-KEM secret, each with the other's public keys, and let the primitives and the wire format behave as
  documented. Then both sessions open, and in a conversation of any length in which each message is
  delivered before the next is sent, in any pattern of directions and with the ratchet steps that the
  sessions take on their own, every message is encrypted, accepted by the other side and comes out as
  the payload that was sent, provided that the random nonce prefixes do not repeat and the chain limit
  does not exceed the nonce limit.\<close>

theorem conversation_delivers:
  assumes "session_crypto_ok P" "hash_ok P" "codec_ok C" "party_ok alice" "party_ok bob"
    and "length root = 32" "length sid = 16" "length mdk = 32" "length ss = 32"
    and "0 < mm" "mm \<le> MAX_MESSAGES_PER_CHAIN" "mm \<le> mn" "mn \<le> MAX_NONCE_COUNTER" "created \<le> 9223372036854775807"
    and "\<forall>(b, m)\<in>set ms. outgoing_ok P m" "length ms \<le> u64_max"
    and "distinct (pt_nonce_prefix alice # pt_nonce_prefix bob # prefixes ms)"
  shows "\<exists>A B A' B'. establish P True root sid mdk alice bob mm mn created ss = Ok A \<and>
    establish P False root sid mdk bob alice mm mn created ss = Ok B \<and>
    converse P C ms A B = Ok (map (\<lambda>(_, m). og_payload m) ms, A', B')"
proof -
  have lim: "mm \<le> 10000" "mn \<le> 65535" using assms(11,13) by simp_all
  from established_paired [OF assms(1,2,4-10) lim(1) assms(12) lim(2) assms(14,14)] obtain A B root' bd c1 c2 where
    e: "establish P True root sid mdk alice bob mm mn created ss = Ok A"
    "establish P False root sid mdk bob alice mm mn created ss = Ok B" "paired P A B"
    "opened P True root' sid mdk bd c1 c2 alice bob mm mn A" "opened P False root' sid mdk bd c1 c2 bob alice mm mn B" by blast
  have "fresh_prefixes A B ms" unfolding fresh_prefixes_def
    using assms(16,17) opened_start [OF e(4)] opened_start [OF e(5)] by auto
  from converse_ok [OF assms(1,3) e(3) assms(15) this] opened_start [OF e(4) assms(16)] opened_start [OF e(5) assms(16)] e(1,2)
  show ?thesis by blast
qed

theorem conversation_delivers_witness:
  "\<exists>A B A' B'. establish sample_prims True (zeros 32) (zeros 16) (zeros 32) sample_alice sample_bob 100 100 5 (zeros 32) = Ok A \<and>
    establish sample_prims False (zeros 32) (zeros 16) (zeros 32) sample_bob sample_alice 100 100 5 (zeros 32) = Ok B \<and>
    converse sample_prims sample_codec [(True, sample_message 3 [65]), (False, sample_message 4 [66, 67]), (True, sample_message 5 []),
      (True, sample_message 6 [68])] A B = Ok ([[65], [66, 67], [], [68]], A', B')"
  using conversation_delivers [of sample_prims sample_codec sample_alice sample_bob "zeros 32" "zeros 16" "zeros 32" "zeros 32" 100 100 5
      "[(True, sample_message 3 [65]), (False, sample_message 4 [66, 67]), (True, sample_message 5 []), (True, sample_message 6 [68])]"]
  by (simp add: sample_session_crypto_ok sample_hash_ok sample_codec_ok sample_parties_ok sample_outgoing_ok prefixes_def
      sample_prefix del: converse.simps)

end
