(* ===== verification/Session_Properties.thy ===== *)
theory Session_Properties
  imports Session_Conversation
begin

text \<open>
  Runs of a session under any sequence of calls of its interface, and what holds in every state that a
  run reaches.
\<close>

section \<open>Runs\<close>

text \<open>The second argument collects, in order, the epoch and index of every message that was accepted.\<close>

inductive session_run :: "prims \<Rightarrow> codec \<Rightarrow> session_inner \<Rightarrow> (nat \<times> nat) list \<Rightarrow> session_inner \<Rightarrow> bool"
  for P :: prims and C :: codec and s0 :: session_inner where
  run_start: "session_run P C s0 [] s0"
| run_encrypt: "session_run P C s0 acc s \<Longrightarrow> encrypt P C s payload ty eid cid d clk = (r, s') \<Longrightarrow> session_run P C s0 acc s'"
| run_accept: "session_run P C s0 acc s \<Longrightarrow> decrypt P C s env clk = (Ok r, s') \<Longrightarrow>
    session_run P C s0 (acc @ [(se_ratchet_epoch env, em_message_index (dr_metadata r))]) s'"
| run_reject: "session_run P C s0 acc s \<Longrightarrow> decrypt P C s env clk = (Err e, s') \<Longrightarrow> session_run P C s0 acc s'"
| run_export: "session_run P C s0 acc s \<Longrightarrow> export_sealed_state P C s kek ext dek dn sn = (r, s') \<Longrightarrow> session_run P C s0 acc s'"
| run_handler: "session_run P C s0 acc s \<Longrightarrow> session_run P C s0 acc (set_event_handler s)"
| run_device: "session_run P C s0 acc s \<Longrightarrow> set_device_id s device = Ok s' \<Longrightarrow> session_run P C s0 acc s'"
| run_ttl: "session_run P C s0 acc s \<Longrightarrow> set_session_ttl s ttl = Ok s' \<Longrightarrow> session_run P C s0 acc s'"
| run_destroy: "session_run P C s0 acc s \<Longrightarrow> session_run P C s0 acc (destroy s)"

lemma evicted_wf:
  assumes "session_wf s" "only_evicted s s' mx"
  shows "session_wf s' \<and> avail s' \<subseteq> avail s"
proof -
  note w = session_wfD [OF assms(1)]
  obtain n where s': "s' = s\<lparr> si_skipped_message_keys := drop n (si_skipped_message_keys s) \<rparr>"
    using assms(2) unfolding only_evicted_def by blast
  have v: "repoch s' = repoch s" "rindex s' = rindex s" by (simp_all add: s' view_defs)
  have inv: "bt_inv (si_skipped_message_keys s')" using w(6) by (simp add: s' bt_inv_drop)
  have len: "length (si_skipped_message_keys s') \<le> MAX_SKIPPED_MESSAGE_KEYS" using w(1) by (auto simp: s' skipped_wf_def)
  have "skipped_wf s' \<and> avail s' \<subseteq> avail s"
    by (rule skipped_wf_shrink [OF w(1) inv len v(1) refl])
      (use v subset_get [OF w(6) inv] in \<open>simp_all add: s' set_drop_subset\<close>)
  moreover have "metadata_wf s'" "seen_wf s'" using w(2,3) v by (simp_all add: s' metadata_wf_def seen_wf_def repoch_def)
  ultimately show ?thesis using w(4,5) v by (simp add: session_wf_def s')
qed

lemma export_view:
  "export_sealed_state P C s kek ext dek dn sn = (r, s') \<Longrightarrow> recv_view s' = recv_view s \<and> pending_agree s' = pending_agree s"
  by (auto simp: export_sealed_state_def recv_view_def pending_agree_def map_state_def Let_def split: if_splits sum.splits)

lemma setter_views:
  "recv_view (set_event_handler s) = recv_view s \<and> pending_agree (set_event_handler s) = pending_agree s"
  "set_device_id s device = Ok s' \<Longrightarrow> recv_view s' = recv_view s \<and> pending_agree s' = pending_agree s"
  "set_session_ttl s ttl = Ok s' \<Longrightarrow> recv_view s' = recv_view s \<and> pending_agree s' = pending_agree s"
  by (auto simp: set_event_handler_def set_device_id_def set_session_ttl_def recv_view_def pending_agree_def map_state_def
      split: if_splits)

lemma destroy_wf: "session_wf s \<Longrightarrow> session_wf (destroy s) \<and> avail (destroy s) \<subseteq> avail s"
proof -
  assume "session_wf s"
  note w = session_wfD [OF this]
  have rc: "ps_recv_chain (si_state (destroy s)) = map_option wipe_chain (ps_recv_chain (si_state s))"
    by (simp add: destroy_def Let_def)
  have v: "repoch (destroy s) = repoch s" "rindex (destroy s) = rindex s"
    by (simp add: destroy_def repoch_def Let_def)
      (cases "ps_recv_chain (si_state s)"; simp add: rindex_def rc wipe_chain_def)
  have e: "si_skipped_message_keys (destroy s) = []" "si_cached_metadata_keys (destroy s) = []" "si_seen_payload_nonces (destroy s) = {}"
    "si_seen_payload_nonce_order (destroy s) = []" "si_replay_epoch (destroy s) = si_replay_epoch s"
    "si_send_ratchet_pending (destroy s) = si_send_ratchet_pending s"
    "ps_send_ratchet_pending (si_state (destroy s)) = ps_send_ratchet_pending (si_state s)" by (simp_all add: destroy_def Let_def)
  have "session_wf (destroy s)" using w(4,5) v e
    by (simp add: session_wf_def skipped_wf_def metadata_wf_def seen_wf_def)
  moreover have "avail (destroy s) \<subseteq> avail s" using v e by (auto simp: avail_def)
  ultimately show ?thesis ..
qed

text \<open>The invariant of runs: what was accepted was available at the start and is not any more.\<close>

lemma session_run_inv:
  assumes "session_run P C s0 acc s" "hkdf_ok P" "session_wf s0"
  shows "session_wf s \<and> avail s \<subseteq> avail s0 \<and> distinct acc \<and> set acc \<subseteq> avail s0 - avail s"
  using assms
proof (induction rule: session_run.induct)
  case (run_encrypt acc s payload ty eid cid d clk r s')
  then have w: "session_wf s" "pending_agree s" by (auto simp: pending_agree_def session_wf_def)
  from encrypt_view [OF run_encrypt.hyps(2)] w have "session_wf s' \<and> avail s' = avail s" using recv_view_wf by blast
  with run_encrypt show ?case by auto
next
  case (run_accept acc s env clk r s')
  then have w: "session_wf s" by blast
  from decrypt_Ok [OF run_accept.prems(1) w run_accept.hyps(2)] run_accept show ?case by auto
next
  case (run_reject acc s env clk e s')
  then have w: "session_wf s" by blast
  from decrypt_Err [OF run_reject.prems(1) w run_reject.hyps(2)] evicted_wf [OF w] run_reject show ?case by blast
next
  case (run_export acc s kek ext dek dn sn r s')
  then have w: "session_wf s" "pending_agree s" by (auto simp: pending_agree_def session_wf_def)
  from export_view [OF run_export.hyps(2)] w have "session_wf s' \<and> avail s' = avail s" using recv_view_wf by blast
  with run_export show ?case by auto
next
  case (run_handler acc s)
  then have w: "session_wf s" "pending_agree s" by (auto simp: pending_agree_def session_wf_def)
  from setter_views(1) [of s] w have "session_wf (set_event_handler s) \<and> avail (set_event_handler s) = avail s" using recv_view_wf by blast
  with run_handler show ?case by auto
next
  case (run_device acc s device s')
  then have w: "session_wf s" "pending_agree s" by (auto simp: pending_agree_def session_wf_def)
  from setter_views(2) [OF run_device.hyps(2)] w have "session_wf s' \<and> avail s' = avail s" using recv_view_wf by blast
  with run_device show ?case by auto
next
  case (run_ttl acc s ttl s')
  then have w: "session_wf s" "pending_agree s" by (auto simp: pending_agree_def session_wf_def)
  from setter_views(3) [OF run_ttl.hyps(2)] w have "session_wf s' \<and> avail s' = avail s" using recv_view_wf by blast
  with run_ttl show ?case by auto
next
  case (run_destroy acc s)
  with destroy_wf [of s] show ?case by blast
qed auto

text \<open>A session made from a handshake state starts well-formed.\<close>

definition untouched :: "session_inner \<Rightarrow> bool" where
  "untouched s \<longleftrightarrow> si_skipped_message_keys s = [] \<and> si_cached_metadata_keys s = [] \<and> si_seen_payload_nonces s = {} \<and>
     si_seen_payload_nonce_order s = [] \<and> si_replay_epoch s = 0 \<and> repoch s = 0 \<and> \<not> si_send_ratchet_pending s \<and>
     \<not> ps_send_ratchet_pending (si_state s)"

lemma lock_dh_fields:
  "lock_dh_private P st = Ok (st1, h) \<Longrightarrow> \<exists>dh. st1 = st\<lparr> ps_dh_local := dh \<rparr>"
proof (cases "ps_dh_local st")
  case None
  assume "lock_dh_private P st = Ok (st1, h)"
  with None have "st1 = st\<lparr> ps_dh_local := ps_dh_local st \<rparr>" by (simp add: lock_dh_private_def)
  then show ?thesis by blast
next
  case (Some dh)
  assume a: "lock_dh_private P st = Ok (st1, h)"
  show ?thesis
  proof (cases "dkp_private_key dh = []")
    case True
    with a Some have "st1 = st\<lparr> ps_dh_local := ps_dh_local st \<rparr>" by (simp add: lock_dh_private_def)
    then show ?thesis by blast
  next
    case False
    with a Some show ?thesis unfolding lock_dh_private_def by (simp add: res_bind_eq_Ok) blast
  qed
qed

lemma lock_kyber_fields:
  "lock_kyber_secret P st = Ok (st1, h) \<Longrightarrow> \<exists>ky. st1 = st\<lparr> ps_kyber_local := ky \<rparr>"
proof (cases "ps_kyber_local st")
  case None
  assume "lock_kyber_secret P st = Ok (st1, h)"
  with None have "st1 = st\<lparr> ps_kyber_local := ps_kyber_local st \<rparr>" by (simp add: lock_kyber_secret_def)
  then show ?thesis by blast
next
  case (Some ky)
  assume a: "lock_kyber_secret P st = Ok (st1, h)"
  show ?thesis
  proof (cases "kkp_secret_key ky = []")
    case True
    with a Some have "st1 = st\<lparr> ps_kyber_local := ps_kyber_local st \<rparr>" by (simp add: lock_kyber_secret_def)
    then show ?thesis by blast
  next
    case False
    with a Some show ?thesis unfolding lock_kyber_secret_def by (simp add: res_bind_eq_Ok) blast
  qed
qed

lemma session_new_untouched:
  assumes "session_new P st ss = Ok s" "\<not> ps_send_ratchet_pending st" "ps_recv_ratchet_epoch st = 0"
  shows "untouched s"
proof -
  from assms(1) obtain st1 h1 st2 h2 where l: "lock_dh_private P st = Ok (st1, h1)" "lock_kyber_secret P st1 = Ok (st2, h2)"
    and s: "s = \<lparr> si_state = st2, si_pending_kyber_shared_secret = ss, si_skipped_message_keys = [],
            si_cached_metadata_keys = [], si_replay_epoch = ps_recv_ratchet_epoch st,
            si_seen_payload_nonces = {}, si_seen_payload_nonce_order = [],
            si_is_initiator = ps_is_initiator st, si_dh_private_handle = h1,
            si_kyber_secret_handle = h2, si_send_ratchet_pending = False,
            si_event_handler = None, si_messages_since_last_dh_ratchet = 0 \<rparr>"
    unfolding session_new_def by (auto simp: res_bind_eq_Ok)
  from lock_dh_fields [OF l(1)] lock_kyber_fields [OF l(2)] obtain dh ky where
    "st2 = st\<lparr> ps_dh_local := dh, ps_kyber_local := ky \<rparr>" by blast
  with s assms(2,3) show ?thesis by (simp add: untouched_def repoch_def)
qed

lemma initialize_untouched:
  assumes "initialize_from_handshake_inner P s = Ok s'" "untouched s"
  shows "untouched s'"
proof -
  have "\<exists>rk sc rc. s' = s\<lparr> si_state := (si_state s)\<lparr> ps_root_key := rk, ps_send_chain := Some sc, ps_recv_chain := Some rc,
      ps_send_ratchet_epoch := 0, ps_recv_ratchet_epoch := 0 \<rparr>, si_pending_kyber_shared_secret := [], si_skipped_message_keys := [] \<rparr>"
    using assms(1) unfolding initialize_from_handshake_inner_def Let_def
    by (clarsimp simp: result_simps simp del: KYBER_SHARED_SECRET_BYTES_def split: if_split_asm) blast+
  with assms(2) show ?thesis by (auto simp: untouched_def repoch_def)
qed

lemma build_untouched:
  assumes "build_protocol_state P b root sid mdk dp dl dr i1 i2 ks kp pk mm mn ng created le lx pe px = Ok st"
  shows "\<not> ps_send_ratchet_pending st \<and> ps_recv_ratchet_epoch st = 0"
  using assms unfolding build_protocol_state_def by (clarsimp simp: result_simps split: if_split_asm)

lemma established_wf:
  assumes "establish P b root sid mdk me peer mm mn created ss = Ok s"
  shows "session_wf s"
proof -
  from assms obtain st where b: "\<not> ps_send_ratchet_pending st \<and> ps_recv_ratchet_epoch st = 0"
    and st: "from_handshake_state P \<lparr> hs_state = st, hs_kyber_shared_secret = ss \<rparr> = Ok s"
    unfolding establish_def res_bind_eq_Ok by (elim exE conjE) (drule build_untouched, assumption)
  then obtain s1 where "session_new P st ss = Ok s1" "initialize_from_handshake_inner P s1 = Ok s"
    by (auto simp: from_handshake_state_def result_simps split: if_split_asm)
  with b session_new_untouched initialize_untouched have "untouched s" by blast
  then show ?thesis by (simp add: untouched_def session_wf_def skipped_wf_def metadata_wf_def seen_wf_def)
qed

lemma sample_accepts_one:
  "\<exists>B s'. establish sample_prims False (zeros 32) (zeros 16) (zeros 32) sample_bob sample_alice 100 100 5 (zeros 32) = Ok B \<and>
    (\<exists>env r. decrypt sample_prims sample_codec B env (\<lambda>_. Ok 1001) = (Ok r, s') \<and> dr_plaintext r = [65])"
proof -
  from sample_paired obtain A B where e:
    "establish sample_prims False (zeros 32) (zeros 16) (zeros 32) sample_bob sample_alice 100 100 5 (zeros 32) = Ok B"
    "paired sample_prims A B" "counters_below 9 A" "counters_below 9 B" "\<forall>p. prefix_fresh p B" by blast
  have o: "outgoing_ok sample_prims (sample_message 3 [65])" by (rule sample_outgoing_ok) simp_all
  have "counters_below (Suc 8) A" "counters_below (Suc 8) B" using e(3,4) by (simp_all add: counters_below_def)
  from deliver_one [OF sample_session_crypto_ok sample_codec_ok e(2) o _ this] e(5) obtain A' B' where
    "delivered sample_prims sample_codec A B (sample_message 3 [65]) A' B'" by blast
  then obtain env md where "decrypt sample_prims sample_codec B env (og_recv_clock (sample_message 3 [65])) =
      (Ok \<lparr> dr_plaintext = [65], dr_metadata = md \<rparr>, B')" by (auto simp: delivered_def)
  then have "decrypt sample_prims sample_codec B env (\<lambda>_. Ok 1001) = (Ok \<lparr> dr_plaintext = [65], dr_metadata = md \<rparr>, B') \<and>
      dr_plaintext \<lparr> dr_plaintext = [65], dr_metadata = md \<rparr> = [65]" by (simp add: sample_message_def)
  with e(1) show ?thesis by blast
qed

section \<open>Properties\<close>

lemma bt_get_mem: "(k, v) \<in> set m \<Longrightarrow> bt_get m k \<noteq> None"
  unfolding bt_get_None using imageI [of "(k, v)" "set m" fst] by simp

text \<open>C4. No message is accepted twice. Whatever sequence of calls a session gets after the handshake
  (encryptions, decryptions of arbitrary envelopes, exports, setters, destruction), the pairs of ratchet
  epoch and message index of the accepted messages are pairwise different, and a pair that was accepted
  is no longer available, neither as a cached key nor ahead of the receiving chain.\<close>

theorem session_accepts_once:
  assumes "hkdf_ok P" "establish P initiator root sid mdk me peer mm mn created ss = Ok s0" "session_run P C s0 acc s"
  shows "distinct acc \<and> set acc \<inter> avail s = {} \<and>
    (\<forall>env clk r s'. decrypt P C s env clk = (Ok r, s') \<longrightarrow> (se_ratchet_epoch env, em_message_index (dr_metadata r)) \<notin> set acc)"
proof -
  have w: "session_wf s \<and> avail s \<subseteq> avail s0 \<and> distinct acc \<and> set acc \<subseteq> avail s0 - avail s"
    by (rule session_run_inv [OF assms(3,1) established_wf [OF assms(2)]])
  have "(se_ratchet_epoch env, em_message_index (dr_metadata r)) \<notin> set acc" if "decrypt P C s env clk = (Ok r, s')" for env clk r s'
    using decrypt_Ok [OF assms(1) _ that] w by blast
  with w show ?thesis by blast
qed

theorem session_accepts_once_witness:
  "\<exists>B s' env r. establish sample_prims False (zeros 32) (zeros 16) (zeros 32) sample_bob sample_alice 100 100 5 (zeros 32) = Ok B \<and>
    decrypt sample_prims sample_codec B env (\<lambda>_. Ok 1001) = (Ok r, s') \<and> dr_plaintext r = [65] \<and>
    (se_ratchet_epoch env, em_message_index (dr_metadata r)) \<notin> avail s'"
proof -
  from sample_accepts_one obtain B s' env r where b:
    "establish sample_prims False (zeros 32) (zeros 16) (zeros 32) sample_bob sample_alice 100 100 5 (zeros 32) = Ok B"
    "decrypt sample_prims sample_codec B env (\<lambda>_. Ok 1001) = (Ok r, s')" "dr_plaintext r = [65]" by blast
  have "session_run sample_prims sample_codec B ([] @ [(se_ratchet_epoch env, em_message_index (dr_metadata r))]) s'"
    by (rule run_accept [OF run_start b(2)])
  from session_accepts_once [OF sample_hkdf_ok b(1) this] b show ?thesis by auto
qed

text \<open>C8. The caches of a session stay bounded. In every state that a session reaches it holds at most 1000
  skipped message keys, none of an epoch more than 32 behind the receiving epoch or ahead of the
  receiving chain; at most 100 metadata keys of old epochs, none more than 33 epochs behind; and at most
  2048 seen nonces, each once, with the set and the eviction order in agreement.\<close>

theorem session_caches_bounded:
  assumes "hkdf_ok P" "establish P initiator root sid mdk me peer mm mn created ss = Ok s0" "session_run P C s0 acc s"
  shows "length (si_skipped_message_keys s) \<le> 1000 \<and> length (si_cached_metadata_keys s) \<le> 100 \<and>
    card (si_seen_payload_nonces s) \<le> 2048 \<and> distinct (si_seen_payload_nonce_order s) \<and>
    si_seen_payload_nonces s = set (si_seen_payload_nonce_order s) \<and>
    (\<forall>((e, i), key)\<in>set (si_skipped_message_keys s). ps_recv_ratchet_epoch (si_state s) \<le> e + 32 \<and>
       (e < ps_recv_ratchet_epoch (si_state s) \<or> e = ps_recv_ratchet_epoch (si_state s) \<and> i < rindex s)) \<and>
    (\<forall>(e, key)\<in>set (si_cached_metadata_keys s). ps_recv_ratchet_epoch (si_state s) \<le> e + 33 \<and> e < ps_recv_ratchet_epoch (si_state s))"
proof -
  have "session_wf s" using session_run_inv [OF assms(3,1) established_wf [OF assms(2)]] by blast
  note w = session_wfD [OF this]
  have "ps_recv_ratchet_epoch (si_state s) \<le> e + 32 \<and>
      (e < ps_recv_ratchet_epoch (si_state s) \<or> e = ps_recv_ratchet_epoch (si_state s) \<and> i < rindex s)"
    if "((e, i), key) \<in> set (si_skipped_message_keys s)" for e i key
  proof -
    have "bt_get (si_skipped_message_keys s) (e, i) \<noteq> None" using that by (rule bt_get_mem)
    from skipped_wfD [OF w(1) this] show ?thesis by (auto simp: repoch_def)
  qed
  moreover have "ps_recv_ratchet_epoch (si_state s) \<le> e + 33 \<and> e < ps_recv_ratchet_epoch (si_state s)"
    if "(e, key) \<in> set (si_cached_metadata_keys s)" for e key
  proof -
    have "bt_get (si_cached_metadata_keys s) e \<noteq> None" using that by (rule bt_get_mem)
    then have "repoch s - (MAX_METADATA_KEY_EPOCH_AGE + 1) \<le> e \<and> e < repoch s" using w(2) unfolding metadata_wf_def by blast
    then show ?thesis by (auto simp: repoch_def)
  qed
  moreover have "card (si_seen_payload_nonces s) \<le> 2048"
    using w(3) distinct_card [of "si_seen_payload_nonce_order s"] by (simp add: seen_wf_def)
  ultimately show ?thesis using w(1-3) by (auto simp: skipped_wf_def metadata_wf_def seen_wf_def)
qed

theorem session_caches_bounded_witness:
  "\<exists>B s'. establish sample_prims False (zeros 32) (zeros 16) (zeros 32) sample_bob sample_alice 100 100 5 (zeros 32) = Ok B \<and>
    session_run sample_prims sample_codec B [] (destroy B) \<and> length (si_skipped_message_keys (destroy B)) \<le> 1000 \<and>
    card (si_seen_payload_nonces (destroy B)) \<le> 2048"
proof -
  from sample_paired obtain B where b:
    "establish sample_prims False (zeros 32) (zeros 16) (zeros 32) sample_bob sample_alice 100 100 5 (zeros 32) = Ok B" by blast
  have r: "session_run sample_prims sample_codec B [] (destroy B)" by (rule run_destroy [OF run_start])
  from session_caches_bounded [OF sample_hkdf_ok b r] b r show ?thesis by blast
qed

text \<open>C6. A rejected message changes nothing. When a session that reached some state refuses an envelope, it is
  left exactly as it was, if the envelope carried a ratchet header or the receiving chain's remaining
  messages fit into the cache of skipped keys; in any case only the oldest skipped keys may be gone.\<close>

theorem rejected_message_restores:
  assumes "hkdf_ok P" "establish P initiator root sid mdk me peer mm mn created ss = Ok s0" "session_run P C s0 acc s"
    and "decrypt P C s env clk = (Err e, s')"
  shows "(\<exists>n. s' = s\<lparr> si_skipped_message_keys := drop n (si_skipped_message_keys s) \<rparr>) \<and>
    (se_dh_public_key env \<noteq> None \<or>
       length (si_skipped_message_keys s) + (ps_max_messages_per_chain (si_state s) - rindex s) \<le> MAX_SKIPPED_MESSAGE_KEYS \<longrightarrow> s' = s)"
proof -
  have "session_wf s" using session_run_inv [OF assms(3,1) established_wf [OF assms(2)]] by blast
  from decrypt_Err [OF assms(1) this assms(4)] obtain n where
    "s' = s\<lparr> si_skipped_message_keys := drop n (si_skipped_message_keys s) \<rparr>"
    "n \<le> length (si_skipped_message_keys s) + (ps_max_messages_per_chain (si_state s) - rindex s) - MAX_SKIPPED_MESSAGE_KEYS"
    "se_dh_public_key env \<noteq> None \<longrightarrow> s' = s" unfolding only_evicted_def by blast
  then show ?thesis by auto
qed

theorem rejected_message_restores_witness:
  "\<exists>B e s'. establish sample_prims False (zeros 32) (zeros 16) (zeros 32) sample_bob sample_alice 100 100 5 (zeros 32) = Ok B \<and>
    decrypt sample_prims sample_codec B (empty_envelope\<lparr> se_dh_public_key := Some [] \<rparr>) (\<lambda>_. Ok 1001) = (Err e, s') \<and> s' = B"
proof -
  from sample_paired obtain B where b:
    "establish sample_prims False (zeros 32) (zeros 16) (zeros 32) sample_bob sample_alice 100 100 5 (zeros 32) = Ok B" by blast
  have "decrypt_guards B (empty_envelope\<lparr> se_dh_public_key := Some [] \<rparr>) (\<lambda>_. Ok 1001) \<noteq> Ok at" for at
    by (auto simp: decrypt_guards_def empty_envelope_def Let_def result_simps split: if_splits)
  then obtain e where e: "decrypt sample_prims sample_codec B (empty_envelope\<lparr> se_dh_public_key := Some [] \<rparr>) (\<lambda>_. Ok 1001) = (Err e, B)"
    by (cases "decrypt_guards B (empty_envelope\<lparr> se_dh_public_key := Some [] \<rparr>) (\<lambda>_. Ok 1001)") (auto simp: decrypt_unfold)
  from rejected_message_restores [OF sample_hkdf_ok b run_start e] b e show ?thesis by (auto simp: empty_envelope_def)
qed

text \<open>C7. A failed encryption changes nothing. If locked memory is available and the key handles have their
  sizes, an encryption that reports an error, at whatever step, ratchet step included, leaves the session
  exactly as it was but for the warnings that its event handler received.\<close>

theorem failed_encryption_restores:
  assumes "handles_ok s" "slot_free P X25519_PRIVATE_KEY_BYTES" "slot_free P KYBER_SECRET_KEY_BYTES"
    and "encrypt P C s payload ty eid cid d clk = (Err e, s')"
  shows "s' = s\<lparr> si_event_handler := si_event_handler s' \<rparr>"
  using encrypt_Err [OF assms(1) _ _ assms(4)] assms(2,3) by simp

theorem failed_encryption_restores_witness:
  "\<exists>B e s'. handles_ok B \<and> encrypt sample_prims sample_codec B [65] 0 7 None (sample_draws 3) (\<lambda>_. Err ObjectDisposed) = (Err e, s') \<and>
    s' = B\<lparr> si_event_handler := si_event_handler s' \<rparr>"
proof -
  from sample_paired obtain A B where p: "paired sample_prims A B" by blast
  have h: "handles_ok B" by (rule paired_handles [OF pairedD(9) [OF p] sample_kem_ok])
  have "encrypt_guards B [65] (\<lambda>_. Err ObjectDisposed) \<noteq> Ok at" for at
    by (auto simp: encrypt_guards_def Let_def result_simps split: if_splits)
  then obtain e where e: "encrypt sample_prims sample_codec B [65] 0 7 None (sample_draws 3) (\<lambda>_. Err ObjectDisposed) = (Err e, B)"
    by (cases "encrypt_guards B [65] (\<lambda>_. Err ObjectDisposed)") (auto simp: encrypt_unfold)
  from failed_encryption_restores [OF h _ _ e] h e show ?thesis by auto
qed

end
