(* ===== verification/Proto_Handshake.thy ===== *)
theory Proto_Handshake
  imports Core
begin

text \<open>
  The messages of \<^verbatim>\<open>proto/protocol/handshake.proto\<close> and the sealed anti-replay state of an identity
  (\<^verbatim>\<open>proto/protocol/state.proto\<close>). Their encoding is generated code and a parameter of the model.
\<close>

record one_time_pre_key_proto =
  otp_one_time_pre_key_id :: nat
  otp_public_key :: bytes

record pre_key_bundle =
  pkb_version :: nat
  pkb_identity_ed25519_public :: bytes
  pkb_identity_x25519_public :: bytes
  pkb_signed_pre_key_id :: nat
  pkb_signed_pre_key_public :: bytes
  pkb_signed_pre_key_signature :: bytes
  pkb_one_time_pre_keys :: "one_time_pre_key_proto list"
  pkb_kyber_public :: bytes
  pkb_identity_x25519_signature :: bytes

record handshake_init =
  hi_version :: nat
  hi_initiator_identity_ed25519_public :: bytes
  hi_initiator_identity_x25519_public :: bytes
  hi_initiator_ephemeral_x25519_public :: bytes
  hi_one_time_pre_key_id :: "nat option"
  hi_kyber_ciphertext :: bytes
  hi_key_confirmation_mac :: bytes
  hi_initiator_kyber_public :: bytes
  hi_max_messages_per_chain :: nat
  hi_initiator_identity_binding_signature :: bytes

record handshake_ack =
  ha_version :: nat
  ha_key_confirmation_mac :: bytes

record identity_replay_state =
  irs_state_version :: nat
  irs_identity_ed25519_public :: bytes
  irs_remaining_one_time_pre_key_ids :: "nat list"
  irs_recent_handshake_init_fingerprints :: "bytes list"
  irs_external_counter :: nat

record handshake_codec =
  encode_bundle :: "pre_key_bundle \<Rightarrow> bytes option"
  decode_bundle :: "bytes \<Rightarrow> pre_key_bundle option"
  encode_init :: "handshake_init \<Rightarrow> bytes option"
  decode_init :: "bytes \<Rightarrow> handshake_init option"
  encode_ack :: "handshake_ack \<Rightarrow> bytes option"
  decode_ack :: "bytes \<Rightarrow> handshake_ack option"
  encode_replay :: "identity_replay_state \<Rightarrow> bytes option"
  decode_replay :: "bytes \<Rightarrow> identity_replay_state option"

text \<open>Every message is encoded. One whose integers fit their fields is decoded to itself, and its encoding takes at most ten bytes for the tag
  and value of an integer and for the tag and length of a byte string.\<close>

definition init_size :: "handshake_init \<Rightarrow> nat" where
  "init_size m = 100 + length (hi_initiator_identity_ed25519_public m) + length (hi_initiator_identity_x25519_public m)
     + length (hi_initiator_ephemeral_x25519_public m) + length (hi_kyber_ciphertext m) + length (hi_key_confirmation_mac m)
     + length (hi_initiator_kyber_public m) + length (hi_initiator_identity_binding_signature m)"

definition init_bounded :: "handshake_init \<Rightarrow> bool" where
  "init_bounded m \<longleftrightarrow> init_size m \<le> u32_max \<and> hi_version m \<le> u32_max \<and> hi_max_messages_per_chain m \<le> u32_max \<and>
     (case hi_one_time_pre_key_id m of None \<Rightarrow> True | Some i \<Rightarrow> i \<le> u32_max)"

definition bundle_size :: "pre_key_bundle \<Rightarrow> nat" where
  "bundle_size b = 100 + length (pkb_identity_ed25519_public b) + length (pkb_identity_x25519_public b)
     + length (pkb_signed_pre_key_public b) + length (pkb_signed_pre_key_signature b) + length (pkb_kyber_public b)
     + length (pkb_identity_x25519_signature b)
     + sum_list (map (\<lambda>opk. 30 + length (otp_public_key opk)) (pkb_one_time_pre_keys b))"

definition bundle_bounded :: "pre_key_bundle \<Rightarrow> bool" where
  "bundle_bounded b \<longleftrightarrow> bundle_size b \<le> u32_max \<and> pkb_version b \<le> u32_max \<and> pkb_signed_pre_key_id b \<le> u32_max \<and>
     list_all (\<lambda>opk. otp_one_time_pre_key_id opk \<le> u32_max) (pkb_one_time_pre_keys b)"

definition replay_size :: "identity_replay_state \<Rightarrow> nat" where
  "replay_size s = 100 + length (irs_identity_ed25519_public s) + 10 * length (irs_remaining_one_time_pre_key_ids s)
     + sum_list (map (\<lambda>fp. 10 + length fp) (irs_recent_handshake_init_fingerprints s))"

definition replay_bounded :: "identity_replay_state \<Rightarrow> bool" where
  "replay_bounded s \<longleftrightarrow> irs_state_version s \<le> u32_max \<and> length (irs_identity_ed25519_public s) \<le> u32_max \<and>
     length (irs_remaining_one_time_pre_key_ids s) \<le> u32_max \<and> list_all (\<lambda>i. i \<le> u32_max) (irs_remaining_one_time_pre_key_ids s) \<and>
     length (irs_recent_handshake_init_fingerprints s) \<le> u32_max \<and>
     list_all (\<lambda>fp. length fp \<le> u32_max) (irs_recent_handshake_init_fingerprints s) \<and> irs_external_counter s \<le> u64_max"

definition handshake_codec_ok :: "handshake_codec \<Rightarrow> bool" where
  "handshake_codec_ok H \<longleftrightarrow>
     (\<forall>m. \<exists>b. encode_bundle H m = Some b \<and> (bundle_bounded m \<longrightarrow> decode_bundle H b = Some m \<and> length b \<le> bundle_size m)) \<and>
     (\<forall>m. \<exists>b. encode_init H m = Some b \<and> (init_bounded m \<longrightarrow> decode_init H b = Some m \<and> length b \<le> init_size m)) \<and>
     (\<forall>m. \<exists>b. encode_ack H m = Some b \<and> (ha_version m \<le> u32_max \<and> length (ha_key_confirmation_mac m) \<le> u32_max \<longrightarrow>
        decode_ack H b = Some m \<and> length b \<le> 20 + length (ha_key_confirmation_mac m))) \<and>
     (\<forall>s. \<exists>b. encode_replay H s = Some b \<and> (replay_bounded s \<longrightarrow> decode_replay H b = Some s \<and> length b \<le> replay_size s))"

end
