(* ===== verification/Identity.thy ===== *)
theory Identity
  imports Master_Key Dh_Validator Proto_Handshake
begin

text \<open>
  The keys of an identity (\<^verbatim>\<open>identity/identity_keys.rs\<close>, \<^verbatim>\<open>models/\<close>): creation from random draws or
  from a master key, the pool of one-time pre-keys, the ephemeral key, the record of the handshakes that
  were seen with its sealed form, and the older two-step X3DH derivation. A lock that is not poisoned has
  no effect and is not represented. The random draws of an operation are its arguments.
\<close>

section \<open>Key material\<close>

definition ed25519_key_pair_new :: "handle \<Rightarrow> bytes \<Rightarrow> (handle \<times> bytes) pres" where
  "ed25519_key_pair_new private_key public_key =
     (if length public_key \<noteq> ED25519_PUBLIC_KEY_BYTES then Err (InvalidInput ''Invalid Ed25519 public key size'')
      else Ok (private_key, public_key))"

definition ed25519_key_pair_verify :: "prims \<Rightarrow> bytes \<Rightarrow> bytes \<Rightarrow> bytes \<Rightarrow> unit pres" where
  "ed25519_key_pair_verify P public_key message signature =
     (if length public_key \<noteq> ED25519_PUBLIC_KEY_BYTES then Err (InvalidInput ''Invalid Ed25519 public key size'')
      else if length signature \<noteq> ED25519_SIGNATURE_BYTES then Err (PeerPubKey ''Invalid Ed25519 signature size'')
      else if \<not> sig_pk_ok P public_key then Err (PeerPubKey ''Invalid Ed25519 public key'')
      else if \<not> sig_verify P public_key signature message then
        Err (PeerPubKey ''Ed25519 signature verification failed'')
      else Ok ())"

definition x25519_key_pair_new :: "handle \<Rightarrow> bytes \<Rightarrow> (handle \<times> bytes) pres" where
  "x25519_key_pair_new secret_key public_key =
     (if length public_key \<noteq> X25519_PUBLIC_KEY_BYTES then Err (InvalidInput ''Invalid X25519 public key size'')
      else Ok (secret_key, public_key))"

definition signed_pre_key_pair_new :: "nat \<Rightarrow> handle \<Rightarrow> bytes \<Rightarrow> bytes \<Rightarrow> (nat \<times> handle \<times> bytes \<times> bytes) pres" where
  "signed_pre_key_pair_new key_id secret_key public_key signature =
     (if length public_key \<noteq> X25519_PUBLIC_KEY_BYTES then Err (InvalidInput ''Invalid SPK public key size'')
      else if length signature \<noteq> ED25519_SIGNATURE_BYTES then Err (InvalidInput ''Invalid SPK signature size'')
      else Ok (key_id, secret_key, public_key, signature))"

record one_time_pre_key =
  opk_id :: nat
  opk_private_key :: handle
  opk_public_key :: bytes

definition opk_generate :: "prims \<Rightarrow> nat \<Rightarrow> bytes \<Rightarrow> one_time_pre_key pres" where
  "opk_generate P key_id random =
     res_bind (generate_x25519_keypair P random) (\<lambda>(handle, public_key).
       Ok \<lparr> opk_id = key_id, opk_private_key = handle, opk_public_key = public_key \<rparr>)"

definition opk_create_from_seed :: "prims \<Rightarrow> nat \<Rightarrow> bytes \<Rightarrow> one_time_pre_key pres" where
  "opk_create_from_seed P key_id seed =
     (if length seed \<noteq> X25519_PRIVATE_KEY_BYTES then Err (KeyGeneration ''Invalid seed size for OPK derivation'')
      else
        let private_key = clamp seed
        in res_bind (map_err CryptoErr (new_handle P X25519_PRIVATE_KEY_BYTES private_key)) (\<lambda>handle.
             Ok \<lparr> opk_id = key_id, opk_private_key = handle, opk_public_key = x25519_public P private_key \<rparr>))"

record one_time_pre_key_public =
  opp_id :: nat
  opp_public_key :: bytes
  opp_kyber_public :: "bytes option"

record local_public_key_bundle =
  lpb_identity_ed25519_public :: bytes
  lpb_identity_x25519_public :: bytes
  lpb_identity_x25519_signature :: bytes
  lpb_signed_pre_key_id :: nat
  lpb_signed_pre_key_public :: bytes
  lpb_signed_pre_key_signature :: bytes
  lpb_one_time_pre_keys :: "one_time_pre_key_public list"
  lpb_ephemeral_x25519_public :: "bytes option"
  lpb_kyber_public :: "bytes option"
  lpb_kyber_ciphertext :: "bytes option"
  lpb_used_one_time_pre_key_id :: "nat option"

definition has_kyber_ciphertext :: "local_public_key_bundle \<Rightarrow> bool" where
  "has_kyber_ciphertext b = (case lpb_kyber_ciphertext b of Some ct \<Rightarrow> ct \<noteq> [] | None \<Rightarrow> False)"

section \<open>The identity\<close>

record hybrid_handshake_artifacts =
  hha_kyber_ciphertext :: bytes
  hha_kyber_shared_secret :: bytes

text \<open>An installed event handler is the list of the exhaustion warnings it received.\<close>

record identity_keys =
  ik_identity_ed25519_secret_key :: handle
  ik_identity_ed25519_public :: bytes
  ik_identity_x25519_secret_key :: handle
  ik_identity_x25519_public :: bytes
  ik_identity_x25519_signature :: bytes
  ik_signed_pre_key_id :: nat
  ik_signed_pre_key_secret_key :: handle
  ik_signed_pre_key_public :: bytes
  ik_signed_pre_key_signature :: bytes
  ik_one_time_pre_keys :: "one_time_pre_key list"
  ik_one_time_pre_key_capacity :: nat
  ik_kyber_secret_key :: handle
  ik_kyber_public :: bytes
  ik_pending_kyber_handshake :: "hybrid_handshake_artifacts option"
  ik_ephemeral_secret_key :: "handle option"
  ik_ephemeral_x25519_public :: "bytes option"
  ik_selected_one_time_pre_key_id :: "nat option"
  ik_inflight_handshake_init_hashes :: "bytes set"
  ik_recent_handshake_init_hashes :: "bytes set"
  ik_recent_handshake_init_order :: "bytes list"
  ik_event_handler :: "(nat \<times> nat) list option"

definition sign_with_ed25519 :: "prims \<Rightarrow> handle \<Rightarrow> bytes \<Rightarrow> bytes pres" where
  "sign_with_ed25519 P ed_secret_key_handle message =
     res_bind (map_err CryptoErr (read_bytes ed_secret_key_handle ED25519_SECRET_KEY_BYTES)) (\<lambda>sk_bytes.
       if \<not> sig_keypair_ok P sk_bytes then Err (Generic ''Failed to parse Ed25519 keypair bytes'')
       else Ok (sig_sign P sk_bytes message))"

definition opk_id_from :: "bytes \<Rightarrow> nat" where
  "opk_id_from b = (le_value (take 4 b) mod OPK_ID_MODULUS + OPK_ID_OFFSET) mod 2 ^ 32"

text \<open>The first of the drawn candidates that is not in use; there are at most \<open>OPK_ID_RETRY_LIMIT\<close>.\<close>

definition OPK_ID_RETRY_LIMIT :: nat where
  [simp]: "OPK_ID_RETRY_LIMIT = 64"

definition unused_opk_id :: "nat set \<Rightarrow> (nat \<Rightarrow> bytes) \<Rightarrow> nat option" where
  "unused_opk_id used_ids draw =
     find (\<lambda>candidate. candidate \<notin> used_ids) (map (\<lambda>attempt. opk_id_from (draw attempt)) [0..<OPK_ID_RETRY_LIMIT])"

fun generate_opks_loop :: "prims \<Rightarrow> nat set \<Rightarrow> (nat \<Rightarrow> nat \<Rightarrow> bytes) \<Rightarrow> (nat \<Rightarrow> bytes) \<Rightarrow> nat list \<Rightarrow> one_time_pre_key list pres" where
  "generate_opks_loop P used_ids id_draws key_draws [] = Ok []"
| "generate_opks_loop P used_ids id_draws key_draws (i # rest) =
     res_bind (ok_or (KeyGeneration ''Could not find an unused one-time prekey ID at index {i} after {OPK_ID_RETRY_LIMIT} attempts'')
                 (unused_opk_id used_ids (id_draws i))) (\<lambda>key_id.
     res_bind (opk_generate P key_id (key_draws i)) (\<lambda>opk.
     res_bind (generate_opks_loop P (insert key_id used_ids) id_draws key_draws rest) (\<lambda>opks.
       Ok (opk # opks))))"

definition generate_one_time_pre_keys_excluding ::
    "prims \<Rightarrow> nat \<Rightarrow> nat set \<Rightarrow> (nat \<Rightarrow> nat \<Rightarrow> bytes) \<Rightarrow> (nat \<Rightarrow> bytes) \<Rightarrow> one_time_pre_key list pres" where
  "generate_one_time_pre_keys_excluding P count reserved_ids id_draws key_draws =
     (if count = 0 then Ok [] else generate_opks_loop P reserved_ids id_draws key_draws [0..<count])"

fun derive_opks_loop :: "prims \<Rightarrow> bytes \<Rightarrow> bytes \<Rightarrow> nat \<Rightarrow> nat set \<Rightarrow> nat list \<Rightarrow> one_time_pre_key list pres" where
  "derive_opks_loop P master_key membership_id count used_ids [] = Ok []"
| "derive_opks_loop P master_key membership_id count used_ids (i # rest) =
     res_bind (derive_one_time_pre_key_seed P master_key membership_id i) (\<lambda>id_seed.
       let key_id = opk_id_from id_seed
       in if key_id \<in> used_ids then Err (KeyGeneration ''Deterministic OPK ID collision at index {i} (id={id})'')
          else if count + i > u32_max then Err overflow_panic
          else
            res_bind (derive_one_time_pre_key_seed P master_key membership_id (count + i)) (\<lambda>opk_seed.
            res_bind (opk_create_from_seed P key_id opk_seed) (\<lambda>opk.
            res_bind (derive_opks_loop P master_key membership_id count (insert key_id used_ids) rest) (\<lambda>opks.
              Ok (opk # opks)))))"

definition generate_one_time_pre_keys_from_master_key ::
    "prims \<Rightarrow> bytes \<Rightarrow> bytes \<Rightarrow> nat \<Rightarrow> one_time_pre_key list pres" where
  "generate_one_time_pre_keys_from_master_key P master_key membership_id count =
     (if count = 0 then Ok [] else derive_opks_loop P master_key membership_id count {} [0..<count])"

definition identity_keys_new ::
    "handle \<times> bytes \<Rightarrow> handle \<times> bytes \<Rightarrow> nat \<times> handle \<times> bytes \<times> bytes \<Rightarrow> one_time_pre_key list \<Rightarrow> handle \<times> bytes
      \<Rightarrow> bytes \<Rightarrow> identity_keys" where
  "identity_keys_new ed x spk opks kyber identity_x25519_signature =
     \<lparr> ik_identity_ed25519_secret_key = fst ed, ik_identity_ed25519_public = snd ed,
       ik_identity_x25519_secret_key = fst x, ik_identity_x25519_public = snd x,
       ik_identity_x25519_signature = identity_x25519_signature,
       ik_signed_pre_key_id = fst spk, ik_signed_pre_key_secret_key = fst (snd spk),
       ik_signed_pre_key_public = fst (snd (snd spk)), ik_signed_pre_key_signature = snd (snd (snd spk)),
       ik_one_time_pre_keys = opks, ik_one_time_pre_key_capacity = min (length opks) u32_max,
       ik_kyber_secret_key = fst kyber, ik_kyber_public = snd kyber, ik_pending_kyber_handshake = None,
       ik_ephemeral_secret_key = None, ik_ephemeral_x25519_public = None, ik_selected_one_time_pre_key_id = None,
       ik_inflight_handshake_init_hashes = {}, ik_recent_handshake_init_hashes = {}, ik_recent_handshake_init_order = [],
       ik_event_handler = None \<rparr>"

record identity_draws =
  idr_ed25519_seed :: bytes
  idr_x25519 :: bytes
  idr_spk_id :: bytes
  idr_spk :: bytes
  idr_opk_ids :: "nat \<Rightarrow> nat \<Rightarrow> bytes"
  idr_opks :: "nat \<Rightarrow> bytes"
  idr_kyber_keygen :: bytes
  idr_kyber_selftest :: bytes

definition identity_create :: "prims \<Rightarrow> nat \<Rightarrow> identity_draws \<Rightarrow> identity_keys pres" where
  "identity_create P one_time_key_count d =
     res_bind (res_bind (generate_ed25519_keypair P (idr_ed25519_seed d)) (\<lambda>(handle, pk). ed25519_key_pair_new handle pk)) (\<lambda>ed_pair.
     res_bind (res_bind (generate_x25519_keypair P (idr_x25519 d)) (\<lambda>(handle, pk). x25519_key_pair_new handle pk)) (\<lambda>x_pair.
     res_bind (sign_with_ed25519 P (fst ed_pair) (snd x_pair)) (\<lambda>identity_x25519_signature.
       let spk_id = le_value (take 4 (idr_spk_id d))
       in
     res_bind (res_bind (generate_x25519_keypair P (idr_spk d)) (\<lambda>(handle, pk). x25519_key_pair_new handle pk)) (\<lambda>spk_pair.
     res_bind (sign_with_ed25519 P (fst ed_pair) (snd spk_pair)) (\<lambda>spk_signature.
     res_bind (generate_one_time_pre_keys_excluding P one_time_key_count {} (idr_opk_ids d) (idr_opks d)) (\<lambda>opks.
     res_bind (map_err CryptoErr (kyber_generate_keypair P (idr_kyber_keygen d) (idr_kyber_selftest d))) (\<lambda>kyber.
     res_bind (signed_pre_key_pair_new spk_id (fst spk_pair) (snd spk_pair) spk_signature) (\<lambda>spk_material.
       Ok (identity_keys_new ed_pair x_pair spk_material opks kyber identity_x25519_signature)))))))))"

definition create_from_master_key :: "prims \<Rightarrow> bytes \<Rightarrow> bytes \<Rightarrow> nat \<Rightarrow> identity_keys pres" where
  "create_from_master_key P master_key membership_id one_time_key_count =
     res_bind (derive_ed25519_seed P master_key membership_id) (\<lambda>ed_seed.
     res_bind (res_bind (generate_ed25519_keypair P (take X25519_PRIVATE_KEY_BYTES ed_seed)) (\<lambda>(handle, pk). ed25519_key_pair_new handle pk)) (\<lambda>ed_material.
     res_bind (derive_x25519_seed P master_key membership_id) (\<lambda>x_seed0.
       let x_seed = clamp x_seed0
       in
     res_bind (map_err CryptoErr (new_handle P X25519_PRIVATE_KEY_BYTES x_seed)) (\<lambda>x_handle.
     res_bind (x25519_key_pair_new x_handle (x25519_public P (take X25519_PRIVATE_KEY_BYTES x_seed))) (\<lambda>x_material.
     res_bind (sign_with_ed25519 P (fst ed_material) (snd x_material)) (\<lambda>identity_x25519_signature.
     res_bind (derive_signed_pre_key_seed P master_key membership_id) (\<lambda>spk_seed.
     res_bind (derive_key_bytes P spk_seed SPK_ID_BYTES [] SPK_ID_INFO) (\<lambda>spk_id_bytes.
       let spk_id = le_value (take 4 spk_id_bytes);
           spk_secret = clamp (take X25519_PRIVATE_KEY_BYTES spk_seed);
           spk_public = x25519_public P spk_secret
       in
     res_bind (map_err CryptoErr (new_handle P X25519_PRIVATE_KEY_BYTES spk_secret)) (\<lambda>spk_handle.
     res_bind (sign_with_ed25519 P (fst ed_material) spk_public) (\<lambda>spk_signature.
     res_bind (signed_pre_key_pair_new spk_id spk_handle spk_public spk_signature) (\<lambda>spk_material.
     res_bind (generate_one_time_pre_keys_from_master_key P master_key membership_id one_time_key_count) (\<lambda>opks.
     res_bind (derive_kyber_seed P master_key membership_id) (\<lambda>kyber_seed.
     res_bind (map_err CryptoErr (kyber_generate_keypair_from_seed P kyber_seed)) (\<lambda>kyber.
       Ok (identity_keys_new ed_material x_material spk_material opks kyber identity_x25519_signature)))))))))))))))"

section \<open>Reading keys\<close>

definition get_identity_x25519_private_key_copy :: "identity_keys \<Rightarrow> bytes pres" where
  "get_identity_x25519_private_key_copy K = map_err CryptoErr (read_bytes (ik_identity_x25519_secret_key K) X25519_PRIVATE_KEY_BYTES)"

definition get_identity_ed25519_private_key_copy :: "identity_keys \<Rightarrow> bytes pres" where
  "get_identity_ed25519_private_key_copy K = map_err CryptoErr (read_bytes (ik_identity_ed25519_secret_key K) ED25519_SECRET_KEY_BYTES)"

definition get_signed_pre_key_private_copy :: "identity_keys \<Rightarrow> bytes pres" where
  "get_signed_pre_key_private_copy K = map_err CryptoErr (read_bytes (ik_signed_pre_key_secret_key K) X25519_PRIVATE_KEY_BYTES)"

definition get_ephemeral_x25519_private_key_copy :: "identity_keys \<Rightarrow> bytes pres" where
  "get_ephemeral_x25519_private_key_copy K =
     res_bind (ok_or (Generic ''Ephemeral key has not been generated'') (ik_ephemeral_secret_key K)) (\<lambda>handle.
       map_err CryptoErr (read_bytes handle X25519_PRIVATE_KEY_BYTES))"

definition clone_kyber_secret_key :: "prims \<Rightarrow> identity_keys \<Rightarrow> handle pres" where
  "clone_kyber_secret_key P K =
     res_bind (map_err CryptoErr (read_bytes (ik_kyber_secret_key K) KYBER_SECRET_KEY_BYTES)) (\<lambda>b.
       map_err CryptoErr (new_handle P KYBER_SECRET_KEY_BYTES b))"

definition create_public_bundle :: "identity_keys \<Rightarrow> local_public_key_bundle" where
  "create_public_bundle K =
     \<lparr> lpb_identity_ed25519_public = ik_identity_ed25519_public K,
       lpb_identity_x25519_public = ik_identity_x25519_public K,
       lpb_identity_x25519_signature = ik_identity_x25519_signature K,
       lpb_signed_pre_key_id = ik_signed_pre_key_id K, lpb_signed_pre_key_public = ik_signed_pre_key_public K,
       lpb_signed_pre_key_signature = ik_signed_pre_key_signature K,
       lpb_one_time_pre_keys =
         map (\<lambda>opk. \<lparr> opp_id = opk_id opk, opp_public_key = opk_public_key opk, opp_kyber_public = None \<rparr>) (ik_one_time_pre_keys K),
       lpb_ephemeral_x25519_public = ik_ephemeral_x25519_public K, lpb_kyber_public = Some (ik_kyber_public K),
       lpb_kyber_ciphertext = None, lpb_used_one_time_pre_key_id = None \<rparr>"

section \<open>Ephemeral and selected keys\<close>

definition set_selected_one_time_pre_key_id :: "nat \<Rightarrow> identity_keys \<Rightarrow> identity_keys" where
  "set_selected_one_time_pre_key_id key_id K = K\<lparr> ik_selected_one_time_pre_key_id := Some key_id \<rparr>"

definition clear_selected_one_time_pre_key_id :: "identity_keys \<Rightarrow> identity_keys" where
  "clear_selected_one_time_pre_key_id K = K\<lparr> ik_selected_one_time_pre_key_id := None \<rparr>"

definition clear_ephemeral_key_pair :: "identity_keys \<Rightarrow> identity_keys" where
  "clear_ephemeral_key_pair K = K\<lparr> ik_ephemeral_secret_key := None, ik_ephemeral_x25519_public := None \<rparr>"

definition generate_ephemeral_key_pair :: "prims \<Rightarrow> identity_keys \<Rightarrow> bytes \<Rightarrow> unit pres \<times> identity_keys" where
  "generate_ephemeral_key_pair P K random =
     (if ik_ephemeral_secret_key K \<noteq> None \<and> ik_ephemeral_x25519_public K \<noteq> None then (Ok (), K)
      else
        let K1 = clear_ephemeral_key_pair K
        in (case generate_x25519_keypair P random of
              Err e \<Rightarrow> (Err e, K1)
            | Ok (handle, public_key) \<Rightarrow>
                (Ok (), K1\<lparr> ik_ephemeral_secret_key := Some handle, ik_ephemeral_x25519_public := Some public_key \<rparr>)))"

section \<open>Signatures of a peer\<close>

definition verify_remote_spk_signature :: "prims \<Rightarrow> bytes \<Rightarrow> bytes \<Rightarrow> bytes \<Rightarrow> bool pres" where
  "verify_remote_spk_signature P remote_identity_ed25519 remote_spk_public remote_spk_signature =
     (if length remote_identity_ed25519 \<noteq> ED25519_PUBLIC_KEY_BYTES \<or> length remote_spk_public \<noteq> X25519_PUBLIC_KEY_BYTES \<or>
         length remote_spk_signature \<noteq> ED25519_SIGNATURE_BYTES then
        Err (InvalidInput ''Invalid key or signature length for SPK verification'')
      else res_bind (ed25519_key_pair_verify P remote_identity_ed25519 remote_spk_public remote_spk_signature) (\<lambda>_. Ok True))"

definition verify_remote_identity_x25519_signature :: "prims \<Rightarrow> bytes \<Rightarrow> bytes \<Rightarrow> bytes \<Rightarrow> bool pres" where
  "verify_remote_identity_x25519_signature P remote_identity_ed25519 remote_identity_x25519_public remote_identity_x25519_signature =
     (if length remote_identity_ed25519 \<noteq> ED25519_PUBLIC_KEY_BYTES \<or> length remote_identity_x25519_public \<noteq> X25519_PUBLIC_KEY_BYTES \<or>
         length remote_identity_x25519_signature \<noteq> ED25519_SIGNATURE_BYTES then
        Err (InvalidInput ''Invalid key or signature length for identity X25519 binding verification'')
      else res_bind (ed25519_key_pair_verify P remote_identity_ed25519 remote_identity_x25519_public remote_identity_x25519_signature)
             (\<lambda>_. Ok True))"

section \<open>The pool of one-time pre-keys\<close>

definition find_opk :: "nat \<Rightarrow> identity_keys \<Rightarrow> one_time_pre_key option" where
  "find_opk key_id K = find (\<lambda>opk. opk_id opk = key_id) (ik_one_time_pre_keys K)"

definition find_one_time_pre_key_by_id :: "identity_keys \<Rightarrow> nat \<Rightarrow> bytes option" where
  "find_one_time_pre_key_by_id K key_id = map_option opk_public_key (find_opk key_id K)"

definition get_one_time_pre_key_private_by_id :: "identity_keys \<Rightarrow> nat \<Rightarrow> bytes pres" where
  "get_one_time_pre_key_private_by_id K key_id =
     res_bind (ok_or (Handshake ''Requested OPK not found'') (find_opk key_id K)) (\<lambda>opk.
       map_err CryptoErr (read_bytes (opk_private_key opk) X25519_PRIVATE_KEY_BYTES))"

text \<open>Removal of the first key with an id, as \<open>position\<close> and \<open>remove\<close> do it.\<close>

fun remove_opk :: "nat \<Rightarrow> one_time_pre_key list \<Rightarrow> one_time_pre_key list" where
  "remove_opk key_id [] = []"
| "remove_opk key_id (opk # opks) = (if opk_id opk = key_id then opks else opk # remove_opk key_id opks)"

definition replenish_one_time_pre_keys ::
    "prims \<Rightarrow> identity_keys \<Rightarrow> nat \<Rightarrow> (nat \<Rightarrow> nat \<Rightarrow> bytes) \<Rightarrow> (nat \<Rightarrow> bytes) \<Rightarrow> (nat \<times> bytes) list pres \<times> identity_keys" where
  "replenish_one_time_pre_keys P K count id_draws key_draws =
     (case generate_one_time_pre_keys_excluding P count (opk_id ` set (ik_one_time_pre_keys K)) id_draws key_draws of
        Err e \<Rightarrow> (Err e, K)
      | Ok new_opks \<Rightarrow>
          (Ok (map (\<lambda>opk. (opk_id opk, opk_public_key opk)) new_opks),
           K\<lparr> ik_one_time_pre_keys := ik_one_time_pre_keys K @ new_opks,
              ik_one_time_pre_key_capacity := min (ik_one_time_pre_key_capacity K + count) u32_max \<rparr>))"

definition ik_set_event_handler :: "identity_keys \<Rightarrow> identity_keys" where
  "ik_set_event_handler K = K\<lparr> ik_event_handler := Some [] \<rparr>"

definition consume_one_time_pre_key_by_id :: "identity_keys \<Rightarrow> nat \<Rightarrow> unit pres \<times> identity_keys" where
  "consume_one_time_pre_key_by_id K key_id =
     (if find_opk key_id K = None then (Err (InvalidInput ''OPK with requested ID not found''), K)
      else
        let opks = remove_opk key_id (ik_one_time_pre_keys K);
            remaining = min (length opks) u32_max;
            max_capacity = ik_one_time_pre_key_capacity K;
            threshold = div_ceil (min (max_capacity * OTK_EXHAUSTION_WARNING_PERCENT) u32_max) 100;
            K1 = K\<lparr> ik_one_time_pre_keys := opks \<rparr>
        in (Ok (), if remaining \<le> threshold
                   then K1\<lparr> ik_event_handler := map_option (\<lambda>log. log @ [(remaining, max_capacity)]) (ik_event_handler K1) \<rparr>
                   else K1))"

section \<open>Handshakes seen\<close>

definition reserve_handshake_init_fingerprint :: "identity_keys \<Rightarrow> bytes \<Rightarrow> bool pres \<times> identity_keys" where
  "reserve_handshake_init_fingerprint K fingerprint =
     (if length fingerprint \<noteq> HMAC_BYTES then (Err (InvalidInput ''Invalid HandshakeInit fingerprint size''), K)
      else if fingerprint \<in> ik_recent_handshake_init_hashes K \<or> fingerprint \<in> ik_inflight_handshake_init_hashes K then (Ok False, K)
      else if card (ik_inflight_handshake_init_hashes K) \<ge> MAX_INFLIGHT_HANDSHAKE_INITS then
        (Err (InvalidState ''Too many inflight HandshakeInit reservations''), K)
      else (Ok True, K\<lparr> ik_inflight_handshake_init_hashes := insert fingerprint (ik_inflight_handshake_init_hashes K) \<rparr>))"

fun prune_recent :: "bytes set \<Rightarrow> bytes list \<Rightarrow> bytes set \<times> bytes list" where
  "prune_recent hashes [] = (hashes, [])"
| "prune_recent hashes (oldest # order) =
     (if length (oldest # order) > MAX_SEEN_HANDSHAKE_INITS then prune_recent (hashes - {oldest}) order
      else (hashes, oldest # order))"

definition remember_handshake_init_fingerprint :: "identity_keys \<Rightarrow> bytes \<Rightarrow> unit pres \<times> identity_keys" where
  "remember_handshake_init_fingerprint K fingerprint =
     (if length fingerprint \<noteq> HMAC_BYTES then (Err (InvalidInput ''Invalid HandshakeInit fingerprint size''), K)
      else
        let K1 = K\<lparr> ik_inflight_handshake_init_hashes := ik_inflight_handshake_init_hashes K - {fingerprint} \<rparr>
        in if fingerprint \<in> ik_recent_handshake_init_hashes K1 then (Ok (), K1)
           else case prune_recent (insert fingerprint (ik_recent_handshake_init_hashes K1)) (ik_recent_handshake_init_order K1 @ [fingerprint]) of
             (hashes, order) \<Rightarrow>
               (Ok (), K1\<lparr> ik_recent_handshake_init_hashes := hashes, ik_recent_handshake_init_order := order \<rparr>))"

definition release_handshake_init_fingerprint :: "identity_keys \<Rightarrow> bytes \<Rightarrow> identity_keys" where
  "release_handshake_init_fingerprint K fingerprint =
     (if length fingerprint \<noteq> HMAC_BYTES then K
      else K\<lparr> ik_inflight_handshake_init_hashes := ik_inflight_handshake_init_hashes K - {fingerprint} \<rparr>)"

definition forget_handshake_init_fingerprint :: "identity_keys \<Rightarrow> bytes \<Rightarrow> unit pres \<times> identity_keys" where
  "forget_handshake_init_fingerprint K fingerprint =
     (if length fingerprint \<noteq> HMAC_BYTES then (Err (InvalidInput ''Invalid HandshakeInit fingerprint size''), K)
      else (Ok (), K\<lparr> ik_inflight_handshake_init_hashes := ik_inflight_handshake_init_hashes K - {fingerprint},
                      ik_recent_handshake_init_hashes := ik_recent_handshake_init_hashes K - {fingerprint},
                      ik_recent_handshake_init_order := filter (\<lambda>entry. entry \<noteq> fingerprint) (ik_recent_handshake_init_order K) \<rparr>))"

section \<open>The sealed anti-replay state\<close>

definition identity_replay_state_aad :: "nat \<Rightarrow> bytes" where
  "identity_replay_state_aad external_counter =
     IDENTITY_REPLAY_STATE_AAD @ [IDENTITY_REPLAY_STATE_VERSION] @ le_bytes 8 external_counter"

definition export_sealed_replay_state :: "prims \<Rightarrow> handshake_codec \<Rightarrow> identity_keys \<Rightarrow> bytes \<Rightarrow> nat \<Rightarrow> bytes \<Rightarrow> bytes pres" where
  "export_sealed_replay_state P H K seal_key external_counter nonce =
     (if length seal_key \<noteq> AES_KEY_BYTES then Err (InvalidInput ''Seal key must be {AES_KEY_BYTES} bytes'')
      else
        let state = \<lparr> irs_state_version = unat IDENTITY_REPLAY_STATE_VERSION, irs_identity_ed25519_public = ik_identity_ed25519_public K,
              irs_remaining_one_time_pre_key_ids = map opk_id (ik_one_time_pre_keys K),
              irs_recent_handshake_init_fingerprints = ik_recent_handshake_init_order K, irs_external_counter = external_counter \<rparr>
        in res_bind (ok_or (Encode ''IdentityReplayState encode: {e}'') (encode_replay H state)) (\<lambda>plaintext.
           res_bind (aes_gcm_encrypt P seal_key nonce plaintext (identity_replay_state_aad external_counter)) (\<lambda>ciphertext.
             Ok ([IDENTITY_REPLAY_STATE_VERSION] @ le_bytes 8 external_counter @ nonce @ ciphertext))))"

definition restore_sealed_replay_state ::
    "prims \<Rightarrow> handshake_codec \<Rightarrow> identity_keys \<Rightarrow> bytes \<Rightarrow> bytes \<Rightarrow> nat \<Rightarrow> nat pres \<times> identity_keys" where
  "restore_sealed_replay_state P H K sealed seal_key min_external_counter =
     (let header = 1 + 8 + AES_GCM_NONCE_BYTES;
          external_counter = le_value (take 8 (drop 1 sealed))
      in if length seal_key \<noteq> AES_KEY_BYTES then (Err (InvalidInput ''Seal key must be {AES_KEY_BYTES} bytes''), K)
         else if length sealed \<le> header then (Err (InvalidInput ''Sealed identity replay state is truncated''), K)
         else if sealed ! 0 \<noteq> IDENTITY_REPLAY_STATE_VERSION then
           (Err (InvalidInput ''Unsupported sealed identity replay state version''), K)
         else if external_counter < min_external_counter then
           (Err (InvalidState ''Sealed identity replay state is older than the expected counter''), K)
         else
           case res_bind (aes_gcm_decrypt P seal_key (take AES_GCM_NONCE_BYTES (drop 9 sealed)) (drop header sealed)
                            (identity_replay_state_aad external_counter)) (\<lambda>plaintext.
                ok_or (Decode ''IdentityReplayState decode: {e}'') (decode_replay H plaintext)) of
             Err e \<Rightarrow> (Err e, K)
           | Ok state \<Rightarrow>
               if irs_state_version state \<noteq> unat IDENTITY_REPLAY_STATE_VERSION then
                 (Err (InvalidInput ''Unsupported sealed identity replay state version''), K)
               else if length (irs_recent_handshake_init_fingerprints state) > MAX_SEEN_HANDSHAKE_INITS then
                 (Err (InvalidInput ''Sealed identity replay state has too many fingerprints''), K)
               else if list_ex (\<lambda>fp. length fp \<noteq> HMAC_BYTES) (irs_recent_handshake_init_fingerprints state) then
                 (Err (InvalidInput ''Sealed identity replay state has a malformed fingerprint''), K)
               else if irs_identity_ed25519_public state \<noteq> ik_identity_ed25519_public K then
                 (Err (InvalidInput ''Sealed identity replay state belongs to a different identity''), K)
               else
                 (Ok external_counter,
                  K\<lparr> ik_one_time_pre_keys :=
                        filter (\<lambda>opk. opk_id opk \<in> set (irs_remaining_one_time_pre_key_ids state)) (ik_one_time_pre_keys K),
                     ik_recent_handshake_init_hashes := set (irs_recent_handshake_init_fingerprints state),
                     ik_recent_handshake_init_order := irs_recent_handshake_init_fingerprints state \<rparr>))"

definition sealed_replay_state_external_counter :: "bytes \<Rightarrow> nat pres" where
  "sealed_replay_state_external_counter sealed =
     (if length sealed < 9 \<or> sealed ! 0 \<noteq> IDENTITY_REPLAY_STATE_VERSION then
        Err (InvalidInput ''Sealed identity replay state is malformed'')
      else Ok (le_value (take 8 (drop 1 sealed))))"

end
