(* ===== verification/Identity_X3dh.thy ===== *)
theory Identity_X3dh
  imports Identity
begin

text \<open>
  The two-step hybrid X3DH of an identity (\<^verbatim>\<open>identity/identity_keys.rs\<close>): pending ML-KEM artifacts, the
  validation of a peer's bundle, the three or four Diffie-Hellman values of either role and their
  combination with the ML-KEM secret.
\<close>

definition store_pending_kyber_handshake :: "bytes \<Rightarrow> bytes \<Rightarrow> identity_keys \<Rightarrow> identity_keys" where
  "store_pending_kyber_handshake kyber_ciphertext kyber_shared_secret K =
     K\<lparr> ik_pending_kyber_handshake :=
          Some \<lparr> hha_kyber_ciphertext = kyber_ciphertext, hha_kyber_shared_secret = kyber_shared_secret \<rparr> \<rparr>"

definition consume_pending_kyber_handshake :: "identity_keys \<Rightarrow> hybrid_handshake_artifacts pres \<times> identity_keys" where
  "consume_pending_kyber_handshake K =
     (ok_or (InvalidInput ''No pending Kyber handshake data'') (ik_pending_kyber_handshake K),
      K\<lparr> ik_pending_kyber_handshake := None \<rparr>)"

definition get_pending_kyber_ciphertext :: "identity_keys \<Rightarrow> bytes pres" where
  "get_pending_kyber_ciphertext K =
     ok_or (InvalidInput ''No pending Kyber handshake data'') (map_option hha_kyber_ciphertext (ik_pending_kyber_handshake K))"

definition decapsulate_kyber_ciphertext :: "prims \<Rightarrow> identity_keys \<Rightarrow> bytes \<Rightarrow> hybrid_handshake_artifacts pres" where
  "decapsulate_kyber_ciphertext P K ciphertext =
     res_bind (map_err CryptoErr (kyber_validate_ciphertext ciphertext)) (\<lambda>_.
     res_bind (map_err CryptoErr (kyber_decapsulate P ciphertext (ik_kyber_secret_key K))) (\<lambda>ss_handle.
     res_bind (map_err CryptoErr (read_bytes ss_handle KYBER_SHARED_SECRET_BYTES)) (\<lambda>ss_bytes.
       Ok \<lparr> hha_kyber_ciphertext = ciphertext, hha_kyber_shared_secret = ss_bytes \<rparr>)))"

fun validate_remote_opks :: "prims \<Rightarrow> one_time_pre_key_public list \<Rightarrow> unit pres" where
  "validate_remote_opks P [] = Ok ()"
| "validate_remote_opks P (opk # opks) =
     res_bind (map_err (\<lambda>_. PeerPubKey ''Invalid remote one-time X25519 key: {e}'') (validate_x25519_public_key (opp_public_key opk))) (\<lambda>_.
     res_bind (case opp_kyber_public opk of None \<Rightarrow> Ok () | Some k \<Rightarrow> map_err CryptoErr (kyber_validate_public_key P k)) (\<lambda>_.
       validate_remote_opks P opks))"

definition validate_remote_bundle :: "prims \<Rightarrow> local_public_key_bundle \<Rightarrow> unit pres" where
  "validate_remote_bundle P bundle =
     (if length (lpb_identity_ed25519_public bundle) \<noteq> ED25519_PUBLIC_KEY_BYTES then
        Err (PeerPubKey ''Invalid remote Ed25519 identity key'')
      else if length (lpb_identity_x25519_public bundle) \<noteq> X25519_PUBLIC_KEY_BYTES then
        Err (PeerPubKey ''Invalid remote identity X25519 key'')
      else if length (lpb_signed_pre_key_public bundle) \<noteq> X25519_PUBLIC_KEY_BYTES then
        Err (PeerPubKey ''Invalid remote signed pre-key public key'')
      else
        res_bind (map_err (\<lambda>_. PeerPubKey ''Invalid remote identity X25519 key: {e}'')
                    (validate_x25519_public_key (lpb_identity_x25519_public bundle))) (\<lambda>_.
        res_bind (map_err (\<lambda>_. PeerPubKey ''Invalid remote signed pre-key X25519 key: {e}'')
                    (validate_x25519_public_key (lpb_signed_pre_key_public bundle))) (\<lambda>_.
        res_bind (case lpb_ephemeral_x25519_public bundle of
                    None \<Rightarrow> Ok ()
                  | Some ephemeral \<Rightarrow> map_err (\<lambda>_. PeerPubKey ''Invalid remote ephemeral X25519 key: {e}'')
                                        (validate_x25519_public_key ephemeral)) (\<lambda>_.
        res_bind (validate_remote_opks P (lpb_one_time_pre_keys bundle)) (\<lambda>_.
        res_bind (verify_remote_identity_x25519_signature P (lpb_identity_ed25519_public bundle)
                    (lpb_identity_x25519_public bundle) (lpb_identity_x25519_signature bundle)) (\<lambda>_.
        res_bind (verify_remote_spk_signature P (lpb_identity_ed25519_public bundle)
                    (lpb_signed_pre_key_public bundle) (lpb_signed_pre_key_signature bundle)) (\<lambda>_.
          case lpb_kyber_public bundle of
            Some kp \<Rightarrow> if length kp = KYBER_PUBLIC_KEY_BYTES then map_err CryptoErr (kyber_validate_public_key P kp)
                       else Err (PeerPubKey ''Invalid remote Kyber-768 public key'')
          | None \<Rightarrow> Err (PeerPubKey ''Invalid remote Kyber-768 public key''))))))))"

definition checked_x25519_dh :: "prims \<Rightarrow> bytes \<Rightarrow> bytes \<Rightarrow> bytes pres" where
  "checked_x25519_dh P private_key public_key =
     (if length private_key \<noteq> X25519_PRIVATE_KEY_BYTES then Err (Generic ''Invalid X25519 private key size'')
      else if length public_key \<noteq> X25519_PUBLIC_KEY_BYTES then Err (Generic ''Invalid X25519 public key size'')
      else
        res_bind (validate_x25519_public_key public_key) (\<lambda>_.
          let shared = x25519_dh P private_key public_key
          in if is_all_zero shared then Err (InvalidInput ''X25519 DH produced all-zero shared secret'') else Ok shared))"

text \<open>The Diffie-Hellman values, in the order in which they are written into the result buffer.\<close>

definition perform_x3dh_dh_as_initiator :: "prims \<Rightarrow> bytes \<Rightarrow> bytes \<Rightarrow> local_public_key_bundle \<Rightarrow> nat option \<Rightarrow> bytes pres" where
  "perform_x3dh_dh_as_initiator P ephemeral_secret identity_secret remote_bundle one_time_pre_key_id =
     res_bind (checked_x25519_dh P identity_secret (lpb_signed_pre_key_public remote_bundle)) (\<lambda>dh1.
     res_bind (checked_x25519_dh P ephemeral_secret (lpb_identity_x25519_public remote_bundle)) (\<lambda>dh2.
     res_bind (checked_x25519_dh P ephemeral_secret (lpb_signed_pre_key_public remote_bundle)) (\<lambda>dh3.
       case one_time_pre_key_id of
         None \<Rightarrow> Ok (dh1 @ dh2 @ dh3)
       | Some key_id \<Rightarrow>
           if lpb_one_time_pre_keys remote_bundle = [] then Ok (dh1 @ dh2 @ dh3)
           else (case find (\<lambda>opk. opp_id opk = key_id) (lpb_one_time_pre_keys remote_bundle) of
                   None \<Rightarrow> Err (InvalidInput ''Requested OPK ID not found in peer bundle'')
                 | Some opk \<Rightarrow>
                     if length (opp_public_key opk) \<noteq> X25519_PUBLIC_KEY_BYTES then
                       Err (InvalidInput ''Requested OPK ID not found in peer bundle'')
                     else res_bind (checked_x25519_dh P ephemeral_secret (opp_public_key opk)) (\<lambda>dh4.
                            Ok (dh1 @ dh2 @ dh3 @ dh4))))))"

definition perform_x3dh_dh_as_responder :: "prims \<Rightarrow> identity_keys \<Rightarrow> local_public_key_bundle \<Rightarrow> nat option \<Rightarrow> bytes pres" where
  "perform_x3dh_dh_as_responder P K remote_bundle used_one_time_pre_key_id =
     (case lpb_ephemeral_x25519_public remote_bundle of
        None \<Rightarrow> Err (InvalidInput ''Remote bundle must have ephemeral key for responder X3DH'')
      | Some peer_ephemeral \<Rightarrow>
          let peer_identity = lpb_identity_x25519_public remote_bundle
          in res_bind (map_err CryptoErr (read_bytes (ik_signed_pre_key_secret_key K) X25519_PRIVATE_KEY_BYTES)) (\<lambda>spk_secret.
             res_bind (map_err CryptoErr (read_bytes (ik_identity_x25519_secret_key K) X25519_PRIVATE_KEY_BYTES)) (\<lambda>identity_secret.
             res_bind (checked_x25519_dh P spk_secret peer_identity) (\<lambda>dh1.
             res_bind (checked_x25519_dh P identity_secret peer_ephemeral) (\<lambda>dh2.
             res_bind (checked_x25519_dh P spk_secret peer_ephemeral) (\<lambda>dh3.
               case used_one_time_pre_key_id of
                 None \<Rightarrow> Ok (dh1 @ dh2 @ dh3)
               | Some key_id \<Rightarrow>
                   (case find_opk key_id K of
                      None \<Rightarrow> Err (InvalidInput ''OPK with requested ID not found'')
                    | Some opk \<Rightarrow>
                        res_bind (map_err CryptoErr (read_bytes (opk_private_key opk) X25519_PRIVATE_KEY_BYTES)) (\<lambda>opk_secret.
                        res_bind (checked_x25519_dh P opk_secret peer_ephemeral) (\<lambda>dh4.
                          Ok (dh1 @ dh2 @ dh3 @ dh4))))))))))"

text \<open>The ML-KEM part: a pending encapsulation, the decapsulation of the peer's ciphertext, or a fresh
  encapsulation; and whether the pending one was used.\<close>

definition x3dh_kyber :: "prims \<Rightarrow> identity_keys \<Rightarrow> local_public_key_bundle \<Rightarrow> bool \<Rightarrow> bytes \<Rightarrow> (bytes \<times> bytes \<times> bool) pres" where
  "x3dh_kyber P K remote_bundle is_initiator random =
     (let has_peer_ct = has_kyber_ciphertext remote_bundle
      in case (ik_pending_kyber_handshake K, is_initiator \<or> \<not> has_peer_ct) of
           (Some artifacts, True) \<Rightarrow> Ok (hha_kyber_ciphertext artifacts, hha_kyber_shared_secret artifacts, True)
         | _ \<Rightarrow>
             if has_peer_ct then
               res_bind (ok_or (InvalidInput ''Remote bundle missing Kyber ciphertext'') (lpb_kyber_ciphertext remote_bundle)) (\<lambda>peer_ct.
               res_bind (map_err CryptoErr (kyber_validate_ciphertext peer_ct)) (\<lambda>_.
               res_bind (map_err CryptoErr (kyber_decapsulate P peer_ct (ik_kyber_secret_key K))) (\<lambda>ss_handle.
               res_bind (map_err CryptoErr (read_bytes ss_handle KYBER_SHARED_SECRET_BYTES)) (\<lambda>ss.
                 Ok (peer_ct, ss, False)))))
             else
               res_bind (ok_or (InvalidInput ''Remote bundle missing Kyber public key'') (lpb_kyber_public remote_bundle)) (\<lambda>remote_kyber_pk.
               res_bind (map_err CryptoErr (kyber_encapsulate P remote_kyber_pk random)) (\<lambda>(ct, ss_handle).
               res_bind (map_err CryptoErr (read_bytes ss_handle KYBER_SHARED_SECRET_BYTES)) (\<lambda>ss.
                 Ok (ct, ss, False)))))"

text \<open>The one-time pre-key id that the initiator settles on is stored before the computation can fail.\<close>

definition x3dh_derive_shared_secret ::
    "prims \<Rightarrow> identity_keys \<Rightarrow> local_public_key_bundle \<Rightarrow> bytes \<Rightarrow> bool \<Rightarrow> bytes \<Rightarrow> handle pres \<times> identity_keys" where
  "x3dh_derive_shared_secret P K remote_bundle info is_initiator random =
     (case (if info = [] then Err (DeriveKey ''HKDF info cannot be empty'')
            else res_bind (validate_remote_bundle P remote_bundle) (\<lambda>_.
              if ik_ephemeral_secret_key K = None then Err (PrepareLocal ''Local ephemeral key missing or invalid'')
              else if lpb_kyber_public remote_bundle = None then
                Err (InvalidInput ''Remote Kyber public key required for hybrid X3DH'')
              else if is_initiator then
                res_bind (ok_or (PrepareLocal ''Local ephemeral key missing'') (ik_ephemeral_secret_key K)) (\<lambda>h.
                res_bind (map_err CryptoErr (read_bytes h X25519_PRIVATE_KEY_BYTES)) (\<lambda>eph_secret.
                res_bind (map_err CryptoErr (read_bytes (ik_identity_x25519_secret_key K) X25519_PRIVATE_KEY_BYTES)) (\<lambda>id_secret.
                  Ok (eph_secret, id_secret))))
              else Ok ([], []))) of
        Err e \<Rightarrow> (Err e, K)
      | Ok (eph_secret, id_secret) \<Rightarrow>
          let opk_to_use = (case (if is_initiator then lpb_used_one_time_pre_key_id remote_bundle else ik_selected_one_time_pre_key_id K) of
                              Some i \<Rightarrow> Some i
                            | None \<Rightarrow> if is_initiator then ik_selected_one_time_pre_key_id K else lpb_used_one_time_pre_key_id remote_bundle);
              K1 = (if is_initiator then K\<lparr> ik_selected_one_time_pre_key_id := opk_to_use \<rparr> else K)
          in (case res_bind (if is_initiator then perform_x3dh_dh_as_initiator P eph_secret id_secret remote_bundle opk_to_use
                             else perform_x3dh_dh_as_responder P K1 remote_bundle opk_to_use) (\<lambda>dh_results.
                   res_bind (derive_key_bytes P (replicate X25519_SHARED_SECRET_BYTES X3DH_FILL_BYTE @ dh_results)
                               X25519_SHARED_SECRET_BYTES [] info) (\<lambda>classical_shared.
                   res_bind (x3dh_kyber P K1 remote_bundle is_initiator random) (\<lambda>(kyber_ciphertext, kyber_ss_bytes, used_stored).
                   res_bind (combine_hybrid_secrets P classical_shared kyber_ss_bytes X25519_SHARED_SECRET_BYTES X3DH_INFO) (\<lambda>hybrid_bytes.
                     Ok (hybrid_bytes, kyber_ciphertext, kyber_ss_bytes, used_stored))))) of
                Err e \<Rightarrow> (Err e, K1)
              | Ok (hybrid_bytes, kyber_ciphertext, kyber_ss_bytes, used_stored) \<Rightarrow>
                  let K2 = (if used_stored then K1 else store_pending_kyber_handshake kyber_ciphertext kyber_ss_bytes K1);
                      K3 = (if is_initiator then clear_ephemeral_key_pair K2
                            else (case opk_to_use of
                                    None \<Rightarrow> K2
                                  | Some key_id \<Rightarrow> K2\<lparr> ik_one_time_pre_keys := remove_opk key_id (ik_one_time_pre_keys K2) \<rparr>));
                      K4 = clear_selected_one_time_pre_key_id K3
                  in (map_err CryptoErr (new_handle P X25519_SHARED_SECRET_BYTES hybrid_bytes), K4)))"

end
