(* ===== verification/Handshake.thy ===== *)
theory Handshake
  imports Identity_X3dh Session
begin

text \<open>
  The handshake (\<^verbatim>\<open>protocol/handshake.rs\<close>): the initiator's message from a peer's pre-key bundle, the
  responder's acknowledgement, the key confirmation of both sides, and the reservation that keeps a
  responder from accepting the same message twice. Both sides end with a \<open>handshake_state\<close> from which a
  session is built.
\<close>

section \<open>Helpers\<close>

definition compute_hmac_sha256 :: "prims \<Rightarrow> bytes \<Rightarrow> bytes \<Rightarrow> bytes pres" where
  "compute_hmac_sha256 P key data =
     (if length key \<noteq> HMAC_BYTES then Err (InvalidInput ''HMAC key must be 32 bytes'')
      else ok_or (Handshake ''HMAC-SHA256 computation failed'') (hmac_sha256 P key data))"

definition handshake_dh :: "prims \<Rightarrow> bytes \<Rightarrow> bytes \<Rightarrow> bytes pres" where
  "handshake_dh P private_key public_key =
     (if length private_key \<noteq> X25519_PRIVATE_KEY_BYTES \<or> length public_key \<noteq> X25519_PUBLIC_KEY_BYTES then
        Err (InvalidInput ''Invalid X25519 key size for DH'')
      else
        let shared_bytes = x25519_dh P private_key public_key
        in if is_all_zero shared_bytes then
             Err (Handshake ''X25519 DH produced all-zero output for {context} (RFC 7748 6.1)'')
           else Ok shared_bytes)"

definition encode_handshake_init_canonical :: "handshake_codec \<Rightarrow> handshake_init \<Rightarrow> bytes pres" where
  "encode_handshake_init_canonical H init = ok_or (Encode ''Failed to serialize HandshakeInit: {e}'') (encode_init H init)"

definition build_transcript_hash :: "prims \<Rightarrow> handshake_codec \<Rightarrow> pre_key_bundle \<Rightarrow> handshake_init \<Rightarrow> bytes pres" where
  "build_transcript_hash P H bundle init =
     res_bind (ok_or (Encode ''Failed to serialize PreKeyBundle: {e}'') (encode_bundle H bundle)) (\<lambda>bundle_bytes.
     res_bind (encode_handshake_init_canonical H (init\<lparr> hi_key_confirmation_mac := [] \<rparr>)) (\<lambda>init_bytes.
       let transcript = le_bytes 4 (length bundle_bytes) @ bundle_bytes @ le_bytes 4 (length init_bytes) @ init_bytes
       in ok_or (Handshake ''HMAC-SHA256 init failed'') (hmac_sha256 P TRANSCRIPT_LABEL transcript)))"

definition build_handshake_init_fingerprint :: "prims \<Rightarrow> handshake_codec \<Rightarrow> handshake_init \<Rightarrow> bytes pres" where
  "build_handshake_init_fingerprint P H init =
     res_bind (encode_handshake_init_canonical H init) (\<lambda>init_bytes. Ok (sha256 P init_bytes))"

definition build_metadata_context :: "bytes \<Rightarrow> bytes \<Rightarrow> bytes \<Rightarrow> bytes" where
  "build_metadata_context self_dh_public peer_dh_public session_id = sorted_pair self_dh_public peer_dh_public @ session_id"

definition build_init_identity_binding_message :: "bytes \<Rightarrow> bytes \<Rightarrow> bytes \<Rightarrow> bytes" where
  "build_init_identity_binding_message ed25519_public x25519_public' kyber_public =
     HANDSHAKE_INIT_IDENTITY_BINDING_INFO @ ed25519_public @ x25519_public' @ kyber_public"

definition sign_init_identity_binding :: "prims \<Rightarrow> bytes \<Rightarrow> bytes \<Rightarrow> bytes \<Rightarrow> bytes \<Rightarrow> bytes pres" where
  "sign_init_identity_binding P ed25519_secret ed25519_public x25519_public' kyber_public =
     (if length ed25519_secret \<noteq> ED25519_SECRET_KEY_BYTES then
        Err (InvalidInput ''Invalid Ed25519 secret key size for handshake identity binding'')
      else if \<not> sig_keypair_ok P ed25519_secret then Err (KeyGeneration ''Invalid Ed25519 keypair bytes'')
      else Ok (sig_sign P ed25519_secret (build_init_identity_binding_message ed25519_public x25519_public' kyber_public)))"

definition verify_init_identity_binding :: "prims \<Rightarrow> handshake_init \<Rightarrow> unit pres" where
  "verify_init_identity_binding P init =
     ed25519_key_pair_verify P (hi_initiator_identity_ed25519_public init)
       (build_init_identity_binding_message (hi_initiator_identity_ed25519_public init)
          (hi_initiator_identity_x25519_public init) (hi_initiator_kyber_public init))
       (hi_initiator_identity_binding_signature init)"

fun validate_bundle_opks :: "one_time_pre_key_proto list \<Rightarrow> unit pres" where
  "validate_bundle_opks [] = Ok ()"
| "validate_bundle_opks (opk # opks) =
     (if length (otp_public_key opk) \<noteq> X25519_PUBLIC_KEY_BYTES then Err (InvalidInput ''Invalid OPK size in PreKeyBundle'')
      else res_bind (validate_x25519_public_key (otp_public_key opk)) (\<lambda>_. validate_bundle_opks opks))"

definition validate_bundle :: "prims \<Rightarrow> pre_key_bundle \<Rightarrow> unit pres" where
  "validate_bundle P bundle =
     (if pkb_version bundle \<noteq> PROTOCOL_VERSION then Err (InvalidInput ''Invalid PreKeyBundle version'')
      else if length (pkb_identity_ed25519_public bundle) \<noteq> ED25519_PUBLIC_KEY_BYTES \<or>
         length (pkb_identity_x25519_public bundle) \<noteq> X25519_PUBLIC_KEY_BYTES \<or>
         length (pkb_identity_x25519_signature bundle) \<noteq> ED25519_SIGNATURE_BYTES \<or>
         length (pkb_signed_pre_key_public bundle) \<noteq> X25519_PUBLIC_KEY_BYTES \<or>
         length (pkb_signed_pre_key_signature bundle) \<noteq> ED25519_SIGNATURE_BYTES then
        Err (InvalidInput ''Invalid PreKeyBundle key sizes'')
      else if length (pkb_kyber_public bundle) \<noteq> KYBER_PUBLIC_KEY_BYTES then
        Err (InvalidInput ''Kyber public key required for handshake'')
      else
        res_bind (verify_remote_identity_x25519_signature P (pkb_identity_ed25519_public bundle)
                    (pkb_identity_x25519_public bundle) (pkb_identity_x25519_signature bundle)) (\<lambda>_.
        res_bind (verify_remote_spk_signature P (pkb_identity_ed25519_public bundle)
                    (pkb_signed_pre_key_public bundle) (pkb_signed_pre_key_signature bundle)) (\<lambda>_.
        res_bind (validate_x25519_public_key (pkb_identity_x25519_public bundle)) (\<lambda>_.
        res_bind (validate_x25519_public_key (pkb_signed_pre_key_public bundle)) (\<lambda>_.
          if length (pkb_one_time_pre_keys bundle) > MAX_ONE_TIME_PRE_KEYS_PER_BUNDLE then
            Err (InvalidInput ''PreKeyBundle has too many one-time pre-keys'')
          else
            res_bind (validate_bundle_opks (pkb_one_time_pre_keys bundle)) (\<lambda>_.
              map_err CryptoErr (kyber_validate_public_key P (pkb_kyber_public bundle))))))))"

definition validate_max_messages_per_chain :: "nat \<Rightarrow> unit pres" where
  "validate_max_messages_per_chain n =
     (if n = 0 then Err (InvalidInput ''Max messages per chain must be greater than zero'')
      else if n > MAX_MESSAGES_PER_CHAIN then Err (InvalidInput ''Max messages per chain exceeds protocol limit'')
      else Ok ())"

definition validate_init_message :: "prims \<Rightarrow> handshake_init \<Rightarrow> unit pres" where
  "validate_init_message P init =
     (if hi_version init \<noteq> PROTOCOL_VERSION then Err (InvalidInput ''Invalid HandshakeInit version'')
      else if length (hi_initiator_identity_ed25519_public init) \<noteq> ED25519_PUBLIC_KEY_BYTES \<or>
         length (hi_initiator_identity_x25519_public init) \<noteq> X25519_PUBLIC_KEY_BYTES \<or>
         length (hi_initiator_ephemeral_x25519_public init) \<noteq> X25519_PUBLIC_KEY_BYTES then
        Err (InvalidInput ''Invalid initiator key sizes'')
      else if length (hi_kyber_ciphertext init) \<noteq> KYBER_CIPHERTEXT_BYTES then
        Err (InvalidInput ''Kyber ciphertext required for handshake'')
      else if length (hi_key_confirmation_mac init) \<noteq> HMAC_BYTES then
        Err (InvalidInput ''Invalid key confirmation MAC size'')
      else if length (hi_initiator_identity_binding_signature init) \<noteq> ED25519_SIGNATURE_BYTES then
        Err (InvalidInput ''Invalid initiator identity binding signature size'')
      else if length (hi_initiator_kyber_public init) \<noteq> KYBER_PUBLIC_KEY_BYTES then
        Err (InvalidInput ''Initiator Kyber public key required for handshake'')
      else
        res_bind (validate_x25519_public_key (hi_initiator_identity_x25519_public init)) (\<lambda>_.
        res_bind (validate_x25519_public_key (hi_initiator_ephemeral_x25519_public init)) (\<lambda>_.
        res_bind (map_err CryptoErr (kyber_validate_ciphertext (hi_kyber_ciphertext init))) (\<lambda>_.
        res_bind (map_err CryptoErr (kyber_validate_public_key P (hi_initiator_kyber_public init))) (\<lambda>_.
        res_bind (validate_max_messages_per_chain (hi_max_messages_per_chain init)) (\<lambda>_.
          verify_init_identity_binding P init))))))"

section \<open>Key derivation of both sides\<close>

definition classical_secret :: "prims \<Rightarrow> bytes \<Rightarrow> bytes \<Rightarrow> bytes \<Rightarrow> bytes \<Rightarrow> bytes pres" where
  "classical_secret P dh1 dh2 dh3 dh4 =
     derive_key_bytes P (replicate X25519_PUBLIC_KEY_BYTES X3DH_FILL_BYTE @ dh1 @ dh2 @ dh3 @ dh4) ROOT_KEY_BYTES [] X3DH_INFO"

record handshake_keys =
  hk_root_key :: bytes
  hk_session_id :: bytes
  hk_metadata_key :: bytes
  hk_kc_i :: bytes
  hk_kc_r :: bytes

definition handshake_key_schedule :: "prims \<Rightarrow> bytes \<Rightarrow> bytes \<Rightarrow> bytes \<Rightarrow> bytes \<Rightarrow> bytes \<Rightarrow> handshake_keys pres" where
  "handshake_key_schedule P classical_shared kyber_shared_secret kyber_ciphertext self_public peer_public =
     res_bind (derive_key_bytes P kyber_shared_secret ROOT_KEY_BYTES classical_shared HYBRID_X3DH_INFO) (\<lambda>root_key.
     res_bind (derive_key_bytes P root_key SESSION_ID_BYTES kyber_ciphertext SESSION_ID_INFO) (\<lambda>session_id.
     res_bind (derive_key_bytes P root_key METADATA_KEY_BYTES (build_metadata_context self_public peer_public session_id) METADATA_KEY_INFO)
       (\<lambda>metadata_key.
     res_bind (derive_key_bytes P root_key HMAC_BYTES [] KEY_CONFIRM_INIT_INFO) (\<lambda>kc_i.
     res_bind (derive_key_bytes P root_key HMAC_BYTES [] KEY_CONFIRM_RESP_INFO) (\<lambda>kc_r.
       Ok \<lparr> hk_root_key = root_key, hk_session_id = session_id, hk_metadata_key = metadata_key, hk_kc_i = kc_i, hk_kc_r = kc_r \<rparr>)))))"

section \<open>The initiator\<close>

record handshake_initiator =
  hin_init_message :: handshake_init
  hin_init_bytes :: bytes
  hin_session_state :: handshake_state
  hin_expected_ack_mac :: bytes

record init_draws =
  ind_ephemeral :: bytes
  ind_opk_index :: nat
  ind_encaps :: bytes
  ind_nonce_prefix :: bytes

text \<open>The pre-key the initiator uses, drawn from those of the bundle.\<close>

definition choose_opk :: "pre_key_bundle \<Rightarrow> nat \<Rightarrow> (nat option \<times> bytes) pres" where
  "choose_opk bundle random =
     (let opk_count = length (pkb_one_time_pre_keys bundle)
      in if opk_count > 0 then
           let opk = pkb_one_time_pre_keys bundle ! (random mod opk_count)
           in if length (otp_public_key opk) \<noteq> X25519_PUBLIC_KEY_BYTES then Err (InvalidInput ''Invalid OPK public key size'')
              else res_bind (validate_x25519_public_key (otp_public_key opk)) (\<lambda>_.
                     Ok (Some (otp_one_time_pre_key_id opk), otp_public_key opk))
         else Ok (None, []))"

text \<open>The initiator's part after its ephemeral key is there; it only reads the identity.\<close>

definition initiate ::
    "prims \<Rightarrow> handshake_codec \<Rightarrow> identity_keys \<Rightarrow> pre_key_bundle \<Rightarrow> nat \<Rightarrow> init_draws \<Rightarrow> nat pres \<Rightarrow> handshake_initiator pres" where
  "initiate P H K peer_bundle max_messages_per_chain d now =
     res_bind (ok_or (PrepareLocal ''Initiator ephemeral key not available'') (ik_ephemeral_x25519_public K)) (\<lambda>eph_public.
       if length eph_public \<noteq> X25519_PUBLIC_KEY_BYTES then Err (PrepareLocal ''Initiator ephemeral key invalid size'')
       else
     res_bind (get_ephemeral_x25519_private_key_copy K) (\<lambda>eph_private.
     res_bind (get_identity_x25519_private_key_copy K) (\<lambda>identity_private.
     res_bind (choose_opk peer_bundle (ind_opk_index d)) (\<lambda>(used_opk_id, opk_public).
     res_bind (handshake_dh P identity_private (pkb_signed_pre_key_public peer_bundle)) (\<lambda>dh1.
     res_bind (handshake_dh P eph_private (pkb_identity_x25519_public peer_bundle)) (\<lambda>dh2.
     res_bind (handshake_dh P eph_private (pkb_signed_pre_key_public peer_bundle)) (\<lambda>dh3.
     res_bind (if used_opk_id \<noteq> None then handshake_dh P eph_private opk_public else Ok []) (\<lambda>dh4.
     res_bind (classical_secret P dh1 dh2 dh3 dh4) (\<lambda>classical_shared.
     res_bind (map_err CryptoErr (kyber_encapsulate P (pkb_kyber_public peer_bundle) (ind_encaps d))) (\<lambda>(kyber_ciphertext, kyber_ss_handle).
     res_bind (map_err CryptoErr (read_bytes kyber_ss_handle KYBER_SHARED_SECRET_BYTES)) (\<lambda>kyber_shared_secret.
     res_bind (handshake_key_schedule P classical_shared kyber_shared_secret kyber_ciphertext eph_public
                 (pkb_signed_pre_key_public peer_bundle)) (\<lambda>keys.
       if length (ik_kyber_public K) \<noteq> KYBER_PUBLIC_KEY_BYTES then Err (PrepareLocal ''Invalid local Kyber public key size'')
       else
     res_bind (get_identity_ed25519_private_key_copy K) (\<lambda>ed25519_secret.
     res_bind (sign_init_identity_binding P ed25519_secret (ik_identity_ed25519_public K) (ik_identity_x25519_public K) (ik_kyber_public K))
       (\<lambda>signature.
       let init_message = \<lparr> hi_version = PROTOCOL_VERSION, hi_initiator_identity_ed25519_public = ik_identity_ed25519_public K,
             hi_initiator_identity_x25519_public = ik_identity_x25519_public K, hi_initiator_ephemeral_x25519_public = eph_public,
             hi_one_time_pre_key_id = used_opk_id, hi_kyber_ciphertext = kyber_ciphertext, hi_key_confirmation_mac = [],
             hi_initiator_kyber_public = ik_kyber_public K, hi_max_messages_per_chain = max_messages_per_chain,
             hi_initiator_identity_binding_signature = signature \<rparr>
       in
     res_bind (build_transcript_hash P H peer_bundle init_message) (\<lambda>transcript_hash.
     res_bind (compute_hmac_sha256 P (hk_kc_i keys) transcript_hash) (\<lambda>confirmation_mac.
       let init_message' = init_message\<lparr> hi_key_confirmation_mac := confirmation_mac \<rparr>
       in
     res_bind (ok_or (Encode ''Failed to serialize HandshakeInit: {e}'') (encode_init H init_message')) (\<lambda>serialized.
     res_bind (nonce_create (ind_nonce_prefix d)) (\<lambda>nonce_generator.
     res_bind (clone_kyber_secret_key P K) (\<lambda>kyber_secret_handle.
     res_bind (map_err CryptoErr (read_bytes kyber_secret_handle KYBER_SECRET_KEY_BYTES)) (\<lambda>kyber_secret.
     res_bind now (\<lambda>created_at_unix.
     res_bind (build_protocol_state P True (hk_root_key keys) (hk_session_id keys) (hk_metadata_key keys) eph_private eph_public
                 (pkb_signed_pre_key_public peer_bundle) eph_public (pkb_signed_pre_key_public peer_bundle) kyber_secret
                 (ik_kyber_public K) (pkb_kyber_public peer_bundle) max_messages_per_chain MAX_NONCE_COUNTER
                 (export_state nonce_generator) created_at_unix (ik_identity_ed25519_public K) (ik_identity_x25519_public K)
                 (pkb_identity_ed25519_public peer_bundle) (pkb_identity_x25519_public peer_bundle)) (\<lambda>proto_state.
     res_bind (compute_hmac_sha256 P (hk_kc_r keys) transcript_hash) (\<lambda>expected_ack_mac.
       Ok \<lparr> hin_init_message = init_message', hin_init_bytes = serialized,
            hin_session_state = \<lparr> hs_state = proto_state, hs_kyber_shared_secret = kyber_shared_secret \<rparr>,
            hin_expected_ack_mac = expected_ack_mac \<rparr>)))))))))))))))))))))))"

definition initiator_start ::
    "prims \<Rightarrow> handshake_codec \<Rightarrow> identity_keys \<Rightarrow> pre_key_bundle \<Rightarrow> nat \<Rightarrow> init_draws \<Rightarrow> nat pres
      \<Rightarrow> handshake_initiator pres \<times> identity_keys" where
  "initiator_start P H K peer_bundle max_messages_per_chain d now =
     (case res_bind (validate_bundle P peer_bundle) (\<lambda>_. validate_max_messages_per_chain max_messages_per_chain) of
        Err e \<Rightarrow> (Err e, K)
      | Ok _ \<Rightarrow>
          if constant_time_equals (ik_identity_ed25519_public K) (pkb_identity_ed25519_public peer_bundle) = Ok True then
            (Err (InvalidInput ''Reflexion attack: peer identity key matches local identity key''), K)
          else
            (case generate_ephemeral_key_pair P K (ind_ephemeral d) of
               (Err e, K1) \<Rightarrow> (Err e, K1)
             | (Ok _, K1) \<Rightarrow>
                 (case initiate P H K1 peer_bundle max_messages_per_chain d now of
                    Err e \<Rightarrow> (Err e, K1)
                  | Ok ini \<Rightarrow> (Ok ini, clear_ephemeral_key_pair K1))))"

definition initiator_finish :: "prims \<Rightarrow> handshake_codec \<Rightarrow> handshake_initiator \<Rightarrow> bytes \<Rightarrow> session_inner pres" where
  "initiator_finish P H ini ack_bytes =
     (if length ack_bytes > MAX_HANDSHAKE_MESSAGE_SIZE then Err (InvalidInput ''HandshakeAck too large'')
      else
        res_bind (ok_or (Decode ''Failed to parse HandshakeAck: {e}'') (decode_ack H ack_bytes)) (\<lambda>ack.
          if ha_version ack \<noteq> PROTOCOL_VERSION then Err (InvalidInput ''Invalid HandshakeAck version'')
          else if length (ha_key_confirmation_mac ack) \<noteq> HMAC_BYTES then
            Err (InvalidInput ''Invalid acknowledgement MAC size'')
          else
            res_bind (map_err CryptoErr (constant_time_equals (hin_expected_ack_mac ini) (ha_key_confirmation_mac ack))) (\<lambda>eq.
              if \<not> eq then Err (Handshake ''Responder key confirmation failed'')
              else from_handshake_state P (hin_session_state ini))))"

section \<open>The replay reservation\<close>

text \<open>A replay guard is supplied by the caller; its three calls change its own state.\<close>

record 'g replay_guard =
  rg_reserve :: "bytes \<Rightarrow> 'g \<Rightarrow> bool pres \<times> 'g"
  rg_commit :: "bytes \<Rightarrow> 'g \<Rightarrow> unit pres \<times> 'g"
  rg_release :: "bytes \<Rightarrow> 'g \<Rightarrow> unit pres \<times> 'g"

definition reservation_reserve ::
    "'g replay_guard option \<Rightarrow> bytes \<Rightarrow> identity_keys \<times> 'g \<Rightarrow> bool pres \<times> identity_keys \<times> 'g" where
  "reservation_reserve guard fingerprint = (\<lambda>(K, g).
     (case (case guard of None \<Rightarrow> (Ok True, g) | Some rg \<Rightarrow> rg_reserve rg fingerprint g) of
        (Err e, g1) \<Rightarrow> (Err e, K, g1)
      | (Ok False, g1) \<Rightarrow> (Err (ReplayAttack ''Replay attack detected: duplicate HandshakeInit''), K, g1)
      | (Ok True, g1) \<Rightarrow>
          (case reserve_handshake_init_fingerprint K fingerprint of
             (Err e, K1) \<Rightarrow> (Err e, K1, g1)
           | (Ok True, K1) \<Rightarrow> (Ok (guard \<noteq> None), K1, g1)
           | (Ok False, K1) \<Rightarrow>
               (case guard of
                  None \<Rightarrow> (Err (ReplayAttack ''Replay attack detected: duplicate HandshakeInit''), K1, g1)
                | Some rg \<Rightarrow>
                    (case rg_release rg fingerprint g1 of
                       (Err e, g2) \<Rightarrow> (Err e, K1, g2)
                     | (Ok _, g2) \<Rightarrow> (Err (ReplayAttack ''Replay attack detected: duplicate HandshakeInit''), K1, g2))))))"

text \<open>What happens when a reservation that was not committed is dropped.\<close>

definition reservation_drop ::
    "'g replay_guard option \<Rightarrow> bytes \<Rightarrow> bool \<Rightarrow> bool \<Rightarrow> bool \<Rightarrow> identity_keys \<times> 'g \<Rightarrow> identity_keys \<times> 'g" where
  "reservation_drop guard fingerprint local_reserved local_committed remote_reserved = (\<lambda>(K, g).
     (if local_committed then snd (forget_handshake_init_fingerprint K fingerprint)
      else if local_reserved then release_handshake_init_fingerprint K fingerprint
      else K,
      case guard of Some rg \<Rightarrow> if remote_reserved then snd (rg_release rg fingerprint g) else g | None \<Rightarrow> g))"

definition reservation_commit ::
    "'g replay_guard option \<Rightarrow> bytes \<Rightarrow> bool \<Rightarrow> identity_keys \<times> 'g \<Rightarrow> unit pres \<times> identity_keys \<times> 'g" where
  "reservation_commit guard fingerprint remote_reserved = (\<lambda>(K, g).
     (case remember_handshake_init_fingerprint K fingerprint of
        (Err e, K1) \<Rightarrow> (Err e, reservation_drop guard fingerprint True False remote_reserved (K1, g))
      | (Ok _, K1) \<Rightarrow>
          (case guard of
             None \<Rightarrow> (Ok (), K1, g)
           | Some rg \<Rightarrow>
               (case rg_commit rg fingerprint g of
                  (Ok _, g1) \<Rightarrow> (Ok (), K1, g1)
                | (Err commit_err, g1) \<Rightarrow>
                    (case forget_handshake_init_fingerprint K1 fingerprint of
                       (forget_result, K2) \<Rightarrow>
                         (case (if remote_reserved then rg_release rg fingerprint g1 else (Ok (), g1)) of
                            (release_result, g2) \<Rightarrow>
                              (res_bind forget_result (\<lambda>_. res_bind release_result (\<lambda>_. Err commit_err)),
                               reservation_drop guard fingerprint False (\<not> is_ok forget_result)
                                 (remote_reserved \<and> \<not> is_ok release_result) (K2, g2))))))))"

section \<open>The responder\<close>

record handshake_responder =
  hre_ack_message :: handshake_ack
  hre_ack_bytes :: bytes
  hre_session_state :: handshake_state

text \<open>The responder's part between the reservation and its commit; it only reads the identity.\<close>

definition respond ::
    "prims \<Rightarrow> handshake_codec \<Rightarrow> identity_keys \<Rightarrow> pre_key_bundle \<Rightarrow> handshake_init \<Rightarrow> nat \<Rightarrow> bytes \<Rightarrow> nat pres
      \<Rightarrow> handshake_responder pres" where
  "respond P H K local_bundle init max_messages_per_chain nonce_prefix now =
     res_bind (validate_init_message P init) (\<lambda>_.
       if constant_time_equals (pkb_identity_ed25519_public local_bundle) (hi_initiator_identity_ed25519_public init) = Ok True then
         Err (InvalidInput ''Reflexion attack: initiator identity key matches local identity key'')
       else if hi_max_messages_per_chain init \<noteq> max_messages_per_chain then Err (InvalidInput ''Handshake ratchet config mismatch'')
       else
     res_bind (case hi_one_time_pre_key_id init of None \<Rightarrow> Ok [] | Some opk_id' \<Rightarrow> get_one_time_pre_key_private_by_id K opk_id') (\<lambda>opk_private.
     res_bind (get_signed_pre_key_private_copy K) (\<lambda>spk_private.
     res_bind (get_identity_x25519_private_key_copy K) (\<lambda>identity_private.
     res_bind (handshake_dh P spk_private (hi_initiator_identity_x25519_public init)) (\<lambda>dh1.
     res_bind (handshake_dh P identity_private (hi_initiator_ephemeral_x25519_public init)) (\<lambda>dh2.
     res_bind (handshake_dh P spk_private (hi_initiator_ephemeral_x25519_public init)) (\<lambda>dh3.
     res_bind (if hi_one_time_pre_key_id init \<noteq> None then handshake_dh P opk_private (hi_initiator_ephemeral_x25519_public init) else Ok [])
       (\<lambda>dh4.
     res_bind (classical_secret P dh1 dh2 dh3 dh4) (\<lambda>classical_shared.
     res_bind (decapsulate_kyber_ciphertext P K (hi_kyber_ciphertext init)) (\<lambda>artifacts.
     res_bind (handshake_key_schedule P classical_shared (hha_kyber_shared_secret artifacts) (hi_kyber_ciphertext init)
                 (pkb_signed_pre_key_public local_bundle) (hi_initiator_ephemeral_x25519_public init)) (\<lambda>keys.
     res_bind (build_transcript_hash P H local_bundle init) (\<lambda>transcript_hash.
     res_bind (compute_hmac_sha256 P (hk_kc_i keys) transcript_hash) (\<lambda>expected_init_mac.
     res_bind (map_err CryptoErr (constant_time_equals expected_init_mac (hi_key_confirmation_mac init))) (\<lambda>eq.
       if \<not> eq then Err (Handshake ''Initiator key confirmation failed'')
       else
     res_bind (compute_hmac_sha256 P (hk_kc_r keys) transcript_hash) (\<lambda>ack_mac.
       let ack_message = \<lparr> ha_version = PROTOCOL_VERSION, ha_key_confirmation_mac = ack_mac \<rparr>
       in
     res_bind (ok_or (Encode ''Failed to serialize HandshakeAck: {e}'') (encode_ack H ack_message)) (\<lambda>ack_bytes.
     res_bind (nonce_create nonce_prefix) (\<lambda>nonce_generator.
     res_bind (clone_kyber_secret_key P K) (\<lambda>kyber_secret_handle.
     res_bind (map_err CryptoErr (read_bytes kyber_secret_handle KYBER_SECRET_KEY_BYTES)) (\<lambda>kyber_secret.
       if length (ik_kyber_public K) \<noteq> KYBER_PUBLIC_KEY_BYTES then Err (PrepareLocal ''Invalid local Kyber public key size'')
       else
     res_bind now (\<lambda>created_at_unix.
     res_bind (build_protocol_state P False (hk_root_key keys) (hk_session_id keys) (hk_metadata_key keys) spk_private
                 (pkb_signed_pre_key_public local_bundle) (hi_initiator_ephemeral_x25519_public init)
                 (pkb_signed_pre_key_public local_bundle) (hi_initiator_ephemeral_x25519_public init) kyber_secret
                 (ik_kyber_public K) (hi_initiator_kyber_public init) max_messages_per_chain MAX_NONCE_COUNTER
                 (export_state nonce_generator) created_at_unix (pkb_identity_ed25519_public local_bundle)
                 (pkb_identity_x25519_public local_bundle) (hi_initiator_identity_ed25519_public init)
                 (hi_initiator_identity_x25519_public init)) (\<lambda>proto_state.
       Ok \<lparr> hre_ack_message = ack_message, hre_ack_bytes = ack_bytes,
            hre_session_state = \<lparr> hs_state = proto_state, hs_kyber_shared_secret = hha_kyber_shared_secret artifacts \<rparr> \<rparr>)))))))))))))))))))))"

definition responder_process ::
    "prims \<Rightarrow> handshake_codec \<Rightarrow> 'g replay_guard option \<Rightarrow> pre_key_bundle \<Rightarrow> bytes \<Rightarrow> nat \<Rightarrow> bytes \<Rightarrow> nat pres
      \<Rightarrow> identity_keys \<times> 'g \<Rightarrow> handshake_responder pres \<times> identity_keys \<times> 'g" where
  "responder_process P H guard local_bundle init_message_bytes max_messages_per_chain nonce_prefix now = (\<lambda>(K, g).
     (case res_bind (validate_bundle P local_bundle) (\<lambda>_.
           res_bind (validate_max_messages_per_chain max_messages_per_chain) (\<lambda>_.
             if length init_message_bytes > MAX_HANDSHAKE_MESSAGE_SIZE then Err (InvalidInput ''Message too large'')
             else res_bind (ok_or (Decode ''Failed to parse HandshakeInit: {e}'') (decode_init H init_message_bytes)) (\<lambda>init.
                  res_bind (build_handshake_init_fingerprint P H init) (\<lambda>fingerprint. Ok (init, fingerprint))))) of
        Err e \<Rightarrow> (Err e, K, g)
      | Ok (init, fingerprint) \<Rightarrow>
          (case reservation_reserve guard fingerprint (K, g) of
             (Err e, S1) \<Rightarrow> (Err e, S1)
           | (Ok remote_reserved, K1, g1) \<Rightarrow>
               (case respond P H K1 local_bundle init max_messages_per_chain nonce_prefix now of
                  Err e \<Rightarrow> (Err e, reservation_drop guard fingerprint True False remote_reserved (K1, g1))
                | Ok res \<Rightarrow>
                    (case (case hi_one_time_pre_key_id init of
                             None \<Rightarrow> (Ok (), K1) | Some opk_id' \<Rightarrow> consume_one_time_pre_key_by_id K1 opk_id') of
                       (Err e, K2) \<Rightarrow> (Err e, reservation_drop guard fingerprint True False remote_reserved (K2, g1))
                     | (Ok _, K2) \<Rightarrow>
                         (case reservation_commit guard fingerprint remote_reserved (K2, g1) of
                            (Err e, S3) \<Rightarrow> (Err e, S3)
                          | (Ok _, S3) \<Rightarrow> (Ok res, S3)))))))"

definition responder_finish :: "prims \<Rightarrow> handshake_responder \<Rightarrow> session_inner pres" where
  "responder_finish P res = from_handshake_state P (hre_session_state res)"

end
