(* ===== verification/Sealed_Slot.thy ===== *)
theory Sealed_Slot
  imports Crypto
begin

text \<open>
  Anti-rollback bookkeeping of persisted states (\<^verbatim>\<open>api/mod.rs\<close>): the counter tracker and the slot that keeps
  the tracker and the last sealed blob in one record, with their serialised forms.
\<close>

section \<open>The counter tracker\<close>

definition SEALED_STATE_COUNTER_TRACKER_VERSION :: nat where
  [simp]: "SEALED_STATE_COUNTER_TRACKER_VERSION = 1"

definition SEALED_STATE_SLOT_VERSION :: nat where
  [simp]: "SEALED_STATE_SLOT_VERSION = 1"

record sealed_state_counter_tracker =
  tr_max_restored_counter :: nat
  tr_latest_issued_counter :: nat

definition TRACKER_SERIALIZED_LEN :: nat where
  [simp]: "TRACKER_SERIALIZED_LEN = 4 + 8 * 2"

definition tracker_new :: sealed_state_counter_tracker where
  "tracker_new = \<lparr> tr_max_restored_counter = 0, tr_latest_issued_counter = 0 \<rparr>"

definition min_import_counter :: "sealed_state_counter_tracker \<Rightarrow> nat" where
  "min_import_counter t =
     (if tr_latest_issued_counter t > tr_max_restored_counter t then tr_latest_issued_counter t
      else tr_max_restored_counter t)"

definition next_export_counter :: "sealed_state_counter_tracker \<Rightarrow> nat pres" where
  "next_export_counter t =
     ok_or (InvalidState ''sealed-state counter overflow'') (checked_add_u64 (tr_latest_issued_counter t) 1)"

definition tracker_note_export :: "sealed_state_counter_tracker \<Rightarrow> nat \<Rightarrow> unit pres \<times> sealed_state_counter_tracker" where
  "tracker_note_export t counter =
     (if counter = 0 then (Err (InvalidInput ''sealed-state counter must be > 0''), t)
      else if counter \<le> tr_latest_issued_counter t then
        (Err (InvalidState ''sealed-state export counter regression: {counter} <= latest issued {}''), t)
      else if counter < tr_max_restored_counter t then
        (Err (InvalidState ''sealed-state export counter {counter} is below restored watermark {}''), t)
      else (Ok (), t\<lparr> tr_latest_issued_counter := counter \<rparr>))"

definition tracker_note_restore :: "sealed_state_counter_tracker \<Rightarrow> nat \<Rightarrow> unit pres \<times> sealed_state_counter_tracker" where
  "tracker_note_restore t counter =
     (if counter = 0 then (Err (InvalidInput ''sealed-state counter must be > 0''), t)
      else if counter < tr_max_restored_counter t then
        (Err (ReplayAttack ''sealed-state counter {counter} is below restored watermark {}''), t)
      else
        let t1 = (if counter > tr_max_restored_counter t then t\<lparr> tr_max_restored_counter := counter \<rparr> else t)
        in (Ok (), if tr_latest_issued_counter t1 < counter then t1\<lparr> tr_latest_issued_counter := counter \<rparr> else t1))"

definition tracker_serialize :: "sealed_state_counter_tracker \<Rightarrow> bytes" where
  "tracker_serialize t =
     le_bytes 4 SEALED_STATE_COUNTER_TRACKER_VERSION @ le_bytes 8 (tr_max_restored_counter t) @ le_bytes 8 (tr_latest_issued_counter t)"

definition tracker_deserialize :: "bytes \<Rightarrow> sealed_state_counter_tracker pres" where
  "tracker_deserialize data =
     (if length data \<noteq> TRACKER_SERIALIZED_LEN then
        Err (Decode ''sealed-state counter tracker must be {} bytes, got {}'')
      else if le_value (take 4 data) \<noteq> SEALED_STATE_COUNTER_TRACKER_VERSION then
        Err (InvalidInput ''unsupported sealed-state counter tracker version {version}'')
      else
        let max_restored_counter = le_value (take 8 (drop 4 data));
            latest_issued_counter = le_value (take 8 (drop 12 data))
        in if latest_issued_counter < max_restored_counter then
             Err (InvalidState ''sealed-state tracker invariant violated: latest issued {latest_issued_counter} < restored watermark {max_restored_counter}'')
           else Ok \<lparr> tr_max_restored_counter = max_restored_counter, tr_latest_issued_counter = latest_issued_counter \<rparr>)"

section \<open>The slot\<close>

record sealed_state_slot =
  sl_tracker :: sealed_state_counter_tracker
  sl_sealed_state :: bytes

definition SLOT_HEADER_LEN :: nat where
  [simp]: "SLOT_HEADER_LEN = 4 + TRACKER_SERIALIZED_LEN"

definition slot_new :: sealed_state_slot where
  "slot_new = \<lparr> sl_tracker = tracker_new, sl_sealed_state = [] \<rparr>"

definition slot_note_export :: "sealed_state_slot \<Rightarrow> nat \<Rightarrow> bytes \<Rightarrow> unit pres \<times> sealed_state_slot" where
  "slot_note_export s counter sealed_state =
     (if length sealed_state > MAX_BUFFER_SIZE then (Err (InvalidInput ''sealed-state slot payload too large''), s)
      else case tracker_note_export (sl_tracker s) counter of
        (Err e, t) \<Rightarrow> (Err e, s\<lparr> sl_tracker := t \<rparr>)
      | (Ok _, t) \<Rightarrow> (Ok (), s\<lparr> sl_tracker := t, sl_sealed_state := sealed_state \<rparr>))"

definition slot_note_restore :: "sealed_state_slot \<Rightarrow> nat \<Rightarrow> unit pres \<times> sealed_state_slot" where
  "slot_note_restore s counter =
     (case tracker_note_restore (sl_tracker s) counter of (r, t) \<Rightarrow> (r, s\<lparr> sl_tracker := t \<rparr>))"

definition slot_serialize :: "sealed_state_slot \<Rightarrow> bytes pres" where
  "slot_serialize s =
     (if length (sl_sealed_state s) > MAX_BUFFER_SIZE then Err (InvalidInput ''sealed-state slot payload too large'')
      else if length (sl_sealed_state s) > u32_max then Err (InvalidInput ''sealed-state slot payload too large'')
      else Ok (le_bytes 4 SEALED_STATE_SLOT_VERSION @ tracker_serialize (sl_tracker s)
               @ le_bytes 4 (length (sl_sealed_state s)) @ sl_sealed_state s))"

definition slot_deserialize :: "bytes \<Rightarrow> sealed_state_slot pres" where
  "slot_deserialize data =
     (if length data < SLOT_HEADER_LEN + 4 then Err (Decode ''sealed-state slot must be at least {min_len} bytes, got {}'')
      else if le_value (take 4 data) \<noteq> SEALED_STATE_SLOT_VERSION then
        Err (InvalidInput ''unsupported sealed-state slot version {version}'')
      else
        res_bind (tracker_deserialize (take TRACKER_SERIALIZED_LEN (drop 4 data))) (\<lambda>tracker.
          let sealed_len = le_value (take 4 (drop 24 data))
          in if sealed_len > MAX_BUFFER_SIZE then Err (InvalidInput ''sealed-state slot payload too large'')
             else if length data \<noteq> 28 + sealed_len then
               Err (Decode ''sealed-state slot length mismatch: declared {sealed_len} payload bytes, got {} total bytes'')
             else Ok \<lparr> sl_tracker = tracker, sl_sealed_state = drop 28 data \<rparr>))"

section \<open>Trackers that occur\<close>

definition tracker_ok :: "sealed_state_counter_tracker \<Rightarrow> bool" where
  "tracker_ok t \<longleftrightarrow> tr_max_restored_counter t \<le> tr_latest_issued_counter t \<and> tr_latest_issued_counter t \<le> u64_max"

definition slot_ok :: "sealed_state_slot \<Rightarrow> bool" where
  "slot_ok s \<longleftrightarrow> tracker_ok (sl_tracker s) \<and> length (sl_sealed_state s) \<le> MAX_BUFFER_SIZE"

lemma tracker_new_ok: "tracker_ok tracker_new"
  by (simp add: tracker_ok_def tracker_new_def)

lemma slot_new_ok: "slot_ok slot_new"
  by (simp add: slot_ok_def slot_new_def tracker_new_ok)

text \<open>The floor for a restore is the last counter that was issued.\<close>

lemma min_import_counter_ok: "tracker_ok t \<Longrightarrow> min_import_counter t = tr_latest_issued_counter t"
  by (auto simp: tracker_ok_def min_import_counter_def)

lemma tracker_note_export_ok:
  assumes "tracker_note_export t c = (r, t')" "tracker_ok t" "c \<le> u64_max"
  shows "tracker_ok t' \<and> min_import_counter t \<le> min_import_counter t' \<and> (r = Ok () \<longrightarrow> min_import_counter t' = c) \<and> (r \<noteq> Ok () \<longrightarrow> t' = t)"
  using assms by (auto simp: tracker_note_export_def tracker_ok_def min_import_counter_def split: if_splits)

lemma tracker_note_restore_ok:
  assumes "tracker_note_restore t c = (r, t')" "tracker_ok t" "c \<le> u64_max"
  shows "tracker_ok t' \<and> min_import_counter t \<le> min_import_counter t' \<and> (r = Ok () \<longrightarrow> c \<le> min_import_counter t') \<and> (r \<noteq> Ok () \<longrightarrow> t' = t)"
  using assms by (auto simp: tracker_note_restore_def tracker_ok_def min_import_counter_def Let_def split: if_splits)

lemma tracker_roundtrip: "tracker_ok t \<Longrightarrow> tracker_deserialize (tracker_serialize t) = Ok t"
  by (simp add: tracker_ok_def tracker_serialize_def tracker_deserialize_def le_value_le_bytes)

lemma slot_roundtrip:
  "slot_ok s \<Longrightarrow> \<exists>b. slot_serialize s = Ok b \<and> slot_deserialize b = Ok s"
  using tracker_roundtrip [of "sl_tracker s"]
  by (simp add: slot_ok_def slot_serialize_def slot_deserialize_def tracker_serialize_def le_value_le_bytes)

end
