(* ===== verification/Api.thy ===== *)
theory Api
  imports Handshake Session_Seal Sealed_Slot
begin

text \<open>
  The facade for two-party sessions (\<^verbatim>\<open>api/mod.rs\<close>): identities and their pre-key bundles, opening a session
  from either side, messages as bytes, and saving a session under a counter tracker or into a slot.
\<close>

section \<open>Sessions\<close>

record envelope_codec =
  encode_envelope :: "secure_envelope \<Rightarrow> bytes option"
  decode_envelope :: "bytes \<Rightarrow> secure_envelope option"

record session_identity =
  sid_ed25519_public :: bytes
  sid_x25519_public :: bytes

definition aura_encrypt ::
    "prims \<Rightarrow> codec \<Rightarrow> envelope_codec \<Rightarrow> session_inner \<Rightarrow> bytes \<Rightarrow> int \<Rightarrow> nat \<Rightarrow> string option \<Rightarrow> send_draws \<Rightarrow> clock
      \<Rightarrow> bytes pres \<times> session_inner" where
  "aura_encrypt P C E inner plaintext envelope_type eid correlation_id d clk =
     (case encrypt P C inner plaintext envelope_type eid correlation_id d clk of
        (Err e, inner1) \<Rightarrow> (Err e, inner1)
      | (Ok envelope, inner1) \<Rightarrow> (ok_or (Encode ''Failed to encode SecureEnvelope: {e}'') (encode_envelope E envelope), inner1))"

definition aura_decrypt ::
    "prims \<Rightarrow> codec \<Rightarrow> envelope_codec \<Rightarrow> session_inner \<Rightarrow> bytes \<Rightarrow> clock \<Rightarrow> (bytes \<times> bytes) pres \<times> session_inner" where
  "aura_decrypt P C E inner envelope_bytes clk =
     (if length envelope_bytes > MAX_ENVELOPE_MESSAGE_SIZE then (Err (InvalidInput ''SecureEnvelope too large''), inner)
      else case decode_envelope E envelope_bytes of
        None \<Rightarrow> (Err (Decode ''Failed to decode SecureEnvelope: {e}''), inner)
      | Some envelope \<Rightarrow>
          (case decrypt P C inner envelope clk of
             (Err e, inner1) \<Rightarrow> (Err e, inner1)
           | (Ok result, inner1) \<Rightarrow>
               (res_bind (ok_or (Encode ''Failed to encode metadata: {e}'') (encode_metadata C (dr_metadata result))) (\<lambda>meta_buf.
                  Ok (dr_plaintext result, meta_buf)), inner1)))"

definition peer_identity :: "session_inner \<Rightarrow> session_identity" where
  "peer_identity inner =
     \<lparr> sid_ed25519_public = ps_peer_identity_ed25519_public (si_state inner),
       sid_x25519_public = ps_peer_identity_x25519_public (si_state inner) \<rparr>"

definition local_identity :: "session_inner \<Rightarrow> session_identity" where
  "local_identity inner =
     \<lparr> sid_ed25519_public = ps_local_identity_ed25519_public (si_state inner),
       sid_x25519_public = ps_local_identity_x25519_public (si_state inner) \<rparr>"

section \<open>Saving and restoring\<close>

definition static_state_key_provider :: "bytes \<Rightarrow> bytes pres" where
  "static_state_key_provider key =
     (if length key \<noteq> 32 then Err (InvalidInput ''State key must be 32 bytes'') else Ok key)"

definition get_state_encryption_key :: "prims \<Rightarrow> bytes \<Rightarrow> handle pres" where
  "get_state_encryption_key P key = map_err CryptoErr (new_handle P 32 key)"

record seal_draws =
  sld_dek :: bytes
  sld_dek_nonce :: bytes
  sld_state_nonce :: bytes

definition aura_serialize :: "prims \<Rightarrow> codec \<Rightarrow> session_inner \<Rightarrow> bytes \<Rightarrow> nat \<Rightarrow> seal_draws \<Rightarrow> bytes pres \<times> session_inner" where
  "aura_serialize P C inner key external_counter d =
     (case static_state_key_provider key of
        Err e \<Rightarrow> (Err e, inner)
      | Ok provider \<Rightarrow>
          export_sealed_state P C inner (get_state_encryption_key P provider) external_counter
            (sld_dek d) (sld_dek_nonce d) (sld_state_nonce d))"

definition serialize_with_counter_tracker ::
    "prims \<Rightarrow> codec \<Rightarrow> session_inner \<Rightarrow> bytes \<Rightarrow> sealed_state_counter_tracker \<Rightarrow> seal_draws
      \<Rightarrow> bytes pres \<times> session_inner \<times> sealed_state_counter_tracker" where
  "serialize_with_counter_tracker P C inner key tracker d =
     (case next_export_counter tracker of
        Err e \<Rightarrow> (Err e, inner, tracker)
      | Ok counter \<Rightarrow>
          (case aura_serialize P C inner key counter d of
             (Err e, inner1) \<Rightarrow> (Err e, inner1, tracker)
           | (Ok sealed, inner1) \<Rightarrow>
               (case tracker_note_export tracker counter of
                  (Err e, tracker1) \<Rightarrow> (Err e, inner1, tracker1)
                | (Ok _, tracker1) \<Rightarrow> (Ok sealed, inner1, tracker1))))"

definition export_to_slot ::
    "prims \<Rightarrow> codec \<Rightarrow> session_inner \<Rightarrow> bytes \<Rightarrow> sealed_state_slot \<Rightarrow> seal_draws
      \<Rightarrow> unit pres \<times> session_inner \<times> sealed_state_slot" where
  "export_to_slot P C inner key slot d =
     (case next_export_counter (sl_tracker slot) of
        Err e \<Rightarrow> (Err e, inner, slot)
      | Ok counter \<Rightarrow>
          (case aura_serialize P C inner key counter d of
             (Err e, inner1) \<Rightarrow> (Err e, inner1, slot)
           | (Ok sealed, inner1) \<Rightarrow>
               (case slot_note_export slot counter sealed of (r, slot1) \<Rightarrow> (r, inner1, slot1))))"

definition aura_deserialize :: "prims \<Rightarrow> codec \<Rightarrow> bytes \<Rightarrow> bytes \<Rightarrow> nat \<Rightarrow> (session_inner \<times> nat) pres" where
  "aura_deserialize P C data key min_external_counter =
     res_bind (sealed_state_external_counter C data) (\<lambda>external_counter.
     res_bind (static_state_key_provider key) (\<lambda>provider.
     res_bind (from_sealed_state P C data (get_state_encryption_key P provider) min_external_counter) (\<lambda>session.
       Ok (session, external_counter))))"

definition deserialize_with_counter_tracker ::
    "prims \<Rightarrow> codec \<Rightarrow> bytes \<Rightarrow> bytes \<Rightarrow> sealed_state_counter_tracker \<Rightarrow> session_inner pres \<times> sealed_state_counter_tracker" where
  "deserialize_with_counter_tracker P C data key tracker =
     (case aura_deserialize P C data key (min_import_counter tracker) of
        Err e \<Rightarrow> (Err e, tracker)
      | Ok (session, external_counter) \<Rightarrow>
          (case tracker_note_restore tracker external_counter of
             (Err e, tracker1) \<Rightarrow> (Err e, tracker1)
           | (Ok _, tracker1) \<Rightarrow> (Ok session, tracker1)))"

definition restore_from_slot :: "prims \<Rightarrow> codec \<Rightarrow> sealed_state_slot \<Rightarrow> bytes \<Rightarrow> session_inner pres \<times> sealed_state_slot" where
  "restore_from_slot P C slot key =
     (if sl_sealed_state slot = [] then (Err (InvalidInput ''sealed-state slot is empty''), slot)
      else case aura_deserialize P C (sl_sealed_state slot) key (min_import_counter (sl_tracker slot)) of
        Err e \<Rightarrow> (Err e, slot)
      | Ok (session, external_counter) \<Rightarrow>
          (case slot_note_restore slot external_counter of
             (Err e, slot1) \<Rightarrow> (Err e, slot1)
           | (Ok _, slot1) \<Rightarrow> (Ok session, slot1)))"

section \<open>Identities\<close>

record aura_protocol =
  ap_identity :: identity_keys
  ap_max_messages :: nat

definition aura_protocol_new :: "prims \<Rightarrow> nat \<Rightarrow> identity_draws \<Rightarrow> aura_protocol pres" where
  "aura_protocol_new P opk_count d =
     res_bind (identity_create P opk_count d) (\<lambda>identity.
       Ok \<lparr> ap_identity = identity, ap_max_messages = DEFAULT_MESSAGES_PER_CHAIN mod 2 ^ 32 \<rparr>)"

definition aura_protocol_from_seed :: "prims \<Rightarrow> bytes \<Rightarrow> bytes \<Rightarrow> nat \<Rightarrow> aura_protocol pres" where
  "aura_protocol_from_seed P seed membership_id opk_count =
     res_bind (create_from_master_key P seed membership_id opk_count) (\<lambda>identity.
       Ok \<lparr> ap_identity = identity, ap_max_messages = DEFAULT_MESSAGES_PER_CHAIN mod 2 ^ 32 \<rparr>)"

text \<open>The message of a bundle, and its bytes.\<close>

definition proto_bundle :: "local_public_key_bundle \<Rightarrow> pre_key_bundle" where
  "proto_bundle bundle =
     \<lparr> pkb_version = PROTOCOL_VERSION, pkb_identity_ed25519_public = lpb_identity_ed25519_public bundle,
       pkb_identity_x25519_public = lpb_identity_x25519_public bundle, pkb_signed_pre_key_id = lpb_signed_pre_key_id bundle,
       pkb_signed_pre_key_public = lpb_signed_pre_key_public bundle,
       pkb_signed_pre_key_signature = lpb_signed_pre_key_signature bundle,
       pkb_one_time_pre_keys = map (\<lambda>opk. \<lparr> otp_one_time_pre_key_id = opp_id opk, otp_public_key = opp_public_key opk \<rparr>)
         (lpb_one_time_pre_keys bundle),
       pkb_kyber_public = (case lpb_kyber_public bundle of None \<Rightarrow> [] | Some k \<Rightarrow> k),
       pkb_identity_x25519_signature = lpb_identity_x25519_signature bundle \<rparr>"

definition pre_key_bundle_bytes :: "handshake_codec \<Rightarrow> aura_protocol \<Rightarrow> bytes pres" where
  "pre_key_bundle_bytes H ap =
     ok_or (Encode ''Failed to encode PreKeyBundle: {e}'') (encode_bundle H (proto_bundle (create_public_bundle (ap_identity ap))))"

definition begin_session ::
    "prims \<Rightarrow> handshake_codec \<Rightarrow> aura_protocol \<Rightarrow> bytes \<Rightarrow> init_draws \<Rightarrow> nat pres
      \<Rightarrow> (handshake_initiator \<times> bytes) pres \<times> aura_protocol" where
  "begin_session P H ap peer_bundle_bytes d now =
     (if length peer_bundle_bytes > MAX_HANDSHAKE_MESSAGE_SIZE then (Err (InvalidInput ''PreKeyBundle too large''), ap)
      else case decode_bundle H peer_bundle_bytes of
        None \<Rightarrow> (Err (Decode ''Failed to decode peer PreKeyBundle: {e}''), ap)
      | Some peer_bundle \<Rightarrow>
          (case initiator_start P H (ap_identity ap) peer_bundle (ap_max_messages ap) d now of
             (Err e, K) \<Rightarrow> (Err e, ap\<lparr> ap_identity := K \<rparr>)
           | (Ok initiator, K) \<Rightarrow> (Ok (initiator, hin_init_bytes initiator), ap\<lparr> ap_identity := K \<rparr>)))"

definition accept_session_for_bundle ::
    "prims \<Rightarrow> handshake_codec \<Rightarrow> 'g replay_guard option \<Rightarrow> bytes \<Rightarrow> bytes \<Rightarrow> bytes \<Rightarrow> nat pres \<Rightarrow> aura_protocol \<times> 'g
      \<Rightarrow> (handshake_responder \<times> bytes) pres \<times> aura_protocol \<times> 'g" where
  "accept_session_for_bundle P H guard init_bytes local_bundle_bytes nonce_prefix now = (\<lambda>(ap, g).
     (if length local_bundle_bytes > MAX_HANDSHAKE_MESSAGE_SIZE then (Err (InvalidInput ''PreKeyBundle too large''), ap, g)
      else case decode_bundle H local_bundle_bytes of
        None \<Rightarrow> (Err (Decode ''Failed to decode local PreKeyBundle: {e}''), ap, g)
      | Some local_bundle \<Rightarrow>
          (case responder_process P H guard local_bundle init_bytes (ap_max_messages ap) nonce_prefix now (ap_identity ap, g) of
             (Err e, K, g1) \<Rightarrow> (Err e, ap\<lparr> ap_identity := K \<rparr>, g1)
           | (Ok responder, K, g1) \<Rightarrow> (Ok (responder, hre_ack_bytes responder), ap\<lparr> ap_identity := K \<rparr>, g1))))"

definition accept_session ::
    "prims \<Rightarrow> handshake_codec \<Rightarrow> 'g replay_guard option \<Rightarrow> bytes \<Rightarrow> bytes \<Rightarrow> nat pres \<Rightarrow> aura_protocol \<times> 'g
      \<Rightarrow> (handshake_responder \<times> bytes) pres \<times> aura_protocol \<times> 'g" where
  "accept_session P H guard init_bytes nonce_prefix now = (\<lambda>(ap, g).
     (case pre_key_bundle_bytes H ap of
        Err e \<Rightarrow> (Err e, ap, g)
      | Ok local_bundle_bytes \<Rightarrow> accept_session_for_bundle P H guard init_bytes local_bundle_bytes nonce_prefix now (ap, g)))"

section \<open>Stateless helpers\<close>

definition validate_envelope :: "envelope_codec \<Rightarrow> bytes \<Rightarrow> unit pres" where
  "validate_envelope E envelope_bytes =
     (if length envelope_bytes > MAX_ENVELOPE_MESSAGE_SIZE then Err (InvalidInput ''Message too large'')
      else res_bind (ok_or (Decode ''Failed to parse envelope: {e}'') (decode_envelope E envelope_bytes)) (\<lambda>envelope.
        if se_version envelope \<noteq> PROTOCOL_VERSION then Err (InvalidInput ''Invalid envelope version'')
        else if length (se_encrypted_metadata envelope) \<le> AES_GCM_TAG_BYTES then Err (InvalidInput ''Encrypted metadata too small'')
        else if length (se_encrypted_payload envelope) < AES_GCM_TAG_BYTES then Err (InvalidInput ''Encrypted payload too small'')
        else if length (se_header_nonce envelope) \<noteq> AES_GCM_NONCE_BYTES then Err (InvalidInput ''Invalid header nonce size'')
        else if list_all (\<lambda>b. b = 0) (se_header_nonce envelope) then Err (InvalidInput ''Header nonce must not be all zeros'')
        else Ok ()))"

definition derive_root_key :: "prims \<Rightarrow> bytes \<Rightarrow> bytes \<Rightarrow> nat \<Rightarrow> bytes pres" where
  "derive_root_key P opaque_session_key user_context output_length =
     (if length opaque_session_key \<noteq> OPAQUE_SESSION_KEY_BYTES then Err (InvalidInput ''OPAQUE session key must be 32 bytes'')
      else if user_context = [] \<or> length user_context > MAX_BUFFER_SIZE then Err (InvalidInput ''OPAQUE user context length invalid'')
      else if output_length = 0 \<or> output_length > 64 then Err (InvalidInput ''OPAQUE output length must be in the range 1..=64'')
      else derive_key_bytes P opaque_session_key output_length user_context OPAQUE_ROOT_INFO)"

end
