(* ===== verification/Handshake_Agreement.thy ===== *)
theory Handshake_Agreement
  imports Api Session_Conversation
begin

text \<open>
  Both sides of a handshake end with sessions that belong together: the initiator accepts a bundle of a
  well-formed identity, the responder accepts the message, the key confirmations match, and the two
  sessions are \<open>paired\<close>.
\<close>

section \<open>Well-formed identities\<close>

definition opk_ok :: "prims \<Rightarrow> one_time_pre_key \<Rightarrow> bool" where
  "opk_ok P opk \<longleftrightarrow> length (opk_private_key opk) = 32 \<and> opk_public_key opk = x25519_public P (opk_private_key opk) \<and>
     opk_id opk \<le> u32_max"

definition identity_ok :: "prims \<Rightarrow> identity_keys \<Rightarrow> bool" where
  "identity_ok P K \<longleftrightarrow>
     (\<exists>seed. sig_keygen P seed = (ik_identity_ed25519_secret_key K, ik_identity_ed25519_public K)) \<and>
     \<not> is_all_zero (ik_identity_ed25519_public K) \<and>
     length (ik_identity_x25519_secret_key K) = 32 \<and>
     ik_identity_x25519_public K = x25519_public P (ik_identity_x25519_secret_key K) \<and>
     ik_identity_x25519_signature K = sig_sign P (ik_identity_ed25519_secret_key K) (ik_identity_x25519_public K) \<and>
     length (ik_signed_pre_key_secret_key K) = 32 \<and>
     ik_signed_pre_key_public K = x25519_public P (ik_signed_pre_key_secret_key K) \<and>
     ik_signed_pre_key_signature K = sig_sign P (ik_identity_ed25519_secret_key K) (ik_signed_pre_key_public K) \<and>
     ik_signed_pre_key_id K \<le> u32_max \<and>
     (\<exists>seed. mlkem_keygen P seed = (ik_kyber_secret_key K, ik_kyber_public K)) \<and>
     \<not> list_all (\<lambda>b. b = 0) (ik_kyber_public K) \<and>
     list_all (opk_ok P) (ik_one_time_pre_keys K) \<and> distinct (map opk_id (ik_one_time_pre_keys K))"

definition handshake_crypto_ok :: "prims \<Rightarrow> bool" where
  "handshake_crypto_ok P \<longleftrightarrow> session_crypto_ok P \<and> hash_ok P \<and> sig_ok P"

lemma sig_okD:
  assumes "sig_ok P" "sig_keygen P seed = (sk, pk)"
  shows "length sk = 64" "length pk = 32" "sig_keypair_ok P sk" "sig_pk_ok P pk" "length (sig_sign P sk m) = 64"
    "sig_verify P pk (sig_sign P sk m) m"
  using assms(1) [unfolded sig_ok_def, rule_format, of m seed] assms(2) by simp_all

lemma x25519_public_ok:
  assumes "session_crypto_ok P" "length s = 32"
  shows "length (x25519_public P s) = 32" "validate_x25519_public_key (x25519_public P s) = Ok ()"
  using session_crypto_okD(3) [OF assms(1), unfolded dh_ok_def, rule_format, of s s]
    session_crypto_okD(5) [OF assms(1), unfolded x25519_keys_ok_def, rule_format, of s] assms(2) by simp_all

lemma handshake_dh_ok:
  assumes "session_crypto_ok P" "length a = 32" "length b = 32"
  shows "handshake_dh P a (x25519_public P b) = Ok (x25519_dh P a (x25519_public P b))"
    "handshake_dh P b (x25519_public P a) = Ok (x25519_dh P a (x25519_public P b))"
  using session_crypto_okD(3) [OF assms(1), unfolded dh_ok_def, rule_format, of a b]
    session_crypto_okD(3) [OF assms(1), unfolded dh_ok_def, rule_format, of b a] assms(2,3)
  by (simp_all add: handshake_dh_def Let_def)

lemma verify_own_signature:
  assumes "sig_ok P" "sig_keygen P seed = (sk, pk)"
  shows "ed25519_key_pair_verify P pk m (sig_sign P sk m) = Ok ()"
  using sig_okD [OF assms] by (simp add: ed25519_key_pair_verify_def)

lemma validate_bundle_opks_ok:
  assumes "session_crypto_ok P" "list_all (opk_ok P) opks"
  shows "validate_bundle_opks (map (\<lambda>opk. \<lparr> otp_one_time_pre_key_id = opk_id opk, otp_public_key = opk_public_key opk \<rparr>) opks) = Ok ()"
  using assms(2) by (induction opks) (simp_all add: opk_ok_def x25519_public_ok [OF assms(1)])

lemma kyber_public_valid:
  assumes "kem_ok P" "mlkem_keygen P seed = (dk, ek)" "\<not> list_all (\<lambda>b. b = 0) ek"
  shows "kyber_validate_public_key P ek = Ok ()"
  using kem_ok_keygen [OF assms(1,2)] assms(3) by (simp add: kyber_validate_public_key_def)

text \<open>The bundle of a well-formed identity passes the checks of a peer.\<close>

lemma validate_bundle_ok:
  assumes "handshake_crypto_ok P" "identity_ok P K" "length (ik_one_time_pre_keys K) \<le> 4096"
  shows "validate_bundle P (proto_bundle (create_public_bundle K)) = Ok ()"
proof -
  have c: "session_crypto_ok P" "sig_ok P" using assms(1) by (simp_all add: handshake_crypto_ok_def)
  from assms(2) obtain es ks where e: "sig_keygen P es = (ik_identity_ed25519_secret_key K, ik_identity_ed25519_public K)"
    and k: "mlkem_keygen P ks = (ik_kyber_secret_key K, ik_kyber_public K)" by (auto simp: identity_ok_def)
  have i: "length (ik_identity_x25519_secret_key K) = 32" "length (ik_signed_pre_key_secret_key K) = 32"
    "\<not> list_all (\<lambda>b. b = 0) (ik_kyber_public K)" "list_all (opk_ok P) (ik_one_time_pre_keys K)"
    and s: "ik_identity_x25519_public K = x25519_public P (ik_identity_x25519_secret_key K)"
    "ik_identity_x25519_signature K = sig_sign P (ik_identity_ed25519_secret_key K) (ik_identity_x25519_public K)"
    "ik_signed_pre_key_public K = x25519_public P (ik_signed_pre_key_secret_key K)"
    "ik_signed_pre_key_signature K = sig_sign P (ik_identity_ed25519_secret_key K) (ik_signed_pre_key_public K)"
    using assms(2) by (simp_all add: identity_ok_def)
  note kk = kem_ok_keygen [OF session_crypto_okD(4) [OF c(1)] k] kyber_public_valid [OF session_crypto_okD(4) [OF c(1)] k i(3)]
  show ?thesis
    using validate_bundle_opks_ok [OF c(1) i(4)] assms(3) kk sig_okD [OF c(2) e] verify_own_signature [OF c(2) e]
      x25519_public_ok [OF c(1) i(1)] x25519_public_ok [OF c(1) i(2)]
    by (simp add: validate_bundle_def proto_bundle_def create_public_bundle_def s verify_remote_identity_x25519_signature_def
        verify_remote_spk_signature_def o_def)
qed

section \<open>The key schedule\<close>

lemma schedule_ok:
  assumes "hkdf_ok P"
  shows "\<exists>k. handshake_key_schedule P cs ss ct a b = Ok k \<and> length (hk_root_key k) = 32 \<and> length (hk_session_id k) = 16 \<and>
    length (hk_metadata_key k) = 32 \<and> length (hk_kc_i k) = 32 \<and> length (hk_kc_r k) = 32"
proof -
  have d: "\<exists>k. derive_key_bytes P ikm n salt info = Ok k \<and> length k = n" if "0 < n" "n \<le> 8160" for ikm n salt info
    by (rule derive_key_bytes_ok [OF assms that]) blast
  obtain root where r: "derive_key_bytes P ss 32 cs HYBRID_X3DH_INFO = Ok root" "length root = 32" using d [of 32 ss cs HYBRID_X3DH_INFO] by auto
  obtain sid where s: "derive_key_bytes P root 16 ct SESSION_ID_INFO = Ok sid" "length sid = 16" using d [of 16 root ct SESSION_ID_INFO] by auto
  obtain md where m: "derive_key_bytes P root 32 (build_metadata_context a b sid) METADATA_KEY_INFO = Ok md" "length md = 32"
    using d [of 32 root "build_metadata_context a b sid" METADATA_KEY_INFO] by auto
  obtain ki where i: "derive_key_bytes P root 32 [] KEY_CONFIRM_INIT_INFO = Ok ki" "length ki = 32" using d [of 32 root "[]" KEY_CONFIRM_INIT_INFO] by auto
  obtain kr where k: "derive_key_bytes P root 32 [] KEY_CONFIRM_RESP_INFO = Ok kr" "length kr = 32" using d [of 32 root "[]" KEY_CONFIRM_RESP_INFO] by auto
  show ?thesis by (simp add: handshake_key_schedule_def r s m i k)
qed

lemma schedule_commute: "handshake_key_schedule P cs ss ct a b = handshake_key_schedule P cs ss ct b a"
  by (simp add: handshake_key_schedule_def build_metadata_context_def sorted_pair_commute [of a b])

lemma classical_ok: "hkdf_ok P \<Longrightarrow> \<exists>cs. classical_secret P d1 d2 d3 d4 = Ok cs"
  using derive_key_bytes_32 unfolding classical_secret_def by fastforce

lemma hmac_some: "hash_ok P \<Longrightarrow> \<exists>t. hmac_sha256 P k m = Some t \<and> length t = 32"
  by (simp add: hash_ok_def)

lemma hmac_total: "hash_ok P \<Longrightarrow> length k = 32 \<Longrightarrow> \<exists>t. compute_hmac_sha256 P k m = Ok t \<and> length t = 32"
  using hmac_some [of P k m] by (auto simp: compute_hmac_sha256_def)

lemma transcript_ok: "hash_ok P \<Longrightarrow> handshake_codec_ok H \<Longrightarrow> \<exists>t. build_transcript_hash P H b m = Ok t"
proof -
  assume a: "hash_ok P" "handshake_codec_ok H"
  from a(2) obtain bb where b: "encode_bundle H b = Some bb" unfolding handshake_codec_ok_def by blast
  from a(2) obtain mb where m: "encode_init H (m\<lparr> hi_key_confirmation_mac := [] \<rparr>) = Some mb" unfolding handshake_codec_ok_def by blast
  show ?thesis
    using hmac_some [OF a(1), of TRANSCRIPT_LABEL "le_bytes 4 (length bb) @ bb @ le_bytes 4 (length mb) @ mb"]
    by (auto simp: build_transcript_hash_def encode_handshake_init_canonical_def b m Let_def)
qed

text \<open>The transcript does not depend on the confirmation of the message.\<close>

lemma transcript_mac [simp]:
  "build_transcript_hash P H b (m\<lparr> hi_key_confirmation_mac := x \<rparr>) = build_transcript_hash P H b m"
  by (simp add: build_transcript_hash_def)

section \<open>One side at a time\<close>

lemma initiate_eq:
  assumes "ik_ephemeral_x25519_public K = Some eph" "length eph = 32"
    and "get_ephemeral_x25519_private_key_copy K = Ok e" "get_identity_x25519_private_key_copy K = Ok x"
    and "choose_opk b (ind_opk_index d) = Ok (oid, opk)"
    and "handshake_dh P x (pkb_signed_pre_key_public b) = Ok da" "handshake_dh P e (pkb_identity_x25519_public b) = Ok db"
    and "handshake_dh P e (pkb_signed_pre_key_public b) = Ok dc"
    and "(if oid \<noteq> None then handshake_dh P e opk else Ok []) = Ok dd"
    and "classical_secret P da db dc dd = Ok cs" "kyber_encapsulate P (pkb_kyber_public b) (ind_encaps d) = Ok (ct, ss)"
    and "length ss = 32" "handshake_key_schedule P cs ss ct eph (pkb_signed_pre_key_public b) = Ok k"
    and "length (ik_kyber_public K) = 1184" "get_identity_ed25519_private_key_copy K = Ok sk"
    and "sign_init_identity_binding P sk (ik_identity_ed25519_public K) (ik_identity_x25519_public K) (ik_kyber_public K) = Ok sig"
    and "m = \<lparr> hi_version = PROTOCOL_VERSION, hi_initiator_identity_ed25519_public = ik_identity_ed25519_public K,
      hi_initiator_identity_x25519_public = ik_identity_x25519_public K, hi_initiator_ephemeral_x25519_public = eph,
      hi_one_time_pre_key_id = oid, hi_kyber_ciphertext = ct, hi_key_confirmation_mac = [],
      hi_initiator_kyber_public = ik_kyber_public K, hi_max_messages_per_chain = mm, hi_initiator_identity_binding_signature = sig \<rparr>"
    and "build_transcript_hash P H b m = Ok th" "compute_hmac_sha256 P (hk_kc_i k) th = Ok mac"
    and "encode_init H (m\<lparr> hi_key_confirmation_mac := mac \<rparr>) = Some ser" "length (ind_nonce_prefix d) = 8"
    and "clone_kyber_secret_key P K = Ok ks" "length ks = 64"
    and "build_protocol_state P True (hk_root_key k) (hk_session_id k) (hk_metadata_key k) e eph (pkb_signed_pre_key_public b) eph
      (pkb_signed_pre_key_public b) ks (ik_kyber_public K) (pkb_kyber_public b) mm MAX_NONCE_COUNTER
      \<lparr> ns_prefix = ind_nonce_prefix d, ns_counter = 0 \<rparr> t (ik_identity_ed25519_public K) (ik_identity_x25519_public K)
      (pkb_identity_ed25519_public b) (pkb_identity_x25519_public b) = Ok st"
    and "compute_hmac_sha256 P (hk_kc_r k) th = Ok ack"
  shows "initiate P H K b mm d (Ok t) = Ok \<lparr> hin_init_message = m\<lparr> hi_key_confirmation_mac := mac \<rparr>, hin_init_bytes = ser,
    hin_session_state = \<lparr> hs_state = st, hs_kyber_shared_secret = ss \<rparr>, hin_expected_ack_mac = ack \<rparr>"
proof -
  have n: "\<exists>g. nonce_create (ind_nonce_prefix d) = Ok g \<and> export_state g = \<lparr> ns_prefix = ind_nonce_prefix d, ns_counter = 0 \<rparr>"
    using assms(21) by (auto simp: nonce_create_def create_with_limit_def export_state_def)
  then obtain g where "nonce_create (ind_nonce_prefix d) = Ok g" "export_state g = \<lparr> ns_prefix = ind_nonce_prefix d, ns_counter = 0 \<rparr>"
    by blast
  with assms show ?thesis unfolding initiate_def by simp
qed

lemma respond_eq:
  assumes "validate_init_message P m = Ok ()" "pkb_identity_ed25519_public b \<noteq> hi_initiator_identity_ed25519_public m"
    and "hi_max_messages_per_chain m = mm"
    and "(case hi_one_time_pre_key_id m of None \<Rightarrow> Ok [] | Some i \<Rightarrow> get_one_time_pre_key_private_by_id K i) = Ok o'"
    and "get_signed_pre_key_private_copy K = Ok s" "get_identity_x25519_private_key_copy K = Ok x"
    and "handshake_dh P s (hi_initiator_identity_x25519_public m) = Ok da"
    and "handshake_dh P x (hi_initiator_ephemeral_x25519_public m) = Ok db"
    and "handshake_dh P s (hi_initiator_ephemeral_x25519_public m) = Ok dc"
    and "(if hi_one_time_pre_key_id m \<noteq> None then handshake_dh P o' (hi_initiator_ephemeral_x25519_public m) else Ok []) = Ok dd"
    and "classical_secret P da db dc dd = Ok cs"
    and "decapsulate_kyber_ciphertext P K (hi_kyber_ciphertext m) = Ok a" "hha_kyber_shared_secret a = ss"
    and "handshake_key_schedule P cs ss (hi_kyber_ciphertext m) (pkb_signed_pre_key_public b) (hi_initiator_ephemeral_x25519_public m) = Ok k"
    and "build_transcript_hash P H b m = Ok th" "compute_hmac_sha256 P (hk_kc_i k) th = Ok (hi_key_confirmation_mac m)"
    and "compute_hmac_sha256 P (hk_kc_r k) th = Ok ack"
    and "encode_ack H \<lparr> ha_version = PROTOCOL_VERSION, ha_key_confirmation_mac = ack \<rparr> = Some ser" "length np = 8"
    and "clone_kyber_secret_key P K = Ok ks" "length ks = 64" "length (ik_kyber_public K) = 1184"
    and "build_protocol_state P False (hk_root_key k) (hk_session_id k) (hk_metadata_key k) s (pkb_signed_pre_key_public b)
      (hi_initiator_ephemeral_x25519_public m) (pkb_signed_pre_key_public b) (hi_initiator_ephemeral_x25519_public m) ks
      (ik_kyber_public K) (hi_initiator_kyber_public m) mm MAX_NONCE_COUNTER \<lparr> ns_prefix = np, ns_counter = 0 \<rparr> t
      (pkb_identity_ed25519_public b) (pkb_identity_x25519_public b) (hi_initiator_identity_ed25519_public m)
      (hi_initiator_identity_x25519_public m) = Ok st"
  shows "respond P H K b m mm np (Ok t) = Ok \<lparr> hre_ack_message = \<lparr> ha_version = PROTOCOL_VERSION, ha_key_confirmation_mac = ack \<rparr>,
    hre_ack_bytes = ser, hre_session_state = \<lparr> hs_state = st, hs_kyber_shared_secret = ss \<rparr> \<rparr>"
proof -
  have n: "\<exists>g. nonce_create np = Ok g \<and> export_state g = \<lparr> ns_prefix = np, ns_counter = 0 \<rparr>"
    using assms(19) by (auto simp: nonce_create_def create_with_limit_def export_state_def)
  then obtain g where "nonce_create np = Ok g" "export_state g = \<lparr> ns_prefix = np, ns_counter = 0 \<rparr>" by blast
  with assms show ?thesis unfolding respond_def by simp
qed

text \<open>The pre-key the initiator picks is one of the responder's, which finds its private part.\<close>

lemma find_by_id:
  assumes "opk \<in> set opks" "distinct (map opk_id opks)"
  shows "find (\<lambda>x. opk_id x = opk_id opk) opks = Some opk"
  using assms by (induction opks) auto

lemma choose_opk_ok:
  assumes "session_crypto_ok P" "identity_ok P K"
  shows "\<exists>oid opub priv. choose_opk (proto_bundle (create_public_bundle K)) n = Ok (oid, opub) \<and>
    (case oid of None \<Rightarrow> Ok [] | Some i \<Rightarrow> get_one_time_pre_key_private_by_id K i) = Ok priv \<and>
    (case oid of None \<Rightarrow> True | Some i \<Rightarrow> i \<le> u32_max \<and> length priv = 32 \<and> opub = x25519_public P priv \<and> find_opk i K \<noteq> None)"
proof (cases "ik_one_time_pre_keys K = []")
  case True
  then show ?thesis by (simp add: choose_opk_def proto_bundle_def create_public_bundle_def)
next
  case False
  let ?i = "n mod length (ik_one_time_pre_keys K)"
  let ?o = "ik_one_time_pre_keys K ! ?i"
  have lt: "?i < length (ik_one_time_pre_keys K)" using False by simp
  then have mem: "?o \<in> set (ik_one_time_pre_keys K)" by simp
  with assms(2) have o: "length (opk_private_key ?o) = 32" "opk_public_key ?o = x25519_public P (opk_private_key ?o)" "opk_id ?o \<le> u32_max"
    by (auto simp: identity_ok_def opk_ok_def list_all_iff)
  have f: "find_opk (opk_id ?o) K = Some ?o" using find_by_id [OF mem] assms(2) by (simp add: identity_ok_def find_opk_def)
  have "choose_opk (proto_bundle (create_public_bundle K)) n = Ok (Some (opk_id ?o), opk_public_key ?o)"
    using False lt o x25519_public_ok [OF assms(1) o(1)] by (simp add: choose_opk_def proto_bundle_def create_public_bundle_def Let_def)
  moreover have "get_one_time_pre_key_private_by_id K (opk_id ?o) = Ok (opk_private_key ?o)"
    using f o by (simp add: get_one_time_pre_key_private_by_id_def)
  ultimately show ?thesis using o f by auto
qed

section \<open>Both sides\<close>

definition init_draws_ok :: "prims \<Rightarrow> init_draws \<Rightarrow> bool" where
  "init_draws_ok P d \<longleftrightarrow> length (ind_ephemeral d) = 32 \<and> length (ind_nonce_prefix d) = 8 \<and>
     (\<forall>seed. \<not> list_all (\<lambda>b. b = 0) (fst (mlkem_encaps P (snd (mlkem_keygen P seed)) (ind_encaps d))))"

lemma opk_dh_ok:
  assumes "session_crypto_ok P" "length e = 32" "case oid of None \<Rightarrow> True | Some i \<Rightarrow> length priv = 32 \<and> opub = x25519_public P priv"
  shows "\<exists>d4. (if oid \<noteq> None then handshake_dh P e opub else Ok []) = Ok d4 \<and>
    (if oid \<noteq> None then handshake_dh P priv (x25519_public P e) else Ok []) = Ok d4"
  using assms(3) handshake_dh_ok [OF assms(1,2), of priv] by (cases oid) auto

lemma kem_values:
  assumes "session_crypto_ok P" "identity_ok P B" "init_draws_ok P d"
  shows "\<exists>ct ss. kyber_encapsulate P (ik_kyber_public B) (ind_encaps d) = Ok (ct, ss) \<and> length ss = 32 \<and> length ct = 1088 \<and>
    \<not> list_all (\<lambda>b. b = 0) ct \<and> decapsulate_kyber_ciphertext P B ct = Ok \<lparr> hha_kyber_ciphertext = ct, hha_kyber_shared_secret = ss \<rparr>"
proof -
  from assms(2) obtain seed where k: "mlkem_keygen P seed = (ik_kyber_secret_key B, ik_kyber_public B)" by (auto simp: identity_ok_def)
  obtain ct ss where e: "mlkem_encaps P (ik_kyber_public B) (ind_encaps d) = (ct, ss)" by fastforce
  note v = kyber_encapsulate_ok [OF session_crypto_okD(4,6) [OF assms(1)] k e]
  have "\<not> list_all (\<lambda>b. b = 0) ct"
    using assms(3) [unfolded init_draws_ok_def, THEN conjunct2, THEN conjunct2, rule_format, of seed] k e by simp
  with v show ?thesis by (simp add: decapsulate_kyber_ciphertext_def kyber_validate_ciphertext_def)
qed

lemma identity_keys_read:
  assumes "handshake_crypto_ok P" "identity_ok P K"
  shows "get_identity_x25519_private_key_copy K = Ok (ik_identity_x25519_secret_key K)"
    "get_signed_pre_key_private_copy K = Ok (ik_signed_pre_key_secret_key K)"
    "get_identity_ed25519_private_key_copy K = Ok (ik_identity_ed25519_secret_key K)"
    "clone_kyber_secret_key P K = Ok (ik_kyber_secret_key K)" "length (ik_kyber_secret_key K) = 64" "length (ik_kyber_public K) = 1184"
    "sign_init_identity_binding P (ik_identity_ed25519_secret_key K) e x k
       = Ok (sig_sign P (ik_identity_ed25519_secret_key K) (build_init_identity_binding_message e x k))"
proof -
  have c: "session_crypto_ok P" "sig_ok P" using assms(1) by (simp_all add: handshake_crypto_ok_def)
  from assms(2) obtain es ks where e: "sig_keygen P es = (ik_identity_ed25519_secret_key K, ik_identity_ed25519_public K)"
    and k: "mlkem_keygen P ks = (ik_kyber_secret_key K, ik_kyber_public K)" by (auto simp: identity_ok_def)
  note l = kem_ok_keygen(1,2) [OF session_crypto_okD(4) [OF c(1)] k]
  show "get_identity_x25519_private_key_copy K = Ok (ik_identity_x25519_secret_key K)"
    "get_signed_pre_key_private_copy K = Ok (ik_signed_pre_key_secret_key K)"
    using assms(2) by (simp_all add: identity_ok_def get_identity_x25519_private_key_copy_def get_signed_pre_key_private_copy_def)
  show "get_identity_ed25519_private_key_copy K = Ok (ik_identity_ed25519_secret_key K)"
    "sign_init_identity_binding P (ik_identity_ed25519_secret_key K) e x k
       = Ok (sig_sign P (ik_identity_ed25519_secret_key K) (build_init_identity_binding_message e x k))"
    using sig_okD [OF c(2) e] by (simp_all add: get_identity_ed25519_private_key_copy_def sign_init_identity_binding_def)
  have "new_handle P 64 (ik_kyber_secret_key K) = Ok (ik_kyber_secret_key K)"
    using l session_crypto_okD(7) [OF c(1)] by (intro new_handle_exact) simp_all
  then show "clone_kyber_secret_key P K = Ok (ik_kyber_secret_key K)" using l by (simp add: clone_kyber_secret_key_def)
  show "length (ik_kyber_secret_key K) = 64" "length (ik_kyber_public K) = 1184" by (fact l)+
qed

lemma validate_init_ok:
  assumes "handshake_crypto_ok P" "identity_ok P A" "length e = 32" "length ct = 1088" "\<not> list_all (\<lambda>b. b = 0) ct" "length mac = 32"
    and "0 < mm" "mm \<le> 10000"
  shows "validate_init_message P \<lparr> hi_version = PROTOCOL_VERSION, hi_initiator_identity_ed25519_public = ik_identity_ed25519_public A,
      hi_initiator_identity_x25519_public = ik_identity_x25519_public A, hi_initiator_ephemeral_x25519_public = x25519_public P e,
      hi_one_time_pre_key_id = oid, hi_kyber_ciphertext = ct, hi_key_confirmation_mac = mac,
      hi_initiator_kyber_public = ik_kyber_public A, hi_max_messages_per_chain = mm,
      hi_initiator_identity_binding_signature = sig_sign P (ik_identity_ed25519_secret_key A)
        (build_init_identity_binding_message (ik_identity_ed25519_public A) (ik_identity_x25519_public A) (ik_kyber_public A)) \<rparr> = Ok ()"
proof -
  have c: "session_crypto_ok P" "sig_ok P" using assms(1) by (simp_all add: handshake_crypto_ok_def)
  from assms(2) obtain es ks where ed: "sig_keygen P es = (ik_identity_ed25519_secret_key A, ik_identity_ed25519_public A)"
    and k: "mlkem_keygen P ks = (ik_kyber_secret_key A, ik_kyber_public A)" by (auto simp: identity_ok_def)
  have a: "length (ik_identity_x25519_secret_key A) = 32" "ik_identity_x25519_public A = x25519_public P (ik_identity_x25519_secret_key A)"
    "\<not> list_all (\<lambda>b. b = 0) (ik_kyber_public A)" using assms(2) by (simp_all add: identity_ok_def)
  show ?thesis
    using assms(4-8) sig_okD [OF c(2) ed] verify_own_signature [OF c(2) ed] x25519_public_ok [OF c(1) assms(3)]
      x25519_public_ok [OF c(1) a(1)] kem_ok_keygen [OF session_crypto_okD(4) [OF c(1)] k]
      kyber_public_valid [OF session_crypto_okD(4) [OF c(1)] k a(3)]
    by (simp add: validate_init_message_def a(2) kyber_validate_ciphertext_def validate_max_messages_per_chain_def
        verify_init_identity_binding_def)
qed

text \<open>The parties as the session sees them.\<close>

definition initiator_party :: "identity_keys \<Rightarrow> init_draws \<Rightarrow> bytes \<Rightarrow> party" where
  "initiator_party K d seed = \<lparr> pt_dh = ind_ephemeral d, pt_kyber_seed = seed, pt_ed25519 = ik_identity_ed25519_public K,
     pt_x25519 = ik_identity_x25519_public K, pt_nonce_prefix = ind_nonce_prefix d \<rparr>"

definition responder_party :: "identity_keys \<Rightarrow> bytes \<Rightarrow> bytes \<Rightarrow> party" where
  "responder_party K prefix seed = \<lparr> pt_dh = ik_signed_pre_key_secret_key K, pt_kyber_seed = seed,
     pt_ed25519 = ik_identity_ed25519_public K, pt_x25519 = ik_identity_x25519_public K, pt_nonce_prefix = prefix \<rparr>"

lemma parties_ok:
  assumes "handshake_crypto_ok P" "identity_ok P K"
  shows "init_draws_ok P d \<Longrightarrow> party_ok (initiator_party K d seed)" "length np = 8 \<Longrightarrow> party_ok (responder_party K np seed)"
proof -
  have c: "session_crypto_ok P" "sig_ok P" using assms(1) by (simp_all add: handshake_crypto_ok_def)
  from assms(2) obtain es where ed: "sig_keygen P es = (ik_identity_ed25519_secret_key K, ik_identity_ed25519_public K)"
    by (auto simp: identity_ok_def)
  have k: "length (ik_identity_x25519_secret_key K) = 32" "ik_identity_x25519_public K = x25519_public P (ik_identity_x25519_secret_key K)"
    "\<not> is_all_zero (ik_identity_ed25519_public K)" "length (ik_signed_pre_key_secret_key K) = 32"
    using assms(2) by (simp_all add: identity_ok_def)
  show "init_draws_ok P d \<Longrightarrow> party_ok (initiator_party K d seed)" "length np = 8 \<Longrightarrow> party_ok (responder_party K np seed)"
    using sig_okD(2) [OF c(2) ed] x25519_public_ok(2) [OF c(1) k(1)] k
    by (simp_all add: party_ok_def initiator_party_def responder_party_def init_draws_ok_def)
qed

text \<open>The identity while the initiator's ephemeral key is there.\<close>

definition with_ephemeral :: "prims \<Rightarrow> identity_keys \<Rightarrow> bytes \<Rightarrow> identity_keys" where
  "with_ephemeral P K e = K\<lparr> ik_ephemeral_secret_key := Some e, ik_ephemeral_x25519_public := Some (x25519_public P e) \<rparr>"

lemma with_ephemeral_simps [simp]:
  "identity_ok P (with_ephemeral P K e) = identity_ok P K" "clear_ephemeral_key_pair (with_ephemeral P K e) = clear_ephemeral_key_pair K"
  "ik_ephemeral_x25519_public (with_ephemeral P K e) = Some (x25519_public P e)"
  "ik_identity_ed25519_secret_key (with_ephemeral P K e) = ik_identity_ed25519_secret_key K"
  "ik_identity_ed25519_public (with_ephemeral P K e) = ik_identity_ed25519_public K"
  "ik_identity_x25519_secret_key (with_ephemeral P K e) = ik_identity_x25519_secret_key K"
  "ik_identity_x25519_public (with_ephemeral P K e) = ik_identity_x25519_public K"
  "ik_kyber_public (with_ephemeral P K e) = ik_kyber_public K" "ik_kyber_secret_key (with_ephemeral P K e) = ik_kyber_secret_key K"
  by (simp_all add: with_ephemeral_def identity_ok_def clear_ephemeral_key_pair_def)

lemma generate_ephemeral_ok:
  assumes "session_crypto_ok P" "length e = 32" "ik_ephemeral_secret_key K = None \<or> ik_ephemeral_x25519_public K = None"
  shows "generate_ephemeral_key_pair P K e = (Ok (), with_ephemeral P K e)"
  using generate_x25519_keypair_ok [OF assms(2) session_crypto_okD(6) [OF assms(1)]] assms(3)
  by (auto simp: generate_ephemeral_key_pair_def clear_ephemeral_key_pair_def with_ephemeral_def)

text \<open>A session that has just been opened with a nonce prefix.\<close>

definition fresh_session :: "bytes \<Rightarrow> session_inner \<Rightarrow> bool" where
  "fresh_session p S \<longleftrightarrow> (\<forall>n \<le> u64_max. counters_below n S) \<and> send_prefix S = p \<and> (\<forall>q. prefix_fresh q S)"

lemma opened_fresh: "opened P b root sid mdk bd c1 c2 x y mm mn S \<Longrightarrow> fresh_session (pt_nonce_prefix x) S"
  using opened_start unfolding fresh_session_def by blast

lemma establishD:
  assumes "establish P b root sid mdk x y mm mn t ss = Ok S"
  shows "\<exists>st. build_protocol_state P b root sid mdk (pt_dh x) (x25519_public P (pt_dh x)) (x25519_public P (pt_dh y))
      (x25519_public P (pt_dh x)) (x25519_public P (pt_dh y)) (fst (mlkem_keygen P (pt_kyber_seed x)))
      (snd (mlkem_keygen P (pt_kyber_seed x))) (snd (mlkem_keygen P (pt_kyber_seed y))) mm mn
      \<lparr> ns_prefix = pt_nonce_prefix x, ns_counter = 0 \<rparr> t (pt_ed25519 x) (pt_x25519 x) (pt_ed25519 y) (pt_x25519 y) = Ok st \<and>
    from_handshake_state P \<lparr> hs_state = st, hs_kyber_shared_secret = ss \<rparr> = Ok S"
  using assms unfolding establish_def res_bind_eq_Ok .

text \<open>What both sides compute before the confirmation.\<close>

record shared_values =
  sv_opk_id :: "nat option"
  sv_opk_public :: bytes
  sv_opk_private :: bytes
  sv_dh1 :: bytes
  sv_dh2 :: bytes
  sv_dh3 :: bytes
  sv_dh4 :: bytes
  sv_classical :: bytes
  sv_ciphertext :: bytes
  sv_secret :: bytes
  sv_keys :: handshake_keys

definition dh_agreed :: "prims \<Rightarrow> identity_keys \<Rightarrow> identity_keys \<Rightarrow> bytes \<Rightarrow> shared_values \<Rightarrow> bool" where
  "dh_agreed P A B e v \<longleftrightarrow>
     handshake_dh P (ik_identity_x25519_secret_key A) (ik_signed_pre_key_public B) = Ok (sv_dh1 v) \<and>
     handshake_dh P (ik_signed_pre_key_secret_key B) (ik_identity_x25519_public A) = Ok (sv_dh1 v) \<and>
     handshake_dh P e (ik_identity_x25519_public B) = Ok (sv_dh2 v) \<and>
     handshake_dh P (ik_identity_x25519_secret_key B) (x25519_public P e) = Ok (sv_dh2 v) \<and>
     handshake_dh P e (ik_signed_pre_key_public B) = Ok (sv_dh3 v) \<and>
     handshake_dh P (ik_signed_pre_key_secret_key B) (x25519_public P e) = Ok (sv_dh3 v) \<and>
     (if sv_opk_id v \<noteq> None then handshake_dh P e (sv_opk_public v) else Ok []) = Ok (sv_dh4 v) \<and>
     (if sv_opk_id v \<noteq> None then handshake_dh P (sv_opk_private v) (x25519_public P e) else Ok []) = Ok (sv_dh4 v) \<and>
     classical_secret P (sv_dh1 v) (sv_dh2 v) (sv_dh3 v) (sv_dh4 v) = Ok (sv_classical v)"

definition opk_agreed :: "identity_keys \<Rightarrow> init_draws \<Rightarrow> shared_values \<Rightarrow> bool" where
  "opk_agreed B d v \<longleftrightarrow>
     choose_opk (proto_bundle (create_public_bundle B)) (ind_opk_index d) = Ok (sv_opk_id v, sv_opk_public v) \<and>
     (case sv_opk_id v of None \<Rightarrow> Ok [] | Some i \<Rightarrow> get_one_time_pre_key_private_by_id B i) = Ok (sv_opk_private v) \<and>
     (\<forall>i. sv_opk_id v = Some i \<longrightarrow> i \<le> u32_max \<and> find_opk i B \<noteq> None)"

definition keys_agreed :: "prims \<Rightarrow> identity_keys \<Rightarrow> bytes \<Rightarrow> bytes \<Rightarrow> shared_values \<Rightarrow> bool" where
  "keys_agreed P B e r v \<longleftrightarrow>
     kyber_encapsulate P (ik_kyber_public B) r = Ok (sv_ciphertext v, sv_secret v) \<and>
     decapsulate_kyber_ciphertext P B (sv_ciphertext v)
       = Ok \<lparr> hha_kyber_ciphertext = sv_ciphertext v, hha_kyber_shared_secret = sv_secret v \<rparr> \<and>
     length (sv_secret v) = 32 \<and> length (sv_ciphertext v) = 1088 \<and> \<not> list_all (\<lambda>b. b = 0) (sv_ciphertext v) \<and>
     handshake_key_schedule P (sv_classical v) (sv_secret v) (sv_ciphertext v) (x25519_public P e) (ik_signed_pre_key_public B) = Ok (sv_keys v) \<and>
     handshake_key_schedule P (sv_classical v) (sv_secret v) (sv_ciphertext v) (ik_signed_pre_key_public B) (x25519_public P e) = Ok (sv_keys v) \<and>
     length (hk_root_key (sv_keys v)) = 32 \<and> length (hk_session_id (sv_keys v)) = 16 \<and> length (hk_metadata_key (sv_keys v)) = 32 \<and>
     length (hk_kc_i (sv_keys v)) = 32 \<and> length (hk_kc_r (sv_keys v)) = 32"

lemma dh_agreed_ex:
  assumes "session_crypto_ok P" "identity_ok P A" "identity_ok P B" "length e = 32"
  shows "\<exists>oid opub priv d1 d2 d3 d4 cs. opk_agreed B d (v\<lparr> sv_opk_id := oid, sv_opk_public := opub, sv_opk_private := priv \<rparr>) \<and>
    dh_agreed P A B e (v\<lparr> sv_opk_id := oid, sv_opk_public := opub, sv_opk_private := priv,
      sv_dh1 := d1, sv_dh2 := d2, sv_dh3 := d3, sv_dh4 := d4, sv_classical := cs \<rparr>)"
proof -
  have l: "length (ik_identity_x25519_secret_key A) = 32" "ik_identity_x25519_public A = x25519_public P (ik_identity_x25519_secret_key A)"
    "length (ik_identity_x25519_secret_key B) = 32" "ik_identity_x25519_public B = x25519_public P (ik_identity_x25519_secret_key B)"
    "length (ik_signed_pre_key_secret_key B) = 32" "ik_signed_pre_key_public B = x25519_public P (ik_signed_pre_key_secret_key B)"
    using assms(2,3) by (simp_all add: identity_ok_def)
  obtain oid opub priv where o: "choose_opk (proto_bundle (create_public_bundle B)) (ind_opk_index d) = Ok (oid, opub)"
    "(case oid of None \<Rightarrow> Ok [] | Some i \<Rightarrow> get_one_time_pre_key_private_by_id B i) = Ok priv"
    "case oid of None \<Rightarrow> True | Some i \<Rightarrow> i \<le> u32_max \<and> length priv = 32 \<and> opub = x25519_public P priv \<and> find_opk i B \<noteq> None"
    using choose_opk_ok [OF assms(1,3), of "ind_opk_index d"] by blast
  have "case oid of None \<Rightarrow> True | Some i \<Rightarrow> length priv = 32 \<and> opub = x25519_public P priv" using o(3) by (cases oid) simp_all
  from opk_dh_ok [OF assms(1,4) this] obtain d4 where d4: "(if oid \<noteq> None then handshake_dh P e opub else Ok []) = Ok d4"
    "(if oid \<noteq> None then handshake_dh P priv (x25519_public P e) else Ok []) = Ok d4" by blast
  obtain cs where cs: "classical_secret P (x25519_dh P (ik_identity_x25519_secret_key A) (ik_signed_pre_key_public B))
      (x25519_dh P e (ik_identity_x25519_public B)) (x25519_dh P e (ik_signed_pre_key_public B)) d4 = Ok cs"
    using classical_ok [OF session_crypto_okD(1) [OF assms(1)]] by blast
  have oi: "\<forall>i. oid = Some i \<longrightarrow> i \<le> u32_max \<and> find_opk i B \<noteq> None" using o(3) by (cases oid) auto
  note dh = handshake_dh_ok [OF assms(1) l(1,5), folded l(2,6)] handshake_dh_ok [OF assms(1,4) l(3), folded l(4)]
    handshake_dh_ok [OF assms(1,4) l(5), folded l(6)]
  show ?thesis
    by (rule exI [of _ oid], rule exI [of _ opub], rule exI [of _ priv],
        rule exI [of _ "x25519_dh P (ik_identity_x25519_secret_key A) (ik_signed_pre_key_public B)"],
        rule exI [of _ "x25519_dh P e (ik_identity_x25519_public B)"], rule exI [of _ "x25519_dh P e (ik_signed_pre_key_public B)"],
        rule exI [of _ d4], rule exI [of _ cs], rule conjI)
       (use o(1,2) oi dh d4 cs in \<open>simp_all add: dh_agreed_def opk_agreed_def split: if_splits\<close>)
qed

lemma keys_agreed_ex:
  assumes "session_crypto_ok P" "identity_ok P B" "init_draws_ok P d"
  shows "\<exists>ct ss k. keys_agreed P B e (ind_encaps d) (v\<lparr> sv_ciphertext := ct, sv_secret := ss, sv_keys := k \<rparr>)"
proof -
  from kem_values [OF assms] obtain ct ss where kem: "kyber_encapsulate P (ik_kyber_public B) (ind_encaps d) = Ok (ct, ss)"
    "length ss = 32" "length ct = 1088" "\<not> list_all (\<lambda>b. b = 0) ct"
    "decapsulate_kyber_ciphertext P B ct = Ok \<lparr> hha_kyber_ciphertext = ct, hha_kyber_shared_secret = ss \<rparr>" by blast
  from schedule_ok [OF session_crypto_okD(1) [OF assms(1)], of "sv_classical v" ss ct "x25519_public P e" "ik_signed_pre_key_public B"]
  obtain k where k: "handshake_key_schedule P (sv_classical v) ss ct (x25519_public P e) (ik_signed_pre_key_public B) = Ok k"
    "length (hk_root_key k) = 32" "length (hk_session_id k) = 16" "length (hk_metadata_key k) = 32" "length (hk_kc_i k) = 32" "length (hk_kc_r k) = 32"
    by blast
  show ?thesis
    by (rule exI [of _ ct], rule exI [of _ ss], rule exI [of _ k])
       (use kem k in \<open>simp add: keys_agreed_def schedule_commute [of P _ _ _ "ik_signed_pre_key_public B"]\<close>)
qed

lemma agreed_ex:
  assumes "session_crypto_ok P" "identity_ok P A" "identity_ok P B" "init_draws_ok P d"
  shows "\<exists>v. opk_agreed B d v \<and> dh_agreed P A B (ind_ephemeral d) v \<and> keys_agreed P B (ind_ephemeral d) (ind_encaps d) v"
proof -
  have le: "length (ind_ephemeral d) = 32" using assms(4) by (simp add: init_draws_ok_def)
  obtain v0 :: shared_values where True by blast
  from dh_agreed_ex [OF assms(1-3) le, of d v0] obtain oid opub priv d1 d2 d3 d4 cs where
    1: "opk_agreed B d (v0\<lparr> sv_opk_id := oid, sv_opk_public := opub, sv_opk_private := priv \<rparr>)"
    "dh_agreed P A B (ind_ephemeral d) (v0\<lparr> sv_opk_id := oid, sv_opk_public := opub, sv_opk_private := priv,
      sv_dh1 := d1, sv_dh2 := d2, sv_dh3 := d3, sv_dh4 := d4, sv_classical := cs \<rparr>)" by blast
  from keys_agreed_ex [OF assms(1,3,4), of "ind_ephemeral d" "v0\<lparr> sv_opk_id := oid, sv_opk_public := opub, sv_opk_private := priv,
      sv_dh1 := d1, sv_dh2 := d2, sv_dh3 := d3, sv_dh4 := d4, sv_classical := cs \<rparr>"] obtain ct ss k where
    2: "keys_agreed P B (ind_ephemeral d) (ind_encaps d) (v0\<lparr> sv_opk_id := oid, sv_opk_public := opub, sv_opk_private := priv,
      sv_dh1 := d1, sv_dh2 := d2, sv_dh3 := d3, sv_dh4 := d4, sv_classical := cs, sv_ciphertext := ct, sv_secret := ss, sv_keys := k \<rparr>)"
    by blast
  show ?thesis by (rule exI, intro conjI, rule_tac [3] 2) (use 1 in \<open>simp_all add: opk_agreed_def dh_agreed_def split: if_splits\<close>)
qed

text \<open>The message of the initiator before it is confirmed.\<close>

definition unconfirmed_init :: "prims \<Rightarrow> identity_keys \<Rightarrow> bytes \<Rightarrow> nat \<Rightarrow> shared_values \<Rightarrow> handshake_init" where
  "unconfirmed_init P A e mm v =
     \<lparr> hi_version = PROTOCOL_VERSION, hi_initiator_identity_ed25519_public = ik_identity_ed25519_public A,
       hi_initiator_identity_x25519_public = ik_identity_x25519_public A, hi_initiator_ephemeral_x25519_public = x25519_public P e,
       hi_one_time_pre_key_id = sv_opk_id v, hi_kyber_ciphertext = sv_ciphertext v, hi_key_confirmation_mac = [],
       hi_initiator_kyber_public = ik_kyber_public A, hi_max_messages_per_chain = mm,
       hi_initiator_identity_binding_signature = sig_sign P (ik_identity_ed25519_secret_key A)
         (build_init_identity_binding_message (ik_identity_ed25519_public A) (ik_identity_x25519_public A) (ik_kyber_public A)) \<rparr>"

lemma own_bundle [simp]:
  "pkb_signed_pre_key_public (proto_bundle (create_public_bundle B)) = ik_signed_pre_key_public B"
  "pkb_identity_x25519_public (proto_bundle (create_public_bundle B)) = ik_identity_x25519_public B"
  "pkb_identity_ed25519_public (proto_bundle (create_public_bundle B)) = ik_identity_ed25519_public B"
  "pkb_kyber_public (proto_bundle (create_public_bundle B)) = ik_kyber_public B"
  by (simp_all add: proto_bundle_def create_public_bundle_def)

lemma unconfirmed_bounded:
  assumes "handshake_crypto_ok P" "identity_ok P A" "init_draws_ok P d" "opk_agreed B d v" "keys_agreed P B e r v" "mm \<le> 10000" "length mac = 32"
  shows "init_bounded ((unconfirmed_init P A (ind_ephemeral d) mm v)\<lparr> hi_key_confirmation_mac := mac \<rparr>)"
    "init_size ((unconfirmed_init P A (ind_ephemeral d) mm v)\<lparr> hi_key_confirmation_mac := mac \<rparr>) \<le> 16384"
proof -
  have c: "session_crypto_ok P" "sig_ok P" using assms(1) by (simp_all add: handshake_crypto_ok_def)
  obtain es where ed: "sig_keygen P es = (ik_identity_ed25519_secret_key A, ik_identity_ed25519_public A)"
    using assms(2) by (auto simp: identity_ok_def)
  have x: "length (x25519_public P (ind_ephemeral d)) = 32" "length (ik_identity_x25519_public A) = 32" "length (sv_ciphertext v) = 1088"
    using assms(2,3,5) x25519_public_ok(1) [OF c(1)] by (simp_all add: init_draws_ok_def identity_ok_def keys_agreed_def)
  have o: "case sv_opk_id v of None \<Rightarrow> True | Some i \<Rightarrow> i \<le> u32_max" using assms(4) by (simp add: opk_agreed_def split: option.splits)
  show "init_bounded ((unconfirmed_init P A (ind_ephemeral d) mm v)\<lparr> hi_key_confirmation_mac := mac \<rparr>)"
    "init_size ((unconfirmed_init P A (ind_ephemeral d) mm v)\<lparr> hi_key_confirmation_mac := mac \<rparr>) \<le> 16384"
    using o assms(6,7) x sig_okD [OF c(2) ed] identity_keys_read(6) [OF assms(1,2)]
    by (simp_all add: init_bounded_def init_size_def unconfirmed_init_def split: option.splits)
qed

text \<open>The session states that the two sides build from the shared values.\<close>

definition states_built ::
    "prims \<Rightarrow> identity_keys \<Rightarrow> identity_keys \<Rightarrow> init_draws \<Rightarrow> bytes \<Rightarrow> nat \<Rightarrow> nat \<Rightarrow> nat \<Rightarrow> shared_values \<Rightarrow> protocol_state \<Rightarrow> protocol_state \<Rightarrow> bool" where
  "states_built P A B d np mm ta tb v stA stB \<longleftrightarrow>
     build_protocol_state P True (hk_root_key (sv_keys v)) (hk_session_id (sv_keys v)) (hk_metadata_key (sv_keys v)) (ind_ephemeral d)
      (x25519_public P (ind_ephemeral d)) (ik_signed_pre_key_public B) (x25519_public P (ind_ephemeral d)) (ik_signed_pre_key_public B)
      (ik_kyber_secret_key A) (ik_kyber_public A) (ik_kyber_public B) mm MAX_NONCE_COUNTER
      \<lparr> ns_prefix = ind_nonce_prefix d, ns_counter = 0 \<rparr> ta (ik_identity_ed25519_public A) (ik_identity_x25519_public A)
      (ik_identity_ed25519_public B) (ik_identity_x25519_public B) = Ok stA \<and>
     build_protocol_state P False (hk_root_key (sv_keys v)) (hk_session_id (sv_keys v)) (hk_metadata_key (sv_keys v))
      (ik_signed_pre_key_secret_key B) (ik_signed_pre_key_public B) (x25519_public P (ind_ephemeral d)) (ik_signed_pre_key_public B)
      (x25519_public P (ind_ephemeral d)) (ik_kyber_secret_key B) (ik_kyber_public B) (ik_kyber_public A) mm MAX_NONCE_COUNTER
      \<lparr> ns_prefix = np, ns_counter = 0 \<rparr> tb (ik_identity_ed25519_public B) (ik_identity_x25519_public B)
      (ik_identity_ed25519_public A) (ik_identity_x25519_public A) = Ok stB"

lemma initiator_side:
  assumes "handshake_crypto_ok P" "identity_ok P A" "init_draws_ok P d" "b = proto_bundle (create_public_bundle B)"
    and v: "opk_agreed B d v" "dh_agreed P A B (ind_ephemeral d) v" "keys_agreed P B (ind_ephemeral d) (ind_encaps d) v"
    and m: "m = unconfirmed_init P A (ind_ephemeral d) mm v"
    and th: "build_transcript_hash P H b m = Ok th" "compute_hmac_sha256 P (hk_kc_i (sv_keys v)) th = Ok mac"
    and enc: "encode_init H (m\<lparr> hi_key_confirmation_mac := mac \<rparr>) = Some ser"
    and st: "states_built P A B d np mm ta tb v stA stB"
    and ack: "compute_hmac_sha256 P (hk_kc_r (sv_keys v)) th = Ok ack"
  shows "initiate P H (with_ephemeral P A (ind_ephemeral d)) b mm d (Ok ta) = Ok \<lparr> hin_init_message = m\<lparr> hi_key_confirmation_mac := mac \<rparr>,
    hin_init_bytes = ser, hin_session_state = \<lparr> hs_state = stA, hs_kyber_shared_secret = sv_secret v \<rparr>, hin_expected_ack_mac = ack \<rparr>"
proof -
  let ?A = "with_ephemeral P A (ind_ephemeral d)"
  have c: "session_crypto_ok P" using assms(1) by (simp add: handshake_crypto_ok_def)
  have le: "length (ind_ephemeral d) = 32" "length (ind_nonce_prefix d) = 8" using assms(3) by (simp_all add: init_draws_ok_def)
  have e: "get_ephemeral_x25519_private_key_copy ?A = Ok (ind_ephemeral d)"
    using le by (simp add: get_ephemeral_x25519_private_key_copy_def with_ephemeral_def)
  note rd = identity_keys_read [OF assms(1), of ?A, simplified, OF assms(2)]
  show ?thesis
    by (rule initiate_eq [where eph = "x25519_public P (ind_ephemeral d)" and oid = "sv_opk_id v" and opk = "sv_opk_public v"
          and da = "sv_dh1 v" and db = "sv_dh2 v" and dc = "sv_dh3 v" and dd = "sv_dh4 v" and cs = "sv_classical v" and ct = "sv_ciphertext v"
          and k = "sv_keys v" and th = th and e = "ind_ephemeral d" and x = "ik_identity_x25519_secret_key A"
          and sk = "ik_identity_ed25519_secret_key A" and ks = "ik_kyber_secret_key A"])
       (use x25519_public_ok(1) [OF c le(1)] le e rd th enc st ack v m assms(4) in
         \<open>simp_all add: opk_agreed_def dh_agreed_def keys_agreed_def unconfirmed_init_def states_built_def\<close>)
qed

lemma responder_side:
  assumes "handshake_crypto_ok P" "identity_ok P A" "identity_ok P B" "init_draws_ok P d" "b = proto_bundle (create_public_bundle B)"
    and ne: "ik_identity_ed25519_public A \<noteq> ik_identity_ed25519_public B" and mm: "0 < mm" "mm \<le> 10000" and np: "length np = 8"
    and v: "opk_agreed B d v" "dh_agreed P A B (ind_ephemeral d) v" "keys_agreed P B (ind_ephemeral d) (ind_encaps d) v"
    and m: "m = unconfirmed_init P A (ind_ephemeral d) mm v"
    and th: "build_transcript_hash P H b m = Ok th" "compute_hmac_sha256 P (hk_kc_i (sv_keys v)) th = Ok mac" "length mac = 32"
    and ack: "compute_hmac_sha256 P (hk_kc_r (sv_keys v)) th = Ok ack"
      "encode_ack H \<lparr> ha_version = PROTOCOL_VERSION, ha_key_confirmation_mac = ack \<rparr> = Some ser"
    and st: "states_built P A B d np mm ta tb v stA stB"
  shows "respond P H B b (m\<lparr> hi_key_confirmation_mac := mac \<rparr>) mm np (Ok tb)
    = Ok \<lparr> hre_ack_message = \<lparr> ha_version = PROTOCOL_VERSION, ha_key_confirmation_mac = ack \<rparr>,
        hre_ack_bytes = ser, hre_session_state = \<lparr> hs_state = stB, hs_kyber_shared_secret = sv_secret v \<rparr> \<rparr>"
proof -
  have le: "length (ind_ephemeral d) = 32" using assms(4) by (simp add: init_draws_ok_def)
  have ct: "length (sv_ciphertext v) = 1088" "\<not> list_all (\<lambda>b. b = 0) (sv_ciphertext v)" using v(3) by (simp_all add: keys_agreed_def)
  note val = validate_init_ok [OF assms(1,2) le ct th(3) mm, of "sv_opk_id v"]
  note rd = identity_keys_read [OF assms(1,3)]
  have th': "build_transcript_hash P H b (m\<lparr> hi_key_confirmation_mac := mac \<rparr>) = Ok th" using th(1) by simp
  show ?thesis
    by (rule respond_eq [where o' = "sv_opk_private v" and s = "ik_signed_pre_key_secret_key B" and x = "ik_identity_x25519_secret_key B"
          and da = "sv_dh1 v" and db = "sv_dh2 v" and dc = "sv_dh3 v" and dd = "sv_dh4 v" and cs = "sv_classical v"
          and k = "sv_keys v" and th = th and ks = "ik_kyber_secret_key B"
          and a = "\<lparr> hha_kyber_ciphertext = sv_ciphertext v, hha_kyber_shared_secret = sv_secret v \<rparr>", OF _ _ _ _ _ _ _ _ _ _ _ _ _ _ th'])
       (use val np rd ne th(2) ack st v in \<open>simp_all add: m assms(5) opk_agreed_def dh_agreed_def keys_agreed_def unconfirmed_init_def states_built_def split: if_splits\<close>)
qed

lemma codec_init:
  assumes "handshake_codec_ok H" "init_bounded m" "init_size m \<le> 16384"
  obtains ser where "encode_init H m = Some ser" "decode_init H ser = Some m" "length ser \<le> 16384"
proof -
  from assms(1) obtain ser where "encode_init H m = Some ser \<and> (init_bounded m \<longrightarrow> decode_init H ser = Some m \<and> length ser \<le> init_size m)"
    unfolding handshake_codec_ok_def by blast
  with assms(2,3) that show ?thesis by auto
qed

lemma codec_ack:
  assumes "handshake_codec_ok H" "length (ha_key_confirmation_mac a) = 32" "ha_version a \<le> u32_max"
  obtains ser where "encode_ack H a = Some ser" "decode_ack H ser = Some a" "length ser \<le> 16384"
proof -
  from assms(1) obtain ser where "encode_ack H a = Some ser \<and>
      (ha_version a \<le> u32_max \<and> length (ha_key_confirmation_mac a) \<le> u32_max \<longrightarrow>
        decode_ack H ser = Some a \<and> length ser \<le> 20 + length (ha_key_confirmation_mac a))"
    unfolding handshake_codec_ok_def by blast
  with assms(2,3) that show ?thesis by auto
qed

lemma finish_ok:
  assumes "decode_ack H ser = Some \<lparr> ha_version = PROTOCOL_VERSION, ha_key_confirmation_mac = ack \<rparr>" "length ser \<le> 16384" "length ack = 32"
    and "hin_expected_ack_mac ini = ack"
  shows "initiator_finish P H ini ser = from_handshake_state P (hin_session_state ini)"
  using assms by (simp add: initiator_finish_def)

lemma agreed_sessions:
  assumes cr: "handshake_crypto_ok P" and ids: "identity_ok P A" "identity_ok P B"
    and d: "init_draws_ok P d" "length np = 8" and mm: "0 < mm" "mm \<le> 10000"
    and t: "ta \<le> 9223372036854775807" "tb \<le> 9223372036854775807" and v: "keys_agreed P B e r v"
  obtains stA stB SA SB where "states_built P A B d np mm ta tb v stA stB"
    "from_handshake_state P \<lparr> hs_state = stA, hs_kyber_shared_secret = sv_secret v \<rparr> = Ok SA"
    "from_handshake_state P \<lparr> hs_state = stB, hs_kyber_shared_secret = sv_secret v \<rparr> = Ok SB"
    "paired P SA SB" "fresh_session (ind_nonce_prefix d) SA" "fresh_session np SB"
proof -
  have c: "session_crypto_ok P" "hash_ok P" using cr by (simp_all add: handshake_crypto_ok_def)
  obtain sa where sa: "mlkem_keygen P sa = (ik_kyber_secret_key A, ik_kyber_public A)" using ids(1) by (auto simp: identity_ok_def)
  obtain sb where sb: "mlkem_keygen P sb = (ik_kyber_secret_key B, ik_kyber_public B)" using ids(2) by (auto simp: identity_ok_def)
  have l: "length (hk_root_key (sv_keys v)) = 32" "length (hk_session_id (sv_keys v)) = 16" "length (hk_metadata_key (sv_keys v)) = 32"
    "length (sv_secret v) = 32" using v by (simp_all add: keys_agreed_def)
  have lim: "mm \<le> 65535" "(65535::nat) \<le> 65535" using mm(2) by simp_all
  from established_paired [OF c parties_ok(1) [OF cr ids(1) d(1)] parties_ok(2) [OF cr ids(2) d(2)] l mm lim t, of sa sb]
  obtain SA SB root' bd c1 c2 where S:
    "establish P True (hk_root_key (sv_keys v)) (hk_session_id (sv_keys v)) (hk_metadata_key (sv_keys v)) (initiator_party A d sa)
       (responder_party B np sb) mm 65535 ta (sv_secret v) = Ok SA"
    "establish P False (hk_root_key (sv_keys v)) (hk_session_id (sv_keys v)) (hk_metadata_key (sv_keys v)) (responder_party B np sb)
       (initiator_party A d sa) mm 65535 tb (sv_secret v) = Ok SB" "paired P SA SB"
    "opened P True root' (hk_session_id (sv_keys v)) (hk_metadata_key (sv_keys v)) bd c1 c2 (initiator_party A d sa) (responder_party B np sb) mm 65535 SA"
    "opened P False root' (hk_session_id (sv_keys v)) (hk_metadata_key (sv_keys v)) bd c1 c2 (responder_party B np sb) (initiator_party A d sa) mm 65535 SB"
    by blast
  have "x25519_public P (ik_signed_pre_key_secret_key B) = ik_signed_pre_key_public B" using ids(2) by (simp add: identity_ok_def)
  note w = states_built_def initiator_party_def responder_party_def sa sb this
  show thesis using establishD [OF S(1)] establishD [OF S(2)] S(3) opened_fresh [OF S(4)] opened_fresh [OF S(5)] that
    by (auto simp: w)
qed

text \<open>The two sides together: the responder accepts the message, both confirmations match and the sessions
  belong together.\<close>

lemma handshake_agree:
  assumes cr: "handshake_crypto_ok P" "handshake_codec_ok H" and ids: "identity_ok P A" "identity_ok P B"
    and ne: "ik_identity_ed25519_public A \<noteq> ik_identity_ed25519_public B"
    and d: "init_draws_ok P d" "length np = 8" and mm: "0 < mm" "mm \<le> 10000"
    and t: "ta \<le> 9223372036854775807" "tb \<le> 9223372036854775807"
    and b: "b = proto_bundle (create_public_bundle B)"
  shows "\<exists>ini res SA SB. initiate P H (with_ephemeral P A (ind_ephemeral d)) b mm d (Ok ta) = Ok ini \<and>
    respond P H B b (hin_init_message ini) mm np (Ok tb) = Ok res \<and>
    encode_init H (hin_init_message ini) = Some (hin_init_bytes ini) \<and>
    decode_init H (hin_init_bytes ini) = Some (hin_init_message ini) \<and> length (hin_init_bytes ini) \<le> 16384 \<and>
    (\<forall>i. hi_one_time_pre_key_id (hin_init_message ini) = Some i \<longrightarrow> find_opk i B \<noteq> None) \<and>
    initiator_finish P H ini (hre_ack_bytes res) = Ok SA \<and> responder_finish P res = Ok SB \<and>
    paired P SA SB \<and> fresh_session (ind_nonce_prefix d) SA \<and> fresh_session np SB"
proof -
  have c: "session_crypto_ok P" "hash_ok P" "sig_ok P" using cr(1) by (simp_all add: handshake_crypto_ok_def)
  obtain v where v: "opk_agreed B d v" "dh_agreed P A B (ind_ephemeral d) v" "keys_agreed P B (ind_ephemeral d) (ind_encaps d) v"
    using agreed_ex [OF c(1) ids d(1)] by blast
  have l: "length (hk_kc_i (sv_keys v)) = 32" "length (hk_kc_r (sv_keys v)) = 32" using v(3) by (simp_all add: keys_agreed_def)
  define m where "m = unconfirmed_init P A (ind_ephemeral d) mm v"
  obtain th where th: "build_transcript_hash P H b m = Ok th" using transcript_ok [OF c(2) cr(2)] by blast
  obtain mac where mac: "compute_hmac_sha256 P (hk_kc_i (sv_keys v)) th = Ok mac" "length mac = 32" using hmac_total [OF c(2) l(1)] by blast
  obtain ack where ack: "compute_hmac_sha256 P (hk_kc_r (sv_keys v)) th = Ok ack" "length ack = 32" using hmac_total [OF c(2) l(2)] by blast
  obtain ser where ser: "encode_init H (m\<lparr> hi_key_confirmation_mac := mac \<rparr>) = Some ser"
    "decode_init H ser = Some (m\<lparr> hi_key_confirmation_mac := mac \<rparr>)" "length ser \<le> 16384"
    by (rule codec_init [OF cr(2) unconfirmed_bounded(1,2) [OF cr(1) ids(1) d(1) v(1,3) mm(2) mac(2), folded m_def]])
  obtain aser where aser: "encode_ack H \<lparr> ha_version = PROTOCOL_VERSION, ha_key_confirmation_mac = ack \<rparr> = Some aser"
    "decode_ack H aser = Some \<lparr> ha_version = PROTOCOL_VERSION, ha_key_confirmation_mac = ack \<rparr>" "length aser \<le> 16384"
    by (rule codec_ack [OF cr(2), of "\<lparr> ha_version = PROTOCOL_VERSION, ha_key_confirmation_mac = ack \<rparr>"]) (use ack in simp_all)
  obtain stA stB SA SB where S: "states_built P A B d np mm ta tb v stA stB"
    "from_handshake_state P \<lparr> hs_state = stA, hs_kyber_shared_secret = sv_secret v \<rparr> = Ok SA"
    "from_handshake_state P \<lparr> hs_state = stB, hs_kyber_shared_secret = sv_secret v \<rparr> = Ok SB"
    "paired P SA SB" "fresh_session (ind_nonce_prefix d) SA" "fresh_session np SB"
    by (rule agreed_sessions [OF cr(1) ids d mm t v(3)])
  note I = initiator_side [OF cr(1) ids(1) d(1) b v m_def th mac(1) ser(1) S(1) ack(1)]
  note R = responder_side [OF cr(1) ids d(1) b ne mm d(2) v m_def th mac ack(1) aser(1) S(1)]
  have opk: "\<forall>i. sv_opk_id v = Some i \<longrightarrow> find_opk i B \<noteq> None" using v(1) by (simp add: opk_agreed_def)
  show ?thesis
    by (rule exI, rule exI, rule exI [of _ SA], rule exI [of _ SB], intro conjI, rule I, simp only: handshake_initiator.simps, rule R)
       (use ser opk finish_ok [OF aser(2,3) ack(2)] S in \<open>simp_all add: m_def unconfirmed_init_def responder_finish_def\<close>)
qed

end
