(* ===== verification/Sample_Handshake.thy ===== *)
theory Sample_Handshake
  imports Proto_Handshake Sample_Codec
begin

text \<open>
  A concrete codec for the handshake messages, in the style of \<open>Sample_Codec\<close>, with the bounds on the
  length of an encoding that \<open>handshake_codec_ok\<close> asks for.
\<close>

definition c_otp :: "one_time_pre_key_proto cod" where
  "c_otp = c_iso (\<lambda>x. (otp_one_time_pre_key_id x, otp_public_key x)) (\<lambda>(v0, v1). \<lparr> otp_one_time_pre_key_id =
      v0, otp_public_key = v1 \<rparr>) (c_pair c_nat c_bytes)"

lemma c_otp_ok [cod_intros]: "cod_ok c_otp"
  unfolding c_otp_def by (rule c_iso_ok) (intro cod_intros, simp)

definition c_bundle :: "pre_key_bundle cod" where
  "c_bundle = c_iso (\<lambda>x. (pkb_version x, pkb_identity_ed25519_public x, pkb_identity_x25519_public x, pkb_signed_pre_key_id
      x, pkb_signed_pre_key_public x, pkb_signed_pre_key_signature x, pkb_one_time_pre_keys x, pkb_kyber_public x,
      pkb_identity_x25519_signature x)) (\<lambda>(v0, v1, v2, v3, v4, v5, v6, v7, v8). \<lparr> pkb_version = v0,
      pkb_identity_ed25519_public = v1, pkb_identity_x25519_public = v2, pkb_signed_pre_key_id = v3, pkb_signed_pre_key_public = v4,
      pkb_signed_pre_key_signature = v5, pkb_one_time_pre_keys = v6, pkb_kyber_public = v7, pkb_identity_x25519_signature = v8 \<rparr>)
      (c_pair c_nat (c_pair c_bytes (c_pair c_bytes (c_pair c_nat (c_pair c_bytes (c_pair c_bytes (c_pair (c_list c_otp) (c_pair c_bytes
      c_bytes))))))))"

lemma c_bundle_ok [cod_intros]: "cod_ok c_bundle"
  unfolding c_bundle_def by (rule c_iso_ok) (intro cod_intros, simp)

definition c_init :: "handshake_init cod" where
  "c_init = c_iso (\<lambda>x. (hi_version x, hi_initiator_identity_ed25519_public x, hi_initiator_identity_x25519_public x,
      hi_initiator_ephemeral_x25519_public x, hi_one_time_pre_key_id x, hi_kyber_ciphertext x, hi_key_confirmation_mac x,
      hi_initiator_kyber_public x, hi_max_messages_per_chain x, hi_initiator_identity_binding_signature x)) (\<lambda>(v0, v1, v2, v3,
      v4, v5, v6, v7, v8, v9). \<lparr> hi_version = v0, hi_initiator_identity_ed25519_public = v1, hi_initiator_identity_x25519_public
      = v2, hi_initiator_ephemeral_x25519_public = v3, hi_one_time_pre_key_id = v4, hi_kyber_ciphertext = v5, hi_key_confirmation_mac =
      v6, hi_initiator_kyber_public = v7, hi_max_messages_per_chain = v8, hi_initiator_identity_binding_signature = v9 \<rparr>) (c_pair
      c_nat (c_pair c_bytes (c_pair c_bytes (c_pair c_bytes (c_pair (c_opt c_nat) (c_pair c_bytes (c_pair c_bytes (c_pair c_bytes
      (c_pair c_nat c_bytes)))))))))"

lemma c_init_ok [cod_intros]: "cod_ok c_init"
  unfolding c_init_def by (rule c_iso_ok) (intro cod_intros, simp)

definition c_ack :: "handshake_ack cod" where
  "c_ack = c_iso (\<lambda>x. (ha_version x, ha_key_confirmation_mac x)) (\<lambda>(v0, v1). \<lparr> ha_version = v0,
      ha_key_confirmation_mac = v1 \<rparr>) (c_pair c_nat c_bytes)"

lemma c_ack_ok [cod_intros]: "cod_ok c_ack"
  unfolding c_ack_def by (rule c_iso_ok) (intro cod_intros, simp)

definition c_replay :: "identity_replay_state cod" where
  "c_replay = c_iso (\<lambda>x. (irs_state_version x, irs_identity_ed25519_public x, irs_remaining_one_time_pre_key_ids x,
      irs_recent_handshake_init_fingerprints x, irs_external_counter x)) (\<lambda>(v0, v1, v2, v3, v4). \<lparr> irs_state_version =
      v0, irs_identity_ed25519_public = v1, irs_remaining_one_time_pre_key_ids = v2, irs_recent_handshake_init_fingerprints = v3,
      irs_external_counter = v4 \<rparr>) (c_pair c_nat (c_pair c_bytes (c_pair (c_list c_nat) (c_pair (c_list c_bytes) c_nat))))"

lemma c_replay_ok [cod_intros]: "cod_ok c_replay"
  unfolding c_replay_def by (rule c_iso_ok) (intro cod_intros, simp)

section \<open>Lengths\<close>

lemma u32_length: "n \<le> u32_max \<Longrightarrow> length (put_nat n) \<le> 5"
  using put_nat_length [of n 4] by simp

lemma init_length:
  assumes "init_bounded m"
  shows "length (fst c_init m) \<le> init_size m"
proof -
  have n: "length (put_nat (hi_version m)) \<le> 5" "length (put_nat (hi_max_messages_per_chain m)) \<le> 5"
    "length (put_nat (length (hi_initiator_identity_ed25519_public m))) \<le> 5" "length (put_nat (length (hi_initiator_identity_x25519_public m))) \<le> 5"
    "length (put_nat (length (hi_initiator_ephemeral_x25519_public m))) \<le> 5" "length (put_nat (length (hi_kyber_ciphertext m))) \<le> 5"
    "length (put_nat (length (hi_key_confirmation_mac m))) \<le> 5" "length (put_nat (length (hi_initiator_kyber_public m))) \<le> 5"
    "length (put_nat (length (hi_initiator_identity_binding_signature m))) \<le> 5"
    using assms by (intro u32_length; simp add: init_bounded_def init_size_def)+
  have "length (fst (c_opt c_nat) (hi_one_time_pre_key_id m)) \<le> 6"
    using assms u32_length by (auto simp: init_bounded_def c_opt_def c_iso_def c_list_def c_nat_def put_nat.simps [of 0] put_nat.simps [of "Suc 0"] split: option.splits)
  with n show ?thesis by (simp add: c_init_def c_iso_def c_pair_def c_nat_def c_bytes_def init_size_def)
qed

lemma otp_list_length:
  assumes "\<forall>x\<in>set xs. otp_one_time_pre_key_id x \<le> u32_max \<and> length (otp_public_key x) \<le> u32_max"
  shows "length (concat (map (fst c_otp) xs)) \<le> sum_list (map (\<lambda>opk. 10 + length (otp_public_key opk)) xs)"
  using assms
proof (induction xs)
  case (Cons x xs)
  have "length (put_nat (otp_one_time_pre_key_id x)) \<le> 5" "length (put_nat (length (otp_public_key x))) \<le> 5"
    using Cons.prems by (auto intro!: u32_length)
  with Cons show ?case by (simp add: c_otp_def c_iso_def c_pair_def c_nat_def c_bytes_def)
qed simp

lemma bundle_length:
  assumes "bundle_bounded m"
  shows "length (fst c_bundle m) \<le> bundle_size m"
proof -
  let ?xs = "pkb_one_time_pre_keys m"
  have m: "length (otp_public_key x) \<le> sum_list (map (\<lambda>opk. 30 + length (otp_public_key opk)) ?xs)" if "x \<in> set ?xs" for x
    using member_le_sum_list [of "30 + length (otp_public_key x)" "map (\<lambda>opk. 30 + length (otp_public_key opk)) ?xs"] that by force
  have l: "length ?xs \<le> sum_list (map (\<lambda>opk. 30 + length (otp_public_key opk)) ?xs)" by (induction ?xs) (auto simp: sum_list_addf sum_list_triv)
  have "sum_list (map (\<lambda>opk. 10 + length (otp_public_key opk)) ?xs) \<le> sum_list (map (\<lambda>opk. 30 + length (otp_public_key opk)) ?xs)"
    by (rule sum_list_mono) simp
  moreover have "length (concat (map (fst c_otp) ?xs)) \<le> sum_list (map (\<lambda>opk. 10 + length (otp_public_key opk)) ?xs)"
    using assms m by (intro otp_list_length) (force simp: bundle_bounded_def bundle_size_def list_all_iff)
  moreover have n: "length (put_nat (pkb_version m)) \<le> 5" "length (put_nat (pkb_signed_pre_key_id m)) \<le> 5" "length (put_nat (length ?xs)) \<le> 5"
    "length (put_nat (length (pkb_identity_ed25519_public m))) \<le> 5" "length (put_nat (length (pkb_identity_x25519_public m))) \<le> 5"
    "length (put_nat (length (pkb_signed_pre_key_public m))) \<le> 5" "length (put_nat (length (pkb_signed_pre_key_signature m))) \<le> 5"
    "length (put_nat (length (pkb_kyber_public m))) \<le> 5" "length (put_nat (length (pkb_identity_x25519_signature m))) \<le> 5"
    using assms l by (intro u32_length; simp add: bundle_bounded_def bundle_size_def)+
  ultimately show ?thesis
    by (simp add: c_bundle_def c_iso_def c_pair_def c_nat_def c_bytes_def c_list_def bundle_size_def)
qed

lemma ack_length:
  assumes "ha_version m \<le> u32_max" "length (ha_key_confirmation_mac m) \<le> u32_max"
  shows "length (fst c_ack m) \<le> 20 + length (ha_key_confirmation_mac m)"
  using u32_length [OF assms(1)] u32_length [OF assms(2)] by (simp add: c_ack_def c_iso_def c_pair_def c_nat_def c_bytes_def)

lemma id_list_length: "list_all (\<lambda>i. i \<le> u32_max) xs \<Longrightarrow> length (concat (map (fst c_nat) xs)) \<le> 5 * length xs"
  using u32_length by (induction xs) (fastforce simp: c_nat_def)+

lemma bytes_list_length:
  "list_all (\<lambda>fp. length fp \<le> u32_max) xs \<Longrightarrow> length (concat (map (fst c_bytes) xs)) \<le> sum_list (map (\<lambda>fp. 5 + length fp) xs)"
  using u32_length by (induction xs) (fastforce simp: c_bytes_def)+

lemma replay_length:
  assumes "replay_bounded m"
  shows "length (fst c_replay m) \<le> replay_size m"
proof -
  have n: "length (put_nat (irs_state_version m)) \<le> 5" "length (put_nat (length (irs_identity_ed25519_public m))) \<le> 5"
    "length (put_nat (length (irs_remaining_one_time_pre_key_ids m))) \<le> 5"
    "length (put_nat (length (irs_recent_handshake_init_fingerprints m))) \<le> 5"
    using assms by (intro u32_length; simp add: replay_bounded_def)+
  have "length (put_nat (irs_external_counter m)) \<le> 10" using assms put_nat_length [of "irs_external_counter m" 9] by (simp add: replay_bounded_def)
  moreover have "length (concat (map (fst c_nat) (irs_remaining_one_time_pre_key_ids m))) \<le> 5 * length (irs_remaining_one_time_pre_key_ids m)"
    using assms by (intro id_list_length) (simp add: replay_bounded_def)
  moreover have "length (concat (map (fst c_bytes) (irs_recent_handshake_init_fingerprints m)))
      \<le> sum_list (map (\<lambda>fp. 5 + length fp) (irs_recent_handshake_init_fingerprints m))"
    using assms by (intro bytes_list_length) (simp add: replay_bounded_def)
  moreover have "sum_list (map (\<lambda>fp. 5 + length fp) xs) \<le> sum_list (map (\<lambda>fp. 10 + length fp) xs)" for xs :: "bytes list"
    by (rule sum_list_mono) simp
  note this [of "irs_recent_handshake_init_fingerprints m"]
  ultimately show ?thesis using n
    by (simp add: c_replay_def c_iso_def c_pair_def c_list_def replay_size_def)
       (simp add: c_nat_def c_bytes_def)
qed

definition sample_handshake_codec :: handshake_codec where
  "sample_handshake_codec = \<lparr> encode_bundle = run_put c_bundle, decode_bundle = run_get c_bundle,
     encode_init = run_put c_init, decode_init = run_get c_init, encode_ack = run_put c_ack, decode_ack = run_get c_ack,
     encode_replay = run_put c_replay, decode_replay = run_get c_replay \<rparr>"

lemma sample_handshake_codec_ok: "handshake_codec_ok sample_handshake_codec"
  unfolding handshake_codec_ok_def sample_handshake_codec_def
  using run_roundtrip [OF c_bundle_ok] run_roundtrip [OF c_init_ok] run_roundtrip [OF c_ack_ok] run_roundtrip [OF c_replay_ok]
    init_length bundle_length ack_length replay_length by (simp add: run_put_def)

end
