(* ===== verification/Api_Properties.thy ===== *)
theory Api_Properties
  imports Handshake_Agreement Session_Properties Sample_Handshake
begin

text \<open>
  The two-party facade as a whole: generated identities are well formed, a handshake between two of them
  opens sessions that understand each other, and no handshake message is accepted twice.
\<close>

section \<open>Generated identities\<close>

lemma unused_opk_id_ok:
  assumes "unused_opk_id used draw = Some i"
  shows "i \<notin> used" "i \<le> u32_max"
proof -
  from assms obtain n where "i = opk_id_from (draw n)" and u: "i \<notin> used"
    unfolding unused_opk_id_def find_Some_iff by (auto simp del: OPK_ID_RETRY_LIMIT_def upt_rec_numeral)
  moreover have "opk_id_from x < 2 ^ 32" for x by (simp add: opk_id_from_def)
  ultimately have "i < 2 ^ 32" by simp
  then show "i \<le> u32_max" by simp
  show "i \<notin> used" by (fact u)
qed

lemma generate_opks_loop_ok:
  assumes "generate_opks_loop P used ids keys is = Ok opks" "slot_free P 32" "\<And>i. length (keys i) = 32"
  shows "list_all (opk_ok P) opks \<and> distinct (map opk_id opks) \<and> opk_id ` set opks \<inter> used = {} \<and> length opks = length is"
  using assms(1)
proof (induction "is" arbitrary: used opks)
  case (Cons i "is")
  from Cons.prems obtain key_id opk rest where k: "unused_opk_id used (ids i) = Some key_id" "opk_generate P key_id (keys i) = Ok opk"
    "generate_opks_loop P (insert key_id used) ids keys is = Ok rest" "opks = opk # rest"
    by (auto simp: res_bind_eq_Ok ok_or_def split: option.splits)
  have "opk = \<lparr> opk_id = key_id, opk_private_key = keys i, opk_public_key = x25519_public P (keys i) \<rparr>"
    using k(2) generate_x25519_keypair_ok [OF assms(3) assms(2), of i] by (simp add: opk_generate_def)
  with Cons.IH [OF k(3)] unused_opk_id_ok [OF k(1)] k(4) show ?case using assms(3) by (auto simp: opk_ok_def)
qed simp

text \<open>Random bytes of the right length.\<close>

definition identity_draws_ok :: "prims \<Rightarrow> identity_draws \<Rightarrow> bool" where
  "identity_draws_ok P d \<longleftrightarrow> length (idr_x25519 d) = 32 \<and> length (idr_spk d) = 32 \<and> (\<forall>i. length (idr_opks d i) = 32) \<and>
     \<not> is_all_zero (snd (sig_keygen P (idr_ed25519_seed d))) \<and>
     \<not> list_all (\<lambda>b. b = 0) (snd (mlkem_keygen P (idr_kyber_keygen d)))"

lemma sign_generated:
  "sig_ok P \<Longrightarrow> sig_keygen P seed = (sk, pk) \<Longrightarrow> sign_with_ed25519 P sk m = Ok (sig_sign P sk m)"
  using sig_okD(1,3) [of P seed sk pk] by (simp add: sign_with_ed25519_def)

lemma identity_create_ok:
  assumes "handshake_crypto_ok P" "identity_draws_ok P d" "identity_create P n d = Ok K"
  shows "identity_ok P K \<and> length (ik_one_time_pre_keys K) = n \<and> ik_ephemeral_secret_key K = None \<and>
    ik_inflight_handshake_init_hashes K = {} \<and> ik_recent_handshake_init_hashes K = {}"
proof -
  have c: "session_crypto_ok P" "sig_ok P" using assms(1) by (simp_all add: handshake_crypto_ok_def)
  obtain sk pk where e: "sig_keygen P (idr_ed25519_seed d) = (sk, pk)" by fastforce
  obtain dk ek where k: "mlkem_keygen P (idr_kyber_keygen d) = (dk, ek)" by fastforce
  have dr: "length (idr_x25519 d) = 32" "length (idr_spk d) = 32" "\<And>i. length (idr_opks d i) = 32" "\<not> is_all_zero pk"
    "\<not> list_all (\<lambda>b. b = 0) ek" using assms(2) e k by (simp_all add: identity_draws_ok_def)
  have ed: "generate_ed25519_keypair P (idr_ed25519_seed d) = Ok (sk, pk)"
    using sig_okD(1) [OF c(2) e] session_crypto_okD(7) [OF c(1)] new_handle_exact [of sk 64 P] by (simp add: generate_ed25519_keypair_def e)
  note x = generate_x25519_keypair_ok [OF dr(1) session_crypto_okD(6) [OF c(1)]]
    and s = generate_x25519_keypair_ok [OF dr(2) session_crypto_okD(6) [OF c(1)]]
  note ky = kyber_generate_keypair_ok [OF session_crypto_okD(4,7) [OF c(1)] k, of "idr_kyber_selftest d"]
  have lx: "length (x25519_public P (idr_x25519 d)) = 32" "length (x25519_public P (idr_spk d)) = 32"
    using x25519_public_ok(1) [OF c(1)] dr by simp_all
  from assms(3) obtain opks where o: "generate_one_time_pre_keys_excluding P n {} (idr_opk_ids d) (idr_opks d) = Ok opks"
    and K: "K = identity_keys_new (sk, pk) (idr_x25519 d, x25519_public P (idr_x25519 d)) (le_value (take 4 (idr_spk_id d)), idr_spk d,
      x25519_public P (idr_spk d), sig_sign P sk (x25519_public P (idr_spk d))) opks (dk, ek) (sig_sign P sk (x25519_public P (idr_x25519 d)))"
    using sig_okD [OF c(2) e] by (auto simp: identity_create_def ed x s ky lx sign_generated [OF c(2) e] ed25519_key_pair_new_def
        x25519_key_pair_new_def signed_pre_key_pair_new_def res_bind_eq_Ok Let_def)
  have op: "list_all (opk_ok P) opks \<and> distinct (map opk_id opks) \<and> length opks = n"
    using o generate_opks_loop_ok [of P "{}" "idr_opk_ids d" "idr_opks d" "[0..<n]" opks, OF _ session_crypto_okD(6) [OF c(1)] dr(3)]
    by (auto simp: generate_one_time_pre_keys_excluding_def split: if_splits)
  have "le_value (take 4 (idr_spk_id d)) \<le> u32_max"
    using le_value_bound [of "take 4 (idr_spk_id d)"] power_increasing [of "length (take 4 (idr_spk_id d))" 4 "256::nat"] by simp
  with op dr e k show ?thesis by (auto simp: K identity_keys_new_def identity_ok_def)
qed

section \<open>Accepted handshakes are remembered\<close>

definition replay_ok :: "identity_keys \<Rightarrow> bool" where
  "replay_ok K \<longleftrightarrow> ik_recent_handshake_init_hashes K = set (ik_recent_handshake_init_order K) \<and>
     distinct (ik_recent_handshake_init_order K) \<and> length (ik_recent_handshake_init_order K) \<le> MAX_SEEN_HANDSHAKE_INITS"

lemma prune_recent_eq:
  "prune_recent hs xs = (hs - set (take (length xs - MAX_SEEN_HANDSHAKE_INITS) xs), drop (length xs - MAX_SEEN_HANDSHAKE_INITS) xs)"
proof (induction hs xs rule: prune_recent.induct)
  case (2 hashes oldest order)
  show ?case
  proof (cases "length (oldest # order) > MAX_SEEN_HANDSHAKE_INITS")
    case True
    then have n: "length (oldest # order) - MAX_SEEN_HANDSHAKE_INITS = Suc (length order - MAX_SEEN_HANDSHAKE_INITS)" by simp
    show ?thesis using 2 [OF True] True unfolding n by auto
  qed simp
qed simp

lemma remember_ok:
  assumes "replay_ok K" "fp \<notin> ik_recent_handshake_init_hashes K" "length fp = 32"
  shows "\<exists>K'. remember_handshake_init_fingerprint K fp = (Ok (), K') \<and> replay_ok K' \<and>
    ik_recent_handshake_init_order K' = drop (Suc (length (ik_recent_handshake_init_order K)) - MAX_SEEN_HANDSHAKE_INITS)
      (ik_recent_handshake_init_order K @ [fp]) \<and>
    ik_inflight_handshake_init_hashes K' = ik_inflight_handshake_init_hashes K - {fp} \<and>
    ik_one_time_pre_keys K' = ik_one_time_pre_keys K"
proof -
  let ?xs = "ik_recent_handshake_init_order K @ [fp]" and ?n = "Suc (length (ik_recent_handshake_init_order K)) - MAX_SEEN_HANDSHAKE_INITS"
  have d: "distinct ?xs" using assms(1,2) by (auto simp: replay_ok_def)
  have "set (take ?n ?xs) \<inter> set (drop ?n ?xs) = {}" using d by (rule set_take_disj_set_drop_if_distinct) simp
  moreover have "set ?xs = set (take ?n ?xs) \<union> set (drop ?n ?xs)" by (simp only: append_take_drop_id set_append [symmetric])
  ultimately have s: "insert fp (set (ik_recent_handshake_init_order K)) - set (take ?n ?xs) = set (drop ?n ?xs)" by auto
  have "distinct (drop ?n ?xs)" "length (drop ?n ?xs) \<le> MAX_SEEN_HANDSHAKE_INITS" using d assms(1) by (auto simp only: distinct_drop length_drop) auto
  with assms s show ?thesis
    by (auto simp: remember_handshake_init_fingerprint_def prune_recent_eq replay_ok_def Let_def)
qed

lemma replay_ok_inflight [simp]: "replay_ok (K\<lparr> ik_inflight_handshake_init_hashes := h \<rparr>) = replay_ok K"
  by (simp add: replay_ok_def)

lemma inflight_reads:
  "get_one_time_pre_key_private_by_id (K\<lparr> ik_inflight_handshake_init_hashes := h \<rparr>) = get_one_time_pre_key_private_by_id K"
  "get_signed_pre_key_private_copy (K\<lparr> ik_inflight_handshake_init_hashes := h \<rparr>) = get_signed_pre_key_private_copy K"
  "get_identity_x25519_private_key_copy (K\<lparr> ik_inflight_handshake_init_hashes := h \<rparr>) = get_identity_x25519_private_key_copy K"
  "decapsulate_kyber_ciphertext P (K\<lparr> ik_inflight_handshake_init_hashes := h \<rparr>) = decapsulate_kyber_ciphertext P K"
  "clone_kyber_secret_key P (K\<lparr> ik_inflight_handshake_init_hashes := h \<rparr>) = clone_kyber_secret_key P K"
  "ik_kyber_public (K\<lparr> ik_inflight_handshake_init_hashes := h \<rparr>) = ik_kyber_public K"
  by (simp_all add: fun_eq_iff get_one_time_pre_key_private_by_id_def find_opk_def get_signed_pre_key_private_copy_def
      get_identity_x25519_private_key_copy_def decapsulate_kyber_ciphertext_def clone_kyber_secret_key_def)

lemma respond_inflight [simp]:
  "respond P H (K\<lparr> ik_inflight_handshake_init_hashes := h \<rparr>) b m mm np now = respond P H K b m mm np now"
  unfolding respond_def inflight_reads ..

lemma consume_keeps:
  assumes "consume_one_time_pre_key_by_id K i = (r, K')"
  shows "ik_recent_handshake_init_hashes K' = ik_recent_handshake_init_hashes K"
    "ik_recent_handshake_init_order K' = ik_recent_handshake_init_order K"
    "ik_inflight_handshake_init_hashes K' = ik_inflight_handshake_init_hashes K"
    "r = Ok () \<Longrightarrow> ik_one_time_pre_keys K' = remove_opk i (ik_one_time_pre_keys K)" "is_ok r = (find_opk i K \<noteq> None)"
  using assms by (auto simp: consume_one_time_pre_key_by_id_def Let_def split: if_splits)

text \<open>The fingerprint of a message.\<close>

definition fingerprint_of :: "prims \<Rightarrow> handshake_codec \<Rightarrow> bytes \<Rightarrow> bytes option" where
  "fingerprint_of P H b = (case decode_init H b of None \<Rightarrow> None | Some m \<Rightarrow> map_option (sha256 P) (encode_init H m))"

definition remembers :: "prims \<Rightarrow> handshake_codec \<Rightarrow> bytes \<Rightarrow> 'a pres \<Rightarrow> identity_keys \<Rightarrow> identity_keys \<Rightarrow> bool" where
  "remembers P H ib r K K' \<longleftrightarrow> replay_ok K' \<and> (if is_ok r
    then \<exists>fp. fingerprint_of P H ib = Some fp \<and> fp \<notin> set (ik_recent_handshake_init_order K) \<and>
      ik_recent_handshake_init_order K' = drop (Suc (length (ik_recent_handshake_init_order K)) - MAX_SEEN_HANDSHAKE_INITS)
        (ik_recent_handshake_init_order K @ [fp])
    else ik_recent_handshake_init_order K' = ik_recent_handshake_init_order K)"

lemma remembers_failed [simp]: "remembers P H ib (Err e) K K' = (replay_ok K' \<and> ik_recent_handshake_init_order K' = ik_recent_handshake_init_order K)"
  by (simp add: remembers_def)

lemma dropped_remembers:
  assumes "replay_ok K" "ik_recent_handshake_init_hashes K1 = ik_recent_handshake_init_hashes K"
    "ik_recent_handshake_init_order K1 = ik_recent_handshake_init_order K"
  shows "remembers P H ib (Err e) K (fst (reservation_drop (None :: 'g replay_guard option) fp True False rr (K1, g)))"
  using assms by (simp add: reservation_drop_def release_handshake_init_fingerprint_def replay_ok_def)

lemma commit_remembers:
  assumes "replay_ok K" "fp \<notin> ik_recent_handshake_init_hashes K" "length fp = 32" "fingerprint_of P H ib = Some fp"
    and "ik_recent_handshake_init_hashes K1 = ik_recent_handshake_init_hashes K" "ik_recent_handshake_init_order K1 = ik_recent_handshake_init_order K"
  shows "\<exists>K'. reservation_commit (None :: 'g replay_guard option) fp rr (K1, g) = (Ok (), K', g) \<and> remembers P H ib (Ok x) K K'"
proof -
  have "replay_ok K1" using assms(1,5,6) by (simp add: replay_ok_def)
  from remember_ok [OF this _ assms(3)] assms show ?thesis
    by (auto simp: reservation_commit_def remembers_def replay_ok_def)
qed

text \<open>What one call of the responder does to the fingerprints it remembers.\<close>

lemma process_remembers:
  assumes "replay_ok K"
  shows "case responder_process P H (None :: 'g replay_guard option) b ib mm np now (K, g) of (r, K', _) \<Rightarrow> remembers P H ib r K K'"
proof (cases "res_bind (validate_bundle P b) (\<lambda>_. res_bind (validate_max_messages_per_chain mm) (\<lambda>_.
    if length ib > MAX_HANDSHAKE_MESSAGE_SIZE then Err (InvalidInput ''Message too large'')
    else res_bind (ok_or (Decode ''Failed to parse HandshakeInit: {e}'') (decode_init H ib)) (\<lambda>init.
         res_bind (build_handshake_init_fingerprint P H init) (\<lambda>fingerprint. Ok (init, fingerprint)))))")
  case (Inl e)
  then show ?thesis using assms by (simp add: responder_process_def)
next
  case (Inr p)
  obtain m fp where p: "p = (m, fp)" by fastforce
  have f: "fingerprint_of P H ib = Some fp"
    using Inr by (auto simp: p res_bind_eq_Ok ok_or_def fingerprint_of_def build_handshake_init_fingerprint_def
        encode_handshake_init_canonical_def split: if_splits option.splits)
  obtain r0 K1 where r0: "reserve_handshake_init_fingerprint K fp = (r0, K1)" by fastforce
  show ?thesis
  proof (cases "r0 = Ok True")
    case False
    then have "K1 = K" using r0 by (auto simp: reserve_handshake_init_fingerprint_def split: if_splits)
    moreover from False have "r0 = Ok False \<or> (\<exists>e. r0 = Err e)" by (cases r0) auto
    ultimately show ?thesis using assms r0 Inr p by (auto simp: responder_process_def reservation_reserve_def)
  next
    case True
    then have K1: "K1 = K\<lparr> ik_inflight_handshake_init_hashes := insert fp (ik_inflight_handshake_init_hashes K) \<rparr>"
      and fp: "length fp = 32" "fp \<notin> ik_recent_handshake_init_hashes K"
      using r0 by (auto simp: reserve_handshake_init_fingerprint_def split: if_splits)
    obtain c K2 where c: "(case hi_one_time_pre_key_id m of None \<Rightarrow> (Ok (), K1) | Some i \<Rightarrow> consume_one_time_pre_key_by_id K1 i) = (c, K2)"
      by fastforce
    have K2: "ik_recent_handshake_init_hashes K2 = ik_recent_handshake_init_hashes K"
      "ik_recent_handshake_init_order K2 = ik_recent_handshake_init_order K"
      using c consume_keeps(1,2) [of K1 _ c K2] by (auto simp: K1 split: option.splits)
    have K1': "ik_recent_handshake_init_hashes K1 = ik_recent_handshake_init_hashes K"
      "ik_recent_handshake_init_order K1 = ik_recent_handshake_init_order K" by (simp_all add: K1)
    have red: "responder_process P H (None :: 'g replay_guard option) b ib mm np now (K, g) =
      (case respond P H K1 b m mm np now of Err e \<Rightarrow> (Err e, reservation_drop None fp True False False (K1, g))
       | Ok res \<Rightarrow> (case c of Err e \<Rightarrow> (Err e, reservation_drop None fp True False False (K2, g))
         | Ok _ \<Rightarrow> (case reservation_commit None fp False (K2, g) of (Err e, S3) \<Rightarrow> (Err e, S3) | (Ok _, S3) \<Rightarrow> (Ok res, S3))))"
      using True r0 Inr p c by (simp add: responder_process_def reservation_reserve_def split: sum.splits)
    have D: "case (Err e, reservation_drop (None :: 'g replay_guard option) fp True False False (K3, g)) of (r, K', _) \<Rightarrow> remembers P H ib (r :: handshake_responder pres) K K'"
      if "ik_recent_handshake_init_hashes K3 = ik_recent_handshake_init_hashes K"
        "ik_recent_handshake_init_order K3 = ik_recent_handshake_init_order K" for e K3
      using dropped_remembers [OF assms that, where e = e and fp = fp and rr = False and g = g]
      by (cases "reservation_drop (None :: 'g replay_guard option) fp True False False (K3, g)") simp
    show ?thesis
    proof (cases "respond P H K1 b m mm np now")
      case (Inl e)
      then show ?thesis unfolding red using D [OF K1'] by simp
    next
      case (Inr res)
      from commit_remembers [OF assms fp(2,1) f K2, of False g res] show ?thesis unfolding red using D [OF K2] Inr by (cases c) auto
    qed
  qed
qed

lemma accept_remembers:
  assumes "replay_ok (ap_identity ap)"
  shows "case accept_session_for_bundle P H (None :: 'g replay_guard option) ib bb np now (ap, g) of
    (r, ap', _) \<Rightarrow> remembers P H ib r (ap_identity ap) (ap_identity ap')"
proof (cases "decode_bundle H bb")
  case None
  then show ?thesis using assms by (simp add: accept_session_for_bundle_def)
next
  case (Some b)
  obtain r K' g' where r: "responder_process P H (None :: 'g replay_guard option) b ib (ap_max_messages ap) np now (ap_identity ap, g) = (r, K', g')"
    using prod_cases3 by blast
  have "remembers P H ib r (ap_identity ap) K'"
    using process_remembers [OF assms, of P H ib b "ap_max_messages ap" np now g] by (simp add: r)
  then show ?thesis using assms Some r by (cases r) (simp_all add: accept_session_for_bundle_def remembers_def)
qed

section \<open>Sequences of handshakes\<close>

text \<open>The calls that an application makes to accept sessions, each with the message, the bundle it answers, a
  nonce prefix and the time; and which of them succeed.\<close>

fun accept_all :: "prims \<Rightarrow> handshake_codec \<Rightarrow> (bytes \<times> bytes \<times> bytes \<times> nat pres) list \<Rightarrow> aura_protocol \<Rightarrow> bool list" where
  "accept_all P H [] ap = []"
| "accept_all P H ((ib, bb, np, now) # calls) ap =
     (case accept_session_for_bundle P H (None :: unit replay_guard option) ib bb np now (ap, ()) of
        (r, ap', _) \<Rightarrow> is_ok r # accept_all P H calls ap')"

lemma length_accept_all [simp]: "length (accept_all P H calls ap) = length calls"
  by (induction P H calls ap rule: accept_all.induct) (auto split: prod.splits)

lemma accept_all_replay:
  assumes "replay_ok (ap_identity ap)" "ik_recent_handshake_init_order (ap_identity ap) = xs @ fp # ys"
    and "j < length calls" "accept_all P H calls ap ! j" "fingerprint_of P H (fst (calls ! j)) = Some fp"
  shows "MAX_SEEN_HANDSHAKE_INITS \<le> length (filter id (take j (accept_all P H calls ap))) + length ys"
  using assms
proof (induction P H calls ap arbitrary: j xs ys rule: accept_all.induct)
  case (2 P H ib bb np now calls ap)
  obtain r ap' g' where a: "accept_session_for_bundle P H (None :: unit replay_guard option) ib bb np now (ap, ()) = (r, ap', g')"
    using prod_cases3 by blast
  have rem: "remembers P H ib r (ap_identity ap) (ap_identity ap')" using accept_remembers [OF 2(2), of P H ib bb np now "()"] by (simp add: a)
  then have ok: "replay_ok (ap_identity ap')" by (simp add: remembers_def)
  show ?case
  proof (cases j)
    case 0
    with 2(3,5,6) rem show ?thesis by (auto simp: a remembers_def)
  next
    case (Suc i)
    have j: "i < length calls" "accept_all P H calls ap' ! i" "fingerprint_of P H (fst (calls ! i)) = Some fp"
      using 2(4-6) Suc by (simp_all add: a)
    note IH = 2(1) [OF a [symmetric] refl ok _ j]
    show ?thesis
    proof (cases "is_ok r")
      case False
      then have "ik_recent_handshake_init_order (ap_identity ap') = xs @ fp # ys" using rem 2(3) by (simp add: remembers_def)
      from IH [OF this] False Suc show ?thesis by (simp add: a)
    next
      case True
      let ?n = "Suc (length xs + Suc (length ys)) - MAX_SEEN_HANDSHAKE_INITS"
      from True rem 2(3) obtain fp' where o: "ik_recent_handshake_init_order (ap_identity ap') = drop ?n (xs @ fp # (ys @ [fp']))"
        by (auto simp: remembers_def)
      show ?thesis
      proof (cases "?n \<le> length xs")
        case True
        with o have "ik_recent_handshake_init_order (ap_identity ap') = drop ?n xs @ fp # (ys @ [fp'])" by simp
        from IH [OF this] \<open>is_ok r\<close> Suc show ?thesis by (simp add: a)
      qed (use \<open>is_ok r\<close> Suc in \<open>simp add: a\<close>)
    qed
  qed
qed simp

lemma accept_all_later:
  assumes "replay_ok (ap_identity ap)" "i < j" "j < length calls" "accept_all P H calls ap ! i" "accept_all P H calls ap ! j"
    and "decode_init H (fst (calls ! i)) = decode_init H (fst (calls ! j))"
  shows "MAX_SEEN_HANDSHAKE_INITS \<le> length (filter id (take (j - Suc i) (drop (Suc i) (accept_all P H calls ap))))"
  using assms
proof (induction P H calls ap arbitrary: i j rule: accept_all.induct)
  case (2 P H ib bb np now calls ap)
  obtain r ap' g' where a: "accept_session_for_bundle P H (None :: unit replay_guard option) ib bb np now (ap, ()) = (r, ap', g')"
    using prod_cases3 by blast
  have rem: "remembers P H ib r (ap_identity ap) (ap_identity ap')" using accept_remembers [OF 2(2), of P H ib bb np now "()"] by (simp add: a)
  then have ok: "replay_ok (ap_identity ap')" by (simp add: remembers_def)
  obtain k where j: "j = Suc k" using 2(3) by (cases j) auto
  have k: "k < length calls" "accept_all P H calls ap' ! k" using 2(4,6) by (simp_all add: a j)
  show ?case
  proof (cases i)
    case (Suc l)
    with 2(1) [OF a [symmetric] refl ok, of l k] 2(3,5,7) k show ?thesis by (simp add: a j)
  next
    case 0
    with 2(5) rem obtain fp where fp: "fingerprint_of P H ib = Some fp" and
      o: "ik_recent_handshake_init_order (ap_identity ap') = drop (Suc (length (ik_recent_handshake_init_order (ap_identity ap))) - MAX_SEEN_HANDSHAKE_INITS)
        (ik_recent_handshake_init_order (ap_identity ap) @ [fp])" by (auto simp: a remembers_def)
    have "Suc (length (ik_recent_handshake_init_order (ap_identity ap))) - MAX_SEEN_HANDSHAKE_INITS \<le> length (ik_recent_handshake_init_order (ap_identity ap))"
      using 2(2) by (simp add: replay_ok_def)
    with o obtain xs where o': "ik_recent_handshake_init_order (ap_identity ap') = xs @ fp # []" by simp
    have "fingerprint_of P H (fst (calls ! k)) = Some fp" using fp 2(7) 0 by (simp add: fingerprint_of_def j)
    from accept_all_replay [OF ok o' k this] 0 show ?thesis by (simp add: a j id_def)
  qed
qed simp

section \<open>A handshake over the facade\<close>

lemma validate_mm: "0 < mm \<Longrightarrow> mm \<le> 10000 \<Longrightarrow> validate_max_messages_per_chain mm = Ok ()"
  by (simp add: validate_max_messages_per_chain_def)

lemma start_ok:
  assumes "session_crypto_ok P" "validate_bundle P b = Ok ()" "0 < mm" "mm \<le> 10000" "ik_identity_ed25519_public K \<noteq> pkb_identity_ed25519_public b"
    and "length (ind_ephemeral d) = 32" "ik_ephemeral_secret_key K = None"
    and "initiate P H (with_ephemeral P K (ind_ephemeral d)) b mm d now = Ok ini"
  shows "initiator_start P H K b mm d now = (Ok ini, clear_ephemeral_key_pair K)"
  using assms generate_ephemeral_ok [OF assms(1,6), of K] by (simp add: initiator_start_def validate_mm)

lemma remove_opk_find:
  "distinct (map opk_id opks) \<Longrightarrow> find (\<lambda>opk. opk_id opk = i) (remove_opk i opks) = None"
  by (induction opks) (auto simp: find_None_iff image_iff)

lemma process_accepts:
  assumes "validate_bundle P b = Ok ()" "0 < mm" "mm \<le> 10000" "length ib \<le> 16384" "decode_init H ib = Some m" "encode_init H m = Some ib"
    and "length (sha256 P ib) = 32" "sha256 P ib \<notin> ik_recent_handshake_init_hashes K \<union> ik_inflight_handshake_init_hashes K"
    and "card (ik_inflight_handshake_init_hashes K) < 4096" "respond P H K b m mm np now = Ok res" "replay_ok K"
    and "\<forall>i. hi_one_time_pre_key_id m = Some i \<longrightarrow> find_opk i K \<noteq> None" "distinct (map opk_id (ik_one_time_pre_keys K))"
  shows "\<exists>K'. responder_process P H (None :: 'g replay_guard option) b ib mm np now (K, g) = (Ok res, K', g) \<and>
    (\<forall>i. hi_one_time_pre_key_id m = Some i \<longrightarrow> find_opk i K' = None)"
proof -
  let ?fp = "sha256 P ib"
  define K1 where "K1 = K\<lparr> ik_inflight_handshake_init_hashes := insert ?fp (ik_inflight_handshake_init_hashes K) \<rparr>"
  have r: "reserve_handshake_init_fingerprint K ?fp = (Ok True, K1)" "replay_ok K1" "respond P H K1 b m mm np now = Ok res"
    using assms(7-11) by (simp_all add: reserve_handshake_init_fingerprint_def K1_def)
  obtain c K2 where c: "(case hi_one_time_pre_key_id m of None \<Rightarrow> (Ok (), K1) | Some i \<Rightarrow> consume_one_time_pre_key_by_id K1 i) = (c, K2)"
    by fastforce
  have "is_ok c" using c assms(12) consume_keeps(5) [of K1 _ c K2] by (auto simp: K1_def find_opk_def split: option.splits)
  then have c1: "c = Ok ()" by (cases c) auto
  have K2: "ik_recent_handshake_init_hashes K2 = ik_recent_handshake_init_hashes K1" "ik_recent_handshake_init_order K2 = ik_recent_handshake_init_order K1"
    using c consume_keeps(1,2) [of K1 _ c K2] by (auto split: option.splits)
  have o: "\<forall>i. hi_one_time_pre_key_id m = Some i \<longrightarrow> ik_one_time_pre_keys K2 = remove_opk i (ik_one_time_pre_keys K)"
    using c c1 consume_keeps(4) [of K1 _ c K2] by (auto simp: K1_def)
  have "replay_ok K2" "?fp \<notin> ik_recent_handshake_init_hashes K2" using r(2) K2 assms(8) by (simp_all add: replay_ok_def K1_def)
  from remember_ok [OF this assms(7)] obtain K3 where k: "remember_handshake_init_fingerprint K2 ?fp = (Ok (), K3)"
    "ik_one_time_pre_keys K3 = ik_one_time_pre_keys K2" by blast
  have "responder_process P H (None :: 'g replay_guard option) b ib mm np now (K, g) = (Ok res, K3, g)"
    using assms(1-6) r c k(1) by (simp add: responder_process_def validate_mm build_handshake_init_fingerprint_def
        encode_handshake_init_canonical_def reservation_reserve_def reservation_commit_def c1)
  moreover have "\<forall>i. hi_one_time_pre_key_id m = Some i \<longrightarrow> find_opk i K3 = None"
    using o k(2) remove_opk_find [OF assms(13)] by (simp add: find_opk_def)
  ultimately show ?thesis by blast
qed

section \<open>Properties\<close>

lemma bundle_count: "bundle_size (proto_bundle (create_public_bundle K)) \<le> 16384 \<Longrightarrow> length (ik_one_time_pre_keys K) \<le> 4096"
proof -
  have "30 * length xs \<le> sum_list (map (\<lambda>x. 30 + f x) xs)" for xs :: "one_time_pre_key list" and f :: "one_time_pre_key \<Rightarrow> nat"
    by (induction xs) auto
  from this [of "ik_one_time_pre_keys K" "length \<circ> opk_public_key"] show "bundle_size (proto_bundle (create_public_bundle K)) \<le> 16384 \<Longrightarrow> ?thesis"
    by (simp add: bundle_size_def proto_bundle_def create_public_bundle_def o_def)
qed

lemma bundle_roundtrip:
  assumes "handshake_codec_ok H" "identity_ok P K" "bundle_size (proto_bundle (create_public_bundle K)) \<le> 16384"
  obtains bb where "encode_bundle H (proto_bundle (create_public_bundle K)) = Some bb" "decode_bundle H bb = Some (proto_bundle (create_public_bundle K))"
    "length bb \<le> 16384"
proof -
  have "bundle_bounded (proto_bundle (create_public_bundle K))"
    using assms(2,3) by (auto simp: bundle_bounded_def proto_bundle_def create_public_bundle_def identity_ok_def opk_ok_def list_all_iff)
  moreover from assms(1) obtain bb where "encode_bundle H (proto_bundle (create_public_bundle K)) = Some bb \<and>
      (bundle_bounded (proto_bundle (create_public_bundle K)) \<longrightarrow>
        decode_bundle H bb = Some (proto_bundle (create_public_bundle K)) \<and> length bb \<le> bundle_size (proto_bundle (create_public_bundle K)))"
    unfolding handshake_codec_ok_def by blast
  ultimately show ?thesis using that assms(3) by auto
qed

text \<open>Alice opens a session to Bob: what the two sides get.\<close>

lemma facade_handshake:
  assumes cr: "handshake_crypto_ok P" "handshake_codec_ok H"
    and ids: "identity_ok P (ap_identity alice)" "identity_ok P (ap_identity bob)" "replay_ok (ap_identity bob)"
    and ne: "ik_identity_ed25519_public (ap_identity alice) \<noteq> ik_identity_ed25519_public (ap_identity bob)"
    and st: "ik_ephemeral_secret_key (ap_identity alice) = None" "card (ik_inflight_handshake_init_hashes (ap_identity bob)) < 4096"
    and mm: "ap_max_messages alice = mm" "ap_max_messages bob = mm" "0 < mm" "mm \<le> 10000"
    and sz: "bundle_size (proto_bundle (create_public_bundle (ap_identity bob))) \<le> 16384"
    and d: "init_draws_ok P d" "length np = 8" and t: "ta \<le> 9223372036854775807" "tb \<le> 9223372036854775807"
  shows "\<exists>bb ini ib. pre_key_bundle_bytes H bob = Ok bb \<and>
    begin_session P H alice bb d (Ok ta) = (Ok (ini, ib), alice\<lparr> ap_identity := clear_ephemeral_key_pair (ap_identity alice) \<rparr>) \<and>
    (sha256 P ib \<notin> ik_recent_handshake_init_hashes (ap_identity bob) \<union> ik_inflight_handshake_init_hashes (ap_identity bob) \<longrightarrow>
      (\<exists>res ab bob' SA SB. accept_session P H None ib np (Ok tb) (bob, ()) = (Ok (res, ab), bob', ()) \<and>
        accept_session_for_bundle P H None ib bb np (Ok tb) (bob, ()) = (Ok (res, ab), bob', ()) \<and>
        initiator_finish P H ini ab = Ok SA \<and> responder_finish P res = Ok SB \<and>
        paired P SA SB \<and> fresh_session (ind_nonce_prefix d) SA \<and> fresh_session np SB \<and>
        (\<forall>i. hi_one_time_pre_key_id (hin_init_message ini) = Some i \<longrightarrow> find_opk i (ap_identity bob') = None)))"
proof -
  have c: "session_crypto_ok P" "hash_ok P" using cr(1) by (simp_all add: handshake_crypto_ok_def)
  obtain bb where bb: "encode_bundle H (proto_bundle (create_public_bundle (ap_identity bob))) = Some bb"
    "decode_bundle H bb = Some (proto_bundle (create_public_bundle (ap_identity bob)))" "length bb \<le> 16384"
    by (rule bundle_roundtrip [OF cr(2) ids(2) sz])
  note val = validate_bundle_ok [OF cr(1) ids(2) bundle_count [OF sz]]
  have le: "length (ind_ephemeral d) = 32" using d(1) by (simp add: init_draws_ok_def)
  from handshake_agree [OF cr ids(1,2) ne d mm(3,4) t refl] obtain ini res SA SB where
    h: "initiate P H (with_ephemeral P (ap_identity alice) (ind_ephemeral d)) (proto_bundle (create_public_bundle (ap_identity bob))) mm d (Ok ta) = Ok ini"
    "respond P H (ap_identity bob) (proto_bundle (create_public_bundle (ap_identity bob))) (hin_init_message ini) mm np (Ok tb) = Ok res"
    "encode_init H (hin_init_message ini) = Some (hin_init_bytes ini)" "decode_init H (hin_init_bytes ini) = Some (hin_init_message ini)"
    "length (hin_init_bytes ini) \<le> 16384" "\<forall>i. hi_one_time_pre_key_id (hin_init_message ini) = Some i \<longrightarrow> find_opk i (ap_identity bob) \<noteq> None"
    "initiator_finish P H ini (hre_ack_bytes res) = Ok SA" "responder_finish P res = Ok SB"
    "paired P SA SB" "fresh_session (ind_nonce_prefix d) SA" "fresh_session np SB" by blast
  have start: "begin_session P H alice bb d (Ok ta) = (Ok (ini, hin_init_bytes ini), alice\<lparr> ap_identity := clear_ephemeral_key_pair (ap_identity alice) \<rparr>)"
    using start_ok [OF c(1) val mm(3,4) _ le st(1) h(1)] ne bb by (simp add: begin_session_def mm)
  have "\<exists>bob'. accept_session_for_bundle P H None (hin_init_bytes ini) bb np (Ok tb) (bob, ()) = (Ok (res, hre_ack_bytes res), bob', ()) \<and>
      (\<forall>i. hi_one_time_pre_key_id (hin_init_message ini) = Some i \<longrightarrow> find_opk i (ap_identity bob') = None)"
    if f: "sha256 P (hin_init_bytes ini) \<notin> ik_recent_handshake_init_hashes (ap_identity bob) \<union> ik_inflight_handshake_init_hashes (ap_identity bob)"
  proof -
    have "length (sha256 P (hin_init_bytes ini)) = 32" "distinct (map opk_id (ik_one_time_pre_keys (ap_identity bob)))"
      using c(2) ids(2) by (simp_all add: hash_ok_def identity_ok_def)
    from process_accepts [OF val mm(3,4) h(5,4,3) this(1) f st(2) h(2) ids(3) h(6) this(2), where 'g = unit] bb show ?thesis
      by (auto simp: accept_session_for_bundle_def mm)
  qed
  with start h(7-11) bb(1) show ?thesis by (auto simp: accept_session_def pre_key_bundle_bytes_def)
qed

section \<open>Concrete identities\<close>

definition sample_identity :: "u8 \<Rightarrow> identity_keys" where
  "sample_identity n = identity_keys_new (sig_keygen sample_prims (fill 32 [n])) (fill 32 [n], x25519_public sample_prims (fill 32 [n]))
     (1, fill 32 [n, 1], x25519_public sample_prims (fill 32 [n, 1]),
      sig_sign sample_prims (fst (sig_keygen sample_prims (fill 32 [n]))) (x25519_public sample_prims (fill 32 [n, 1])))
     [\<lparr> opk_id = 5, opk_private_key = fill 32 [n, 2], opk_public_key = x25519_public sample_prims (fill 32 [n, 2]) \<rparr>]
     (mlkem_keygen sample_prims (fill 32 [n]))
     (sig_sign sample_prims (fst (sig_keygen sample_prims (fill 32 [n]))) (x25519_public sample_prims (fill 32 [n])))"

definition sample_protocol :: "u8 \<Rightarrow> aura_protocol" where
  "sample_protocol n = \<lparr> ap_identity = sample_identity n, ap_max_messages = 1000 \<rparr>"

definition sample_init_draws :: init_draws where
  "sample_init_draws = \<lparr> ind_ephemeral = fill 32 [9], ind_opk_index = 0, ind_encaps = fill 32 [8], ind_nonce_prefix = fill 8 [1] \<rparr>"

lemma sample_handshake_crypto_ok: "handshake_crypto_ok sample_prims"
  by (simp add: handshake_crypto_ok_def sample_session_crypto_ok sample_hash_ok sample_sig_ok)

lemma sample_identity_ok:
  assumes "n \<noteq> 0"
  shows "identity_ok sample_prims (sample_identity n)" "replay_ok (sample_identity n)"
proof -
  have "sig_keygen sample_prims s = (fill 32 s @ fill 32 s, fill 32 s)" "mlkem_keygen sample_prims s = (fill 64 s, fill 1184 [1])" for s
    by (simp_all add: sample_prims_def)
  moreover have "fill 32 (fill 32 [n]) = fill 32 [n]" by (simp add: fill_fill)
  ultimately show "identity_ok sample_prims (sample_identity n)"
    using fill_not_zero [of 32 n "[]"] fill_not_zero [of 1184 1 "[]"] assms
    by (auto simp: sample_identity_def identity_keys_new_def identity_ok_def opk_ok_def)
  show "replay_ok (sample_identity n)" by (simp add: sample_identity_def identity_keys_new_def replay_ok_def)
qed

lemma sample_init_draws_ok: "init_draws_ok sample_prims sample_init_draws"
proof -
  have "fst (mlkem_encaps sample_prims e r) = fill 1088 (fill 32 r)" for e r by (simp add: sample_prims_def)
  moreover have "fill 1088 (fill 32 (fill 32 [8])) = fill 1088 [8]" by (simp add: fill_def zeros_def replicate_add [symmetric])
  ultimately show ?thesis using fill_not_zero [of 1088 8 "[]"] by (simp add: init_draws_ok_def sample_init_draws_def)
qed

lemma sample_init_prefix: "ind_nonce_prefix sample_init_draws = fill 8 [1]"
  by (simp add: sample_init_draws_def)

lemma sample_protocol_facts:
  "identity_ok sample_prims (ap_identity (sample_protocol 3))" "identity_ok sample_prims (ap_identity (sample_protocol 4))"
  "replay_ok (ap_identity (sample_protocol 4))" "ap_max_messages (sample_protocol n) = 1000"
  "ik_identity_ed25519_public (ap_identity (sample_protocol 3)) \<noteq> ik_identity_ed25519_public (ap_identity (sample_protocol 4))"
  "ik_ephemeral_secret_key (ap_identity (sample_protocol n)) = None" "ik_inflight_handshake_init_hashes (ap_identity (sample_protocol n)) = {}"
  "ik_recent_handshake_init_hashes (ap_identity (sample_protocol n)) = {}"
  "bundle_size (proto_bundle (create_public_bundle (ap_identity (sample_protocol 4)))) \<le> 16384"
proof -
  have k: "sig_keygen sample_prims s = (fill 32 s @ fill 32 s, fill 32 s)" "mlkem_keygen sample_prims s = (fill 64 s, fill 1184 [1])"
    "length (sig_sign sample_prims (fill 32 s @ fill 32 s) m) = 64" "length (x25519_public sample_prims a) = 32" for s m a
    by (simp_all add: sample_prims_def)
  show "identity_ok sample_prims (ap_identity (sample_protocol 3))" "identity_ok sample_prims (ap_identity (sample_protocol 4))"
    "replay_ok (ap_identity (sample_protocol 4))" by (simp_all add: sample_protocol_def sample_identity_ok)
  show "bundle_size (proto_bundle (create_public_bundle (ap_identity (sample_protocol 4)))) \<le> 16384"
    by (simp add: sample_protocol_def sample_identity_def identity_keys_new_def bundle_size_def proto_bundle_def create_public_bundle_def k)
  have "fill 32 [3] \<noteq> fill 32 [4]" by (simp add: fill_def)
  then show "ik_identity_ed25519_public (ap_identity (sample_protocol 3)) \<noteq> ik_identity_ed25519_public (ap_identity (sample_protocol 4))"
    by (simp add: sample_protocol_def sample_identity_def identity_keys_new_def k fill_fill)
qed (simp_all add: sample_protocol_def sample_identity_def identity_keys_new_def)

section \<open>Properties\<close>

text \<open>C1. Handshake and conversation. Let two parties have well-formed identities with different signing keys, let
  the responder's bundle fit the size limit, and let the primitives and the wire format behave as documented.
  Then the initiator accepts the responder's bundle and clears its ephemeral key again. If the responder has
  not seen the message before, it accepts it, deletes the one-time pre-key that was used, and both sides
  finish with sessions over which any conversation is delivered, every payload as it was sent.\<close>

theorem handshake_conversation:
  assumes "handshake_crypto_ok P" "handshake_codec_ok H" "codec_ok C" "identity_ok P (ap_identity alice)" "identity_ok P (ap_identity bob)"
    and "replay_ok (ap_identity bob)" "ik_identity_ed25519_public (ap_identity alice) \<noteq> ik_identity_ed25519_public (ap_identity bob)"
    and "ik_ephemeral_secret_key (ap_identity alice) = None"
    and "card (ik_inflight_handshake_init_hashes (ap_identity bob)) < MAX_INFLIGHT_HANDSHAKE_INITS"
    and "ap_max_messages alice = mm" "ap_max_messages bob = mm" "0 < mm" "mm \<le> MAX_MESSAGES_PER_CHAIN"
    and "bundle_size (proto_bundle (create_public_bundle (ap_identity bob))) \<le> MAX_HANDSHAKE_MESSAGE_SIZE"
    and "init_draws_ok P d" "length np = NONCE_PREFIX_BYTES" "ta \<le> 9223372036854775807" "tb \<le> 9223372036854775807"
    and "\<forall>(b, m)\<in>set ms. outgoing_ok P m" "length ms \<le> u64_max" "distinct (ind_nonce_prefix d # np # prefixes ms)"
  shows "\<exists>bundle ini init_bytes. pre_key_bundle_bytes H bob = Ok bundle \<and>
    begin_session P H alice bundle d (Ok ta) = (Ok (ini, init_bytes), alice\<lparr> ap_identity := clear_ephemeral_key_pair (ap_identity alice) \<rparr>) \<and>
    (sha256 P init_bytes \<notin> ik_recent_handshake_init_hashes (ap_identity bob) \<union> ik_inflight_handshake_init_hashes (ap_identity bob) \<longrightarrow>
      (\<exists>res ack bob' A B A' B'. accept_session P H None init_bytes np (Ok tb) (bob, ()) = (Ok (res, ack), bob', ()) \<and>
        (\<forall>i. hi_one_time_pre_key_id (hin_init_message ini) = Some i \<longrightarrow> find_opk i (ap_identity bob') = None) \<and>
        initiator_finish P H ini ack = Ok A \<and> responder_finish P res = Ok B \<and>
        converse P C ms A B = Ok (map (\<lambda>(_, m). og_payload m) ms, A', B')))"
proof -
  have n: "card (ik_inflight_handshake_init_hashes (ap_identity bob)) < 4096" "mm \<le> 10000" "length np = 8"
    "bundle_size (proto_bundle (create_public_bundle (ap_identity bob))) \<le> 16384" using assms(9,13,14,16) by simp_all
  have c: "session_crypto_ok P" using assms(1) by (simp add: handshake_crypto_ok_def)
  have conv: "\<exists>A' B'. converse P C ms A B = Ok (map (\<lambda>(_, m). og_payload m) ms, A', B')"
    if "paired P A B" "fresh_session (ind_nonce_prefix d) A" "fresh_session np B" for A B
  proof -
    have "fresh_prefixes A B ms" "counters_below (length ms) A" "counters_below (length ms) B"
      using that(2,3) assms(20,21) by (auto simp: fresh_session_def fresh_prefixes_def)
    from converse_ok [OF c assms(3) that(1) assms(19) this] show ?thesis by blast
  qed
  from facade_handshake [OF assms(1,2,4-8) n(1) assms(10-12) n(2,4) assms(15) n(3) assms(17,18)] conv show ?thesis by meson
qed

theorem handshake_conversation_witness:
  "\<exists>bundle ini init_bytes res ack bob' A B A' B'. pre_key_bundle_bytes sample_handshake_codec (sample_protocol 4) = Ok bundle \<and>
    begin_session sample_prims sample_handshake_codec (sample_protocol 3) bundle sample_init_draws (Ok 5)
      = (Ok (ini, init_bytes), (sample_protocol 3)\<lparr> ap_identity := clear_ephemeral_key_pair (ap_identity (sample_protocol 3)) \<rparr>) \<and>
    accept_session sample_prims sample_handshake_codec None init_bytes (fill 8 [2]) (Ok 6) (sample_protocol 4, ()) = (Ok (res, ack), bob', ()) \<and>
    initiator_finish sample_prims sample_handshake_codec ini ack = Ok A \<and> responder_finish sample_prims res = Ok B \<and>
    converse sample_prims sample_codec [(True, sample_message 3 [65]), (False, sample_message 4 [66, 67]), (True, sample_message 5 [])] A B
      = Ok ([[65], [66, 67], []], A', B')"
  using handshake_conversation [OF sample_handshake_crypto_ok sample_handshake_codec_ok sample_codec_ok sample_protocol_facts(1-3,5,6),
      of 1000 sample_init_draws "fill 8 [2]" 5 6 "[(True, sample_message 3 [65]), (False, sample_message 4 [66, 67]), (True, sample_message 5 [])]"]
  by (simp add: sample_protocol_facts sample_init_draws_ok sample_outgoing_ok prefixes_def sample_prefix sample_init_prefix
      del: converse.simps) blast

text \<open>C5. A handshake message is accepted once. In any sequence of calls that accept sessions, a message that was
  accepted is refused for as long as fewer than 16384 other handshakes have been accepted since,
  whatever bundle, nonce prefix and time the later call is made with, and also when the message arrives
  in another encoding.\<close>

theorem handshake_accepted_once:
  assumes "replay_ok (ap_identity ap)" "i < j" "j < length calls" "accept_all P H calls ap ! i"
    and "decode_init H (fst (calls ! i)) = decode_init H (fst (calls ! j))"
    and "length (filter id (take (j - Suc i) (drop (Suc i) (accept_all P H calls ap)))) < MAX_SEEN_HANDSHAKE_INITS"
  shows "\<not> accept_all P H calls ap ! j"
  using accept_all_later [OF assms(1-4) _ assms(5)] assms(6) by linarith

theorem handshake_accepted_once_witness:
  "\<exists>init_bytes bundle. accept_all sample_prims sample_handshake_codec
      [(init_bytes, bundle, fill 8 [2], Ok 6), (init_bytes, bundle, fill 8 [3], Ok 7)] (sample_protocol 4) = [True, False]"
proof -
  obtain bb ini ib res ab bob' where a: "accept_session_for_bundle sample_prims sample_handshake_codec (None :: unit replay_guard option) ib bb (fill 8 [2]) (Ok 6)
      (sample_protocol 4, ()) = (Ok (res, ab), bob', ())"
    using facade_handshake [OF sample_handshake_crypto_ok sample_handshake_codec_ok sample_protocol_facts(1-3,5,6),
      of 1000 sample_init_draws "fill 8 [2]" 5 6] by (simp add: sample_protocol_facts sample_init_draws_ok) blast
  let ?calls = "[(ib, bb, fill 8 [2], Ok 6), (ib, bb, fill 8 [3], Ok 7)]"
  define rs where "rs = accept_all sample_prims sample_handshake_codec ?calls (sample_protocol 4)"
  have l: "length rs = 2" unfolding rs_def by (subst length_accept_all) simp
  have 0: "rs ! 0" unfolding rs_def by (simp add: a)
  have 1: "\<not> rs ! 1"
    using handshake_accepted_once [OF sample_protocol_facts(3), of 0 1 ?calls sample_prims sample_handshake_codec, folded rs_def] 0 l by simp
  have "rs = [True, False]" using l 0 1 by (auto simp: numeral_2_eq_2 length_Suc_conv)
  then show ?thesis unfolding rs_def by blast
qed

lemma filter_kept:
  assumes "distinct (map opk_id xs)"
  shows "filter (\<lambda>opk. opk_id opk \<in> set (map opk_id (filter keep xs))) xs = filter keep xs"
proof (rule filter_cong)
  show "(opk_id opk \<in> set (map opk_id (filter keep xs))) = keep opk" if "opk \<in> set xs" for opk
    using inj_onD [OF distinct_map [THEN iffD1, OF assms, THEN conjunct2]] that by (auto simp: image_iff)
qed simp

lemma replay_encoding:
  assumes "handshake_crypto_ok P" "handshake_codec_ok H" "replay_ok K" "\<forall>fp\<in>set (ik_recent_handshake_init_order K). length fp = HMAC_BYTES"
    and "counter \<le> u64_max" "ik_identity_ed25519_public K0 = ik_identity_ed25519_public K"
    and "ik_one_time_pre_keys K = filter keep (ik_one_time_pre_keys K0)" "identity_ok P K0" "length (ik_one_time_pre_keys K0) \<le> u32_max"
    and "st = \<lparr> irs_state_version = unat IDENTITY_REPLAY_STATE_VERSION, irs_identity_ed25519_public = ik_identity_ed25519_public K,
      irs_remaining_one_time_pre_key_ids = map opk_id (ik_one_time_pre_keys K),
      irs_recent_handshake_init_fingerprints = ik_recent_handshake_init_order K, irs_external_counter = counter \<rparr>"
  obtains pt where "encode_replay H st = Some pt" "decode_replay H pt = Some st" "length pt \<le> 2 ^ 36"
proof -
  obtain es where ed: "sig_keygen P es = (ik_identity_ed25519_secret_key K0, ik_identity_ed25519_public K0)"
    using assms(8) by (auto simp: identity_ok_def)
  have l: "length (ik_identity_ed25519_public K) = 32" using sig_okD(2) [OF _ ed] assms(1,6) by (simp add: handshake_crypto_ok_def)
  have n: "length (ik_one_time_pre_keys K) \<le> u32_max" using assms(7,9) length_filter_le le_trans by metis
  have fp: "length (ik_recent_handshake_init_order K) \<le> 16384" "\<forall>fp\<in>set (ik_recent_handshake_init_order K). length fp = 32"
    using assms(3,4) by (simp_all add: replay_ok_def)
  have s: "sum_list (map (\<lambda>fp. 10 + length fp) xs) = 42 * length xs" if "\<forall>fp\<in>set xs. length fp = 32" for xs :: "bytes list"
    using that by (induction xs) simp_all
  have "replay_bounded st" using assms(5,7,8) l n fp by (auto simp: assms(10) replay_bounded_def list_all_iff identity_ok_def opk_ok_def IDENTITY_REPLAY_STATE_VERSION_def)
  moreover have "replay_size st \<le> 2 ^ 36" using l n fp(1) s [OF fp(2)] by (simp add: assms(10) replay_size_def)
  moreover from assms(2) obtain pt where "encode_replay H st = Some pt \<and> (replay_bounded st \<longrightarrow> decode_replay H pt = Some st \<and> length pt \<le> replay_size st)"
    unfolding handshake_codec_ok_def by blast
  ultimately show ?thesis using that [of pt] by auto
qed

text \<open>C10. Restoring the anti-replay state. What an identity exports under a 32-byte key and a counter is restored by
  an identity with the same signing key and the same derived one-time pre-keys: the restored
  identity has exactly the pre-keys the exporting one had left and remembers exactly its handshakes;
  and no blob with a counter below the required minimum changes anything.\<close>

theorem replay_state_roundtrip:
  assumes "handshake_crypto_ok P" "handshake_codec_ok H" "replay_ok K" "\<forall>fp\<in>set (ik_recent_handshake_init_order K). length fp = HMAC_BYTES"
    and "length key = AES_KEY_BYTES" "length nonce = AES_GCM_NONCE_BYTES" "counter \<le> u64_max"
    and "ik_identity_ed25519_public K0 = ik_identity_ed25519_public K" "ik_one_time_pre_keys K = filter keep (ik_one_time_pre_keys K0)"
    and "identity_ok P K0" "length (ik_one_time_pre_keys K0) \<le> u32_max"
  shows "\<exists>sealed. export_sealed_replay_state P H K key counter nonce = Ok sealed \<and>
    sealed_replay_state_external_counter sealed = Ok counter \<and>
    (\<forall>min. restore_sealed_replay_state P H K0 sealed key min =
      (if counter < min then (Err (InvalidState ''Sealed identity replay state is older than the expected counter''), K0)
       else (Ok counter, K0\<lparr> ik_one_time_pre_keys := ik_one_time_pre_keys K, ik_recent_handshake_init_hashes := ik_recent_handshake_init_hashes K,
         ik_recent_handshake_init_order := ik_recent_handshake_init_order K \<rparr>)))"
proof -
  define st where "st = \<lparr> irs_state_version = unat IDENTITY_REPLAY_STATE_VERSION, irs_identity_ed25519_public = ik_identity_ed25519_public K,
    irs_remaining_one_time_pre_key_ids = map opk_id (ik_one_time_pre_keys K),
    irs_recent_handshake_init_fingerprints = ik_recent_handshake_init_order K, irs_external_counter = counter \<rparr>"
  have len: "length key = 32" "length nonce = 12" using assms(5,6) by simp_all
  obtain pt where pt: "encode_replay H st = Some pt" "decode_replay H pt = Some st" "length pt \<le> 2 ^ 36"
    by (rule replay_encoding [OF assms(1-4,7-11) st_def])
  have aead: "aead_ok P" using assms(1) by (simp add: handshake_crypto_ok_def session_crypto_ok_def)
  obtain ct where ct: "aes_gcm_encrypt P key nonce pt (identity_replay_state_aad counter) = Ok ct" "length ct = length pt + 16"
    "aes_gcm_decrypt P key nonce ct (identity_replay_state_aad counter) = Ok pt"
    by (rule aes_gcm_seal [OF aead len pt(3), of "identity_replay_state_aad counter"]) (simp_all add: identity_replay_state_aad_def IDENTITY_REPLAY_STATE_AAD_def)
  define sealed where "sealed = [IDENTITY_REPLAY_STATE_VERSION] @ le_bytes 8 counter @ nonce @ ct"
  have e: "export_sealed_replay_state P H K key counter nonce = Ok sealed"
    using len pt(1) ct(1) by (simp add: export_sealed_replay_state_def sealed_def st_def [symmetric])
  have parts: "le_value (take 8 (drop 1 sealed)) = counter" "sealed ! 0 = IDENTITY_REPLAY_STATE_VERSION" "take 12 (drop 9 sealed) = nonce"
    "drop 21 sealed = ct" "length sealed > 21" using len assms(7) ct(2) by (simp_all add: sealed_def le_value_le_bytes)
  have fps: "\<not> list_ex (\<lambda>fp. length fp \<noteq> 32) (ik_recent_handshake_init_order K)" "length (ik_recent_handshake_init_order K) \<le> 16384"
    "ik_recent_handshake_init_hashes K = set (ik_recent_handshake_init_order K)"
    using assms(3,4) by (auto simp: list_ex_iff replay_ok_def)
  have opks: "filter (\<lambda>opk. opk_id opk \<in> set (irs_remaining_one_time_pre_key_ids st)) (ik_one_time_pre_keys K0) = ik_one_time_pre_keys K"
    using filter_kept [of "ik_one_time_pre_keys K0" keep] assms(9,10) by (simp add: st_def identity_ok_def)
  have "restore_sealed_replay_state P H K0 sealed key min = (if counter < min
      then (Err (InvalidState ''Sealed identity replay state is older than the expected counter''), K0)
      else (Ok counter, K0\<lparr> ik_one_time_pre_keys := ik_one_time_pre_keys K, ik_recent_handshake_init_hashes := ik_recent_handshake_init_hashes K,
         ik_recent_handshake_init_order := ik_recent_handshake_init_order K \<rparr>))" for min
    using len parts pt(2) ct(3) fps assms(8) opks by (simp add: restore_sealed_replay_state_def Let_def, simp add: st_def)
  moreover have "sealed_replay_state_external_counter sealed = Ok counter" using parts by (simp add: sealed_replay_state_external_counter_def)
  ultimately show ?thesis using e by blast
qed

theorem replay_state_roundtrip_witness:
  "\<exists>sealed. export_sealed_replay_state sample_prims sample_handshake_codec
      ((sample_identity 4)\<lparr> ik_one_time_pre_keys := [], ik_recent_handshake_init_hashes := {fill 32 [1]}, ik_recent_handshake_init_order := [fill 32 [1]] \<rparr>)
      (fill 32 [7]) 3 (fill 12 [6]) = Ok sealed \<and>
    restore_sealed_replay_state sample_prims sample_handshake_codec (sample_identity 4) sealed (fill 32 [7]) 3
      = (Ok 3, (sample_identity 4)\<lparr> ik_one_time_pre_keys := [], ik_recent_handshake_init_hashes := {fill 32 [1]},
           ik_recent_handshake_init_order := [fill 32 [1]] \<rparr>) \<and>
    restore_sealed_replay_state sample_prims sample_handshake_codec (sample_identity 4) sealed (fill 32 [7]) 4
      = (Err (InvalidState ''Sealed identity replay state is older than the expected counter''), sample_identity 4)"
proof -
  let ?K = "(sample_identity 4)\<lparr> ik_one_time_pre_keys := [], ik_recent_handshake_init_hashes := {fill 32 [1]}, ik_recent_handshake_init_order := [fill 32 [1]] \<rparr>"
  have k: "replay_ok ?K" "length (ik_one_time_pre_keys (sample_identity 4)) \<le> u32_max"
    by (simp_all add: replay_ok_def sample_identity_def identity_keys_new_def)
  from replay_state_roundtrip [OF sample_handshake_crypto_ok sample_handshake_codec_ok k(1), of "fill 32 [7]" "fill 12 [6]" 3 "sample_identity 4" "\<lambda>_. False"]
  obtain sealed where e: "export_sealed_replay_state sample_prims sample_handshake_codec ?K (fill 32 [7]) 3 (fill 12 [6]) = Ok sealed"
    and r: "\<And>min. restore_sealed_replay_state sample_prims sample_handshake_codec (sample_identity 4) sealed (fill 32 [7]) min =
      (if 3 < min then (Err (InvalidState ''Sealed identity replay state is older than the expected counter''), sample_identity 4)
       else (Ok 3, ?K))"
    using k(2) sample_identity_ok(1) [of 4] by auto
  show ?thesis using e r [of 3] r [of 4] by auto
qed

section \<open>Saved sessions\<close>

text \<open>Saving and loading under one tracker. A step reports the counter of what it saved or loaded.\<close>

datatype persist_op = Save session_inner bytes seal_draws | Load bytes bytes

definition persist_step :: "prims \<Rightarrow> codec \<Rightarrow> sealed_state_counter_tracker \<Rightarrow> persist_op \<Rightarrow> nat option \<times> sealed_state_counter_tracker" where
  "persist_step P C t op =
     (case op of
        Save inner key d \<Rightarrow>
          (case serialize_with_counter_tracker P C inner key t d of
             (Ok sealed, _, t') \<Rightarrow> (Some (tr_latest_issued_counter t'), t') | (Err e, _, t') \<Rightarrow> (None, t'))
      | Load data key \<Rightarrow>
          (case deserialize_with_counter_tracker P C data key t of
             (Ok _, t') \<Rightarrow> (case sealed_state_external_counter C data of Ok c \<Rightarrow> (Some c, t') | Err _ \<Rightarrow> (None, t'))
           | (Err _, t') \<Rightarrow> (None, t')))"

fun persist_run :: "prims \<Rightarrow> codec \<Rightarrow> sealed_state_counter_tracker \<Rightarrow> persist_op list \<Rightarrow> nat option list" where
  "persist_run P C t [] = []"
| "persist_run P C t (op # ops) = (case persist_step P C t op of (c, t') \<Rightarrow> c # persist_run P C t' ops)"

definition is_save :: "persist_op \<Rightarrow> bool" where
  "is_save op = (case op of Save _ _ _ \<Rightarrow> True | Load _ _ \<Rightarrow> False)"

lemma deserialize_counter:
  assumes "aura_deserialize P C data key m = Ok (S, c)"
  shows "m \<le> c" "sealed_state_external_counter C data = Ok c"
  using assms by (auto simp: aura_deserialize_def from_sealed_state_def sealed_state_external_counter_def res_bind_eq_Ok ok_or_def
      split: if_splits option.splits)

lemma persist_step_watermark:
  assumes "persist_step P C t op = (r, t')" "tr_max_restored_counter t \<le> tr_latest_issued_counter t"
  shows "tr_max_restored_counter t' \<le> tr_latest_issued_counter t' \<and> tr_latest_issued_counter t \<le> tr_latest_issued_counter t' \<and>
    (\<forall>c. r = Some c \<longrightarrow> c = tr_latest_issued_counter t' \<and> tr_latest_issued_counter t \<le> c \<and> (is_save op \<longrightarrow> tr_latest_issued_counter t < c))"
proof (cases op)
  case (Save inner key d)
  with assms show ?thesis
    by (auto simp: persist_step_def serialize_with_counter_tracker_def next_export_counter_def tracker_note_export_def is_save_def
        ok_or_def split: sum.splits prod.splits if_splits option.splits)
next
  case (Load data key)
  show ?thesis
  proof (cases "aura_deserialize P C data key (min_import_counter t)")
    case (Inr p)
    obtain S c where p: "p = (S, c)" by fastforce
    from deserialize_counter [OF Inr [unfolded p]] assms Load Inr p show ?thesis
      by (auto simp: persist_step_def deserialize_with_counter_tracker_def tracker_note_restore_def min_import_counter_def is_save_def Let_def
          split: sum.splits prod.splits if_splits)
  qed (use assms Load in \<open>simp add: persist_step_def deserialize_with_counter_tracker_def\<close>)
qed

lemma persist_run_bound:
  assumes "tr_max_restored_counter t \<le> tr_latest_issued_counter t" "j < length ops" "persist_run P C t ops ! j = Some c"
  shows "tr_latest_issued_counter t \<le> c \<and> (is_save (ops ! j) \<longrightarrow> tr_latest_issued_counter t < c)"
  using assms
proof (induction P C t ops arbitrary: j rule: persist_run.induct)
  case (2 P C t op ops)
  obtain r t' where s: "persist_step P C t op = (r, t')" by fastforce
  note w = persist_step_watermark [OF s 2(2)]
  show ?case
  proof (cases j)
    case 0
    with w 2(4) s show ?thesis by auto
  next
    case (Suc k)
    with 2(1) [OF s [symmetric], of k] w 2(3,4) s show ?thesis by fastforce
  qed
qed simp

lemma persist_run_later:
  assumes "tr_max_restored_counter t \<le> tr_latest_issued_counter t" "i < j" "j < length ops"
    "persist_run P C t ops ! i = Some c" "persist_run P C t ops ! j = Some c'"
  shows "c \<le> c' \<and> (is_save (ops ! j) \<longrightarrow> c < c')"
  using assms
proof (induction P C t ops arbitrary: i j rule: persist_run.induct)
  case (2 P C t op ops)
  obtain r t' where s: "persist_step P C t op = (r, t')" by fastforce
  note w = persist_step_watermark [OF s 2(2)]
  obtain k where j: "j = Suc k" using 2(3) by (cases j) auto
  show ?case
  proof (cases i)
    case 0
    with w s 2(5) have "c = tr_latest_issued_counter t'" "tr_max_restored_counter t' \<le> tr_latest_issued_counter t'" by auto
    with persist_run_bound [of t' k ops P C c'] s 2(4,6) j show ?thesis by simp
  next
    case (Suc l)
    with 2(1) [OF s [symmetric], of l k] w 2(3-6) s j show ?thesis by simp
  qed
qed simp

lemma next_export_new: "tr_latest_issued_counter t < u64_max \<Longrightarrow> next_export_counter t = Ok (Suc (tr_latest_issued_counter t))"
  by (simp add: next_export_counter_def checked_add_u64_def)

text \<open>A session with its keys can be saved.\<close>

lemma sample_save:
  assumes "ps_version (si_state A) \<noteq> 0" "ps_state_counter (si_state A) \<noteq> u64_max" "length (ps_root_key (si_state A)) = 32"
    and "si_dh_private_handle A = Some a" "length a = 32" "si_kyber_secret_handle A = Some k" "length k = 64" "0 < n"
  shows "\<exists>blob A'. aura_serialize sample_prims sample_codec A (fill 32 [7]) n \<lparr> sld_dek = fill 32 [1], sld_dek_nonce = fill 12 [1], sld_state_nonce = fill 12 [2] \<rparr>
    = (Ok blob, A')"
proof -
  have "\<exists>copy. export_copy A = Ok copy \<and> ps_root_key copy = ps_root_key (si_state A)"
    using assms(4-7) by (cases "ps_dh_local (si_state A)"; cases "ps_kyber_local (si_state A)") (simp_all add: export_copy_def Let_def)
  then obtain copy where c: "export_copy A = Ok copy" "ps_root_key copy = ps_root_key (si_state A)" by blast
  have seal: "aead_seal sample_prims k' n' m ad = Some (m @ zeros 16)" for k' n' m ad by (simp add: sample_prims_def)
  have "new_handle sample_prims 32 (fill 32 [7]) = Ok (fill 32 [7])" by (rule new_handle_exact) (simp_all add: sample_prims_def)
  moreover have "compute_state_hmac sample_prims r b = Ok (fill 32 b)" for r b
    by (simp add: compute_state_hmac_def derive_key_bytes_def sample_prims_def)
  ultimately show ?thesis using assms(1,2,8) c
    by (simp add: aura_serialize_def static_state_key_provider_def get_state_encryption_key_def export_sealed_state_def seal_copy_def
        sample_codec_def run_put_def aes_gcm_encrypt_def validate_key_nonce_def seal Let_def)
qed

text \<open>C9. Saved sessions and rollback. Take any sequence of saves and loads under one tracker in whose beginning the
  restored counter does not exceed the issued one. What is loaded has a counter at least as high
  as everything saved or loaded before, so an older blob is never loaded, and each save
  gets a counter higher than everything before.\<close>

theorem saved_counters_monotone:
  assumes "tr_max_restored_counter t \<le> tr_latest_issued_counter t" "i < j" "j < length ops"
    and "persist_run P C t ops ! i = Some c" "persist_run P C t ops ! j = Some c'"
  shows "c \<le> c' \<and> (is_save (ops ! j) \<longrightarrow> c < c')"
  using persist_run_later [OF assms] .

lemma sample_saved_twice:
  "\<exists>A. persist_run sample_prims sample_codec tracker_new
    [Save A (fill 32 [7]) \<lparr> sld_dek = fill 32 [1], sld_dek_nonce = fill 12 [1], sld_state_nonce = fill 12 [2] \<rparr>,
     Save A (fill 32 [7]) \<lparr> sld_dek = fill 32 [1], sld_dek_nonce = fill 12 [1], sld_state_nonce = fill 12 [2] \<rparr>] = [Some 1, Some 2]"
proof -
  from established_paired [OF sample_session_crypto_ok sample_hash_ok sample_parties_ok, of "zeros 32" "zeros 16" "zeros 32" "zeros 32" 100 100 5 5]
  obtain A0 root' bd c1 c2 where p: "session_ready A0" and
    o: "opened sample_prims True root' (zeros 16) (zeros 32) bd c1 c2 sample_alice sample_bob 100 100 A0" by (auto simp: paired_def)
  define A where "A = map_state (\<lambda>st. st\<lparr> ps_state_counter := 0 \<rparr>) A0"
  have "length (pt_dh sample_alice) = 32" "length (fst (mlkem_keygen sample_prims s)) = 64" for s
    by (simp_all add: sample_alice_def sample_prims_def)
  with o p have k: "ps_version (si_state A) \<noteq> 0" "ps_state_counter (si_state A) \<noteq> u64_max" "length (ps_root_key (si_state A)) = 32"
    "\<exists>a. si_dh_private_handle A = Some a \<and> length a = 32" "\<exists>k. si_kyber_secret_handle A = Some k \<and> length k = 64"
    by (auto simp: A_def map_state_def opened_def session_ready_def)
  then obtain a b where h: "si_dh_private_handle A = Some a" "length a = 32" "si_kyber_secret_handle A = Some b" "length b = 64" by blast
  note s = sample_save [OF k(1-3) h]
  obtain b1 A1 b2 A2 where 1: "aura_serialize sample_prims sample_codec A (fill 32 [7]) 1 \<lparr> sld_dek = fill 32 [1], sld_dek_nonce = fill 12 [1], sld_state_nonce = fill 12 [2] \<rparr> = (Ok b1, A1)"
    and 2: "aura_serialize sample_prims sample_codec A (fill 32 [7]) 2 \<lparr> sld_dek = fill 32 [1], sld_dek_nonce = fill 12 [1], sld_state_nonce = fill 12 [2] \<rparr> = (Ok b2, A2)"
    using s [of 1] s [of 2] by auto
  show ?thesis using 1 2
    by (intro exI [of _ A]) (simp add: persist_step_def serialize_with_counter_tracker_def next_export_counter_def checked_add_u64_def
        tracker_new_def tracker_note_export_def numeral_2_eq_2)
qed

theorem saved_counters_monotone_witness:
  "\<exists>A c c'. persist_run sample_prims sample_codec tracker_new
    [Save A (fill 32 [7]) \<lparr> sld_dek = fill 32 [1], sld_dek_nonce = fill 12 [1], sld_state_nonce = fill 12 [2] \<rparr>,
     Save A (fill 32 [7]) \<lparr> sld_dek = fill 32 [1], sld_dek_nonce = fill 12 [1], sld_state_nonce = fill 12 [2] \<rparr>] = [Some c, Some c'] \<and> c < c'"
proof -
  from sample_saved_twice obtain A where A: "persist_run sample_prims sample_codec tracker_new
    [Save A (fill 32 [7]) \<lparr> sld_dek = fill 32 [1], sld_dek_nonce = fill 12 [1], sld_state_nonce = fill 12 [2] \<rparr>,
     Save A (fill 32 [7]) \<lparr> sld_dek = fill 32 [1], sld_dek_nonce = fill 12 [1], sld_state_nonce = fill 12 [2] \<rparr>] = [Some 1, Some 2]" ..
  from saved_counters_monotone [of tracker_new 0 1 _ sample_prims sample_codec, unfolded A] A show ?thesis
    by (intro exI [of _ A] exI) (auto simp: tracker_new_def is_save_def)
qed

text \<open>C40. The serialised slot. A slot whose blob is within the limit and whose restored counter does not exceed the
  issued one is read back from its bytes as it was written, and the counter it demands of a
  restore is the last one it issued.\<close>

theorem slot_roundtrip_exact:
  assumes "slot_ok s"
  shows "\<exists>b. slot_serialize s = Ok b \<and> slot_deserialize b = Ok s \<and> min_import_counter (sl_tracker s) = tr_latest_issued_counter (sl_tracker s)"
  using slot_roundtrip [OF assms] min_import_counter_ok [of "sl_tracker s"] assms by (auto simp: slot_ok_def)

theorem slot_roundtrip_exact_witness:
  "\<exists>b. slot_serialize \<lparr> sl_tracker = \<lparr> tr_max_restored_counter = 3, tr_latest_issued_counter = 7 \<rparr>, sl_sealed_state = [1, 2] \<rparr> = Ok b \<and>
    slot_deserialize b = Ok \<lparr> sl_tracker = \<lparr> tr_max_restored_counter = 3, tr_latest_issued_counter = 7 \<rparr>, sl_sealed_state = [1, 2] \<rparr>"
  using slot_roundtrip_exact [of "\<lparr> sl_tracker = \<lparr> tr_max_restored_counter = 3, tr_latest_issued_counter = 7 \<rparr>, sl_sealed_state = [1, 2] \<rparr>"]
  by (auto simp: slot_ok_def tracker_ok_def)

end
