(* ===== verification/Shamir.thy ===== *)
theory Shamir
  imports Crypto
begin

text \<open>
  Secret sharing (\<^verbatim>\<open>crypto/shamir_secret_sharing.rs\<close>): arithmetic of GF(256) by tables of powers of 3 and their
  logarithms, splitting a secret byte by byte with random polynomials, and reconstruction by Lagrange
  interpolation at 0 with a check of the authentication tag.
\<close>

section \<open>Tables\<close>

definition MAGIC_BYTES :: bytes where
  "MAGIC_BYTES = [0xEC, 0x11, 0x1C, 0x00]"

definition SHARE_HEADER_SIZE :: nat where
  [simp]: "SHARE_HEADER_SIZE = 4 + 1"

definition MIN_SHARE_SIZE :: nat where
  [simp]: "MIN_SHARE_SIZE = SHARE_HEADER_SIZE + 1"

definition GF256_MODULUS :: "16 word" where
  "GF256_MODULUS = 0x11B"

definition GF256_OVERFLOW :: "16 word" where
  "GF256_OVERFLOW = 0x100"

definition gf_step :: "16 word \<Rightarrow> 16 word" where
  "gf_step v0 = (let v = push_bit 1 v0 XOR v0 in if v AND GF256_OVERFLOW \<noteq> 0 then v XOR GF256_MODULUS else v)"

fun exp_table_loop :: "nat \<Rightarrow> 16 word \<Rightarrow> u8 list" where
  "exp_table_loop 0 v = []"
| "exp_table_loop (Suc n) v = ucast v # exp_table_loop n (gf_step v)"

definition EXP_TABLE :: "u8 list" where
  "EXP_TABLE = exp_table_loop 512 1"

definition LOG_TABLE :: "u8 list" where
  "LOG_TABLE = foldl (\<lambda>table i. table[unat (EXP_TABLE ! i) := word_of_nat i]) (replicate 256 0) [0..<255]"

section \<open>Arithmetic\<close>

definition gf_mul :: "u8 \<Rightarrow> u8 \<Rightarrow> u8" where
  "gf_mul a b =
     (let log_sum = (ucast (LOG_TABLE ! unat a) :: 16 word) + ucast (LOG_TABLE ! unat b);
          result = EXP_TABLE ! unat log_sum;
          mask = drop_bit 8 ((ucast a :: 16 word) - 1) OR drop_bit 8 ((ucast b :: 16 word) - 1)
      in result AND ucast (NOT mask))"

definition gf_inv :: "u8 \<Rightarrow> u8" where
  "gf_inv a =
     (let log_a = (ucast (LOG_TABLE ! unat a) :: 16 word);
          result = EXP_TABLE ! unat (255 - log_a);
          mask = drop_bit 8 ((ucast a :: 16 word) - 1)
      in result AND ucast (NOT mask))"

definition evaluate_polynomial :: "bytes \<Rightarrow> u8 \<Rightarrow> u8" where
  "evaluate_polynomial coefficients x = foldl (\<lambda>result coef. gf_mul result x XOR coef) 0 (rev coefficients)"

text \<open>One factor of one summand of the interpolation, and the loops over both.\<close>

definition lagrange_factor :: "bytes \<Rightarrow> u8 \<Rightarrow> nat \<Rightarrow> u8 \<times> u8 \<Rightarrow> nat \<Rightarrow> u8 \<times> u8" where
  "lagrange_factor x_values x i = (\<lambda>(numerator, denominator) j.
     let is_same = (if i XOR j = 0 then 1 else 0 :: u8);
         num_factor = (x XOR x_values ! j) OR (- is_same);
         den_factor = (x_values ! i XOR x_values ! j) OR (- is_same);
         num_product = gf_mul numerator num_factor;
         den_product = gf_mul denominator den_factor;
         mask = - is_same
     in ((numerator AND mask) OR (num_product AND NOT mask), (denominator AND mask) OR (den_product AND NOT mask)))"

definition lagrange_interpolate :: "bytes \<Rightarrow> bytes \<Rightarrow> u8 \<Rightarrow> u8 pres" where
  "lagrange_interpolate x_values y_values x =
     (let n = length x_values
      in if n \<noteq> length y_values then Err (Generic ''x/y length mismatch in Lagrange interpolation'')
         else Ok (foldl (\<lambda>result i.
           case foldl (lagrange_factor x_values x i) (y_values ! i, 1) [0..<n] of
             (numerator, denominator) \<Rightarrow> result XOR gf_mul numerator (gf_inv denominator)) 0 [0..<n]))"

section \<open>Splitting and reconstruction\<close>

text \<open>The random coefficients of the polynomial of each secret byte are the argument \<open>rand\<close>.\<close>

fun split_bytes :: "bytes \<Rightarrow> (nat \<Rightarrow> bytes) \<Rightarrow> nat \<Rightarrow> bytes list \<Rightarrow> bytes list" where
  "split_bytes [] rand k shares = shares"
| "split_bytes (secret_byte # secret) rand k shares =
     split_bytes secret rand (Suc k)
       (map (\<lambda>share_idx. shares ! share_idx @ [evaluate_polynomial (secret_byte # rand k) (word_of_nat share_idx + 1)]) [0..<length shares])"

definition split_secret :: "prims \<Rightarrow> bytes \<Rightarrow> u8 \<Rightarrow> u8 \<Rightarrow> bytes \<Rightarrow> (nat \<Rightarrow> bytes) \<Rightarrow> bytes list pres" where
  "split_secret P secret threshold share_count auth_key rand =
     (if threshold < 2 then Err (InvalidInput ''Threshold must be at least 2'')
      else if share_count < threshold then Err (InvalidInput ''share_count must be >= threshold'')
      else if secret = [] \<or> length secret > MAX_SHARE_SIZE then Err (InvalidInput ''Invalid secret length'')
      else if length auth_key \<noteq> HMAC_BYTES then Err (InvalidInput ''Auth key must be 32 bytes'')
      else
        let shares = map (\<lambda>i. MAGIC_BYTES @ [word_of_nat i + 1]) [0..<unat share_count];
            shares' = split_bytes secret rand 0 shares
        in res_bind (ok_or (Generic ''HMAC key init failed'') (hmac_sha256 P auth_key secret)) (\<lambda>auth_tag.
             Ok (shares' @ [auth_tag])))"

fun check_distinct_x :: "bytes \<Rightarrow> u8 set \<Rightarrow> unit pres" where
  "check_distinct_x [] seen = Ok ()"
| "check_distinct_x (x # xs) seen =
     (if x \<in> seen then Err (InvalidInput ''Duplicate x-coordinate in shares'') else check_distinct_x xs (insert x seen))"

fun reconstruct_bytes :: "bytes list \<Rightarrow> bytes \<Rightarrow> nat list \<Rightarrow> bytes pres" where
  "reconstruct_bytes data_shares x_values [] = Ok []"
| "reconstruct_bytes data_shares x_values (byte_idx # rest) =
     res_bind (lagrange_interpolate x_values (map (\<lambda>s. s ! (SHARE_HEADER_SIZE + byte_idx)) data_shares) 0) (\<lambda>b.
     res_bind (reconstruct_bytes data_shares x_values rest) (\<lambda>bs. Ok (b # bs)))"

definition reconstruct :: "prims \<Rightarrow> bytes list \<Rightarrow> bytes \<Rightarrow> nat \<Rightarrow> bytes pres" where
  "reconstruct P shares auth_key threshold =
     (if length shares < 2 then Err (InvalidInput ''Need at least one data share plus auth tag'')
      else if length auth_key \<noteq> HMAC_BYTES then Err (InvalidInput ''Auth key must be 32 bytes'')
      else
        let auth_tag = last shares;
            data_shares = butlast shares;
            first_len = length (data_shares ! 0);
            secret_len = first_len - SHARE_HEADER_SIZE;
            x_values = map (\<lambda>s. s ! length MAGIC_BYTES) data_shares
        in if length data_shares < threshold then Err (InvalidInput ''Not enough shares'')
           else if first_len < MIN_SHARE_SIZE then Err (InvalidInput ''Share too short'')
           else if list_ex (\<lambda>share. length share \<noteq> first_len \<or> take 4 share \<noteq> MAGIC_BYTES) data_shares then
             Err (InvalidInput ''Invalid share format'')
           else if secret_len = 0 \<or> secret_len > MAX_SHARE_SIZE then Err (InvalidInput ''Invalid secret length'')
           else
             res_bind (check_distinct_x x_values {}) (\<lambda>_.
             res_bind (reconstruct_bytes data_shares x_values [0..<secret_len]) (\<lambda>secret.
             res_bind (ok_or (Generic ''HMAC key init failed'') (hmac_sha256 P auth_key secret)) (\<lambda>expected.
               if constant_time_equals auth_tag expected = Ok True then Ok secret
               else Err (InvalidInput ''Share authentication failed'')))))"

definition reconstruct_serialized :: "prims \<Rightarrow> bytes \<Rightarrow> nat \<Rightarrow> nat \<Rightarrow> bytes \<Rightarrow> nat \<Rightarrow> bytes pres" where
  "reconstruct_serialized P serialized share_length share_count auth_key threshold =
     (if share_length * share_count > u64_max then Err overflow_panic
      else if length serialized \<noteq> share_length * share_count then Err (InvalidInput ''Invalid serialized shares length'')
      else reconstruct P (map (\<lambda>i. take share_length (drop (i * share_length) serialized)) [0..<share_count]) auth_key threshold)"

section \<open>The tables are the powers of 3 and their logarithms\<close>

text \<open>One step is linear and stays in one byte.\<close>

lemma bit_overflow: "(v AND GF256_OVERFLOW \<noteq> 0) = bit v 8" for v :: "16 word"
proof -
  have o: "GF256_OVERFLOW = 2 ^ 8" by (simp add: GF256_OVERFLOW_def)
  have "bit (v AND GF256_OVERFLOW) n = (bit v 8 \<and> n = 8)" for n
    unfolding o bit_and_iff bit_exp_iff by (auto simp: possible_bit_def)
  then show ?thesis by (metis bit_0_eq bot_apply bot_bool_def bit_eqI)
qed

lemma reduce_xor:
  "(if bit (x XOR y) 8 then (x XOR y) XOR m else x XOR y) = (if bit x 8 then x XOR m else x) XOR (if bit y 8 then y XOR m else y)"
  for x y m :: "16 word"
  by (rule bit_word_eqI) (auto simp: bit_xor_iff)

lemma gf_step_xor: "gf_step (a XOR b) = gf_step a XOR gf_step b"
proof -
  have "push_bit 1 (a XOR b) XOR (a XOR b) = (push_bit 1 a XOR a) XOR (push_bit 1 b XOR b)"
    unfolding push_bit_xor by (simp only: xor.assoc xor.left_commute xor.commute)
  then show ?thesis unfolding gf_step_def bit_overflow Let_def by (simp only: reduce_xor)
qed

definition byte_only :: "16 word \<Rightarrow> bool" where
  "byte_only v \<longleftrightarrow> (\<forall>k\<ge>8. \<not> bit v k)"

lemma bit_modulus: "bit GF256_MODULUS k \<longleftrightarrow> k \<in> {0, 1, 3, 4, 8}"
proof -
  have m: "GF256_MODULUS = 2 ^ 8 OR 2 ^ 4 OR 2 ^ 3 OR 2 ^ 1 OR 2 ^ 0" by (simp add: GF256_MODULUS_def)
  show ?thesis unfolding m bit_or_iff bit_exp_iff by (auto simp: possible_bit_def)
qed

lemma gf_step_byte: "byte_only v \<Longrightarrow> byte_only (gf_step v)"
proof -
  assume v: "byte_only v"
  have b: "bit (push_bit 1 v XOR v) k \<longleftrightarrow> k = 8 \<and> bit v 7" if "8 \<le> k" for k
    unfolding bit_xor_iff bit_push_bit_iff using v that by (cases "k = 8") (auto simp: byte_only_def possible_bit_def)
  show ?thesis
    unfolding byte_only_def gf_step_def bit_overflow Let_def using b
    by (auto simp only: bit_xor_iff bit_modulus split: if_splits)
qed

lemma ucast_byte: "byte_only v \<Longrightarrow> (ucast (ucast v :: u8) :: 16 word) = v"
  by (rule bit_word_eqI) (auto simp: byte_only_def bit_ucast_iff not_le [symmetric])

lemma byte_only_ucast: "byte_only (ucast (a :: u8))"
  by (auto simp: byte_only_def bit_ucast_iff dest: bit_imp_le_length)

text \<open>Multiplication by 3 on bytes.\<close>

definition times3 :: "u8 \<Rightarrow> u8" where
  "times3 a = ucast (gf_step (ucast a))"

lemma times3_xor: "times3 (a XOR b) = times3 a XOR times3 b"
  by (simp add: times3_def unsigned_xor_eq gf_step_xor)

lemma times3_zero [simp]: "times3 0 = 0"
  using times3_xor [of 0 0] by simp

lemma exp_table_loop_nth: "byte_only v \<Longrightarrow> i < n \<Longrightarrow> exp_table_loop n v ! i = (times3 ^^ i) (ucast v)"
proof (induction n v arbitrary: i rule: exp_table_loop.induct)
  case (2 n v)
  show ?case
  proof (cases i)
    case (Suc k)
    have "times3 (ucast v) = ucast (gf_step v)" using ucast_byte [OF 2(2)] by (simp add: times3_def)
    with 2 Suc gf_step_byte [OF 2(2)] show ?thesis by (simp add: funpow_swap1 del: funpow.simps(2)) (simp add: funpow_swap1)
  qed simp
qed simp

definition pow3 :: "nat \<Rightarrow> u8" where
  "pow3 n = (times3 ^^ n) 1"

lemma EXP_TABLE_nth: "i < 512 \<Longrightarrow> EXP_TABLE ! i = pow3 i"
  using exp_table_loop_nth [of 1 i 512] by (simp add: EXP_TABLE_def pow3_def byte_only_def bit_1_iff)

lemma exp_table_loop_numeral: "exp_table_loop (numeral k) v = ucast v # exp_table_loop (pred_numeral k) (gf_step v)"
  by (simp add: numeral_eq_Suc)

lemma exp_table_values:
  "exp_table_loop 256 1 ! 255 = 1 \<and> exp_table_loop 256 1 ! 85 \<noteq> 1 \<and> exp_table_loop 256 1 ! 51 \<noteq> 1 \<and> exp_table_loop 256 1 ! 15 \<noteq> 1"
  by (simp add: exp_table_loop_numeral gf_step_def GF256_OVERFLOW_def GF256_MODULUS_def)

lemma pow3_values: "pow3 255 = 1" "pow3 85 \<noteq> 1" "pow3 51 \<noteq> 1" "pow3 15 \<noteq> 1"
  using exp_table_values exp_table_loop_nth [of 1 _ 256] by (auto simp: pow3_def byte_only_def bit_1_iff)

section \<open>The order of 3\<close>

lemma pow3_add: "pow3 (m + n) = (times3 ^^ m) (pow3 n)"
  by (simp add: pow3_def funpow_add)

lemma pow3_mult: "pow3 d = 1 \<Longrightarrow> pow3 (n + d * k) = pow3 n"
proof (induction k)
  case (Suc k)
  have "pow3 (n + d * Suc k) = pow3 ((n + d * k) + d)" by (simp add: algebra_simps)
  also have "\<dots> = (times3 ^^ (n + d * k)) (pow3 d)" by (rule pow3_add)
  finally show ?case using Suc by (simp add: pow3_def)
qed simp

lemma pow3_mod: "pow3 n = pow3 (n mod 255)"
  using pow3_mult [OF pow3_values(1), of "n mod 255" "n div 255"] by simp

lemma pow3_nonzero: "pow3 n \<noteq> 0"
proof
  assume "pow3 n = 0"
  moreover have "(times3 ^^ m) 0 = 0" for m by (induction m) simp_all
  ultimately have "pow3 (254 * n + n) = 0" by (simp only: pow3_add)
  moreover have "pow3 (0 + 255 * n) = 1" using pow3_mult [OF pow3_values(1), of 0 n] by (simp add: pow3_def)
  ultimately show False by (simp add: algebra_simps)
qed

lemma small_divisors: "d dvd 3 \<Longrightarrow> d = 1 \<or> d = 3" "d dvd 5 \<Longrightarrow> d = 1 \<or> d = 5" "d dvd 17 \<Longrightarrow> d = 1 \<or> d = 17" for d :: nat
proof -
  show "d = 1 \<or> d = 3" if "d dvd 3"
  proof -
    have "d = 0 \<or> d = 1 \<or> d = 2 \<or> d = 3" using dvd_imp_le [OF that] by simp presburger
    then show ?thesis using that by auto
  qed
  show "d = 1 \<or> d = 5" if "d dvd 5"
  proof -
    have "d = 0 \<or> d = 1 \<or> d = 2 \<or> d = 3 \<or> d = 4 \<or> d = 5" using dvd_imp_le [OF that] by simp presburger
    then show ?thesis using that by auto
  qed
  show "d = 1 \<or> d = 17" if "d dvd 17"
  proof -
    have "d = 0 \<or> d = 1 \<or> d = 2 \<or> d = 3 \<or> d = 4 \<or> d = 5 \<or> d = 6 \<or> d = 7 \<or> d = 8 \<or> d = 9 \<or>
        d = 10 \<or> d = 11 \<or> d = 12 \<or> d = 13 \<or> d = 14 \<or> d = 15 \<or> d = 16 \<or> d = 17" using dvd_imp_le [OF that] by simp presburger
    then show ?thesis using that by auto
  qed
qed

lemma coprime_small: "coprime n 3 \<or> 3 dvd n" "coprime n 5 \<or> 5 dvd n" for n :: nat
  using small_divisors(1) [of "gcd n 3"] small_divisors(2) [of "gcd n 5"] gcd_dvd1 [of n 3] gcd_dvd1 [of n 5]
  unfolding coprime_iff_gcd_eq_1 by (simp, metis)+

lemma divisor_255: "g dvd 255 \<Longrightarrow> g < 255 \<Longrightarrow> g dvd 15 \<or> g dvd 51 \<or> g dvd (85 :: nat)"
proof -
  assume g: "g dvd 255" "g < 255"
  show ?thesis
  proof (cases "3 dvd g")
    case False
    then have "g dvd 85" using coprime_small(1) [of g] coprime_dvd_mult_right_iff [of g 3 85] g by auto
    then show ?thesis by simp
  next
    case True
    then obtain a where a: "g = 3 * a" by (elim dvdE)
    with g have "3 * a dvd 3 * 85" by simp
    then have a85: "a dvd 85" by (simp add: nat_mult_dvd_cancel_disj)
    show ?thesis
    proof (cases "5 dvd a")
      case False
      then have "a dvd 17" using coprime_small(2) [of a] coprime_dvd_mult_right_iff [of a 5 17] a85 by auto
      then show ?thesis using a by auto
    next
      case True
      then obtain b where b: "a = 5 * b" by (elim dvdE)
      with a85 have "5 * b dvd 5 * 17" by simp
      then have "b dvd 17" by (simp add: nat_mult_dvd_cancel_disj)
      with small_divisors(3) [of b] a b g(2) show ?thesis by auto
    qed
  qed
qed

lemma pow3_order: "0 < d \<Longrightarrow> d < 255 \<Longrightarrow> pow3 d \<noteq> 1"
proof
  assume d: "0 < d" "d < 255" "pow3 d = 1"
  obtain x y where xy: "d * x = 255 * y + gcd d 255" using bezout_nat [of d 255] d(1) by auto
  have "pow3 (gcd d 255 + 255 * y) = pow3 (gcd d 255)" by (rule pow3_mult [OF pow3_values(1)])
  moreover have "pow3 (0 + d * x) = 1" using pow3_mult [OF d(3), of 0 x] by (simp add: pow3_def)
  ultimately have g: "pow3 (gcd d 255) = 1" using xy by (simp add: add.commute)
  have "gcd d 255 \<le> d" using d(1) by (intro dvd_imp_le) simp_all
  with d(2) divisor_255 [of "gcd d 255"] have "gcd d 255 dvd 15 \<or> gcd d 255 dvd 51 \<or> gcd d 255 dvd 85" by simp
  moreover have "pow3 n = 1" if "gcd d 255 dvd n" for n
    using pow3_mult [OF g, of 0 "n div gcd d 255"] that by (simp add: pow3_def)
  ultimately show False using pow3_values by blast
qed

lemma pow3_inj: "inj_on pow3 {..<255}"
proof (rule linorder_inj_onI)
  fix i j :: nat
  assume ij: "i < j" "i \<in> {..<255}" "j \<in> {..<255}"
  show "pow3 i \<noteq> pow3 j"
  proof
    assume "pow3 i = pow3 j"
    then have "pow3 ((255 - j) + i) = pow3 ((255 - j) + j)" by (simp only: pow3_add)
    moreover have "0 < 255 - j + i" "255 - j + i < 255" "255 - j + j = 255" using ij by auto
    ultimately show False using pow3_order [of "255 - j + i"] pow3_values(1) by simp
  qed
qed auto

lemma pow3_surj: "a \<noteq> 0 \<Longrightarrow> \<exists>i<255. a = pow3 i"
proof -
  assume "a \<noteq> 0"
  have "card (pow3 ` {..<255}) = 255" using card_image [OF pow3_inj] by simp
  moreover have "card (UNIV - {0 :: u8}) = 255" by (simp add: card_Diff_singleton card_word)
  moreover have "pow3 ` {..<255} \<subseteq> UNIV - {0}" using pow3_nonzero by auto
  ultimately have "pow3 ` {..<255} = UNIV - {0}" by (intro card_subset_eq) simp_all
  with \<open>a \<noteq> 0\<close> show ?thesis by (metis (mono_tags, lifting) DiffI UNIV_I empty_iff imageE insert_iff lessThan_iff)
qed

end
