(* ===== verification/Shamir_Field.thy ===== *)
theory Shamir_Field
  imports Shamir
begin

text \<open>
  The table-driven operations of \<open>Shamir\<close> form a field, the type \<open>gf256\<close>; interpolation over an arbitrary
  field by Lagrange's formula.
\<close>

section \<open>Logarithms\<close>

definition log_loop :: "nat \<Rightarrow> u8 list" where
  "log_loop m = foldl (\<lambda>table i. table[unat (EXP_TABLE ! i) := word_of_nat i]) (replicate 256 0) [0..<m]"

lemma log_loop_nth: "m \<le> 255 \<Longrightarrow> length (log_loop m) = 256 \<and> (\<forall>i<m. log_loop m ! unat (pow3 i) = word_of_nat i)"
proof (induction m)
  case (Suc m)
  have s: "log_loop (Suc m) = (log_loop m)[unat (pow3 m) := word_of_nat m]"
    using Suc.prems EXP_TABLE_nth [of m] by (simp add: log_loop_def)
  have "unat (pow3 m) < 256" using unsigned_less [of "pow3 m"] by simp
  moreover have "\<forall>i<m. unat (pow3 m) \<noteq> unat (pow3 i)"
  proof (intro allI impI notI)
    fix i assume i: "i < m" "unat (pow3 m) = unat (pow3 i)"
    then have "pow3 i = pow3 m" by (simp only: word_unat_eq_iff)
    from inj_onD [OF pow3_inj this] i(1) Suc.prems show False by simp
  qed
  moreover have "length (log_loop m) = 256" "\<forall>i<m. log_loop m ! unat (pow3 i) = word_of_nat i" using Suc by simp_all
  ultimately show ?case by (simp add: s nth_list_update less_Suc_eq)
qed (simp add: log_loop_def)

lemma LOG_pow3: "i < 255 \<Longrightarrow> LOG_TABLE ! unat (pow3 i) = word_of_nat i"
  using log_loop_nth [of 255] by (simp add: LOG_TABLE_def log_loop_def)

lemma unat_wide: "unat (ucast (a :: u8) :: 16 word) = unat a"
proof -
  have "unat a < 256" using unsigned_less [of a] by simp
  then show ?thesis by (simp add: unsigned_ucast_eq take_bit_nat_eq_self)
qed

lemma zero_mask: "drop_bit 8 ((ucast (a :: u8) :: 16 word) - 1) = (if a = 0 then 255 else 0)"
proof (cases "a = 0")
  case False
  then have nz: "(ucast a :: 16 word) \<noteq> 0" using unat_wide [of a] by (metis unat_eq_zero unsigned_0)
  have "unat a < 256" using unsigned_less [of a] by simp
  then have "unat ((ucast a :: 16 word) - 1) < 256" by (simp add: unat_minus_one [OF nz] unat_wide)
  then have "unat (drop_bit 8 ((ucast a :: 16 word) - 1)) = 0" by (simp add: drop_bit_eq_div unat_div_distrib)
  with False show ?thesis by (simp add: unat_eq_zero)
qed (simp add: mask_eq_exp_minus_1)

lemma mask_byte: "x AND (ucast (NOT (255 :: 16 word)) :: u8) = 0" "x AND (ucast (NOT (0 :: 16 word)) :: u8) = x"
proof -
  have "(ucast (NOT (255 :: 16 word)) :: u8) = 0" by (simp add: not_eq_complement word_eq_iff_unsigned)
  then show "x AND (ucast (NOT (255 :: 16 word)) :: u8) = 0" by (simp only: and_zero_eq)
  show "x AND (ucast (NOT (0 :: 16 word)) :: u8) = x"
    by (rule bit_word_eqI) (simp add: bit_and_iff bit_ucast_iff)
qed

lemma gf_mul_masked: "gf_mul a b = (if a = 0 \<or> b = 0 then 0 else EXP_TABLE ! (unat (LOG_TABLE ! unat a) + unat (LOG_TABLE ! unat b)))"
proof -
  have "unat (LOG_TABLE ! unat a) < 256" "unat (LOG_TABLE ! unat b) < 256"
    using unsigned_less [of "LOG_TABLE ! unat a"] unsigned_less [of "LOG_TABLE ! unat b"] by simp_all
  then have s: "unat ((ucast (LOG_TABLE ! unat a) :: 16 word) + ucast (LOG_TABLE ! unat b)) = unat (LOG_TABLE ! unat a) + unat (LOG_TABLE ! unat b)"
    by (subst unat_add_lem [THEN iffD1]) (simp_all add: unat_wide)
  have m: "drop_bit 8 ((ucast a :: 16 word) - 1) OR drop_bit 8 ((ucast b :: 16 word) - 1) = (if a = 0 \<or> b = 0 then 255 else 0)"
    unfolding zero_mask by simp
  show ?thesis unfolding gf_mul_def Let_def s m by (cases "a = 0 \<or> b = 0") (simp_all only: mask_byte if_True if_False)
qed

lemma gf_inv_masked: "gf_inv a = (if a = 0 then 0 else EXP_TABLE ! (255 - unat (LOG_TABLE ! unat a)))"
proof -
  have "unat (LOG_TABLE ! unat a) < 256" using unsigned_less [of "LOG_TABLE ! unat a"] by simp
  then have s: "unat (255 - (ucast (LOG_TABLE ! unat a) :: 16 word)) = 255 - unat (LOG_TABLE ! unat a)"
    by (subst unat_sub) (simp_all add: word_le_nat_alt unat_wide)
  show ?thesis unfolding gf_inv_def Let_def s zero_mask by (cases "a = 0") (simp_all only: mask_byte if_True if_False simp_thms)
qed

lemma gf_mul_zero [simp]: "gf_mul 0 b = 0" "gf_mul a 0 = 0"
  by (simp_all add: gf_mul_masked)

lemma unat_small: "i < 255 \<Longrightarrow> unat (word_of_nat i :: u8) = i"
  by (rule unat_word_of_nat) simp

lemma gf_mul_pow3: "gf_mul (pow3 i) (pow3 j) = pow3 (i + j)"
proof -
  have l: "i mod 255 < 255" "j mod 255 < 255" by simp_all
  have "gf_mul (pow3 (i mod 255)) (pow3 (j mod 255)) = pow3 (i mod 255 + j mod 255)"
    using LOG_pow3 [OF l(1)] LOG_pow3 [OF l(2)] unat_small [OF l(1)] unat_small [OF l(2)] EXP_TABLE_nth [of "i mod 255 + j mod 255"] l
    by (simp add: gf_mul_masked pow3_nonzero)
  also have "\<dots> = pow3 (i + j)" using pow3_mod [of "i mod 255 + j mod 255"] pow3_mod [of "i + j"] by (simp add: mod_add_eq)
  finally show ?thesis using pow3_mod [of i] pow3_mod [of j] by simp
qed

lemma gf_mul_step: "gf_mul (pow3 i) b = (times3 ^^ i) b"
proof (cases "b = 0")
  case True
  have "(times3 ^^ i) 0 = 0" by (induction i) simp_all
  with True show ?thesis by simp
next
  case False
  then obtain j where "b = pow3 j" using pow3_surj by blast
  then show ?thesis by (simp add: gf_mul_pow3 pow3_add)
qed

lemma gf_mul_inv: "a \<noteq> 0 \<Longrightarrow> gf_mul a (gf_inv a) = 1"
proof -
  assume "a \<noteq> 0"
  then obtain i where i: "i < 255" "a = pow3 i" using pow3_surj by blast
  have "gf_inv a = pow3 (255 - i)" using i LOG_pow3 [OF i(1)] unat_small [OF i(1)] EXP_TABLE_nth [of "255 - i"] pow3_nonzero [of i]
    by (simp add: gf_inv_masked)
  then show ?thesis using i pow3_values(1) by (simp add: gf_mul_pow3)
qed

lemma gf_mul_commute: "gf_mul a b = gf_mul b a"
  by (simp add: gf_mul_masked add.commute)

lemma gf_mul_distrib: "gf_mul a (b XOR c) = gf_mul a b XOR gf_mul a c"
proof (cases "a = 0")
  case False
  then obtain i where i: "a = pow3 i" using pow3_surj by blast
  have "(times3 ^^ i) (b XOR c) = (times3 ^^ i) b XOR (times3 ^^ i) c" by (induction i) (simp_all add: times3_xor)
  then show ?thesis by (simp add: i gf_mul_step)
qed simp

lemma gf_mul_distrib_left: "gf_mul (a XOR b) c = gf_mul a c XOR gf_mul b c"
  using gf_mul_distrib [of c a b] by (simp only: gf_mul_commute [of c])

lemma gf_mul_assoc: "gf_mul (gf_mul a b) c = gf_mul a (gf_mul b c)"
proof (cases "a = 0 \<or> b = 0 \<or> c = 0")
  case False
  then obtain i j k where "a = pow3 i" "b = pow3 j" "c = pow3 k" using pow3_surj by meson
  then show ?thesis by (simp add: gf_mul_pow3 add.assoc)
qed auto

section \<open>The field\<close>

lemma gf_mul_one: "gf_mul 1 a = a"
  using gf_mul_step [of 0 a] by (simp add: pow3_def)

typedef gf256 = "UNIV :: u8 set" morphisms of_gf Gf ..

setup_lifting type_definition_gf256

instantiation gf256 :: field
begin

lift_definition zero_gf256 :: gf256 is 0 .
lift_definition one_gf256 :: gf256 is 1 .
lift_definition plus_gf256 :: "gf256 \<Rightarrow> gf256 \<Rightarrow> gf256" is "(XOR)" .
lift_definition minus_gf256 :: "gf256 \<Rightarrow> gf256 \<Rightarrow> gf256" is "(XOR)" .
lift_definition uminus_gf256 :: "gf256 \<Rightarrow> gf256" is "\<lambda>a. a" .
lift_definition times_gf256 :: "gf256 \<Rightarrow> gf256 \<Rightarrow> gf256" is gf_mul .
lift_definition inverse_gf256 :: "gf256 \<Rightarrow> gf256" is gf_inv .

definition divide_gf256 :: "gf256 \<Rightarrow> gf256 \<Rightarrow> gf256" where
  "divide_gf256 a b = a * inverse b"

instance
proof
  fix a b c :: gf256
  show "a + b + c = a + (b + c)" by transfer (rule xor.assoc)
  show "a + b = b + a" by transfer (rule xor.commute)
  show "0 + a = a" by transfer simp
  show "- a + a = 0" by transfer simp
  show "a - b = a + - b" by transfer simp
  show "a * b * c = a * (b * c)" by transfer (rule gf_mul_assoc)
  show "a * b = b * a" by transfer (rule gf_mul_commute)
  show "1 * a = a" by transfer (rule gf_mul_one)
  show "(a + b) * c = a * c + b * c" by transfer (rule gf_mul_distrib_left)
  show "(0 :: gf256) \<noteq> 1" by transfer simp
  show "a \<noteq> 0 \<Longrightarrow> inverse a * a = 1" by transfer (rule trans [OF gf_mul_commute gf_mul_inv])
  show "a div b = a * inverse b" by (simp add: divide_gf256_def)
  show "inverse (0 :: gf256) = 0" by transfer (simp add: gf_inv_masked)
qed

end

end
