(* ===== verification/Interpolation.thy ===== *)
theory Interpolation
  imports Main
begin

text \<open>
  Lagrange interpolation over a field: a polynomial with at most as many
  coefficients as there are points is recovered from its values there.
\<close>

section \<open>Interpolation\<close>

definition lagrange :: "'a :: field set \<Rightarrow> ('a \<Rightarrow> 'a) \<Rightarrow> 'a \<Rightarrow> 'a" where
  "lagrange S f z = (\<Sum>i\<in>S. f i * (\<Prod>j\<in>S - {i}. (z - j) / (i - j)))"

lemma lagrange_add: "lagrange S (\<lambda>x. f x + g x) z = lagrange S f z + lagrange S g z"
  by (simp add: lagrange_def distrib_right sum.distrib)

lemma lagrange_scale: "lagrange S (\<lambda>x. c * f x) z = c * lagrange S f z"
  by (simp add: lagrange_def sum_distrib_left mult.assoc)

lemma lagrange_shift:
  assumes "finite S" "a \<notin> S"
  shows "lagrange (insert a S) (\<lambda>x. (x - a) * g x) z = (z - a) * lagrange S g z"
proof -
  have "(i - a) * g i * (\<Prod>j\<in>insert a S - {i}. (z - j) / (i - j)) = (z - a) * (g i * (\<Prod>j\<in>S - {i}. (z - j) / (i - j)))" if "i \<in> S" for i
  proof -
    have "i \<noteq> a" "insert a S - {i} = insert a (S - {i})" "a \<notin> S - {i}" using that assms(2) by auto
    then show ?thesis using assms(1) by (simp add: field_simps)
  qed
  then have "(\<Sum>i\<in>S. (i - a) * g i * (\<Prod>j\<in>insert a S - {i}. (z - j) / (i - j))) = (\<Sum>i\<in>S. (z - a) * (g i * (\<Prod>j\<in>S - {i}. (z - j) / (i - j))))"
    by (rule sum.cong [OF refl])
  with assms show ?thesis by (simp add: lagrange_def sum_distrib_left)
qed

lemma two_points:
  fixes a b :: "'a :: field"
  assumes "b \<noteq> a"
  shows "(x - a) * (1 / (b - a)) + (x - b) * (1 / (a - b)) = 1"
proof -
  have "1 / (a - b) = - (1 / (b - a))" using divide_minus_right [of 1 "b - a"] by simp
  then have "(x - a) * (1 / (b - a)) + (x - b) * (1 / (a - b)) = ((x - a) - (x - b)) * (1 / (b - a))"
    by (simp only: left_diff_distrib mult_minus_right) simp
  with assms show ?thesis by simp
qed

lemma lagrange_one: "finite S \<Longrightarrow> S \<noteq> {} \<Longrightarrow> lagrange S (\<lambda>_. 1) z = 1"
proof (induction "card S" arbitrary: S rule: less_induct)
  case less
  obtain a where a: "a \<in> S" using less.prems by blast
  show ?case
  proof (cases "S = {a}")
    case False
    then obtain b where b: "b \<in> S" "b \<noteq> a" using a by blast
    have rm: "lagrange S (\<lambda>x. (x - c) * k) z = (z - c) * k" if "c \<in> S" for c k
    proof -
      have "S - {c} \<noteq> {}" "card (S - {c}) < card S" "insert c (S - {c}) = S" using that a b less.prems(1) card_Diff1_less [of S c] by auto
      with lagrange_shift [of "S - {c}" c "\<lambda>_. k" z] less.hyps [of "S - {c}"] lagrange_scale [of "S - {c}" k "\<lambda>_. 1" z] less.prems(1)
      show ?thesis by simp
    qed
    have "(\<lambda>_. 1) = (\<lambda>x. (x - a) * (1 / (b - a)) + (x - b) * (1 / (a - b)))" by (simp only: two_points [OF b(2)])
    then have "lagrange S (\<lambda>_. 1) z = (z - a) * (1 / (b - a)) + (z - b) * (1 / (a - b))"
      by (simp only: lagrange_add rm [OF a] rm [OF b(1)])
    also have "\<dots> = 1" by (rule two_points [OF b(2)])
    finally show ?thesis .
  qed (simp add: lagrange_def)
qed

text \<open>A polynomial by its coefficients, the constant one first.\<close>

fun pval :: "'a :: field list \<Rightarrow> 'a \<Rightarrow> 'a" where
  "pval [] x = 0"
| "pval (c # cs) x = c + x * pval cs x"

lemma horner_step: "c + x * ((x - a) * q + k) = (x - a) * (k + x * q) + (c + a * k)" for a :: "'a :: field"
  by (simp add: algebra_simps)

lemma pval_factor: "\<exists>qs. length qs = length cs \<and> (\<forall>x. pval (c # cs) x = (x - a) * pval qs x + pval (c # cs) a)"
proof (induction cs arbitrary: c)
  case (Cons c' cs)
  then obtain qs where qs: "length qs = length cs" "\<And>x. pval (c' # cs) x = (x - a) * pval qs x + pval (c' # cs) a" by blast
  have "pval (c # c' # cs) x = (x - a) * pval (pval (c' # cs) a # qs) x + pval (c # c' # cs) a" for x
    unfolding pval.simps(2) [of c "c' # cs"] pval.simps(2) [of _ qs]
    by (subst qs(2) [of x]) (rule horner_step)
  moreover have "length (pval (c' # cs) a # qs) = length (c' # cs)" using qs(1) by simp
  ultimately show ?case by blast
next
  case Nil
  show ?case by (rule exI [of _ "[]"]) simp
qed

lemma lagrange_pval: "finite S \<Longrightarrow> S \<noteq> {} \<Longrightarrow> length cs \<le> card S \<Longrightarrow> lagrange S (pval cs) z = pval cs z"
proof (induction "card S" arbitrary: S cs rule: less_induct)
  case less
  obtain a where a: "a \<in> S" using less.prems by blast
  show ?case
  proof (cases cs)
    case (Cons c cs')
    from pval_factor [of cs' c a] obtain qs where qs: "length qs = length cs'" "pval cs = (\<lambda>x. (x - a) * pval qs x + pval cs a * 1)"
      by (auto simp: Cons fun_eq_iff)
    have S: "insert a (S - {a}) = S" "finite (S - {a})" "card (S - {a}) < card S" "card (S - {a}) = card S - 1"
      using a less.prems(1) card_Diff1_less [of S a] by auto
    have "lagrange (S - {a}) (pval qs) z = pval qs z"
    proof (cases "S - {a} = {}")
      case True
      with a have "S = {a}" by blast
      with qs(1) less.prems(3) Cons have "qs = []" by simp
      then show ?thesis by (simp add: lagrange_def)
    next
      case False
      then show ?thesis using less.hyps [of "S - {a}" qs] S qs(1) less.prems(3) Cons by simp
    qed
    then have "lagrange S (\<lambda>x. (x - a) * pval qs x + pval cs a * 1) z = (z - a) * pval qs z + pval cs a * 1"
      using lagrange_shift [OF S(2), of a "pval qs" z] lagrange_one [OF less.prems(1,2), of z]
      by (simp only: lagrange_add lagrange_scale S(1)) simp
    then show ?thesis by (subst (1 2) qs(2))
  qed (simp add: lagrange_def)
qed

end
