(* ===== verification/Shamir_Correct.thy ===== *)
theory Shamir_Correct
  imports Shamir_Field Interpolation Sample_Prims
begin

text \<open>
  Secret sharing as a scheme: enough shares of a split recover the secret, fewer of them fit every secret of
  the same length, and the serialized form can be reconstructed only when a share is as long as the tag.
\<close>

section \<open>The loops are polynomial evaluation and Lagrange interpolation\<close>

lemma Gf_xor: "Gf (a XOR b) = Gf a + Gf b"
  by (simp add: plus_gf256.abs_eq eq_onp_def)

lemma Gf_minus: "Gf (a XOR b) = Gf a - Gf b"
  by (simp add: minus_gf256.abs_eq eq_onp_def)

lemma Gf_mul: "Gf (gf_mul a b) = Gf a * Gf b"
  by (simp add: times_gf256.abs_eq eq_onp_def)

lemma Gf_inv: "Gf (gf_inv a) = inverse (Gf a)"
  by (simp add: inverse_gf256.abs_eq eq_onp_def)

lemma Gf_const: "Gf 0 = 0" "Gf 1 = 1"
  by (simp_all add: zero_gf256.abs_eq one_gf256.abs_eq)

lemma Gf_eq: "Gf a = Gf b \<longleftrightarrow> a = b"
  by (simp add: Gf_inject)

lemmas Gf_hom = Gf_mul Gf_inv Gf_const

lemma evaluate_pval: "Gf (evaluate_polynomial cs x) = pval (map Gf cs) (Gf x)"
proof (induction cs)
  case (Cons c cs)
  have "evaluate_polynomial (c # cs) x = gf_mul (evaluate_polynomial cs x) x XOR c"
    by (simp add: evaluate_polynomial_def)
  with Cons show ?case by (simp add: Gf_xor Gf_mul)
qed (simp add: evaluate_polynomial_def Gf_const)

lemma xor_index: "((i :: nat) XOR j = 0) = (i = j)"
proof
  assume "i XOR j = 0"
  then have "bit i n = bit j n" for n using bit_xor_iff [of i j n] by simp
  then show "i = j" by (rule bit_eqI)
qed simp

lemma lagrange_factor_eq:
  "lagrange_factor xs x i (n, d) j = (if i = j then (n, d) else (gf_mul n (x XOR xs ! j), gf_mul d (xs ! i XOR xs ! j)))"
  by (simp add: lagrange_factor_def Let_def xor_index)

lemma factors_product:
  assumes "distinct js"
  shows "(case foldl (lagrange_factor xs x i) (n, d) js of (n', d') \<Rightarrow>
     Gf n' = Gf n * (\<Prod>j\<in>set js - {i}. Gf x - Gf (xs ! j)) \<and> Gf d' = Gf d * (\<Prod>j\<in>set js - {i}. Gf (xs ! i) - Gf (xs ! j)))"
  using assms
proof (induction js rule: rev_induct)
  case (snoc j js)
  obtain n' d' where nd: "foldl (lagrange_factor xs x i) (n, d) js = (n', d')" by fastforce
  have s: "set (js @ [j]) - {i} = (if i = j then set js - {i} else insert j (set js - {i}))" by auto
  have "j \<notin> set js - {i}" using snoc.prems by simp
  with snoc nd s show ?case by (auto simp: lagrange_factor_eq Gf_mul Gf_minus mult_ac)
qed simp

lemma lagrange_interpolate_sum:
  assumes "length ys = length xs"
  shows "\<exists>r. lagrange_interpolate xs ys x = Ok r \<and>
    Gf r = (\<Sum>i\<in>{0..<length xs}. Gf (ys ! i) * (\<Prod>j\<in>{0..<length xs} - {i}. (Gf x - Gf (xs ! j)) / (Gf (xs ! i) - Gf (xs ! j))))"
proof -
  define summand where "summand i = (case foldl (lagrange_factor xs x i) (ys ! i, 1) [0..<length xs] of (n, d) \<Rightarrow> gf_mul n (gf_inv d))" for i
  have t: "Gf (summand i) = Gf (ys ! i) * (\<Prod>j\<in>{0..<length xs} - {i}. (Gf x - Gf (xs ! j)) / (Gf (xs ! i) - Gf (xs ! j)))" for i
    using factors_product [where js = "[0..<length xs]" and xs = xs and x = x and i = i and n = "ys ! i" and d = 1]
    by (auto simp: summand_def Gf_hom prod_dividef divide_inverse prod.distrib prod_inversef [unfolded comp_def] split: prod.splits)
  have "Gf (foldl (\<lambda>r i. r XOR summand i) a is) = Gf a + (\<Sum>i\<leftarrow>is. Gf (summand i))" for a "is"
    by (induction "is" arbitrary: a) (simp_all add: Gf_xor add.assoc)
  from this [of 0 "[0..<length xs]"]
  have "Gf (foldl (\<lambda>r i. r XOR summand i) 0 [0..<length xs]) = (\<Sum>i\<in>{0..<length xs}. Gf (summand i))"
    by (simp add: Gf_const interv_sum_list_conv_sum_set_nat)
  moreover have "lagrange_interpolate xs ys x = Ok (foldl (\<lambda>r i. r XOR summand i) 0 [0..<length xs])"
    using assms by (simp add: lagrange_interpolate_def summand_def case_prod_unfold Let_def)
  ultimately show ?thesis by (simp add: t)
qed

lemma interpolation_recovers:
  assumes "distinct xs" "xs \<noteq> []" "length cs \<le> length xs" "cs \<noteq> []"
  shows "lagrange_interpolate xs (map (evaluate_polynomial cs) xs) 0 = Ok (hd cs)"
proof -
  define S where "S = (\<lambda>i. Gf (xs ! i)) ` {0..<length xs}"
  have inj: "inj_on (\<lambda>i. Gf (xs ! i)) {0..<length xs}" using assms(1) by (auto simp: inj_on_def Gf_eq nth_eq_iff_index_eq)
  have card: "finite S" "S \<noteq> {}" "card S = length xs" using assms(2) inj by (auto simp: S_def card_image)
  from lagrange_interpolate_sum [of "map (evaluate_polynomial cs) xs" xs 0] obtain r where
    r: "lagrange_interpolate xs (map (evaluate_polynomial cs) xs) 0 = Ok r"
       "Gf r = (\<Sum>i\<in>{0..<length xs}. pval (map Gf cs) (Gf (xs ! i)) * (\<Prod>j\<in>{0..<length xs} - {i}. (0 - Gf (xs ! j)) / (Gf (xs ! i) - Gf (xs ! j))))"
    by (auto simp: Gf_const evaluate_pval)
  have "(\<Prod>j\<in>{0..<length xs} - {i}. (0 - Gf (xs ! j)) / (Gf (xs ! i) - Gf (xs ! j))) = (\<Prod>y\<in>S - {Gf (xs ! i)}. (0 - y) / (Gf (xs ! i) - y))"
    if "i \<in> {0..<length xs}" for i
  proof -
    have "S - {Gf (xs ! i)} = (\<lambda>i. Gf (xs ! i)) ` ({0..<length xs} - {i})" using inj that by (auto simp: S_def inj_on_def)
    then show ?thesis by (simp only: prod.reindex [OF inj_on_subset [OF inj Diff_subset]] comp_def)
  qed
  then have "Gf r = lagrange S (pval (map Gf cs)) 0"
    unfolding r(2) lagrange_def S_def by (subst sum.reindex [OF inj]) (simp add: S_def)
  also have "\<dots> = pval (map Gf cs) 0" using lagrange_pval [OF card(1,2), of "map Gf cs" 0] assms(3) card(3) by simp
  also have "\<dots> = Gf (hd cs)" using assms(4) by (cases cs) simp_all
  finally show ?thesis using r(1) by (simp add: Gf_eq)
qed

section \<open>The shares of a split\<close>

definition share_of :: "bytes \<Rightarrow> (nat \<Rightarrow> bytes) \<Rightarrow> nat \<Rightarrow> bytes" where
  "share_of secret rand i =
     MAGIC_BYTES @ [word_of_nat i + 1] @ map (\<lambda>k. evaluate_polynomial (secret ! k # rand k) (word_of_nat i + 1)) [0..<length secret]"

lemma split_bytes_eq:
  "split_bytes secret rand k shares =
     map (\<lambda>i. shares ! i @ map (\<lambda>j. evaluate_polynomial (secret ! j # rand (k + j)) (word_of_nat i + 1)) [0..<length secret]) [0..<length shares]"
proof (induction secret arbitrary: k shares)
  case Nil
  show ?case by (simp add: map_nth)
next
  case (Cons b secret)
  have "map (\<lambda>j. f j) [0..<Suc (length secret)] = f 0 # map (\<lambda>j. f (Suc j)) [0..<length secret]" for f :: "nat \<Rightarrow> u8"
    by (simp only: upt_conv_Cons zero_less_Suc map_Suc_upt [symmetric] list.map map_map comp_def)
  then show ?case by (simp add: Cons.IH del: upt_Suc)
qed

lemma split_secret_Ok:
  assumes "split_secret P secret threshold share_count auth_key rand = Ok shares"
  obtains tag where "shares = map (share_of secret rand) [0..<unat share_count] @ [tag]"
    "hmac_sha256 P auth_key secret = Some tag" "2 \<le> unat threshold" "unat threshold \<le> unat share_count"
    "secret \<noteq> []" "length secret \<le> MAX_SHARE_SIZE" "length auth_key = HMAC_BYTES"
proof -
  have "2 \<le> unat threshold" "unat threshold \<le> unat share_count"
    using assms by (auto simp: split_secret_def word_less_nat_alt split: if_splits)
  then show ?thesis using assms that
    by (auto simp: split_secret_def Let_def res_bind_eq_Ok ok_or_def share_of_def split_bytes_eq split: if_splits option.splits)
qed

lemma share_index: "i < 255 \<Longrightarrow> unat (word_of_nat i + 1 :: u8) = Suc i"
proof -
  assume "i < 255"
  then have "word_of_nat i + 1 = (word_of_nat (Suc i) :: u8)" "Suc i < 2 ^ LENGTH(8)" by simp_all
  then show ?thesis by (simp only: unat_word_of_nat)
qed

lemma magic_length: "length MAGIC_BYTES = 4"
  by (simp add: MAGIC_BYTES_def)

lemma share_of_x: "share_of secret rand i ! 4 = word_of_nat i + 1"
  by (simp add: share_of_def MAGIC_BYTES_def)

lemma share_of_y: "k < length secret \<Longrightarrow> share_of secret rand i ! (5 + k) = evaluate_polynomial (secret ! k # rand k) (word_of_nat i + 1)"
  by (simp add: share_of_def MAGIC_BYTES_def)

lemma share_of_shape: "length (share_of secret rand i) = 5 + length secret" "take 4 (share_of secret rand i) = MAGIC_BYTES"
  by (simp_all add: share_of_def MAGIC_BYTES_def)

lemma check_distinct_x_Ok: "check_distinct_x xs seen = Ok () \<longleftrightarrow> distinct xs \<and> set xs \<inter> seen = {}"
  by (induction xs seen rule: check_distinct_x.induct) auto

lemma reconstruct_bytes_map:
  "(\<And>k. k \<in> set ks \<Longrightarrow> lagrange_interpolate xs (map (\<lambda>s. s ! (SHARE_HEADER_SIZE + k)) ds) 0 = Ok (f k)) \<Longrightarrow>
   reconstruct_bytes ds xs ks = Ok (map f ks)"
  by (induction ks) auto

text \<open>Chosen shares are the shares of distinct indices.\<close>

lemma chosen_indices:
  assumes "set ds \<subseteq> share_of secret rand ` {0..<n}" "distinct ds" "n \<le> 255"
  obtains ks where "ds = map (share_of secret rand) ks" "distinct (map (\<lambda>i. word_of_nat i + 1 :: u8) ks)" "set ks \<subseteq> {0..<n}"
proof -
  define g where "g d = unat (d ! 4) - 1" for d :: bytes
  have g: "g (share_of secret rand i) = i" if "i < n" for i using that assms(3) share_index [of i] by (simp add: g_def share_of_x)
  have mg: "ds = map (share_of secret rand) (map g ds)" using assms(1) g by (auto intro!: map_idI [symmetric])
  moreover have r: "set (map g ds) \<subseteq> {0..<n}" using assms(1) g by auto
  moreover have "distinct (map g ds)" using assms(2) by (subst (asm) mg) (simp only: distinct_map)
  moreover have "inj_on (\<lambda>i. word_of_nat i + 1 :: u8) {0..<n}"
    by (rule inj_on_inverseI [of _ "\<lambda>x. unat x - 1"]) (use assms(3) share_index in auto)
  ultimately show ?thesis using that by (meson distinct_map inj_on_subset)
qed

lemma reconstruct_chosen:
  assumes "ds = map (share_of secret rand) ks" "distinct (map (\<lambda>i. word_of_nat i + 1 :: u8) ks)"
    and "\<And>k. length (rand k) < length ks" "m \<le> length ks"
    and "secret \<noteq> []" "length secret \<le> MAX_SHARE_SIZE" "length auth_key = HMAC_BYTES" "hmac_sha256 P auth_key secret = Some tag"
  shows "reconstruct P (ds @ [tag]) auth_key m = Ok secret"
proof -
  define xs where "xs = map (\<lambda>i. word_of_nat i + 1 :: u8) ks"
  have ks: "ks \<noteq> []" using assms(3) by auto
  have "reconstruct_bytes ds xs [0..<length secret] = Ok (map ((!) secret) [0..<length secret])"
  proof (rule reconstruct_bytes_map)
    fix k assume "k \<in> set [0..<length secret]"
    then have "map (\<lambda>s. s ! (SHARE_HEADER_SIZE + k)) ds = map (evaluate_polynomial (secret ! k # rand k)) xs"
      by (simp add: assms(1) xs_def share_of_y)
    then show "lagrange_interpolate xs (map (\<lambda>s. s ! (SHARE_HEADER_SIZE + k)) ds) 0 = Ok (secret ! k)"
      using interpolation_recovers [of xs "secret ! k # rand k"] assms(2) assms(3) [of k] ks by (simp add: xs_def Suc_le_eq)
  qed
  moreover have "map (\<lambda>s. s ! 4) ds = xs" by (simp add: assms(1) xs_def share_of_x)
  moreover have "check_distinct_x xs {} = Ok ()" using assms(2) by (simp add: check_distinct_x_Ok xs_def)
  moreover have "ds \<noteq> []" "length (ds ! 0) = 5 + length secret" "length ds = length ks" using ks by (auto simp: assms(1) share_of_shape nth_Cons' neq_Nil_conv)
  moreover have "\<not> list_ex (\<lambda>s. length s \<noteq> 5 + length secret \<or> take 4 s \<noteq> MAGIC_BYTES) ds"
    by (auto simp: assms(1) list_ex_iff share_of_shape)
  moreover have "2 \<le> Suc (length ks)" using ks by (cases ks) simp_all
  ultimately show ?thesis using assms(4-8)
    by (simp add: reconstruct_def Let_def nth_append magic_length map_nth ok_or_def not_less Suc_le_eq)
qed

text \<open>C11. Any shares of a successful split, at least as many as the threshold, in any order, together with the
  tag, reconstruct exactly the secret that was split: the table arithmetic of GF(256) is a field and the loops
  interpolate the polynomial of every byte.
\<close>

theorem shamir_roundtrip:
  assumes "split_secret P secret threshold share_count auth_key rand = Ok shares"
    and "\<forall>k. length (rand k) = unat threshold - 1"
    and "set chosen \<subseteq> set (butlast shares) \<and> distinct chosen \<and> unat threshold \<le> length chosen"
  shows "reconstruct P (chosen @ [last shares]) auth_key (unat threshold) = Ok secret"
proof -
  from assms(1) obtain tag where sh: "shares = map (share_of secret rand) [0..<unat share_count] @ [tag]"
    and ok: "hmac_sha256 P auth_key secret = Some tag" "2 \<le> unat threshold" "secret \<noteq> []" "length secret \<le> MAX_SHARE_SIZE"
      "length auth_key = HMAC_BYTES"
    by (rule split_secret_Ok)
  have "unat share_count < 2 ^ LENGTH(8)" by (rule unsigned_less)
  then have "unat share_count \<le> 255" by simp
  with assms(3) sh obtain ks where ks: "chosen = map (share_of secret rand) ks" "distinct (map (\<lambda>i. word_of_nat i + 1 :: u8) ks)"
    by (auto elim: chosen_indices [of chosen secret rand "unat share_count"])
  have "length (rand k) < length ks" for k using assms(2,3) ok(2) ks(1) by (auto simp: less_imp_diff_less)
  with ks ok assms(3) show ?thesis by (simp add: sh reconstruct_chosen)
qed

text \<open>A split with the coefficient 1: the value of a byte \<open>b\<close> at \<open>x\<close> is \<open>b XOR x\<close>.\<close>

lemma evaluate_line: "evaluate_polynomial [b, 1] x = x XOR b"
  by (simp add: evaluate_polynomial_def gf_mul_one)

definition sample_tag :: bytes where
  "sample_tag = the (hmac_sha256 sample_prims (replicate 32 0) [7])"

lemma sample_split:
  "split_secret sample_prims [7] 2 3 (replicate 32 0) (\<lambda>_. [1]) =
     Ok [MAGIC_BYTES @ [1, 6], MAGIC_BYTES @ [2, 5], MAGIC_BYTES @ [3, 4], sample_tag]"
  by (simp add: split_secret_def sample_tag_def sample_prims_def ok_or_def evaluate_line upt_conv_Cons MAX_SHARE_SIZE_def)

theorem shamir_roundtrip_witness:
  "reconstruct sample_prims [MAGIC_BYTES @ [3, 4], MAGIC_BYTES @ [1, 6], sample_tag] (replicate 32 0) 2 = Ok [7]"
  using shamir_roundtrip [OF sample_split, of "[MAGIC_BYTES @ [3, 4], MAGIC_BYTES @ [1, 6]]"] by simp

section \<open>Fewer shares than the threshold\<close>

lemma pval_shift: "\<exists>ps. length ps = Suc (length qs) \<and> (\<forall>x. pval ps x = (x - a) * pval qs x + c)"
proof (induction qs arbitrary: c)
  case Nil
  show ?case by (rule exI [of _ "[c]"]) simp
next
  case (Cons d qs)
  then obtain ps where ps: "length ps = Suc (length qs)" "\<And>x. pval ps x = (x - a) * pval qs x + d" by blast
  have "pval ((c - a * d) # ps) x = (x - a) * pval (d # qs) x + c" for x
    by (simp add: ps(2)) (simp add: algebra_simps)
  with ps(1) show ?case by (intro exI [of _ "(c - a * d) # ps"]) (simp del: pval.simps)
qed

lemma interpolant_exists: "finite S \<Longrightarrow> \<exists>cs. length cs = card S \<and> (\<forall>x\<in>S. pval cs x = f x)"
proof (induction S arbitrary: f rule: finite_induct)
  case (insert a S)
  from insert.IH [of "\<lambda>x. (f x - f a) / (x - a)"] obtain qs where
    qs: "length qs = card S" "\<And>x. x \<in> S \<Longrightarrow> pval qs x = (f x - f a) / (x - a)" by blast
  from pval_shift [of qs a "f a"] obtain ps where ps: "length ps = Suc (length qs)" "\<And>x. pval ps x = (x - a) * pval qs x + f a" by blast
  have "pval ps x = f x" if "x \<in> insert a S" for x
  proof (cases "x = a")
    case False
    then show ?thesis using that insert.hyps by (simp add: ps(2) qs(2))
  qed (simp add: ps(2))
  with ps(1) qs(1) insert.hyps show ?case by (intro exI [of _ ps]) simp
qed simp

lemma pval_pad: "pval (cs @ replicate n 0) x = pval cs x"
proof -
  have "pval (replicate n 0) x = 0" by (induction n) simp_all
  then show ?thesis by (induction cs) simp_all
qed

lemma other_coefficients:
  assumes "finite X" "0 \<notin> X" "card X < t"
  shows "\<exists>r. length r = t - 1 \<and> (\<forall>x\<in>X. evaluate_polynomial (b # r) x = y x)"
proof -
  define S where "S = insert 0 (Gf ` X)"
  have "Gf 0 \<notin> Gf ` X" using assms(2) by (auto simp: Gf_eq)
  then have S: "finite S" "card S = Suc (card X)" using assms(1) by (auto simp: S_def card_image inj_on_def Gf_eq Gf_const)
  from interpolant_exists [OF S(1), of "\<lambda>x. if x = 0 then Gf b else Gf (y (of_gf x))"] obtain cs where
    cs: "length cs = Suc (card X)" "\<And>x. x \<in> S \<Longrightarrow> pval cs x = (if x = 0 then Gf b else Gf (y (of_gf x)))" using S(2) by auto
  define ds where "ds = map of_gf (cs @ replicate (t - Suc (card X)) 0)"
  have m: "map Gf ds = cs @ replicate (t - Suc (card X)) 0" by (simp add: ds_def comp_def of_gf_inverse)
  have ev: "Gf (evaluate_polynomial ds x) = pval cs (Gf x)" for x by (simp add: evaluate_pval m pval_pad)
  obtain c r where ds: "ds = c # r" using cs(1) by (cases ds) (auto simp: ds_def)
  have "Gf c = pval (map Gf ds) 0" by (simp add: ds)
  also have "\<dots> = Gf b" using cs(2) [of 0] by (simp add: m pval_pad S_def)
  finally have c: "c = b" by (simp add: Gf_eq)
  have "length ds = t" using cs(1) assms(3) by (simp add: ds_def)
  moreover have "evaluate_polynomial ds x = y x" if "x \<in> X" for x
  proof -
    have "Gf x \<noteq> 0" using that assms(2) by (auto simp: Gf_eq Gf_const(1) [symmetric])
    then show ?thesis using ev [of x] cs(2) [of "Gf x"] that by (simp add: S_def Gf_inverse Gf_eq)
  qed
  ultimately show ?thesis by (intro exI [of _ r]) (auto simp: ds c)
qed

lemma split_secret_total:
  assumes "hash_ok P" "2 \<le> unat threshold" "unat threshold \<le> unat share_count" "secret \<noteq> []" "length secret \<le> MAX_SHARE_SIZE"
    "length auth_key = HMAC_BYTES"
  shows "\<exists>tag. split_secret P secret threshold share_count auth_key rand = Ok (map (share_of secret rand) [0..<unat share_count] @ [tag])"
proof -
  obtain tag where "hmac_sha256 P auth_key secret = Some tag" using assms(1) unfolding hash_ok_def by blast
  with assms show ?thesis
    by (simp add: split_secret_def Let_def ok_or_def share_of_def split_bytes_eq word_less_nat_alt not_less)
qed

text \<open>C12. Fewer shares than the threshold say nothing about the secret: whatever share values a set of fewer
  participants holds, every secret of the same length can be split, with other random coefficients, into
  shares that give these participants the very same values.
\<close>

theorem shares_hide_secret:
  assumes "hash_ok P"
    and "split_secret P secret threshold share_count auth_key rand = Ok shares"
    and "\<forall>k. length (rand k) = unat threshold - 1"
    and "length other = length secret"
    and "held \<subseteq> {0..<unat share_count} \<and> card held < unat threshold"
  shows "\<exists>rand' shares'. (\<forall>k. length (rand' k) = unat threshold - 1) \<and>
    split_secret P other threshold share_count auth_key rand' = Ok shares' \<and> (\<forall>i\<in>held. shares' ! i = shares ! i)"
proof -
  from assms(2) obtain tag where sh: "shares = map (share_of secret rand) [0..<unat share_count] @ [tag]"
    and ok: "2 \<le> unat threshold" "unat threshold \<le> unat share_count" "secret \<noteq> []" "length secret \<le> MAX_SHARE_SIZE"
      "length auth_key = HMAC_BYTES"
    by (rule split_secret_Ok)
  define X where "X = (\<lambda>i. word_of_nat i + 1 :: u8) ` held"
  have "unat share_count < 2 ^ LENGTH(8)" by (rule unsigned_less)
  then have small: "i < 255" if "i \<in> held" for i using assms(5) that by auto
  have fin: "finite held" using assms(5) finite_subset by blast
  have "0 \<notin> X"
  proof
    assume "0 \<in> X"
    then obtain i where "i \<in> held" "word_of_nat i + 1 = (0 :: u8)" by (auto simp: X_def)
    with share_index [OF small] show False by fastforce
  qed
  moreover have "finite X" "card X < unat threshold" using fin card_image_le [OF fin, of "\<lambda>i. word_of_nat i + 1 :: u8"] assms(5) by (auto simp: X_def)
  ultimately have "\<forall>k. \<exists>r. length r = unat threshold - 1 \<and>
      (\<forall>x\<in>X. evaluate_polynomial (other ! k # r) x = evaluate_polynomial (secret ! k # rand k) x)"
    by (intro allI other_coefficients)
  then obtain rand' where r: "\<And>k. length (rand' k) = unat threshold - 1"
    "\<And>k x. x \<in> X \<Longrightarrow> evaluate_polynomial (other ! k # rand' k) x = evaluate_polynomial (secret ! k # rand k) x"
    by metis
  have len: "other \<noteq> []" "length other \<le> MAX_SHARE_SIZE" using ok(3,4) assms(4) by auto
  obtain tag' where ot: "split_secret P other threshold share_count auth_key rand' = Ok (map (share_of other rand') [0..<unat share_count] @ [tag'])"
    using split_secret_total [OF assms(1) ok(1,2) len ok(5)] by blast
  have "share_of other rand' i = share_of secret rand i" if "i \<in> held" for i
    using that r(2) by (simp add: share_of_def assms(4) X_def)
  then have "(map (share_of other rand') [0..<unat share_count] @ [tag']) ! i = shares ! i" if "i \<in> held" for i
    using that assms(5) by (auto simp: sh nth_append)
  with r(1) ot show ?thesis by blast
qed

theorem shares_hide_secret_witness:
  "\<exists>rand shares. length (rand 0) = 1 \<and>
     split_secret sample_prims [200] 2 3 (replicate 32 0) rand = Ok shares \<and> shares ! 1 = MAGIC_BYTES @ [2, 5]"
proof -
  from shares_hide_secret [OF sample_hash_ok sample_split, of "[200]" "{1}"] show ?thesis by auto
qed

section \<open>The serialized form\<close>

lemma reconstruct_tag_length:
  assumes "hash_ok P" "reconstruct P shares auth_key m = Ok secret"
  shows "length (last shares) = HMAC_BYTES"
proof -
  have "hmac_sha256 P auth_key secret = Some (last shares)"
    using assms(2) by (auto simp: reconstruct_def Let_def res_bind_eq_Ok ok_or_def split: if_splits option.splits)
  with assms(1) show ?thesis unfolding hash_ok_def by (metis option.inject)
qed

text \<open>
  The serialized form is cut into pieces of one length, the last of which is taken for the tag: it is
  accepted only when the shares have the 32 bytes of the tag, that is, for secrets of 27 bytes.
\<close>

theorem reconstruct_serialized_length:
  assumes "hash_ok P" "reconstruct_serialized P serialized share_length share_count auth_key m = Ok secret"
  shows "share_length = HMAC_BYTES"
proof -
  define pieces where "pieces = map (\<lambda>i. take share_length (drop (i * share_length) serialized)) [0..<share_count]"
  have p: "length serialized = share_length * share_count" "reconstruct P pieces auth_key m = Ok secret"
    using assms(2) by (auto simp: reconstruct_serialized_def pieces_def split: if_splits)
  then have n: "2 \<le> share_count" by (auto simp: reconstruct_def pieces_def split: if_splits)
  then have "last pieces = take share_length (drop ((share_count - 1) * share_length) serialized)"
    by (simp add: pieces_def last_map last_upt)
  moreover have "share_length * share_count - (share_count - 1) * share_length = share_length"
    using n by (cases share_count) (simp_all add: mult.commute)
  ultimately have "length (last pieces) = share_length" by (simp add: p(1))
  with reconstruct_tag_length [OF assms(1) p(2)] show ?thesis by simp
qed

end
