(* ===== verification/Spec2Isabelle.thy ===== *)
theory Spec2Isabelle
  imports Replay_Window Secure_Memory Nonce Padding Dh_Validator Voip_Media BTree_Map Master_Key Key_Schedule Sender_Key
    Tree_Hash Membership Tree_Kem_Process Session_Properties Identity_X3dh Api_Properties Shamir_Correct
begin

text \<open>
  \<^bold>\<open>Verification of the Aura protected protocol library\<close>

  The library (\<^verbatim>\<open>src/src\<close>) is an end-to-end encrypted messaging protocol: a hybrid X25519 and Kyber
  handshake, a two-party session with a double ratchet, groups over a ratchet tree with sender keys,
  media encryption for calls, and the storage of keys and states. The theories below translate it
  function by function. They are ordered from the bottom: primitives, then each component, then the
  properties that connect them.

  \<^bold>\<open>Conventions.\<close> Bytes are 8-bit words. Counters and lengths are natural numbers; where the code checks
  or wraps at 32 or 64 bits the bound is written out, and an addition that would overflow is an error value
  of its own. A fallible function returns a value of \<open>'a pres\<close>, an error or a result, with the error
  of the source and its message text; the interpolated values of a message are left as placeholders. A function that changes
  state returns its result and the new state, also on its error paths. Random bytes and the clock are
  arguments. Loops are structural recursions or folds; where the code bounds a recursion by a depth limit,
  so does the model, and a lemma shows that the limit is never reached on a well-formed tree. No definition
  takes fuel.

  \<^bold>\<open>Parameters.\<close> Third-party cryptography is the record \<open>prims\<close> (\<open>Crypto\<close>); what is relied on, each as
  documented by the standard of the primitive, is \<open>aead_ok\<close>, \<open>hkdf_ok\<close>, \<open>hash_ok\<close>, \<open>dh_ok\<close>,
  \<open>kem_ok\<close>, \<open>sig_ok\<close> and \<open>x25519_keys_ok\<close>, hypotheses of the theorems that need them. The generated
  encoding of protocol messages is the parameter \<open>codec\<close> or \<open>handshake_codec\<close>, of which it is assumed that
  decoding inverts encoding within the size of the fields. \<open>Sample_Prims\<close>, \<open>Sample_Codec\<close> and
  \<open>Sample_Handshake\<close> give concrete instances that meet all of it; the examples of the properties compute
  with them.

  \<^bold>\<open>Foundations.\<close>
  \<^item> \<open>Prelude\<close>: results, byte encodings, list and word lemmas, the collections of rewrite rules.
  \<^item> \<open>Core\<close> (\<^verbatim>\<open>core/constants.rs\<close>, \<^verbatim>\<open>core/errors.rs\<close>): the limits, labels and errors.
  \<^item> \<open>Crypto\<close> (\<^verbatim>\<open>crypto/aes_gcm.rs\<close>, \<^verbatim>\<open>hkdf.rs\<close>, \<^verbatim>\<open>blake2b.rs\<close>, \<^verbatim>\<open>kyber_interop.rs\<close>,
    \<^verbatim>\<open>crypto_interop.rs\<close>): the wrappers around the primitives.
  \<^item> \<open>BTree_Map\<close>: the ordered map of the standard library as a sorted association list, with the locale
    \<open>ordered_map\<close> of its laws. \<open>Hash_Chain\<close>: the locale \<open>ratchet_chain\<close> of a one-way key chain, which the session,
    the sender keys and the media ratchet interpret.
  \<^item> \<open>Proto_State\<close>, \<open>Proto_Handshake\<close>, \<open>Proto_Group\<close> (\<^verbatim>\<open>src/proto\<close>): the messages as records.

  \<^bold>\<open>Small components.\<close>
  \<^item> \<open>Secure_Memory\<close> (\<^verbatim>\<open>crypto/secure_memory.rs\<close>): the pool of locked buffers as an explicit store; in
    every reachable pool live handles are disjoint and fresh ones read as zeros.
  \<^item> \<open>Padding\<close> (\<^verbatim>\<open>crypto/padding.rs\<close>): the branch-free unpadding accepts exactly the padded messages; the
    locale \<open>padding_scheme\<close> is shared with the padding of media frames.
  \<^item> \<open>Dh_Validator\<close> (\<^verbatim>\<open>security/validation/dh_validator.rs\<close>): the borrow chain decides the comparison with
    the field prime; which entries of the small-order table have small order.
  \<^item> \<open>Nonce\<close> (\<^verbatim>\<open>protocol/nonce.rs\<close>): no nonce is handed out twice.
  \<^item> \<open>Replay_Window\<close>, \<open>Voip_Media\<close> (\<^verbatim>\<open>protocol/voip/replay_window.rs\<close>, \<^verbatim>\<open>frame.rs\<close>, \<^verbatim>\<open>media_crypto.rs\<close>,
    \<^verbatim>\<open>key_ratchet.rs\<close>): the window as a bit mask against the set of accepted counters; frames survive
    sealing and opening; the receiver's speculative key ratchet equals the sender's.
  \<^item> \<open>Master_Key\<close> (\<^verbatim>\<open>crypto/master_key_derivation.rs\<close>): all seeds exist, and the derivations of different kinds, indices or members expand different inputs.
  \<^item> \<open>Shamir\<close>, \<open>Shamir_Field\<close>, \<open>Interpolation\<close>, \<open>Shamir_Correct\<close> (\<^verbatim>\<open>crypto/shamir_secret_sharing.rs\<close>): the table
    arithmetic makes bytes a field, the interpolation loop is Lagrange's formula, so threshold many shares
    give the secret back and fewer fit every secret.

  \<^bold>\<open>Two parties.\<close>
  \<^item> \<open>Session_State\<close>, \<open>Session\<close>, \<open>Session_Seal\<close> (\<^verbatim>\<open>protocol/session.rs\<close>): state, caches, hybrid ratchet, encryption,
    decryption with roll back, export and import.
  \<^item> \<open>Session_Inv\<close> and \<open>Session_Receive\<close>: the invariant of a reachable session and what a decryption changes.
    \<open>Session_Sync\<close> and \<open>Session_Conversation\<close>: the relation between the two ends and that every message of a conversation
    is delivered. \<open>Session_Properties\<close>: a message is accepted once, a failed operation restores the
    session, the caches stay within their limits.
  \<^item> \<open>Identity\<close>, \<open>Identity_X3dh\<close> (\<^verbatim>\<open>identity/identity_keys.rs\<close>, \<^verbatim>\<open>models\<close>): long-term keys, one-time pre-keys, the
    memory of seen handshakes and its sealed form.
  \<^item> \<open>Handshake\<close> (\<^verbatim>\<open>protocol/handshake.rs\<close>) and \<open>Handshake_Agreement\<close>: both roles, and that they derive the same
    keys from matching bundles.
  \<^item> \<open>Sealed_Slot\<close>, \<open>Api\<close> (\<^verbatim>\<open>api/mod.rs\<close>) and \<open>Api_Properties\<close>: counters against old states, the facade, and
    the properties from bundle to conversation: a handshake of two identities succeeds, is accepted once,
    and its sessions deliver; the memory of handshakes and the counters survive storage.

  \<^bold>\<open>Groups.\<close>
  \<^item> \<open>Key_Package\<close> (\<^verbatim>\<open>key_package.rs\<close>), \<open>Key_Schedule\<close> (\<^verbatim>\<open>key_schedule.rs\<close>), \<open>Sender_Key\<close> (\<^verbatim>\<open>sender_key.rs\<close>):
    packages validate and seal, epochs derive, sender and receiver agree on message keys and use each once.
  \<^item> \<open>Tree_Math\<close>, \<open>Ratchet_Tree\<close>, \<open>Ratchet_Tree_Inv\<close>, \<open>Tree_Hash\<close> (\<^verbatim>\<open>tree.rs\<close>): the index formulas describe one
    binary tree with at most 32 levels, so the depth limit suffices; the tree invariant, resolution, removal,
    the binding of the tree hash, and export and import.
  \<^item> \<open>Membership\<close> (\<^verbatim>\<open>membership.rs\<close>): exactly which proposals are accepted and what applying them does.

  \<^item> \<open>Tree_Kem\<close> (\<^verbatim>\<open>tree_kem.rs\<close>), \<open>Tree_Paths\<close>, \<open>Tree_Kem_Agree\<close>, \<open>Tree_Kem_Process\<close>: update paths, how the direct paths of two leaves
    meet, what a committer makes, and that every other member with the keys of its own path gets the same
    commit secret and public tree.

  \<^bold>\<open>Not modelled.\<close> Commits, welcomes and the group session (\<^verbatim>\<open>protocol/group/commit.rs\<close>, \<^verbatim>\<open>welcome.rs\<close>, \<^verbatim>\<open>mod.rs\<close>), the call state machine and its key exchange
  (\<^verbatim>\<open>protocol/voip/mod.rs\<close>, \<^verbatim>\<open>call_key_exchange.rs\<close>), channels, attachments and the relay facade
  (\<^verbatim>\<open>protocol/channel.rs\<close>, \<^verbatim>\<open>attachment.rs\<close>, \<^verbatim>\<open>api/relay.rs\<close>) are further clients of the components above and are
  left out. The foreign function interface (\<^verbatim>\<open>ffi/api.rs\<close>) is about raw memory. Wiping of buffers that are dropped at once, logging, locking of mutexes and the
  features for test vectors have no counterpart.
\<close>

end
